(* ===== verification/Prelude.thy ===== *)
theory Prelude imports Main "HOL-Library.Word" begin

text \<open>
  Shared vocabulary of the development: the integer and shard types of the code, C++ exceptions as
  values, the loop combinators every component uses, and the generic lemmas about them.

  \<^item> \<open>ShardId\<close> and \<open>ShardWord\<close> are \<open>std::uint32_t\<close>, modelled as 32-bit words.
  \<^item> A \<open>std::size_t\<close> that only counts elements or indexes a vector is a \<open>nat\<close>; where the code's
    64-bit arithmetic can wrap, the wrap-around is written out at the definition concerned.
  \<^item> \<open>std::chrono\<close> durations and time points are \<open>int\<close>: signed overflow is undefined behaviour in
    C++, so the models describe the executions in which it does not happen.
  \<^item> A function that may throw returns \<open>exn + 'a\<close>, with the exception on the left.
\<close>

unbundle bit_operations_syntax

section \<open>Types shared by all components\<close>

type_synonym ShardId = "32 word"
type_synonym ShardWord = "32 word"
type_synonym WordShard = "ShardWord list"
type_synonym ShardSlots = "WordShard option list"
type_synonym microseconds = int
type_synonym RequestId = nat

text \<open>The standard exceptions the program throws, with their \<open>what()\<close> message.\<close>

datatype exn =
    InvalidArgument string
  | LogicError string
  | RuntimeError string
  | OutOfRange
  | LengthError

type_synonym 'a result = "exn + 'a"

section \<open>Sequencing of fallible computations\<close>

named_theorems exn_simps \<open>rewrite rules for computations that may throw\<close>

definition bindE :: "'e + 'a \<Rightarrow> ('a \<Rightarrow> 'e + 'b) \<Rightarrow> 'e + 'b" where
  "bindE m f = (case m of Inl e \<Rightarrow> Inl e | Inr x \<Rightarrow> f x)"

lemma bindE_Inl [simp]: "bindE (Inl e) f = Inl e"
  by (simp add: bindE_def)

lemma bindE_Inr [simp]: "bindE (Inr x) f = f x"
  by (simp add: bindE_def)

lemma bindE_eq_Inr [exn_simps]: "bindE m f = Inr y \<longleftrightarrow> (\<exists>x. m = Inr x \<and> f x = Inr y)"
  by (cases m) auto

lemma bindE_eq_Inl [exn_simps]:
  "bindE m f = Inl e \<longleftrightarrow> m = Inl e \<or> (\<exists>x. m = Inr x \<and> f x = Inl e)"
  by (cases m) auto

lemma bindE_cong [fundef_cong]:
  "m = m' \<Longrightarrow> (\<And>x. m' = Inr x \<Longrightarrow> f x = f' x) \<Longrightarrow> bindE m f = bindE m' f'"
  by (cases m') auto

text \<open>\<open>if (condition) throw e;\<close>\<close>

definition throw_if :: "bool \<Rightarrow> 'e \<Rightarrow> 'e + unit" where
  "throw_if b e = (if b then Inl e else Inr ())"

lemma throw_if_True [simp]: "throw_if True e = Inl e"
  and throw_if_False [simp]: "throw_if False e = Inr ()"
  by (simp_all add: throw_if_def)

lemma throw_if_eq_Inr [exn_simps]: "throw_if b e = Inr u \<longleftrightarrow> \<not> b"
  by (simp add: throw_if_def)

lemma throw_if_eq_Inl [exn_simps]: "throw_if b e = Inl e' \<longleftrightarrow> b \<and> e' = e"
  by (auto simp: throw_if_def)

text \<open>\<open>v.at(i)\<close>: a checked vector access.\<close>

definition vec_at :: "'a list \<Rightarrow> nat \<Rightarrow> 'a result" where
  "vec_at xs i = (if i < length xs then Inr (xs ! i) else Inl OutOfRange)"

lemma vec_at_in [simp]: "i < length xs \<Longrightarrow> vec_at xs i = Inr (xs ! i)"
  by (simp add: vec_at_def)

lemma vec_at_eq_Inr [exn_simps]: "vec_at xs i = Inr x \<longleftrightarrow> i < length xs \<and> x = xs ! i"
  by (auto simp: vec_at_def)

lemma vec_at_eq_Inl [exn_simps]: "vec_at xs i = Inl e \<longleftrightarrow> length xs \<le> i \<and> e = OutOfRange"
  by (auto simp: vec_at_def)

text \<open>A \<open>for\<close> loop over a range whose body may throw, threading a state.\<close>

fun foldE :: "('a \<Rightarrow> 's \<Rightarrow> 'e + 's) \<Rightarrow> 'a list \<Rightarrow> 's \<Rightarrow> 'e + 's" where
  "foldE f [] s = Inr s"
| "foldE f (x # xs) s = bindE (f x s) (foldE f xs)"

lemma foldE_append: "foldE f (xs @ ys) s = bindE (foldE f xs s) (foldE f ys)"
  by (induction xs arbitrary: s) (auto simp: bindE_def split: sum.splits)

text \<open>Loop rule: an invariant of the processed prefix holds at the exit.\<close>

lemma foldE_invariant:
  assumes "foldE f xs s = Inr t"
    and "I [] s"
    and step: "\<And>done x rest u v. xs = done @ x # rest \<Longrightarrow> I done u \<Longrightarrow> f x u = Inr v \<Longrightarrow> I (done @ [x]) v"
  shows "I xs t"
proof -
  have "foldE f ys u = Inr t \<Longrightarrow> xs = done @ ys \<Longrightarrow> I done u \<Longrightarrow> I xs t" for ys u "done"
  proof (induction ys arbitrary: u "done")
    case Nil
    then show ?case by simp
  next
    case (Cons y ys)
    then obtain v where v: "f y u = Inr v" "foldE f ys v = Inr t"
      by (auto simp: bindE_eq_Inr)
    have "I (done @ [y]) v" using Cons.prems v(1) step by blast
    then show ?case using Cons.IH [OF v(2)] Cons.prems(2) by simp
  qed
  from this [of xs s "[]"] assms(1,2) show ?thesis by simp
qed

text \<open>A loop whose body never throws under the invariant does not throw.\<close>

lemma foldE_total:
  assumes "I [] s"
    and step: "\<And>done x rest u. xs = done @ x # rest \<Longrightarrow> I done u \<Longrightarrow> \<exists>v. f x u = Inr v \<and> I (done @ [x]) v"
  shows "\<exists>t. foldE f xs s = Inr t \<and> I xs t"
proof -
  have "xs = done @ ys \<Longrightarrow> I done u \<Longrightarrow> \<exists>t. foldE f ys u = Inr t \<and> I xs t" for ys u "done"
  proof (induction ys arbitrary: u "done")
    case Nil
    then show ?case by simp
  next
    case (Cons y ys)
    then obtain v where v: "f y u = Inr v" "I (done @ [y]) v" using step by blast
    then show ?case using Cons.IH [of "done @ [y]" v] Cons.prems(1) by simp
  qed
  from this [of "[]" xs s] assms(1) show ?thesis by simp
qed

text \<open>\<open>for (x : xs) if (P x) throw e;\<close>\<close>

definition reject_any :: "('a \<Rightarrow> bool) \<Rightarrow> 'e \<Rightarrow> 'a list \<Rightarrow> 'e + unit" where
  "reject_any P e xs = (if list_ex P xs then Inl e else Inr ())"

lemma reject_any_eq_Inr [exn_simps]: "reject_any P e xs = Inr u \<longleftrightarrow> (\<forall>x\<in>set xs. \<not> P x)"
  by (auto simp: reject_any_def list_ex_iff)

lemma reject_any_eq_Inl [exn_simps]:
  "reject_any P e xs = Inl e' \<longleftrightarrow> (\<exists>x\<in>set xs. P x) \<and> e' = e"
  by (auto simp: reject_any_def list_ex_iff)

lemma ball_enumerate: "(\<forall>x\<in>set (List.enumerate 0 xs). P x) \<longleftrightarrow> (\<forall>i<length xs. P (i, xs ! i))"
  by (simp add: all_set_conv_all_nth nth_enumerate_eq)

text \<open>
  The loop that inserts every element into an \<open>unordered_set\<close> and throws on a bad or repeated
  element; its success is distinctness.
\<close>

definition insert_unique :: "('a \<Rightarrow> bool) \<Rightarrow> 'e \<Rightarrow> 'e \<Rightarrow> 'a \<Rightarrow> 'a set \<Rightarrow> 'e + 'a set" where
  "insert_unique bad e_bad e_dup x seen =
     (if bad x then Inl e_bad else if x \<in> seen then Inl e_dup else Inr (insert x seen))"

lemma foldE_insert_unique [exn_simps]:
  "foldE (insert_unique bad e1 e2) xs S = Inr T \<longleftrightarrow>
     (\<forall>x\<in>set xs. \<not> bad x) \<and> distinct xs \<and> set xs \<inter> S = {} \<and> T = set xs \<union> S"
  by (induction xs arbitrary: S) (auto simp: insert_unique_def)

lemma foldE_insert_unique_error:
  "foldE (insert_unique bad e1 e2) xs S = Inl e \<Longrightarrow> e = e1 \<or> e = e2"
  by (induction xs arbitrary: S) (auto simp: insert_unique_def split: if_splits)

section \<open>Shard identifiers as indices\<close>

text \<open>Comparisons of word numerals evaluate through \<open>unat\<close>.\<close>

lemma replicate_numeral: "replicate (numeral n) x = x # replicate (pred_numeral n) x"
  by (simp add: numeral_eq_Suc)

lemmas word_eval = word_le_nat_alt word_less_nat_alt

text \<open>\<open>std::numeric_limits<ShardId>::max()\<close>\<close>

definition ShardId_max :: nat where
  "ShardId_max = 4294967295"

lemma unat_ShardId_less: "unat (i :: ShardId) < 2 ^ 32"
  using unsigned_less [of i, where ?'a = nat] by simp

lemma unat_of_nat_ShardId: "n < 2 ^ 32 \<Longrightarrow> unat (of_nat n :: ShardId) = n"
  by (simp add: unat_of_nat take_bit_nat_eq_self)

lemma of_nat_unat_ShardId [simp]: "of_nat (unat (i :: ShardId)) = i"
  by simp

lemma of_nat_ShardId_inj:
  "a < 2 ^ 32 \<Longrightarrow> b < 2 ^ 32 \<Longrightarrow> (of_nat a :: ShardId) = of_nat b \<longleftrightarrow> a = b"
  by (metis unat_of_nat_ShardId)

lemma finite_ShardId_set [simp]: "finite (S :: ShardId set)"
  by (rule finite)

section \<open>Exclusive-or of words and shards\<close>

text \<open>
  \<open>xor_words\<close> is the inner loop \<open>out.at(w) ^= in.at(w)\<close> over two shards of the same length;
  \<open>xor_all n\<close> accumulates a list of shards into a zero shard of \<open>n\<close> words.
\<close>

definition xor_words :: "WordShard \<Rightarrow> WordShard \<Rightarrow> WordShard" where
  "xor_words out inp = map2 (XOR) out inp"

definition xor_all :: "nat \<Rightarrow> WordShard list \<Rightarrow> WordShard" where
  "xor_all n shards = foldl xor_words (replicate n 0) shards"

definition xor_sum :: "ShardWord list \<Rightarrow> ShardWord" where
  "xor_sum ws = foldr (XOR) ws 0"

lemma length_xor_words [simp]: "length (xor_words a b) = min (length a) (length b)"
  by (simp add: xor_words_def)

lemma nth_xor_words [simp]:
  "i < length a \<Longrightarrow> i < length b \<Longrightarrow> xor_words a b ! i = a ! i XOR b ! i"
  by (simp add: xor_words_def)

lemma xor_sum_Nil [simp]: "xor_sum [] = 0"
  and xor_sum_Cons [simp]: "xor_sum (w # ws) = w XOR xor_sum ws"
  by (simp_all add: xor_sum_def)

lemma xor_sum_append: "xor_sum (us @ vs) = xor_sum us XOR xor_sum vs"
  by (induction us) (simp_all add: xor.assoc)

lemma foldl_xor_words:
  assumes "\<forall>s\<in>set shards. length s = length acc"
  shows "length (foldl xor_words acc shards) = length acc \<and>
    (\<forall>i<length acc. foldl xor_words acc shards ! i = acc ! i XOR xor_sum (map (\<lambda>s. s ! i) shards))"
  using assms
  by (induction shards arbitrary: acc) (simp_all add: xor.assoc)

lemma length_xor_all [simp]: "\<forall>s\<in>set shards. length s = n \<Longrightarrow> length (xor_all n shards) = n"
  using foldl_xor_words [of shards "replicate n 0"] by (simp add: xor_all_def)

lemma nth_xor_all:
  "\<forall>s\<in>set shards. length s = n \<Longrightarrow> i < n \<Longrightarrow> xor_all n shards ! i = xor_sum (map (\<lambda>s. s ! i) shards)"
  using foldl_xor_words [of shards "replicate n 0"] by (simp add: xor_all_def)

text \<open>Taking one summand out, and cancelling a repeated one.\<close>

lemma xor_sum_extract:
  assumes "distinct xs" "x \<in> set xs"
  shows "xor_sum (map f xs) = f x XOR xor_sum (map f (filter (\<lambda>y. y \<noteq> x) xs))"
  using assms
proof (induction xs)
  case Nil
  then show ?case by simp
next
  case (Cons y ys)
  show ?case
  proof (cases "y = x")
    case True
    then have "filter (\<lambda>z. z \<noteq> x) ys = ys"
      using Cons.prems(1) by (auto intro: filter_True)
    then show ?thesis using True by simp
  next
    case False
    then show ?thesis using Cons by (simp add: xor.left_commute)
  qed
qed

lemma xor_cancel_left [simp]: "(a :: ShardWord) XOR (a XOR b) = b"
  by (simp flip: xor.assoc)

text \<open>The recovery identity: a parity xored with all but one of its summands is that summand.\<close>

lemma xor_all_recover:
  assumes "distinct ns" "x \<in> set ns" "\<forall>y. length (val y) = n"
    and "val p = xor_all n (map val ns)"
  shows "xor_all n (map val (p # filter (\<lambda>y. y \<noteq> x) ns)) = val x"
proof (rule nth_equalityI)
  have len: "\<forall>s\<in>set (map val (p # filter (\<lambda>y. y \<noteq> x) ns)). length s = n"
    using assms(3) by auto
  then show "length (xor_all n (map val (p # filter (\<lambda>y. y \<noteq> x) ns))) = length (val x)"
    using assms(3) by (simp only: length_xor_all)
  fix i
  assume "i < length (xor_all n (map val (p # filter (\<lambda>y. y \<noteq> x) ns)))"
  then have i: "i < n" using len by (simp only: length_xor_all)
  have "val p ! i = xor_sum (map (\<lambda>y. val y ! i) ns)"
    using i assms(3,4) by (simp add: nth_xor_all o_def)
  also have "\<dots> = val x ! i XOR xor_sum (map (\<lambda>y. val y ! i) (filter (\<lambda>y. y \<noteq> x) ns))"
    by (rule xor_sum_extract [OF assms(1,2)])
  finally show "xor_all n (map val (p # filter (\<lambda>y. y \<noteq> x) ns)) ! i = val x ! i"
    using nth_xor_all [OF len i] by (simp add: o_def xor.assoc)
qed

end
