(* ===== verification/CoreTypes.thy ===== *)
theory CoreTypes imports Prelude begin

text \<open>
  \<open>include/codedllm/core/types.hpp\<close>: the validated shard layout. \<open>std::size_t\<close> is a 64-bit word
  here, because the point of the constructor is that the byte length does not wrap around.
\<close>

type_synonym size_t = "64 word"

record ShardLayout =
  word_width :: size_t
  element_count :: size_t
  byte_length :: size_t

definition CalculateByteLength :: "size_t \<Rightarrow> size_t \<Rightarrow> size_t result" where
  "CalculateByteLength width count =
     (if width = 0 \<or> count = 0
      then Inl (InvalidArgument ''ShardLayout dimensions must be non-zero'')
      else if count > (- 1) div width
      then Inl (InvalidArgument ''ShardLayout byte length overflows size_t'')
      else Inr (width * count))"

definition ShardLayout_new :: "size_t \<Rightarrow> size_t \<Rightarrow> ShardLayout result" where
  "ShardLayout_new width count =
     bindE (CalculateByteLength width count)
       (\<lambda>bytes. Inr \<lparr>word_width = width, element_count = count, byte_length = bytes\<rparr>)"

lemma unat_max_size_t: "unat (- 1 :: size_t) = 2 ^ 64 - 1"
  by (simp add: unsigned_minus_1_eq_mask mask_eq_exp_minus_1)

lemma unat_size_t_less: "unat (x :: size_t) < 2 ^ 64"
  using unsigned_less [of x, where ?'a = nat] by simp

text \<open>The division guard is exactly the absence of overflow.\<close>

lemma overflow_guard_iff:
  fixes width count :: size_t
  assumes "width \<noteq> 0"
  shows "count > (- 1) div width \<longleftrightarrow> 2 ^ 64 \<le> unat width * unat count"
proof -
  have pos: "0 < unat width" using assms by (simp add: unat_gt_0)
  have "count > (- 1) div width \<longleftrightarrow> (2 ^ 64 - 1) div unat width < unat count"
    by (simp add: word_less_nat_alt unat_div_distrib unat_max_size_t)
  also have "\<dots> \<longleftrightarrow> 2 ^ 64 - 1 < unat count * unat width"
    using pos by (simp add: div_less_iff_less_mult)
  also have "\<dots> \<longleftrightarrow> 2 ^ 64 \<le> unat width * unat count"
    by (simp add: mult.commute) arith
  finally show ?thesis .
qed

lemma CalculateByteLength_Inr:
  "CalculateByteLength width count = Inr b \<longleftrightarrow>
     width \<noteq> 0 \<and> count \<noteq> 0 \<and> unat width * unat count < 2 ^ 64 \<and> b = width * count"
  by (auto simp: CalculateByteLength_def overflow_guard_iff split: if_splits)

lemma unat_mult_no_overflow:
  fixes a b :: size_t
  assumes "unat a * unat b < 2 ^ 64"
  shows "unat (a * b) = unat a * unat b"
  using assms by (simp add: unat_word_ariths)

text \<open>
  A shard layout is constructed exactly when both dimensions are non-zero and their product
  fits a 64-bit size; its byte length is then the true product, with no wrap-around.
\<close>

theorem ShardLayout_new_iff:
  "(\<exists>l. ShardLayout_new w n = Inr l \<and> unat (byte_length l) = unat w * unat n
        \<and> word_width l = w \<and> element_count l = n)
   \<longleftrightarrow> w \<noteq> 0 \<and> n \<noteq> 0 \<and> unat w * unat n < 2 ^ 64"
proof
  assume "\<exists>l. ShardLayout_new w n = Inr l \<and> unat (byte_length l) = unat w * unat n
        \<and> word_width l = w \<and> element_count l = n"
  then show "w \<noteq> 0 \<and> n \<noteq> 0 \<and> unat w * unat n < 2 ^ 64"
    by (auto simp: ShardLayout_new_def bindE_eq_Inr CalculateByteLength_Inr)
next
  assume "w \<noteq> 0 \<and> n \<noteq> 0 \<and> unat w * unat n < 2 ^ 64"
  then show "\<exists>l. ShardLayout_new w n = Inr l \<and> unat (byte_length l) = unat w * unat n
        \<and> word_width l = w \<and> element_count l = n"
    by (simp add: ShardLayout_new_def bindE_eq_Inr CalculateByteLength_Inr unat_mult_no_overflow)
qed

end
