(* ===== verification/OrderedMap.thy ===== *)
theory OrderedMap imports Prelude begin

text \<open>
  \<open>std::map\<close>: a finite map traversed in ascending key order. The planner, the policy and the
  simulators iterate over such maps, and the order is what makes plans deterministic, so the map is
  an association list with strictly ascending keys (\<open>omap_ok\<close>). The interface the clients rely on
  is the locale \<open>ordered_map\<close>; its interpretation \<open>om\<close> discharges the laws for the model.
\<close>

type_synonym ('k, 'v) omap = "('k \<times> 'v) list"

section \<open>The interface\<close>

locale ordered_map =
  fixes empty :: 'm
    and find :: "'m \<Rightarrow> 'k::linorder \<Rightarrow> 'v option"
    and emplace :: "'k \<Rightarrow> 'v \<Rightarrow> 'm \<Rightarrow> 'm"
    and assign :: "'k \<Rightarrow> 'v \<Rightarrow> 'm \<Rightarrow> 'm"
    and entries :: "'m \<Rightarrow> ('k \<times> 'v) list"
    and invar :: "'m \<Rightarrow> bool"
  assumes invar_empty: "invar empty"
    and invar_emplace: "invar m \<Longrightarrow> invar (emplace k v m)"
    and invar_assign: "invar m \<Longrightarrow> invar (assign k v m)"
    and find_empty: "find empty k = None"
    and find_emplace: "invar m \<Longrightarrow> find (emplace k v m) =
          (case find m k of None \<Rightarrow> (find m)(k \<mapsto> v) | Some _ \<Rightarrow> find m)"
    and find_assign: "invar m \<Longrightarrow> find (assign k v m) = (find m)(k \<mapsto> v)"
    and entries_sorted: "invar m \<Longrightarrow> sorted_wrt (<) (map fst (entries m))"
    and entries_find: "invar m \<Longrightarrow> map_of (entries m) = find m"
begin

lemma distinct_keys: "invar m \<Longrightarrow> distinct (map fst (entries m))"
  using entries_sorted strict_sorted_iff by blast

lemma entry_iff_find: "invar m \<Longrightarrow> (k, v) \<in> set (entries m) \<longleftrightarrow> find m k = Some v"
  using distinct_keys entries_find by (metis map_of_eq_Some_iff)

lemma keys_eq_dom: "invar m \<Longrightarrow> set (map fst (entries m)) = dom (find m)"
  by (metis dom_map_of_conv_image_fst entries_find list.set_map)

text \<open>Two maps with the same lookups traverse the same entries.\<close>

lemma entries_unique:
  assumes "invar m" "invar m'" "find m = find m'"
  shows "entries m = entries m'"
proof (rule map_sorted_distinct_set_unique [where f = fst])
  show "set (entries m) = set (entries m')"
    using assms by (metis entry_iff_find surj_pair subsetI subset_antisym)
  then have "set (entries m) \<union> set (entries m') = set (entries m)" by simp
  then show "inj_on fst (set (entries m) \<union> set (entries m'))"
    using distinct_keys [OF assms(1)] by (simp add: distinct_map)
qed (use assms entries_sorted strict_sorted_iff in blast)+

text \<open>Emplacing a list of bindings with fresh, distinct keys keeps exactly those bindings.\<close>

lemma find_emplace_all:
  assumes "invar m" "distinct (map fst kvs)" "\<forall>k\<in>set (map fst kvs). find m k = None"
  shows "invar (foldl (\<lambda>a (k, v). emplace k v a) m kvs) \<and>
    find (foldl (\<lambda>a (k, v). emplace k v a) m kvs) = find m ++ map_of kvs"
  using assms
proof (induction kvs arbitrary: m)
  case Nil
  then show ?case by simp
next
  case (Cons kv kvs)
  obtain k v where kv: "kv = (k, v)" by (cases kv)
  have f: "find (emplace k v m) = (find m)(k \<mapsto> v)"
    using Cons.prems kv by (simp add: find_emplace)
  have "invar (foldl (\<lambda>a (k, v). emplace k v a) (emplace k v m) kvs) \<and>
    find (foldl (\<lambda>a (k, v). emplace k v a) (emplace k v m) kvs) = find (emplace k v m) ++ map_of kvs"
    by (rule Cons.IH) (use Cons.prems kv f in \<open>auto simp: invar_emplace\<close>)
  moreover have "find (emplace k v m) ++ map_of kvs = find m ++ map_of (kv # kvs)"
    using Cons.prems(2) kv f by (simp add: map_add_upd_left dom_map_of_conv_image_fst)
  ultimately show ?case by (simp only: kv foldl_Cons prod.case)
qed

end

section \<open>The model of \<open>std::map\<close>\<close>

definition omap_ok :: "('k::linorder, 'v) omap \<Rightarrow> bool" where
  "omap_ok m = sorted_wrt (<) (map fst m)"

text \<open>\<open>m.find(k)\<close>, \<open>m.count(k)\<close>\<close>

abbreviation omap_find :: "('k, 'v) omap \<Rightarrow> 'k \<Rightarrow> 'v option" where
  "omap_find m k \<equiv> map_of m k"

text \<open>\<open>m.emplace(k, v)\<close> and \<open>m.try_emplace(k, v)\<close>: an existing binding is kept.\<close>

fun omap_emplace :: "'k::linorder \<Rightarrow> 'v \<Rightarrow> ('k, 'v) omap \<Rightarrow> ('k, 'v) omap" where
  "omap_emplace k v [] = [(k, v)]"
| "omap_emplace k v ((k', v') # m) =
     (if k < k' then (k, v) # (k', v') # m
      else if k = k' then (k', v') # m
      else (k', v') # omap_emplace k v m)"

text \<open>\<open>m[k] = v\<close>: an existing binding is overwritten.\<close>

fun omap_assign :: "'k::linorder \<Rightarrow> 'v \<Rightarrow> ('k, 'v) omap \<Rightarrow> ('k, 'v) omap" where
  "omap_assign k v [] = [(k, v)]"
| "omap_assign k v ((k', v') # m) =
     (if k < k' then (k, v) # (k', v') # m
      else if k = k' then (k, v) # m
      else (k', v') # omap_assign k v m)"

lemma omap_ok_Nil [simp]: "omap_ok []"
  by (simp add: omap_ok_def)

lemma omap_ok_Cons: "omap_ok ((k, v) # m) \<longleftrightarrow> (\<forall>k'\<in>fst ` set m. k < k') \<and> omap_ok m"
  by (simp add: omap_ok_def)

lemma set_keys_emplace: "fst ` set (omap_emplace k v m) = insert k (fst ` set m)"
  by (induction k v m rule: omap_emplace.induct) auto

lemma set_keys_assign: "fst ` set (omap_assign k v m) = insert k (fst ` set m)"
  by (induction k v m rule: omap_assign.induct) auto

lemma omap_ok_emplace: "omap_ok m \<Longrightarrow> omap_ok (omap_emplace k v m)"
  by (induction k v m rule: omap_emplace.induct)
    (auto simp: omap_ok_Cons set_keys_emplace intro: less_trans)

lemma omap_ok_assign: "omap_ok m \<Longrightarrow> omap_ok (omap_assign k v m)"
  by (induction k v m rule: omap_assign.induct)
    (auto simp: omap_ok_Cons set_keys_assign intro: less_trans)

lemma omap_find_less: "omap_ok ((k', v') # m) \<Longrightarrow> k < k' \<Longrightarrow> omap_find m k = None"
  by (fastforce simp: omap_ok_def map_of_eq_None_iff)

lemma find_omap_emplace:
  "omap_ok m \<Longrightarrow> map_of (omap_emplace k v m) =
     (case omap_find m k of None \<Rightarrow> (map_of m)(k \<mapsto> v) | Some _ \<Rightarrow> map_of m)"
proof (induction k v m rule: omap_emplace.induct)
  case (2 k v k' v' m)
  then show ?case
    using omap_find_less [of k' v' m k]
    by (auto simp: fun_eq_iff omap_ok_def split: option.splits)
qed simp

lemma find_omap_assign: "omap_ok m \<Longrightarrow> map_of (omap_assign k v m) = (map_of m)(k \<mapsto> v)"
  by (induction k v m rule: omap_assign.induct) (auto simp: fun_eq_iff omap_ok_def)

interpretation om: ordered_map "[]" map_of omap_emplace omap_assign "\<lambda>m. m" omap_ok
  by unfold_locales
    (simp_all add: omap_ok_emplace omap_ok_assign find_omap_emplace find_omap_assign,
     simp_all add: omap_ok_def)

text \<open>Appending a binding beyond the last key: the shape graph generation produces.\<close>

lemma omap_emplace_last:
  "\<forall>k'\<in>set (map fst m). k' < k \<Longrightarrow> omap_emplace k v m = m @ [(k, v)]"
  by (induction k v m rule: omap_emplace.induct) auto

end
