(* ===== verification/Graph.thy ===== *)
theory Graph imports Prelude begin

text \<open>
  \<open>include/codedllm/coding/graph.hpp\<close> and \<open>src/coding/graph.cpp\<close>: the immutable code graph with
  its validating constructor, and \<open>include/codedllm/coding/plan.hpp\<close>: XOR operations and decode
  plans.
\<close>

section \<open>The code graph\<close>

record ParityEquation =
  pe_output :: ShardId
  pe_sources :: "ShardId list"

record CodeGraph =
  cg_systematic :: ShardId
  cg_parity :: ShardId
  cg_equations :: "ParityEquation list"

text \<open>The accessor \<open>total_shard_count()\<close> adds two \<open>uint32_t\<close>, so it wraps around.\<close>

definition total_shard_count :: "CodeGraph \<Rightarrow> ShardId" where
  "total_shard_count g = cg_systematic g + cg_parity g"

text \<open>One iteration of the loop over the equations; the state is the set of outputs seen so far.\<close>

definition validate_equation ::
  "ShardId \<Rightarrow> ShardId \<Rightarrow> ParityEquation \<Rightarrow> ShardId set \<Rightarrow> ShardId set result" where
  "validate_equation k tot eq outputs =
     (if pe_output eq < k \<or> pe_output eq \<ge> tot
      then Inl (InvalidArgument ''CodeGraph parity output is out of bounds'')
      else if pe_output eq \<in> outputs
      then Inl (InvalidArgument ''CodeGraph contains duplicate parity outputs'')
      else if pe_sources eq = []
      then Inl (InvalidArgument ''CodeGraph parity equations must not be empty'')
      else bindE (foldE (insert_unique (\<lambda>source. source \<ge> tot)
                    (InvalidArgument ''CodeGraph source shard is out of bounds'')
                    (InvalidArgument ''CodeGraph contains duplicate edges'')) (pe_sources eq) {})
             (\<lambda>_. Inr (insert (pe_output eq) outputs)))"

definition CodeGraph_Validate :: "CodeGraph \<Rightarrow> unit result" where
  "CodeGraph_Validate g =
     (if cg_systematic g = 0 \<or> cg_parity g = 0
      then Inl (InvalidArgument ''CodeGraph requires non-zero k and m'')
      else if cg_systematic g > (- 1) - cg_parity g
      then Inl (InvalidArgument ''CodeGraph shard count overflows ShardId'')
      else if length (cg_equations g) \<noteq> unat (cg_parity g)
      then Inl (InvalidArgument ''CodeGraph requires exactly one equation per parity shard'')
      else bindE (foldE (validate_equation (cg_systematic g) (total_shard_count g))
                    (cg_equations g) {})
             (\<lambda>_. Inr ()))"

definition CodeGraph_new ::
  "ShardId \<Rightarrow> ShardId \<Rightarrow> ParityEquation list \<Rightarrow> CodeGraph result" where
  "CodeGraph_new k m eqs =
     (let g = \<lparr>cg_systematic = k, cg_parity = m, cg_equations = eqs\<rparr>
      in bindE (CodeGraph_Validate g) (\<lambda>_. Inr g))"

section \<open>Decode plans\<close>

record XorOperation =
  xo_output :: ShardId
  xo_sources :: "ShardId list"

record DecodePlan =
  operations :: "XorOperation list"
  dependencies :: "nat list list"
  is_recoverable :: bool

definition Unrecoverable :: DecodePlan where
  "Unrecoverable = \<lparr>operations = [], dependencies = [], is_recoverable = False\<rparr>"

text \<open>The default-constructed plan: empty and recoverable.\<close>

definition DecodePlan_default :: DecodePlan where
  "DecodePlan_default = \<lparr>operations = [], dependencies = [], is_recoverable = True\<rparr>"

section \<open>What validation establishes\<close>

lemma count_guard_iff:
  fixes k m :: ShardId
  shows "k > (- 1) - m \<longleftrightarrow> 2 ^ 32 \<le> unat k + unat m"
proof -
  have "unat ((- 1) - m) = 2 ^ 32 - 1 - unat m"
    using unat_ShardId_less [of m]
    by (simp add: unat_sub word_le_nat_alt unsigned_minus_1_eq_mask mask_eq_exp_minus_1)
  then show ?thesis
    using unat_ShardId_less [of m] by (simp add: word_less_nat_alt) arith
qed

lemma unat_total:
  fixes k m :: ShardId
  shows "unat k + unat m < 2 ^ 32 \<Longrightarrow> unat (k + m) = unat k + unat m"
  by (simp add: unat_word_ariths)

lemma validate_equation_Inr:
  "validate_equation k tot eq S = Inr T \<longleftrightarrow>
     k \<le> pe_output eq \<and> pe_output eq < tot \<and> pe_output eq \<notin> S \<and> pe_sources eq \<noteq> [] \<and>
     (\<forall>s\<in>set (pe_sources eq). s < tot) \<and> distinct (pe_sources eq) \<and> T = insert (pe_output eq) S"
  by (auto simp: validate_equation_def exn_simps)

lemma validate_equations_Inr:
  "foldE (validate_equation k tot) eqs S = Inr T \<longleftrightarrow>
     (\<forall>eq\<in>set eqs. k \<le> pe_output eq \<and> pe_output eq < tot \<and> pe_sources eq \<noteq> [] \<and>
        (\<forall>s\<in>set (pe_sources eq). s < tot) \<and> distinct (pe_sources eq)) \<and>
     distinct (map pe_output eqs) \<and> pe_output ` set eqs \<inter> S = {} \<and> T = pe_output ` set eqs \<union> S"
  by (induction eqs arbitrary: S) (auto simp: bindE_eq_Inr validate_equation_Inr)

text \<open>The class invariant of \<open>CodeGraph\<close>, stated declaratively.\<close>

definition code_graph_ok :: "CodeGraph \<Rightarrow> bool" where
  "code_graph_ok g \<longleftrightarrow>
     0 < unat (cg_systematic g) \<and> 0 < unat (cg_parity g) \<and>
     unat (cg_systematic g) + unat (cg_parity g) < 2 ^ 32 \<and>
     length (cg_equations g) = unat (cg_parity g) \<and>
     distinct (map pe_output (cg_equations g)) \<and>
     (\<forall>eq\<in>set (cg_equations g).
        unat (cg_systematic g) \<le> unat (pe_output eq) \<and>
        unat (pe_output eq) < unat (cg_systematic g) + unat (cg_parity g) \<and>
        pe_sources eq \<noteq> [] \<and> distinct (pe_sources eq) \<and>
        (\<forall>s\<in>set (pe_sources eq). unat s < unat (cg_systematic g) + unat (cg_parity g)))"

lemma CodeGraph_Validate_iff: "CodeGraph_Validate g = Inr () \<longleftrightarrow> code_graph_ok g"
proof (cases "unat (cg_systematic g) + unat (cg_parity g) < 2 ^ 32")
  case True
  have "unat (total_shard_count g) = unat (cg_systematic g) + unat (cg_parity g)"
    using True by (simp add: total_shard_count_def unat_total)
  moreover have "\<not> cg_systematic g > (- 1) - cg_parity g"
    using True by (simp add: count_guard_iff)
  ultimately show ?thesis
    using True by (auto simp: CodeGraph_Validate_def code_graph_ok_def exn_simps
        validate_equations_Inr unat_gt_0 word_less_nat_alt word_le_nat_alt)
next
  case False
  then show ?thesis
    by (simp add: CodeGraph_Validate_def code_graph_ok_def count_guard_iff)
qed

lemma CodeGraph_new_Inr:
  "CodeGraph_new k m eqs = Inr g \<longleftrightarrow>
     g = \<lparr>cg_systematic = k, cg_parity = m, cg_equations = eqs\<rparr> \<and> code_graph_ok g"
  by (auto simp: CodeGraph_new_def Let_def bindE_eq_Inr CodeGraph_Validate_iff)

text \<open>
  Pigeonhole: \<open>m\<close> distinct outputs inside a range of \<open>m\<close> identifiers are the whole range.
\<close>

lemma code_graph_outputs:
  assumes "code_graph_ok g"
  shows "(\<lambda>eq. unat (pe_output eq)) ` set (cg_equations g)
    = {unat (cg_systematic g) ..< unat (cg_systematic g) + unat (cg_parity g)}" (is "?A = ?B")
proof (rule card_subset_eq)
  show "?A \<subseteq> ?B" using assms by (auto simp: code_graph_ok_def)
  have "card ?A = card (unat ` pe_output ` set (cg_equations g))" by (simp add: image_image)
  also have "\<dots> = card (pe_output ` set (cg_equations g))"
    by (rule card_image) (simp add: inj_on_def word_unat_eq_iff)
  also have "\<dots> = length (cg_equations g)"
    using assms distinct_card [of "map pe_output (cg_equations g)"] by (simp add: code_graph_ok_def)
  also have "\<dots> = card ?B" using assms by (simp add: code_graph_ok_def)
  finally show "card ?A = card ?B" .
qed simp

text \<open>
  A constructed code graph has exactly one equation for every parity identifier
  \<open>k, \<dots>, k + m - 1\<close>: none is missing and none is defined twice.
\<close>

theorem CodeGraph_one_equation_per_parity:
  assumes "CodeGraph_new k m eqs = Inr g"
    and "unat k \<le> p" "p < unat k + unat m"
  shows "\<exists>!i. i < length (cg_equations g) \<and> unat (pe_output (cg_equations g ! i)) = p"
proof -
  have g: "g = \<lparr>cg_systematic = k, cg_parity = m, cg_equations = eqs\<rparr>" "code_graph_ok g"
    using assms(1) by (auto simp: CodeGraph_new_Inr)
  have "p \<in> (\<lambda>eq. unat (pe_output eq)) ` set (cg_equations g)"
    using code_graph_outputs [OF g(2)] assms(2,3) g(1) by simp
  then obtain i where "i < length (cg_equations g)" "unat (pe_output (cg_equations g ! i)) = p"
    by (auto simp: in_set_conv_nth)
  moreover have "j = i" if "j < length (cg_equations g)" "unat (pe_output (cg_equations g ! j)) = p"
      "i < length (cg_equations g)" "unat (pe_output (cg_equations g ! i)) = p" for i j
  proof -
    have "pe_output (cg_equations g ! j) = pe_output (cg_equations g ! i)"
      using that by (metis word_unat_eq_iff)
    then show ?thesis
      using g(2) that by (simp add: code_graph_ok_def distinct_conv_nth) metis
  qed
  ultimately show ?thesis by blast
qed

theorem CodeGraph_one_equation_per_parity_witness:
  "\<exists>g. CodeGraph_new 2 1 [\<lparr>pe_output = 2, pe_sources = [0, 1]\<rparr>] = Inr g \<and>
     (\<exists>!i. i < length (cg_equations g) \<and> unat (pe_output (cg_equations g ! i)) = 2)"
proof -
  have g: "CodeGraph_new 2 1 [\<lparr>pe_output = 2, pe_sources = [0, 1]\<rparr>] =
      Inr \<lparr>cg_systematic = 2, cg_parity = 1, cg_equations = [\<lparr>pe_output = 2, pe_sources = [0, 1]\<rparr>]\<rparr>"
    by (simp add: CodeGraph_new_def CodeGraph_Validate_def validate_equation_def
        insert_unique_def total_shard_count_def word_eval)
  show ?thesis
    using g CodeGraph_one_equation_per_parity [OF g, of 2] by auto
qed

end
