(* ===== verification/Codec.thy ===== *)
theory Codec imports Graph begin

text \<open>
  \<open>src/coding/codec.cpp\<close> and \<open>include/codedllm/coding/codec.hpp\<close>: parity generation and the CPU
  executor of decode plans.

  \<open>execute_decode_plan_cpu\<close> mutates the caller's slots operation by operation and may throw in
  the middle, leaving earlier outputs in place. Its model therefore returns the slots as they are
  when it leaves, together with the exception, if any.
\<close>

section \<open>Parity generation\<close>

definition ValidateShardWords :: "WordShard list \<Rightarrow> nat result" where
  "ValidateShardWords shards =
     (if shards = [] \<or> hd shards = []
      then Inl (InvalidArgument ''Shards must be non-empty'')
      else bindE (reject_any (\<lambda>shard. length shard \<noteq> length (hd shards))
                    (InvalidArgument ''All shards must have the same word count'') shards)
             (\<lambda>_. Inr (length (hd shards))))"

definition encode_source :: "ShardId \<Rightarrow> WordShard list \<Rightarrow> ShardId \<Rightarrow> WordShard \<Rightarrow> WordShard result" where
  "encode_source k systematic source parity =
     (if source \<ge> k
      then Inl (InvalidArgument ''Parity encoding currently supports systematic source shards only'')
      else bindE (vec_at systematic (unat source)) (\<lambda>inp. Inr (xor_words parity inp)))"

definition encode_equation ::
  "ShardId \<Rightarrow> WordShard list \<Rightarrow> ParityEquation \<Rightarrow> WordShard list \<Rightarrow> WordShard list result" where
  "encode_equation k systematic eq parity_shards =
     (let parity_index = unat (pe_output eq - k)
      in bindE (vec_at parity_shards parity_index)
           (\<lambda>parity. bindE (foldE (encode_source k systematic) (pe_sources eq) parity)
             (\<lambda>parity'. Inr (parity_shards[parity_index := parity']))))"

definition encode_parity_cpu :: "CodeGraph \<Rightarrow> WordShard list \<Rightarrow> WordShard list result" where
  "encode_parity_cpu g systematic =
     (if length systematic \<noteq> unat (cg_systematic g)
      then Inl (InvalidArgument ''Systematic shard count does not match the code graph'')
      else bindE (ValidateShardWords systematic)
        (\<lambda>word_count. foldE (encode_equation (cg_systematic g) systematic) (cg_equations g)
            (replicate (unat (cg_parity g)) (replicate word_count 0))))"

section \<open>Plan execution\<close>

definition ValidatePlanShape :: "DecodePlan \<Rightarrow> unit result" where
  "ValidatePlanShape plan =
     (if \<not> is_recoverable plan
      then Inl (InvalidArgument ''Cannot execute an unrecoverable decode plan'')
      else if length (dependencies plan) \<noteq> length (operations plan)
      then Inl (InvalidArgument ''DecodePlan dependencies must match the operation count'')
      else reject_any (\<lambda>(operation_index, ds). list_ex (\<lambda>dependency. dependency \<ge> operation_index) ds)
             (InvalidArgument ''DecodePlan dependencies must reference earlier operations'')
             (List.enumerate 0 (dependencies plan)))"

text \<open>\<open>id < shards.size() && shards.at(id).has_value()\<close>, and the value.\<close>

definition slot :: "ShardSlots \<Rightarrow> ShardId \<Rightarrow> WordShard option" where
  "slot shards i = (if unat i < length shards then shards ! unat i else None)"

definition decode_source :: "ShardSlots \<Rightarrow> nat \<Rightarrow> ShardId \<Rightarrow> WordShard \<Rightarrow> WordShard result" where
  "decode_source shards word_count source out =
     (case slot shards source of
        None \<Rightarrow> Inl (InvalidArgument ''DecodePlan sources must be available and equally sized'')
      | Some inp \<Rightarrow>
          if length inp \<noteq> word_count
          then Inl (InvalidArgument ''DecodePlan sources must be available and equally sized'')
          else Inr (xor_words out inp))"

definition execute_operation :: "XorOperation \<Rightarrow> ShardSlots \<Rightarrow> ShardSlots result" where
  "execute_operation op shards =
     (if unat (xo_output op) \<ge> length shards
      then Inl (InvalidArgument ''DecodePlan output shard is out of bounds'')
      else if xo_sources op = []
      then Inl (InvalidArgument ''DecodePlan XOR operation has no sources'')
      else if slot shards (xo_output op) \<noteq> None
      then Inl (InvalidArgument ''DecodePlan output shard is already present'')
      else (case slot shards (hd (xo_sources op)) of
        None \<Rightarrow> Inl (InvalidArgument ''DecodePlan source shard is unavailable'')
      | Some first \<Rightarrow>
          if first = []
          then Inl (InvalidArgument ''DecodePlan source shards must be non-empty'')
          else bindE (foldE (decode_source shards (length first)) (xo_sources op)
                        (replicate (length first) 0))
                 (\<lambda>out. Inr (shards[unat (xo_output op) := Some out]))))"

fun execute_operations :: "XorOperation list \<Rightarrow> ShardSlots \<Rightarrow> ShardSlots \<times> exn option" where
  "execute_operations [] shards = (shards, None)"
| "execute_operations (op # ops) shards =
     (case execute_operation op shards of
        Inl e \<Rightarrow> (shards, Some e)
      | Inr shards' \<Rightarrow> execute_operations ops shards')"

definition execute_decode_plan_cpu :: "DecodePlan \<Rightarrow> ShardSlots \<Rightarrow> ShardSlots \<times> exn option" where
  "execute_decode_plan_cpu plan shards =
     (case ValidatePlanShape plan of
        Inl e \<Rightarrow> (shards, Some e)
      | Inr _ \<Rightarrow> execute_operations (operations plan) shards)"

section \<open>Lemmas on encoding\<close>

lemma ValidateShardWords_Inr:
  "ValidateShardWords shards = Inr n \<longleftrightarrow> shards \<noteq> [] \<and> 0 < n \<and> (\<forall>s\<in>set shards. length s = n)"
  by (cases shards) (auto simp: ValidateShardWords_def exn_simps)

lemma foldE_encode_source:
  assumes "\<forall>s\<in>set srcs. unat s < length systematic" "length systematic = unat k"
  shows "foldE (encode_source k systematic) srcs acc
    = Inr (foldl xor_words acc (map (\<lambda>s. systematic ! unat s) srcs))"
  using assms
  by (induction srcs arbitrary: acc) (auto simp: encode_source_def word_le_nat_alt)

text \<open>The value one equation contributes: the exclusive-or of its systematic sources.\<close>

definition parity_value :: "WordShard list \<Rightarrow> nat \<Rightarrow> ParityEquation \<Rightarrow> WordShard" where
  "parity_value systematic n eq = xor_all n (map (\<lambda>s. systematic ! unat s) (pe_sources eq))"

definition systematic_sources :: "CodeGraph \<Rightarrow> bool" where
  "systematic_sources g \<longleftrightarrow>
     (\<forall>eq\<in>set (cg_equations g). \<forall>s\<in>set (pe_sources eq). s < cg_systematic g)"

lemma unat_output_minus:
  assumes "code_graph_ok g" "eq \<in> set (cg_equations g)"
  shows "unat (pe_output eq - cg_systematic g) = unat (pe_output eq) - unat (cg_systematic g)"
    and "unat (pe_output eq) - unat (cg_systematic g) < unat (cg_parity g)"
proof -
  have "unat (cg_systematic g) \<le> unat (pe_output eq)"
      "unat (pe_output eq) < unat (cg_systematic g) + unat (cg_parity g)"
    using assms by (auto simp: code_graph_ok_def)
  then show "unat (pe_output eq - cg_systematic g) = unat (pe_output eq) - unat (cg_systematic g)"
    and "unat (pe_output eq) - unat (cg_systematic g) < unat (cg_parity g)"
    by (simp_all add: unat_sub word_le_nat_alt)
qed

lemma parity_index_inj:
  assumes "code_graph_ok g" "eq \<in> set (cg_equations g)" "eq' \<in> set (cg_equations g)"
    and "unat (pe_output eq - cg_systematic g) = unat (pe_output eq' - cg_systematic g)"
  shows "eq = eq'"
proof -
  have "pe_output eq - cg_systematic g = pe_output eq' - cg_systematic g"
    using assms(4) by (simp only: word_unat_eq_iff)
  then have "pe_output eq = pe_output eq'" by simp
  then show ?thesis
    using assms(1-3) by (auto simp: code_graph_ok_def distinct_map inj_on_def)
qed

lemma encode_equation_step:
  assumes "code_graph_ok g" "systematic_sources g" "eq \<in> set (cg_equations g)"
    and "length systematic = unat (cg_systematic g)" "length ps = unat (cg_parity g)"
    and "ps ! unat (pe_output eq - cg_systematic g) = replicate n 0"
  shows "encode_equation (cg_systematic g) systematic eq ps
    = Inr (ps[unat (pe_output eq - cg_systematic g) := parity_value systematic n eq])"
proof -
  have "unat (pe_output eq - cg_systematic g) < length ps"
    using unat_output_minus [OF assms(1,3)] assms(5) by simp
  moreover have "\<forall>s\<in>set (pe_sources eq). unat s < length systematic"
    using assms(2-4) by (auto simp: systematic_sources_def word_less_nat_alt)
  ultimately show ?thesis
    using assms(4,6) by (simp add: encode_equation_def Let_def foldE_encode_source
        parity_value_def xor_all_def)
qed

lemma encode_parity_loop:
  assumes g: "code_graph_ok g" "systematic_sources g"
    and len: "length systematic = unat (cg_systematic g)"
  shows "\<exists>ps. foldE (encode_equation (cg_systematic g) systematic) (cg_equations g)
      (replicate (unat (cg_parity g)) (replicate n 0)) = Inr ps \<and> length ps = unat (cg_parity g) \<and>
      (\<forall>eq\<in>set (cg_equations g).
         ps ! unat (pe_output eq - cg_systematic g) = parity_value systematic n eq)"
    (is "\<exists>ps. foldE ?f ?eqs ?s = Inr ps \<and> ?post ps")
proof -
  define I where "I done ps \<longleftrightarrow> length ps = unat (cg_parity g) \<and>
      (\<forall>eq\<in>set ?eqs. ps ! unat (pe_output eq - cg_systematic g) =
         (if eq \<in> set done then parity_value systematic n eq else replicate n 0))" for "done" ps
  have dist: "distinct ?eqs"
    using g(1) by (simp add: code_graph_ok_def distinct_map)
  have "\<exists>ps. foldE ?f ?eqs ?s = Inr ps \<and> I ?eqs ps"
  proof (rule foldE_total)
    show "I [] ?s" using unat_output_minus [OF g(1)] by (simp add: I_def)
    fix "done" eq rest ps
    assume split: "?eqs = done @ eq # rest" and inv: "I done ps"
    have eq: "eq \<in> set ?eqs" "eq \<notin> set done" using split dist by auto
    let ?ps = "ps[unat (pe_output eq - cg_systematic g) := parity_value systematic n eq]"
    have "?f eq ps = Inr ?ps"
      using encode_equation_step [OF g eq(1) len] inv eq by (auto simp: I_def)
    moreover have "I (done @ [eq]) ?ps"
      unfolding I_def
    proof (intro conjI ballI)
      show "length ?ps = unat (cg_parity g)" using inv by (simp add: I_def)
      fix eq'
      assume eq': "eq' \<in> set ?eqs"
      have "unat (pe_output eq' - cg_systematic g) < length ps"
        using unat_output_minus [OF g(1) eq'] inv by (simp add: I_def)
      then show "?ps ! unat (pe_output eq' - cg_systematic g) =
          (if eq' \<in> set (done @ [eq]) then parity_value systematic n eq' else replicate n 0)"
      proof (cases "eq' = eq")
        case False
        then have "unat (pe_output eq - cg_systematic g) \<noteq> unat (pe_output eq' - cg_systematic g)"
          using parity_index_inj [OF g(1) eq(1) eq'] by blast
        from nth_list_update_neq [OF this, of ps] show ?thesis
          using False inv eq' by (simp add: I_def)
      qed simp
    qed
    ultimately show "\<exists>v. ?f eq ps = Inr v \<and> I (done @ [eq]) v" by blast
  qed
  then show ?thesis by (auto simp: I_def)
qed

text \<open>
  C14. Parity generation over a valid graph with systematic sources and equally sized, non-empty
  data shards does not throw, yields one shard per parity identifier in identifier order, and each
  parity word is the exclusive-or of the words of its sources.
\<close>

theorem encode_parity_cpu_correct:
  assumes "CodeGraph_new k m eqs = Inr g" "systematic_sources g"
    and "length systematic = unat k" "0 < n" "\<forall>s\<in>set systematic. length s = n"
  shows "\<exists>ps. encode_parity_cpu g systematic = Inr ps \<and> length ps = unat m \<and>
    (\<forall>eq\<in>set eqs. \<forall>w<n. ps ! (unat (pe_output eq) - unat k) ! w
        = xor_sum (map (\<lambda>s. systematic ! unat s ! w) (pe_sources eq)))"
proof -
  have g: "g = \<lparr>cg_systematic = k, cg_parity = m, cg_equations = eqs\<rparr>" "code_graph_ok g"
    using assms(1) by (auto simp: CodeGraph_new_Inr)
  have "systematic \<noteq> []" using assms(3) g by (auto simp: code_graph_ok_def)
  then have "encode_parity_cpu g systematic = foldE (encode_equation (cg_systematic g) systematic)
      (cg_equations g) (replicate (unat (cg_parity g)) (replicate n 0))"
    using assms(3-5) g(1) ValidateShardWords_Inr [of systematic n]
    by (simp add: encode_parity_cpu_def)
  then obtain ps where ps: "encode_parity_cpu g systematic = Inr ps" "length ps = unat m"
      "\<forall>eq\<in>set eqs. ps ! unat (pe_output eq - k) = parity_value systematic n eq"
    using encode_parity_loop [OF g(2) assms(2), of systematic n] assms(3) g(1) by auto
  have "ps ! (unat (pe_output eq) - unat k) ! w
      = xor_sum (map (\<lambda>s. systematic ! unat s ! w) (pe_sources eq))" if "eq \<in> set eqs" "w < n" for eq w
  proof -
    have "\<forall>s\<in>set (pe_sources eq). unat s < length systematic"
      using assms(2,3) that(1) g(1) by (auto simp: systematic_sources_def word_less_nat_alt)
    then have "\<forall>s\<in>set (map (\<lambda>s. systematic ! unat s) (pe_sources eq)). length s = n"
      using assms(5) by auto
    then show ?thesis
      using ps(3) that unat_output_minus(1) [OF g(2)] g(1)
      by (auto simp: parity_value_def nth_xor_all o_def)
  qed
  then show ?thesis using ps by blast
qed

theorem encode_parity_cpu_correct_witness:
  "\<exists>g. CodeGraph_new 2 1 [\<lparr>pe_output = 2, pe_sources = [0, 1]\<rparr>] = Inr g \<and>
     encode_parity_cpu g [[5, 1], [3, 1]] = Inr [[6, 0]]"
proof -
  let ?g = "\<lparr>cg_systematic = 2, cg_parity = 1, cg_equations = [\<lparr>pe_output = 2, pe_sources = [0, 1]\<rparr>]\<rparr>"
  have g: "CodeGraph_new 2 1 [\<lparr>pe_output = 2, pe_sources = [0, 1]\<rparr>] = Inr ?g"
    by (simp add: CodeGraph_new_def CodeGraph_Validate_def validate_equation_def
        insert_unique_def total_shard_count_def word_eval)
  have "systematic_sources ?g" by (simp add: systematic_sources_def word_eval)
  from encode_parity_cpu_correct [OF g this, of "[[5, 1], [3, 1]]" 2]
  obtain ps where ps: "encode_parity_cpu ?g [[5, 1], [3, 1]] = Inr ps" "length ps = 1"
      "ps ! 0 ! 0 = 6" "ps ! 0 ! 1 = 0"
    by auto
  have "encode_parity_cpu ?g [[5, 1], [3, 1]] = Inr [[6, 0]]"
    by (simp add: encode_parity_cpu_def ValidateShardWords_def reject_any_def encode_equation_def
        encode_source_def xor_words_def word_eval)
  then show ?thesis using g by blast
qed

section \<open>Lemmas on plan execution\<close>

lemma ValidatePlanShape_Inr:
  "ValidatePlanShape plan = Inr () \<longleftrightarrow>
     is_recoverable plan \<and> length (dependencies plan) = length (operations plan) \<and>
     (\<forall>i<length (dependencies plan). \<forall>d\<in>set (dependencies plan ! i). d < i)"
  by (auto simp: ValidatePlanShape_def exn_simps list_ex_iff ball_enumerate not_le)

lemma slot_update:
  "unat i < length shards \<Longrightarrow> slot (shards[unat i := v]) j = (if j = i then v else slot shards j)"
  by (auto simp: slot_def nth_list_update word_unat_eq_iff)

lemma foldE_decode_source_Inr:
  "foldE (decode_source shards n) srcs acc = Inr out \<longleftrightarrow>
     (\<forall>s\<in>set srcs. \<exists>w. slot shards s = Some w \<and> length w = n) \<and>
     out = foldl xor_words acc (map (\<lambda>s. the (slot shards s)) srcs)"
  by (induction srcs arbitrary: acc)
    (auto simp: bindE_eq_Inr decode_source_def split: option.splits if_splits)

lemma execute_operation_Inr:
  "execute_operation op shards = Inr shards' \<longleftrightarrow>
     unat (xo_output op) < length shards \<and> xo_sources op \<noteq> [] \<and> slot shards (xo_output op) = None \<and>
     (\<exists>n>0. (\<forall>s\<in>set (xo_sources op). \<exists>w. slot shards s = Some w \<and> length w = n) \<and>
        shards' = shards[unat (xo_output op) :=
          Some (xor_all n (map (\<lambda>s. the (slot shards s)) (xo_sources op)))])"
  (is "?l \<longleftrightarrow> ?r")
proof
  assume ?l
  then show ?r
    by (auto simp: execute_operation_def bindE_eq_Inr foldE_decode_source_Inr xor_all_def
        split: if_splits option.splits)
next
  assume ?r
  then obtain n where n: "0 < n" "\<forall>s\<in>set (xo_sources op). \<exists>w. slot shards s = Some w \<and> length w = n"
      "shards' = shards[unat (xo_output op) :=
          Some (xor_all n (map (\<lambda>s. the (slot shards s)) (xo_sources op)))]"
    and r: "unat (xo_output op) < length shards" "xo_sources op \<noteq> []" "slot shards (xo_output op) = None"
    by blast
  then obtain w where "slot shards (hd (xo_sources op)) = Some w" "length w = n" by fastforce
  then show ?l
    using n r by (auto simp: execute_operation_def bindE_eq_Inr foldE_decode_source_Inr xor_all_def)
qed

lemma execute_operation_frame:
  assumes "execute_operation op shards = Inr shards'"
  shows "length shards' = length shards" "slot shards' (xo_output op) \<noteq> None"
    "i \<noteq> xo_output op \<Longrightarrow> slot shards' i = slot shards i"
    "slot shards i = Some w \<Longrightarrow> slot shards' i = Some w"
  using assms by (auto simp: execute_operation_Inr slot_update)

lemma execute_operations_frame:
  "length (fst (execute_operations ops shards)) = length shards \<and>
   (slot shards i = Some w \<longrightarrow> slot (fst (execute_operations ops shards)) i = Some w) \<and>
   (i \<notin> xo_output ` set ops \<longrightarrow> slot (fst (execute_operations ops shards)) i = slot shards i)"
proof (induction ops arbitrary: shards)
  case Nil
  then show ?case by simp
next
  case (Cons op ops)
  then show ?case
    by (cases "execute_operation op shards") (auto simp: execute_operation_frame)
qed

text \<open>
  Whatever plan it is given, and even when it throws half-way, the CPU executor never changes
  the number of slots, never overwrites a shard that is present, and writes only output slots of
  the plan.
\<close>

theorem execute_decode_plan_cpu_preserves:
  assumes "execute_decode_plan_cpu plan shards = (shards', err)"
  shows "length shards' = length shards
    \<and> (\<forall>i w. slot shards i = Some w \<longrightarrow> slot shards' i = Some w)
    \<and> (\<forall>i. i \<notin> xo_output ` set (operations plan) \<longrightarrow> slot shards' i = slot shards i)"
proof -
  have "shards' = shards \<or> shards' = fst (execute_operations (operations plan) shards)"
    using assms by (cases "ValidatePlanShape plan") (auto simp: execute_decode_plan_cpu_def)
  then show ?thesis using execute_operations_frame by blast
qed

theorem execute_decode_plan_cpu_preserves_witness:
  "\<exists>shards' err. execute_decode_plan_cpu
      \<lparr>operations = [\<lparr>xo_output = 0, xo_sources = [1]\<rparr>, \<lparr>xo_output = 1, xo_sources = [0]\<rparr>],
        dependencies = [[], []], is_recoverable = True\<rparr> [None, Some [7]] = (shards', Some err)
    \<and> shards' = [Some [7], Some [7]] \<and> slot shards' 1 = Some [7]"
proof -
  let ?plan = "\<lparr>operations = [\<lparr>xo_output = 0, xo_sources = [1]\<rparr>, \<lparr>xo_output = 1, xo_sources = [0]\<rparr>],
        dependencies = [[], []], is_recoverable = True\<rparr>"
  have run: "execute_decode_plan_cpu ?plan [None, Some [7]] = ([Some [7], Some [7]],
      Some (InvalidArgument ''DecodePlan output shard is already present''))"
    by (simp add: execute_decode_plan_cpu_def ValidatePlanShape_def reject_any_def execute_operation_def
        slot_def decode_source_def xor_words_def)
  have "slot [Some [7], Some [7]] 1 = Some [7]"
    using execute_decode_plan_cpu_preserves [OF run] by (auto simp: slot_def)
  then show ?thesis using run by blast
qed

end
