(* ===== verification/Bipartite.thy ===== *)
theory Bipartite imports OrderedMap "HOL-Library.Multiset" begin

text \<open>
  \<open>include/codedllm/coding/graph_generator.hpp\<close> and \<open>src/coding/graph_generator.cpp\<close>: the bipartite
  graph and its generator, and \<open>ValidateGraph\<close> of \<open>src/coding/planner.cpp\<close>.

  \<open>std::mt19937\<close> and \<open>std::shuffle\<close> are parameters of the generator: the permutation
  \<open>std::shuffle\<close> applies is left to the implementation, and the standard promises only that it is a
  permutation of the range (\<open>permuting\<close>).
\<close>

section \<open>The graph\<close>

record BipartiteGraph =
  systematic_shard_count :: nat
  parity_shard_count :: nat
  parity_to_systematic :: "(ShardId, ShardId list) omap"

definition max_shard_count :: nat where
  "max_shard_count = ShardId_max + 1"

text \<open>One iteration of the loop of \<open>ValidateGraph\<close> over the parity indices.\<close>

definition validate_parity :: "BipartiteGraph \<Rightarrow> nat \<Rightarrow> unit \<Rightarrow> unit result" where
  "validate_parity g parity_index u =
     (case omap_find (parity_to_systematic g) (of_nat (systematic_shard_count g + parity_index)) of
        None \<Rightarrow> Inl (InvalidArgument ''BipartiteGraph parity shard IDs must be contiguous'')
      | Some neighbors \<Rightarrow>
          if neighbors = []
          then Inl (InvalidArgument ''BipartiteGraph parity equations must not be empty'')
          else bindE (foldE (insert_unique (\<lambda>s. unat s \<ge> systematic_shard_count g)
                  (InvalidArgument ''BipartiteGraph neighbor is not a systematic shard'')
                  (InvalidArgument ''BipartiteGraph contains a duplicate parity edge'')) neighbors {})
                (\<lambda>_. Inr ()))"

definition ValidateGraph :: "BipartiteGraph \<Rightarrow> unit result" where
  "ValidateGraph g =
     (if systematic_shard_count g = 0 \<or> parity_shard_count g = 0
      then Inl (InvalidArgument ''BipartiteGraph requires non-zero k and m'')
      else if systematic_shard_count g > ShardId_max
        \<or> parity_shard_count g > max_shard_count - systematic_shard_count g
      then Inl (InvalidArgument ''BipartiteGraph shard IDs overflow ShardId'')
      else if length (parity_to_systematic g) \<noteq> parity_shard_count g
      then Inl (InvalidArgument ''BipartiteGraph requires one equation per parity shard'')
      else foldE (validate_parity g) [0..<parity_shard_count g] ())"

section \<open>Random regular graphs\<close>

definition generate_parity ::
  "('g \<Rightarrow> ShardId list \<Rightarrow> ShardId list \<times> 'g) \<Rightarrow> nat \<Rightarrow> nat \<Rightarrow> nat \<Rightarrow>
   ShardId list \<times> 'g \<times> (ShardId, ShardId list) omap \<Rightarrow>
   ShardId list \<times> 'g \<times> (ShardId, ShardId list) omap" where
  "generate_parity shuffle k degree parity_index st =
     (case st of (candidates, generator, equations) \<Rightarrow>
        (case shuffle generator candidates of (candidates', generator') \<Rightarrow>
           (candidates', generator',
            omap_emplace (of_nat (k + parity_index)) (take degree candidates') equations)))"

definition GenerateRegularGraph ::
  "('s \<Rightarrow> 'g) \<Rightarrow> ('g \<Rightarrow> ShardId list \<Rightarrow> ShardId list \<times> 'g) \<Rightarrow>
   nat \<Rightarrow> nat \<Rightarrow> nat \<Rightarrow> 's \<Rightarrow> BipartiteGraph result" where
  "GenerateRegularGraph mt19937 shuffle k m degree seed =
     (if k = 0 \<or> m = 0 \<or> degree = 0
      then Inl (InvalidArgument ''Regular graph dimensions and degree must be non-zero'')
      else if degree > k
      then Inl (InvalidArgument ''Regular graph degree cannot exceed systematic shard count'')
      else if k > ShardId_max \<or> m > max_shard_count - k
      then Inl (InvalidArgument ''Regular graph shard IDs overflow ShardId'')
      else (case fold (generate_parity shuffle k degree) [0..<m]
                   (map of_nat [0..<k], mt19937 seed, []) of
        (candidates, generator, equations) \<Rightarrow>
          Inr \<lparr>systematic_shard_count = k, parity_shard_count = m,
               parity_to_systematic = equations\<rparr>))"

text \<open>What the standard promises of \<open>std::shuffle\<close>.\<close>

definition permuting :: "('g \<Rightarrow> 'a list \<Rightarrow> 'a list \<times> 'g) \<Rightarrow> bool" where
  "permuting shuffle \<longleftrightarrow> (\<forall>g xs. mset (fst (shuffle g xs)) = mset xs)"

section \<open>Well-formed graphs\<close>

definition graph_ok :: "BipartiteGraph \<Rightarrow> bool" where
  "graph_ok g \<longleftrightarrow>
     0 < systematic_shard_count g \<and> 0 < parity_shard_count g \<and>
     systematic_shard_count g + parity_shard_count g \<le> 2 ^ 32 \<and>
     omap_ok (parity_to_systematic g) \<and>
     unat ` fst ` set (parity_to_systematic g)
       = {systematic_shard_count g ..< systematic_shard_count g + parity_shard_count g} \<and>
     (\<forall>(p, ns)\<in>set (parity_to_systematic g).
        ns \<noteq> [] \<and> distinct ns \<and> (\<forall>s\<in>set ns. unat s < systematic_shard_count g))"

lemma graph_okD:
  assumes "graph_ok g" "(p, ns) \<in> set (parity_to_systematic g)"
  shows "ns \<noteq> []" "distinct ns" "\<And>s. s \<in> set ns \<Longrightarrow> unat s < systematic_shard_count g"
    "systematic_shard_count g \<le> unat p"
    "unat p < systematic_shard_count g + parity_shard_count g" "p \<notin> set ns"
proof -
  show "ns \<noteq> []" "distinct ns" "\<And>s. s \<in> set ns \<Longrightarrow> unat s < systematic_shard_count g"
    using assms by (auto simp: graph_ok_def)
  have "unat p \<in> unat ` fst ` set (parity_to_systematic g)" using assms(2) by force
  then show "systematic_shard_count g \<le> unat p"
    "unat p < systematic_shard_count g + parity_shard_count g"
    using assms(1) by (auto simp: graph_ok_def)
  then show "p \<notin> set ns"
    using \<open>\<And>s. s \<in> set ns \<Longrightarrow> unat s < systematic_shard_count g\<close> by fastforce
qed

lemma max_shard_count_eq: "max_shard_count = 2 ^ 32"
  by (simp add: max_shard_count_def ShardId_max_def)

lemma count_bounds:
  "\<not> (k > ShardId_max \<or> m > max_shard_count - k) \<and> 0 < m \<longleftrightarrow> k + m \<le> 2 ^ 32 \<and> 0 < m"
  by (auto simp: max_shard_count_eq ShardId_max_def)

lemma validate_parity_Inr:
  "validate_parity g i () = Inr u \<longleftrightarrow>
     (\<exists>ns. omap_find (parity_to_systematic g) (of_nat (systematic_shard_count g + i)) = Some ns \<and>
        ns \<noteq> [] \<and> distinct ns \<and> (\<forall>s\<in>set ns. unat s < systematic_shard_count g))"
  by (auto simp: validate_parity_def exn_simps not_le split: option.splits)

lemma foldE_unit_Inr: "foldE f xs () = Inr () \<longleftrightarrow> (\<forall>x\<in>set xs. f x () = Inr ())"
  by (induction xs) (auto simp: bindE_eq_Inr)

lemma ValidateGraph_iff:
  assumes "omap_ok (parity_to_systematic g)"
  shows "ValidateGraph g = Inr () \<longleftrightarrow> graph_ok g"
proof -
  let ?k = "systematic_shard_count g" and ?m = "parity_shard_count g"
  let ?es = "parity_to_systematic g"
  have main: "length ?es = ?m \<and> (\<forall>i\<in>set [0..<?m]. validate_parity g i () = Inr ()) \<longleftrightarrow>
      unat ` fst ` set ?es = {?k ..< ?k + ?m} \<and>
      (\<forall>(p, ns)\<in>set ?es. ns \<noteq> [] \<and> distinct ns \<and> (\<forall>s\<in>set ns. unat s < ?k))" (is "?l \<longleftrightarrow> ?r")
    if bound: "?k + ?m \<le> 2 ^ 32"
  proof
    assume ?l
    have len: "card (unat ` fst ` set ?es) = ?m"
    proof -
      have "card (unat ` fst ` set ?es) = card (fst ` set ?es)"
        by (rule card_image) (simp add: inj_on_def word_unat_eq_iff)
      also have "\<dots> = length ?es"
        using om.distinct_keys [OF assms] distinct_card [of "map fst ?es"] by simp
      finally show ?thesis using \<open>?l\<close> by simp
    qed
    have sub: "{?k ..< ?k + ?m} \<subseteq> unat ` fst ` set ?es"
    proof
      fix n
      assume n: "n \<in> {?k ..< ?k + ?m}"
      then have "n - ?k < ?m" by auto
      then have "validate_parity g (n - ?k) () = Inr ()" using \<open>?l\<close> by simp
      then obtain ns where "omap_find ?es (of_nat n) = Some ns"
        using n by (auto simp: validate_parity_Inr)
      then have "of_nat n \<in> fst ` set ?es" by (force dest: map_of_SomeD)
      then show "n \<in> unat ` fst ` set ?es"
        using n bound unat_of_nat_ShardId [of n] by (auto intro!: rev_image_eqI)
    qed
    have keys: "unat ` fst ` set ?es = {?k ..< ?k + ?m}"
      using card_subset_eq [OF _ sub] len by simp
    moreover have "ns \<noteq> [] \<and> distinct ns \<and> (\<forall>s\<in>set ns. unat s < ?k)" if "(p, ns) \<in> set ?es" for p ns
    proof -
      have "unat p \<in> {?k ..< ?k + ?m}" using that keys by force
      then have "validate_parity g (unat p - ?k) () = Inr ()" and p: "?k + (unat p - ?k) = unat p"
        using \<open>?l\<close> by auto
      moreover have "omap_find ?es p = Some ns" using om.entry_iff_find [OF assms] that by simp
      ultimately show ?thesis by (auto simp: validate_parity_Inr p)
    qed
    ultimately show ?r by blast
  next
    assume ?r
    have "length ?es = card (unat ` fst ` set ?es)"
    proof -
      have "card (unat ` fst ` set ?es) = card (fst ` set ?es)"
        by (rule card_image) (simp add: inj_on_def word_unat_eq_iff)
      then show ?thesis
        using om.distinct_keys [OF assms] distinct_card [of "map fst ?es"] by simp
    qed
    then have "length ?es = ?m" using \<open>?r\<close> by simp
    moreover have "validate_parity g i () = Inr ()" if "i < ?m" for i
    proof -
      have "?k + i \<in> unat ` fst ` set ?es" using \<open>?r\<close> that by simp
      then obtain p ns where "(p, ns) \<in> set ?es" "unat p = ?k + i" by auto
      then have "omap_find ?es (of_nat (?k + i)) = Some ns"
        using om.entry_iff_find [OF assms] by (metis of_nat_unat_ShardId)
      then show ?thesis using \<open>?r\<close> \<open>(p, ns) \<in> set ?es\<close> by (auto simp: validate_parity_Inr)
    qed
    ultimately show ?l by simp
  qed
  show ?thesis
  proof (cases "0 < ?k \<and> 0 < ?m \<and> ?k + ?m \<le> 2 ^ 32")
    case True
    then have "ValidateGraph g = Inr () \<longleftrightarrow>
        length ?es = ?m \<and> (\<forall>i\<in>set [0..<?m]. validate_parity g i () = Inr ())"
      using count_bounds [of ?k ?m] by (auto simp: ValidateGraph_def foldE_unit_Inr)
    also have "\<dots> \<longleftrightarrow> graph_ok g"
      using True main assms by (simp add: graph_ok_def)
    finally show ?thesis .
  next
    case False
    then show ?thesis
      using count_bounds [of ?k ?m] by (auto simp: ValidateGraph_def graph_ok_def)
  qed
qed

section \<open>Generated graphs are regular\<close>

definition regular_upto :: "nat \<Rightarrow> nat \<Rightarrow> nat \<Rightarrow> (ShardId, ShardId list) omap \<Rightarrow> bool" where
  "regular_upto k degree i equations \<longleftrightarrow>
     map fst equations = map (\<lambda>j. of_nat (k + j)) [0..<i] \<and>
     (\<forall>(p, ns)\<in>set equations. length ns = degree \<and> distinct ns \<and> (\<forall>s\<in>set ns. unat s < k))"

lemma generate_parity_step:
  assumes "permuting shuffle" "degree \<le> k" "k + i < 2 ^ 32"
    and "mset cand = mset (map of_nat [0..<k])" "regular_upto k degree i equations"
    and "generate_parity shuffle k degree i (cand, gen, equations) = (cand', gen', equations')"
  shows "mset cand' = mset (map of_nat [0..<k])" "regular_upto k degree (Suc i) equations'"
proof -
  have cand': "cand' = fst (shuffle gen cand)"
      "equations' = omap_emplace (of_nat (k + i)) (take degree cand') equations"
    using assms(6) by (auto simp: generate_parity_def split: prod.splits)
  then show m: "mset cand' = mset (map of_nat [0..<k])"
    using assms(1,4) by (simp add: permuting_def)
  have "equations' = equations @ [(of_nat (k + i), take degree cand')]"
    unfolding cand'(2)
  proof (rule omap_emplace_last)
    have "(of_nat (k + j) :: ShardId) < of_nat (k + i)" if "j < i" for j
      using that assms(3) by (simp add: word_less_nat_alt unat_of_nat_ShardId del: of_nat_add)
    then show "\<forall>k'\<in>set (map fst equations). k' < of_nat (k + i)"
      using assms(5) by (auto simp: regular_upto_def)
  qed
  moreover have "set cand' = of_nat ` {0..<k}" "distinct cand'" "length cand' = k"
  proof -
    show "set cand' = of_nat ` {0..<k}" using mset_eq_setD [OF m] by simp
    have "distinct (map (of_nat :: nat \<Rightarrow> ShardId) [0..<k])"
      using assms(3) by (auto simp: distinct_map inj_on_def of_nat_ShardId_inj)
    then show "distinct cand'" using m mset_eq_imp_distinct_iff by blast
    show "length cand' = k" using mset_eq_length [OF m] by simp
  qed
  moreover have "unat s < k" if "s \<in> set (take degree cand')" for s
    using set_take_subset [of degree cand'] that \<open>set cand' = of_nat ` {0..<k}\<close> assms(3)
    by (auto simp: unat_of_nat_ShardId)
  ultimately show "regular_upto k degree (Suc i) equations'"
    using assms(2,5) by (auto simp: regular_upto_def)
qed

lemma generate_loop:
  assumes "permuting shuffle" "degree \<le> k" "k + m \<le> 2 ^ 32"
  shows "n \<le> m \<Longrightarrow> fold (generate_parity shuffle k degree) [0..<n]
      (map of_nat [0..<k], gen, []) = (cand, gen', equations) \<Longrightarrow>
    mset cand = mset (map of_nat [0..<k]) \<and> regular_upto k degree n equations"
proof (induction n arbitrary: cand gen' equations)
  case 0
  then show ?case by (auto simp: regular_upto_def)
next
  case (Suc n)
  obtain c g e where "fold (generate_parity shuffle k degree) [0..<n]
      (map of_nat [0..<k], gen, []) = (c, g, e)" by (metis prod_cases3)
  with Suc show ?case
    using generate_parity_step [OF assms(1,2), of n c e g cand gen' equations] assms(3) by auto
qed

lemma regular_graph_ok:
  assumes "regular_upto k degree m equations" "0 < k" "0 < m" "0 < degree" "k + m \<le> 2 ^ 32"
  shows "graph_ok \<lparr>systematic_shard_count = k, parity_shard_count = m,
    parity_to_systematic = equations\<rparr>"
proof -
  have keys: "map fst equations = map (\<lambda>j. of_nat (k + j)) [0..<m]"
    using assms(1) by (simp add: regular_upto_def)
  have "sorted_wrt (<) (map (\<lambda>j. of_nat (k + j) :: ShardId) [0..<m])"
    using assms(5) by (auto simp: sorted_wrt_map sorted_wrt_iff_nth_less word_less_nat_alt
        unat_of_nat_ShardId simp del: of_nat_add)
  then have "omap_ok equations" by (simp add: omap_ok_def keys)
  moreover have "unat ` fst ` set equations = {k ..< k + m}"
  proof -
    have "fst ` set equations = (\<lambda>j. of_nat (k + j)) ` {0..<m}"
      using arg_cong [OF keys, of set] by simp
    then have "unat ` fst ` set equations = (\<lambda>j. k + j) ` {0..<m}"
      using assms(5) by (force simp: image_image unat_of_nat_ShardId simp del: of_nat_add)
    then show ?thesis by (simp add: add.commute)
  qed
  moreover have "ns \<noteq> []" if "(p, ns) \<in> set equations" for p ns
    using that assms(1,4) by (auto simp: regular_upto_def)
  ultimately show ?thesis using assms by (auto simp: graph_ok_def regular_upto_def)
qed

lemma GenerateRegularGraph_iff:
  "(\<exists>g. GenerateRegularGraph mt shuffle k m degree seed = Inr g)
    \<longleftrightarrow> 0 < k \<and> 0 < m \<and> 0 < degree \<and> degree \<le> k \<and> k + m \<le> 2 ^ 32"
  using count_bounds [of k m]
  by (auto simp: GenerateRegularGraph_def split: prod.splits if_splits)

lemma GenerateRegularGraph_ok:
  assumes "permuting shuffle" and gen: "GenerateRegularGraph mt shuffle k m degree seed = Inr g"
  shows "systematic_shard_count g = k \<and> parity_shard_count g = m \<and> graph_ok g \<and>
    (\<forall>(p, ns)\<in>set (parity_to_systematic g). length ns = degree)"
proof -
  have b: "0 < k" "0 < m" "0 < degree" "degree \<le> k" "k + m \<le> 2 ^ 32"
    using gen GenerateRegularGraph_iff [of mt shuffle k m degree seed] by auto
  obtain cand gen' equations where loop: "fold (generate_parity shuffle k degree) [0..<m]
      (map of_nat [0..<k], mt seed, []) = (cand, gen', equations)" by (metis prod_cases3)
  have g: "g = \<lparr>systematic_shard_count = k, parity_shard_count = m, parity_to_systematic = equations\<rparr>"
    using gen loop by (auto simp: GenerateRegularGraph_def split: if_splits)
  have reg: "regular_upto k degree m equations"
    using generate_loop [OF assms(1) b(4,5) order.refl loop] by simp
  then show ?thesis
    using regular_graph_ok [OF reg b(1-3,5)] g by (auto simp: regular_upto_def)
qed

text \<open>
  C13. Whatever permutation \<open>std::shuffle\<close> applies, graph generation succeeds exactly on non-zero
  dimensions with \<open>degree \<le> k\<close> and identifiers that fit a \<open>ShardId\<close>; the graph it returns passes
  \<open>ValidateGraph\<close>, and every parity has exactly \<open>degree\<close> distinct systematic neighbours.
\<close>

theorem GenerateRegularGraph_regular:
  assumes "permuting shuffle"
    and "0 < k" "0 < m" "0 < degree" "degree \<le> k" "k + m \<le> 2 ^ 32"
  shows "\<exists>g. GenerateRegularGraph mt shuffle k m degree seed = Inr g \<and>
      systematic_shard_count g = k \<and> parity_shard_count g = m \<and> ValidateGraph g = Inr () \<and>
      (\<forall>(p, ns)\<in>set (parity_to_systematic g).
         length ns = degree \<and> distinct ns \<and> (\<forall>s\<in>set ns. unat s < k))"
proof -
  obtain g where gen: "GenerateRegularGraph mt shuffle k m degree seed = Inr g"
    using GenerateRegularGraph_iff [of mt shuffle k m degree seed] assms(2-) by auto
  have g: "systematic_shard_count g = k" "parity_shard_count g = m" "graph_ok g"
      "\<forall>(p, ns)\<in>set (parity_to_systematic g). length ns = degree"
    using GenerateRegularGraph_ok [OF assms(1) gen] by auto
  then have "ValidateGraph g = Inr ()" by (simp add: ValidateGraph_iff graph_ok_def)
  then show ?thesis using gen g by (fastforce simp: graph_ok_def)
qed

text \<open>A concrete shuffle, reversing the range, stands for the parameter in the witness.\<close>

theorem GenerateRegularGraph_regular_witness:
  "\<exists>g. GenerateRegularGraph (\<lambda>_. ()) (\<lambda>g xs. (rev xs, g)) 3 2 2 (7 :: 32 word) = Inr g \<and>
     parity_to_systematic g = [(3, [2, 1]), (4, [0, 1])] \<and> ValidateGraph g = Inr ()"
proof -
  let ?gen = "GenerateRegularGraph (\<lambda>_. ()) (\<lambda>g xs. (rev xs, g)) 3 2 2 (7 :: 32 word)"
  have "permuting (\<lambda>(g :: unit) (xs :: ShardId list). (rev xs, g))" by (simp add: permuting_def)
  from GenerateRegularGraph_regular [OF this, of 3 2 2 "\<lambda>_. ()" "7 :: 32 word"]
  obtain g where g: "?gen = Inr g" "ValidateGraph g = Inr ()" by auto
  have "?gen = Inr \<lparr>systematic_shard_count = 3, parity_shard_count = 2,
      parity_to_systematic = [(3, [2, 1]), (4, [0, 1])]\<rparr>"
    by (simp add: GenerateRegularGraph_def generate_parity_def ShardId_max_def max_shard_count_def
        upt_rec word_eval)
  then show ?thesis using g by auto
qed

text \<open>Generation rejects every other set of dimensions.\<close>

lemma GenerateRegularGraph_rejects:
  "GenerateRegularGraph mt shuffle k m degree seed = Inl e \<Longrightarrow>
     k = 0 \<or> m = 0 \<or> degree = 0 \<or> k < degree \<or> 2 ^ 32 < k + m"
  using GenerateRegularGraph_iff [of mt shuffle k m degree seed] by auto

end
