(* ===== verification/Peeling.thy ===== *)
theory Peeling imports Codec Bipartite begin

text \<open>
  The abstract specifications of planning and plan execution, and the interfaces through which the
  rest of the program uses them.

  \<^item> \<open>peel_run\<close>: the nondeterministic peeling process over the equations of a graph; \<open>peelable\<close>: the
    least set of missing shards closed under "an available parity whose other neighbours are
    present or peelable". Both are independent of any traversal order.
  \<^item> \<open>xor_run\<close>: what a sequence of XOR operations does to the shard slots.
  \<^item> \<open>decode_planner\<close> and \<open>decode_backend\<close>: the contracts of \<open>DecodePlanner::CreatePlan\<close> and of an
    executor of decode plans. \<open>coded_recovery\<close> combines them and proves, once for all planners and
    backends, that recovery reconstructs the original shards.
\<close>

type_synonym equations = "(ShardId \<times> ShardId list) list"

section \<open>Peeling\<close>

definition peel_operation :: "ShardId \<Rightarrow> ShardId list \<Rightarrow> ShardId \<Rightarrow> XorOperation" where
  "peel_operation p ns x = \<lparr>xo_output = x, xo_sources = p # filter (\<lambda>s. s \<noteq> x) ns\<rparr>"

inductive peel_run ::
  "equations \<Rightarrow> ShardId set \<Rightarrow> ShardId set \<Rightarrow> XorOperation list \<Rightarrow> ShardId set \<Rightarrow> bool"
  for eqs available where
  peel_done: "peel_run eqs available M [] M"
| peel_step: "(p, ns) \<in> set eqs \<Longrightarrow> p \<in> available \<Longrightarrow> set ns \<inter> M = {x} \<Longrightarrow>
     peel_run eqs available (M - {x}) ops R \<Longrightarrow>
     peel_run eqs available M (peel_operation p ns x # ops) R"

inductive_cases peel_run_ConsE: "peel_run eqs available M (op # ops) R"
inductive_simps peel_run_Nil [simp]: "peel_run eqs available M [] R"

text \<open>No equation with an available parity has exactly one missing neighbour.\<close>

definition stuck :: "equations \<Rightarrow> ShardId set \<Rightarrow> ShardId set \<Rightarrow> bool" where
  "stuck eqs available R \<longleftrightarrow> (\<forall>(p, ns)\<in>set eqs. p \<in> available \<longrightarrow> card (set ns \<inter> R) \<noteq> 1)"

inductive_set peelable :: "equations \<Rightarrow> ShardId set \<Rightarrow> ShardId set \<Rightarrow> ShardId set"
  for eqs available M where
  peelable_step: "(p, ns) \<in> set eqs \<Longrightarrow> p \<in> available \<Longrightarrow> x \<in> set ns \<Longrightarrow> x \<in> M \<Longrightarrow>
     (\<And>y. y \<in> set ns \<Longrightarrow> y \<noteq> x \<Longrightarrow> y \<in> M \<Longrightarrow> y \<in> peelable eqs available M) \<Longrightarrow>
     x \<in> peelable eqs available M"

lemma peel_run_snoc:
  assumes "peel_run eqs available M ops R" "(p, ns) \<in> set eqs" "p \<in> available" "set ns \<inter> R = {x}"
  shows "peel_run eqs available M (ops @ [peel_operation p ns x]) (R - {x})"
  using assms
proof (induction rule: peel_run.induct)
  case (peel_done M)
  then show ?case by (auto intro!: peel_run.intros)
next
  case (peel_step p' ns' M x' ops R)
  then show ?case by (auto intro!: peel_run.intros)
qed

lemma peel_run_outputs:
  "peel_run eqs available M ops R \<Longrightarrow>
     R \<subseteq> M \<and> distinct (map xo_output ops) \<and> xo_output ` set ops = M - R"
proof (induction rule: peel_run.induct)
  case (peel_done M)
  then show ?case by simp
next
  case (peel_step p ns M x ops R)
  have IH: "R \<subseteq> M - {x}" "distinct (map xo_output ops)" "xo_output ` set ops = M - {x} - R"
    using peel_step.IH by blast+
  have "x \<in> M" using peel_step.hyps(3) by blast
  note x = this IH
  then have "xo_output ` set (peel_operation p ns x # ops) = M - R"
    by (auto simp: peel_operation_def)
  moreover have "x \<notin> xo_output ` set ops" by (simp add: x)
  ultimately show ?case using x by (simp add: peel_operation_def) blast
qed

lemma peel_run_length:
  assumes "peel_run eqs available M ops R"
  shows "length ops = card (M - R)"
  using peel_run_outputs [OF assms] distinct_card [of "map xo_output ops"] by simp

text \<open>Soundness: what a run recovers is peelable.\<close>

lemma peel_run_peelable:
  assumes "peel_run eqs available M' ops R" "M' \<subseteq> M" "M - M' \<subseteq> peelable eqs available M"
  shows "M - R \<subseteq> peelable eqs available M"
  using assms
proof (induction rule: peel_run.induct)
  case (peel_done M')
  then show ?case by simp
next
  case (peel_step p ns M' x ops R)
  have "x \<in> peelable eqs available M"
    by (rule peelable_step [of p ns]) (use peel_step.hyps(1-3) peel_step.prems in blast)+
  then have "M - (M' - {x}) \<subseteq> peelable eqs available M" using peel_step.prems(2) by blast
  then show ?case using peel_step.IH peel_step.prems(1) by blast
qed

text \<open>Completeness: from a stuck set nothing is peelable, in whatever order one tries.\<close>

lemma stuck_not_peelable:
  assumes "stuck eqs available R" "R \<subseteq> M" "x \<in> peelable eqs available M"
  shows "x \<notin> R"
  using assms(3)
proof (induction rule: peelable.induct)
  case (peelable_step p ns x)
  show ?case
  proof
    assume "x \<in> R"
    then have "set ns \<inter> R = {x}" using peelable_step assms(2) by blast
    then have "card (set ns \<inter> R) = 1" by simp
    then show False using assms(1) peelable_step(1,2) unfolding stuck_def by blast
  qed
qed

text \<open>More parities, or fewer missing shards, never make a shard unpeelable.\<close>

lemma peelable_mono:
  assumes "x \<in> peelable eqs available M" "available \<subseteq> available'" "M' \<subseteq> M" "x \<in> M'"
  shows "x \<in> peelable eqs available' M'"
  using assms(1,4)
proof (induction rule: peelable.induct)
  case (peelable_step p ns x)
  show ?case
    by (rule peelable.peelable_step [of p ns]) (use peelable_step assms(2,3) in blast)+
qed

section \<open>Executing XOR operations\<close>

definition xor_step :: "XorOperation \<Rightarrow> ShardSlots \<Rightarrow> ShardSlots \<Rightarrow> bool" where
  "xor_step op shards shards' \<longleftrightarrow>
     unat (xo_output op) < length shards \<and> xo_sources op \<noteq> [] \<and> slot shards (xo_output op) = None \<and>
     (\<exists>n>0. (\<forall>s\<in>set (xo_sources op). \<exists>w. slot shards s = Some w \<and> length w = n) \<and>
        shards' = shards[unat (xo_output op) :=
          Some (xor_all n (map (\<lambda>s. the (slot shards s)) (xo_sources op)))])"

inductive xor_run :: "XorOperation list \<Rightarrow> ShardSlots \<Rightarrow> ShardSlots \<Rightarrow> bool" where
  xor_nil: "xor_run [] shards shards"
| xor_cons: "xor_step op shards shards1 \<Longrightarrow> xor_run ops shards1 shards2 \<Longrightarrow>
     xor_run (op # ops) shards shards2"

inductive_simps xor_run_Nil [simp]: "xor_run [] shards shards'"
inductive_simps xor_run_Cons: "xor_run (op # ops) shards shards'"

lemma xor_step_functional: "xor_step op s t \<Longrightarrow> xor_step op s t' \<Longrightarrow> t = t'"
proof -
  assume a: "xor_step op s t" "xor_step op s t'"
  then obtain n n' where n: "\<forall>x\<in>set (xo_sources op). \<exists>w. slot s x = Some w \<and> length w = n"
      "t = s[unat (xo_output op) := Some (xor_all n (map (\<lambda>x. the (slot s x)) (xo_sources op)))]"
      "\<forall>x\<in>set (xo_sources op). \<exists>w. slot s x = Some w \<and> length w = n'"
      "t' = s[unat (xo_output op) := Some (xor_all n' (map (\<lambda>x. the (slot s x)) (xo_sources op)))]"
    and "xo_sources op \<noteq> []" by (auto simp: xor_step_def)
  from \<open>xo_sources op \<noteq> []\<close> have "hd (xo_sources op) \<in> set (xo_sources op)" by simp
  then have "n = n'" using n(1,3) by fastforce
  then show ?thesis using n by simp
qed

lemma xor_run_functional: "xor_run ops s t \<Longrightarrow> xor_run ops s t' \<Longrightarrow> t = t'"
  by (induction ops arbitrary: s) (auto simp: xor_run_Cons dest: xor_step_functional)

section \<open>Codewords\<close>

text \<open>
  A codeword assigns to every shard identifier a shard of \<open>n\<close> words such that every parity is the
  exclusive-or of its neighbours. Slots agree with it when every present shard carries its value.
\<close>

definition codeword :: "equations \<Rightarrow> nat \<Rightarrow> (ShardId \<Rightarrow> WordShard) \<Rightarrow> bool" where
  "codeword eqs n val \<longleftrightarrow> (\<forall>i. length (val i) = n) \<and>
     (\<forall>(p, ns)\<in>set eqs. val p = xor_all n (map val ns))"

definition agrees :: "(ShardId \<Rightarrow> WordShard) \<Rightarrow> ShardSlots \<Rightarrow> bool" where
  "agrees val shards \<longleftrightarrow> (\<forall>i w. slot shards i = Some w \<longrightarrow> w = val i)"

text \<open>The shards a plan over \<open>eqs\<close> may read are there: everything a parity touches but the missing.\<close>

definition holds_all_but :: "ShardId set \<Rightarrow> equations \<Rightarrow> ShardId set \<Rightarrow> ShardSlots \<Rightarrow> bool" where
  "holds_all_but M eqs available shards \<longleftrightarrow>
     (\<forall>i\<in>M. unat i < length shards \<and> slot shards i = None) \<and>
     (\<forall>(p, ns)\<in>set eqs. (p \<in> available \<longrightarrow> slot shards p \<noteq> None) \<and>
        (\<forall>s\<in>set ns. s \<notin> M \<longrightarrow> slot shards s \<noteq> None))"

lemma peel_step_executes:
  assumes g: "\<forall>(p, ns)\<in>set eqs. distinct ns"
    and cw: "codeword eqs n val" "0 < n" "agrees val shards"
    and held: "holds_all_but M eqs available shards"
    and op: "(p, ns) \<in> set eqs" "p \<in> available" "set ns \<inter> M = {x}"
  shows "xor_step (peel_operation p ns x) shards (shards[unat x := Some (val x)])"
proof -
  have x: "x \<in> set ns" "unat x < length shards" "slot shards x = None"
    using op(3) held by (auto simp: holds_all_but_def)
  have src: "slot shards s = Some (val s)" if "s \<in> set (p # filter (\<lambda>s. s \<noteq> x) ns)" for s
  proof -
    have s: "s = p \<or> s \<in> set ns \<and> s \<notin> M" using op(3) that by auto
    have "slot shards p \<noteq> None" "\<forall>s\<in>set ns. s \<notin> M \<longrightarrow> slot shards s \<noteq> None"
      using held op(1,2) unfolding holds_all_but_def by blast+
    with s have "slot shards s \<noteq> None" by blast
    then show ?thesis using cw(3) by (auto simp: agrees_def)
  qed
  have val: "val p = xor_all n (map val ns)" "\<forall>y. length (val y) = n"
    using cw(1) op(1) by (auto simp: codeword_def)
  have "distinct ns" using g op(1) by auto
  then have "xor_all n (map val (p # filter (\<lambda>s. s \<noteq> x) ns)) = val x"
    by (rule xor_all_recover [OF _ x(1) val(2,1)])
  moreover have "map (\<lambda>s. the (slot shards s)) (p # filter (\<lambda>s. s \<noteq> x) ns)
      = map val (p # filter (\<lambda>s. s \<noteq> x) ns)"
    by (rule map_cong [OF refl]) (use src in simp)
  ultimately have e: "xor_all n (map (\<lambda>s. the (slot shards s)) (p # filter (\<lambda>s. s \<noteq> x) ns)) = val x"
    by (simp only:)
  have o: "xo_output (peel_operation p ns x) = x"
      "xo_sources (peel_operation p ns x) = p # filter (\<lambda>s. s \<noteq> x) ns"
    by (simp_all add: peel_operation_def)
  show ?thesis
    unfolding xor_step_def o e [symmetric]
    using x src val(2) cw(2) by blast
qed

lemma peel_run_executes:
  assumes "peel_run eqs available M ops R" "\<forall>(p, ns)\<in>set eqs. distinct ns"
    and "codeword eqs n val" "0 < n" "agrees val shards" "holds_all_but M eqs available shards"
  shows "\<exists>shards'. xor_run ops shards shards' \<and> agrees val shards' \<and> length shards' = length shards \<and>
    (\<forall>i. slot shards' i = (if i \<in> M - R then Some (val i) else slot shards i))"
  using assms
proof (induction arbitrary: shards rule: peel_run.induct)
  case (peel_done M)
  then show ?case by auto
next
  case (peel_step p ns M x ops R)
  let ?s = "shards[unat x := Some (val x)]"
  have step: "xor_step (peel_operation p ns x) shards ?s"
    using peel_step_executes [of eqs n val shards M available p ns x] peel_step by blast
  have x: "x \<in> M" "unat x < length shards"
    using peel_step.hyps peel_step.prems by (auto simp: holds_all_but_def)
  have "agrees val ?s" using peel_step.prems(4) x by (auto simp: agrees_def slot_update split: if_splits)
  moreover have "holds_all_but (M - {x}) eqs available ?s"
    using peel_step.prems(5) x unfolding holds_all_but_def by (fastforce simp: slot_update)
  ultimately obtain shards' where run: "xor_run ops ?s shards'" "agrees val shards'"
      "length shards' = length ?s"
      "\<forall>i. slot shards' i = (if i \<in> M - {x} - R then Some (val i) else slot ?s i)"
    using peel_step.IH [of ?s] peel_step.prems by blast
  have "R \<subseteq> M - {x}" using peel_run_outputs peel_step.hyps by blast
  then have "\<forall>i. slot shards' i = (if i \<in> M - R then Some (val i) else slot shards i)"
    using run(4) x by (auto simp: slot_update)
  then show ?case using run step by (auto intro: xor_run.intros)
qed

section \<open>The interfaces\<close>

text \<open>What \<open>CreatePlan\<close> promises its callers.\<close>

locale decode_planner =
  fixes create :: "BipartiteGraph \<Rightarrow> ShardId set \<Rightarrow> ShardId set \<Rightarrow> DecodePlan result"
  assumes create_succeeds: "graph_ok g \<Longrightarrow> \<forall>i\<in>M. unat i < systematic_shard_count g \<Longrightarrow>
      available \<subseteq> fst ` set (parity_to_systematic g) \<Longrightarrow> \<exists>plan. create g M available = Inr plan"
    and create_runs: "graph_ok g \<Longrightarrow> create g M available = Inr plan \<Longrightarrow> is_recoverable plan \<Longrightarrow>
      peel_run (parity_to_systematic g) available M (operations plan) {}"
    and create_complete: "graph_ok g \<Longrightarrow> create g M available = Inr plan \<Longrightarrow>
      is_recoverable plan \<longleftrightarrow> M \<subseteq> peelable (parity_to_systematic g) available M"
    and create_shape: "graph_ok g \<Longrightarrow> create g M available = Inr plan \<Longrightarrow> is_recoverable plan \<Longrightarrow>
      ValidatePlanShape plan = Inr ()"
begin

lemma recoverable_mono:
  assumes "graph_ok g" "create g M available = Inr plan" "is_recoverable plan"
    and "create g M' available' = Inr plan'" "M' \<subseteq> M" "available \<subseteq> available'"
  shows "is_recoverable plan'"
  using assms create_complete peelable_mono [of _ "parity_to_systematic g" available M available' M']
  by (meson subset_iff)

end

text \<open>What an executor of decode plans promises: a well-shaped plan whose operations can run does run.\<close>

locale decode_backend =
  fixes execute :: "DecodePlan \<Rightarrow> ShardSlots \<Rightarrow> ShardSlots \<times> exn option"
  assumes execute_run: "ValidatePlanShape plan = Inr () \<Longrightarrow> xor_run (operations plan) shards shards' \<Longrightarrow>
      \<forall>i w. slot shards i = Some w \<longrightarrow> w \<noteq> [] \<Longrightarrow> execute plan shards = (shards', None)"

locale coded_recovery = decode_planner create + decode_backend execute
  for create :: "BipartiteGraph \<Rightarrow> ShardId set \<Rightarrow> ShardId set \<Rightarrow> DecodePlan result"
    and execute :: "DecodePlan \<Rightarrow> ShardSlots \<Rightarrow> ShardSlots \<times> exn option"
begin

lemma recovers_codeword:
  assumes "graph_ok g" "create g M available = Inr plan" "is_recoverable plan"
    and "codeword (parity_to_systematic g) n val" "0 < n" "agrees val shards"
    and "holds_all_but M (parity_to_systematic g) available shards"
  shows "\<exists>shards'. execute plan shards = (shards', None) \<and> length shards' = length shards \<and>
    (\<forall>i. slot shards' i = (if i \<in> M then Some (val i) else slot shards i))"
proof -
  have "\<forall>(p, ns)\<in>set (parity_to_systematic g). distinct ns"
    using graph_okD(2) [OF assms(1)] by blast
  from peel_run_executes [OF create_runs [OF assms(1-3)] this assms(4-7)]
  obtain shards' where run: "xor_run (operations plan) shards shards'"
      "length shards' = length shards"
      "\<forall>i. slot shards' i = (if i \<in> M then Some (val i) else slot shards i)" by auto
  moreover have "w \<noteq> []" if "slot shards i = Some w" for i w
  proof -
    have "length w = n" using assms(4,6) that by (auto simp: agrees_def codeword_def)
    then show ?thesis using assms(5) by auto
  qed
  ultimately show ?thesis using execute_run [OF create_shape [OF assms(1-3)]] by blast
qed

end

text \<open>The CPU executor meets the contract of a backend.\<close>

lemma execute_operation_xor_step: "execute_operation op shards = Inr shards' \<longleftrightarrow> xor_step op shards shards'"
  by (simp add: execute_operation_Inr xor_step_def)

lemma execute_operations_xor_run:
  "execute_operations ops shards = (shards', None) \<longleftrightarrow> xor_run ops shards shards'"
proof (induction ops arbitrary: shards)
  case Nil
  then show ?case by auto
next
  case (Cons op ops)
  then show ?case
    by (cases "execute_operation op shards")
      (auto simp: xor_run_Cons simp flip: execute_operation_xor_step)
qed

interpretation cpu: decode_backend execute_decode_plan_cpu
  by unfold_locales (simp add: execute_decode_plan_cpu_def execute_operations_xor_run)

end
