(* ===== verification/Planner.thy ===== *)
theory Planner imports Peeling begin

text \<open>
  \<open>src/coding/planner.cpp\<close>: the peeling planner. The \<open>while\<close> loop is \<open>peel_loop\<close>, one pass of the
  inner \<open>for\<close> over the ordered map is \<open>sweep\<close>, and one visit of an equation is \<open>visit_equation\<close>.
  The local variables \<open>remaining\<close>, \<open>plan\<close> and \<open>producing_operation\<close> are the record
  \<open>PlannerState\<close>. The loop terminates because a pass that made progress shrank \<open>remaining\<close>.
\<close>

record PlannerState =
  remaining :: "ShardId set"
  plan_operations :: "XorOperation list"
  plan_dependencies :: "nat list list"
  producing_operation :: "ShardId \<rightharpoonup> nat"

section \<open>The algorithm\<close>

text \<open>The scan for \<open>missing_neighbor\<close> and \<open>missing_neighbor_count\<close>.\<close>

definition scan_missing :: "ShardId set \<Rightarrow> ShardId list \<Rightarrow> ShardId \<times> nat" where
  "scan_missing R neighbors =
     foldl (\<lambda>(missing_neighbor, missing_count) s.
        if s \<in> R then (s, missing_count + 1) else (missing_neighbor, missing_count)) (0, 0) neighbors"

text \<open>The loop that collects the other sources and their producers.\<close>

definition collect_sources ::
  "(ShardId \<rightharpoonup> nat) \<Rightarrow> ShardId \<Rightarrow> ShardId list \<Rightarrow> ShardId list \<times> nat list \<Rightarrow> ShardId list \<times> nat list" where
  "collect_sources producing missing_neighbor neighbors start =
     foldl (\<lambda>(srcs, deps) s.
        if s = missing_neighbor then (srcs, deps)
        else (srcs @ [s], (case producing s of None \<Rightarrow> deps | Some i \<Rightarrow> deps @ [i])))
       start neighbors"

text \<open>
  One iteration of the inner loop: \<open>None\<close> for \<open>continue\<close>, the updated state when an operation was
  emitted. \<open>std::sort\<close> followed by \<open>erase(unique(...))\<close> is \<open>remdups_adj\<close> after \<open>sort\<close>.
\<close>

definition visit_equation ::
  "ShardId set \<Rightarrow> ShardId \<times> ShardId list \<Rightarrow> PlannerState \<Rightarrow> PlannerState option" where
  "visit_equation available equation st =
     (case equation of (parity, neighbors) \<Rightarrow>
       if parity \<notin> available then None
       else (case scan_missing (remaining st) neighbors of (missing_neighbor, missing_count) \<Rightarrow>
         if missing_count \<noteq> 1 then None
         else (case collect_sources (producing_operation st) missing_neighbor neighbors ([parity], [])
               of (srcs, deps) \<Rightarrow>
           Some (st\<lparr>
             remaining := remaining st - {missing_neighbor},
             plan_operations := plan_operations st @ [\<lparr>xo_output = missing_neighbor, xo_sources = srcs\<rparr>],
             plan_dependencies := plan_dependencies st @ [remdups_adj (sort deps)],
             producing_operation := (case producing_operation st missing_neighbor of
                 None \<Rightarrow> (producing_operation st)(missing_neighbor \<mapsto> length (plan_operations st))
               | Some _ \<Rightarrow> producing_operation st)\<rparr>))))"

text \<open>One pass over the map; the flag is \<open>made_progress\<close>.\<close>

fun sweep :: "ShardId set \<Rightarrow> equations \<Rightarrow> PlannerState \<Rightarrow> bool \<Rightarrow> PlannerState \<times> bool" where
  "sweep available [] st progress = (st, progress)"
| "sweep available (equation # eqs) st progress =
     (case visit_equation available equation st of
        None \<Rightarrow> sweep available eqs st progress
      | Some st' \<Rightarrow>
          if remaining st' = {} then (st', True) else sweep available eqs st' True)"

lemma scan_missing_eq:
  "scan_missing R ns = (let ms = filter (\<lambda>s. s \<in> R) ns in (if ms = [] then 0 else last ms, length ms))"
proof -
  have "foldl (\<lambda>(m, c) s. if s \<in> R then (s, c + 1) else (m, c)) (m, c :: nat) ns
      = (let ms = filter (\<lambda>s. s \<in> R) ns in (if ms = [] then m else last ms, c + length ms))" for m c
    by (induction ns arbitrary: m c) (auto simp: Let_def)
  then show ?thesis by (simp add: scan_missing_def)
qed

lemma scan_missing_one:
  assumes "scan_missing R ns = (x, 1)"
  shows "filter (\<lambda>s. s \<in> R) ns = [x]"
  using assms by (auto simp: scan_missing_eq Let_def length_Suc_conv split: if_splits)

lemma visit_equation_remaining:
  assumes "visit_equation available e st = Some st'"
  shows "\<exists>x\<in>remaining st. remaining st' = remaining st - {x}"
proof -
  obtain p ns x where e: "e = (p, ns)" "scan_missing (remaining st) ns = (x, 1)"
      "remaining st' = remaining st - {x}"
    using assms by (auto simp: visit_equation_def split: prod.splits if_splits)
  have "x \<in> set (filter (\<lambda>s. s \<in> remaining st) ns)"
    using scan_missing_one [OF e(2)] by simp
  then show ?thesis using e by auto
qed

lemma sweep_card:
  "sweep available eqs st progress = (st', progress') \<Longrightarrow>
     card (remaining st') \<le> card (remaining st) \<and>
     (progress' \<and> \<not> progress \<longrightarrow> card (remaining st') < card (remaining st))"
proof (induction eqs arbitrary: st progress)
  case Nil
  then show ?case by simp
next
  case (Cons e eqs)
  show ?case
  proof (cases "visit_equation available e st")
    case None
    then show ?thesis using Cons.IH [of st progress] Cons.prems by simp
  next
    case (Some st1)
    then obtain x where "x \<in> remaining st" "remaining st1 = remaining st - {x}"
      using visit_equation_remaining by blast
    then have less: "card (remaining st1) < card (remaining st)"
      using card_Diff1_less [OF finite_ShardId_set] by (simp only:)
    then show ?thesis
      using Cons.prems Cons.IH [of st1 True] Some by (auto split: if_splits)
  qed
qed

function peel_loop :: "ShardId set \<Rightarrow> equations \<Rightarrow> PlannerState \<Rightarrow> DecodePlan" where
  "peel_loop available eqs st =
     (if remaining st = {}
      then \<lparr>operations = plan_operations st, dependencies = plan_dependencies st,
            is_recoverable = True\<rparr>
      else (case sweep available eqs st False of (st', made_progress) \<Rightarrow>
        if \<not> made_progress then Unrecoverable else peel_loop available eqs st'))"
  by pat_completeness auto
termination
  by (relation "measure (\<lambda>(available, eqs, st). card (remaining st))") (auto dest!: sweep_card [OF sym])

declare peel_loop.simps [simp del]

definition CreatePlan :: "BipartiteGraph \<Rightarrow> ShardId set \<Rightarrow> ShardId set \<Rightarrow> DecodePlan result" where
  "CreatePlan g missing available =
     bindE (ValidateGraph g) (\<lambda>_.
       if \<exists>i\<in>missing. unat i \<ge> systematic_shard_count g
       then Inl (InvalidArgument ''Missing shard set must contain only systematic shards'')
       else if \<exists>p\<in>available. unat p < systematic_shard_count g
         \<or> unat p \<ge> systematic_shard_count g + parity_shard_count g
       then Inl (InvalidArgument ''Available parity set contains a non-parity shard'')
       else Inr (peel_loop available (parity_to_systematic g)
         \<lparr>remaining = missing, plan_operations = [], plan_dependencies = [],
          producing_operation = Map.empty\<rparr>))"

text \<open>The overload without a parity set takes every parity as available.\<close>

definition CreatePlan_all :: "BipartiteGraph \<Rightarrow> ShardId set \<Rightarrow> DecodePlan result" where
  "CreatePlan_all g missing = CreatePlan g missing (set (map fst (parity_to_systematic g)))"

section \<open>The invariant of the loop\<close>

text \<open>The operations of \<open>ops\<close> before index \<open>i\<close> that produce a source of operation \<open>i\<close>.\<close>

definition producers :: "XorOperation list \<Rightarrow> nat \<Rightarrow> nat set" where
  "producers ops i = {j. j < i \<and> xo_output (ops ! j) \<in> set (xo_sources (ops ! i))}"

definition planner_inv ::
  "equations \<Rightarrow> ShardId set \<Rightarrow> ShardId set \<Rightarrow> PlannerState \<Rightarrow> bool" where
  "planner_inv eqs available M st \<longleftrightarrow>
     peel_run eqs available M (plan_operations st) (remaining st) \<and>
     length (plan_dependencies st) = length (plan_operations st) \<and>
     (\<forall>x i. producing_operation st x = Some i \<longleftrightarrow>
        i < length (plan_operations st) \<and> xo_output (plan_operations st ! i) = x) \<and>
     (\<forall>i<length (plan_operations st).
        plan_dependencies st ! i = sorted_list_of_set (producers (plan_operations st) i))"

lemma collect_sources_eq:
  "collect_sources producing x ns (srcs, deps) =
     (srcs @ filter (\<lambda>s. s \<noteq> x) ns,
      deps @ List.map_filter producing (filter (\<lambda>s. s \<noteq> x) ns))"
  by (induction ns arbitrary: srcs deps)
    (auto simp: collect_sources_def map_filter_simps split: option.splits)

lemma strict_sorted_remdups_adj: "sorted xs \<Longrightarrow> sorted_wrt (<) (remdups_adj xs)"
  by (induction xs rule: remdups_adj.induct) (auto simp: order.strict_iff_order)

lemma remdups_adj_sort: "remdups_adj (sort (xs :: nat list)) = sorted_list_of_set (set xs)"
proof (rule sorted_distinct_set_unique)
  show "distinct (remdups_adj (sort xs))"
    using strict_sorted_remdups_adj [of "sort xs"] by (simp add: strict_sorted_iff)
qed simp_all

lemma producers_append:
  "i < length ops \<Longrightarrow> producers (ops @ [op]) i = producers ops i"
  by (auto simp: producers_def nth_append)

lemma set_map_filter: "set (List.map_filter f xs) = {y. \<exists>x\<in>set xs. f x = Some y}"
  by (induction xs) (auto simp: map_filter_simps split: option.splits)

text \<open>What a visit that emits an operation does to the state.\<close>

lemma visit_equation_Some:
  assumes "visit_equation available (p, ns) st = Some st'"
  obtains x where "p \<in> available" "set ns \<inter> remaining st = {x}"
    "remaining st' = remaining st - {x}"
    "plan_operations st' = plan_operations st @ [peel_operation p ns x]"
    "plan_dependencies st' = plan_dependencies st @ [sorted_list_of_set
        {i. \<exists>s\<in>set ns. s \<noteq> x \<and> producing_operation st s = Some i}]"
    "producing_operation st x = None \<Longrightarrow>
       producing_operation st' = (producing_operation st)(x \<mapsto> length (plan_operations st))"
proof -
  obtain x where x: "p \<in> available" "scan_missing (remaining st) ns = (x, 1)"
    using assms by (auto simp: visit_equation_def split: prod.splits if_splits)
  have st': "remaining st' = remaining st - {x}"
    "plan_operations st' = plan_operations st @ [peel_operation p ns x]"
    "plan_dependencies st' = plan_dependencies st @ [remdups_adj (sort
        (List.map_filter (producing_operation st) (filter (\<lambda>s. s \<noteq> x) ns)))]"
    "producing_operation st x = None \<Longrightarrow>
       producing_operation st' = (producing_operation st)(x \<mapsto> length (plan_operations st))"
    using assms x
    by (auto simp: visit_equation_def collect_sources_eq peel_operation_def split: if_splits)
  have "set (filter (\<lambda>s. s \<in> remaining st) ns) = {x}"
    using scan_missing_one [OF x(2)] by simp
  then have "set ns \<inter> remaining st = {x}" by auto
  moreover have "{i. \<exists>s\<in>set ns. s \<noteq> x \<and> producing_operation st s = Some i}
      = set (List.map_filter (producing_operation st) (filter (\<lambda>s. s \<noteq> x) ns))"
    by (auto simp: set_map_filter)
  ultimately show ?thesis
    using that x(1) st' by (simp add: remdups_adj_sort)
qed

lemma visit_equation_None:
  assumes "visit_equation available (p, ns) st = None" "p \<in> available" "distinct ns"
  shows "card (set ns \<inter> remaining st) \<noteq> 1"
proof -
  have "length (filter (\<lambda>s. s \<in> remaining st) ns) \<noteq> 1"
    using assms(1,2) by (auto simp: visit_equation_def scan_missing_eq Let_def split: prod.splits if_splits)
  moreover have "card (set (filter (\<lambda>s. s \<in> remaining st) ns)) = length (filter (\<lambda>s. s \<in> remaining st) ns)"
    by (rule distinct_card) (use assms(3) in simp)
  moreover have "set (filter (\<lambda>s. s \<in> remaining st) ns) = set ns \<inter> remaining st" by auto
  ultimately show ?thesis by simp
qed

lemma planner_inv_visit:
  assumes inv: "planner_inv eqs available M st" and e: "(p, ns) \<in> set eqs" "p \<notin> M"
    and visit: "visit_equation available (p, ns) st = Some st'"
  shows "planner_inv eqs available M st'"
proof -
  let ?ops = "plan_operations st"
  obtain x where x: "p \<in> available" "set ns \<inter> remaining st = {x}"
    "remaining st' = remaining st - {x}"
    "plan_operations st' = ?ops @ [peel_operation p ns x]"
    "plan_dependencies st' = plan_dependencies st @ [sorted_list_of_set
        {i. \<exists>s\<in>set ns. s \<noteq> x \<and> producing_operation st s = Some i}]"
    "producing_operation st x = None \<Longrightarrow>
       producing_operation st' = (producing_operation st)(x \<mapsto> length ?ops)"
    by (rule visit_equation_Some [OF visit]) (rule that)
  have run: "peel_run eqs available M ?ops (remaining st)" using inv by (simp add: planner_inv_def)
  have prod: "producing_operation st y = Some i \<longleftrightarrow> i < length ?ops \<and> xo_output (?ops ! i) = y" for y i
    using inv by (simp add: planner_inv_def)
  have outs: "xo_output (?ops ! i) \<in> M - remaining st" if "i < length ?ops" for i
    using peel_run_outputs [OF run] that by (metis image_eqI nth_mem)
  have ne: "xo_output (?ops ! i) \<noteq> x" if "i < length ?ops" for i
    using outs [OF that] x(2) by auto
  have fresh: "producing_operation st x = None"
  proof (cases "producing_operation st x")
    case (Some i)
    then show ?thesis using prod [of x i] ne [of i] by simp
  qed simp
  have "peel_run eqs available M (?ops @ [peel_operation p ns x]) (remaining st - {x})"
    by (rule peel_run_snoc [OF run e(1) x(1,2)])
  moreover have "producing_operation st' y = Some i \<longleftrightarrow>
      i < length (?ops @ [peel_operation p ns x]) \<and> xo_output ((?ops @ [peel_operation p ns x]) ! i) = y"
    for y i
    using prod ne fresh x(6) by (auto simp: nth_append peel_operation_def less_Suc_eq)
  moreover have "{i. \<exists>s\<in>set ns. s \<noteq> x \<and> producing_operation st s = Some i}
      = producers (?ops @ [peel_operation p ns x]) (length ?ops)"
    using prod outs e(2) x(2) by (auto simp: producers_def nth_append peel_operation_def)
  ultimately show ?thesis
    using inv x(3-5) by (auto simp: planner_inv_def nth_append producers_append less_Suc_eq)
qed

lemma sweep_inv:
  assumes "sweep available es st progress = (st', progress')" "planner_inv eqs available M st"
    and "set es \<subseteq> set eqs" "\<forall>(p, ns)\<in>set eqs. p \<notin> M \<and> distinct ns"
  shows "planner_inv eqs available M st'
    \<and> (\<not> progress' \<longrightarrow> st' = st \<and> (\<forall>(p, ns)\<in>set es. p \<in> available \<longrightarrow> card (set ns \<inter> remaining st) \<noteq> 1))"
  using assms
proof (induction es arbitrary: st progress)
  case Nil
  then show ?case by simp
next
  case (Cons e es)
  obtain p ns where e: "e = (p, ns)" by (cases e)
  have pe: "(p, ns) \<in> set eqs" "p \<notin> M" "distinct ns" using Cons.prems(3,4) e by auto
  show ?case
  proof (cases "visit_equation available e st")
    case None
    then show ?thesis
      using Cons.IH [of st progress] Cons.prems visit_equation_None [of available p ns st] pe e by auto
  next
    case (Some st1)
    then have inv: "planner_inv eqs available M st1"
      using planner_inv_visit [OF Cons.prems(2) pe(1,2)] e by simp
    have progress: "sweep available es' st'' True = (st', progress') \<Longrightarrow> progress'" for es' st''
      by (induction es' arbitrary: st'') (auto split: option.splits if_splits)
    show ?thesis
    proof (cases "remaining st1 = {}")
      case True
      then show ?thesis using Cons.prems(1) Some inv by auto
    next
      case False
      then have "sweep available es st1 True = (st', progress')" using Cons.prems(1) Some by simp
      then show ?thesis using Cons.IH [of st1 True] inv Cons.prems(3,4) progress by auto
    qed
  qed
qed

text \<open>
  The outcome of the loop: a complete peeling run with exact dependencies, or \<open>Unrecoverable\<close> with
  a non-empty stuck set.
\<close>

lemma peel_loop_outcome:
  assumes "planner_inv eqs available M st" "\<forall>(p, ns)\<in>set eqs. p \<notin> M \<and> distinct ns"
  shows "(\<exists>st'. planner_inv eqs available M st' \<and> remaining st' = {} \<and>
      peel_loop available eqs st = \<lparr>operations = plan_operations st',
        dependencies = plan_dependencies st', is_recoverable = True\<rparr>)
    \<or> (\<exists>st'. planner_inv eqs available M st' \<and> remaining st' \<noteq> {} \<and>
      stuck eqs available (remaining st') \<and> peel_loop available eqs st = Unrecoverable)"
  using assms
proof (induction available eqs st rule: peel_loop.induct)
  case (1 available eqs st)
  show ?case
  proof (cases "remaining st = {}")
    case True
    then show ?thesis using "1.prems"(1) by (auto simp: peel_loop.simps [of _ _ st])
  next
    case False
    obtain st' made where sw: "sweep available eqs st False = (st', made)" by fastforce
    have inv: "planner_inv eqs available M st'"
      "\<not> made \<Longrightarrow> st' = st \<and> stuck eqs available (remaining st)"
      using sweep_inv [OF sw "1.prems"(1) order.refl "1.prems"(2)] by (auto simp: stuck_def)
    show ?thesis
    proof (cases made)
      case True
      then show ?thesis
        using "1.IH" [OF False sw [symmetric] _ inv(1) "1.prems"(2)] False sw
        by (simp add: peel_loop.simps [of _ _ st])
    next
      case nomade: False
      then show ?thesis
        using inv False sw "1.prems"(1) by (auto simp: peel_loop.simps [of _ _ st])
    qed
  qed
qed

section \<open>CreatePlan meets the planner contract\<close>

lemma CreatePlan_Inr:
  assumes "graph_ok g"
  shows "CreatePlan g M available = Inr plan \<longleftrightarrow>
    (\<forall>i\<in>M. unat i < systematic_shard_count g) \<and>
    available \<subseteq> fst ` set (parity_to_systematic g) \<and>
    plan = peel_loop available (parity_to_systematic g)
      \<lparr>remaining = M, plan_operations = [], plan_dependencies = [], producing_operation = Map.empty\<rparr>"
proof -
  let ?k = "systematic_shard_count g" and ?m = "parity_shard_count g"
  have keys: "p \<in> fst ` set (parity_to_systematic g) \<longleftrightarrow> ?k \<le> unat p \<and> unat p < ?k + ?m" for p
  proof -
    have "unat p \<in> unat ` fst ` set (parity_to_systematic g) \<longleftrightarrow> p \<in> fst ` set (parity_to_systematic g)"
      by (auto simp: image_iff word_unat_eq_iff)
    then show ?thesis using assms by (simp add: graph_ok_def)
  qed
  have "ValidateGraph g = Inr ()"
    using assms ValidateGraph_iff graph_ok_def by blast
  then have "CreatePlan g M available =
      (if \<not> (\<forall>i\<in>M. unat i < ?k) then Inl (InvalidArgument ''Missing shard set must contain only systematic shards'')
       else if \<not> available \<subseteq> fst ` set (parity_to_systematic g)
       then Inl (InvalidArgument ''Available parity set contains a non-parity shard'')
       else Inr (peel_loop available (parity_to_systematic g)
         \<lparr>remaining = M, plan_operations = [], plan_dependencies = [],
          producing_operation = Map.empty\<rparr>))"
    using keys by (simp add: CreatePlan_def subset_iff not_le not_less) meson
  then show ?thesis by auto
qed

lemma CreatePlan_outcome:
  assumes "graph_ok g" "CreatePlan g M available = Inr plan"
  shows "\<exists>st. planner_inv (parity_to_systematic g) available M st \<and>
    (if is_recoverable plan
     then remaining st = {} \<and> operations plan = plan_operations st \<and>
          dependencies plan = plan_dependencies st
     else remaining st \<noteq> {} \<and> stuck (parity_to_systematic g) available (remaining st) \<and>
          plan = Unrecoverable)"
proof -
  let ?st = "\<lparr>remaining = M, plan_operations = [], plan_dependencies = [], producing_operation = Map.empty\<rparr>"
  have "planner_inv (parity_to_systematic g) available M ?st"
    by (simp add: planner_inv_def)
  moreover have "\<forall>(p, ns)\<in>set (parity_to_systematic g). p \<notin> M \<and> distinct ns"
    using assms graph_okD [OF assms(1)] CreatePlan_Inr [OF assms(1)] by fastforce
  moreover have plan: "plan = peel_loop available (parity_to_systematic g) ?st"
    using assms(2) CreatePlan_Inr [OF assms(1)] by blast
  ultimately consider st' where "planner_inv (parity_to_systematic g) available M st'"
      "remaining st' = {}" "plan = \<lparr>operations = plan_operations st',
        dependencies = plan_dependencies st', is_recoverable = True\<rparr>"
    | st' where "planner_inv (parity_to_systematic g) available M st'" "remaining st' \<noteq> {}"
      "stuck (parity_to_systematic g) available (remaining st')" "plan = Unrecoverable"
    using peel_loop_outcome [of "parity_to_systematic g" available M ?st] by blast
  then show ?thesis
  proof cases
    case (1 st')
    then show ?thesis by (intro exI [of _ st']) simp
  next
    case (2 st')
    then show ?thesis by (intro exI [of _ st']) (simp add: Unrecoverable_def)
  qed
qed

lemma CreatePlan_recoverable_iff:
  assumes "graph_ok g" "CreatePlan g M available = Inr plan"
  shows "is_recoverable plan \<longleftrightarrow> M \<subseteq> peelable (parity_to_systematic g) available M"
proof -
  obtain st where st: "planner_inv (parity_to_systematic g) available M st"
      "if is_recoverable plan then remaining st = {}
       else remaining st \<noteq> {} \<and> stuck (parity_to_systematic g) available (remaining st)"
    using CreatePlan_outcome [OF assms] by (metis (full_types))
  have run: "peel_run (parity_to_systematic g) available M (plan_operations st) (remaining st)"
    using st(1) by (simp add: planner_inv_def)
  show ?thesis
  proof (cases "is_recoverable plan")
    case True
    then show ?thesis using peel_run_peelable [OF run order.refl] st(2) by simp
  next
    case False
    then obtain x where "x \<in> remaining st" "stuck (parity_to_systematic g) available (remaining st)"
      using st(2) by auto
    moreover have "remaining st \<subseteq> M" using peel_run_outputs [OF run] by simp
    ultimately show ?thesis using False stuck_not_peelable by blast
  qed
qed

lemma CreatePlan_dependencies:
  assumes "graph_ok g" "CreatePlan g M available = Inr plan" "i < length (operations plan)"
  shows "length (dependencies plan) = length (operations plan)
    \<and> dependencies plan ! i = sorted_list_of_set (producers (operations plan) i)"
  using CreatePlan_outcome [OF assms(1,2)] assms(3)
  by (auto simp: planner_inv_def Unrecoverable_def split: if_splits)

lemma finite_producers [simp]: "finite (producers ops i)"
  by (rule finite_subset [of _ "{..<i}"]) (auto simp: producers_def)

lemma CreatePlan_shape:
  assumes "graph_ok g" "CreatePlan g M available = Inr plan" "is_recoverable plan"
  shows "ValidatePlanShape plan = Inr ()"
proof -
  have "length (dependencies plan) = length (operations plan)"
    using CreatePlan_outcome [OF assms(1,2)] assms(3) by (auto simp: planner_inv_def)
  moreover have "d < i" if "i < length (operations plan)" "d \<in> set (dependencies plan ! i)" for i d
    using CreatePlan_dependencies [OF assms(1,2) that(1)] that(2) by (simp add: producers_def)
  ultimately show ?thesis using assms(3) by (auto simp: ValidatePlanShape_Inr)
qed

interpretation planner: decode_planner CreatePlan
proof unfold_locales
  fix g M available plan
  assume g: "graph_ok g"
  show "\<exists>plan. CreatePlan g M available = Inr plan"
    if "\<forall>i\<in>M. unat i < systematic_shard_count g" "available \<subseteq> fst ` set (parity_to_systematic g)"
    using that CreatePlan_Inr [OF g] by blast
  assume plan: "CreatePlan g M available = Inr plan"
  show "is_recoverable plan \<longleftrightarrow> M \<subseteq> peelable (parity_to_systematic g) available M"
    by (rule CreatePlan_recoverable_iff [OF g plan])
  assume rec: "is_recoverable plan"
  show "ValidatePlanShape plan = Inr ()" by (rule CreatePlan_shape [OF g plan rec])
  show "peel_run (parity_to_systematic g) available M (operations plan) {}"
    using CreatePlan_outcome [OF g plan] rec by (auto simp: planner_inv_def)
qed

interpretation cpu_recovery: coded_recovery CreatePlan execute_decode_plan_cpu
  by unfold_locales

section \<open>Properties of plans\<close>

text \<open>The facts by which a planner run on a concrete graph evaluates.\<close>

lemmas planner_eval = CreatePlan_def ValidateGraph_def ShardId_max_def max_shard_count_def
  validate_parity_def insert_unique_def peel_loop.simps visit_equation_def scan_missing_def
  collect_sources_def word_eval upt_rec insert_Diff_if

definition example_graph :: BipartiteGraph where
  "example_graph = \<lparr>systematic_shard_count = 3, parity_shard_count = 2,
     parity_to_systematic = [(3, [0, 1]), (4, [1, 2])]\<rparr>"

definition example_plan :: DecodePlan where
  "example_plan = \<lparr>operations = [\<lparr>xo_output = 1, xo_sources = [4, 2]\<rparr>, \<lparr>xo_output = 0, xo_sources = [3, 1]\<rparr>],
     dependencies = [[], [0]], is_recoverable = True\<rparr>"

lemma example_graph_valid: "omap_ok (parity_to_systematic example_graph)"
    "ValidateGraph example_graph = Inr ()"
  by (simp_all add: example_graph_def omap_ok_def planner_eval)

lemma example_graph_ok: "graph_ok example_graph"
  using example_graph_valid ValidateGraph_iff by blast

lemma example_CreatePlan: "CreatePlan example_graph {0, 1} {3, 4} = Inr example_plan"
  by (simp add: example_graph_def example_plan_def planner_eval)

lemma example_CreatePlan_stuck: "CreatePlan example_graph {0, 1, 2} {3, 4} = Inr Unrecoverable"
  by (simp add: example_graph_def planner_eval)

text \<open>
  C9. Planning is complete: on a valid graph the planner declares a set of missing shards
  recoverable exactly when peeling, in whatever order, can recover every one of them. Its greedy
  traversal in map order loses nothing.
\<close>

theorem CreatePlan_complete:
  assumes "omap_ok (parity_to_systematic g)" "CreatePlan g missing available = Inr plan"
  shows "is_recoverable plan \<longleftrightarrow> missing \<subseteq> peelable (parity_to_systematic g) available missing"
proof -
  have "ValidateGraph g = Inr ()" using assms(2) by (auto simp: CreatePlan_def bindE_eq_Inr)
  then show ?thesis using planner.create_complete ValidateGraph_iff assms by blast
qed

theorem CreatePlan_complete_witness:
  "\<exists>plan. CreatePlan example_graph {0, 1, 2} {3, 4} = Inr plan \<and>
     \<not> {0, 1, 2} \<subseteq> peelable (parity_to_systematic example_graph) {3, 4} {0, 1, 2}"
  using CreatePlan_complete [OF example_graph_valid(1) example_CreatePlan_stuck]
    example_CreatePlan_stuck by (auto simp: Unrecoverable_def)

lemma peel_run_sources:
  assumes "peel_run eqs available M ops R" "i < length ops"
  shows "\<exists>p ns. (p, ns) \<in> set eqs \<and> p \<in> available \<and> xo_output (ops ! i) \<in> set ns \<and>
    xo_sources (ops ! i) = p # filter (\<lambda>s. s \<noteq> xo_output (ops ! i)) ns \<and>
    (\<forall>s\<in>set ns. s \<noteq> xo_output (ops ! i) \<longrightarrow> s \<notin> M \<or> s \<in> xo_output ` set (take i ops))"
  using assms
proof (induction arbitrary: i rule: peel_run.induct)
  case (peel_done M)
  then show ?case by simp
next
  case (peel_step p ns M x ops R)
  show ?case
  proof (cases i)
    case 0
    then show ?thesis using peel_step.hyps by (intro exI [of _ p] exI [of _ ns])
      (auto simp: peel_operation_def)
  next
    case (Suc j)
    then obtain p' ns' where "(p', ns') \<in> set eqs" "p' \<in> available" "xo_output (ops ! j) \<in> set ns'"
      "xo_sources (ops ! j) = p' # filter (\<lambda>s. s \<noteq> xo_output (ops ! j)) ns'"
      "\<forall>s\<in>set ns'. s \<noteq> xo_output (ops ! j) \<longrightarrow> s \<notin> M - {x} \<or> s \<in> xo_output ` set (take j ops)"
      using peel_step.IH [of j] peel_step.prems by auto
    then show ?thesis using Suc
      by (intro exI [of _ p'] exI [of _ ns']) (auto simp: peel_operation_def)
  qed
qed

text \<open>
  C10. A recoverable plan produces every missing shard exactly once and nothing else, and each of its
  operations xors an available parity with the parity's other neighbours, every one of which is
  present or is the output of an earlier operation.
\<close>

theorem CreatePlan_operations:
  assumes "omap_ok (parity_to_systematic g)" "CreatePlan g missing available = Inr plan"
    and "is_recoverable plan"
  shows "distinct (map xo_output (operations plan)) \<and> xo_output ` set (operations plan) = missing \<and>
    (\<forall>i<length (operations plan). \<exists>p ns. (p, ns) \<in> set (parity_to_systematic g) \<and> p \<in> available \<and>
       xo_output (operations plan ! i) \<in> set ns \<and>
       xo_sources (operations plan ! i) = p # filter (\<lambda>s. s \<noteq> xo_output (operations plan ! i)) ns \<and>
       (\<forall>s\<in>set ns. s \<noteq> xo_output (operations plan ! i) \<longrightarrow>
          s \<notin> missing \<or> s \<in> xo_output ` set (take i (operations plan))))"
proof -
  have "ValidateGraph g = Inr ()" using assms(2) by (auto simp: CreatePlan_def bindE_eq_Inr)
  then have "peel_run (parity_to_systematic g) available missing (operations plan) {}"
    using planner.create_runs ValidateGraph_iff assms by blast
  then show ?thesis using peel_run_outputs peel_run_sources by fastforce
qed

theorem CreatePlan_operations_witness:
  "CreatePlan example_graph {0, 1} {3, 4} = Inr example_plan \<and>
     xo_output ` set (operations example_plan) = {0, 1}"
  using CreatePlan_operations [OF example_graph_valid(1) example_CreatePlan] example_CreatePlan
  by (simp add: example_plan_def)

text \<open>
  C11. The dependencies recorded for an operation are exactly the earlier operations that produce one
  of its sources, in ascending order and without repetition; every plan the planner emits passes
  \<open>ValidatePlanShape\<close> unless it is unrecoverable.
\<close>

theorem CreatePlan_dependencies_exact:
  assumes "omap_ok (parity_to_systematic g)" "CreatePlan g missing available = Inr plan"
  shows "length (dependencies plan) = length (operations plan) \<and>
    (\<forall>i<length (operations plan). dependencies plan ! i = sorted_list_of_set
       {j. j < i \<and> xo_output (operations plan ! j) \<in> set (xo_sources (operations plan ! i))}) \<and>
    (is_recoverable plan \<longrightarrow> ValidatePlanShape plan = Inr ())"
proof -
  have g: "graph_ok g"
    using assms ValidateGraph_iff by (auto simp: CreatePlan_def bindE_eq_Inr)
  have "length (dependencies plan) = length (operations plan)"
    using CreatePlan_outcome [OF g assms(2)] by (auto simp: planner_inv_def Unrecoverable_def split: if_splits)
  then show ?thesis
    using CreatePlan_dependencies [OF g assms(2)] CreatePlan_shape [OF g assms(2)]
    by (simp add: producers_def)
qed

theorem CreatePlan_dependencies_exact_witness:
  "CreatePlan example_graph {0, 1} {3, 4} = Inr example_plan \<and>
     ValidatePlanShape example_plan = Inr () \<and> dependencies example_plan ! 1 = [0]"
  using CreatePlan_dependencies_exact [OF example_graph_valid(1) example_CreatePlan] example_CreatePlan
  by (simp add: example_plan_def)

text \<open>
  Recoverability is monotone: with more parities available, or fewer shards missing, a
  recoverable situation stays recoverable.
\<close>

theorem CreatePlan_monotone:
  assumes "omap_ok (parity_to_systematic g)"
    and "CreatePlan g missing available = Inr plan" "is_recoverable plan"
    and "CreatePlan g missing' available' = Inr plan'"
    and "missing' \<subseteq> missing" "available \<subseteq> available'"
  shows "is_recoverable plan'"
proof -
  have "graph_ok g"
    using assms(1,2) ValidateGraph_iff by (auto simp: CreatePlan_def bindE_eq_Inr)
  then show ?thesis using planner.recoverable_mono assms(2-) by blast
qed

theorem CreatePlan_monotone_witness:
  "\<exists>plan'. CreatePlan example_graph {0} {3, 4} = Inr plan' \<and> is_recoverable plan'"
proof -
  have "is_recoverable example_plan" by (simp add: example_plan_def)
  moreover obtain plan' where plan': "CreatePlan example_graph {0} {3, 4} = Inr plan'"
    by (simp add: example_graph_def planner_eval)
  ultimately show ?thesis
    using CreatePlan_monotone [OF example_graph_valid(1) example_CreatePlan _ plan'] by auto
qed

text \<open>
  Planning is total: it throws only for an invalid graph, a missing identifier that is not
  systematic or an available identifier that is not a parity; otherwise the loop terminates with a
  plan.
\<close>

theorem CreatePlan_errors:
  assumes "omap_ok (parity_to_systematic g)"
  shows "(\<exists>plan. CreatePlan g missing available = Inr plan) \<longleftrightarrow>
    ValidateGraph g = Inr () \<and> (\<forall>i\<in>missing. unat i < systematic_shard_count g) \<and>
    (\<forall>p\<in>available. systematic_shard_count g \<le> unat p \<and>
       unat p < systematic_shard_count g + parity_shard_count g)"
  by (auto simp: CreatePlan_def bindE_eq_Inr not_le not_less split: if_splits)

theorem CreatePlan_errors_witness:
  "\<not> (\<exists>plan. CreatePlan example_graph {3} {4} = Inr plan)"
  using CreatePlan_errors [OF example_graph_valid(1), of "{3}" "{4}"]
  by (simp add: example_graph_def)

end
