(* ===== verification/Recovery.thy ===== *)
theory Recovery imports Planner begin

text \<open>
  Encoding, planning and execution together: the promise of the library that a missing shard is
  reconstructed bit for bit. The client lemma \<open>recovers_codeword\<close> of the locale
  \<open>coded_recovery\<close> is used through its interpretation on the planner and the CPU executor.
\<close>

text \<open>The code graph of a bipartite graph: one equation per map entry.\<close>

definition to_equations :: "BipartiteGraph \<Rightarrow> ParityEquation list" where
  "to_equations g = map (\<lambda>(p, ns). \<lparr>pe_output = p, pe_sources = ns\<rparr>) (parity_to_systematic g)"

text \<open>The slots a decoder sees: data and parity shards without the missing and unavailable ones.\<close>

definition received_slots ::
  "WordShard list \<Rightarrow> WordShard list \<Rightarrow> ShardId set \<Rightarrow> ShardId set \<Rightarrow> ShardSlots" where
  "received_slots data parity missing available =
     map (\<lambda>i. if of_nat i \<in> missing then None else Some (data ! i)) [0..<length data] @
     map (\<lambda>j. if of_nat (length data + j) \<in> available then Some (parity ! j) else None) [0..<length parity]"

definition shard_value :: "WordShard list \<Rightarrow> WordShard list \<Rightarrow> ShardId \<Rightarrow> WordShard" where
  "shard_value data parity i =
     (if unat i < length data + length parity then (data @ parity) ! unat i
      else replicate (length (hd data)) 0)"

lemma slot_received:
  assumes "length data + length parity \<le> 2 ^ 32"
  shows "slot (received_slots data parity missing available) i =
    (if unat i < length data then (if i \<in> missing then None else Some (shard_value data parity i))
     else if unat i < length data + length parity \<and> i \<in> available then Some (shard_value data parity i)
     else None)"
  by (auto simp: slot_def received_slots_def nth_append shard_value_def)

lemma length_received [simp]:
  "length (received_slots data parity missing available) = length data + length parity"
  by (simp add: received_slots_def)

text \<open>Encoded data is a codeword of the graph.\<close>

lemma encode_codeword:
  assumes g: "graph_ok g" "k = of_nat (systematic_shard_count g)" "m = of_nat (parity_shard_count g)"
    and cg: "CodeGraph_new k m (to_equations g) = Inr cg"
    and enc: "encode_parity_cpu cg data = Inr parity"
  shows "length data = systematic_shard_count g" "length parity = parity_shard_count g"
    "\<exists>n>0. codeword (parity_to_systematic g) n (shard_value data parity)"
proof -
  have cgd: "cg = \<lparr>cg_systematic = k, cg_parity = m, cg_equations = to_equations g\<rparr>" "code_graph_ok cg"
    using cg by (auto simp: CodeGraph_new_Inr)
  have "length (to_equations g) = length (parity_to_systematic g)" by (simp add: to_equations_def)
  have km: "unat k = systematic_shard_count g" "unat m = parity_shard_count g"
  proof -
    have b: "systematic_shard_count g < 2 ^ 32" "parity_shard_count g < 2 ^ 32"
      using g(1) by (auto simp: graph_ok_def)
    then show "unat k = systematic_shard_count g" "unat m = parity_shard_count g"
      by (simp_all add: g(2,3) unat_of_nat_ShardId)
  qed
  obtain n where n: "length data = unat k" "0 < n" "\<forall>s\<in>set data. length s = n" "data \<noteq> []"
    using enc cgd(1) by (auto simp: encode_parity_cpu_def bindE_eq_Inr ValidateShardWords_Inr split: if_splits)
  show len: "length data = systematic_shard_count g" using n(1) km by simp
  have sys: "systematic_sources cg"
    using g(1) graph_okD(3) [OF g(1)] cgd(1) km
    by (fastforce simp: systematic_sources_def to_equations_def word_less_nat_alt)
  obtain ps where "encode_parity_cpu cg data = Inr ps" and ps: "length ps = unat m"
      "\<forall>eq\<in>set (to_equations g). ps ! (unat (pe_output eq) - unat k) = parity_value data n eq"
    using encode_parity_loop [OF cgd(2) sys, of data n] n cgd ValidateShardWords_Inr [of data n]
      unat_output_minus(1) [OF cgd(2)]
    by (force simp: encode_parity_cpu_def)
  then have p: "parity = ps" using enc by simp
  show lenp: "length parity = parity_shard_count g" using ps(1) p km by simp
  have hd: "length (hd data) = n" using n(3,4) by simp
  have src: "shard_value data parity s = data ! unat s" if "unat s < length data" for s
    using that by (simp add: shard_value_def nth_append)
  have "length (shard_value data parity i) = n" for i
  proof -
    have "length (parity ! j) = n" if "j < length parity" for j
    proof -
      have "unat k + j \<in> (\<lambda>eq. unat (pe_output eq)) ` set (cg_equations cg)"
        using code_graph_outputs [OF cgd(2)] that ps(1) p cgd(1) by simp
      then obtain eq where eq: "eq \<in> set (to_equations g)" "unat (pe_output eq) = unat k + j"
        using cgd(1) by auto
      have "\<forall>s\<in>set (map (\<lambda>s. data ! unat s) (pe_sources eq)). length s = n"
        using sys eq(1) n(1,3) cgd(1) by (auto simp: systematic_sources_def word_less_nat_alt)
      then show ?thesis using ps(2) eq p by (auto simp: parity_value_def)
    qed
    then show ?thesis using n(3) hd by (auto simp: shard_value_def nth_append)
  qed
  moreover have "shard_value data parity q = xor_all n (map (shard_value data parity) ns)"
    if q: "(q, ns) \<in> set (parity_to_systematic g)" for q ns
  proof -
    have eq: "\<lparr>pe_output = q, pe_sources = ns\<rparr> \<in> set (to_equations g)"
      using q by (force simp: to_equations_def)
    have "map (shard_value data parity) ns = map (\<lambda>s. data ! unat s) ns"
      using src graph_okD(3) [OF g(1) q] len by simp
    moreover have "shard_value data parity q = ps ! (unat q - unat k)"
      using graph_okD(4,5) [OF g(1) q] len lenp km p by (simp add: shard_value_def nth_append)
    moreover have "ps ! (unat q - unat k) = parity_value data n \<lparr>pe_output = q, pe_sources = ns\<rparr>"
      using bspec [OF ps(2) eq] by simp
    ultimately show ?thesis by (simp only: parity_value_def ParityEquation.select_convs)
  qed
  ultimately show "\<exists>n>0. codeword (parity_to_systematic g) n (shard_value data parity)"
    using n(2) by (auto simp: codeword_def)
qed

text \<open>
  Recovery through any planner and backend that keep their contracts, stated inside the locale so
  that every backend inherits it.
\<close>

context coded_recovery begin

lemma recovers_encoded:
  assumes "graph_ok g"
    and "CodeGraph_new (of_nat (systematic_shard_count g)) (of_nat (parity_shard_count g))
           (to_equations g) = Inr cg"
    and "encode_parity_cpu cg data = Inr parity"
    and M: "\<forall>i\<in>missing. unat i < systematic_shard_count g"
    and plan: "create g missing available = Inr plan" "is_recoverable plan"
    and avail: "available \<subseteq> fst ` set (parity_to_systematic g)"
  shows "\<exists>shards'. execute plan (received_slots data parity missing available) = (shards', None) \<and>
    take (length data) shards' = map Some data"
proof -
  let ?slots = "received_slots data parity missing available" and ?val = "shard_value data parity"
  note len = encode_codeword(1,2) [OF assms(1) refl refl assms(2,3)]
  obtain n where n: "0 < n" "codeword (parity_to_systematic g) n ?val"
    using encode_codeword(3) [OF assms(1) refl refl assms(2,3)] by blast
  have total: "length data + length parity \<le> 2 ^ 32" using len assms(1) by (simp add: graph_ok_def)
  note slot = slot_received [OF total, of missing available]
  have "agrees ?val ?slots" by (auto simp: agrees_def slot split: if_splits)
  moreover have "holds_all_but missing (parity_to_systematic g) available ?slots"
    unfolding holds_all_but_def
  proof (intro conjI ballI, goal_cases)
    case (1 i)
    then show ?case using M len by fastforce
  next
    case (2 i)
    then show ?case using M len by (simp add: slot)
  next
    case (3 e)
    obtain p ns where e: "e = (p, ns)" by (cases e)
    note e_ok = graph_okD(3-5) [OF assms(1), of p ns]
    then show ?case using 3 e len by (auto simp: slot)
  qed
  ultimately have "\<exists>shards'. execute plan ?slots = (shards', None) \<and> length shards' = length ?slots \<and>
      (\<forall>i. slot shards' i = (if i \<in> missing then Some (?val i) else slot ?slots i))"
    by (rule recovers_codeword [OF assms(1) plan n(2,1)])
  then obtain shards' where s: "execute plan ?slots = (shards', None)"
      "length shards' = length data + length parity"
      "\<forall>i. slot shards' i = (if i \<in> missing then Some (?val i) else slot ?slots i)"
    by auto
  have "take (length data) shards' = map Some data"
  proof (rule nth_equalityI)
    fix j
    assume "j < length (take (length data) shards')"
    then have j: "j < length data" "unat (of_nat j :: ShardId) = j"
      using s(2) total len(1) assms(1) by (auto simp: unat_of_nat_ShardId graph_ok_def)
    have "slot shards' (of_nat j) = Some (?val (of_nat j))"
      using s(3) j by (simp add: slot)
    then show "take (length data) shards' ! j = map Some data ! j"
      using j s(2) by (simp add: slot_def shard_value_def nth_append)
  qed (use s(2) in simp)
  then show ?thesis using s(1) by blast
qed

end

text \<open>
  C1. End to end: take a valid graph, encode the data shards, lose any systematic shards and any
  parities. If the planner finds the loss recoverable, the CPU executor runs the plan without an
  exception and every systematic slot holds exactly the original shard.
\<close>

theorem cpu_recovery_exact:
  assumes "omap_ok (parity_to_systematic g)"
    and "CodeGraph_new (of_nat (systematic_shard_count g)) (of_nat (parity_shard_count g))
           (to_equations g) = Inr cg"
    and "encode_parity_cpu cg data = Inr parity"
    and "CreatePlan g missing available = Inr plan" "is_recoverable plan"
  shows "\<exists>shards'. execute_decode_plan_cpu plan (received_slots data parity missing available)
      = (shards', None) \<and> take (length data) shards' = map Some data"
proof -
  have g: "graph_ok g"
    using assms(1,4) ValidateGraph_iff by (auto simp: CreatePlan_def bindE_eq_Inr)
  then show ?thesis
    using cpu_recovery.recovers_encoded [OF g assms(2,3) _ assms(4,5)] assms(4) CreatePlan_Inr [OF g]
    by blast
qed

text \<open>A small code and its encoding, for the witnesses.\<close>

definition example_code :: CodeGraph where
  "example_code = \<lparr>cg_systematic = 3, cg_parity = 2, cg_equations = to_equations example_graph\<rparr>"

lemma example_code_graph:
  "CodeGraph_new (of_nat (systematic_shard_count example_graph))
      (of_nat (parity_shard_count example_graph)) (to_equations example_graph) = Inr example_code"
  by (simp add: CodeGraph_new_def CodeGraph_Validate_def validate_equation_def to_equations_def example_code_def
      example_graph_def insert_unique_def total_shard_count_def word_eval)

lemma example_encoding: "encode_parity_cpu example_code [[5, 1], [3, 1], [4, 4]] = Inr [[6, 0], [7, 5]]"
  by (simp add: encode_parity_cpu_def ValidateShardWords_def reject_any_def encode_equation_def example_code_def
      to_equations_def example_graph_def encode_source_def xor_words_def word_eval replicate_numeral)

theorem cpu_recovery_exact_witness:
  "\<exists>shards'. execute_decode_plan_cpu example_plan
       (received_slots [[5, 1], [3, 1], [4, 4]] [[6, 0], [7, 5]] {0, 1} {3, 4}) = (shards', None) \<and>
     take 3 shards' = [Some [5, 1], Some [3, 1], Some [4, 4]]"
proof -
  have "is_recoverable example_plan" by (simp add: example_plan_def)
  from cpu_recovery_exact [OF example_graph_valid(1) example_code_graph example_encoding example_CreatePlan this]
  show ?thesis by (simp add: numeral_3_eq_3)
qed

end
