(* ===== verification/Policy.thy ===== *)
theory Policy imports Planner begin

text \<open>
  \<open>include/codedllm/runtime/policy.hpp\<close> and \<open>src/runtime/policy.cpp\<close>: the shard arrival tracker and
  the cost-based recovery policy. A \<open>steady_clock\<close> time point is an \<open>int\<close>. The policy object is its
  graph, since \<open>DecodePlanner\<close> has no state.
\<close>

datatype PolicyDecision = Wait | Recover | Unrecoverable_decision

record CostEstimates =
  expected_wait_remaining :: microseconds
  expected_recovery_cost :: microseconds

section \<open>The arrival tracker\<close>

record ShardArrivalTracker =
  tr_systematic :: nat
  tr_parity :: nat
  arrivals :: "int option list"

text \<open>The sum of the two counts is a \<open>uint64_t\<close> addition, which wraps around.\<close>

definition ShardArrivalTracker_new :: "nat \<Rightarrow> nat \<Rightarrow> ShardArrivalTracker result" where
  "ShardArrivalTracker_new k m =
     (if k = 0 \<or> m = 0
      then Inl (InvalidArgument ''ShardArrivalTracker requires non-zero shard counts'')
      else (let total = (k + m) mod 2 ^ 64 in
        if k > ShardId_max \<or> m > ShardId_max \<or> total > ShardId_max + 1
        then Inl (InvalidArgument ''ShardArrivalTracker shard IDs overflow ShardId'')
        else Inr \<lparr>tr_systematic = k, tr_parity = m, arrivals = replicate total None\<rparr>))"

definition MarkArrived :: "ShardId \<Rightarrow> int \<Rightarrow> ShardArrivalTracker \<Rightarrow> ShardArrivalTracker result" where
  "MarkArrived i now tr =
     (if unat i \<ge> length (arrivals tr)
      then Inl (InvalidArgument ''Arrived shard ID is out of bounds'')
      else (case arrivals tr ! unat i of
          None \<Rightarrow> Inr (tr\<lparr>arrivals := (arrivals tr)[unat i := Some now]\<rparr>)
        | Some recorded \<Rightarrow>
            if now < recorded then Inr (tr\<lparr>arrivals := (arrivals tr)[unat i := Some now]\<rparr>)
            else Inr tr))"

definition IsSystematicComplete :: "ShardArrivalTracker \<Rightarrow> bool" where
  "IsSystematicComplete tr = list_all (\<lambda>i. arrivals tr ! i \<noteq> None) [0..<tr_systematic tr]"

definition GetMissingSystematic :: "ShardArrivalTracker \<Rightarrow> ShardId set" where
  "GetMissingSystematic tr =
     set (map of_nat (filter (\<lambda>i. arrivals tr ! i = None) [0..<tr_systematic tr]))"

definition HasArrived :: "ShardArrivalTracker \<Rightarrow> ShardId \<Rightarrow> bool result" where
  "HasArrived tr i =
     (if unat i \<ge> length (arrivals tr)
      then Inl (InvalidArgument ''Shard ID is out of bounds'')
      else Inr (arrivals tr ! unat i \<noteq> None))"

section \<open>The policy\<close>

definition RecoveryPolicy_new :: "BipartiteGraph \<Rightarrow> BipartiteGraph result" where
  "RecoveryPolicy_new g = bindE (CreatePlan_all g {}) (\<lambda>_. Inr g)"

text \<open>The loop over the map that collects the parities that have arrived.\<close>

definition arrived_parities ::
  "ShardArrivalTracker \<Rightarrow> BipartiteGraph \<Rightarrow> ShardId set result" where
  "arrived_parities tr g =
     foldE (\<lambda>parity acc. bindE (HasArrived tr parity)
             (\<lambda>arrived. Inr (if arrived then insert parity acc else acc)))
       (map fst (parity_to_systematic g)) {}"

definition RecoveryPolicy_CreatePlan ::
  "BipartiteGraph \<Rightarrow> ShardArrivalTracker \<Rightarrow> DecodePlan result" where
  "RecoveryPolicy_CreatePlan g tr =
     (if tr_systematic tr \<noteq> systematic_shard_count g \<or> tr_parity tr \<noteq> parity_shard_count g
      then Inl (InvalidArgument ''ShardArrivalTracker dimensions do not match the recovery graph'')
      else bindE (arrived_parities tr g) (CreatePlan g (GetMissingSystematic tr)))"

definition Evaluate_plan :: "DecodePlan \<Rightarrow> CostEstimates \<Rightarrow> PolicyDecision" where
  "Evaluate_plan plan costs =
     (if \<not> is_recoverable plan then Unrecoverable_decision
      else if expected_recovery_cost costs < expected_wait_remaining costs then Recover else Wait)"

definition Evaluate ::
  "BipartiteGraph \<Rightarrow> ShardArrivalTracker \<Rightarrow> CostEstimates \<Rightarrow> PolicyDecision result" where
  "Evaluate g tr costs =
     (if IsSystematicComplete tr then Inr Wait
      else bindE (RecoveryPolicy_CreatePlan g tr) (\<lambda>plan. Inr (Evaluate_plan plan costs)))"

section \<open>The tracker's invariant\<close>

definition tracker_ok :: "ShardArrivalTracker \<Rightarrow> bool" where
  "tracker_ok tr \<longleftrightarrow> 0 < tr_systematic tr \<and> 0 < tr_parity tr \<and>
     tr_systematic tr + tr_parity tr \<le> 2 ^ 32 \<and>
     length (arrivals tr) = tr_systematic tr + tr_parity tr"

lemma ShardArrivalTracker_new_Inr:
  "ShardArrivalTracker_new k m = Inr tr \<longleftrightarrow> 0 < k \<and> 0 < m \<and> k + m \<le> 2 ^ 32 \<and>
     tr = \<lparr>tr_systematic = k, tr_parity = m, arrivals = replicate (k + m) None\<rparr>"
proof (cases "k \<le> ShardId_max \<and> m \<le> ShardId_max")
  case True
  then have "k + m < 2 ^ 64" by (simp add: ShardId_max_def)
  then show ?thesis
    using True by (auto simp: ShardArrivalTracker_new_def Let_def ShardId_max_def)
next
  case False
  then show ?thesis
    by (auto simp: ShardArrivalTracker_new_def Let_def ShardId_max_def)
qed

lemma tracker_ok_new: "ShardArrivalTracker_new k m = Inr tr \<Longrightarrow> tracker_ok tr"
  by (auto simp: ShardArrivalTracker_new_Inr tracker_ok_def)

text \<open>The observation of a tracker: the recorded arrival time of each shard.\<close>

definition recorded_time :: "ShardArrivalTracker \<Rightarrow> ShardId \<Rightarrow> int option" where
  "recorded_time tr i = (if unat i < length (arrivals tr) then arrivals tr ! unat i else None)"

lemma MarkArrived_Inr:
  assumes "MarkArrived i now tr = Inr tr'"
  shows "unat i < length (arrivals tr)" "tr_systematic tr' = tr_systematic tr"
    "tr_parity tr' = tr_parity tr" "length (arrivals tr') = length (arrivals tr)"
    "recorded_time tr' j = (if j = i
       then Some (case recorded_time tr i of None \<Rightarrow> now | Some t \<Rightarrow> min now t) else recorded_time tr j)"
  using assms
  by (auto simp: MarkArrived_def recorded_time_def nth_list_update word_unat_eq_iff
      split: if_splits option.splits)

lemma MarkArrived_succeeds:
  "unat i < length (arrivals tr) \<Longrightarrow> \<exists>tr'. MarkArrived i now tr = Inr tr'"
  by (auto simp: MarkArrived_def split: option.splits)

lemma tracker_ok_MarkArrived: "MarkArrived i now tr = Inr tr' \<Longrightarrow> tracker_ok tr \<Longrightarrow> tracker_ok tr'"
  using MarkArrived_Inr by (simp add: tracker_ok_def)

text \<open>Marking a sequence of arrivals.\<close>

definition mark_all :: "(ShardId \<times> int) list \<Rightarrow> ShardArrivalTracker \<Rightarrow> ShardArrivalTracker result" where
  "mark_all = foldE (\<lambda>(i, t). MarkArrived i t)"

definition times_of :: "(ShardId \<times> int) list \<Rightarrow> ShardId \<Rightarrow> int set" where
  "times_of evs i = {t. (i, t) \<in> set evs}"

lemma finite_times_of [simp]: "finite (times_of evs i)"
proof -
  have "times_of evs i \<subseteq> snd ` set evs" by (force simp: times_of_def)
  then show ?thesis using finite_surj by blast
qed

lemma times_of_snoc: "times_of (evs @ [(i, t)]) j = (if j = i then insert t (times_of evs j) else times_of evs j)"
  by (auto simp: times_of_def)

definition earliest :: "(ShardId \<times> int) list \<Rightarrow> ShardId \<Rightarrow> int option" where
  "earliest evs i = (if times_of evs i = {} then None else Some (Min (times_of evs i)))"

lemma mark_all_earliest:
  assumes "mark_all evs tr = Inr tr'" "\<forall>i. recorded_time tr i = None"
  shows "(\<forall>i. recorded_time tr' i = earliest evs i) \<and> tr_systematic tr' = tr_systematic tr \<and>
    tr_parity tr' = tr_parity tr \<and> length (arrivals tr') = length (arrivals tr) \<and>
    (\<forall>(i, t)\<in>set evs. unat i < length (arrivals tr))"
proof -
  define I where "I pre t \<longleftrightarrow> (\<forall>i. recorded_time t i = earliest pre i) \<and> tr_systematic t = tr_systematic tr \<and>
    tr_parity t = tr_parity tr \<and> length (arrivals t) = length (arrivals tr) \<and>
    (\<forall>(i, t)\<in>set pre. unat i < length (arrivals tr))" for pre t
  have "I evs tr'"
  proof (rule foldE_invariant [where I = I])
    show "foldE (\<lambda>(i, t). MarkArrived i t) evs tr = Inr tr'"
      using assms(1) by (simp add: mark_all_def)
    show "I [] tr" using assms(2) by (simp add: I_def earliest_def times_of_def)
    fix pre x rest u v
    assume u: "I pre u" and step: "(\<lambda>(i, t). MarkArrived i t) x u = Inr v"
    obtain i t where x: "x = (i, t)" by (cases x)
    have m: "MarkArrived i t u = Inr v" using step x by simp
    have "recorded_time v j = earliest (pre @ [x]) j" for j
      using MarkArrived_Inr(5) [OF m, of j] u
      by (auto simp: I_def earliest_def times_of_snoc x)
    then show "I (pre @ [x]) v"
      using MarkArrived_Inr(1-4) [OF m] u x by (auto simp: I_def)
  qed
  then show ?thesis by (simp add: I_def)
qed

lemma mark_all_succeeds:
  assumes "\<forall>(i, t)\<in>set evs. unat i < length (arrivals tr)"
  shows "\<exists>tr'. mark_all evs tr = Inr tr'"
  using assms
proof (induction evs arbitrary: tr)
  case Nil
  then show ?case by (simp add: mark_all_def)
next
  case (Cons e evs)
  obtain i t where e: "e = (i, t)" by (cases e)
  then obtain tr1 where tr1: "MarkArrived i t tr = Inr tr1"
    using MarkArrived_succeeds Cons.prems by fastforce
  then have "length (arrivals tr1) = length (arrivals tr)" using MarkArrived_Inr(4) by blast
  then show ?case using Cons tr1 e by (simp add: mark_all_def)
qed

section \<open>What the policy sees\<close>

lemma IsSystematicComplete_iff:
  assumes "tracker_ok tr"
  shows "IsSystematicComplete tr \<longleftrightarrow> (\<forall>i. unat i < tr_systematic tr \<longrightarrow> recorded_time tr i \<noteq> None)"
proof -
  have "(\<forall>n<tr_systematic tr. P n) \<longleftrightarrow> (\<forall>i :: ShardId. unat i < tr_systematic tr \<longrightarrow> P (unat i))" for P
  proof -
    have "n < tr_systematic tr \<Longrightarrow> unat (of_nat n :: ShardId) = n" for n
      using assms by (auto simp: tracker_ok_def unat_of_nat_ShardId)
    then show ?thesis by metis
  qed
  note all = this [of "\<lambda>n. arrivals tr ! n \<noteq> None"]
  show ?thesis
    using assms all
    by (auto simp: IsSystematicComplete_def list_all_iff recorded_time_def tracker_ok_def)
qed

lemma GetMissingSystematic_eq:
  assumes "tracker_ok tr"
  shows "GetMissingSystematic tr = {i. unat i < tr_systematic tr \<and> recorded_time tr i = None}"
proof -
  have "n < tr_systematic tr \<Longrightarrow> unat (of_nat n :: ShardId) = n" for n
    using assms by (auto simp: tracker_ok_def unat_of_nat_ShardId)
  moreover have "length (arrivals tr) = tr_systematic tr + tr_parity tr"
    using assms by (simp add: tracker_ok_def)
  ultimately show ?thesis
    by (auto simp: GetMissingSystematic_def recorded_time_def image_iff intro!: exI [of _ "unat _"])
qed

lemma HasArrived_Inr:
  "HasArrived tr i = Inr b \<longleftrightarrow> unat i < length (arrivals tr) \<and> b = (recorded_time tr i \<noteq> None)"
  by (auto simp: HasArrived_def recorded_time_def)

lemma arrived_parities_eq:
  assumes "\<forall>p\<in>fst ` set (parity_to_systematic g). unat p < length (arrivals tr)"
  shows "arrived_parities tr g
    = Inr {p \<in> fst ` set (parity_to_systematic g). recorded_time tr p \<noteq> None}"
proof -
  have "foldE (\<lambda>parity acc. bindE (HasArrived tr parity)
             (\<lambda>arrived. Inr (if arrived then insert parity acc else acc))) ps acc
      = (Inr ({p \<in> set ps. recorded_time tr p \<noteq> None} \<union> acc) :: ShardId set result)"
    if "\<forall>p\<in>set ps. unat p < length (arrivals tr)" for ps acc
    using that
  proof (induction ps arbitrary: acc)
    case (Cons p ps)
    then have "HasArrived tr p = Inr (recorded_time tr p \<noteq> None)" by (simp add: HasArrived_Inr)
    then show ?case using Cons by auto
  qed simp
  from this [of "map fst (parity_to_systematic g)" "{}"] assms show ?thesis
    by (simp add: arrived_parities_def)
qed

text \<open>The missing shards and the available parities, as the policy derives them from a tracker.\<close>

definition arrived_parity_set :: "BipartiteGraph \<Rightarrow> ShardArrivalTracker \<Rightarrow> ShardId set" where
  "arrived_parity_set g tr = {p \<in> fst ` set (parity_to_systematic g). recorded_time tr p \<noteq> None}"

lemma RecoveryPolicy_CreatePlan_eq:
  assumes "graph_ok g" "tracker_ok tr" "tr_systematic tr = systematic_shard_count g"
    "tr_parity tr = parity_shard_count g"
  shows "RecoveryPolicy_CreatePlan g tr
    = CreatePlan g (GetMissingSystematic tr) (arrived_parity_set g tr)"
proof -
  have "\<forall>p\<in>fst ` set (parity_to_systematic g). unat p < length (arrivals tr)"
    using graph_okD(5) [OF assms(1)] assms(2-4) by (fastforce simp: tracker_ok_def)
  then show ?thesis
    using assms(3,4) by (simp add: RecoveryPolicy_CreatePlan_def arrived_parities_eq arrived_parity_set_def)
qed

lemma RecoveryPolicy_plan_exists:
  assumes "graph_ok g" "tracker_ok tr" "tr_systematic tr = systematic_shard_count g"
    "tr_parity tr = parity_shard_count g"
  shows "\<exists>plan. RecoveryPolicy_CreatePlan g tr = Inr plan \<and>
    (is_recoverable plan \<longleftrightarrow> GetMissingSystematic tr
       \<subseteq> peelable (parity_to_systematic g) (arrived_parity_set g tr) (GetMissingSystematic tr))"
proof -
  have "\<forall>i\<in>GetMissingSystematic tr. unat i < systematic_shard_count g"
    using GetMissingSystematic_eq [OF assms(2)] assms(3) by simp
  moreover have "arrived_parity_set g tr \<subseteq> fst ` set (parity_to_systematic g)"
    by (auto simp: arrived_parity_set_def)
  ultimately obtain plan where "CreatePlan g (GetMissingSystematic tr) (arrived_parity_set g tr) = Inr plan"
    using planner.create_succeeds [OF assms(1)] by blast
  then show ?thesis
    using RecoveryPolicy_CreatePlan_eq [OF assms] planner.create_complete [OF assms(1)] by simp
qed

lemma RecoveryPolicy_new_Inr:
  assumes "omap_ok (parity_to_systematic g)"
  shows "RecoveryPolicy_new g = Inr g' \<longleftrightarrow> g' = g \<and> graph_ok g"
proof
  assume "RecoveryPolicy_new g = Inr g'"
  then show "g' = g \<and> graph_ok g"
    using ValidateGraph_iff [OF assms]
    by (auto simp: RecoveryPolicy_new_def CreatePlan_all_def CreatePlan_def bindE_eq_Inr)
next
  assume g: "g' = g \<and> graph_ok g"
  then obtain plan where "CreatePlan g {} (fst ` set (parity_to_systematic g)) = Inr plan"
    using planner.create_succeeds [of g "{}"] by blast
  then show "RecoveryPolicy_new g = Inr g'"
    using g by (simp add: RecoveryPolicy_new_def CreatePlan_all_def)
qed

section \<open>Decisions as a function of what has arrived\<close>

text \<open>
  The simulators only depend on which shards a tracker has seen. \<open>tracker_for g\<close> is the invariant
  of a tracker constructed for the dimensions of \<open>g\<close>.
\<close>

definition arrived :: "ShardArrivalTracker \<Rightarrow> ShardId set" where
  "arrived tr = {i. recorded_time tr i \<noteq> None}"

definition tracker_for :: "BipartiteGraph \<Rightarrow> ShardArrivalTracker \<Rightarrow> bool" where
  "tracker_for g tr \<longleftrightarrow> tracker_ok tr \<and> tr_systematic tr = systematic_shard_count g \<and>
     tr_parity tr = parity_shard_count g"

definition missing_shards :: "BipartiteGraph \<Rightarrow> ShardId set \<Rightarrow> ShardId set" where
  "missing_shards g A = {i. unat i < systematic_shard_count g \<and> i \<notin> A}"

definition available_parities :: "BipartiteGraph \<Rightarrow> ShardId set \<Rightarrow> ShardId set" where
  "available_parities g A = {p \<in> fst ` set (parity_to_systematic g). p \<in> A}"

definition recoverable_from :: "BipartiteGraph \<Rightarrow> ShardId set \<Rightarrow> bool" where
  "recoverable_from g A \<longleftrightarrow>
     missing_shards g A \<subseteq> peelable (parity_to_systematic g) (available_parities g A) (missing_shards g A)"

definition decision :: "BipartiteGraph \<Rightarrow> ShardId set \<Rightarrow> CostEstimates \<Rightarrow> PolicyDecision" where
  "decision g A costs =
     (if missing_shards g A = {} then Wait
      else if \<not> recoverable_from g A then Unrecoverable_decision
      else if expected_recovery_cost costs < expected_wait_remaining costs then Recover else Wait)"

lemma tracker_for_new:
  assumes "graph_ok g"
  shows "\<exists>tr. ShardArrivalTracker_new (systematic_shard_count g) (parity_shard_count g) = Inr tr \<and>
    tracker_for g tr \<and> arrived tr = {}"
  using assms
  by (auto simp: ShardArrivalTracker_new_Inr graph_ok_def tracker_for_def tracker_ok_def arrived_def
      recorded_time_def)

lemma mark_all_arrived:
  assumes "tracker_for g tr"
  shows "(\<forall>(i, t)\<in>set evs. unat i < systematic_shard_count g + parity_shard_count g) \<Longrightarrow>
      \<exists>tr'. mark_all evs tr = Inr tr'"
    and "mark_all evs tr = Inr tr' \<Longrightarrow> tracker_for g tr' \<and> arrived tr' = arrived tr \<union> fst ` set evs \<and>
      (\<forall>(i, t)\<in>set evs. unat i < systematic_shard_count g + parity_shard_count g)"
proof -
  have len: "length (arrivals tr) = systematic_shard_count g + parity_shard_count g"
    using assms by (simp add: tracker_for_def tracker_ok_def)
  show "\<exists>tr'. mark_all evs tr = Inr tr'"
    if "\<forall>(i, t)\<in>set evs. unat i < systematic_shard_count g + parity_shard_count g"
    using mark_all_succeeds that len by simp
  show "tracker_for g tr' \<and> arrived tr' = arrived tr \<union> fst ` set evs \<and>
      (\<forall>(i, t)\<in>set evs. unat i < systematic_shard_count g + parity_shard_count g)"
    if "mark_all evs tr = Inr tr'"
    using that assms
  proof (induction evs arbitrary: tr)
    case Nil
    then show ?case by (simp add: mark_all_def)
  next
    case (Cons e evs)
    obtain i t where e: "e = (i, t)" by (cases e)
    with Cons.prems(1) obtain tr1 where tr1: "MarkArrived i t tr = Inr tr1" "mark_all evs tr1 = Inr tr'"
      by (auto simp: mark_all_def bindE_eq_Inr)
    note step = MarkArrived_Inr [OF tr1(1)]
    have tr1_for: "tracker_for g tr1"
      using Cons.prems(2) step(2-4) by (simp add: tracker_for_def tracker_ok_def)
    have "arrived tr1 = insert i (arrived tr)" using step(5) by (auto simp: arrived_def)
    moreover have "unat i < systematic_shard_count g + parity_shard_count g"
      using step(1) Cons.prems(2) by (simp add: tracker_for_def tracker_ok_def)
    ultimately show ?case using Cons.IH [OF tr1(2) tr1_for] e by auto
  qed
qed

lemma GetMissingSystematic_arrived:
  "tracker_for g tr \<Longrightarrow> GetMissingSystematic tr = missing_shards g (arrived tr)"
  by (simp add: tracker_for_def GetMissingSystematic_eq missing_shards_def arrived_def)

lemma IsSystematicComplete_arrived:
  "tracker_for g tr \<Longrightarrow> IsSystematicComplete tr \<longleftrightarrow> missing_shards g (arrived tr) = {}"
  by (auto simp: tracker_for_def IsSystematicComplete_iff missing_shards_def arrived_def)

lemma arrived_parity_set_arrived:
  "arrived_parity_set g tr = available_parities g (arrived tr)"
  by (simp add: arrived_parity_set_def available_parities_def arrived_def)

lemma RecoveryPolicy_CreatePlan_arrived:
  assumes "graph_ok g" "tracker_for g tr"
  shows "\<exists>plan. RecoveryPolicy_CreatePlan g tr = Inr plan \<and>
      CreatePlan g (missing_shards g (arrived tr)) (available_parities g (arrived tr)) = Inr plan \<and>
      (is_recoverable plan \<longleftrightarrow> recoverable_from g (arrived tr))"
  using RecoveryPolicy_plan_exists [OF assms(1)] RecoveryPolicy_CreatePlan_eq [OF assms(1)] assms(2)
    GetMissingSystematic_arrived [OF assms(2)] arrived_parity_set_arrived
  by (fastforce simp: tracker_for_def recoverable_from_def)

lemma Evaluate_arrived:
  assumes "graph_ok g" "tracker_for g tr"
  shows "Evaluate g tr costs = Inr (decision g (arrived tr) costs)"
  using RecoveryPolicy_CreatePlan_arrived [OF assms] IsSystematicComplete_arrived [OF assms(2)]
  by (auto simp: Evaluate_def Evaluate_plan_def decision_def)

section \<open>Properties\<close>

text \<open>
  Whatever the order of the arrival notifications, the tracker records for every shard its
  earliest arrival time, and nothing for a shard that never arrived.
\<close>

theorem tracker_records_earliest:
  assumes "ShardArrivalTracker_new k m = Inr tr" "mark_all evs tr = Inr tr'"
    and "unat i < k + m"
  shows "arrivals tr' ! unat i = (if {t. (i, t) \<in> set evs} = {} then None
    else Some (Min {t. (i, t) \<in> set evs}))"
proof -
  have "\<forall>j. recorded_time tr j = None" "length (arrivals tr) = k + m"
    using assms(1) by (auto simp: ShardArrivalTracker_new_Inr recorded_time_def)
  then have "recorded_time tr' i = earliest evs i" "length (arrivals tr') = k + m"
    using mark_all_earliest [OF assms(2)] by auto
  then show ?thesis
    using assms(3) by (simp add: recorded_time_def earliest_def times_of_def)
qed

theorem tracker_records_earliest_witness:
  "\<exists>tr tr'. ShardArrivalTracker_new 2 1 = Inr tr \<and> mark_all [(1, 9), (0, 4), (1, 6)] tr = Inr tr' \<and>
     arrivals tr' ! 1 = Some 6 \<and> arrivals tr' ! 2 = None"
proof -
  let ?tr = "\<lparr>tr_systematic = 2, tr_parity = 1, arrivals = [None, None, None]\<rparr>"
  have new: "ShardArrivalTracker_new 2 1 = Inr ?tr"
    by (simp add: ShardArrivalTracker_new_Inr replicate_numeral)
  obtain tr' where tr': "mark_all [(1, 9), (0, 4), (1, 6)] ?tr = Inr tr'"
    by (simp add: mark_all_def MarkArrived_def)
  have "{t. (1 :: ShardId, t) \<in> set [(1, 9), (0, 4), (1, 6 :: int)]} = {9, 6}" by auto
  moreover have "{t. (2 :: ShardId, t) \<in> set [(1, 9), (0, 4), (1, 6 :: int)]} = {}" by auto
  ultimately show ?thesis
    using tracker_records_earliest [OF new tr', of 1] tracker_records_earliest [OF new tr', of 2] new tr'
    by auto
qed

text \<open>
  C12. On a policy and a tracker that were both constructed for the same dimensions, \<open>Evaluate\<close>
  never throws, and decides: wait when every systematic shard has arrived; unrecoverable when
  peeling from the arrived parities cannot produce the missing shards; otherwise recover exactly
  when recovery is strictly cheaper than the remaining wait.
\<close>

theorem Evaluate_decision:
  assumes "omap_ok (parity_to_systematic g)" "RecoveryPolicy_new g = Inr g"
    and "ShardArrivalTracker_new (systematic_shard_count g) (parity_shard_count g) = Inr tr0"
    and "mark_all evs tr0 = Inr tr"
  shows "Evaluate g tr costs = Inr
    (let missing = {i. unat i < systematic_shard_count g \<and> (\<forall>t. (i, t) \<notin> set evs)};
         available = {p \<in> fst ` set (parity_to_systematic g). \<exists>t. (p, t) \<in> set evs}
     in if missing = {} then Wait
        else if \<not> missing \<subseteq> peelable (parity_to_systematic g) available missing
        then Unrecoverable_decision
        else if expected_recovery_cost costs < expected_wait_remaining costs then Recover else Wait)"
proof -
  have g: "graph_ok g" using assms(1,2) RecoveryPolicy_new_Inr by blast
  have tr0: "tracker_for g tr0" "arrived tr0 = {}" using tracker_for_new [OF g] assms(3) by auto
  then have tr: "tracker_for g tr" "arrived tr = fst ` set evs"
    using mark_all_arrived(2) [OF tr0(1) assms(4)] by auto
  have sets: "missing_shards g (arrived tr) = {i. unat i < systematic_shard_count g \<and> (\<forall>t. (i, t) \<notin> set evs)}"
    "available_parities g (arrived tr) = {p \<in> fst ` set (parity_to_systematic g). \<exists>t. (p, t) \<in> set evs}"
    by (force simp: missing_shards_def available_parities_def tr)+
  show ?thesis
    unfolding Evaluate_arrived [OF g tr(1)] decision_def recoverable_from_def sets Let_def
    by (rule refl)
qed

theorem Evaluate_decision_witness:
  "\<exists>tr0 tr. ShardArrivalTracker_new 3 2 = Inr tr0 \<and> mark_all [(2, 1), (1, 1)] tr0 = Inr tr \<and>
     Evaluate example_graph tr \<lparr>expected_wait_remaining = 9, expected_recovery_cost = 5\<rparr>
       = Inr Unrecoverable_decision"
proof -
  let ?tr0 = "\<lparr>tr_systematic = 3, tr_parity = 2, arrivals = [None, None, None, None, None]\<rparr>"
  have new: "ShardArrivalTracker_new (systematic_shard_count example_graph)
      (parity_shard_count example_graph) = Inr ?tr0"
    by (simp add: ShardArrivalTracker_new_Inr example_graph_def replicate_numeral)
  obtain tr where tr: "mark_all [(2, 1), (1, 1)] ?tr0 = Inr tr"
    by (simp add: mark_all_def MarkArrived_def)
  have pol: "RecoveryPolicy_new example_graph = Inr example_graph"
    using RecoveryPolicy_new_Inr example_graph_valid(1) example_graph_ok by blast
  have "0 \<in> {i :: ShardId. unat i < 3 \<and> (\<forall>t. (i, t) \<notin> set [(2, 1), (1, 1 :: int)])}" (is "_ \<in> ?M") by simp
  moreover have none: "{p \<in> fst ` set (parity_to_systematic example_graph).
      \<exists>t. (p, t) \<in> set [(2 :: ShardId, 1), (1, 1 :: int)]} = {}"
    by (auto simp: example_graph_def)
  moreover have "0 \<notin> peelable eqs {} M" for eqs M
    by (auto elim: peelable.cases)
  ultimately have stuck: "?M \<noteq> {}" "\<not> ?M \<subseteq> peelable (parity_to_systematic example_graph) {} ?M"
    by blast+
  have k: "systematic_shard_count example_graph = 3" by (simp add: example_graph_def)
  have "Evaluate example_graph tr \<lparr>expected_wait_remaining = 9, expected_recovery_cost = 5\<rparr>
      = Inr Unrecoverable_decision"
    unfolding Evaluate_decision [OF example_graph_valid(1) pol new tr] Let_def none k
    by (simp only: if_not_P [OF stuck(1)] if_P [OF stuck(2)])
  then show ?thesis
    using new tr by (simp add: example_graph_def)
qed

end
