(* ===== verification/RecoveryQueue.thy ===== *)
theory RecoveryQueue imports Prelude "HOL-Library.Multiset" begin

text \<open>
  \<open>include/codedllm/simulation/recovery_queue.hpp\<close> and \<open>src/simulation/recovery_queue.cpp\<close>: the
  bounded multi-server queue the cluster simulator schedules recoveries on. The vector of slot times
  is a list, \<open>std::multiset\<close> a multiset, and \<open>current_queue_depth_ -= completed\<close> wraps around as
  the \<open>std::size_t\<close> subtraction does.

  The interface its clients rely on is the locale \<open>recovery_queue\<close>, interpreted on the model; the
  last section shows what the queue promises over a whole run: bounded depth, FIFO starts and at
  most \<open>concurrency_limit\<close> jobs in service at any instant.
\<close>

section \<open>The queue\<close>

record RecoveryQueue =
  slot_available_times :: "int list"
  max_queue_depth :: nat
  current_queue_depth :: nat
  job_completion_times :: "int multiset"
  current_time :: int

definition RecoveryQueue_new :: "nat \<Rightarrow> nat \<Rightarrow> RecoveryQueue result" where
  "RecoveryQueue_new concurrency_limit depth =
     (if concurrency_limit = 0
      then Inl (InvalidArgument ''RecoveryQueue concurrency limit must be non-zero'')
      else Inr \<lparr>slot_available_times = replicate concurrency_limit 0, max_queue_depth = depth,
                current_queue_depth = 0, job_completion_times = {#}, current_time = 0\<rparr>)"

definition ValidateServiceTime :: "microseconds \<Rightarrow> unit result" where
  "ValidateServiceTime service_time =
     throw_if (service_time \<le> 0) (InvalidArgument ''RecoveryQueue service time must be positive'')"

text \<open>\<open>std::min_element\<close>: the index of the first smallest element.\<close>

definition min_element :: "int list \<Rightarrow> nat" where
  "min_element xs = fold (\<lambda>i best. if xs ! i < xs ! best then i else best) [1..<length xs] 0"

definition AdvanceTime :: "microseconds \<Rightarrow> RecoveryQueue \<Rightarrow> RecoveryQueue result" where
  "AdvanceTime now q =
     (if now < current_time q
      then Inl (InvalidArgument ''RecoveryQueue time must be monotonic'')
      else (let completed = size (filter_mset (\<lambda>t. t \<le> now) (job_completion_times q)) in
        Inr (q\<lparr>job_completion_times := filter_mset (\<lambda>t. \<not> t \<le> now) (job_completion_times q),
               current_queue_depth := nat ((int (current_queue_depth q) - int completed) mod 2 ^ 64),
               current_time := now\<rparr>)))"

definition GetExpectedRecoveryCost ::
  "microseconds \<Rightarrow> microseconds \<Rightarrow> RecoveryQueue \<Rightarrow> microseconds option result" where
  "GetExpectedRecoveryCost now service_time q =
     (if now < current_time q
      then Inl (InvalidArgument ''RecoveryQueue time must be monotonic'')
      else bindE (ValidateServiceTime service_time) (\<lambda>_.
        if current_queue_depth q \<ge> max_queue_depth q then Inr None
        else (let earliest_slot = min_element (slot_available_times q);
                  start_time = max now (slot_available_times q ! earliest_slot)
              in Inr (Some (start_time - now + service_time)))))"

definition SubmitJob ::
  "microseconds \<Rightarrow> microseconds \<Rightarrow> RecoveryQueue \<Rightarrow> (bool \<times> RecoveryQueue) result" where
  "SubmitJob now service_time q =
     (if now < current_time q
      then Inl (InvalidArgument ''RecoveryQueue time must be monotonic'')
      else bindE (ValidateServiceTime service_time) (\<lambda>_.
        if current_queue_depth q \<ge> max_queue_depth q then Inr (False, q)
        else (let earliest_slot = min_element (slot_available_times q);
                  completion_time = max now (slot_available_times q ! earliest_slot) + service_time
              in Inr (True, q\<lparr>
                slot_available_times := (slot_available_times q)[earliest_slot := completion_time],
                job_completion_times := add_mset completion_time (job_completion_times q),
                current_queue_depth := (current_queue_depth q + 1) mod 2 ^ 64\<rparr>))))"

section \<open>The invariant\<close>

lemma min_element_prefix:
  fixes xs :: "int list"
  assumes "0 < n" "n \<le> length xs"
  shows "(\<lambda>b. b < n \<and> (\<forall>j<n. xs ! b \<le> xs ! j) \<and> (\<forall>j<b. xs ! b < xs ! j))
    (fold (\<lambda>i best. if xs ! i < xs ! best then i else best) [1..<n] 0)"
  using assms
proof (induction n)
  case 0
  then show ?case by simp
next
  case (Suc n)
  show ?case
  proof (cases "n = 0")
    case True
    then show ?thesis by simp
  next
    case False
    then have "[1..<Suc n] = [1..<n] @ [n]" by simp
    then show ?thesis
      using Suc False by (auto simp: less_Suc_eq not_less intro: order.trans less_le_trans)
  qed
qed

lemma min_element_correct:
  assumes "xs \<noteq> []"
  shows "min_element xs < length xs" "j < length xs \<Longrightarrow> xs ! min_element xs \<le> xs ! j"
    "j < min_element xs \<Longrightarrow> xs ! min_element xs < xs ! j"
  using min_element_prefix [of "length xs" xs] assms by (auto simp: min_element_def)

lemma min_element_Min: "xs \<noteq> [] \<Longrightarrow> xs ! min_element xs = Min (set xs)"
  using min_element_correct [of xs]
  by (intro Min_eqI [symmetric]) (auto simp: in_set_conv_nth)

definition queue_ok :: "RecoveryQueue \<Rightarrow> bool" where
  "queue_ok q \<longleftrightarrow> slot_available_times q \<noteq> [] \<and>
     current_queue_depth q = size (job_completion_times q) \<and>
     current_queue_depth q \<le> max_queue_depth q \<and> max_queue_depth q < 2 ^ 64 \<and>
     (\<forall>t. t \<in># job_completion_times q \<longrightarrow> current_time q < t) \<and>
     filter_mset (\<lambda>t. current_time q < t) (mset (slot_available_times q)) \<subseteq># job_completion_times q"

lemma queue_ok_new:
  "RecoveryQueue_new c d = Inr q \<Longrightarrow> d < 2 ^ 64 \<Longrightarrow> queue_ok q"
  by (auto simp: RecoveryQueue_new_def queue_ok_def filter_mset_eq_conv split: if_splits)

text \<open>The subtraction in \<open>AdvanceTime\<close> does not wrap around: jobs that end are jobs that were counted.\<close>

lemma AdvanceTime_Inr:
  assumes "queue_ok q"
  shows "AdvanceTime now q = Inr q' \<longleftrightarrow> current_time q \<le> now \<and>
    q' = q\<lparr>job_completion_times := filter_mset (\<lambda>t. now < t) (job_completion_times q),
           current_queue_depth := size (filter_mset (\<lambda>t. now < t) (job_completion_times q)),
           current_time := now\<rparr>"
proof -
  have "current_queue_depth q = size (filter_mset (\<lambda>t. t \<le> now) (job_completion_times q))
      + size (filter_mset (\<lambda>t. \<not> t \<le> now) (job_completion_times q))"
    using assms by (simp add: queue_ok_def flip: size_union)
  moreover have "current_queue_depth q < 2 ^ 64" using assms by (simp add: queue_ok_def)
  ultimately have "nat ((int (current_queue_depth q)
        - int (size (filter_mset (\<lambda>t. t \<le> now) (job_completion_times q)))) mod 2 ^ 64)
      = size (filter_mset (\<lambda>t. \<not> t \<le> now) (job_completion_times q))"
    by simp
  then show ?thesis by (auto simp: AdvanceTime_def Let_def not_le)
qed

lemma queue_ok_AdvanceTime:
  assumes "queue_ok q" "AdvanceTime now q = Inr q'"
  shows "queue_ok q'" "current_time q' = now"
proof -
  let ?jobs = "job_completion_times q" and ?slots = "mset (slot_available_times q)"
  have now: "current_time q \<le> now"
    and q': "q' = q\<lparr>job_completion_times := filter_mset (\<lambda>t. now < t) ?jobs,
           current_queue_depth := size (filter_mset (\<lambda>t. now < t) ?jobs), current_time := now\<rparr>"
    using assms AdvanceTime_Inr by blast+
  then show "current_time q' = now" by simp
  have "filter_mset (\<lambda>t. now < t) (filter_mset (\<lambda>t. current_time q < t) ?slots)
      \<subseteq># filter_mset (\<lambda>t. now < t) ?jobs"
    by (rule multiset_filter_mono) (use assms(1) in \<open>simp add: queue_ok_def\<close>)
  moreover have "filter_mset (\<lambda>t. now < t) (filter_mset (\<lambda>t. current_time q < t) ?slots)
      = filter_mset (\<lambda>t. now < t) ?slots"
    using now by (auto simp: filter_filter_mset intro!: filter_mset_cong)
  moreover have "size (filter_mset (\<lambda>t. now < t) ?jobs) \<le> max_queue_depth q"
    using size_filter_mset_lesseq [of "\<lambda>t. now < t" ?jobs] assms(1)
    unfolding queue_ok_def by linarith
  ultimately show "queue_ok q'"
    using assms(1) by (auto simp: queue_ok_def q')
qed

lemma mset_update_swap:
  assumes "i < length xs"
  shows "mset (xs[i := y]) = add_mset y (mset xs - {#xs ! i#})"
  using assms by (simp add: mset_update)

lemma SubmitJob_Inr:
  assumes "queue_ok q"
  shows "SubmitJob now s q = Inr (accepted, q') \<longleftrightarrow> current_time q \<le> now \<and> 0 < s \<and>
    (if current_queue_depth q < max_queue_depth q
     then accepted \<and> q' = q\<lparr>
        slot_available_times := (slot_available_times q)[min_element (slot_available_times q) :=
          max now (Min (set (slot_available_times q))) + s],
        job_completion_times := add_mset (max now (Min (set (slot_available_times q))) + s)
          (job_completion_times q),
        current_queue_depth := current_queue_depth q + 1\<rparr>
     else \<not> accepted \<and> q' = q)"
proof -
  have "slot_available_times q \<noteq> []" using assms by (simp add: queue_ok_def)
  moreover have "current_queue_depth q < max_queue_depth q
      \<Longrightarrow> (current_queue_depth q + 1) mod 2 ^ 64 = current_queue_depth q + 1"
    using assms by (simp add: queue_ok_def)
  ultimately show ?thesis
    by (auto simp: SubmitJob_def ValidateServiceTime_def min_element_Min Let_def throw_if_def
        bindE_eq_Inr)
qed

lemma queue_ok_SubmitJob:
  assumes q: "queue_ok q" and submit: "SubmitJob now s q = Inr (accepted, q')"
  shows "queue_ok q'" "current_time q' = current_time q"
proof -
  let ?slots = "slot_available_times q" and ?i = "min_element (slot_available_times q)"
  let ?c = "max now (Min (set ?slots)) + s"
  have sub: "current_time q \<le> now" "0 < s" using submit SubmitJob_Inr [OF q] by auto
  show "current_time q' = current_time q"
    using submit SubmitJob_Inr [OF q] by (auto split: if_splits)
  show "queue_ok q'"
  proof (cases "current_queue_depth q < max_queue_depth q")
    case True
    then have q': "q' = q\<lparr>slot_available_times := ?slots[?i := ?c],
        job_completion_times := add_mset ?c (job_completion_times q),
        current_queue_depth := current_queue_depth q + 1\<rparr>"
      using submit SubmitJob_Inr [OF q] by simp
    have ne: "?slots \<noteq> []" using q by (simp add: queue_ok_def)
    have late: "current_time q < ?c" using sub by simp
    have "filter_mset (\<lambda>t. current_time q < t) (mset (?slots[?i := ?c]))
        \<subseteq># add_mset ?c (job_completion_times q)"
    proof -
      have busy: "filter_mset (\<lambda>t. current_time q < t) (mset ?slots) \<subseteq># job_completion_times q"
        using q by (simp add: queue_ok_def)
      then have "filter_mset (\<lambda>t. current_time q < t) (mset ?slots) - {#?slots ! ?i#}
          \<subseteq># job_completion_times q"
        using subset_mset.order_trans [OF diff_subset_eq_self] by blast
      then show ?thesis
        using mset_update_swap [OF min_element_correct(1) [OF ne]] late busy by simp
    qed
    then show ?thesis
      using q late True by (auto simp: queue_ok_def q')
  next
    case False
    then show ?thesis using submit SubmitJob_Inr [OF q] q by simp
  qed
qed

lemma GetExpectedRecoveryCost_Inr:
  assumes "queue_ok q"
  shows "GetExpectedRecoveryCost now s q = Inr r \<longleftrightarrow> current_time q \<le> now \<and> 0 < s \<and>
    r = (if current_queue_depth q < max_queue_depth q
         then Some (max now (Min (set (slot_available_times q))) - now + s) else None)"
proof -
  have "slot_available_times q \<noteq> []" using assms by (simp add: queue_ok_def)
  then show ?thesis
    by (auto simp: GetExpectedRecoveryCost_def ValidateServiceTime_def min_element_Min Let_def
        throw_if_def bindE_eq_Inr)
qed

section \<open>The interface\<close>

text \<open>What the simulator relies on.\<close>

locale recovery_queue =
  fixes advance :: "microseconds \<Rightarrow> 'q \<Rightarrow> 'q result"
    and cost :: "microseconds \<Rightarrow> microseconds \<Rightarrow> 'q \<Rightarrow> microseconds option result"
    and submit :: "microseconds \<Rightarrow> microseconds \<Rightarrow> 'q \<Rightarrow> (bool \<times> 'q) result"
    and invar :: "'q \<Rightarrow> bool" and clock :: "'q \<Rightarrow> microseconds"
  assumes advance_ok: "invar q \<Longrightarrow> clock q \<le> now \<Longrightarrow>
      \<exists>q'. advance now q = Inr q' \<and> invar q' \<and> clock q' = now"
    and cost_ok: "invar q \<Longrightarrow> clock q \<le> now \<Longrightarrow> 0 < s \<Longrightarrow> \<exists>r. cost now s q = Inr r"
    and cost_bound: "invar q \<Longrightarrow> cost now s q = Inr (Some c) \<Longrightarrow> s \<le> c \<and> 0 < s"
    and submit_keeps: "invar q \<Longrightarrow> submit now s q = Inr (accepted, q') \<Longrightarrow> invar q' \<and> clock q' = clock q"
    and submit_iff_cost: "invar q \<Longrightarrow> cost now s q = Inr r \<Longrightarrow>
      \<exists>q'. submit now s q = Inr (r \<noteq> None, q')"
begin

lemma priced_job_admitted:
  assumes "invar q" "cost now s q = Inr (Some c)"
  shows "\<exists>q'. submit now s q = Inr (True, q') \<and> invar q' \<and> clock q' = clock q"
  using submit_iff_cost [OF assms] submit_keeps [OF assms(1)] by fastforce

lemma advance_error:
  assumes "invar q" "advance now q = Inl e"
  shows "now < clock q"
  using advance_ok [OF assms(1), of now] assms(2) by (cases "now < clock q") auto

end

interpretation lq: recovery_queue AdvanceTime GetExpectedRecoveryCost SubmitJob queue_ok current_time
proof unfold_locales
  fix q :: RecoveryQueue and now s c :: int and r accepted q'
  assume q: "queue_ok q"
  show "\<exists>q'. AdvanceTime now q = Inr q' \<and> queue_ok q' \<and> current_time q' = now" if "current_time q \<le> now"
    using AdvanceTime_Inr [OF q] queue_ok_AdvanceTime [OF q] that by blast
  show "\<exists>r. GetExpectedRecoveryCost now s q = Inr r" if "current_time q \<le> now" "0 < s"
    using that by (simp add: GetExpectedRecoveryCost_Inr [OF q])
  show "s \<le> c \<and> 0 < s" if "GetExpectedRecoveryCost now s q = Inr (Some c)"
    using that by (auto simp: GetExpectedRecoveryCost_Inr [OF q] split: if_splits)
  show "queue_ok q' \<and> current_time q' = current_time q" if "SubmitJob now s q = Inr (accepted, q')"
    using queue_ok_SubmitJob [OF q that] by blast
  show "\<exists>q'. SubmitJob now s q = Inr (r \<noteq> None, q')" if "GetExpectedRecoveryCost now s q = Inr r"
    using that by (auto simp: GetExpectedRecoveryCost_Inr [OF q] SubmitJob_Inr [OF q])
qed

section \<open>Runs of the queue\<close>

text \<open>
  A client serves a request by advancing the clock, asking for the price and submitting. The history
  keeps, for every accepted job, the start and completion the price announced.
\<close>

definition serve ::
  "microseconds \<times> microseconds \<Rightarrow> RecoveryQueue \<times> (int \<times> int) list \<Rightarrow>
   (RecoveryQueue \<times> (int \<times> int) list) result" where
  "serve job st =
     (case job of (now, s) \<Rightarrow> case st of (q, hist) \<Rightarrow>
       bindE (AdvanceTime now q) (\<lambda>q1.
       bindE (GetExpectedRecoveryCost now s q1) (\<lambda>price.
       bindE (SubmitJob now s q1) (\<lambda>(accepted, q2).
         Inr (q2, if accepted then hist @ [(now + the price - s, now + the price)] else hist)))))"

definition serve_all ::
  "(microseconds \<times> microseconds) list \<Rightarrow> RecoveryQueue \<Rightarrow> (RecoveryQueue \<times> (int \<times> int) list) result" where
  "serve_all jobs q = foldE serve jobs (q, [])"

text \<open>
  Every accepted job is assigned to a slot; jobs of one slot do not overlap, and no job starts
  before an earlier one.
\<close>

definition schedule_ok :: "RecoveryQueue \<Rightarrow> (int \<times> int) list \<Rightarrow> nat list \<Rightarrow> bool" where
  "schedule_ok q hist sl \<longleftrightarrow> length sl = length hist \<and>
     (\<forall>j<length hist. sl ! j < length (slot_available_times q) \<and>
        snd (hist ! j) \<le> slot_available_times q ! (sl ! j) \<and>
        fst (hist ! j) \<le> max (current_time q) (Min (set (slot_available_times q)))) \<and>
     (\<forall>i j. i < j \<longrightarrow> j < length hist \<longrightarrow> sl ! i = sl ! j \<longrightarrow> snd (hist ! i) \<le> fst (hist ! j)) \<and>
     sorted (map fst hist) \<and>
     job_completion_times q = filter_mset (\<lambda>t. current_time q < t) (mset (map snd hist))"

lemma schedule_ok_AdvanceTime:
  assumes "queue_ok q" "schedule_ok q hist sl" "AdvanceTime now q = Inr q'"
  shows "schedule_ok q' hist sl"
proof -
  have now: "current_time q \<le> now"
    and q': "q' = q\<lparr>job_completion_times := filter_mset (\<lambda>t. now < t) (job_completion_times q),
           current_queue_depth := size (filter_mset (\<lambda>t. now < t) (job_completion_times q)),
           current_time := now\<rparr>"
    using assms(1,3) AdvanceTime_Inr by blast+
  have "filter_mset (\<lambda>t. now < t) (job_completion_times q)
      = filter_mset (\<lambda>t. now < t) (mset (map snd hist))"
    using assms(2) now by (auto simp: schedule_ok_def filter_filter_mset intro!: filter_mset_cong)
  moreover have "x \<le> max (current_time q) m \<Longrightarrow> x \<le> max now m" for x m
    using now by auto
  ultimately show ?thesis
    using assms(2) by (simp add: schedule_ok_def q')
qed

lemma schedule_ok_start:
  fixes xs :: "int list"
  assumes "xs \<noteq> []" "now \<le> t" "Min (set xs) \<le> t"
  shows "max now (Min (set xs)) \<le> max now (Min (set (xs[min_element xs := t])))"
proof -
  have "Min (set xs) \<le> y" if "y \<in> set (xs[min_element xs := t])" for y
    using that set_update_subset_insert [of xs "min_element xs" t] assms(3) by auto
  then have "Min (set xs) \<le> Min (set (xs[min_element xs := t]))"
    using assms(1) by (subst Min_ge_iff) auto
  then show ?thesis by simp
qed

lemma schedule_ok_SubmitJob:
  assumes q: "queue_ok q" and sched: "schedule_ok q hist sl" and now: "current_time q = now"
    and submit: "SubmitJob now s q = Inr (True, q')"
  defines "start \<equiv> max now (Min (set (slot_available_times q)))"
  shows "schedule_ok q' (hist @ [(start, start + s)]) (sl @ [min_element (slot_available_times q)])"
proof -
  let ?slots = "slot_available_times q" and ?i = "min_element (slot_available_times q)"
  have s: "0 < s"
    and q': "q' = q\<lparr>slot_available_times := ?slots[?i := start + s],
        job_completion_times := add_mset (start + s) (job_completion_times q),
        current_queue_depth := current_queue_depth q + 1\<rparr>"
    using submit SubmitJob_Inr [OF q] by (auto simp: start_def split: if_splits)
  have ne: "?slots \<noteq> []" using q by (simp add: queue_ok_def)
  note min = min_element_correct(1) [OF ne] min_element_Min [OF ne]
  have le: "Min (set ?slots) \<le> start" "now \<le> start" by (simp_all add: start_def)
  have keep: "sl ! j < length ?slots \<and> snd (hist ! j) \<le> ?slots ! (sl ! j) \<and> fst (hist ! j) \<le> start"
    if "j < length hist" for j
    using sched that now by (simp add: schedule_ok_def start_def)
  have ends: "snd (hist ! j) \<le> start" if "j < length hist" "sl ! j = ?i" for j
    using keep [OF that(1)] that(2) min le by simp
  have bound: "start \<le> max now (Min (set (?slots[?i := start + s])))"
    unfolding start_def using le s schedule_ok_start [OF ne, of now "start + s"] by (simp add: start_def)
  have len: "length sl = length hist" using sched by (simp add: schedule_ok_def)
  have "sorted (map fst (hist @ [(start, start + s)]))"
  proof -
    have "\<forall>j<length hist. fst (hist ! j) \<le> start" using keep by blast
    then have "\<forall>x\<in>set (map fst hist). x \<le> start" unfolding all_set_conv_all_nth by simp
    then show ?thesis using sched by (simp add: schedule_ok_def sorted_append)
  qed
  moreover have "job_completion_times q' = filter_mset (\<lambda>t. current_time q' < t)
      (mset (map snd (hist @ [(start, start + s)])))"
    using sched now le s by (simp add: schedule_ok_def q')
  moreover have "snd ((hist @ [(start, start + s)]) ! i) \<le> fst ((hist @ [(start, start + s)]) ! j)"
    if "i < j" "j < Suc (length hist)" "(sl @ [?i]) ! i = (sl @ [?i]) ! j" for i j
  proof (cases "j = length hist")
    case True
    then show ?thesis using ends [of i] that len by (simp add: nth_append)
  next
    case False
    then show ?thesis using sched that len by (simp add: schedule_ok_def nth_append)
  qed
  moreover have "(sl @ [?i]) ! j < length (slot_available_times q') \<and>
      snd ((hist @ [(start, start + s)]) ! j) \<le> slot_available_times q' ! ((sl @ [?i]) ! j) \<and>
      fst ((hist @ [(start, start + s)]) ! j)
        \<le> max (current_time q') (Min (set (slot_available_times q')))"
    if "j < Suc (length hist)" for j
  proof (cases "j = length hist")
    case True
    then show ?thesis using len min bound now by (simp add: q' nth_append)
  next
    case False
    then have j: "j < length hist" using that by simp
    have "snd (hist ! j) \<le> ?slots[?i := start + s] ! (sl ! j)"
      using keep [OF j] ends [OF j] s min by (cases "sl ! j = ?i") simp_all
    then show ?thesis
      using keep [OF j] j len bound now by (simp add: q' nth_append)
  qed
  ultimately show ?thesis
    by (simp add: schedule_ok_def len del: map_append)
qed

lemma serve_step:
  assumes "queue_ok q" "schedule_ok q hist sl" "serve (now, s) (q, hist) = Inr (q', hist')"
  shows "queue_ok q' \<and> (\<exists>sl'. schedule_ok q' hist' sl') \<and> max_queue_depth q' = max_queue_depth q \<and>
    length (slot_available_times q') = length (slot_available_times q)"
proof -
  obtain q1 price accepted where a: "AdvanceTime now q = Inr q1"
      "GetExpectedRecoveryCost now s q1 = Inr price" "SubmitJob now s q1 = Inr (accepted, q')"
      "hist' = (if accepted then hist @ [(now + the price - s, now + the price)] else hist)"
    using assms(3) by (auto simp: serve_def bindE_eq_Inr)
  note q1 = queue_ok_AdvanceTime [OF assms(1) a(1)]
  note sched1 = schedule_ok_AdvanceTime [OF assms(1,2) a(1)]
  have frame: "max_queue_depth q1 = max_queue_depth q \<and> slot_available_times q1 = slot_available_times q"
    using AdvanceTime_Inr [OF assms(1)] a(1) by auto
  have frame': "max_queue_depth q' = max_queue_depth q1 \<and>
      length (slot_available_times q') = length (slot_available_times q1)"
    using SubmitJob_Inr [OF q1(1)] a(3) by (auto split: if_splits)
  have "\<exists>sl'. schedule_ok q' hist' sl'"
  proof (cases accepted)
    case True
    then have "price = Some (max now (Min (set (slot_available_times q1))) - now + s)"
      using a(2,3) GetExpectedRecoveryCost_Inr [OF q1(1)] SubmitJob_Inr [OF q1(1)] by (auto split: if_splits)
    then have "hist' = hist @ [(max now (Min (set (slot_available_times q1))),
        max now (Min (set (slot_available_times q1))) + s)]"
      using a(4) True by simp
    then show ?thesis using schedule_ok_SubmitJob [OF q1(1) sched1 q1(2)] a(3) True by auto
  next
    case False
    then have "q' = q1" using a(3) SubmitJob_Inr [OF q1(1)] by (auto split: if_splits)
    then show ?thesis using sched1 a(4) False by auto
  qed
  then show ?thesis using queue_ok_SubmitJob(1) [OF q1(1) a(3)] frame frame' by simp
qed

lemma serve_all_ok:
  assumes "RecoveryQueue_new c d = Inr q0" "d < 2 ^ 64" "serve_all jobs q0 = Inr (q, hist)"
  shows "queue_ok q \<and> (\<exists>sl. schedule_ok q hist sl) \<and> max_queue_depth q = d \<and>
    length (slot_available_times q) = c"
proof -
  define I where "I done st \<longleftrightarrow> queue_ok (fst st) \<and> (\<exists>sl. schedule_ok (fst st) (snd st) sl) \<and>
    max_queue_depth (fst st) = d \<and> length (slot_available_times (fst st)) = c"
    for "done" :: "(int \<times> int) list" and st :: "RecoveryQueue \<times> (int \<times> int) list"
  have "I jobs (q, hist)"
  proof (rule foldE_invariant [where I = I])
    show "foldE serve jobs (q0, []) = Inr (q, hist)" using assms(3) by (simp add: serve_all_def)
    have "queue_ok q0" using queue_ok_new assms(1,2) by blast
    moreover have "schedule_ok q0 [] []"
      using assms(1) by (auto simp: RecoveryQueue_new_def schedule_ok_def split: if_splits)
    ultimately show "I [] (q0, [])"
      using assms(1) by (auto simp: I_def RecoveryQueue_new_def split: if_splits)
    fix pre job rest u v
    assume "I pre u" "serve job u = Inr v"
    then show "I (pre @ [job]) v"
      using serve_step [of "fst u" "snd u" _ "fst job" "snd job" "fst v" "snd v"] by (auto simp: I_def)
  qed
  then show ?thesis by (simp add: I_def)
qed

section \<open>Properties\<close>

text \<open>
  C18. Over any sequence of priced submissions, the accepted jobs start in submission order and at
  no instant are more of them in service than the concurrency limit allows.
\<close>

theorem queue_concurrency_bound:
  assumes "RecoveryQueue_new c d = Inr q0" "d < 2 ^ 64" "serve_all jobs q0 = Inr (q, hist)"
  shows "sorted (map fst hist) \<and>
    card {j. j < length hist \<and> fst (hist ! j) \<le> t \<and> t < snd (hist ! j)} \<le> c"
proof -
  obtain sl where sl: "schedule_ok q hist sl" "length (slot_available_times q) = c"
    using serve_all_ok [OF assms] by blast
  let ?A = "{j. j < length hist \<and> fst (hist ! j) \<le> t \<and> t < snd (hist ! j)}"
  have "inj_on (\<lambda>j. sl ! j) ?A"
  proof (rule inj_onI)
    fix i j
    assume ij: "i \<in> ?A" "j \<in> ?A" "sl ! i = sl ! j"
    have "\<not> i < j" "\<not> j < i"
      using sl(1) ij by (fastforce simp: schedule_ok_def)+
    then show "i = j" by simp
  qed
  moreover have "(\<lambda>j. sl ! j) ` ?A \<subseteq> {..<c}"
    using sl by (auto simp: schedule_ok_def)
  ultimately have "card ?A \<le> card {..<c}" by (intro card_inj_on_le) auto
  then show ?thesis using sl(1) by (simp add: schedule_ok_def)
qed

theorem queue_concurrency_bound_witness:
  "\<exists>q0 q. RecoveryQueue_new 1 2 = Inr q0 \<and> serve_all [(0, 5), (1, 3), (2, 4)] q0 = Inr (q, [(0, 5), (5, 8)]) \<and>
     card {j. j < length [(0 :: int, 5 :: int), (5, 8)] \<and> fst ([(0 :: int, 5 :: int), (5, 8)] ! j) \<le> 6 \<and>
       6 < snd ([(0 :: int, 5 :: int), (5, 8)] ! j)} \<le> 1"
proof -
  let ?q0 = "\<lparr>slot_available_times = [0], max_queue_depth = 2, current_queue_depth = 0,
      job_completion_times = {#}, current_time = 0\<rparr>"
  have new: "RecoveryQueue_new 1 2 = Inr ?q0" by (simp add: RecoveryQueue_new_def)
  obtain q where run: "serve_all [(0, 5), (1, 3), (2, 4)] ?q0 = Inr (q, [(0, 5), (5, 8)])"
    by (simp add: serve_all_def serve_def AdvanceTime_def GetExpectedRecoveryCost_def SubmitJob_def
        ValidateServiceTime_def min_element_def Let_def max_def)
  show ?thesis using queue_concurrency_bound [OF new _ run, of 6] new run by auto
qed

text \<open>
  The depth counter is exact in every reachable state: it is the number of accepted jobs that
  have not completed, it never exceeds the configured depth, and advancing the clock subtracts no
  more than was counted.
\<close>

theorem queue_depth_exact:
  assumes "RecoveryQueue_new c d = Inr q0" "d < 2 ^ 64" "serve_all jobs q0 = Inr (q, hist)"
    and "AdvanceTime now q = Inr q'"
  shows "current_queue_depth q' = length (filter (\<lambda>job. now < snd job) hist) \<and>
    current_queue_depth q' \<le> current_queue_depth q \<and> current_queue_depth q \<le> d"
proof -
  obtain sl where q: "queue_ok q" "schedule_ok q hist sl" "max_queue_depth q = d"
    using serve_all_ok [OF assms(1-3)] by blast
  note q' = queue_ok_AdvanceTime [OF q(1) assms(4)]
  have "schedule_ok q' hist sl" by (rule schedule_ok_AdvanceTime [OF q(1,2) assms(4)])
  then have "job_completion_times q' = mset (map snd (filter (\<lambda>job. now < snd job) hist))"
    using q'(2) by (simp add: schedule_ok_def filter_mset_image_mset flip: mset_filter)
  then have "size (job_completion_times q') = length (filter (\<lambda>job. now < snd job) hist)"
    by (metis size_mset length_map)
  moreover have "current_queue_depth q' \<le> current_queue_depth q"
    using AdvanceTime_Inr [OF q(1)] assms(4) q(1) size_filter_mset_lesseq
    by (auto simp: queue_ok_def)
  ultimately show ?thesis using q'(1) q(1,3) unfolding queue_ok_def by simp
qed

theorem queue_depth_exact_witness:
  "\<exists>q0 q q'. RecoveryQueue_new 1 2 = Inr q0 \<and> serve_all [(0, 5), (1, 3), (2, 4)] q0 = Inr (q, [(0, 5), (5, 8)]) \<and>
     AdvanceTime 5 q = Inr q' \<and> current_queue_depth q' = 1"
proof -
  let ?q0 = "\<lparr>slot_available_times = [0], max_queue_depth = 2, current_queue_depth = 0,
      job_completion_times = {#}, current_time = 0\<rparr>"
  have new: "RecoveryQueue_new 1 2 = Inr ?q0" by (simp add: RecoveryQueue_new_def)
  obtain q where run: "serve_all [(0, 5), (1, 3), (2, 4)] ?q0 = Inr (q, [(0, 5), (5, 8)])" and "current_time q = 2"
    by (simp add: serve_all_def serve_def AdvanceTime_def GetExpectedRecoveryCost_def SubmitJob_def
        ValidateServiceTime_def min_element_def Let_def max_def)
  then obtain q' where "AdvanceTime 5 q = Inr q'" by (simp add: AdvanceTime_def)
  then show ?thesis using queue_depth_exact [OF new _ run, of 5 q'] new run by auto
qed

text \<open>
  The price is honest and work-conserving: in every reachable state, a job is priced exactly
  when the depth allows it; the submission that follows is then accepted and completes exactly after
  the announced cost; and when fewer jobs are outstanding than there are slots the price is the bare
  service time.
\<close>

theorem queue_price_honest:
  assumes "RecoveryQueue_new c d = Inr q0" "d < 2 ^ 64" "serve_all jobs q0 = Inr (q, hist)"
    and "AdvanceTime now q = Inr q1" "0 < s"
  shows "if current_queue_depth q1 < d
    then \<exists>price q2. GetExpectedRecoveryCost now s q1 = Inr (Some price) \<and> SubmitJob now s q1 = Inr (True, q2) \<and>
      job_completion_times q2 = add_mset (now + price) (job_completion_times q1) \<and>
      (current_queue_depth q1 < c \<longrightarrow> price = s)
    else GetExpectedRecoveryCost now s q1 = Inr None \<and> SubmitJob now s q1 = Inr (False, q1)"
proof -
  have q: "queue_ok q" "max_queue_depth q = d" "length (slot_available_times q) = c"
    using serve_all_ok [OF assms(1-3)] by auto
  note q1 = queue_ok_AdvanceTime [OF q(1) assms(4)]
  have frame: "max_queue_depth q1 = d" "length (slot_available_times q1) = c"
    using AdvanceTime_Inr [OF q(1)] assms(4) q by auto
  have idle: "Min (set (slot_available_times q1)) \<le> now" if "current_queue_depth q1 < c"
  proof (rule ccontr)
    assume busy: "\<not> Min (set (slot_available_times q1)) \<le> now"
    have "now < t" if "t \<in> set (slot_available_times q1)" for t
      using Min_le [OF finite_set that] busy by simp
    then have "filter_mset (\<lambda>t. now < t) (mset (slot_available_times q1)) = mset (slot_available_times q1)"
      by (auto simp: filter_mset_eq_conv)
    then have "mset (slot_available_times q1) \<subseteq># job_completion_times q1"
      using q1 by (simp add: queue_ok_def)
    then have "c \<le> size (job_completion_times q1)" using size_mset_mono frame(2) by fastforce
    then show False using that q1(1) by (simp add: queue_ok_def)
  qed
  show ?thesis
    using q1(2) assms(5) frame idle
    by (auto simp: GetExpectedRecoveryCost_Inr [OF q1(1)] SubmitJob_Inr [OF q1(1)])
qed

theorem queue_price_honest_witness:
  "\<exists>q0 q q1. RecoveryQueue_new 1 2 = Inr q0 \<and> serve_all [(0, 5)] q0 = Inr (q, [(0, 5)]) \<and>
     AdvanceTime 6 q = Inr q1 \<and> GetExpectedRecoveryCost 6 4 q1 = Inr (Some 4)"
proof -
  let ?q0 = "\<lparr>slot_available_times = [0], max_queue_depth = 2, current_queue_depth = 0,
      job_completion_times = {#}, current_time = 0\<rparr>"
  have new: "RecoveryQueue_new 1 2 = Inr ?q0" by (simp add: RecoveryQueue_new_def)
  obtain q where run: "serve_all [(0, 5)] ?q0 = Inr (q, [(0, 5)])" and "current_time q = 0"
      "current_queue_depth q = 1" "job_completion_times q = {#5#}"
    by (simp add: serve_all_def serve_def AdvanceTime_def GetExpectedRecoveryCost_def SubmitJob_def
        ValidateServiceTime_def min_element_def Let_def max_def)
  then obtain q1 where q1: "AdvanceTime 6 q = Inr q1" "current_queue_depth q1 = 0"
    by (simp add: AdvanceTime_def)
  show ?thesis using queue_price_honest [OF new _ run q1(1), of 4] q1 new run by auto
qed

end
