(* ===== verification/Simulator.thy ===== *)
theory Simulator imports Policy begin

text \<open>
  \<open>include/codedllm/simulation/simulator.hpp\<close> and \<open>src/simulation/simulator.cpp\<close>: the simulation
  of one request. \<open>std::stable_sort\<close> by arrival time is \<open>sort_key\<close>, which is stable; the loop over
  groups of simultaneous arrivals is the terminating function \<open>run_groups\<close>. A \<open>std::function\<close>
  member is an \<open>option\<close>, \<open>None\<close> being the empty function; the cost oracle itself is a parameter.
\<close>

record ShardArrivalEvent =
  ev_shard :: ShardId
  ev_time :: microseconds

record SimulationMetrics =
  natural_completion_time :: microseconds
  recovery_start_time :: "microseconds option"
  recovery_completion_time :: "microseconds option"
  final_latency :: microseconds
  recovery_won :: bool

record RequestSimulation =
  sim_graph :: BipartiteGraph
  sim_events :: "ShardArrivalEvent list"
  sim_get_costs :: "microseconds \<Rightarrow> CostEstimates"

definition SimulationMetrics_default :: SimulationMetrics where
  "SimulationMetrics_default =
     \<lparr>natural_completion_time = 0, recovery_start_time = None, recovery_completion_time = None,
      final_latency = 0, recovery_won = False\<rparr>"

definition RequestSimulation_new ::
  "BipartiteGraph \<Rightarrow> ShardArrivalEvent list \<Rightarrow> (microseconds \<Rightarrow> CostEstimates) option \<Rightarrow>
   RequestSimulation result" where
  "RequestSimulation_new g events get_costs =
     bindE (RecoveryPolicy_new g) (\<lambda>policy_graph.
       case get_costs of
         None \<Rightarrow> Inl (InvalidArgument ''RequestSimulation requires a cost oracle'')
       | Some oracle \<Rightarrow>
           Inr \<lparr>sim_graph = policy_graph, sim_events = events, sim_get_costs = oracle\<rparr>)"

text \<open>\<open>steady_clock::time_point{} + current_time\<close>: the clock counts nanoseconds.\<close>

definition logical_time :: "microseconds \<Rightarrow> int" where
  "logical_time t = 1000 * t"

text \<open>The block that asks the policy once no recovery has started.\<close>

definition consider_recovery ::
  "BipartiteGraph \<Rightarrow> (microseconds \<Rightarrow> CostEstimates) \<Rightarrow> microseconds \<Rightarrow> ShardArrivalTracker \<Rightarrow>
   SimulationMetrics \<Rightarrow> SimulationMetrics result" where
  "consider_recovery g get_costs now tracker metrics =
     (if recovery_start_time metrics \<noteq> None then Inr metrics
      else (let costs = get_costs now in
        bindE (Evaluate g tracker costs) (\<lambda>d.
          if d = Recover
          then if expected_recovery_cost costs < 0
               then Inl (InvalidArgument ''Expected recovery cost must not be negative'')
               else Inr (metrics\<lparr>recovery_start_time := Some now,
                      recovery_completion_time := Some (now + expected_recovery_cost costs)\<rparr>)
          else Inr metrics)))"

text \<open>
  The main loop: one iteration consumes every event of the earliest remaining time. The first
  component of the result is \<open>natural_completion_time\<close>.
\<close>

function run_groups ::
  "BipartiteGraph \<Rightarrow> (microseconds \<Rightarrow> CostEstimates) \<Rightarrow> ShardArrivalEvent list \<Rightarrow>
   ShardArrivalTracker \<Rightarrow> SimulationMetrics \<Rightarrow> (microseconds option \<times> SimulationMetrics) result" where
  "run_groups g get_costs [] tracker metrics = Inr (None, metrics)"
| "run_groups g get_costs (e # es) tracker metrics =
     (let now = ev_time e in
      if now < 0 then Inl (InvalidArgument ''Shard arrival times must not be negative'')
      else bindE (foldE (\<lambda>ev. MarkArrived (ev_shard ev) (logical_time now))
                   (e # takeWhile (\<lambda>ev. ev_time ev = now) es) tracker) (\<lambda>tracker'.
        if IsSystematicComplete tracker' then Inr (Some now, metrics)
        else bindE (consider_recovery g get_costs now tracker' metrics) (\<lambda>metrics'.
          run_groups g get_costs (dropWhile (\<lambda>ev. ev_time ev = now) es) tracker' metrics')))"
  by pat_completeness auto
termination
  by (relation "measure (\<lambda>(g, get_costs, es, tracker, metrics). length es)")
    (auto simp: le_imp_less_Suc length_dropWhile_le)

text \<open>The epilogue of \<open>Run\<close>.\<close>

definition finish_run :: "microseconds option \<Rightarrow> SimulationMetrics \<Rightarrow> SimulationMetrics result" where
  "finish_run natural metrics =
     (case natural of
        None \<Rightarrow> Inl (RuntimeError ''Simulation requires a natural arrival for every systematic shard'')
      | Some t \<Rightarrow>
          (let m = metrics\<lparr>natural_completion_time := t, final_latency := t\<rparr> in
           case recovery_completion_time m of
             Some c \<Rightarrow> if c < t then Inr (m\<lparr>final_latency := c, recovery_won := True\<rparr>) else Inr m
           | None \<Rightarrow> Inr m))"

definition RequestSimulation_Run :: "RequestSimulation \<Rightarrow> SimulationMetrics result" where
  "RequestSimulation_Run sim =
     bindE (ShardArrivalTracker_new (systematic_shard_count (sim_graph sim))
              (parity_shard_count (sim_graph sim))) (\<lambda>tracker.
     bindE (run_groups (sim_graph sim) (sim_get_costs sim) (sort_key ev_time (sim_events sim))
              tracker SimulationMetrics_default) (\<lambda>(natural, metrics). finish_run natural metrics))"

section \<open>What a run computes\<close>

text \<open>The shards that have arrived by a time, and the moments at which the policy would recover.\<close>

definition arrived_by :: "ShardArrivalEvent list \<Rightarrow> microseconds \<Rightarrow> ShardId set" where
  "arrived_by events t = ev_shard ` {e \<in> set events. ev_time e \<le> t}"

definition complete_by :: "BipartiteGraph \<Rightarrow> ShardArrivalEvent list \<Rightarrow> microseconds \<Rightarrow> bool" where
  "complete_by g events t \<longleftrightarrow> (\<forall>i. unat i < systematic_shard_count g \<longrightarrow> i \<in> arrived_by events t)"

definition recovers_at ::
  "BipartiteGraph \<Rightarrow> ShardArrivalEvent list \<Rightarrow> (microseconds \<Rightarrow> CostEstimates) \<Rightarrow> microseconds \<Rightarrow> bool" where
  "recovers_at g events get_costs t \<longleftrightarrow> t \<in> ev_time ` set events \<and>
     decision g (arrived_by events t) (get_costs t) = Recover"

text \<open>
  The state of the metrics before time \<open>t\<close>: the recovery started at the first moment before \<open>t\<close> at
  which the policy decides to recover, if there is one.
\<close>

definition metrics_before ::
  "BipartiteGraph \<Rightarrow> ShardArrivalEvent list \<Rightarrow> (microseconds \<Rightarrow> CostEstimates) \<Rightarrow> microseconds \<Rightarrow>
   SimulationMetrics \<Rightarrow> bool" where
  "metrics_before g events get_costs t m \<longleftrightarrow>
     (case recovery_start_time m of
        None \<Rightarrow> m = SimulationMetrics_default \<and> (\<forall>u<t. \<not> recovers_at g events get_costs u)
      | Some s \<Rightarrow> s < t \<and> recovers_at g events get_costs s \<and> 0 \<le> expected_recovery_cost (get_costs s) \<and>
          (\<forall>u < s. \<not> recovers_at g events get_costs u) \<and>
          m = SimulationMetrics_default\<lparr>recovery_start_time := Some s,
            recovery_completion_time := Some (s + expected_recovery_cost (get_costs s))\<rparr>)"

lemma complete_by_missing:
  "complete_by g events t \<longleftrightarrow> missing_shards g (arrived_by events t) = {}"
  by (auto simp: complete_by_def missing_shards_def)

lemma foldE_MarkArrived:
  "foldE (\<lambda>ev. MarkArrived (ev_shard ev) t) evs tr = mark_all (map (\<lambda>ev. (ev_shard ev, t)) evs) tr"
  by (induction evs arbitrary: tr) (auto simp: mark_all_def bindE_def split: sum.splits)

lemma mark_group:
  assumes "tracker_for g tr"
  shows "foldE (\<lambda>ev. MarkArrived (ev_shard ev) t) evs tr = Inr tr' \<Longrightarrow>
      tracker_for g tr' \<and> arrived tr' = arrived tr \<union> ev_shard ` set evs"
    and "\<forall>ev\<in>set evs. unat (ev_shard ev) < systematic_shard_count g + parity_shard_count g \<Longrightarrow>
      \<exists>tr'. foldE (\<lambda>ev. MarkArrived (ev_shard ev) t) evs tr = Inr tr'"
  using mark_all_arrived [OF assms, of "map (\<lambda>ev. (ev_shard ev, t)) evs"]
  by (auto simp: foldE_MarkArrived image_image)

text \<open>Splitting a sorted list at the first group.\<close>

lemma sorted_takeWhile_eq:
  assumes "sorted (map f xs)" "\<forall>x\<in>set xs. t \<le> f x"
  shows "takeWhile (\<lambda>x. f x = t) xs = filter (\<lambda>x. f x = t) xs
    \<and> dropWhile (\<lambda>x. f x = t) xs = filter (\<lambda>x. t < f x) xs"
  using assms
proof (induction xs)
  case (Cons x xs)
  show ?case
  proof (cases "f x = t")
    case True
    then show ?thesis using Cons by simp
  next
    case False
    then have "t < f x" "\<forall>y\<in>set xs. t < f y" using Cons.prems by auto
    then have "filter (\<lambda>x. f x = t) xs = []" "filter (\<lambda>x. t < f x) xs = xs"
      by (auto simp: filter_empty_conv filter_id_conv)
    then show ?thesis using \<open>t < f x\<close> by simp
  qed
qed simp

lemma sorted_group:
  assumes "sorted (map ev_time (e # es))"
  shows "set (takeWhile (\<lambda>ev. ev_time ev = ev_time e) es) = {ev \<in> set es. ev_time ev = ev_time e}"
    and "set (dropWhile (\<lambda>ev. ev_time ev = ev_time e) es) = {ev \<in> set es. ev_time e < ev_time ev}"
    and "sorted (map ev_time (dropWhile (\<lambda>ev. ev_time ev = ev_time e) es))"
proof -
  have s: "sorted (map ev_time es)" "\<forall>x\<in>set es. ev_time e \<le> ev_time x" using assms by auto
  note split = sorted_takeWhile_eq [OF this]
  show "set (takeWhile (\<lambda>ev. ev_time ev = ev_time e) es) = {ev \<in> set es. ev_time ev = ev_time e}"
    and "set (dropWhile (\<lambda>ev. ev_time ev = ev_time e) es) = {ev \<in> set es. ev_time e < ev_time ev}"
    using split by simp_all
  show "sorted (map ev_time (dropWhile (\<lambda>ev. ev_time ev = ev_time e) es))"
    using split sorted_filter [OF s(1)] by simp
qed

text \<open>One step of the policy keeps the description of the metrics.\<close>

lemma consider_recovery_step:
  assumes g: "graph_ok g" "tracker_for g tr" "arrived tr = arrived_by E now"
    and now: "now \<in> ev_time ` set E" and m: "metrics_before g E costs now m"
    and run: "consider_recovery g costs now tr m = Inr m'"
  shows "metrics_before g E costs (now + 1) m'"
proof (cases "recovery_start_time m")
  case (Some s)
  then show ?thesis using m run by (auto simp: consider_recovery_def metrics_before_def)
next
  case None
  have d: "Evaluate g tr (costs now) = Inr (decision g (arrived_by E now) (costs now))"
    using Evaluate_arrived [OF g(1,2)] g(3) by simp
  have m0: "m = SimulationMetrics_default" "\<forall>u<now. \<not> recovers_at g E costs u"
    using m None by (simp_all add: metrics_before_def)
  show ?thesis
  proof (cases "recovers_at g E costs now")
    case True
    then have "decision g (arrived_by E now) (costs now) = Recover" by (simp add: recovers_at_def)
    then show ?thesis
      using run None d True m0
      by (auto simp: consider_recovery_def Let_def metrics_before_def split: if_splits)
  next
    case False
    then have "decision g (arrived_by E now) (costs now) \<noteq> Recover" using now by (simp add: recovers_at_def)
    then have "m' = m" using run None d by (simp add: consider_recovery_def Let_def)
    moreover have "\<forall>u<now + 1. \<not> recovers_at g E costs u"
      using m0(2) False by (metis zless_add1_eq)
    ultimately show ?thesis using None m0(1) by (simp add: metrics_before_def)
  qed
qed

text \<open>\<open>remaining_after\<close>: the list still to be processed holds exactly the events after \<open>T\<close>.\<close>

definition remaining_after :: "ShardArrivalEvent list \<Rightarrow> microseconds \<Rightarrow> ShardArrivalEvent list \<Rightarrow> bool" where
  "remaining_after E T es \<longleftrightarrow> sorted (map ev_time es) \<and> set es = {e \<in> set E. T < ev_time e}"

lemma remaining_after_step:
  assumes "remaining_after E T (e # es)"
  shows "remaining_after E (ev_time e) (dropWhile (\<lambda>ev. ev_time ev = ev_time e) es)"
    and "T < ev_time e" "ev_time e \<in> ev_time ` set E"
    and "arrived_by E (ev_time e) = arrived_by E T \<union>
      ev_shard ` set (e # takeWhile (\<lambda>ev. ev_time ev = ev_time e) es)"
    and "T \<le> u \<Longrightarrow> u < ev_time e \<Longrightarrow> arrived_by E u = arrived_by E T"
    and "T < u \<Longrightarrow> u < ev_time e \<Longrightarrow> u \<notin> ev_time ` set E"
proof -
  have sorted: "sorted (map ev_time (e # es))" and set: "insert e (set es) = {e \<in> set E. T < ev_time e}"
    using assms by (simp_all add: remaining_after_def)
  have e: "e \<in> set E" "T < ev_time e" using set by blast+
  then show "T < ev_time e" "ev_time e \<in> ev_time ` set E" by auto
  have later: "ev_time e \<le> ev_time x" if "x \<in> set E" "T < ev_time x" for x
  proof -
    have "x \<in> insert e (set es)" using set that by blast
    then show ?thesis using sorted by auto
  qed
  note group = sorted_group [OF sorted]
  show "remaining_after E (ev_time e) (dropWhile (\<lambda>ev. ev_time ev = ev_time e) es)"
  proof -
    have "{x \<in> set es. ev_time e < ev_time x} = {x \<in> insert e (set es). ev_time e < ev_time x}" by auto
    also have "\<dots> = {x \<in> set E. ev_time e < ev_time x}" unfolding set using e(2) by auto
    finally show ?thesis using group(2,3) by (simp add: remaining_after_def)
  qed
  show "arrived_by E (ev_time e) = arrived_by E T \<union>
      ev_shard ` set (e # takeWhile (\<lambda>ev. ev_time ev = ev_time e) es)"
  proof -
    have "{x \<in> set E. ev_time x \<le> ev_time e} = {x \<in> set E. ev_time x \<le> T} \<union> insert e {x \<in> set es. ev_time x = ev_time e}"
    proof (intro set_eqI iffI)
      fix x
      assume x: "x \<in> {x \<in> set E. ev_time x \<le> ev_time e}"
      show "x \<in> {x \<in> set E. ev_time x \<le> T} \<union> insert e {x \<in> set es. ev_time x = ev_time e}"
      proof (cases "ev_time x \<le> T")
        case False
        then have "x \<in> insert e (set es)" using set x by auto
        then show ?thesis using later [of x] x False by auto
      qed (use x in blast)
    next
      fix x
      assume "x \<in> {x \<in> set E. ev_time x \<le> T} \<union> insert e {x \<in> set es. ev_time x = ev_time e}"
      moreover have "set es \<subseteq> set E" using set by blast
      ultimately show "x \<in> {x \<in> set E. ev_time x \<le> ev_time e}" using e by auto
    qed
    then show ?thesis by (simp add: arrived_by_def group(1) image_Un)
  qed
  show "arrived_by E u = arrived_by E T" if "T \<le> u" "u < ev_time e"
  proof -
    have "{x \<in> set E. ev_time x \<le> u} = {x \<in> set E. ev_time x \<le> T}"
      using that later by fastforce
    then show ?thesis by (simp add: arrived_by_def)
  qed
  show "u \<notin> ev_time ` set E" if "T < u" "u < ev_time e"
    using that later by fastforce
qed

lemma complete_by_mono: "complete_by g E t \<Longrightarrow> t \<le> u \<Longrightarrow> complete_by g E u"
  by (fastforce simp: complete_by_def arrived_by_def)

lemma metrics_before_skip:
  assumes "metrics_before g E costs (T + 1) m" "T < t" "\<forall>u. T < u \<and> u < t \<longrightarrow> u \<notin> ev_time ` set E"
  shows "metrics_before g E costs t m"
proof -
  have "\<not> recovers_at g E costs u" if "\<forall>u<T + 1. \<not> recovers_at g E costs u" "u < t" for u
    using that assms(3) by (cases "u < T + 1") (auto simp: recovers_at_def)
  then show ?thesis
    using assms(1,2) by (auto simp: metrics_before_def split: option.splits)
qed

text \<open>The result of the loop: the first instant at which the systematic shards are complete.\<close>

lemma run_groups_spec:
  assumes "graph_ok g" "run_groups g costs es tr m = Inr (natural, m')"
    and "remaining_after E T es" "tracker_for g tr" "arrived tr = arrived_by E T"
    and "\<not> complete_by g E T" "metrics_before g E costs (T + 1) m"
  shows "case natural of
      None \<Rightarrow> \<forall>t. \<not> complete_by g E t
    | Some t \<Rightarrow> 0 \<le> t \<and> t \<in> ev_time ` set E \<and> complete_by g E t \<and> (\<forall>u<t. \<not> complete_by g E u) \<and>
        metrics_before g E costs t m'"
  using assms
proof (induction g costs es tr m arbitrary: T rule: run_groups.induct)
  case (1 g costs tr m)
  have "arrived_by E t \<subseteq> arrived_by E T" for t
    using "1.prems"(3) by (fastforce simp: remaining_after_def arrived_by_def)
  then have "\<not> complete_by g E t" for t
    using "1.prems"(6) by (auto simp: complete_by_def)
  then show ?case using "1.prems"(2) by simp
next
  case (2 g costs e es tr m)
  let ?now = "ev_time e"
  note step = remaining_after_step [OF "2.prems"(3)]
  obtain tr' where now: "\<not> ?now < 0" and mark: "foldE (\<lambda>ev. MarkArrived (ev_shard ev) (logical_time ?now))
      (e # takeWhile (\<lambda>ev. ev_time ev = ?now) es) tr = Inr tr'"
    using "2.prems"(2) by (auto simp: Let_def bindE_eq_Inr split: if_splits)
  have tr': "tracker_for g tr'" "arrived tr' = arrived_by E ?now"
    using mark_group(1) [OF "2.prems"(4) mark] step(4) "2.prems"(5) by auto
  have before: "\<not> complete_by g E u" if "u < ?now" for u
  proof (cases "u \<le> T")
    case True
    then show ?thesis using complete_by_mono "2.prems"(6) by blast
  next
    case False
    then show ?thesis using step(5) [of u] that "2.prems"(6) by (simp add: complete_by_def)
  qed
  have m: "metrics_before g E costs ?now m"
    using metrics_before_skip [OF "2.prems"(7) step(2)] step(6) by blast
  show ?case
  proof (cases "IsSystematicComplete tr'")
    case True
    then have "natural = Some ?now \<and> m' = m"
      using "2.prems"(2) now mark by (simp add: Let_def del: foldE.simps)
    moreover have "complete_by g E ?now"
      using True IsSystematicComplete_arrived [OF tr'(1)] tr'(2) by (simp add: complete_by_missing)
    ultimately show ?thesis using before m now step(3) by simp
  next
    case False
    obtain m1 where m1: "consider_recovery g costs ?now tr' m = Inr m1"
        "run_groups g costs (dropWhile (\<lambda>ev. ev_time ev = ?now) es) tr' m1 = Inr (natural, m')"
      using "2.prems"(2) now mark False by (auto simp: Let_def bindE_eq_Inr simp del: foldE.simps)
    have "\<not> complete_by g E ?now"
      using False IsSystematicComplete_arrived [OF tr'(1)] tr'(2) by (simp add: complete_by_missing)
    moreover have "metrics_before g E costs (?now + 1) m1"
      by (rule consider_recovery_step [OF "2.prems"(1) tr' step(3) m m1(1)])
    ultimately show ?thesis
      using "2.IH" [OF refl now mark False m1(1) "2.prems"(1) m1(2) step(1) tr'] by blast
  qed
qed

text \<open>The loop does not throw on arrivals of known shards at non-negative times.\<close>

lemma run_groups_total:
  assumes "graph_ok g" "tracker_for g tr" "sorted (map ev_time es)"
    and "\<forall>e\<in>set es. 0 \<le> ev_time e \<and> unat (ev_shard e) < systematic_shard_count g + parity_shard_count g"
    and "\<forall>t. 0 \<le> expected_recovery_cost (costs t)"
  shows "\<exists>r. run_groups g costs es tr m = Inr r"
  using assms
proof (induction g costs es tr m rule: run_groups.induct)
  case (1 g costs tr m)
  then show ?case by simp
next
  case (2 g costs e es tr m)
  let ?now = "ev_time e"
  have now: "\<not> ?now < 0" using "2.prems"(4) by auto
  have "\<forall>ev\<in>set (e # takeWhile (\<lambda>ev. ev_time ev = ?now) es).
      unat (ev_shard ev) < systematic_shard_count g + parity_shard_count g"
    using "2.prems"(4) by (auto dest: set_takeWhileD)
  then obtain tr' where mark: "foldE (\<lambda>ev. MarkArrived (ev_shard ev) (logical_time ?now))
      (e # takeWhile (\<lambda>ev. ev_time ev = ?now) es) tr = Inr tr'"
    using mark_group(2) [OF "2.prems"(2)] by blast
  have tr': "tracker_for g tr'" using mark_group(1) [OF "2.prems"(2) mark] by blast
  show ?case
  proof (cases "IsSystematicComplete tr'")
    case True
    then show ?thesis using now mark by (simp add: Let_def del: foldE.simps)
  next
    case False
    have "\<not> expected_recovery_cost (costs ?now) < 0" using "2.prems"(5) by (simp add: not_less)
    then have "\<exists>m1. consider_recovery g costs ?now tr' m = Inr m1"
      by (simp add: consider_recovery_def Let_def Evaluate_arrived [OF "2.prems"(1) tr'])
    then obtain m1 where m1: "consider_recovery g costs ?now tr' m = Inr m1" ..
    have "\<exists>r. run_groups g costs (dropWhile (\<lambda>ev. ev_time ev = ?now) es) tr' m1 = Inr r"
      using "2.IH" [OF refl now mark False m1 "2.prems"(1) tr' sorted_group(3) [OF "2.prems"(3)] _ "2.prems"(5)]
        "2.prems"(4) by (auto dest: set_dropWhileD)
    then show ?thesis using now mark False m1 by (simp add: Let_def del: foldE.simps)
  qed
qed

section \<open>Runs\<close>

lemma RequestSimulation_new_Inr:
  assumes "omap_ok (parity_to_systematic g)"
  shows "RequestSimulation_new g events (Some costs) = Inr sim \<longleftrightarrow>
    graph_ok g \<and> sim = \<lparr>sim_graph = g, sim_events = events, sim_get_costs = costs\<rparr>"
  by (auto simp: RequestSimulation_new_def bindE_eq_Inr RecoveryPolicy_new_Inr [OF assms])

lemma Run_outcome:
  assumes "graph_ok g" "RequestSimulation_Run \<lparr>sim_graph = g, sim_events = events, sim_get_costs = costs\<rparr> = Inr m"
  obtains t m' where "t \<in> ev_time ` set events" "complete_by g events t" "\<forall>u<t. \<not> complete_by g events u"
    "metrics_before g events costs t m'" "finish_run (Some t) m' = Inr m"
proof -
  obtain tr natural m' where run: "ShardArrivalTracker_new (systematic_shard_count g) (parity_shard_count g) = Inr tr"
      "run_groups g costs (sort_key ev_time events) tr SimulationMetrics_default = Inr (natural, m')"
      "finish_run natural m' = Inr m"
    using assms(2) by (auto simp: RequestSimulation_Run_def bindE_eq_Inr)
  have tr: "tracker_for g tr" "arrived tr = {}" using tracker_for_new [OF assms(1)] run(1) by auto
  define T where "T = Min (insert 0 (ev_time ` set events)) - 1"
  have later: "T < ev_time e" if "e \<in> set events" for e
  proof -
    have "Min (insert 0 (ev_time ` set events)) \<le> ev_time e" using that by (intro Min_le) auto
    then show ?thesis by (simp add: T_def)
  qed
  have none: "arrived_by events u = {}" if "u \<le> T" for u
    using later that by (fastforce simp: arrived_by_def)
  have "remaining_after events T (sort_key ev_time events)"
    using later by (auto simp: remaining_after_def)
  moreover have "0 < systematic_shard_count g" using assms(1) by (simp add: graph_ok_def)
  then have "\<not> complete_by g events T"
    using none [of T] by (auto simp: complete_by_def intro!: exI [of _ 0])
  moreover have "metrics_before g events costs (T + 1) SimulationMetrics_default"
  proof -
    have "u \<notin> ev_time ` set events" if "u < T + 1" for u using later that by fastforce
    then show ?thesis by (simp add: metrics_before_def SimulationMetrics_default_def recovers_at_def)
  qed
  ultimately have "case natural of
      None \<Rightarrow> \<forall>t. \<not> complete_by g events t
    | Some t \<Rightarrow> 0 \<le> t \<and> t \<in> ev_time ` set events \<and> complete_by g events t \<and>
        (\<forall>u<t. \<not> complete_by g events u) \<and> metrics_before g events costs t m'"
    using run_groups_spec [OF assms(1) run(2) _ tr(1)] tr(2) none by simp
  moreover obtain t where "natural = Some t" using run(3) by (cases natural) (auto simp: finish_run_def)
  ultimately show ?thesis by (intro that [of t m']) (use run(3) in simp_all)
qed

lemma finish_run_Some: "\<exists>m. finish_run (Some t) m' = Inr m"
  by (auto simp: finish_run_def Let_def split: option.split)

lemma Run_total:
  assumes g: "graph_ok g"
    and ev: "\<forall>e\<in>set events. 0 \<le> ev_time e \<and> unat (ev_shard e) < systematic_shard_count g + parity_shard_count g"
    and all: "\<forall>i. unat i < systematic_shard_count g \<longrightarrow> i \<in> ev_shard ` set events"
    and costs: "\<forall>t. 0 \<le> expected_recovery_cost (costs t)"
  shows "\<exists>m. RequestSimulation_Run \<lparr>sim_graph = g, sim_events = events, sim_get_costs = costs\<rparr> = Inr m"
proof -
  obtain tr where tr: "ShardArrivalTracker_new (systematic_shard_count g) (parity_shard_count g) = Inr tr"
      "tracker_for g tr" "arrived tr = {}"
    using tracker_for_new [OF g] by blast
  obtain natural m' where run: "run_groups g costs (sort_key ev_time events) tr SimulationMetrics_default = Inr (natural, m')"
    using run_groups_total [OF g tr(2), of "sort_key ev_time events" costs SimulationMetrics_default] ev costs
    by auto
  have none: "arrived_by events u = {}" if "u < 0" for u
    using ev that by (fastforce simp: arrived_by_def)
  define T :: int where "T = Max (insert 0 (ev_time ` set events))"
  have complete: "complete_by g events T"
  proof -
    have "ev_time e \<le> T" if "e \<in> set events" for e
      unfolding T_def using that by (intro Max_ge) auto
    then show ?thesis using all by (fastforce simp: complete_by_def arrived_by_def)
  qed
  have "0 < systematic_shard_count g" using g by (simp add: graph_ok_def)
  then have start: "\<not> complete_by g events (- 1)"
    using none [of "- 1"] by (auto simp: complete_by_def intro!: exI [of _ 0])
  have metrics: "metrics_before g events costs (- 1 + 1) SimulationMetrics_default"
    using ev by (fastforce simp: metrics_before_def SimulationMetrics_default_def recovers_at_def)
  have rem: "remaining_after events (- 1) (sort_key ev_time events)"
    using ev by (fastforce simp: remaining_after_def)
  have empty: "arrived tr = arrived_by events (- 1)" using tr(3) none by simp
  obtain t where "natural = Some t"
  proof (cases natural)
    case None
    then have "\<not> complete_by g events T"
      using run_groups_spec [OF g run rem tr(2) empty start metrics] by simp
    then show ?thesis using complete by blast
  qed
  then show ?thesis
    using tr(1) run finish_run_Some by (simp add: RequestSimulation_Run_def)
qed

text \<open>The first complete instant is the latest of the shards' earliest arrivals.\<close>

definition earliest_arrival :: "ShardArrivalEvent list \<Rightarrow> nat \<Rightarrow> microseconds" where
  "earliest_arrival events n = Min (ev_time ` {e \<in> set events. ev_shard e = of_nat n})"

lemma first_complete_is_Max:
  assumes g: "graph_ok g" and t: "complete_by g events t" "\<forall>u<t. \<not> complete_by g events u"
  shows "t = Max (earliest_arrival events ` {0..<systematic_shard_count g})"
proof -
  let ?k = "systematic_shard_count g"
  have k: "0 < ?k" "?k \<le> 2 ^ 32" using g by (auto simp: graph_ok_def)
  have min: "earliest_arrival events n \<le> u \<longleftrightarrow> of_nat n \<in> arrived_by events u" if "n < ?k" for n u
  proof -
    have "unat (of_nat n :: ShardId) < ?k" using that k by (simp add: unat_of_nat_ShardId)
    then have "of_nat n \<in> arrived_by events t" using t(1) by (simp add: complete_by_def)
    then have "{e \<in> set events. ev_shard e = of_nat n} \<noteq> {}" by (auto simp: arrived_by_def)
    then show ?thesis by (auto simp: earliest_arrival_def arrived_by_def Min_le_iff image_iff)
  qed
  have comp: "complete_by g events u \<longleftrightarrow> (\<forall>n<?k. earliest_arrival events n \<le> u)" for u
  proof
    assume c: "complete_by g events u"
    show "\<forall>n<?k. earliest_arrival events n \<le> u"
      using c min k by (simp add: complete_by_def unat_of_nat_ShardId)
  next
    assume "\<forall>n<?k. earliest_arrival events n \<le> u"
    then show "complete_by g events u" using min by (metis complete_by_def of_nat_unat_ShardId)
  qed
  have "complete_by g events (Max (earliest_arrival events ` {0..<?k}))"
    unfolding comp by (auto intro!: Max_ge)
  moreover have "Max (earliest_arrival events ` {0..<?k}) \<le> t"
    using t(1) k(1) by (simp add: comp)
  ultimately show ?thesis using t(2) by (meson leD linorder_neqE)
qed

section \<open>Properties\<close>

text \<open>
  C17. When a simulation returns, its natural completion time is the latest over the systematic
  shards of their earliest arrival; recovery starts at the first arrival instant before that at
  which the policy decides to recover, if there is one; the final latency is the earlier of the two
  completions and recovery wins only when it is strictly earlier.
\<close>

theorem simulation_outcome:
  assumes "omap_ok (parity_to_systematic g)" "RequestSimulation_new g events (Some costs) = Inr sim"
    and "RequestSimulation_Run sim = Inr m"
  shows "natural_completion_time m = Max (earliest_arrival events ` {0..<systematic_shard_count g}) \<and>
    (\<forall>s. recovery_start_time m = Some s \<longleftrightarrow> s < natural_completion_time m \<and>
       recovers_at g events costs s \<and> (\<forall>u < s. \<not> recovers_at g events costs u)) \<and>
    recovery_completion_time m
      = map_option (\<lambda>s. s + expected_recovery_cost (costs s)) (recovery_start_time m) \<and>
    final_latency m = (case recovery_completion_time m of
       None \<Rightarrow> natural_completion_time m | Some c \<Rightarrow> min c (natural_completion_time m)) \<and>
    (recovery_won m \<longleftrightarrow> (\<exists>c. recovery_completion_time m = Some c \<and> c < natural_completion_time m))"
proof -
  have g: "graph_ok g" "sim = \<lparr>sim_graph = g, sim_events = events, sim_get_costs = costs\<rparr>"
    using assms(2) RequestSimulation_new_Inr [OF assms(1)] by blast+
  have run: "RequestSimulation_Run \<lparr>sim_graph = g, sim_events = events, sim_get_costs = costs\<rparr> = Inr m"
    using assms(3) g(2) by simp
  obtain t m' where o: "complete_by g events t" "\<forall>u<t. \<not> complete_by g events u"
      "metrics_before g events costs t m'" "finish_run (Some t) m' = Inr m"
    by (rule Run_outcome [OF g(1) run]) (rule that)
  have t: "t = Max (earliest_arrival events ` {0..<systematic_shard_count g})"
    by (rule first_complete_is_Max [OF g(1) o(1,2)])
  have m: "natural_completion_time m = t" "recovery_start_time m = recovery_start_time m'"
      "recovery_completion_time m = recovery_completion_time m'"
      "final_latency m = (case recovery_completion_time m' of None \<Rightarrow> t | Some c \<Rightarrow> min c t)"
      "recovery_won m \<longleftrightarrow> recovery_won m' \<or> (\<exists>c. recovery_completion_time m' = Some c \<and> c < t)"
    using o(4) by (auto simp: finish_run_def Let_def min_def split: option.splits if_splits)
  show ?thesis
  proof (cases "recovery_start_time m'")
    case None
    then have m': "m' = SimulationMetrics_default" "\<forall>u<t. \<not> recovers_at g events costs u"
      using o(3) by (simp_all add: metrics_before_def)
    then show ?thesis using m t None by (auto simp: SimulationMetrics_default_def)
  next
    case (Some s)
    then have m': "m' = SimulationMetrics_default\<lparr>recovery_start_time := Some s,
            recovery_completion_time := Some (s + expected_recovery_cost (costs s))\<rparr>"
        "s < t" "recovers_at g events costs s" "\<forall>u < s. \<not> recovers_at g events costs u"
      using o(3) by (simp_all add: metrics_before_def)
    have "s = s' \<longleftrightarrow> s' < t \<and> recovers_at g events costs s' \<and> (\<forall>u < s'. \<not> recovers_at g events costs u)" for s'
      using m'(2-4) by (meson linorder_neqE)
    then show ?thesis
      using m t by (simp add: m'(1) SimulationMetrics_default_def)
  qed
qed

text \<open>
  A simulation returns on every schedule in which all arrivals have known shard identifiers and
  non-negative times, every systematic shard arrives, and recovery costs are not negative.
\<close>

theorem simulation_returns:
  assumes "omap_ok (parity_to_systematic g)" "RequestSimulation_new g events (Some costs) = Inr sim"
    and "\<forall>e\<in>set events. 0 \<le> ev_time e \<and> unat (ev_shard e) < systematic_shard_count g + parity_shard_count g"
    and "\<forall>i. unat i < systematic_shard_count g \<longrightarrow> i \<in> ev_shard ` set events"
    and "\<forall>t. 0 \<le> expected_recovery_cost (costs t)"
  shows "\<exists>m. RequestSimulation_Run sim = Inr m"
  using assms RequestSimulation_new_Inr [OF assms(1)] Run_total [OF _ assms(3,4), of costs] by auto

text \<open>A schedule on which recovery wins, for the witnesses.\<close>

definition example_events :: "ShardArrivalEvent list" where
  "example_events = [\<lparr>ev_shard = 0, ev_time = 20\<rparr>, \<lparr>ev_shard = 3, ev_time = 2\<rparr>,
     \<lparr>ev_shard = 1, ev_time = 1\<rparr>, \<lparr>ev_shard = 2, ev_time = 5\<rparr>]"

definition example_costs :: "microseconds \<Rightarrow> CostEstimates" where
  "example_costs t = \<lparr>expected_wait_remaining = 10, expected_recovery_cost = 7\<rparr>"

lemma example_simulation:
  "RequestSimulation_new example_graph example_events (Some example_costs)
    = Inr \<lparr>sim_graph = example_graph, sim_events = example_events, sim_get_costs = example_costs\<rparr>"
  using RequestSimulation_new_Inr [OF example_graph_valid(1)] example_graph_ok by blast

lemma example_schedule:
  "\<forall>e\<in>set example_events. 0 \<le> ev_time e \<and>
     unat (ev_shard e) < systematic_shard_count example_graph + parity_shard_count example_graph"
  "\<forall>i. unat i < systematic_shard_count example_graph \<longrightarrow> i \<in> ev_shard ` set example_events"
  "\<forall>t. 0 \<le> expected_recovery_cost (example_costs t)"
proof -
  show "\<forall>e\<in>set example_events. 0 \<le> ev_time e \<and>
     unat (ev_shard e) < systematic_shard_count example_graph + parity_shard_count example_graph"
    by (simp add: example_events_def example_graph_def)
  show "\<forall>t. 0 \<le> expected_recovery_cost (example_costs t)" by (simp add: example_costs_def)
  have "i = 0 \<or> i = 1 \<or> i = 2" if "unat i < 3" for i :: ShardId
  proof -
    have "unat i = 0 \<or> unat i = 1 \<or> unat i = 2" using that by auto
    then have "i = of_nat 0 \<or> i = of_nat 1 \<or> i = of_nat 2" by (metis of_nat_unat_ShardId)
    then show ?thesis by simp
  qed
  then show "\<forall>i. unat i < systematic_shard_count example_graph \<longrightarrow> i \<in> ev_shard ` set example_events"
    by (fastforce simp: example_events_def example_graph_def)
qed

theorem simulation_returns_witness:
  "\<exists>m. RequestSimulation_Run
     \<lparr>sim_graph = example_graph, sim_events = example_events, sim_get_costs = example_costs\<rparr> = Inr m"
  by (rule simulation_returns [OF example_graph_valid(1) example_simulation example_schedule])

theorem simulation_outcome_witness:
  "\<exists>m. RequestSimulation_Run
     \<lparr>sim_graph = example_graph, sim_events = example_events, sim_get_costs = example_costs\<rparr> = Inr m \<and>
     natural_completion_time m = 20"
proof -
  obtain m where m: "RequestSimulation_Run
     \<lparr>sim_graph = example_graph, sim_events = example_events, sim_get_costs = example_costs\<rparr> = Inr m"
    using Run_total [OF example_graph_ok example_schedule] by blast
  have "ev_time ` {e \<in> set example_events. ev_shard e = 0} = {20}"
    "ev_time ` {e \<in> set example_events. ev_shard e = 1} = {1}"
    "ev_time ` {e \<in> set example_events. ev_shard e = 2} = {5}"
    by (force simp: example_events_def)+
  then have "earliest_arrival example_events ` {0..<systematic_shard_count example_graph} = {20, 1, 5}"
    by (simp add: example_graph_def earliest_arrival_def numeral_3_eq_3 atLeast0_lessThan_Suc insert_commute)
  then show ?thesis
    using simulation_outcome [OF example_graph_valid(1) example_simulation m] m by simp
qed

end
