(* ===== verification/ClusterSimulator.thy ===== *)
theory ClusterSimulator imports Simulator RecoveryQueue "HOL-Library.Product_Lexorder" begin

text \<open>
  \<open>include/codedllm/simulation/cluster_simulator.hpp\<close> and \<open>src/simulation/cluster_simulator.cpp\<close>:
  many requests competing for one recovery queue. The \<open>std::map\<close>s of \<open>Run\<close> are the fields of
  \<open>ClusterState\<close>; the three nested loops are \<open>run_times\<close> (one iteration per instant),
  \<open>run_requests\<close> (one per request at that instant) and the marking of its arrivals. \<open>std::sort\<close> by
  (time, request, shard) is a stable sort: events it could exchange are equal, or belong to one
  request with two start times, which \<open>Run\<close> rejects. The estimator and the wait-cost oracle are
  parameters that may throw.

  An execution that throws leaves the simulator object in an unspecified state here: the result is
  only the exception.
\<close>

record GlobalArrivalEvent =
  ge_time :: microseconds
  ge_request :: RequestId
  ge_shard :: ShardId
  ge_start :: microseconds

record RequestMetrics =
  latency :: microseconds
  rm_won :: bool
  rm_admitted :: bool
  rm_rejected :: bool
  rm_waited :: bool
  rm_unrecoverable :: bool

type_synonym service_estimator = "DecodePlan \<Rightarrow> microseconds result"
type_synonym wait_oracle = "RequestId \<Rightarrow> microseconds \<Rightarrow> microseconds result"

record ClusterSimulator =
  cs_graph :: BipartiteGraph
  cs_queue :: RecoveryQueue
  cs_estimate :: service_estimator

definition ClusterSimulator_new ::
  "BipartiteGraph \<Rightarrow> RecoveryQueue \<Rightarrow> service_estimator option \<Rightarrow> ClusterSimulator result" where
  "ClusterSimulator_new g q estimate =
     bindE (RecoveryPolicy_new g) (\<lambda>policy_graph.
       case estimate of
         None \<Rightarrow> Inl (InvalidArgument ''ClusterSimulator requires a recovery-cost estimator'')
       | Some est \<Rightarrow> Inr \<lparr>cs_graph = policy_graph, cs_queue = q, cs_estimate = est\<rparr>)"

section \<open>The state of a run\<close>

record ClusterState =
  cl_queue :: RecoveryQueue
  cl_trackers :: "(RequestId, ShardArrivalTracker) omap"
  cl_natural :: "(RequestId, microseconds) omap"
  cl_recovery :: "(RequestId, microseconds) omap"
  cl_rejected :: "(RequestId, bool) omap"
  cl_waited :: "(RequestId, bool) omap"
  cl_unrecoverable :: "(RequestId, bool) omap"

definition event_key :: "GlobalArrivalEvent \<Rightarrow> microseconds \<times> RequestId \<times> ShardId" where
  "event_key e = (ge_time e, ge_request e, ge_shard e)"

definition sort_events :: "GlobalArrivalEvent list \<Rightarrow> GlobalArrivalEvent list" where
  "sort_events = sort_key event_key"

text \<open>The first loop: a tracker and a start time per request, and the checks on the events.\<close>

definition prepare_event ::
  "nat \<Rightarrow> nat \<Rightarrow> GlobalArrivalEvent \<Rightarrow>
   (RequestId, ShardArrivalTracker) omap \<times> (RequestId, microseconds) omap \<Rightarrow>
   ((RequestId, ShardArrivalTracker) omap \<times> (RequestId, microseconds) omap) result" where
  "prepare_event k m e st =
     (case st of (trackers, starts) \<Rightarrow>
       bindE (case omap_find trackers (ge_request e) of
                Some _ \<Rightarrow> Inr trackers
              | None \<Rightarrow> bindE (ShardArrivalTracker_new k m)
                  (\<lambda>tracker. Inr (omap_emplace (ge_request e) tracker trackers))) (\<lambda>trackers'.
       bindE (case omap_find starts (ge_request e) of
                Some start \<Rightarrow>
                  if start \<noteq> ge_start e
                  then Inl (InvalidArgument ''Events for one request must share a request start time'')
                  else Inr starts
              | None \<Rightarrow> Inr (omap_emplace (ge_request e) (ge_start e) starts)) (\<lambda>starts'.
       if ge_time e < ge_start e
       then Inl (InvalidArgument ''Shard arrival must not precede its request start'')
       else Inr (trackers', starts'))))"

text \<open>\<open>map.at(key)\<close>\<close>

definition omap_at :: "('k, 'v) omap \<Rightarrow> 'k \<Rightarrow> 'v result" where
  "omap_at m k = (case omap_find m k of None \<Rightarrow> Inl OutOfRange | Some v \<Rightarrow> Inr v)"

section \<open>The event loop\<close>

text \<open>What happens to a request whose recovery has not been admitted, after its arrivals are marked.\<close>

definition consider_admission ::
  "ClusterSimulator \<Rightarrow> wait_oracle \<Rightarrow> microseconds \<Rightarrow> RequestId \<Rightarrow> ShardArrivalTracker \<Rightarrow>
   ClusterState \<Rightarrow> ClusterState result" where
  "consider_admission sim get_wait now r tracker st =
     bindE (RecoveryPolicy_CreatePlan (cs_graph sim) tracker) (\<lambda>plan.
       if \<not> is_recoverable plan
       then Inr (st\<lparr>cl_unrecoverable := omap_assign r True (cl_unrecoverable st)\<rparr>)
       else bindE (cs_estimate sim plan) (\<lambda>service_time.
         bindE (GetExpectedRecoveryCost now service_time (cl_queue st)) (\<lambda>recovery_cost.
           case recovery_cost of
             None \<Rightarrow> Inr (st\<lparr>cl_rejected := omap_assign r True (cl_rejected st)\<rparr>)
           | Some cost \<Rightarrow>
               bindE (get_wait r now) (\<lambda>wait_cost.
                 if wait_cost < 0
                 then Inl (InvalidArgument ''Expected wait cost must not be negative'')
                 else (case Evaluate_plan plan
                     \<lparr>expected_wait_remaining = wait_cost, expected_recovery_cost = cost\<rparr> of
                   Recover \<Rightarrow>
                     bindE (SubmitJob now service_time (cl_queue st)) (\<lambda>(accepted, queue').
                       if \<not> accepted
                       then Inr (st\<lparr>cl_queue := queue', cl_rejected := omap_assign r True (cl_rejected st)\<rparr>)
                       else Inr (st\<lparr>cl_queue := queue',
                              cl_recovery := omap_emplace r (now + cost) (cl_recovery st)\<rparr>))
                 | Wait \<Rightarrow> Inr (st\<lparr>cl_waited := omap_assign r True (cl_waited st)\<rparr>)
                 | Unrecoverable_decision \<Rightarrow>
                     Inr (st\<lparr>cl_unrecoverable := omap_assign r True (cl_unrecoverable st)\<rparr>))))))"

text \<open>One request at one instant: mark its group of arrivals, then decide.\<close>

definition handle_request ::
  "ClusterSimulator \<Rightarrow> wait_oracle \<Rightarrow> microseconds \<Rightarrow> RequestId \<Rightarrow> GlobalArrivalEvent list \<Rightarrow>
   ClusterState \<Rightarrow> ClusterState result" where
  "handle_request sim get_wait now r evs st =
     bindE (omap_at (cl_trackers st) r) (\<lambda>tracker.
     bindE (foldE (\<lambda>e. MarkArrived (ge_shard e) (logical_time now)) evs tracker) (\<lambda>tracker'.
       let st' = st\<lparr>cl_trackers := omap_assign r tracker' (cl_trackers st)\<rparr> in
       if IsSystematicComplete tracker'
       then Inr (st'\<lparr>cl_natural := omap_emplace r now (cl_natural st')\<rparr>)
       else if omap_find (cl_recovery st') r \<noteq> None then Inr st'
       else consider_admission sim get_wait now r tracker' st'))"

function run_requests ::
  "ClusterSimulator \<Rightarrow> wait_oracle \<Rightarrow> microseconds \<Rightarrow> GlobalArrivalEvent list \<Rightarrow>
   ClusterState \<Rightarrow> ClusterState result" where
  "run_requests sim get_wait now [] st = Inr st"
| "run_requests sim get_wait now (e # es) st =
     bindE (handle_request sim get_wait now (ge_request e)
              (e # takeWhile (\<lambda>e'. ge_request e' = ge_request e) es) st)
       (run_requests sim get_wait now (dropWhile (\<lambda>e'. ge_request e' = ge_request e) es))"
  by pat_completeness auto
termination
  by (relation "measure (\<lambda>(sim, get_wait, now, es, st). length es)")
    (auto simp: le_imp_less_Suc length_dropWhile_le)

function run_times ::
  "ClusterSimulator \<Rightarrow> wait_oracle \<Rightarrow> GlobalArrivalEvent list \<Rightarrow> ClusterState \<Rightarrow> ClusterState result" where
  "run_times sim get_wait [] st = Inr st"
| "run_times sim get_wait (e # es) st =
     (let now = ge_time e in
      if now < 0 then Inl (InvalidArgument ''Shard arrival times must not be negative'')
      else bindE (AdvanceTime now (cl_queue st)) (\<lambda>queue'.
        bindE (run_requests sim get_wait now (e # takeWhile (\<lambda>e'. ge_time e' = now) es)
                 (st\<lparr>cl_queue := queue'\<rparr>))
          (run_times sim get_wait (dropWhile (\<lambda>e'. ge_time e' = now) es))))"
  by pat_completeness auto
termination
  by (relation "measure (\<lambda>(sim, get_wait, es, st). length es)")
    (auto simp: le_imp_less_Suc length_dropWhile_le)

section \<open>The metrics\<close>

text \<open>\<open>flags[request_id]\<close>: an absent flag reads as \<open>false\<close>.\<close>

definition flag_of :: "(RequestId, bool) omap \<Rightarrow> RequestId \<Rightarrow> bool" where
  "flag_of flags r = (case omap_find flags r of None \<Rightarrow> False | Some b \<Rightarrow> b)"

definition request_metrics ::
  "(RequestId, microseconds) omap \<Rightarrow> ClusterState \<Rightarrow> RequestId \<Rightarrow> RequestMetrics result" where
  "request_metrics starts st r =
     (case omap_find (cl_natural st) r of
        None \<Rightarrow> Inl (RuntimeError ''Simulation requires a natural arrival for every systematic shard'')
      | Some natural \<Rightarrow>
          bindE (omap_at starts r) (\<lambda>start.
            let m = \<lparr>latency = natural - start, rm_won = False,
                     rm_admitted = (omap_find (cl_recovery st) r \<noteq> None),
                     rm_rejected = flag_of (cl_rejected st) r, rm_waited = flag_of (cl_waited st) r,
                     rm_unrecoverable = flag_of (cl_unrecoverable st) r\<rparr>
            in case omap_find (cl_recovery st) r of
                 Some c \<Rightarrow> if c < natural then Inr (m\<lparr>latency := c - start, rm_won := True\<rparr>) else Inr m
               | None \<Rightarrow> Inr m))"

definition ClusterSimulator_Run ::
  "ClusterSimulator \<Rightarrow> GlobalArrivalEvent list \<Rightarrow> wait_oracle option \<Rightarrow>
   ((RequestId, RequestMetrics) omap \<times> ClusterSimulator) result" where
  "ClusterSimulator_Run sim events oracle =
     (case oracle of
        None \<Rightarrow> Inl (InvalidArgument ''ClusterSimulator requires a wait-cost oracle'')
      | Some get_wait \<Rightarrow>
          (let sorted_events = sort_events events; g = cs_graph sim in
           bindE (foldE (prepare_event (systematic_shard_count g) (parity_shard_count g))
                    sorted_events ([], [])) (\<lambda>(trackers, starts).
           bindE (run_times sim get_wait sorted_events
                    \<lparr>cl_queue = cs_queue sim, cl_trackers = trackers, cl_natural = [], cl_recovery = [],
                     cl_rejected = [], cl_waited = [], cl_unrecoverable = []\<rparr>) (\<lambda>st.
           bindE (foldE (\<lambda>(r, tracker) metrics. bindE (request_metrics starts st r)
                     (\<lambda>m. Inr (omap_emplace r m metrics))) (cl_trackers st) []) (\<lambda>metrics.
           Inr (metrics, sim\<lparr>cs_queue := cl_queue st\<rparr>))))))"

section \<open>One request among many\<close>

text \<open>The events of one request, as the events of a single-request simulation.\<close>

definition events_of :: "GlobalArrivalEvent list \<Rightarrow> RequestId \<Rightarrow> ShardArrivalEvent list" where
  "events_of E r = map (\<lambda>e. \<lparr>ev_shard = ge_shard e, ev_time = ge_time e\<rparr>)
     (filter (\<lambda>e. ge_request e = r) E)"

lemma events_of_append [simp]: "events_of (P @ Q) r = events_of P r @ events_of Q r"
  by (simp add: events_of_def)

lemma events_of_Nil [simp]: "events_of [] r = []"
  by (simp add: events_of_def)

lemma events_of_other: "\<forall>e\<in>set Q. ge_request e \<noteq> r \<Longrightarrow> events_of Q r = []"
  by (simp add: events_of_def filter_empty_conv)

lemma set_events_of:
  "set (events_of E r) = (\<lambda>e. \<lparr>ev_shard = ge_shard e, ev_time = ge_time e\<rparr>) ` {e \<in> set E. ge_request e = r}"
  by (auto simp: events_of_def)

definition first_complete ::
  "BipartiteGraph \<Rightarrow> ShardArrivalEvent list \<Rightarrow> microseconds option \<Rightarrow> bool" where
  "first_complete g evs natural \<longleftrightarrow>
     (case natural of
        None \<Rightarrow> \<forall>t. \<not> complete_by g evs t
      | Some t \<Rightarrow> t \<in> ev_time ` set evs \<and> complete_by g evs t \<and> (\<forall>u<t. \<not> complete_by g evs u))"

text \<open>
  An admitted recovery: at an arrival instant \<open>s\<close> before completion the planner had a plan, its
  price exceeded the plan's service time by at most the wait for a slot, and it beat the expected wait.
\<close>

definition admission_ok ::
  "BipartiteGraph \<Rightarrow> service_estimator \<Rightarrow> (microseconds \<Rightarrow> microseconds result) \<Rightarrow>
   ShardArrivalEvent list \<Rightarrow> microseconds \<Rightarrow> bool" where
  "admission_ok g estimate wait evs c \<longleftrightarrow>
     (\<exists>s\<in>ev_time ` set evs. \<exists>plan service w. \<not> complete_by g evs s \<and>
        CreatePlan g (missing_shards g (arrived_by evs s)) (available_parities g (arrived_by evs s)) = Inr plan \<and>
        is_recoverable plan \<and> estimate plan = Inr service \<and> wait s = Inr w \<and>
        0 < service \<and> s + service \<le> c \<and> c < s + w)"

lemma arrived_by_extend:
  assumes "\<forall>e\<in>set evs'. ev_time e = now"
  shows "t < now \<Longrightarrow> arrived_by (evs @ evs') t = arrived_by evs t"
    and "\<forall>e\<in>set evs. ev_time e < now \<Longrightarrow> now \<le> t \<Longrightarrow>
      arrived_by (evs @ evs') t = ev_shard ` set (evs @ evs')"
  using assms by (fastforce simp: arrived_by_def)+

lemma complete_by_arrived:
  "complete_by g evs t \<longleftrightarrow> missing_shards g (arrived_by evs t) = {}"
  by (rule complete_by_missing)

lemma first_complete_extend:
  assumes fc: "first_complete g evs natural" and before: "\<forall>e\<in>set evs. ev_time e < now"
    and at: "\<forall>e\<in>set evs'. ev_time e = now" "evs' \<noteq> []"
  shows "first_complete g (evs @ evs') (case natural of Some t \<Rightarrow> Some t
    | None \<Rightarrow> if missing_shards g (ev_shard ` set (evs @ evs')) = {} then Some now else None)"
proof -
  have early: "complete_by g (evs @ evs') u \<longleftrightarrow> complete_by g evs u" if "u < now" for u
    using arrived_by_extend(1) [OF at(1) that] by (simp add: complete_by_arrived)
  have late: "complete_by g (evs @ evs') u \<longleftrightarrow> missing_shards g (ev_shard ` set (evs @ evs')) = {}"
    if "now \<le> u" for u
    using arrived_by_extend(2) [OF at(1) before that] by (simp add: complete_by_arrived)
  show ?thesis
  proof (cases natural)
    case None
    then have no: "\<not> complete_by g evs u" for u using fc by (simp add: first_complete_def)
    have mem: "now \<in> ev_time ` set (evs @ evs')" using at by (cases evs') auto
    have "\<not> complete_by g (evs @ evs') u" if "missing_shards g (ev_shard ` set (evs @ evs')) \<noteq> {}" for u
      using early [of u] late [of u] no that by (cases "u < now") auto
    then show ?thesis
      using None early late [OF order.refl] no mem unfolding first_complete_def by simp
  next
    case (Some t)
    then have t: "t \<in> ev_time ` set evs" "complete_by g evs t" "\<forall>u<t. \<not> complete_by g evs u"
      using fc by (simp_all add: first_complete_def)
    then have "t < now" using before by auto
    then show ?thesis
      using t early Some by (auto simp: first_complete_def)
  qed
qed

lemma admission_ok_extend:
  assumes "admission_ok g estimate wait evs c" "\<forall>e\<in>set evs. ev_time e < now" "\<forall>e\<in>set evs'. ev_time e = now"
  shows "admission_ok g estimate wait (evs @ evs') c"
proof -
  obtain s plan service w where s: "s \<in> ev_time ` set evs" "\<not> complete_by g evs s"
      "CreatePlan g (missing_shards g (arrived_by evs s)) (available_parities g (arrived_by evs s)) = Inr plan"
      "is_recoverable plan" "estimate plan = Inr service" "wait s = Inr w"
      "0 < service" "s + service \<le> c" "c < s + w"
    using assms(1) unfolding admission_ok_def by blast
  then have "s < now" using assms(2) by auto
  then have "arrived_by (evs @ evs') s = arrived_by evs s" by (rule arrived_by_extend(1) [OF assms(3)])
  then show ?thesis
    unfolding admission_ok_def using s by (intro bexI [of _ s]) (auto simp: complete_by_arrived)
qed

section \<open>The invariant of the event loop\<close>

definition request_inv ::
  "ClusterSimulator \<Rightarrow> wait_oracle \<Rightarrow> GlobalArrivalEvent list \<Rightarrow> ClusterState \<Rightarrow> RequestId \<Rightarrow> bool" where
  "request_inv sim wait P st r \<longleftrightarrow>
     (\<exists>tr. omap_find (cl_trackers st) r = Some tr \<and> tracker_for (cs_graph sim) tr \<and>
        arrived tr = ev_shard ` set (events_of P r)) \<and>
     first_complete (cs_graph sim) (events_of P r) (omap_find (cl_natural st) r) \<and>
     (\<forall>c. omap_find (cl_recovery st) r = Some c \<longrightarrow>
        admission_ok (cs_graph sim) (cs_estimate sim) (wait r) (events_of P r) c)"

definition cluster_inv ::
  "ClusterSimulator \<Rightarrow> wait_oracle \<Rightarrow> RequestId set \<Rightarrow> GlobalArrivalEvent list \<Rightarrow> ClusterState \<Rightarrow> bool" where
  "cluster_inv sim wait R P st \<longleftrightarrow>
     queue_ok (cl_queue st) \<and> omap_ok (cl_trackers st) \<and> omap_ok (cl_natural st) \<and>
     omap_ok (cl_recovery st) \<and> fst ` set (cl_trackers st) = R \<and> (\<forall>r\<in>R. request_inv sim wait P st r)"

lemma request_inv_frame:
  assumes "request_inv sim wait P st r" "\<forall>e\<in>set Q. ge_request e \<noteq> r"
    and "omap_find (cl_trackers st') r = omap_find (cl_trackers st) r"
    and "omap_find (cl_natural st') r = omap_find (cl_natural st) r"
    and "omap_find (cl_recovery st') r = omap_find (cl_recovery st) r"
  shows "request_inv sim wait (P @ Q) st' r"
  using assms by (simp add: request_inv_def events_of_other)

text \<open>What the admission decision may change: the queue, and this request's recovery entry.\<close>

lemma consider_admission_step:
  assumes g: "graph_ok (cs_graph sim)" "tracker_for (cs_graph sim) tr" "missing_shards (cs_graph sim) (arrived tr) \<noteq> {}"
    and q: "queue_ok (cl_queue st)" "current_time (cl_queue st) = now"
    and rec: "omap_ok (cl_recovery st)" "omap_find (cl_recovery st) r = None"
    and run: "consider_admission sim wait now r tr st = Inr st'"
  shows "cl_trackers st' = cl_trackers st \<and> cl_natural st' = cl_natural st \<and> queue_ok (cl_queue st') \<and>
    current_time (cl_queue st') = now \<and>
    (cl_recovery st' = cl_recovery st \<or>
     (\<exists>c plan service w. cl_recovery st' = omap_emplace r c (cl_recovery st) \<and>
        CreatePlan (cs_graph sim) (missing_shards (cs_graph sim) (arrived tr))
          (available_parities (cs_graph sim) (arrived tr)) = Inr plan \<and>
        is_recoverable plan \<and> cs_estimate sim plan = Inr service \<and> wait r now = Inr w \<and>
        0 < service \<and> now + service \<le> c \<and> c < now + w))"
proof -
  obtain plan where plan: "RecoveryPolicy_CreatePlan (cs_graph sim) tr = Inr plan"
      "CreatePlan (cs_graph sim) (missing_shards (cs_graph sim) (arrived tr))
          (available_parities (cs_graph sim) (arrived tr)) = Inr plan"
    using RecoveryPolicy_CreatePlan_arrived [OF g(1,2)] by blast
  show ?thesis
  proof (cases "is_recoverable plan")
    case False
    then show ?thesis using run plan q by (auto simp: consider_admission_def)
  next
    case True
    then obtain service price where est: "cs_estimate sim plan = Inr service"
        "GetExpectedRecoveryCost now service (cl_queue st) = Inr price"
      using run plan by (auto simp: consider_admission_def bindE_eq_Inr)
    show ?thesis
    proof (cases price)
      case None
      then show ?thesis using run plan q True est by (auto simp: consider_admission_def)
    next
      case (Some cost)
      then obtain w where w: "wait r now = Inr w" "\<not> w < 0"
        using run plan True est by (auto simp: consider_admission_def bindE_eq_Inr split: if_splits)
      have bound: "service \<le> cost" "0 < service" using lq.cost_bound [OF q(1)] est(2) Some by auto
      obtain q' where submit: "SubmitJob now service (cl_queue st) = Inr (True, q')" "queue_ok q'"
          "current_time q' = now"
        using lq.priced_job_admitted [OF q(1)] est(2) Some q(2) by blast
      show ?thesis
      proof (cases "cost < w")
        case True
        then have "st' = st\<lparr>cl_queue := q', cl_recovery := omap_emplace r (now + cost) (cl_recovery st)\<rparr>"
          using run plan \<open>is_recoverable plan\<close> est Some w submit
          by (simp add: consider_admission_def Evaluate_plan_def)
        then show ?thesis using submit plan \<open>is_recoverable plan\<close> est(1) w bound True by auto
      next
        case False
        then show ?thesis
          using run plan \<open>is_recoverable plan\<close> est Some w q
          by (auto simp: consider_admission_def Evaluate_plan_def)
      qed
    qed
  qed
qed

lemma mark_cluster_group:
  assumes "tracker_for g tr" "foldE (\<lambda>e. MarkArrived (ge_shard e) t) G tr = Inr tr'"
  shows "tracker_for g tr' \<and> arrived tr' = arrived tr \<union> ge_shard ` set G"
proof -
  have "foldE (\<lambda>e. MarkArrived (ge_shard e) t) G tr
      = foldE (\<lambda>ev. MarkArrived (ev_shard ev) t) (map (\<lambda>e. \<lparr>ev_shard = ge_shard e, ev_time = ge_time e\<rparr>) G) tr"
    for tr by (induction G arbitrary: tr) (auto simp: bindE_def split: sum.splits)
  then show ?thesis using mark_group(1) [OF assms(1)] assms(2) by (fastforce simp: image_image)
qed

lemma handle_request_step:
  assumes g: "graph_ok (cs_graph sim)" and inv: "cluster_inv sim wait R P st"
    and now: "current_time (cl_queue st) = now" and r: "r \<in> R"
    and G: "G \<noteq> []" "\<forall>e\<in>set G. ge_request e = r \<and> ge_time e = now"
    and P: "\<forall>e\<in>set P. ge_request e = r \<longrightarrow> ge_time e < now"
    and run: "handle_request sim wait now r G st = Inr st'"
  shows "cluster_inv sim wait R (P @ G) st' \<and> current_time (cl_queue st') = now"
proof -
  let ?g = "cs_graph sim" and ?E = "events_of P r" and ?E' = "events_of G r"
  have ri: "request_inv sim wait P st r" using inv r by (simp add: cluster_inv_def)
  obtain tr where tr: "omap_find (cl_trackers st) r = Some tr" "tracker_for ?g tr"
      "arrived tr = ev_shard ` set ?E"
    using ri by (auto simp: request_inv_def)
  obtain tr' where mark: "foldE (\<lambda>e. MarkArrived (ge_shard e) (logical_time now)) G tr = Inr tr'"
    using run tr(1) by (auto simp: handle_request_def omap_at_def bindE_eq_Inr)
  define st1 where "st1 = st\<lparr>cl_trackers := omap_assign r tr' (cl_trackers st)\<rparr>"
  have ok: "omap_ok (cl_trackers st)" "omap_ok (cl_natural st)" "omap_ok (cl_recovery st)" "queue_ok (cl_queue st)"
      "fst ` set (cl_trackers st) = R"
    using inv by (simp_all add: cluster_inv_def)
  have E': "\<forall>e\<in>set ?E'. ev_time e = now" "?E' \<noteq> []" "ev_shard ` set ?E' = ge_shard ` set G"
    using G by (auto simp: set_events_of image_image events_of_def filter_empty_conv)
  have E: "\<forall>e\<in>set ?E. ev_time e < now" using P by (auto simp: set_events_of)
  have tr': "tracker_for ?g tr'" "arrived tr' = ev_shard ` set (?E @ ?E')"
    using mark_cluster_group [OF tr(2) mark] tr(3) E'(3) by auto
  have at_now: "arrived_by (?E @ ?E') now = arrived tr'"
    using arrived_by_extend(2) [OF E'(1) E order.refl] tr'(2) by simp
  note fc = first_complete_extend [OF _ E E'(1,2), of ?g "omap_find (cl_natural st) r"]
  have complete: "IsSystematicComplete tr' \<longleftrightarrow> missing_shards ?g (ev_shard ` set (?E @ ?E')) = {}"
    using IsSystematicComplete_arrived [OF tr'(1)] tr'(2) by simp
  have rec_old: "\<forall>c. omap_find (cl_recovery st) r = Some c \<longrightarrow>
      admission_ok ?g (cs_estimate sim) (wait r) (?E @ ?E') c"
    using ri admission_ok_extend [OF _ E E'(1)] by (simp add: request_inv_def)
  have natural_st: "first_complete ?g ?E (omap_find (cl_natural st) r)"
    using ri by (simp add: request_inv_def)
  have others: "\<forall>e\<in>set G. ge_request e \<noteq> r2" if "r2 \<noteq> r" for r2 using G(2) that by auto
  have keys1: "fst ` set (cl_trackers st1) = R" "omap_ok (cl_trackers st1)"
    using ok r by (auto simp: st1_def set_keys_assign omap_ok_assign insert_absorb)
  have find1: "omap_find (cl_trackers st1) = (map_of (cl_trackers st))(r \<mapsto> tr')"
    using ok(1) by (simp add: st1_def find_omap_assign fun_eq_iff)
  have finish: "cluster_inv sim wait R (P @ G) st2"
    if st2: "cl_trackers st2 = cl_trackers st1" "queue_ok (cl_queue st2)" "omap_ok (cl_natural st2)"
      "omap_ok (cl_recovery st2)"
      "\<And>r2. r2 \<noteq> r \<Longrightarrow> omap_find (cl_natural st2) r2 = omap_find (cl_natural st) r2"
      "\<And>r2. r2 \<noteq> r \<Longrightarrow> omap_find (cl_recovery st2) r2 = omap_find (cl_recovery st) r2"
      "first_complete ?g (?E @ ?E') (omap_find (cl_natural st2) r)"
      "\<forall>c. omap_find (cl_recovery st2) r = Some c \<longrightarrow>
        admission_ok ?g (cs_estimate sim) (wait r) (?E @ ?E') c" for st2
  proof -
    have "request_inv sim wait (P @ G) st2 r2" if "r2 \<in> R" for r2
    proof (cases "r2 = r")
      case True
      then show ?thesis using st2 tr' find1 by (simp add: request_inv_def)
    next
      case False
      have "request_inv sim wait P st r2" using inv that by (simp add: cluster_inv_def)
      then show ?thesis
        by (rule request_inv_frame [OF _ others [OF False]]) (use False st2(1,5,6) find1 in simp_all)
    qed
    then show ?thesis using st2(1-4) keys1 by (simp add: cluster_inv_def)
  qed
  show ?thesis
  proof (cases "IsSystematicComplete tr'")
    case True
    then have st': "st' = st1\<lparr>cl_natural := omap_emplace r now (cl_natural st1)\<rparr>"
      using run tr(1) mark by (simp add: handle_request_def omap_at_def st1_def Let_def)
    have nat_eq: "omap_find (cl_natural st') r2 = (if r2 = r then (case omap_find (cl_natural st) r of
        Some t \<Rightarrow> Some t | None \<Rightarrow> Some now) else omap_find (cl_natural st) r2)" for r2
      using ok(2) by (auto simp: st' st1_def find_omap_emplace split: option.splits)
    have "cluster_inv sim wait R (P @ G) st'"
    proof (rule finish)
      show "first_complete ?g (?E @ ?E') (omap_find (cl_natural st') r)"
        using fc [OF natural_st] True complete nat_eq [of r]
        by (cases "omap_find (cl_natural st) r") simp_all
    qed (use ok nat_eq rec_old in \<open>simp_all add: st' st1_def omap_ok_emplace\<close>)
    then show ?thesis using now by (simp add: st' st1_def)
  next
    case False
    then have inc: "missing_shards ?g (ev_shard ` set (?E @ ?E')) \<noteq> {}" using complete by simp
    have natural: "first_complete ?g (?E @ ?E') (omap_find (cl_natural st) r)"
    proof (cases "omap_find (cl_natural st) r")
      case None
      then show ?thesis using fc [OF natural_st] inc by simp
    next
      case (Some t)
      then show ?thesis using fc [OF natural_st] by simp
    qed
    show ?thesis
    proof (cases "omap_find (cl_recovery st) r = None")
      case has: False
      then have "st' = st1" using run tr(1) mark False by (auto simp: handle_request_def omap_at_def st1_def Let_def)
      then show ?thesis
        using finish [of st1] natural rec_old ok now by (simp add: st1_def)
    next
      case True
      then have step: "consider_admission sim wait now r tr' st1 = Inr st'"
        using run tr(1) mark False by (simp add: handle_request_def omap_at_def st1_def Let_def)
      have inc': "missing_shards ?g (arrived tr') \<noteq> {}" using inc tr'(2) by simp
      note adm = consider_admission_step [OF g tr'(1) inc' _ _ _ _ step]
      have eff: "cl_trackers st' = cl_trackers st1 \<and> cl_natural st' = cl_natural st1 \<and> queue_ok (cl_queue st') \<and>
        current_time (cl_queue st') = now \<and>
        (cl_recovery st' = cl_recovery st1 \<or>
         (\<exists>c plan service w. cl_recovery st' = omap_emplace r c (cl_recovery st1) \<and>
            CreatePlan ?g (missing_shards ?g (arrived tr')) (available_parities ?g (arrived tr')) = Inr plan \<and>
            is_recoverable plan \<and> cs_estimate sim plan = Inr service \<and> wait r now = Inr w \<and>
            0 < service \<and> now + service \<le> c \<and> c < now + w))"
        by (rule adm) (use ok now True in \<open>simp_all add: st1_def\<close>)
      have rec2: "omap_find (cl_recovery st') r2 = omap_find (cl_recovery st) r2" if "r2 \<noteq> r" for r2
        using eff that ok(3) by (auto simp: st1_def find_omap_emplace split: option.splits)
      have rec_ok: "omap_ok (cl_recovery st')" using eff ok(3) by (auto simp: st1_def omap_ok_emplace)
      have "admission_ok ?g (cs_estimate sim) (wait r) (?E @ ?E') c"
        if c: "omap_find (cl_recovery st') r = Some c" for c
      proof -
        have "cl_recovery st' \<noteq> cl_recovery st1" using c True by (auto simp: st1_def)
        then obtain c' plan service w where a: "cl_recovery st' = omap_emplace r c' (cl_recovery st1)"
            "CreatePlan ?g (missing_shards ?g (arrived tr')) (available_parities ?g (arrived tr')) = Inr plan"
            "is_recoverable plan" "cs_estimate sim plan = Inr service" "wait r now = Inr w"
            "0 < service" "now + service \<le> c'" "c' < now + w"
          using eff by blast
        have "c' = c" using c a(1) True ok(3) by (simp add: st1_def find_omap_emplace)
        moreover have "now \<in> ev_time ` set (?E @ ?E')" using E'(1,2) by (cases ?E') auto
        moreover have "\<not> complete_by ?g (?E @ ?E') now" using inc' at_now by (simp add: complete_by_arrived)
        ultimately show ?thesis
          unfolding admission_ok_def using a at_now by (intro bexI [of _ now]) auto
      qed
      then have "cluster_inv sim wait R (P @ G) st'"
        by (intro finish) (use eff ok rec_ok rec2 natural in \<open>simp_all add: st1_def\<close>)
      then show ?thesis using eff by blast
    qed
  qed
qed

text \<open>The order \<open>std::sort\<close> leaves the events in, as far as the loops rely on it.\<close>

definition time_request_sorted :: "GlobalArrivalEvent list \<Rightarrow> bool" where
  "time_request_sorted es \<longleftrightarrow> sorted (map ge_time es) \<and>
     (\<forall>t. sorted (map ge_request (filter (\<lambda>e. ge_time e = t) es)))"

lemma time_request_sorted_sort: "time_request_sorted (sort_events es)"
proof -
  let ?es = "sort_events es"
  have s: "sorted_wrt (\<lambda>a b. event_key a \<le> event_key b) ?es"
    using sorted_sort_key [of event_key es] by (simp add: sort_events_def sorted_map)
  have "sorted_wrt (\<lambda>a b. ge_time a \<le> ge_time b) ?es"
    by (rule sorted_wrt_mono_rel [OF _ s]) (auto simp: event_key_def less_eq_prod_def)
  moreover have "sorted_wrt (\<lambda>a b. ge_request a \<le> ge_request b) (filter (\<lambda>e. ge_time e = t) ?es)" for t
    by (rule sorted_wrt_mono_rel [OF _ sorted_wrt_filter [OF s]])
      (auto simp: event_key_def less_eq_prod_def)
  ultimately show ?thesis by (simp add: time_request_sorted_def sorted_map)
qed

text \<open>Cutting a sorted event list after its first instant.\<close>

lemma time_group:
  assumes "time_request_sorted (e # es)"
  defines "G \<equiv> e # takeWhile (\<lambda>e'. ge_time e' = ge_time e) es"
    and "rest \<equiv> dropWhile (\<lambda>e'. ge_time e' = ge_time e) es"
  shows "e # es = G @ rest" "sorted (map ge_request G)" "time_request_sorted rest"
    and "\<forall>x\<in>set G. x \<in> set (e # es) \<and> ge_time x = ge_time e"
    and "\<forall>x\<in>set rest. x \<in> set es \<and> ge_time e < ge_time x" "\<forall>x\<in>set es. ge_time e \<le> ge_time x"
proof -
  have sorted: "sorted (map ge_time es)" "\<forall>x\<in>set es. ge_time e \<le> ge_time x"
      "\<And>t. sorted (map ge_request (filter (\<lambda>x. ge_time x = t) (e # es)))"
    using assms(1) unfolding time_request_sorted_def by auto
  have split: "G = filter (\<lambda>x. ge_time x = ge_time e) (e # es)" "rest = filter (\<lambda>x. ge_time e < ge_time x) es"
    using sorted_takeWhile_eq [OF sorted(1,2)] by (simp_all add: G_def rest_def)
  show "e # es = G @ rest" by (simp add: G_def rest_def)
  show "sorted (map ge_request G)" unfolding split(1) by (rule sorted(3))
  show "\<forall>x\<in>set G. x \<in> set (e # es) \<and> ge_time x = ge_time e" unfolding split(1) by simp
  show rest: "\<forall>x\<in>set rest. x \<in> set es \<and> ge_time e < ge_time x" unfolding split(2) by simp
  show "\<forall>x\<in>set es. ge_time e \<le> ge_time x" by (rule sorted(2))
  have "sorted (map ge_request (filter (\<lambda>x. ge_time x = t) rest))" for t
  proof (cases "ge_time e < t")
    case True
    have "filter (\<lambda>x. ge_time x = t) rest = filter (\<lambda>x. ge_time x = t) (e # es)"
      unfolding split(2) using True by (auto intro!: filter_cong)
    then show ?thesis using sorted(3) by simp
  next
    case False
    then have "filter (\<lambda>x. ge_time x = t) rest = []" using rest by (auto simp: filter_empty_conv)
    then show ?thesis by simp
  qed
  then show "time_request_sorted rest"
    unfolding time_request_sorted_def using sorted_filter [OF sorted(1)] split(2) by simp
qed

lemma run_requests_inv:
  assumes "graph_ok (cs_graph sim)" "run_requests sim wait now es st = Inr st'"
    and "cluster_inv sim wait R P st" "current_time (cl_queue st) = now"
    and "\<forall>e\<in>set es. ge_request e \<in> R \<and> ge_time e = now" "sorted (map ge_request es)"
    and "\<forall>e\<in>set P. \<forall>e'\<in>set es. ge_request e = ge_request e' \<longrightarrow> ge_time e < now"
  shows "cluster_inv sim wait R (P @ es) st' \<and> current_time (cl_queue st') = now"
  using assms
proof (induction sim wait now es st arbitrary: P rule: run_requests.induct)
  case (1 sim wait now st)
  then show ?case by simp
next
  case (2 sim wait now e es st)
  let ?r = "ge_request e"
  let ?G = "e # takeWhile (\<lambda>e'. ge_request e' = ?r) es"
  let ?rest = "dropWhile (\<lambda>e'. ge_request e' = ?r) es"
  obtain st1 where st1: "handle_request sim wait now ?r ?G st = Inr st1"
      "run_requests sim wait now ?rest st1 = Inr st'"
    using "2.prems"(2) by (auto simp: bindE_eq_Inr)
  have split: "takeWhile (\<lambda>e'. ge_request e' = ?r) es = filter (\<lambda>e'. ge_request e' = ?r) es"
      "?rest = filter (\<lambda>e'. ?r < ge_request e') es"
    using sorted_takeWhile_eq [of ge_request es ?r] "2.prems"(6) by auto
  have step: "cluster_inv sim wait R (P @ ?G) st1 \<and> current_time (cl_queue st1) = now"
  proof (rule handle_request_step [OF "2.prems"(1,3,4) _ _ _ _ st1(1)])
    show "?r \<in> R" using "2.prems"(5) by simp
    show "\<forall>x\<in>set ?G. ge_request x = ?r \<and> ge_time x = now"
      using "2.prems"(5) split(1) by auto
    show "\<forall>x\<in>set P. ge_request x = ?r \<longrightarrow> ge_time x < now" using "2.prems"(7) by simp
  qed simp
  have rest: "\<forall>x\<in>set ?rest. x \<in> set es \<and> ?r < ge_request x" using split(2) by simp
  have "cluster_inv sim wait R ((P @ ?G) @ ?rest) st' \<and> current_time (cl_queue st') = now"
  proof (rule "2.IH" [OF st1(1) "2.prems"(1) st1(2)])
    show "cluster_inv sim wait R (P @ ?G) st1" "current_time (cl_queue st1) = now" using step by simp_all
    show "\<forall>e\<in>set ?rest. ge_request e \<in> R \<and> ge_time e = now" using "2.prems"(5) rest by auto
    show "sorted (map ge_request ?rest)"
      unfolding split(2) by (rule sorted_filter) (use "2.prems"(6) in simp)
    have "ge_request x \<noteq> ge_request y" if "x \<in> set ?G" "y \<in> set ?rest" for x y
      using that rest split(1) by auto
    then show "\<forall>x\<in>set (P @ ?G). \<forall>y\<in>set ?rest. ge_request x = ge_request y \<longrightarrow> ge_time x < now"
      using "2.prems"(7) rest by (metis UnE list.set_intros(2) set_append)
  qed
  moreover have "(P @ ?G) @ ?rest = P @ e # es" by simp
  ultimately show ?case by (simp only:)
qed

lemma run_times_inv:
  assumes "graph_ok (cs_graph sim)" "run_times sim wait es st = Inr st'" "cluster_inv sim wait R P st"
    and "ge_request ` set es \<subseteq> R" "time_request_sorted es"
    and "\<forall>e\<in>set P. \<forall>e'\<in>set es. ge_time e < ge_time e'"
  shows "cluster_inv sim wait R (P @ es) st' \<and> (\<forall>e\<in>set es. 0 \<le> ge_time e)"
  using assms
proof (induction sim wait es st arbitrary: P rule: run_times.induct)
  case (1 sim wait st)
  then show ?case by simp
next
  case (2 sim wait e es st)
  let ?now = "ge_time e"
  let ?G = "e # takeWhile (\<lambda>e'. ge_time e' = ?now) es"
  let ?rest = "dropWhile (\<lambda>e'. ge_time e' = ?now) es"
  obtain q' st1 where now: "\<not> ?now < 0" and q': "AdvanceTime ?now (cl_queue st) = Inr q'"
      and st1: "run_requests sim wait ?now ?G (st\<lparr>cl_queue := q'\<rparr>) = Inr st1"
      "run_times sim wait ?rest st1 = Inr st'"
    using "2.prems"(2) by (auto simp: Let_def bindE_eq_Inr split: if_splits)
  note group = time_group [OF "2.prems"(5)]
  have "queue_ok (cl_queue st)" using "2.prems"(3) by (simp add: cluster_inv_def)
  note q'_ok = queue_ok_AdvanceTime [OF this q']
  have step: "cluster_inv sim wait R (P @ ?G) st1 \<and> current_time (cl_queue st1) = ?now"
  proof (rule run_requests_inv [OF "2.prems"(1) st1(1) _ _ _ group(2)])
    show "cluster_inv sim wait R P (st\<lparr>cl_queue := q'\<rparr>)"
      using "2.prems"(3) q'_ok(1) by (simp add: cluster_inv_def request_inv_def)
    show "current_time (cl_queue (st\<lparr>cl_queue := q'\<rparr>)) = ?now" using q'_ok(2) by simp
    show "\<forall>x\<in>set ?G. ge_request x \<in> R \<and> ge_time x = ?now" using "2.prems"(4) group(4) by blast
    show "\<forall>x\<in>set P. \<forall>y\<in>set ?G. ge_request x = ge_request y \<longrightarrow> ge_time x < ?now" using "2.prems"(6) by simp
  qed
  have "cluster_inv sim wait R ((P @ ?G) @ ?rest) st' \<and> (\<forall>x\<in>set ?rest. 0 \<le> ge_time x)"
  proof (rule "2.IH" [OF refl now q' st1(1) "2.prems"(1) st1(2) _ _ group(3)])
    show "cluster_inv sim wait R (P @ ?G) st1" using step by simp
    show "ge_request ` set ?rest \<subseteq> R" using "2.prems"(4) group(5) by auto
    show "\<forall>x\<in>set (P @ ?G). \<forall>y\<in>set ?rest. ge_time x < ge_time y"
    proof (intro ballI)
      fix x y
      assume x: "x \<in> set (P @ ?G)" and y: "y \<in> set ?rest"
      then have later: "y \<in> set (e # es)" "?now < ge_time y" using group(5) by auto
      consider "x \<in> set P" | "x \<in> set ?G" using x by auto
      then show "ge_time x < ge_time y"
      proof cases
        case 1
        then show ?thesis using "2.prems"(6) later(1) by blast
      next
        case 2
        then have "ge_time x = ?now" using group(4) by blast
        then show ?thesis using later(2) by simp
      qed
    qed
  qed
  moreover have "(P @ ?G) @ ?rest = P @ e # es" by simp
  moreover have "\<forall>x\<in>set (e # es). 0 \<le> ge_time x" using now group(6) by auto
  ultimately show ?case by (simp only:)
qed

section \<open>Before and after the loop\<close>

lemma set_omap_emplace: "set (omap_emplace k v m) \<subseteq> insert (k, v) (set m)"
  by (induction k v m rule: omap_emplace.induct) auto

lemma prepare_events:
  assumes g: "graph_ok g"
    and run: "foldE (prepare_event (systematic_shard_count g) (parity_shard_count g)) es ([], []) = Inr (trackers, starts)"
  shows "omap_ok trackers \<and> fst ` set trackers = ge_request ` set es \<and>
    (\<forall>r\<in>ge_request ` set es. \<exists>tr. omap_find trackers r = Some tr \<and> tracker_for g tr \<and> arrived tr = {}) \<and>
    (\<forall>e\<in>set es. omap_find starts (ge_request e) = Some (ge_start e) \<and> ge_start e \<le> ge_time e)"
proof -
  obtain tr0 where tr0: "ShardArrivalTracker_new (systematic_shard_count g) (parity_shard_count g) = Inr tr0"
      "tracker_for g tr0" "arrived tr0 = {}"
    using tracker_for_new [OF g] by blast
  define I where "I done st \<longleftrightarrow> (case st of (trackers, starts) \<Rightarrow>
      omap_ok trackers \<and> omap_ok starts \<and> fst ` set trackers = ge_request ` set done \<and>
      (\<forall>r\<in>ge_request ` set done. omap_find trackers r = Some tr0) \<and>
      (\<forall>e\<in>set done. omap_find starts (ge_request e) = Some (ge_start e) \<and> ge_start e \<le> ge_time e))"
    for "done" :: "GlobalArrivalEvent list" and st
  have "I es (trackers, starts)"
  proof (rule foldE_invariant [where I = I, OF run])
    show "I [] ([], [])" by (simp add: I_def)
    fix pre e rest u v
    assume inv: "I pre u" and step: "prepare_event (systematic_shard_count g) (parity_shard_count g) e u = Inr v"
    obtain trs sts where u: "u = (trs, sts)" by (cases u)
    define trs' where "trs' = (case omap_find trs (ge_request e) of Some _ \<Rightarrow> trs
      | None \<Rightarrow> omap_emplace (ge_request e) tr0 trs)"
    define sts' where "sts' = (case omap_find sts (ge_request e) of Some _ \<Rightarrow> sts
      | None \<Rightarrow> omap_emplace (ge_request e) (ge_start e) sts)"
    have v: "v = (trs', sts')" "ge_start e \<le> ge_time e"
      "omap_find sts (ge_request e) = None \<or> omap_find sts (ge_request e) = Some (ge_start e)"
      using step by (auto simp: prepare_event_def u tr0(1) trs'_def sts'_def split: option.splits if_splits)
    have ok: "omap_ok trs" "omap_ok sts" using inv by (simp_all add: I_def u)
    have keys: "fst ` set trs' = insert (ge_request e) (fst ` set trs)"
    proof (cases "omap_find trs (ge_request e)")
      case None
      then show ?thesis by (simp add: trs'_def set_keys_emplace)
    next
      case (Some t)
      then have "ge_request e \<in> fst ` set trs" by (force dest: map_of_SomeD)
      then show ?thesis using Some by (simp add: trs'_def insert_absorb)
    qed
    have find: "omap_find trs' = (case omap_find trs (ge_request e) of Some _ \<Rightarrow> map_of trs
        | None \<Rightarrow> (map_of trs)(ge_request e \<mapsto> tr0))"
      "omap_find sts' = (case omap_find sts (ge_request e) of Some _ \<Rightarrow> map_of sts
        | None \<Rightarrow> (map_of sts)(ge_request e \<mapsto> ge_start e))"
      using ok by (auto simp: trs'_def sts'_def find_omap_emplace split: option.splits)
    have "omap_ok trs'" "omap_ok sts'"
      using ok by (auto simp: trs'_def sts'_def omap_ok_emplace split: option.splits)
    moreover have "omap_find trs' r = Some tr0" if "r \<in> insert (ge_request e) (ge_request ` set pre)" for r
    proof (cases "r \<in> ge_request ` set pre")
      case True
      then have "omap_find trs r = Some tr0" using inv by (auto simp: I_def u)
      then show ?thesis using find(1) by (auto split: option.splits)
    next
      case False
      then have "r \<notin> fst ` set trs" "r = ge_request e" using inv that by (auto simp: I_def u)
      then have "omap_find trs r = None" by (simp add: map_of_eq_None_iff)
      then show ?thesis using find(1) \<open>r = ge_request e\<close> by simp
    qed
    moreover have "omap_find sts' (ge_request x) = Some (ge_start x) \<and> ge_start x \<le> ge_time x"
      if "x \<in> set (pre @ [e])" for x
    proof (cases "x \<in> set pre")
      case True
      then have "omap_find sts (ge_request x) = Some (ge_start x)" "ge_start x \<le> ge_time x"
        using inv by (auto simp: I_def u)
      then show ?thesis using find(2) by (auto split: option.splits)
    next
      case False
      then show ?thesis using that v(2,3) find(2) by (auto split: option.splits)
    qed
    moreover have "fst ` set trs' = ge_request ` set (pre @ [e])"
      using keys inv by (simp add: I_def u)
    ultimately show "I (pre @ [e]) v" by (simp add: I_def v(1))
  qed
  then show ?thesis using tr0 by (simp add: I_def)
qed

lemma collect_metrics:
  fixes trackers :: "(RequestId, ShardArrivalTracker) omap"
  assumes "foldE (\<lambda>(r, tracker) metrics. bindE (request_metrics starts st r)
      (\<lambda>m. Inr (omap_emplace r m metrics))) trackers [] = Inr metrics"
  shows "omap_ok metrics \<and> fst ` set metrics = fst ` set trackers \<and>
    (\<forall>(r, m)\<in>set metrics. request_metrics starts st r = Inr m)"
proof -
  define I where "I done ms \<longleftrightarrow> omap_ok ms \<and> fst ` set ms = fst ` set done \<and>
      (\<forall>(r, m)\<in>set ms. request_metrics starts st r = Inr m)"
    for "done" :: "(RequestId \<times> ShardArrivalTracker) list" and ms
  have "I trackers metrics"
  proof (rule foldE_invariant [where I = I, OF assms])
    show "I [] []" by (simp add: I_def)
    fix pre rest ms v and x :: "RequestId \<times> ShardArrivalTracker"
    assume inv: "I pre ms" and step: "(\<lambda>(r, tracker) metrics. bindE (request_metrics starts st r)
      (\<lambda>m. Inr (omap_emplace r m metrics))) x ms = Inr v"
    obtain r tr where x: "x = (r, tr)" by (cases x)
    then obtain m where m: "request_metrics starts st r = Inr m" "v = omap_emplace r m ms"
      using step by (auto simp: bindE_eq_Inr)
    then show "I (pre @ [x]) v"
      using inv set_omap_emplace [of r m ms] x
      by (auto simp: I_def set_keys_emplace omap_ok_emplace)
  qed
  then show ?thesis by (simp add: I_def)
qed

section \<open>Runs of the cluster simulator\<close>

lemma ClusterSimulator_new_Inr:
  assumes "omap_ok (parity_to_systematic g)"
  shows "ClusterSimulator_new g q (Some est) = Inr sim \<longleftrightarrow>
    graph_ok g \<and> sim = \<lparr>cs_graph = g, cs_queue = q, cs_estimate = est\<rparr>"
  by (auto simp: ClusterSimulator_new_def bindE_eq_Inr RecoveryPolicy_new_Inr [OF assms])

text \<open>Sorting does not change the set of a request's events.\<close>

lemma complete_by_cong: "set evs = set evs' \<Longrightarrow> complete_by g evs t = complete_by g evs' t"
  and arrived_by_cong: "set evs = set evs' \<Longrightarrow> arrived_by evs t = arrived_by evs' t"
  by (simp_all add: complete_by_def arrived_by_def)

lemma set_events_of_sort [simp]: "set (events_of (sort_events E) r) = set (events_of E r)"
  by (simp add: set_events_of sort_events_def)

lemma earliest_arrival_cong: "set evs = set evs' \<Longrightarrow> earliest_arrival evs n = earliest_arrival evs' n"
  by (simp add: earliest_arrival_def)

definition natural_time :: "BipartiteGraph \<Rightarrow> GlobalArrivalEvent list \<Rightarrow> RequestId \<Rightarrow> microseconds" where
  "natural_time g E r = Max (earliest_arrival (events_of E r) ` {0..<systematic_shard_count g})"

text \<open>What the metrics of one request are, given the moment its recovery would complete.\<close>

definition metrics_for ::
  "microseconds \<Rightarrow> microseconds \<Rightarrow> microseconds option \<Rightarrow> RequestMetrics \<Rightarrow> bool" where
  "metrics_for natural start recovery m \<longleftrightarrow>
     latency m = (case recovery of None \<Rightarrow> natural | Some c \<Rightarrow> min c natural) - start \<and>
     (rm_admitted m \<longleftrightarrow> recovery \<noteq> None) \<and>
     (rm_won m \<longleftrightarrow> (\<exists>c. recovery = Some c \<and> c < natural))"

lemma request_metrics_for:
  assumes "request_metrics starts st r = Inr m" "omap_find (cl_natural st) r = Some natural"
    and "omap_find starts r = Some start"
  shows "metrics_for natural start (omap_find (cl_recovery st) r) m"
  using assms
  by (cases "omap_find (cl_recovery st) r")
    (auto simp: request_metrics_def omap_at_def metrics_for_def Let_def min_def split: if_splits)

lemma Run_cluster:
  assumes g: "graph_ok (cs_graph sim)" and q: "queue_ok (cs_queue sim)"
    and run: "ClusterSimulator_Run sim E (Some wait) = Inr (metrics, sim')"
  shows "fst ` set metrics = ge_request ` set E \<and> queue_ok (cs_queue sim') \<and>
    (\<forall>e\<in>set E. 0 \<le> ge_time e \<and> ge_start e \<le> ge_time e \<and>
       (\<forall>e'\<in>set E. ge_request e' = ge_request e \<longrightarrow> ge_start e' = ge_start e)) \<and>
    (\<forall>(r, m)\<in>set metrics. \<forall>e\<in>set E. ge_request e = r \<longrightarrow>
       natural_time (cs_graph sim) E r \<in> ev_time ` set (events_of E r) \<and>
       (\<exists>recovery. metrics_for (natural_time (cs_graph sim) E r) (ge_start e) recovery m \<and>
          (\<forall>c. recovery = Some c \<longrightarrow>
             admission_ok (cs_graph sim) (cs_estimate sim) (wait r) (events_of E r) c)))"
proof -
  let ?g = "cs_graph sim" and ?E = "sort_events E"
  obtain trackers starts st where a: "foldE (prepare_event (systematic_shard_count ?g) (parity_shard_count ?g))
        ?E ([], []) = Inr (trackers, starts)"
      "run_times sim wait ?E \<lparr>cl_queue = cs_queue sim, cl_trackers = trackers, cl_natural = [],
          cl_recovery = [], cl_rejected = [], cl_waited = [], cl_unrecoverable = []\<rparr> = Inr st"
      "foldE (\<lambda>(r, tracker) metrics. bindE (request_metrics starts st r)
                     (\<lambda>m. Inr (omap_emplace r m metrics))) (cl_trackers st) [] = Inr metrics"
      "sim' = sim\<lparr>cs_queue := cl_queue st\<rparr>"
    using run by (auto simp: ClusterSimulator_Run_def Let_def bindE_eq_Inr)
  have setE: "set ?E = set E" by (simp add: sort_events_def)
  note prep = prepare_events [OF g a(1)]
  have k: "0 < systematic_shard_count ?g" using g by (simp add: graph_ok_def)
  have none: "\<not> complete_by ?g [] t" for t
    using k by (auto simp: complete_by_def arrived_by_def intro!: exI [of _ 0])
  have "cluster_inv sim wait (ge_request ` set E) ([] @ ?E) st \<and> (\<forall>e\<in>set ?E. 0 \<le> ge_time e)"
    by (rule run_times_inv [OF g a(2)])
      (use prep q none setE in \<open>auto simp: cluster_inv_def request_inv_def first_complete_def time_request_sorted_sort\<close>)
  then have inv: "cluster_inv sim wait (ge_request ` set E) ?E st" and pos: "\<forall>e\<in>set E. 0 \<le> ge_time e"
    using setE by simp_all
  note coll = collect_metrics [OF a(3)]
  have keys: "fst ` set metrics = ge_request ` set E" using coll inv by (simp add: cluster_inv_def)
  have each: "natural_time ?g E r \<in> ev_time ` set (events_of E r) \<and> (\<exists>recovery. metrics_for (natural_time ?g E r) (ge_start e) recovery m \<and>
      (\<forall>c. recovery = Some c \<longrightarrow> admission_ok ?g (cs_estimate sim) (wait r) (events_of E r) c))"
    if m: "(r, m) \<in> set metrics" and e: "e \<in> set E" "ge_request e = r" for r m e
  proof -
    have rm: "request_metrics starts st r = Inr m" using coll m by blast
    then obtain natural where nat: "omap_find (cl_natural st) r = Some natural"
      by (auto simp: request_metrics_def split: option.splits)
    have ri: "request_inv sim wait ?E st r" using inv e by (auto simp: cluster_inv_def)
    then have fc: "natural \<in> ev_time ` set (events_of E r)" "complete_by ?g (events_of E r) natural" "\<forall>u<natural. \<not> complete_by ?g (events_of E r) u"
      using nat complete_by_cong [OF set_events_of_sort, of ?g] by (simp_all add: request_inv_def first_complete_def)
    have nt: "natural = natural_time ?g E r"
      unfolding natural_time_def by (rule first_complete_is_Max [OF g fc(2,3)])
    moreover have "omap_find starts r = Some (ge_start e)" using prep e setE by auto
    ultimately have "metrics_for (natural_time ?g E r) (ge_start e) (omap_find (cl_recovery st) r) m"
      using request_metrics_for [OF rm nat] by simp
    moreover have "admission_ok ?g (cs_estimate sim) (wait r) (events_of E r) c"
      if "omap_find (cl_recovery st) r = Some c" for c
    proof -
      have "admission_ok ?g (cs_estimate sim) (wait r) (events_of ?E r) c"
        using ri that by (simp add: request_inv_def)
      then show ?thesis
        using arrived_by_cong [OF set_events_of_sort, of E r] complete_by_cong [OF set_events_of_sort, of ?g E r]
        by (simp add: admission_ok_def)
    qed
    moreover have "natural_time ?g E r \<in> ev_time ` set (events_of E r)" using fc(1) nt by simp
    ultimately show ?thesis by blast
  qed
  have queue: "queue_ok (cs_queue sim')" using inv a(4) by (simp add: cluster_inv_def)
  have starts: "omap_find starts (ge_request e) = Some (ge_start e)" "ge_start e \<le> ge_time e"
    if "e \<in> set E" for e
    using prep that setE by auto
  have "ge_start e' = ge_start e" if "e \<in> set E" "e' \<in> set E" "ge_request e' = ge_request e" for e e'
    using starts(1) [OF that(1)] starts(1) [OF that(2)] that(3) by simp
  then have checks: "\<forall>e\<in>set E. 0 \<le> ge_time e \<and> ge_start e \<le> ge_time e \<and>
       (\<forall>e'\<in>set E. ge_request e' = ge_request e \<longrightarrow> ge_start e' = ge_start e)"
    using pos starts(2) by blast
  have body: "case x of (r, m) \<Rightarrow> \<forall>e\<in>set E. ge_request e = r \<longrightarrow>
      natural_time ?g E r \<in> ev_time ` set (events_of E r) \<and>
      (\<exists>recovery. metrics_for (natural_time ?g E r) (ge_start e) recovery m \<and>
        (\<forall>c. recovery = Some c \<longrightarrow> admission_ok ?g (cs_estimate sim) (wait r) (events_of E r) c))"
    if x: "x \<in> set metrics" for x
  proof (cases x)
    case (Pair r m)
    show ?thesis
      unfolding Pair prod.case
    proof (intro ballI impI)
      fix e
      assume "e \<in> set E" "ge_request e = r"
      then show "natural_time ?g E r \<in> ev_time ` set (events_of E r) \<and>
        (\<exists>recovery. metrics_for (natural_time ?g E r) (ge_start e) recovery m \<and>
          (\<forall>c. recovery = Some c \<longrightarrow> admission_ok ?g (cs_estimate sim) (wait r) (events_of E r) c))"
        by (rule each [OF x [unfolded Pair]])
    qed
  qed
  show ?thesis
    by (rule conjI [OF keys conjI [OF queue conjI [OF checks ballI [OF body]]]])
qed

section \<open>Runs that return\<close>

text \<open>
  The estimator prices every plan with operations that the planner makes for the graph, and the oracle
  answers for every request.
\<close>

definition oracles_ok :: "BipartiteGraph \<Rightarrow> service_estimator \<Rightarrow> wait_oracle \<Rightarrow> RequestId set \<Rightarrow> bool" where
  "oracles_ok g estimate wait R \<longleftrightarrow>
     (\<forall>missing available plan. CreatePlan g missing available = Inr plan \<and> is_recoverable plan \<and> operations plan \<noteq> [] \<longrightarrow> (\<exists>s>0. estimate plan = Inr s)) \<and>
     (\<forall>r\<in>R. \<forall>t. \<exists>w\<ge>0. wait r t = Inr w)"

lemma consider_admission_total:
  assumes g: "graph_ok (cs_graph sim)" "tracker_for (cs_graph sim) tr" "missing_shards (cs_graph sim) (arrived tr) \<noteq> {}"
    and q: "queue_ok (cl_queue st)" "current_time (cl_queue st) = now"
    and o: "oracles_ok (cs_graph sim) (cs_estimate sim) wait R" "r \<in> R"
  shows "\<exists>st'. consider_admission sim wait now r tr st = Inr st'"
proof -
  obtain plan where plan: "RecoveryPolicy_CreatePlan (cs_graph sim) tr = Inr plan"
      "CreatePlan (cs_graph sim) (missing_shards (cs_graph sim) (arrived tr))
          (available_parities (cs_graph sim) (arrived tr)) = Inr plan"
    using RecoveryPolicy_CreatePlan_arrived [OF g(1,2)] by blast
  show ?thesis
  proof (cases "is_recoverable plan")
    case False
    then show ?thesis using plan by (simp add: consider_admission_def)
  next
    case True
    have "length (operations plan) = card (missing_shards (cs_graph sim) (arrived tr))"
      using peel_run_length [OF planner.create_runs [OF g(1) plan(2) True]] by simp
    then have "operations plan \<noteq> []" using g(3) by auto
    then obtain service where est: "cs_estimate sim plan = Inr service" "0 < service"
      using o(1) True plan(2) unfolding oracles_ok_def by blast
    obtain price where price: "GetExpectedRecoveryCost now service (cl_queue st) = Inr price"
      using lq.cost_ok [OF q(1) _ est(2), of now] q(2) by auto
    obtain w where w: "wait r now = Inr w" "0 \<le> w" using o unfolding oracles_ok_def by blast
    show ?thesis
    proof (cases price)
      case None
      then show ?thesis using plan True est price by (simp add: consider_admission_def)
    next
      case (Some cost)
      then obtain q' where "SubmitJob now service (cl_queue st) = Inr (True, q')"
        using lq.priced_job_admitted [OF q(1)] price by blast
      then show ?thesis
        using plan True est price w Some by (simp add: consider_admission_def Evaluate_plan_def)
    qed
  qed
qed

lemma handle_request_total:
  assumes g: "graph_ok (cs_graph sim)" and inv: "cluster_inv sim wait R P st" and r: "r \<in> R"
    and now: "current_time (cl_queue st) = now" and o: "oracles_ok (cs_graph sim) (cs_estimate sim) wait R"
    and G: "\<forall>e\<in>set G. unat (ge_shard e) < systematic_shard_count (cs_graph sim) + parity_shard_count (cs_graph sim)"
  shows "\<exists>st'. handle_request sim wait now r G st = Inr st'"
proof -
  obtain tr where tr: "omap_find (cl_trackers st) r = Some tr" "tracker_for (cs_graph sim) tr"
  proof -
    have "request_inv sim wait P st r" using inv r by (simp add: cluster_inv_def)
    then show ?thesis using that by (auto simp: request_inv_def)
  qed
  have "foldE (\<lambda>e. MarkArrived (ge_shard e) (logical_time now)) G tr
      = mark_all (map (\<lambda>e. (ge_shard e, logical_time now)) G) tr" for tr
    by (induction G arbitrary: tr) (auto simp: mark_all_def bindE_def split: sum.splits)
  then obtain tr' where mark: "foldE (\<lambda>e. MarkArrived (ge_shard e) (logical_time now)) G tr = Inr tr'"
    using mark_all_arrived(1) [OF tr(2), of "map (\<lambda>e. (ge_shard e, logical_time now)) G"] G by auto
  have tr': "tracker_for (cs_graph sim) tr'" using mark_cluster_group [OF tr(2) mark] by blast
  let ?st = "st\<lparr>cl_trackers := omap_assign r tr' (cl_trackers st)\<rparr>"
  have "\<exists>st'. consider_admission sim wait now r tr' ?st = Inr st'" if "\<not> IsSystematicComplete tr'"
    by (rule consider_admission_total [OF g tr' _ _ _ o r])
      (use that IsSystematicComplete_arrived [OF tr'] inv now in \<open>auto simp: cluster_inv_def\<close>)
  then show ?thesis using tr(1) mark by (simp add: handle_request_def omap_at_def Let_def)
qed

lemma run_requests_total:
  assumes "graph_ok (cs_graph sim)" "cluster_inv sim wait R P st" "current_time (cl_queue st) = now"
    and "oracles_ok (cs_graph sim) (cs_estimate sim) wait R"
    and "\<forall>e\<in>set es. ge_request e \<in> R \<and> ge_time e = now \<and>
      unat (ge_shard e) < systematic_shard_count (cs_graph sim) + parity_shard_count (cs_graph sim)"
    and "sorted (map ge_request es)"
    and "\<forall>e\<in>set P. \<forall>e'\<in>set es. ge_request e = ge_request e' \<longrightarrow> ge_time e < now"
  shows "\<exists>st'. run_requests sim wait now es st = Inr st'"
  using assms
proof (induction sim wait now es st arbitrary: P rule: run_requests.induct)
  case (1 sim wait now st)
  then show ?case by simp
next
  case (2 sim wait now e es st)
  let ?r = "ge_request e"
  let ?G = "e # takeWhile (\<lambda>e'. ge_request e' = ?r) es"
  let ?rest = "dropWhile (\<lambda>e'. ge_request e' = ?r) es"
  have split: "takeWhile (\<lambda>e'. ge_request e' = ?r) es = filter (\<lambda>e'. ge_request e' = ?r) es"
      "?rest = filter (\<lambda>e'. ?r < ge_request e') es"
    using sorted_takeWhile_eq [of ge_request es ?r] "2.prems"(6) by auto
  have r: "?r \<in> R" using "2.prems"(5) by simp
  have G: "\<forall>x\<in>set ?G. ge_request x = ?r \<and> ge_time x = now"
      "\<forall>x\<in>set ?G. unat (ge_shard x) < systematic_shard_count (cs_graph sim) + parity_shard_count (cs_graph sim)"
    using "2.prems"(5) split(1) by auto
  obtain st1 where st1: "handle_request sim wait now ?r ?G st = Inr st1"
    using handle_request_total [OF "2.prems"(1,2) r "2.prems"(3,4) G(2)] by blast
  have step: "cluster_inv sim wait R (P @ ?G) st1 \<and> current_time (cl_queue st1) = now"
    by (rule handle_request_step [OF "2.prems"(1,2,3) r _ G(1) _ st1]) (use "2.prems"(7) in simp_all)
  have rest: "\<forall>x\<in>set ?rest. x \<in> set es \<and> ?r < ge_request x" using split(2) by simp
  have "\<exists>st'. run_requests sim wait now ?rest st1 = Inr st'"
  proof (rule "2.IH" [OF st1 "2.prems"(1) _ _ "2.prems"(4)])
    show "cluster_inv sim wait R (P @ ?G) st1" "current_time (cl_queue st1) = now" using step by simp_all
    show "\<forall>e\<in>set ?rest. ge_request e \<in> R \<and> ge_time e = now \<and>
      unat (ge_shard e) < systematic_shard_count (cs_graph sim) + parity_shard_count (cs_graph sim)"
      using "2.prems"(5) rest by auto
    show "sorted (map ge_request ?rest)"
      unfolding split(2) by (rule sorted_filter) (use "2.prems"(6) in simp)
    have "ge_request x \<noteq> ge_request y" if "x \<in> set ?G" "y \<in> set ?rest" for x y
      using that rest split(1) by auto
    then show "\<forall>x\<in>set (P @ ?G). \<forall>y\<in>set ?rest. ge_request x = ge_request y \<longrightarrow> ge_time x < now"
      using "2.prems"(7) rest by (metis UnE list.set_intros(2) set_append)
  qed
  then show ?case using st1 by simp
qed

lemma run_times_total:
  assumes "graph_ok (cs_graph sim)" "cluster_inv sim wait R P st" "oracles_ok (cs_graph sim) (cs_estimate sim) wait R"
    and "\<forall>e\<in>set es. ge_request e \<in> R \<and> 0 \<le> ge_time e \<and> current_time (cl_queue st) \<le> ge_time e \<and>
      unat (ge_shard e) < systematic_shard_count (cs_graph sim) + parity_shard_count (cs_graph sim)"
    and "time_request_sorted es" "\<forall>e\<in>set P. \<forall>e'\<in>set es. ge_time e < ge_time e'"
  shows "\<exists>st'. run_times sim wait es st = Inr st'"
  using assms
proof (induction sim wait es st arbitrary: P rule: run_times.induct)
  case (1 sim wait st)
  then show ?case by simp
next
  case (2 sim wait e es st)
  let ?now = "ge_time e"
  let ?G = "e # takeWhile (\<lambda>e'. ge_time e' = ?now) es"
  let ?rest = "dropWhile (\<lambda>e'. ge_time e' = ?now) es"
  note group = time_group [OF "2.prems"(5)]
  have now: "\<not> ?now < 0" using "2.prems"(4) by (simp add: not_less)
  have queue: "queue_ok (cl_queue st)" using "2.prems"(2) by (simp add: cluster_inv_def)
  obtain q' where q': "AdvanceTime ?now (cl_queue st) = Inr q'" "queue_ok q'" "current_time q' = ?now"
    using lq.advance_ok [OF queue, of ?now] "2.prems"(4) by auto
  let ?st = "st\<lparr>cl_queue := q'\<rparr>"
  have inv: "cluster_inv sim wait R P ?st" "current_time (cl_queue ?st) = ?now"
    using "2.prems"(2) q'(2,3) by (simp_all add: cluster_inv_def request_inv_def)
  have G: "\<forall>x\<in>set ?G. ge_request x \<in> R \<and> ge_time x = ?now \<and>
      unat (ge_shard x) < systematic_shard_count (cs_graph sim) + parity_shard_count (cs_graph sim)"
    using "2.prems"(4) group(4) by blast
  have G2: "\<forall>x\<in>set P. \<forall>y\<in>set ?G. ge_request x = ge_request y \<longrightarrow> ge_time x < ?now"
    using "2.prems"(6) by simp
  obtain st1 where st1: "run_requests sim wait ?now ?G ?st = Inr st1"
    using run_requests_total [OF "2.prems"(1) inv "2.prems"(3) G group(2) G2] by blast
  have step: "cluster_inv sim wait R (P @ ?G) st1 \<and> current_time (cl_queue st1) = ?now"
    by (rule run_requests_inv [OF "2.prems"(1) st1 inv _ group(2) G2]) (use G in blast)
  have "\<exists>st'. run_times sim wait ?rest st1 = Inr st'"
  proof (rule "2.IH" [OF refl now q'(1) st1 "2.prems"(1) _ "2.prems"(3) _ group(3)])
    show "cluster_inv sim wait R (P @ ?G) st1" using step by simp
    show "\<forall>x\<in>set ?rest. ge_request x \<in> R \<and> 0 \<le> ge_time x \<and> current_time (cl_queue st1) \<le> ge_time x \<and>
      unat (ge_shard x) < systematic_shard_count (cs_graph sim) + parity_shard_count (cs_graph sim)"
      using "2.prems"(4) group(5) step by auto
    show "\<forall>x\<in>set (P @ ?G). \<forall>y\<in>set ?rest. ge_time x < ge_time y"
    proof (intro ballI)
      fix x y
      assume x: "x \<in> set (P @ ?G)" and y: "y \<in> set ?rest"
      then have later: "y \<in> set (e # es)" "?now < ge_time y" using group(5) by auto
      consider "x \<in> set P" | "x \<in> set ?G" using x by auto
      then show "ge_time x < ge_time y"
      proof cases
        case 1
        then show ?thesis using "2.prems"(6) later(1) by blast
      next
        case 2
        then have "ge_time x = ?now" using group(4) by blast
        then show ?thesis using later(2) by simp
      qed
    qed
  qed
  then show ?case using now q'(1) st1 by (simp add: Let_def)
qed

text \<open>A schedule the simulator accepts.\<close>

definition schedule_valid :: "BipartiteGraph \<Rightarrow> GlobalArrivalEvent list \<Rightarrow> bool" where
  "schedule_valid g E \<longleftrightarrow>
     (\<forall>e\<in>set E. 0 \<le> ge_time e \<and> ge_start e \<le> ge_time e \<and>
        unat (ge_shard e) < systematic_shard_count g + parity_shard_count g \<and>
        (\<forall>e'\<in>set E. ge_request e' = ge_request e \<longrightarrow> ge_start e' = ge_start e) \<and>
        (\<forall>i. unat i < systematic_shard_count g \<longrightarrow>
           (\<exists>e'\<in>set E. ge_request e' = ge_request e \<and> ge_shard e' = i)))"

lemma prepare_total:
  assumes g: "graph_ok g" and E: "schedule_valid g E" "set es \<subseteq> set E"
  shows "\<exists>r. foldE (prepare_event (systematic_shard_count g) (parity_shard_count g)) es ([], []) = Inr r"
proof -
  obtain tr0 where tr0: "ShardArrivalTracker_new (systematic_shard_count g) (parity_shard_count g) = Inr tr0"
    using tracker_for_new [OF g] by blast
  define I where "I done st \<longleftrightarrow> (case st of (trackers :: (RequestId, ShardArrivalTracker) omap, starts) \<Rightarrow>
      omap_ok starts \<and> (\<forall>r s. omap_find starts r = Some s \<longrightarrow> (\<exists>e\<in>set E. ge_request e = r \<and> ge_start e = s)))"
    for "done" :: "GlobalArrivalEvent list" and st
  have "\<exists>r. foldE (prepare_event (systematic_shard_count g) (parity_shard_count g)) es ([], []) = Inr r \<and> I es r"
  proof (rule foldE_total)
    show "I [] ([], [])" by (simp add: I_def)
    fix pre e rest u
    assume split: "es = pre @ e # rest" and inv: "I pre u"
    obtain trs sts where u: "u = (trs, sts)" by (cases u)
    have "e \<in> set es" using split by simp
    then have e: "e \<in> set E" using E(2) by blast
    then have "ge_start e \<le> ge_time e" using E(1) unfolding schedule_valid_def by blast
    then have le: "\<not> ge_time e < ge_start e" by simp
    obtain trs' where trs': "(case omap_find trs (ge_request e) of
                Some _ \<Rightarrow> Inr trs
              | None \<Rightarrow> bindE (ShardArrivalTracker_new (systematic_shard_count g) (parity_shard_count g))
                  (\<lambda>tracker. Inr (omap_emplace (ge_request e) tracker trs))) = (Inr trs' :: _ result)"
      using tr0 by (cases "omap_find trs (ge_request e)") auto
    show "\<exists>v. prepare_event (systematic_shard_count g) (parity_shard_count g) e u = Inr v \<and> I (pre @ [e]) v"
    proof (cases "omap_find sts (ge_request e)")
      case None
      have old: "omap_ok sts" "\<And>r s. omap_find sts r = Some s \<Longrightarrow> \<exists>e\<in>set E. ge_request e = r \<and> ge_start e = s"
        using inv by (simp_all add: I_def u)
      have new: "map_of (omap_emplace (ge_request e) (ge_start e) sts) = (map_of sts)(ge_request e \<mapsto> ge_start e)"
        using old(1) None by (simp add: find_omap_emplace)
      have "\<exists>x\<in>set E. ge_request x = r \<and> ge_start x = s"
        if f: "omap_find (omap_emplace (ge_request e) (ge_start e) sts) r = Some s" for r s
      proof (cases "r = ge_request e")
        case True
        then show ?thesis using f new e by auto
      next
        case False
        then show ?thesis using f new old(2) by simp
      qed
      then have "I (pre @ [e]) (trs', omap_emplace (ge_request e) (ge_start e) sts)"
        using old(1) by (simp add: I_def omap_ok_emplace)
      then show ?thesis using None le trs' by (simp add: prepare_event_def u)
    next
      case (Some s)
      then obtain e' where "e' \<in> set E" "ge_request e' = ge_request e" "ge_start e' = s"
        using inv by (auto simp: I_def u)
      moreover have "ge_start e' = ge_start e"
        using E(1) e calculation(1,2) unfolding schedule_valid_def by blast
      ultimately have "s = ge_start e" by simp
      then show ?thesis using Some le trs' inv by (simp add: prepare_event_def u I_def)
    qed
  qed
  then show ?thesis by blast
qed

lemma Run_cluster_total:
  assumes g: "graph_ok (cs_graph sim)" and q: "queue_ok (cs_queue sim)"
    and E: "schedule_valid (cs_graph sim) E" "\<forall>e\<in>set E. current_time (cs_queue sim) \<le> ge_time e"
    and o: "oracles_ok (cs_graph sim) (cs_estimate sim) wait (ge_request ` set E)"
  shows "\<exists>r. ClusterSimulator_Run sim E (Some wait) = Inr r"
proof -
  let ?g = "cs_graph sim" and ?E = "sort_events E"
  have setE: "set ?E = set E" by (simp add: sort_events_def)
  obtain trackers starts where prep: "foldE (prepare_event (systematic_shard_count ?g) (parity_shard_count ?g))
      ?E ([], []) = Inr (trackers, starts)"
    using prepare_total [OF g E(1), of ?E] setE by auto
  let ?st = "\<lparr>cl_queue = cs_queue sim, cl_trackers = trackers, cl_natural = [], cl_recovery = [],
      cl_rejected = [], cl_waited = [], cl_unrecoverable = []\<rparr>"
  note prepared = prepare_events [OF g prep]
  have k: "0 < systematic_shard_count ?g" using g by (simp add: graph_ok_def)
  have none: "\<not> complete_by ?g [] t" for t
    using k by (auto simp: complete_by_def arrived_by_def intro!: exI [of _ 0])
  have start: "cluster_inv sim wait (ge_request ` set E) [] ?st"
    using prepared q none setE by (auto simp: cluster_inv_def request_inv_def first_complete_def)
  obtain st where st: "run_times sim wait ?E ?st = Inr st"
    using run_times_total [OF g start o, of ?E] E setE time_request_sorted_sort
    by (auto simp: schedule_valid_def)
  have "cluster_inv sim wait (ge_request ` set E) ([] @ ?E) st \<and> (\<forall>e\<in>set ?E. 0 \<le> ge_time e)"
    by (rule run_times_inv [OF g st start]) (simp_all add: setE time_request_sorted_sort)
  then have inv: "cluster_inv sim wait (ge_request ` set E) ?E st" by simp
  have metric: "\<exists>m. request_metrics starts st r = Inr m" if r: "r \<in> ge_request ` set E" for r
  proof -
    obtain e where e: "e \<in> set E" "ge_request e = r" using r by blast
    define T where "T = Max (ge_time ` set E)"
    have "complete_by ?g (events_of ?E r) T"
      unfolding complete_by_def
    proof (intro allI impI)
      fix i :: ShardId
      assume "unat i < systematic_shard_count ?g"
      then obtain e' where e': "e' \<in> set E" "ge_request e' = r" "ge_shard e' = i"
        using E(1) e unfolding schedule_valid_def by blast
      then have "ge_time e' \<le> T" by (simp add: T_def)
      then have "\<lparr>ev_shard = ge_shard e', ev_time = ge_time e'\<rparr> \<in> {x \<in> set (events_of ?E r). ev_time x \<le> T}"
        using e' setE by (auto simp: set_events_of)
      then show "i \<in> arrived_by (events_of ?E r) T"
        unfolding arrived_by_def using e'(3) by (metis (no_types, lifting) ShardArrivalEvent.select_convs(1) imageI)
    qed
    moreover have "request_inv sim wait ?E st r" using inv r unfolding cluster_inv_def by blast
    ultimately obtain t where "omap_find (cl_natural st) r = Some t"
      by (cases "omap_find (cl_natural st) r") (auto simp: request_inv_def first_complete_def)
    moreover have "omap_find starts r = Some (ge_start e)" using prepared e setE by auto
    ultimately show ?thesis
      by (auto simp: request_metrics_def omap_at_def Let_def split: option.splits)
  qed
  have loop: "\<exists>metrics. foldE (\<lambda>(r, tracker) metrics. bindE (request_metrics starts st r)
      (\<lambda>m. Inr (omap_emplace r m metrics))) trs acc = Inr metrics"
    if "fst ` set trs \<subseteq> ge_request ` set E" for trs :: "(RequestId, ShardArrivalTracker) omap" and acc
    using that
  proof (induction trs arbitrary: acc)
    case (Cons x trs)
    obtain r tr where x: "x = (r, tr)" by (cases x)
    then have "r \<in> ge_request ` set E" using Cons.prems by simp
    then obtain m where "request_metrics starts st r = Inr m" using metric by blast
    then show ?case using Cons x by simp
  qed simp
  have "fst ` set (cl_trackers st) \<subseteq> ge_request ` set E" using inv unfolding cluster_inv_def by simp
  from loop [OF this, of "[]"] obtain metrics where "foldE (\<lambda>(r, tracker) metrics. bindE (request_metrics starts st r)
      (\<lambda>m. Inr (omap_emplace r m metrics))) (cl_trackers st) [] = Inr metrics" ..
  then show ?thesis using prep st by (simp add: ClusterSimulator_Run_def Let_def)
qed

section \<open>Properties\<close>

text \<open>
  C15. The metrics of a run. Every request that has events gets an entry, and no other. Its natural
  completion is the latest over the systematic shards of their earliest arrival; its latency is the
  earlier of that and the completion of an admitted recovery, relative to the start of the request;
  an admitted recovery was priced at one of the request's arrival instants, before completion, for
  a recoverable plan of the shards missing then, at no less than the plan's service time and below
  the expected remaining wait.
\<close>

theorem cluster_metrics_sound:
  assumes "omap_ok (parity_to_systematic g)" "RecoveryQueue_new concurrency depth = Inr q" "depth < 2 ^ 64"
    and "ClusterSimulator_new g q (Some est) = Inr sim"
    and "ClusterSimulator_Run sim E (Some wait) = Inr (metrics, sim')"
  shows "fst ` set metrics = ge_request ` set E \<and>
    (\<forall>(r, m)\<in>set metrics. \<forall>e\<in>set E. ge_request e = r \<longrightarrow>
       (\<exists>recovery. metrics_for (natural_time g E r) (ge_start e) recovery m \<and>
          (\<forall>c. recovery = Some c \<longrightarrow> admission_ok g est (wait r) (events_of E r) c)))"
proof -
  have sim: "graph_ok g" "sim = \<lparr>cs_graph = g, cs_queue = q, cs_estimate = est\<rparr>"
    using assms(4) ClusterSimulator_new_Inr [OF assms(1)] by blast+
  have q: "queue_ok q" using queue_ok_new assms(2,3) by blast
  have fields: "cs_graph sim = g" "cs_estimate sim = est" "cs_queue sim = q" using sim(2) by simp_all
  show ?thesis
    using Run_cluster [OF _ _ assms(5)] sim(1) q unfolding fields by blast
qed

text \<open>What a run recorded of one request, over the events of that request.\<close>

lemma Run_cluster_request:
  assumes "omap_ok (parity_to_systematic g)" "RecoveryQueue_new concurrency depth = Inr q" "depth < 2 ^ 64"
    and "ClusterSimulator_new g q (Some est) = Inr sim"
    and "ClusterSimulator_Run sim E (Some wait) = Inr (metrics, sim')"
    and "(ge_request e, m) \<in> set metrics" "e \<in> set E"
  shows "(\<forall>e\<in>set E. 0 \<le> ge_time e \<and> ge_start e \<le> ge_time e \<and>
       (\<forall>e'\<in>set E. ge_request e' = ge_request e \<longrightarrow> ge_start e' = ge_start e))"
    and "natural_time g E (ge_request e) \<in> ev_time ` set (events_of E (ge_request e))"
    and "\<exists>recovery. metrics_for (natural_time g E (ge_request e)) (ge_start e) recovery m \<and>
          (\<forall>c. recovery = Some c \<longrightarrow> admission_ok g est (wait (ge_request e)) (events_of E (ge_request e)) c)"
proof -
  have sim: "graph_ok g" "sim = \<lparr>cs_graph = g, cs_queue = q, cs_estimate = est\<rparr>"
    using assms(4) ClusterSimulator_new_Inr [OF assms(1)] by blast+
  have "queue_ok q" using queue_ok_new assms(2,3) by blast
  then have "graph_ok (cs_graph sim)" "queue_ok (cs_queue sim)" using sim by simp_all
  note all = Run_cluster [OF this assms(5)]
  show "(\<forall>e\<in>set E. 0 \<le> ge_time e \<and> ge_start e \<le> ge_time e \<and>
       (\<forall>e'\<in>set E. ge_request e' = ge_request e \<longrightarrow> ge_start e' = ge_start e))"
    using all by blast
  have "natural_time (cs_graph sim) E (ge_request e) \<in> ev_time ` set (events_of E (ge_request e)) \<and>
       (\<exists>recovery. metrics_for (natural_time (cs_graph sim) E (ge_request e)) (ge_start e) recovery m \<and>
          (\<forall>c. recovery = Some c \<longrightarrow>
             admission_ok (cs_graph sim) (cs_estimate sim) (wait (ge_request e)) (events_of E (ge_request e)) c))"
    using all assms(6,7) by blast
  then show "natural_time g E (ge_request e) \<in> ev_time ` set (events_of E (ge_request e))"
      "\<exists>recovery. metrics_for (natural_time g E (ge_request e)) (ge_start e) recovery m \<and>
          (\<forall>c. recovery = Some c \<longrightarrow> admission_ok g est (wait (ge_request e)) (events_of E (ge_request e)) c)"
    by (simp_all add: sim(2))
qed

text \<open>
  C16. Coding never hurts and never goes back in time: the latency of every request lies between
  zero and the latency of waiting for its own systematic shards, whatever the estimator and the
  oracle say.
\<close>

theorem cluster_latency_bounds:
  assumes "omap_ok (parity_to_systematic g)" "RecoveryQueue_new concurrency depth = Inr q" "depth < 2 ^ 64"
    and "ClusterSimulator_new g q (Some est) = Inr sim"
    and "ClusterSimulator_Run sim E (Some wait) = Inr (metrics, sim')"
    and "(ge_request e, m) \<in> set metrics" "e \<in> set E"
  shows "0 \<le> latency m \<and> latency m \<le> natural_time g E (ge_request e) - ge_start e"
proof -
  let ?r = "ge_request e"
  note run = Run_cluster_request [OF assms]
  have times: "ge_start e \<le> t" if t: "t \<in> ev_time ` set (events_of E ?r)" for t
  proof -
    obtain e' where "e' \<in> set E" "ge_request e' = ?r" "t = ge_time e'"
      using t by (auto simp: set_events_of)
    then show ?thesis using run(1) assms(7) by fastforce
  qed
  obtain recovery where rec: "metrics_for (natural_time g E ?r) (ge_start e) recovery m"
      "\<forall>c. recovery = Some c \<longrightarrow> admission_ok g est (wait ?r) (events_of E ?r) c"
    using run(3) by blast
  have "ge_start e \<le> c" if "recovery = Some c" for c
  proof -
    have "admission_ok g est (wait ?r) (events_of E ?r) c" using rec(2) that by blast
    then obtain s plan service where "s \<in> ev_time ` set (events_of E ?r)" "0 < service" "s + service \<le> c"
      unfolding admission_ok_def by blast
    then show ?thesis using times [of s] by simp
  qed
  then show ?thesis
    using rec(1) times [OF run(2)] by (auto simp: metrics_for_def split: option.splits)
qed

text \<open>
  A simulator on a fresh queue returns for every valid schedule: known shards at non-negative
  times no earlier than their request's single start time, every systematic shard arriving, an
  estimator that prices the graph's non-empty plans and an oracle that answers for every request.
\<close>

theorem cluster_run_returns:
  assumes "omap_ok (parity_to_systematic g)" "RecoveryQueue_new concurrency depth = Inr q" "depth < 2 ^ 64"
    and "ClusterSimulator_new g q (Some est) = Inr sim"
    and "schedule_valid g E" "oracles_ok g est wait (ge_request ` set E)"
  shows "\<exists>metrics sim'. ClusterSimulator_Run sim E (Some wait) = Inr (metrics, sim')"
proof -
  have sim: "graph_ok g" "sim = \<lparr>cs_graph = g, cs_queue = q, cs_estimate = est\<rparr>"
    using assms(4) ClusterSimulator_new_Inr [OF assms(1)] by blast+
  have q: "queue_ok q" using queue_ok_new assms(2,3) by blast
  have "current_time q = 0" using assms(2) by (auto simp: RecoveryQueue_new_def split: if_splits)
  then have "\<forall>e\<in>set E. current_time q \<le> ge_time e" using assms(5) unfolding schedule_valid_def by simp
  then show ?thesis using Run_cluster_total [of sim E wait] sim q assms(5,6) by auto
qed

text \<open>
  The queue survives a run: its invariant (exact depth, bounded by the limit) holds of the
  simulator's queue afterwards, so a simulator can be run again.
\<close>

theorem cluster_queue_invariant:
  assumes "omap_ok (parity_to_systematic g)" "queue_ok q" "ClusterSimulator_new g q (Some est) = Inr sim"
    and "ClusterSimulator_Run sim E (Some wait) = Inr (metrics, sim')"
  shows "queue_ok (cs_queue sim')"
proof -
  have "graph_ok (cs_graph sim)" "queue_ok (cs_queue sim)"
    using assms(2,3) ClusterSimulator_new_Inr [OF assms(1)] by auto
  from Run_cluster [OF this assms(4)] show ?thesis by blast
qed

section \<open>A concrete run\<close>

definition example_cluster_events :: "GlobalArrivalEvent list" where
  "example_cluster_events = map (\<lambda>(t, r, i). \<lparr>ge_time = t, ge_request = r, ge_shard = i, ge_start = 1\<rparr>)
     [(20, 7, 0), (2, 7, 3), (1, 7, 1), (5, 7, 2)]"

definition example_simulator :: ClusterSimulator where
  "example_simulator = \<lparr>cs_graph = example_graph,
     cs_queue = \<lparr>slot_available_times = [0], max_queue_depth = 2, current_queue_depth = 0,
       job_completion_times = {#}, current_time = 0\<rparr>,
     cs_estimate = (\<lambda>plan. Inr 4)\<rparr>"

lemma example_queue:
  "RecoveryQueue_new 1 2 = Inr (cs_queue example_simulator)"
  by (simp add: RecoveryQueue_new_def example_simulator_def)

lemma example_cluster:
  "ClusterSimulator_new example_graph (cs_queue example_simulator) (Some (\<lambda>plan. Inr 4)) = Inr example_simulator"
  using ClusterSimulator_new_Inr [OF example_graph_valid(1)] example_graph_ok
  by (simp add: example_simulator_def)

lemma example_cluster_schedule:
  "schedule_valid example_graph example_cluster_events"
  "oracles_ok example_graph (\<lambda>plan. Inr 4) (\<lambda>r t. Inr 10) (ge_request ` set example_cluster_events)"
proof -
  have "i = 0 \<or> i = 1 \<or> i = 2" if "unat i < 3" for i :: ShardId
  proof -
    have "unat i = 0 \<or> unat i = 1 \<or> unat i = 2" using that by auto
    then have "i = of_nat 0 \<or> i = of_nat 1 \<or> i = of_nat 2" by (metis of_nat_unat_ShardId)
    then show ?thesis by simp
  qed
  then show "schedule_valid example_graph example_cluster_events"
    by (auto simp: schedule_valid_def example_cluster_events_def example_graph_def)
  show "oracles_ok example_graph (\<lambda>plan. Inr 4) (\<lambda>r t. Inr 10) (ge_request ` set example_cluster_events)"
    by (simp add: oracles_ok_def)
qed

lemma example_cluster_run:
  obtains metrics sim' where "ClusterSimulator_Run example_simulator example_cluster_events (Some (\<lambda>r t. Inr 10))
    = Inr (metrics, sim')"
proof -
  have "graph_ok (cs_graph example_simulator)" "queue_ok (cs_queue example_simulator)"
    using example_graph_ok queue_ok_new [OF example_queue] by (simp_all add: example_simulator_def)
  from Run_cluster_total [OF this, of example_cluster_events "\<lambda>r t. Inr 10"] example_cluster_schedule that
  show ?thesis by (auto simp: example_simulator_def example_cluster_events_def)
qed

theorem cluster_run_returns_witness:
  "\<exists>metrics sim'. ClusterSimulator_Run example_simulator example_cluster_events (Some (\<lambda>r t. Inr 10))
     = Inr (metrics, sim')"
  by (rule cluster_run_returns [OF example_graph_valid(1) example_queue _ example_cluster example_cluster_schedule]) simp

theorem cluster_metrics_sound_witness:
  "\<exists>metrics sim'. ClusterSimulator_Run example_simulator example_cluster_events (Some (\<lambda>r t. Inr 10))
     = Inr (metrics, sim') \<and> fst ` set metrics = {7}"
proof -
  obtain metrics sim' where run: "ClusterSimulator_Run example_simulator example_cluster_events (Some (\<lambda>r t. Inr 10))
     = Inr (metrics, sim')" by (rule example_cluster_run)
  have "fst ` set metrics = ge_request ` set example_cluster_events"
    using cluster_metrics_sound [OF example_graph_valid(1) example_queue _ example_cluster run] by simp
  then show ?thesis using run by (simp add: example_cluster_events_def)
qed

theorem cluster_latency_bounds_witness:
  "\<exists>metrics sim' m. ClusterSimulator_Run example_simulator example_cluster_events (Some (\<lambda>r t. Inr 10))
     = Inr (metrics, sim') \<and> (7, m) \<in> set metrics \<and> 0 \<le> latency m \<and> latency m \<le> 19"
proof -
  obtain metrics sim' where run: "ClusterSimulator_Run example_simulator example_cluster_events (Some (\<lambda>r t. Inr 10))
     = Inr (metrics, sim')" by (rule example_cluster_run)
  have "graph_ok (cs_graph example_simulator)" "queue_ok (cs_queue example_simulator)"
    using example_graph_ok queue_ok_new [OF example_queue] by (simp_all add: example_simulator_def)
  from Run_cluster [OF this run] have "fst ` set metrics = {7}" by (simp add: example_cluster_events_def)
  then obtain m where m: "(7, m) \<in> set metrics" by force
  define e where "e = \<lparr>ge_time = 20, ge_request = 7, ge_shard = 0, ge_start = 1\<rparr>"
  have e: "e \<in> set example_cluster_events" "ge_request e = 7" "ge_start e = 1"
    by (simp_all add: e_def example_cluster_events_def)
  have "ev_time ` {x \<in> set (events_of example_cluster_events 7). ev_shard x = 0} = {20}"
    "ev_time ` {x \<in> set (events_of example_cluster_events 7). ev_shard x = 1} = {1}"
    "ev_time ` {x \<in> set (events_of example_cluster_events 7). ev_shard x = 2} = {5}"
    by (force simp: example_cluster_events_def events_of_def)+
  then have "natural_time example_graph example_cluster_events 7 = 20"
    by (simp add: natural_time_def example_graph_def earliest_arrival_def numeral_3_eq_3
        atLeast0_lessThan_Suc insert_commute)
  then show ?thesis
    using cluster_latency_bounds [OF example_graph_valid(1) example_queue _ example_cluster run, of e m] e m run
    by auto
qed

theorem cluster_queue_invariant_witness:
  "\<exists>metrics sim'. ClusterSimulator_Run example_simulator example_cluster_events (Some (\<lambda>r t. Inr 10))
     = Inr (metrics, sim') \<and> queue_ok (cs_queue sim')"
proof -
  obtain metrics sim' where run: "ClusterSimulator_Run example_simulator example_cluster_events (Some (\<lambda>r t. Inr 10))
     = Inr (metrics, sim')" by (rule example_cluster_run)
  have "queue_ok (cs_queue example_simulator)" using queue_ok_new [OF example_queue] by simp
  from cluster_queue_invariant [OF example_graph_valid(1) this example_cluster run] run show ?thesis by blast
qed

end
