(* ===== verification/Kernel.thy ===== *)
theory Kernel imports CoreTypes "HOL-Library.Signed_Division" "HOL-Library.Monad_Syntax" begin

text \<open>
  The GPU kernels of \<open>kernels/sparse_decoder.cu\<close>, their launch configuration from
  \<open>include/codedllm/kernels/tuning.cuh\<close>, and the CPU reference of \<open>src/cpu_reference.cpp\<close>.

  A thread is the list of the words it writes, in program order; a launch is one thread per (block,
  thread) pair; an execution of the launch is any interleaving of its threads' writes. The grid-stride
  loops are partial functions in the option type, \<open>None\<close> being a loop that does not end. The kernels
  read only buffers that they do not write, so a thread's values do not depend on the interleaving.

  The CUDA runtime (occupancy queries, device properties) is a parameter. Buffer indices are natural
  numbers: an index below \<open>word_count\<close> plus one stride is far below \<open>2 ^ 64\<close> for any buffer that fits
  a device.
\<close>

section \<open>Launch configuration\<close>

record DeviceTuningConfig =
  threads_per_block :: int
  blocks_per_sm :: int
  max_grid_blocks :: int
  vectorization_threshold_words :: nat

text \<open>The answers of the CUDA runtime that \<open>GetOptimalLaunchConfig\<close> uses.\<close>

record DeviceQueries =
  multiProcessorCount :: int
  maxGridSize0 :: int
  min_grid_size :: int
  occupancy_block_size :: int
  active_blocks_per_sm :: int

definition int_max :: int where
  "int_max = 2147483647"

definition size_of_int :: "int \<Rightarrow> nat" where
  "size_of_int i = nat (i mod 2 ^ 64)"

definition GetOptimalLaunchConfig :: "DeviceQueries \<Rightarrow> DeviceTuningConfig result" where
  "GetOptimalLaunchConfig dq =
     (if multiProcessorCount dq \<le> 0
      then Inl (RuntimeError ''CUDA device reports no streaming multiprocessors'')
      else (let potential = max 1 ((min_grid_size dq + multiProcessorCount dq - 1) sdiv multiProcessorCount dq);
                per_sm = max 1 (min potential (active_blocks_per_sm dq));
                requested = multiProcessorCount dq * per_sm * 2;
                bounded = min requested (maxGridSize0 dq)
            in Inr \<lparr>threads_per_block = occupancy_block_size dq, blocks_per_sm = per_sm,
                    max_grid_blocks = min bounded int_max,
                    vectorization_threshold_words = size_of_int (occupancy_block_size dq) * 4 mod 2 ^ 64\<rparr>))"

text \<open>The kernels, as keys of the launch-configuration cache.\<close>

datatype KernelId = Dummy_kernel | Optimized_kernel nat | Dynamic_kernel

type_synonym config_cache = "((int \<times> KernelId) \<times> DeviceTuningConfig) list"

definition GetCachedOptimalLaunchConfig ::
  "(int \<Rightarrow> KernelId \<Rightarrow> DeviceQueries) \<Rightarrow> KernelId \<Rightarrow> int \<Rightarrow> config_cache \<Rightarrow>
   (DeviceTuningConfig \<times> config_cache) result" where
  "GetCachedOptimalLaunchConfig queries kern device_id cache =
     (case map_of cache (device_id, kern) of
        Some config \<Rightarrow> Inr (config, cache)
      | None \<Rightarrow> bindE (GetOptimalLaunchConfig (queries device_id kern))
          (\<lambda>config. Inr (config, cache @ [((device_id, kern), config)])))"

definition CalculateGridBlocks :: "nat \<Rightarrow> nat \<Rightarrow> DeviceTuningConfig \<Rightarrow> nat" where
  "CalculateGridBlocks word_count words_per_thread config =
     (let words_per_block = size_of_int (threads_per_block config) * words_per_thread mod 2 ^ 64;
          required_blocks = word_count div words_per_block
            + (if word_count mod words_per_block \<noteq> 0 then 1 else 0)
      in max 1 (min required_blocks (size_of_int (max_grid_blocks config))))"

section \<open>Threads\<close>

type_synonym word_write = "nat \<times> ShardWord"
type_synonym device_table = "WordShard option list"

text \<open>\<open>for (index = first; index < size; index += stride)\<close>\<close>

partial_function (option) grid_stride :: "nat \<Rightarrow> nat \<Rightarrow> nat \<Rightarrow> nat list option" where
  "grid_stride index stride count =
     (if index < count
      then Option.bind (grid_stride (index + stride) stride count) (\<lambda>rest. Some (index # rest))
      else Some [])"

definition read_word :: "device_table \<Rightarrow> ShardId \<Rightarrow> nat \<Rightarrow> ShardWord" where
  "read_word table s w = the (table ! unat s) ! w"

text \<open>The accumulation over the sources, for one word.\<close>

definition xor_sources :: "device_table \<Rightarrow> ShardId list \<Rightarrow> nat \<Rightarrow> ShardWord" where
  "xor_sources table sources w = foldl (\<lambda>value s. value XOR read_word table s w) 0 sources"

text \<open>One iteration of the vector loop: a \<open>uint4\<close> is four consecutive words.\<close>

definition vector_writes :: "device_table \<Rightarrow> ShardId list \<Rightarrow> nat \<Rightarrow> word_write list" where
  "vector_writes table sources vector_index =
     map (\<lambda>lane. (4 * vector_index + lane, xor_sources table sources (4 * vector_index + lane))) [0..<4]"

definition xor_thread ::
  "device_table \<Rightarrow> ShardId list \<Rightarrow> nat \<Rightarrow> nat \<Rightarrow> nat \<Rightarrow> nat \<times> nat \<Rightarrow> word_write list option" where
  "xor_thread table sources word_count blocks threads bt =
     (case bt of (b, t) \<Rightarrow>
       let vector_word_count = word_count div 4; stride = threads * blocks in
       Option.bind (grid_stride (b * threads + t) stride vector_word_count) (\<lambda>indices.
         let tail_start = vector_word_count * 4; tail_count = word_count - tail_start in
         Some (concat (map (vector_writes table sources) indices) @
           (if b = 0 \<and> t < tail_count
            then [(tail_start + t, xor_sources table sources (tail_start + t))] else []))))"

text \<open>The unrolled kernel reads \<open>Degree\<close> source identifiers, the dynamic one \<open>source_count\<close>.\<close>

definition xor_reconstruct_kernel_optimized ::
  "nat \<Rightarrow> device_table \<Rightarrow> ShardId list \<Rightarrow> nat \<Rightarrow> nat \<Rightarrow> nat \<Rightarrow> nat \<times> nat \<Rightarrow> word_write list option" where
  "xor_reconstruct_kernel_optimized degree table source_ids word_count blocks threads =
     xor_thread table (map (\<lambda>i. source_ids ! i) [0..<degree]) word_count blocks threads"

definition xor_reconstruct_kernel_dynamic ::
  "device_table \<Rightarrow> ShardId list \<Rightarrow> nat \<Rightarrow> nat \<Rightarrow> nat \<Rightarrow> nat \<Rightarrow> nat \<times> nat \<Rightarrow> word_write list option" where
  "xor_reconstruct_kernel_dynamic table source_ids source_count word_count blocks threads =
     xor_thread table (map (\<lambda>i. source_ids ! i) [0..<source_count]) word_count blocks threads"

definition dummy_reconstruct_kernel ::
  "WordShard \<Rightarrow> WordShard \<Rightarrow> nat \<Rightarrow> nat \<Rightarrow> nat \<Rightarrow> nat \<times> nat \<Rightarrow> word_write list option" where
  "dummy_reconstruct_kernel shard_a shard_b count blocks threads bt =
     (case bt of (b, t) \<Rightarrow>
       Option.bind (grid_stride (b * threads + t) (threads * blocks) count)
         (\<lambda>indices. Some (map (\<lambda>i. (i, shard_a ! i XOR shard_b ! i)) indices)))"

section \<open>Launches\<close>

definition launch :: "nat \<Rightarrow> nat \<Rightarrow> (nat \<times> nat \<Rightarrow> word_write list option) \<Rightarrow> word_write list list option" where
  "launch blocks threads kern = those (map kern (List.product [0..<blocks] [0..<threads]))"

definition apply_writes :: "word_write list \<Rightarrow> WordShard \<Rightarrow> WordShard" where
  "apply_writes ws out = foldl (\<lambda>buf (i, w). buf[i := w]) out ws"

inductive interleaving :: "'a list list \<Rightarrow> 'a list \<Rightarrow> bool" where
  all_done: "\<forall>xs\<in>set xss. xs = [] \<Longrightarrow> interleaving xss []"
| one_step: "i < length xss \<Longrightarrow> xss ! i = x # xs \<Longrightarrow> interleaving (xss[i := xs]) ys \<Longrightarrow>
     interleaving xss (x # ys)"

text \<open>The schedule that runs the threads one after the other.\<close>

definition run_kernel ::
  "nat \<Rightarrow> nat \<Rightarrow> (nat \<times> nat \<Rightarrow> word_write list option) \<Rightarrow> WordShard \<Rightarrow> WordShard option" where
  "run_kernel blocks threads kern out =
     map_option (\<lambda>programs. apply_writes (concat programs) out) (launch blocks threads kern)"

definition run_sparse_decode_cpu :: "WordShard \<Rightarrow> WordShard \<Rightarrow> WordShard \<Rightarrow> nat \<Rightarrow> WordShard" where
  "run_sparse_decode_cpu shard_a shard_b reconstructed_c count =
     fold (\<lambda>i c. c[i := shard_a ! i XOR shard_b ! i]) [0..<count] reconstructed_c"

section \<open>Interleavings and writes\<close>

lemma interleaving_set: "interleaving xss ys \<Longrightarrow> set ys = \<Union> (set ` set xss)"
proof (induction rule: interleaving.induct)
  case (all_done xss)
  then show ?case by auto
next
  case (one_step i xss x xs ys)
  have "\<Union> (set ` set xss) = insert x (\<Union> (set ` set (xss[i := xs])))"
  proof -
    have mem: "x # xs \<in> set xss" using one_step.hyps(1,2) by (metis nth_mem)
    have keep: "y \<in> set (xss[i := xs]) \<or> y = x # xs" if y: "y \<in> set xss" for y
    proof -
      obtain j where "j < length xss" "xss ! j = y" using y by (auto simp: in_set_conv_nth)
      then show ?thesis
        using one_step.hyps(1,2) by (cases "j = i") (auto simp: in_set_conv_nth intro!: exI [of _ j])
    qed
    have new: "xs \<in> set (xss[i := xs])" using one_step.hyps(1) by (rule set_update_memI)
    have old: "y = xs \<or> y \<in> set xss" if "y \<in> set (xss[i := xs])" for y
      using set_update_subset_insert [of xss i xs] that by blast
    have U: "set (x # xs) \<subseteq> \<Union> (set ` set xss)" using mem by blast
    show ?thesis
    proof (intro set_eqI iffI)
      fix z
      assume "z \<in> \<Union> (set ` set xss)"
      then obtain y where "y \<in> set xss" "z \<in> set y" by blast
      then show "z \<in> insert x (\<Union> (set ` set (xss[i := xs])))"
        using keep [of y] new by auto
    next
      fix z
      assume "z \<in> insert x (\<Union> (set ` set (xss[i := xs])))"
      then consider "z = x" | y where "y \<in> set (xss[i := xs])" "z \<in> set y" by blast
      then show "z \<in> \<Union> (set ` set xss)"
      proof cases
        case 1
        then show ?thesis using U by auto
      next
        case (2 y)
        then consider "y = xs" | "y \<in> set xss" using old by blast
        then show ?thesis
        proof cases
          case 1
          then show ?thesis using U \<open>z \<in> set y\<close> by auto
        next
          case 2
          then show ?thesis using \<open>z \<in> set y\<close> by blast
        qed
      qed
    qed
  qed
  then show ?case using one_step.IH by simp
qed

lemma interleaving_concat: "interleaving xss (concat xss)"
proof (induction "concat xss" arbitrary: xss)
  case Nil
  then have c: "concat xss = []" by simp
  show ?case unfolding c by (rule interleaving.all_done) (use c in auto)
next
  case (Cons y ys)
  have "\<exists>i < length xss. xss ! i = y # tl (xss ! i) \<and> concat (xss[i := tl (xss ! i)]) = ys"
    using Cons.hyps(2)
  proof (induction xss)
    case (Cons zs zss)
    show ?case
    proof (cases zs)
      case Nil
      then obtain i where "i < length zss" "zss ! i = y # tl (zss ! i)" "concat (zss[i := tl (zss ! i)]) = ys"
        using Cons by auto
      then show ?thesis using Nil by (intro exI [of _ "Suc i"]) simp
    next
      case (Cons a list)
      then show ?thesis using Cons.prems by (intro exI [of _ 0]) simp
    qed
  qed simp
  then obtain i where i: "i < length xss" "xss ! i = y # tl (xss ! i)" "concat (xss[i := tl (xss ! i)]) = ys"
    by blast
  have "interleaving (xss[i := tl (xss ! i)]) ys" using Cons.hyps(1) [of "xss[i := tl (xss ! i)]"] i(3) by simp
  then show ?case using i(1,2) Cons.hyps(2) by (metis interleaving.one_step)
qed

lemma length_apply_writes [simp]: "length (apply_writes ws out) = length out"
  by (induction ws arbitrary: out) (auto simp: apply_writes_def split: prod.splits)

text \<open>When every write to a word stores the same value, only the set of writes matters.\<close>

lemma apply_writes_eq:
  assumes "\<forall>(i, w)\<in>set ws. w = f i" "{..<length out} \<subseteq> fst ` set ws"
  shows "apply_writes ws out = map f [0..<length out]"
proof (rule nth_equalityI)
  show "length (apply_writes ws out) = length (map f [0..<length out])" by simp
  fix j
  assume "j < length (apply_writes ws out)"
  then have j: "j < length out" by simp
  have "apply_writes ws buf ! j = (if j \<in> fst ` set ws then f j else buf ! j)"
    if "\<forall>(i, w)\<in>set ws. w = f i" "j < length buf" for ws buf
    using that
  proof (induction ws arbitrary: buf)
    case (Cons x ws)
    obtain i w where x: "x = (i, w)" by (cases x)
    then have "apply_writes (x # ws) buf = apply_writes ws (buf[i := w])" by (simp add: apply_writes_def)
    then show ?case using Cons x by auto
  qed (simp add: apply_writes_def)
  from this [OF assms(1) j] show "apply_writes ws out ! j = map f [0..<length out] ! j"
    using assms(2) j by auto
qed

section \<open>Grid-stride loops\<close>

lemma grid_stride_done: "count \<le> index \<Longrightarrow> grid_stride index stride count = Some []"
  by (subst grid_stride.simps) simp

lemma grid_stride_total:
  assumes "0 < stride"
  shows "\<exists>is. grid_stride index stride count = Some is \<and> distinct is \<and>
    set is = {j. index \<le> j \<and> j < count \<and> j mod stride = index mod stride}"
proof (induction "count - index" arbitrary: index rule: less_induct)
  case less
  show ?case
  proof (cases "index < count")
    case False
    then show ?thesis by (subst grid_stride.simps) auto
  next
    case True
    have "count - (index + stride) < count - index" using True assms by simp
    from less [OF this] obtain rest where rest: "grid_stride (index + stride) stride count = Some rest" "distinct rest"
        "set rest = {j. index + stride \<le> j \<and> j < count \<and> j mod stride = (index + stride) mod stride}"
      by blast
    have "j = index \<or> index + stride \<le> j" if "index \<le> j" "j mod stride = index mod stride" for j
    proof (rule ccontr)
      assume "\<not> ?thesis"
      then have "0 < j - index" "j - index < stride" using that(1) by auto
      moreover have "(j - index) mod stride = 0" using that by (metis mod_eq_dvd_iff_nat mod_0_imp_dvd dvd_imp_mod_0)
      ultimately show False by simp
    qed
    then have "insert index (set rest) = {j. index \<le> j \<and> j < count \<and> j mod stride = index mod stride}"
      using rest(3) True by auto
    moreover have "index \<notin> set rest" using rest(3) assms by simp
    ultimately show ?thesis
      using True rest by (subst grid_stride.simps) simp
  qed
qed

lemma grid_stride_thread:
  assumes "b < blocks" "t < threads"
  shows "\<exists>is. grid_stride (b * threads + t) (threads * blocks) count = Some is \<and> distinct is \<and>
    set is = {j. j < count \<and> j mod (threads * blocks) = b * threads + t}"
proof -
  have id: "b * threads + t < threads * blocks"
  proof -
    have "b * threads + t < (b + 1) * threads" using assms(2) by simp
    also have "\<dots> \<le> blocks * threads" using assms(1) by (intro mult_right_mono) auto
    finally show ?thesis by (simp add: mult.commute)
  qed
  then have "0 < threads * blocks" by linarith
  from grid_stride_total [OF this, of "b * threads + t" count] obtain "is" where
    "is": "grid_stride (b * threads + t) (threads * blocks) count = Some is" "distinct is"
      "set is = {j. b * threads + t \<le> j \<and> j < count \<and> j mod (threads * blocks) = (b * threads + t) mod (threads * blocks)}"
    by blast
  have "(b * threads + t) mod (threads * blocks) = b * threads + t" using id by simp
  moreover have "j mod (threads * blocks) \<le> j" for j by simp
  ultimately have "set is = {j. j < count \<and> j mod (threads * blocks) = b * threads + t}"
    using "is"(3) by (auto intro: order.trans) (metis mod_less_eq_dividend)
  then show ?thesis using "is"(1,2) by blast
qed

section \<open>What a launch computes\<close>

text \<open>A table whose entries for the sources are buffers of \<open>n\<close> words.\<close>

definition sources_ready :: "device_table \<Rightarrow> ShardId list \<Rightarrow> nat \<Rightarrow> bool" where
  "sources_ready table sources n \<longleftrightarrow>
     (\<forall>s\<in>set sources. unat s < length table \<and> (\<exists>buf. table ! unat s = Some buf \<and> length buf = n))"

lemma xor_sources_foldl:
  "foldl (\<lambda>value s. value XOR read_word table s w) acc sources
    = acc XOR xor_sum (map (\<lambda>s. read_word table s w) sources)"
  by (induction sources arbitrary: acc) (simp_all add: xor.assoc)

lemma xor_sources_eq:
  assumes "sources_ready table sources n" "w < n"
  shows "xor_sources table sources w = xor_all n (map (\<lambda>s. the (table ! unat s)) sources) ! w"
proof -
  have "\<forall>b\<in>set (map (\<lambda>s. the (table ! unat s)) sources). length b = n"
    using assms(1) by (fastforce simp: sources_ready_def)
  moreover have "xor_sources table sources w = xor_sum (map (\<lambda>s. read_word table s w) sources)"
    by (simp add: xor_sources_def xor_sources_foldl)
  ultimately show ?thesis
    using assms(2) by (simp add: nth_xor_all read_word_def o_def)
qed

lemma fst_vector_writes:
  "fst ` set (concat (map (vector_writes table sources) is)) = {w. w div 4 \<in> set is}"
proof -
  have "fst ` set (vector_writes table sources v) = {w. w div 4 = v}" for v
  proof -
    have "{w. w div 4 = v} = (\<lambda>lane. 4 * v + lane) ` {0..<4}"
    proof (intro set_eqI iffI)
      fix w
      assume "w \<in> {w. w div 4 = v}"
      then have "w = 4 * v + w mod 4" "w mod 4 \<in> {0..<4}" by auto
      then show "w \<in> (\<lambda>lane. 4 * v + lane) ` {0..<4}" by blast
    qed auto
    then show ?thesis by (simp add: vector_writes_def image_image)
  qed
  note lanes = this
  have "fst ` set (concat (map (vector_writes table sources) is))
      = (\<Union>v\<in>set is. fst ` set (vector_writes table sources v))" by auto
  then show ?thesis unfolding lanes by auto
qed

text \<open>
  The words thread \<open>(b, t)\<close> writes: the vectors congruent to its global index modulo the stride, and
  for a thread of block 0 at most one tail word. Their values are the exclusive-ors.
\<close>

lemma xor_thread_writes:
  assumes "b < blocks" "t < threads"
  shows "\<exists>ws. xor_thread table sources n blocks threads (b, t) = Some ws \<and> distinct (map fst ws) \<and>
    fst ` set ws = {w. w < n div 4 * 4 \<and> w div 4 mod (threads * blocks) = b * threads + t}
      \<union> {w. b = 0 \<and> t < n mod 4 \<and> w = n div 4 * 4 + t} \<and>
    (\<forall>(w, v)\<in>set ws. v = xor_sources table sources w)"
proof -
  obtain "is" where "is": "grid_stride (b * threads + t) (threads * blocks) (n div 4) = Some is"
      "distinct is" "set is = {j. j < n div 4 \<and> j mod (threads * blocks) = b * threads + t}"
    using grid_stride_thread [OF assms, of "n div 4"] by blast
  have tail: "n - n div 4 * 4 = n mod 4" by (metis minus_div_mult_eq_mod)
  define vec where "vec = concat (map (vector_writes table sources) is)"
  define tl where "tl = (if b = 0 \<and> t < n mod 4
      then [(n div 4 * 4 + t, xor_sources table sources (n div 4 * 4 + t))] else [])"
  have run: "xor_thread table sources n blocks threads (b, t) = Some (vec @ tl)"
    using "is"(1) tail by (simp add: xor_thread_def Let_def vec_def tl_def)
  have vec_fst: "fst ` set vec = {w. w < n div 4 * 4 \<and> w div 4 mod (threads * blocks) = b * threads + t}"
    unfolding vec_def fst_vector_writes "is"(3) by (auto simp: less_mult_imp_div_less div_less_iff_less_mult)
  have "map fst (vector_writes table sources v) = map (\<lambda>lane. 4 * v + lane) [0..<4]" for v
    by (simp add: vector_writes_def)
  then have "map fst vec = concat (map (\<lambda>v. map (\<lambda>lane. 4 * v + lane) [0..<4]) is)"
    by (simp add: vec_def map_concat o_def)
  moreover have "distinct (concat (map (\<lambda>v. map (\<lambda>lane. 4 * v + lane) [0..<4]) is))"
    if "distinct is" for "is" :: "nat list"
    using that
  proof (induction "is")
    case (Cons v vs)
    have "w div 4 = v" if "w \<in> (\<lambda>lane. 4 * v + lane) ` {0..<4}" for w v :: nat using that by auto
    then have "(\<lambda>lane. 4 * v + lane) ` {0..<4} \<inter> (\<Union>u\<in>set vs. (\<lambda>lane. 4 * u + lane) ` {0..<4}) = {}"
      using Cons.prems by fastforce
    then show ?case using Cons by (simp add: distinct_map inj_on_def)
  qed simp
  ultimately have "distinct (map fst vec)" using "is"(2) by simp
  moreover have "n div 4 * 4 + t \<notin> fst ` set vec" unfolding vec_fst by simp
  ultimately have dist: "distinct (map fst (vec @ tl))" by (auto simp: tl_def)
  have "fst ` set (vec @ tl) = {w. w < n div 4 * 4 \<and> w div 4 mod (threads * blocks) = b * threads + t}
      \<union> {w. b = 0 \<and> t < n mod 4 \<and> w = n div 4 * 4 + t}"
    by (simp add: image_Un vec_fst) (auto simp: tl_def)
  moreover have "\<forall>(w, v)\<in>set (vec @ tl). v = xor_sources table sources w"
    by (auto simp: vec_def tl_def vector_writes_def)
  ultimately show ?thesis using run dist by blast
qed

text \<open>Each word belongs to exactly one thread.\<close>

definition owner :: "nat \<Rightarrow> nat \<Rightarrow> nat \<Rightarrow> nat \<Rightarrow> nat \<times> nat" where
  "owner n blocks threads w =
     (if w < n div 4 * 4
      then (w div 4 mod (threads * blocks) div threads, w div 4 mod (threads * blocks) mod threads)
      else (0, w - n div 4 * 4))"

lemma owner_iff:
  assumes "0 < blocks" "0 < threads" "n mod 4 \<le> threads" "w < n" "b < blocks" "t < threads"
  shows "(w < n div 4 * 4 \<and> w div 4 mod (threads * blocks) = b * threads + t) \<or>
      (b = 0 \<and> t < n mod 4 \<and> w = n div 4 * 4 + t) \<longleftrightarrow> owner n blocks threads w = (b, t)"
proof (cases "w < n div 4 * 4")
  case True
  have "x = b * threads + t \<longleftrightarrow> x div threads = b \<and> x mod threads = t" for x
    using assms(6) by (metis add.commute div_mult_mod_eq div_mult_self3 div_less add_0 mod_less mod_mult_self3 mult.commute not_less_zero)
  then show ?thesis using True by (simp add: owner_def)
next
  case False
  have "w - n div 4 * 4 < n mod 4" using False assms(4) by (metis add.commute div_mult_mod_eq less_diff_conv2 not_less)
  then show ?thesis using False by (auto simp: owner_def)
qed

lemma owner_bounds:
  assumes "0 < blocks" "0 < threads" "n mod 4 \<le> threads" "w < n"
  shows "fst (owner n blocks threads w) < blocks" "snd (owner n blocks threads w) < threads"
proof -
  have "x mod (threads * blocks) div threads < blocks" for x
    using assms(1,2) by (simp add: less_mult_imp_div_less mult.commute)
  moreover have "w - n div 4 * 4 < n mod 4" if "\<not> w < n div 4 * 4"
    using that assms(4) by (metis add.commute div_mult_mod_eq less_diff_conv2 not_less)
  ultimately show "fst (owner n blocks threads w) < blocks" "snd (owner n blocks threads w) < threads"
    using assms by (auto simp: owner_def)
qed

lemma those_eq_Some: "those xs = Some ys \<longleftrightarrow> xs = map Some ys"
  by (induction xs arbitrary: ys) (auto split: option.splits simp: Cons_eq_map_conv)

lemma launch_total:
  assumes "\<And>b t. b < blocks \<Longrightarrow> t < threads \<Longrightarrow> \<exists>ws. kern (b, t) = Some ws"
  shows "\<exists>ps. launch blocks threads kern = Some ps \<and>
    set ps = {ws. \<exists>b<blocks. \<exists>t<threads. kern (b, t) = Some ws}"
proof -
  have "\<forall>x\<in>set (List.product [0..<blocks] [0..<threads]). kern x = Some (the (kern x))"
    using assms by fastforce
  then have "map kern (List.product [0..<blocks] [0..<threads])
      = map Some (map (\<lambda>x. the (kern x)) (List.product [0..<blocks] [0..<threads]))" by simp
  then have "launch blocks threads kern = Some (map (\<lambda>x. the (kern x)) (List.product [0..<blocks] [0..<threads]))"
    unfolding launch_def by (simp only: those_eq_Some)
  moreover have "set (map (\<lambda>x. the (kern x)) (List.product [0..<blocks] [0..<threads]))
      = {ws. \<exists>b<blocks. \<exists>t<threads. kern (b, t) = Some ws}"
  proof (intro set_eqI iffI)
    fix ws
    assume "ws \<in> set (map (\<lambda>x. the (kern x)) (List.product [0..<blocks] [0..<threads]))"
    then obtain b t where "b < blocks" "t < threads" "ws = the (kern (b, t))" by auto
    then show "ws \<in> {ws. \<exists>b<blocks. \<exists>t<threads. kern (b, t) = Some ws}" using assms by fastforce
  next
    fix ws
    assume "ws \<in> {ws. \<exists>b<blocks. \<exists>t<threads. kern (b, t) = Some ws}"
    then obtain b t where "b < blocks" "t < threads" "kern (b, t) = Some ws" by blast
    then have "(b, t) \<in> set (List.product [0..<blocks] [0..<threads])" "ws = the (kern (b, t))" by auto
    then show "ws \<in> set (map (\<lambda>x. the (kern x)) (List.product [0..<blocks] [0..<threads]))"
      unfolding set_map by blast
  qed
  ultimately show ?thesis by blast
qed

lemma xor_launch:
  assumes dims: "0 < blocks" "0 < threads" "n mod 4 \<le> threads"
    and ready: "sources_ready table sources n"
  shows "\<exists>ps. launch blocks threads (xor_thread table sources n blocks threads) = Some ps \<and>
    (\<forall>ws out. interleaving ps ws \<longrightarrow> length out = n \<longrightarrow>
       apply_writes ws out = xor_all n (map (\<lambda>s. the (table ! unat s)) sources))"
proof -
  let ?kern = "xor_thread table sources n blocks threads"
  have total: "\<exists>ws. ?kern (b, t) = Some ws" if "b < blocks" "t < threads" for b t
    using xor_thread_writes [OF that] by blast
  obtain ps where ps: "launch blocks threads ?kern = Some ps"
      "set ps = {ws. \<exists>b<blocks. \<exists>t<threads. ?kern (b, t) = Some ws}"
    using launch_total [of blocks threads ?kern] total by blast
  have "apply_writes ws out = xor_all n (map (\<lambda>s. the (table ! unat s)) sources)"
    if i: "interleaving ps ws" and out: "length out = n" for ws out
  proof -
    have set_ws: "set ws = \<Union> (set ` set ps)" using interleaving_set [OF i] .
    have "\<forall>(w, v)\<in>set ws. v = xor_sources table sources w"
    proof -
      have "\<forall>(w, v)\<in>set p. v = xor_sources table sources w" if "p \<in> set ps" for p
        using that ps(2) xor_thread_writes [of _ blocks _ threads table sources n] by fastforce
      then show ?thesis unfolding set_ws by blast
    qed
    moreover have "{..<length out} \<subseteq> fst ` set ws"
    proof
      fix w
      assume "w \<in> {..<length out}"
      then have w: "w < n" using out by simp
      obtain b t where o: "owner n blocks threads w = (b, t)" by fastforce
      then have bt: "b < blocks" "t < threads" using owner_bounds [OF dims w] by auto
      obtain p where p: "?kern (b, t) = Some p"
          "fst ` set p = {w. w < n div 4 * 4 \<and> w div 4 mod (threads * blocks) = b * threads + t}
            \<union> {w. b = 0 \<and> t < n mod 4 \<and> w = n div 4 * 4 + t}"
        using xor_thread_writes [OF bt] by blast
      have "w \<in> fst ` set p" unfolding p(2) using owner_iff [OF dims w bt] o by blast
      moreover have "p \<in> set ps" using ps(2) p(1) bt by blast
      ultimately show "w \<in> fst ` set ws" unfolding set_ws by blast
    qed
    ultimately have "apply_writes ws out = map (xor_sources table sources) [0..<n]"
      using apply_writes_eq [of ws "xor_sources table sources" out] out by simp
    also have "\<dots> = xor_all n (map (\<lambda>s. the (table ! unat s)) sources)"
    proof (rule nth_equalityI)
      have "\<forall>b\<in>set (map (\<lambda>s. the (table ! unat s)) sources). length b = n"
        using ready by (fastforce simp: sources_ready_def)
      then show "length (map (xor_sources table sources) [0..<n])
          = length (xor_all n (map (\<lambda>s. the (table ! unat s)) sources))" by simp
      show "map (xor_sources table sources) [0..<n] ! j
          = xor_all n (map (\<lambda>s. the (table ! unat s)) sources) ! j"
        if "j < length (map (xor_sources table sources) [0..<n])" for j
        using that xor_sources_eq [OF ready] by simp
    qed
    finally show ?thesis .
  qed
  then show ?thesis using ps(1) by blast
qed

section \<open>Launching one XOR operation\<close>

text \<open>
  A computation of the host that waits for the device: \<open>None\<close> when a kernel never ends, otherwise an
  exception or a value.
\<close>

definition bindR :: "'a result option \<Rightarrow> ('a \<Rightarrow> 'b result option) \<Rightarrow> 'b result option" where
  "bindR m f = (case m of None \<Rightarrow> None | Some (Inl e) \<Rightarrow> Some (Inl e) | Some (Inr x) \<Rightarrow> f x)"

lemma bindR_simps [simp]:
  "bindR None f = None" "bindR (Some (Inl e)) f = Some (Inl e)" "bindR (Some (Inr x)) f = f x"
  by (simp_all add: bindR_def)

text \<open>What \<open>CUDA_CHECK\<close> throws; the text of the message is the runtime's.\<close>

definition cuda_error :: exn where
  "cuda_error = RuntimeError ''CUDA''"

text \<open>A launch with an empty block is an invalid configuration, which \<open>cudaGetLastError\<close> reports.\<close>

definition checked_launch ::
  "nat \<Rightarrow> nat \<Rightarrow> (nat \<times> nat \<Rightarrow> word_write list option) \<Rightarrow> WordShard \<Rightarrow> WordShard result option" where
  "checked_launch blocks threads kern out =
     (if threads = 0 then Some (Inl cuda_error) else map_option Inr (run_kernel blocks threads kern out))"

definition xor_kernel_id :: "nat \<Rightarrow> KernelId" where
  "xor_kernel_id source_count =
     (if 2 \<le> source_count \<and> source_count \<le> 6 then Optimized_kernel source_count else Dynamic_kernel)"

text \<open>The \<open>switch\<close> on the number of sources; the result is the output buffer and the cache.\<close>

definition LaunchXorOperationCuda ::
  "(int \<Rightarrow> KernelId \<Rightarrow> DeviceQueries) \<Rightarrow> int \<Rightarrow> nat \<Rightarrow> nat \<Rightarrow> device_table \<Rightarrow> ShardId list \<Rightarrow>
   WordShard \<Rightarrow> config_cache \<Rightarrow> (WordShard \<times> config_cache) result option" where
  "LaunchXorOperationCuda queries device_id source_count word_count table source_ids output cache =
     bindR (Some (GetCachedOptimalLaunchConfig queries (xor_kernel_id source_count) device_id cache))
       (\<lambda>(config, cache').
         let grid_blocks = CalculateGridBlocks word_count 4 config;
             threads = size_of_int (threads_per_block config);
             kern = (case xor_kernel_id source_count of
                 Optimized_kernel degree \<Rightarrow>
                   xor_reconstruct_kernel_optimized degree table source_ids word_count grid_blocks threads
               | _ \<Rightarrow>
                   xor_reconstruct_kernel_dynamic table source_ids source_count word_count grid_blocks threads)
         in bindR (checked_launch grid_blocks threads kern output)
              (\<lambda>output'. Some (Inr (output', cache'))))"

text \<open>\<open>run_sparse_decode_cuda\<close>: two uploads, one launch, one download.\<close>

definition run_sparse_decode_cuda ::
  "(int \<Rightarrow> KernelId \<Rightarrow> DeviceQueries) \<Rightarrow> int \<Rightarrow> (nat \<Rightarrow> ShardWord) \<Rightarrow> WordShard \<Rightarrow> WordShard \<Rightarrow>
   WordShard \<Rightarrow> nat \<Rightarrow> config_cache \<Rightarrow> (WordShard \<times> config_cache) result option" where
  "run_sparse_decode_cuda queries device_id fresh shard_a shard_b reconstructed_c count cache =
     (if count = 0 then Some (Inr (reconstructed_c, cache))
      else bindR (Some (GetCachedOptimalLaunchConfig queries Dummy_kernel device_id cache))
        (\<lambda>(config, cache').
          let grid_blocks = CalculateGridBlocks count 1 config;
              threads = size_of_int (threads_per_block config);
              device_a = take count shard_a; device_b = take count shard_b;
              device_c = map fresh [0..<count]
          in bindR (checked_launch grid_blocks threads
                     (dummy_reconstruct_kernel device_a device_b count grid_blocks threads) device_c)
               (\<lambda>c. Some (Inr (c @ drop count reconstructed_c, cache')))))"

text \<open>
  What the development relies on from the CUDA runtime: a device has multiprocessors, and the block
  size it recommends is a positive \<open>int\<close> of at least three threads (it is a multiple of the warp size).
\<close>

definition runtime_ok :: "(int \<Rightarrow> KernelId \<Rightarrow> DeviceQueries) \<Rightarrow> bool" where
  "runtime_ok queries \<longleftrightarrow> (\<forall>dev kern. 0 < multiProcessorCount (queries dev kern) \<and>
     3 \<le> occupancy_block_size (queries dev kern) \<and> occupancy_block_size (queries dev kern) \<le> int_max)"

text \<open>The cache holds what a fresh query would answer.\<close>

definition cache_ok :: "(int \<Rightarrow> KernelId \<Rightarrow> DeviceQueries) \<Rightarrow> config_cache \<Rightarrow> bool" where
  "cache_ok queries cache \<longleftrightarrow> (\<forall>dev kern config. map_of cache (dev, kern) = Some config \<longrightarrow>
     GetOptimalLaunchConfig (queries dev kern) = Inr config)"

lemma cache_ok_Nil: "cache_ok queries []"
  by (simp add: cache_ok_def)

lemma GetCached_ok:
  assumes "runtime_ok queries" "cache_ok queries cache"
  shows "\<exists>config cache'. GetCachedOptimalLaunchConfig queries kern dev cache = Inr (config, cache') \<and>
    cache_ok queries cache' \<and> GetOptimalLaunchConfig (queries dev kern) = Inr config \<and>
    3 \<le> size_of_int (threads_per_block config)"
proof -
  have dq: "0 < multiProcessorCount (queries dev kern)" "3 \<le> occupancy_block_size (queries dev kern)"
      "occupancy_block_size (queries dev kern) \<le> int_max"
    using assms(1) by (simp_all add: runtime_ok_def)
  then obtain config where config: "GetOptimalLaunchConfig (queries dev kern) = Inr config"
      "threads_per_block config = occupancy_block_size (queries dev kern)"
    by (auto simp: GetOptimalLaunchConfig_def Let_def)
  have threads: "3 \<le> size_of_int (threads_per_block config)"
    using dq(2,3) config(2) by (simp add: size_of_int_def int_max_def)
  show ?thesis
  proof (cases "map_of cache (dev, kern)")
    case None
    have "cache_ok queries (cache @ [((dev, kern), config)])"
      using assms(2) config(1) by (auto simp: cache_ok_def map_add_def split: option.splits if_splits)
    then show ?thesis using None config threads by (simp add: GetCachedOptimalLaunchConfig_def)
  next
    case (Some c)
    then have "c = config" using assms(2) config(1) by (simp add: cache_ok_def)
    then show ?thesis using Some assms(2) config threads by (simp add: GetCachedOptimalLaunchConfig_def)
  qed
qed

lemma CalculateGridBlocks_pos: "0 < CalculateGridBlocks n wpt config"
  by (simp add: CalculateGridBlocks_def Let_def)

lemma map_nth_prefix: "k = length xs \<Longrightarrow> map (\<lambda>i. (xs @ ys) ! i) [0..<k] = xs"
  by (rule nth_equalityI) (auto simp: nth_append)

lemma LaunchXor_ok:
  assumes "runtime_ok queries" "cache_ok queries cache" "sources_ready table sources n" "length output = n"
  shows "\<exists>cache'. LaunchXorOperationCuda queries dev (length sources) n table (sources @ rest) output cache
      = Some (Inr (xor_all n (map (\<lambda>s. the (table ! unat s)) sources), cache')) \<and> cache_ok queries cache'"
proof -
  obtain config cache' where c: "GetCachedOptimalLaunchConfig queries (xor_kernel_id (length sources)) dev cache
        = Inr (config, cache')" "cache_ok queries cache'" "3 \<le> size_of_int (threads_per_block config)"
    using GetCached_ok [OF assms(1,2)] by blast
  let ?G = "CalculateGridBlocks n 4 config" and ?T = "size_of_int (threads_per_block config)"
  have "n mod 4 < 4" by simp
  then have dims: "0 < ?G" "0 < ?T" "n mod 4 \<le> ?T" using c(3) CalculateGridBlocks_pos by auto
  obtain ps where ps: "launch ?G ?T (xor_thread table sources n ?G ?T) = Some ps"
      "\<forall>ws out. interleaving ps ws \<longrightarrow> length out = n \<longrightarrow>
         apply_writes ws out = xor_all n (map (\<lambda>s. the (table ! unat s)) sources)"
    using xor_launch [OF dims assms(3)] by blast
  have "run_kernel ?G ?T (xor_thread table sources n ?G ?T) output
      = Some (xor_all n (map (\<lambda>s. the (table ! unat s)) sources))"
  proof -
    have "apply_writes (concat ps) output = xor_all n (map (\<lambda>s. the (table ! unat s)) sources)"
      using ps(2) interleaving_concat [of ps] assms(4) by blast
    then show ?thesis using ps(1) by (simp add: run_kernel_def)
  qed
  moreover have "map (\<lambda>i. (sources @ rest) ! i) [0..<length sources] = sources"
    by (rule map_nth_prefix) simp
  ultimately show ?thesis
    using c dims
    by (simp add: LaunchXorOperationCuda_def Let_def checked_launch_def xor_kernel_id_def
        xor_reconstruct_kernel_optimized_def xor_reconstruct_kernel_dynamic_def)
qed

section \<open>Properties\<close>

text \<open>
  No data race and no gap: over any grid with at least three threads per block, every word of
  the output is written by exactly one thread of the XOR kernel, and by that thread once.
\<close>

theorem kernel_writes_each_word_once:
  assumes "0 < blocks" "3 \<le> threads" "w < word_count"
  shows "\<exists>!(b, t). b < blocks \<and> t < threads \<and>
    (\<exists>ws. xor_reconstruct_kernel_optimized degree table source_ids word_count blocks threads (b, t) = Some ws \<and>
       w \<in> set (map fst ws) \<and> distinct (map fst ws))"
proof -
  let ?srcs = "map (\<lambda>i. source_ids ! i) [0..<degree]"
  have "word_count mod 4 < 4" by simp
  then have dims: "0 < blocks" "0 < threads" "word_count mod 4 \<le> threads" using assms(1,2) by auto
  have writes: "(\<exists>ws. xor_thread table ?srcs word_count blocks threads (b, t) = Some ws \<and>
       w \<in> set (map fst ws) \<and> distinct (map fst ws)) \<longleftrightarrow> owner word_count blocks threads w = (b, t)"
    if bt: "b < blocks" "t < threads" for b t
  proof -
    obtain ws where ws: "xor_thread table ?srcs word_count blocks threads (b, t) = Some ws" "distinct (map fst ws)"
        "fst ` set ws = {w. w < word_count div 4 * 4 \<and> w div 4 mod (threads * blocks) = b * threads + t}
          \<union> {w. b = 0 \<and> t < word_count mod 4 \<and> w = word_count div 4 * 4 + t}"
      using xor_thread_writes [OF bt] by blast
    have "w \<in> set (map fst ws) \<longleftrightarrow> owner word_count blocks threads w = (b, t)"
      unfolding set_map ws(3) using owner_iff [OF dims assms(3) bt] by blast
    then show ?thesis using ws(1,2) by simp
  qed
  show ?thesis
    unfolding xor_reconstruct_kernel_optimized_def
  proof (rule ex1I [of _ "owner word_count blocks threads w"])
    obtain b t where o: "owner word_count blocks threads w = (b, t)" by fastforce
    then have "b < blocks" "t < threads" using owner_bounds [OF dims assms(3)] by auto
    then show "case owner word_count blocks threads w of (b, t) \<Rightarrow> b < blocks \<and> t < threads \<and>
      (\<exists>ws. xor_thread table ?srcs word_count blocks threads (b, t) = Some ws \<and>
         w \<in> set (map fst ws) \<and> distinct (map fst ws))"
      unfolding o prod.case using writes [of b t] o by blast
  next
    fix x
    assume x: "case x of (b, t) \<Rightarrow> b < blocks \<and> t < threads \<and>
      (\<exists>ws. xor_thread table ?srcs word_count blocks threads (b, t) = Some ws \<and>
         w \<in> set (map fst ws) \<and> distinct (map fst ws))"
    obtain b t where bt: "x = (b, t)" by (cases x)
    then show "x = owner word_count blocks threads w" using x writes [of b t] unfolding bt prod.case by simp
  qed
qed

theorem kernel_writes_each_word_once_witness:
  "\<exists>!(b, t). b < 2 \<and> t < 3 \<and>
    (\<exists>ws. xor_reconstruct_kernel_optimized 2 [Some [5, 1, 2, 3, 4], Some [1, 1, 1, 1, 1]] [0, 1] 5 2 3 (b, t) = Some ws \<and>
       4 \<in> set (map fst ws) \<and> distinct (map fst ws))"
  by (rule kernel_writes_each_word_once) simp_all

lemma dummy_interleavings:
  assumes "0 < blocks" "0 < threads"
  shows "\<exists>ps. launch blocks threads (dummy_reconstruct_kernel a b n blocks threads) = Some ps \<and>
    (\<forall>ws out. interleaving ps ws \<longrightarrow> length out = n \<longrightarrow> apply_writes ws out = map (\<lambda>i. a ! i XOR b ! i) [0..<n])"
proof -
  let ?kern = "dummy_reconstruct_kernel a b n blocks threads"
  have thread: "\<exists>ws. ?kern (bi, t) = Some ws \<and> (\<forall>(i, w)\<in>set ws. w = a ! i XOR b ! i) \<and>
      fst ` set ws = {j. j < n \<and> j mod (threads * blocks) = bi * threads + t}"
    if bt: "bi < blocks" "t < threads" for bi t
  proof -
    obtain "is" where i: "grid_stride (bi * threads + t) (threads * blocks) n = Some is"
        "set is = {j. j < n \<and> j mod (threads * blocks) = bi * threads + t}"
      using grid_stride_thread [OF bt] by blast
    then have "?kern (bi, t) = Some (map (\<lambda>i. (i, a ! i XOR b ! i)) is)"
      by (simp add: dummy_reconstruct_kernel_def)
    then show ?thesis using i(2) by (auto simp: image_image)
  qed
  obtain ps where ps: "launch blocks threads ?kern = Some ps"
      "set ps = {ws. \<exists>bi<blocks. \<exists>t<threads. ?kern (bi, t) = Some ws}"
    using launch_total [of blocks threads ?kern] thread by blast
  have "apply_writes ws out = map (\<lambda>i. a ! i XOR b ! i) [0..<n]" if ws: "interleaving ps ws" and len: "length out = n" for ws out
  proof -
    have all: "set ws = set (concat ps)" using interleaving_set [OF ws] by simp
    have "\<forall>(i, w)\<in>set p. w = a ! i XOR b ! i" if "p \<in> set ps" for p
      using that ps(2) thread by fastforce
    then have "\<forall>(i, w)\<in>set ws. w = a ! i XOR b ! i" unfolding all by auto
    moreover have "{..<length out} \<subseteq> fst ` set ws"
    proof
      fix j
      assume "j \<in> {..<length out}"
      then have j: "j < n" using len by simp
      let ?x = "j mod (threads * blocks)"
      have x: "?x = (?x div threads) * threads + ?x mod threads" by simp
      have bt: "?x div threads < blocks" "?x mod threads < threads"
        using assms by (simp_all add: less_mult_imp_div_less mult.commute)
      obtain p where p: "?kern (?x div threads, ?x mod threads) = Some p"
          "fst ` set p = {j. j < n \<and> j mod (threads * blocks) = ?x div threads * threads + ?x mod threads}"
        using thread [OF bt] by blast
      have "j \<in> fst ` set p" unfolding p(2) using j by simp
      moreover have "p \<in> set ps" using ps(2) p(1) bt by blast
      ultimately show "j \<in> fst ` set ws" unfolding all by auto
    qed
    ultimately show ?thesis
      using apply_writes_eq [of ws "\<lambda>i. a ! i XOR b ! i" out] len by simp
  qed
  then show ?thesis using ps(1) by blast
qed

lemma dummy_launch:
  assumes "0 < blocks" "0 < threads"
  shows "run_kernel blocks threads (dummy_reconstruct_kernel a b n blocks threads) out
    = Some (apply_writes (concat (the (launch blocks threads (dummy_reconstruct_kernel a b n blocks threads)))) out)"
    and "length out = n \<Longrightarrow>
      apply_writes (concat (the (launch blocks threads (dummy_reconstruct_kernel a b n blocks threads)))) out
        = map (\<lambda>i. a ! i XOR b ! i) [0..<n]"
proof -
  obtain ps where ps: "launch blocks threads (dummy_reconstruct_kernel a b n blocks threads) = Some ps"
      "\<And>ws out. interleaving ps ws \<Longrightarrow> length out = n \<Longrightarrow> apply_writes ws out = map (\<lambda>i. a ! i XOR b ! i) [0..<n]"
    using dummy_interleavings [OF assms, of a b n] by blast
  show "run_kernel blocks threads (dummy_reconstruct_kernel a b n blocks threads) out
    = Some (apply_writes (concat (the (launch blocks threads (dummy_reconstruct_kernel a b n blocks threads)))) out)"
    using ps(1) by (simp add: run_kernel_def)
  show "apply_writes (concat (the (launch blocks threads (dummy_reconstruct_kernel a b n blocks threads)))) out
        = map (\<lambda>i. a ! i XOR b ! i) [0..<n]" if "length out = n"
    using ps(1) ps(2) [OF interleaving_concat that] by simp
qed

text \<open>
  C14. Every kernel ends and is deterministic: for every grid of at least one block and blocks of at least three threads, no thread
  of the kernel loops for ever, and whatever the interleaving of the word writes of the threads, the output buffer ends with the
  word-wise exclusive-or that the CPU computes. This holds of the unrolled kernel of every degree, of the dynamic one, and of
  the two-shard kernel.
\<close>

theorem kernel_any_interleaving:
  assumes "0 < blocks" "3 \<le> threads" "sources_ready table sources n"
  shows "(\<forall>kern\<in>{xor_reconstruct_kernel_optimized (length sources) table (sources @ rest) n blocks threads,
        xor_reconstruct_kernel_dynamic table (sources @ rest) (length sources) n blocks threads}.
      \<exists>ps. launch blocks threads kern = Some ps \<and>
        (\<forall>ws out. interleaving ps ws \<and> length out = n \<longrightarrow>
           apply_writes ws out = xor_all n (map (\<lambda>s. the (table ! unat s)) sources))) \<and>
    (\<exists>ps. launch blocks threads (dummy_reconstruct_kernel a b n blocks threads) = Some ps \<and>
      (\<forall>ws out. interleaving ps ws \<and> length out = n \<longrightarrow> apply_writes ws out = map (\<lambda>i. a ! i XOR b ! i) [0..<n]))"
proof -
  have "n mod 4 < 4" by simp
  then have dims: "0 < blocks" "0 < threads" "n mod 4 \<le> threads" using assms(1,2) by auto
  have "map (\<lambda>i. (sources @ rest) ! i) [0..<length sources] = sources" by (rule map_nth_prefix) simp
  then show ?thesis
    using xor_launch [OF dims assms(3)] dummy_interleavings [OF dims(1,2), of a b n]
    by (auto simp: xor_reconstruct_kernel_dynamic_def xor_reconstruct_kernel_optimized_def)
qed

text \<open>Seventeen words on one block of three threads: the first thread goes round the vector loop twice and writes the tail.\<close>

theorem kernel_any_interleaving_witness:
  "\<exists>ps. launch 1 3 (xor_reconstruct_kernel_optimized (length [0, 1 :: ShardId])
       [Some (replicate 17 5), Some (replicate 17 3)] ([0, 1] @ []) 17 1 3) = Some ps \<and>
     apply_writes (concat ps) (replicate 17 9) = replicate 17 6"
proof -
  have ready: "sources_ready [Some (replicate 17 5), Some (replicate 17 3)] [0, 1] 17" by (simp add: sources_ready_def)
  have sum: "xor_all 17 (map (\<lambda>s. the ([Some (replicate 17 5), Some (replicate 17 3)] ! unat s)) [0, 1 :: ShardId]) = replicate 17 6"
    by (simp add: xor_all_def xor_words_def replicate_numeral)
  obtain ps where ps: "launch 1 3 (xor_reconstruct_kernel_optimized (length [0, 1 :: ShardId])
       [Some (replicate 17 5), Some (replicate 17 3)] ([0, 1] @ []) 17 1 3) = Some ps"
      "\<forall>ws out. interleaving ps ws \<and> length out = 17 \<longrightarrow> apply_writes ws out = replicate 17 6"
    using kernel_any_interleaving [OF zero_less_one order_refl ready, of "[]", unfolded sum] by blast
  have "interleaving ps (concat ps) \<and> length (replicate 17 9 :: WordShard) = 17" by (simp add: interleaving_concat)
  then have "apply_writes (concat ps) (replicate 17 9) = replicate 17 6" using ps(2) by blast
  then show ?thesis using ps(1) by blast
qed

text \<open>A device, for the witnesses.\<close>

definition example_queries :: "int \<Rightarrow> KernelId \<Rightarrow> DeviceQueries" where
  "example_queries dev kern = \<lparr>multiProcessorCount = 4, maxGridSize0 = int_max, min_grid_size = 8,
     occupancy_block_size = 32, active_blocks_per_sm = 2\<rparr>"

lemma example_runtime: "runtime_ok example_queries"
  by (simp add: runtime_ok_def example_queries_def int_max_def)

text \<open>
  Every launch the decoder makes ends: with a device that reports multiprocessors and at least
  three threads per block, \<open>LaunchXorOperationCuda\<close> returns, without an exception, the exclusive-or
  of the sources, whichever kernel the number of sources selects and whether or not the launch
  configuration was cached.
\<close>

theorem LaunchXorOperationCuda_correct:
  assumes "runtime_ok queries" "cache_ok queries cache" "sources_ready table sources n" "length output = n"
  shows "\<exists>cache'. LaunchXorOperationCuda queries dev (length sources) n table (sources @ rest) output cache
      = Some (Inr (xor_all n (map (\<lambda>s. the (table ! unat s)) sources), cache'))"
  using LaunchXor_ok [OF assms] by blast

theorem LaunchXorOperationCuda_correct_witness:
  "\<exists>cache'. LaunchXorOperationCuda example_queries 0 (length [0, 1 :: ShardId]) 2 [Some [5, 1], Some [3, 1]]
     ([0, 1] @ [1]) [9, 9] [] = Some (Inr ([6, 0], cache'))"
proof -
  have "sources_ready [Some [5, 1], Some [3, 1]] [0, 1] 2" by (simp add: sources_ready_def)
  from LaunchXorOperationCuda_correct [OF example_runtime cache_ok_Nil this, of "[9, 9]" 0 "[1]"]
  show ?thesis by (simp add: xor_all_def xor_words_def replicate_numeral)
qed

text \<open>The GPU path of the demonstration decoder agrees with its CPU reference.\<close>

lemma run_sparse_decode_cpu_eq:
  assumes "n \<le> length a" "n \<le> length b" "n \<le> length c"
  shows "run_sparse_decode_cpu a b c n = map (\<lambda>i. a ! i XOR b ! i) [0..<n] @ drop n c"
  using assms(3)
proof (induction n)
  case 0
  then show ?case by (simp add: run_sparse_decode_cpu_def)
next
  case (Suc n)
  then have "run_sparse_decode_cpu a b c (Suc n)
      = (map (\<lambda>i. a ! i XOR b ! i) [0..<n] @ drop n c)[n := a ! n XOR b ! n]"
    by (simp add: run_sparse_decode_cpu_def)
  also have "\<dots> = map (\<lambda>i. a ! i XOR b ! i) [0..<Suc n] @ drop (Suc n) c"
    using Suc.prems by (simp add: list_update_append Cons_nth_drop_Suc [symmetric])
  finally show ?case .
qed

text \<open>
  \<open>run_sparse_decode_cuda\<close> returns exactly what the CPU reference computes, for buffers of at
  least \<open>count\<close> words and whatever a fresh device buffer contains.
\<close>

theorem sparse_decode_cuda_matches_cpu:
  assumes "runtime_ok queries" "cache_ok queries cache"
    and "count \<le> length a" "count \<le> length b" "count \<le> length c"
  shows "\<exists>cache'. run_sparse_decode_cuda queries dev fresh a b c count cache
    = Some (Inr (run_sparse_decode_cpu a b c count, cache'))"
proof (cases "count = 0")
  case True
  then show ?thesis by (simp add: run_sparse_decode_cuda_def run_sparse_decode_cpu_def)
next
  case False
  obtain config cache' where cfg: "GetCachedOptimalLaunchConfig queries Dummy_kernel dev cache = Inr (config, cache')"
      "3 \<le> size_of_int (threads_per_block config)"
    using GetCached_ok [OF assms(1,2)] by blast
  let ?G = "CalculateGridBlocks count 1 config" and ?T = "size_of_int (threads_per_block config)"
  have dims: "0 < ?G" "0 < ?T" using cfg(2) CalculateGridBlocks_pos by auto
  note d = dummy_launch [OF dims, where a = "take count a" and b = "take count b" and n = count
      and out = "map fresh [0..<count]"]
  have "map (\<lambda>i. take count a ! i XOR take count b ! i) [0..<count] = map (\<lambda>i. a ! i XOR b ! i) [0..<count]"
    by simp
  then show ?thesis
    using cfg False dims d run_sparse_decode_cpu_eq [OF assms(3-5)]
    by (simp add: run_sparse_decode_cuda_def Let_def checked_launch_def)
qed

theorem sparse_decode_cuda_matches_cpu_witness:
  "\<exists>cache'. run_sparse_decode_cuda example_queries 0 (\<lambda>i. 77) [5, 1] [3, 1] [9, 9, 8] 2 [] = Some (Inr ([6, 0, 8], cache'))"
proof -
  have "run_sparse_decode_cpu [5, 1] [3, 1] [9, 9, 8] 2 = [6, 0, 8]"
    by (simp add: run_sparse_decode_cpu_def upt_rec)
  then show ?thesis
    using sparse_decode_cuda_matches_cpu [OF example_runtime cache_ok_Nil, of 2 "[5, 1]" "[3, 1]" "[9, 9, 8]" 0 "\<lambda>i. 77"]
    by simp
qed

end
