(* ===== verification/CudaDecode.thy ===== *)
theory CudaDecode imports Kernel Recovery begin

text \<open>
  \<open>kernels/sparse_decoder.cu\<close>, the part that executes whole plans: \<open>RunDecodePlanCuda\<close>, the prepared
  context (\<open>prepare_decode_plan_cuda\<close>, \<open>launch_decode_plan_cuda\<close>, \<open>download_decode_results_cuda\<close>) and
  the staging context (\<open>stage_decode_shard_cuda\<close>, \<open>run_staged_decode_plan_cuda\<close>).

  The three entry points share the scan that validates a plan and lays out its metadata, the loop
  that launches one kernel per operation on a single stream, and the download of the outputs. Device
  buffers are a list of optional shards, one entry per slot; a pointer table entry is the buffer it
  points to, so a kernel that writes an output is seen by the later ones. A fresh allocation holds
  arbitrary words (\<open>fresh\<close>). This theory is about the data: the only call that fails here is a launch with an invalid
  configuration. The failures of all calls, the timing events and the owners of the resources are in \<open>CudaFaults\<close>,
  \<open>CudaDirect\<close>, \<open>CudaStaging\<close> and \<open>CudaPrepared\<close>, which reuse the scan and the launches of this one.
\<close>

section \<open>The scan of a plan\<close>

record ScanState =
  word_counts :: "nat option list"
  available_shards :: "bool list"
  required_shards :: "bool list"
  flattened_sources :: "ShardId list"
  source_offsets :: "nat list"

text \<open>The loop over the slots that \<open>RunDecodePlanCuda\<close> and \<open>prepare_decode_plan_cuda\<close> begin with.\<close>

definition scan_slots :: "ShardSlots \<Rightarrow> ScanState result" where
  "scan_slots shards =
     bindE (reject_any (\<lambda>s. s = Some []) (InvalidArgument ''DecodePlan source shards must be non-empty'') shards)
       (\<lambda>_. Inr \<lparr>word_counts = map (map_option length) shards, available_shards = map (\<lambda>s. s \<noteq> None) shards,
              required_shards = replicate (length shards) False, flattened_sources = [], source_offsets = []\<rparr>)"

text \<open>One source of an operation; the second component is \<open>operation_word_count\<close>.\<close>

definition scan_source :: "ShardId \<Rightarrow> ScanState \<times> nat option \<Rightarrow> (ScanState \<times> nat option) result" where
  "scan_source source st =
     (case st of (sc, operation_word_count) \<Rightarrow>
       if unat source \<ge> length (word_counts sc) \<or> \<not> available_shards sc ! unat source
         \<or> word_counts sc ! unat source = None
       then Inl (InvalidArgument ''DecodePlan source shard is unavailable'')
       else if operation_word_count \<noteq> None \<and> operation_word_count \<noteq> word_counts sc ! unat source
       then Inl (InvalidArgument ''DecodePlan sources must be available and equally sized'')
       else Inr (sc\<lparr>required_shards := (required_shards sc)[unat source := True],
                    flattened_sources := flattened_sources sc @ [source]\<rparr>,
                 word_counts sc ! unat source))"

definition scan_operation :: "XorOperation \<Rightarrow> ScanState \<Rightarrow> ScanState result" where
  "scan_operation op sc =
     (let out = unat (xo_output op) in
      if out \<ge> length (word_counts sc)
      then Inl (InvalidArgument ''DecodePlan output shard is out of bounds'')
      else if xo_sources op = []
      then Inl (InvalidArgument ''DecodePlan XOR operation has no sources'')
      else if available_shards sc ! out
      then Inl (InvalidArgument ''DecodePlan output shard is already present'')
      else bindE (foldE scan_source (xo_sources op)
                   (sc\<lparr>source_offsets := source_offsets sc @ [length (flattened_sources sc)]\<rparr>, None))
             (\<lambda>(sc', operation_word_count).
               Inr (sc'\<lparr>word_counts := (word_counts sc')[out := operation_word_count],
                       available_shards := (available_shards sc')[out := True],
                       required_shards := (required_shards sc')[out := True]\<rparr>)))"

definition scan_plan :: "DecodePlan \<Rightarrow> ScanState \<Rightarrow> ScanState result" where
  "scan_plan plan = foldE scan_operation (operations plan)"

section \<open>Buffers, launches and downloads\<close>

text \<open>\<open>AllocateDeviceBuffer\<close> for every required shard that has no buffer yet.\<close>

definition allocate :: "(nat \<Rightarrow> nat \<Rightarrow> ShardWord) \<Rightarrow> ScanState \<Rightarrow> device_table \<Rightarrow> device_table" where
  "allocate fresh sc device =
     map (\<lambda>i. if required_shards sc ! i \<and> device ! i = None
              then Some (map (fresh i) [0..<the (word_counts sc ! i)]) else device ! i) [0..<length device]"

text \<open>The copies from the host of the required shards that are present.\<close>

definition upload :: "ScanState \<Rightarrow> ShardSlots \<Rightarrow> device_table \<Rightarrow> device_table" where
  "upload sc shards device =
     map (\<lambda>i. if required_shards sc ! i \<and> shards ! i \<noteq> None then shards ! i else device ! i)
       [0..<length device]"

text \<open>The pointer table; a \<open>nullptr\<close> entry is \<open>None\<close>.\<close>

definition host_shard_table :: "bool list \<Rightarrow> device_table \<Rightarrow> device_table" where
  "host_shard_table required device =
     map (\<lambda>i. if required ! i then device ! i else None) [0..<length device]"

definition launch_operation ::
  "(int \<Rightarrow> KernelId \<Rightarrow> DeviceQueries) \<Rightarrow> int \<Rightarrow> ScanState \<Rightarrow> nat \<times> XorOperation \<Rightarrow>
   device_table \<times> config_cache \<Rightarrow> (device_table \<times> config_cache) result option" where
  "launch_operation queries device_id sc iop st =
     (case (iop, st) of ((operation_index, op), (device, cache)) \<Rightarrow>
       let out = unat (xo_output op) in
       bindR (LaunchXorOperationCuda queries device_id (length (xo_sources op)) (the (word_counts sc ! out))
                (host_shard_table (required_shards sc) device)
                (drop (source_offsets sc ! operation_index) (flattened_sources sc))
                (the (device ! out)) cache)
         (\<lambda>(output, cache'). Some (Inr (device[out := Some output], cache'))))"

fun launch_operations ::
  "(int \<Rightarrow> KernelId \<Rightarrow> DeviceQueries) \<Rightarrow> int \<Rightarrow> ScanState \<Rightarrow> (nat \<times> XorOperation) list \<Rightarrow>
   device_table \<times> config_cache \<Rightarrow> (device_table \<times> config_cache) result option" where
  "launch_operations queries device_id sc [] st = Some (Inr st)"
| "launch_operations queries device_id sc (iop # iops) st =
     bindR (launch_operation queries device_id sc iop st) (launch_operations queries device_id sc iops)"

definition download :: "XorOperation list \<Rightarrow> device_table \<Rightarrow> ShardSlots \<Rightarrow> ShardSlots" where
  "download ops device shards =
     foldl (\<lambda>slots op. slots[unat (xo_output op) := Some (the (device ! unat (xo_output op)))]) shards ops"

section \<open>The direct path\<close>

definition run_decode_plan_cuda ::
  "(int \<Rightarrow> KernelId \<Rightarrow> DeviceQueries) \<Rightarrow> int \<Rightarrow> (nat \<Rightarrow> nat \<Rightarrow> ShardWord) \<Rightarrow> DecodePlan \<Rightarrow> ShardSlots \<Rightarrow>
   config_cache \<Rightarrow> (ShardSlots \<times> config_cache) result option" where
  "run_decode_plan_cuda queries device_id fresh plan shards cache =
     bindR (Some (ValidatePlanShape plan)) (\<lambda>_.
       if operations plan = [] then Some (Inr (shards, cache))
       else bindR (Some (bindE (scan_slots shards) (scan_plan plan))) (\<lambda>sc.
         let device = upload sc shards (allocate fresh sc (replicate (length shards) None)) in
         bindR (launch_operations queries device_id sc (List.enumerate 0 (operations plan)) (device, cache))
           (\<lambda>(device', cache'). Some (Inr (download (operations plan) device' shards, cache')))))"

section \<open>The prepared context\<close>

record DeviceDecodeContext =
  dd_plan :: DecodePlan
  dd_scan :: ScanState
  dd_device_shards :: device_table
  dd_device_id :: int

definition prepare_decode_plan_cuda ::
  "int \<Rightarrow> (nat \<Rightarrow> nat \<Rightarrow> ShardWord) \<Rightarrow> DecodePlan \<Rightarrow> ShardSlots \<Rightarrow> DeviceDecodeContext result" where
  "prepare_decode_plan_cuda device_id fresh plan shards =
     bindE (ValidatePlanShape plan) (\<lambda>_.
     bindE (scan_slots shards) (\<lambda>sc0.
     bindE (scan_plan plan sc0) (\<lambda>sc.
       Inr \<lparr>dd_plan = plan, dd_scan = sc,
            dd_device_shards = upload sc shards (allocate fresh sc (replicate (length shards) None)),
            dd_device_id = device_id\<rparr>)))"

definition launch_decode_plan_cuda ::
  "(int \<Rightarrow> KernelId \<Rightarrow> DeviceQueries) \<Rightarrow> DeviceDecodeContext \<Rightarrow> config_cache \<Rightarrow>
   (DeviceDecodeContext \<times> config_cache) result option" where
  "launch_decode_plan_cuda queries ctx cache =
     bindR (launch_operations queries (dd_device_id ctx) (dd_scan ctx)
              (List.enumerate 0 (operations (dd_plan ctx))) (dd_device_shards ctx, cache))
       (\<lambda>(device', cache'). Some (Inr (ctx\<lparr>dd_device_shards := device'\<rparr>, cache')))"

definition download_decode_results_cuda :: "DeviceDecodeContext \<Rightarrow> ShardSlots \<Rightarrow> ShardSlots result" where
  "download_decode_results_cuda ctx shards =
     (if length shards \<noteq> length (word_counts (dd_scan ctx))
      then Inl (InvalidArgument ''Destination shard slots must match the prepared context'')
      else Inr (download (operations (dd_plan ctx)) (dd_device_shards ctx) shards))"

section \<open>The staging context\<close>

record DeviceShardStagingContext =
  sg_word_counts :: "nat option list"
  sg_staged_shards :: ShardSlots
  sg_device_shards :: device_table
  sg_plan :: DecodePlan
  sg_source_offsets :: "nat list"
  sg_device_id :: int
  sg_finalized :: bool

definition create_device_shard_staging_context_cuda :: "int \<Rightarrow> nat \<Rightarrow> DeviceShardStagingContext result" where
  "create_device_shard_staging_context_cuda device_id shard_count =
     (if shard_count = 0
      then Inl (InvalidArgument ''Staged decode context requires shard slots'')
      else Inr \<lparr>sg_word_counts = replicate shard_count None, sg_staged_shards = replicate shard_count None,
                sg_device_shards = replicate shard_count None, sg_plan = DecodePlan_default,
                sg_source_offsets = [], sg_device_id = device_id, sg_finalized = False\<rparr>)"

definition stage_decode_shard_cuda ::
  "ShardId \<Rightarrow> WordShard \<Rightarrow> DeviceShardStagingContext \<Rightarrow> DeviceShardStagingContext result" where
  "stage_decode_shard_cuda shard_id shard ctx =
     (if sg_finalized ctx
      then Inl (LogicError ''Cannot stage shards after decode plan finalization'')
      else if unat shard_id \<ge> length (sg_device_shards ctx)
      then Inl (InvalidArgument ''Staged shard ID is out of bounds'')
      else if shard = []
      then Inl (InvalidArgument ''Staged shards must not be empty'')
      else if sg_device_shards ctx ! unat shard_id \<noteq> None
      then Inl (InvalidArgument ''Staged shard is already present'')
      else Inr (ctx\<lparr>sg_staged_shards := (sg_staged_shards ctx)[unat shard_id := Some shard],
                   sg_word_counts := (sg_word_counts ctx)[unat shard_id := Some (length shard)],
                   sg_device_shards := (sg_device_shards ctx)[unat shard_id := Some shard]\<rparr>))"

text \<open>
  The context is returned with the result, because a plan that reaches the launches finalizes it even
  if a launch throws.
\<close>

definition run_staged_decode_plan_cuda ::
  "(int \<Rightarrow> KernelId \<Rightarrow> DeviceQueries) \<Rightarrow> (nat \<Rightarrow> nat \<Rightarrow> ShardWord) \<Rightarrow> DecodePlan \<Rightarrow> ShardSlots \<Rightarrow>
   DeviceShardStagingContext \<Rightarrow> config_cache \<Rightarrow>
   (DeviceShardStagingContext \<times> (ShardSlots \<times> config_cache) result) option" where
  "run_staged_decode_plan_cuda queries fresh plan shards ctx cache =
     (if sg_finalized ctx
      then Some (ctx, Inl (LogicError ''Staged decode context has already executed a plan''))
      else if length shards \<noteq> length (sg_device_shards ctx)
      then Some (ctx, Inl (InvalidArgument ''Destination shard slots must match the staged context''))
      else (case bindE (ValidatePlanShape plan) (\<lambda>_.
          if sg_staged_shards ctx \<noteq> shards
          then Inl (InvalidArgument ''Staged shards must match the supplied host shard slots'')
          else scan_plan plan
            \<lparr>word_counts = sg_word_counts ctx, available_shards = map (\<lambda>c. c \<noteq> None) (sg_word_counts ctx),
             required_shards = replicate (length (sg_device_shards ctx)) False,
             flattened_sources = [], source_offsets = []\<rparr>) of
        Inl e \<Rightarrow> Some (ctx, Inl e)
      | Inr sc \<Rightarrow>
          (let device = allocate fresh sc (sg_device_shards ctx);
               ctx' = ctx\<lparr>sg_word_counts := word_counts sc, sg_plan := plan,
                         sg_source_offsets := source_offsets sc, sg_device_shards := device,
                         sg_finalized := True\<rparr>
           in case launch_operations queries (sg_device_id ctx) sc (List.enumerate 0 (operations plan)) (device, cache) of
                None \<Rightarrow> None
              | Some (Inl e) \<Rightarrow> Some (ctx', Inl e)
              | Some (Inr (device', cache')) \<Rightarrow>
                  Some (ctx'\<lparr>sg_device_shards := device', sg_staged_shards := []\<rparr>,
                        Inr (download (operations plan) device' shards, cache')))))"

section \<open>The scan against the CPU executor\<close>

text \<open>The scan state mirrors the slots the CPU executor would have at the same point.\<close>

definition tracks :: "ScanState \<Rightarrow> ShardSlots \<Rightarrow> bool" where
  "tracks sc shards \<longleftrightarrow> word_counts sc = map (map_option length) shards \<and>
     available_shards sc = map (\<lambda>s. s \<noteq> None) shards \<and> length (required_shards sc) = length shards \<and>
     (\<forall>s\<in>set shards. s \<noteq> Some [])"

definition mark_required :: "ShardId list \<Rightarrow> bool list \<Rightarrow> bool list" where
  "mark_required srcs required = foldl (\<lambda>r s. r[unat s := True]) required srcs"

lemma length_mark_required [simp]: "length (mark_required srcs required) = length required"
  unfolding mark_required_def by (induction srcs arbitrary: required) auto

lemma nth_mark_required:
  "i < length required \<Longrightarrow> mark_required srcs required ! i \<longleftrightarrow> required ! i \<or> i \<in> unat ` set srcs"
  unfolding mark_required_def
proof (induction srcs arbitrary: required)
  case (Cons s srcs)
  from Cons.IH [of "required[unat s := True]"] Cons.prems show ?case
    by (cases "i = unat s") auto
qed simp

lemma mark_required_simps [simp]:
  "mark_required [] required = required"
  "mark_required (s # srcs) required = mark_required srcs (required[unat s := True])"
  by (simp_all add: mark_required_def)

lemma scan_sources_Inr:
  "foldE scan_source srcs (sc, wc) = Inr (sc', wc') \<longleftrightarrow>
     (\<forall>s\<in>set srcs. unat s < length (word_counts sc) \<and> available_shards sc ! unat s \<and>
        word_counts sc ! unat s \<noteq> None \<and> word_counts sc ! unat s = wc') \<and>
     (wc \<noteq> None \<or> srcs = [] \<longrightarrow> wc' = wc) \<and>
     sc' = sc\<lparr>required_shards := mark_required srcs (required_shards sc),
              flattened_sources := flattened_sources sc @ srcs\<rparr>"
proof (induction srcs arbitrary: sc wc)
  case Nil
  then show ?case by auto
next
  case (Cons s srcs)
  let ?sc = "sc\<lparr>required_shards := (required_shards sc)[unat s := True],
      flattened_sources := flattened_sources sc @ [s]\<rparr>"
  have "foldE scan_source (s # srcs) (sc, wc) = Inr (sc', wc') \<longleftrightarrow>
      unat s < length (word_counts sc) \<and> available_shards sc ! unat s \<and> word_counts sc ! unat s \<noteq> None \<and>
      (wc \<noteq> None \<longrightarrow> wc = word_counts sc ! unat s) \<and>
      foldE scan_source srcs (?sc, word_counts sc ! unat s) = Inr (sc', wc')"
    by (auto simp: scan_source_def not_le split: if_splits)
  also have "\<dots> \<longleftrightarrow> (\<forall>x\<in>set (s # srcs). unat x < length (word_counts sc) \<and> available_shards sc ! unat x \<and>
        word_counts sc ! unat x \<noteq> None \<and> word_counts sc ! unat x = wc') \<and>
     (wc \<noteq> None \<or> s # srcs = [] \<longrightarrow> wc' = wc) \<and>
     sc' = sc\<lparr>required_shards := mark_required (s # srcs) (required_shards sc),
              flattened_sources := flattened_sources sc @ s # srcs\<rparr>"
    unfolding Cons.IH by auto
  finally show ?case .
qed

lemma scan_source_Inl: "scan_source s st = Inl e \<Longrightarrow> \<exists>m. e = InvalidArgument m"
  by (auto simp: scan_source_def split: prod.splits if_splits)

lemma foldE_Inl: "foldE f xs s = Inl e \<Longrightarrow> (\<And>x s e. f x s = Inl e \<Longrightarrow> P e) \<Longrightarrow> P e"
  by (induction xs arbitrary: s) (auto simp: bindE_eq_Inl)

lemma scan_operation_Inl: "scan_operation op sc = Inl e \<Longrightarrow> \<exists>m. e = InvalidArgument m"
  using foldE_Inl [where f = scan_source and P = "\<lambda>e. \<exists>m. e = InvalidArgument m"] scan_source_Inl
  by (fastforce simp: scan_operation_def Let_def bindE_eq_Inl split: if_splits)

lemma scan_plan_Inl: "scan_plan plan sc = Inl e \<Longrightarrow> \<exists>m. e = InvalidArgument m"
  unfolding scan_plan_def
  by (erule foldE_Inl [where P = "\<lambda>e. \<exists>m. e = InvalidArgument m"]) (rule scan_operation_Inl)

lemma slot_nth: "unat i < length shards \<Longrightarrow> slot shards i = shards ! unat i"
  by (simp add: slot_def)

lemma tracks_source:
  assumes "tracks sc shards"
  shows "unat s < length (word_counts sc) \<and> available_shards sc ! unat s \<and>
        word_counts sc ! unat s \<noteq> None \<and> word_counts sc ! unat s = Some n
    \<longleftrightarrow> (\<exists>w. slot shards s = Some w \<and> length w = n)"
  using assms by (auto simp: tracks_def slot_def)

text \<open>What one scanned operation did to the metadata.\<close>

definition scan_extends :: "XorOperation list \<Rightarrow> ScanState \<Rightarrow> ScanState \<Rightarrow> bool" where
  "scan_extends ops sc sc' \<longleftrightarrow>
     (\<forall>i<length (required_shards sc). required_shards sc' ! i \<longleftrightarrow> required_shards sc ! i \<or>
        i \<in> (\<Union>op\<in>set ops. insert (unat (xo_output op)) (unat ` set (xo_sources op)))) \<and>
     flattened_sources sc' = flattened_sources sc @ concat (map xo_sources ops) \<and>
     source_offsets sc' = source_offsets sc @
       map (\<lambda>j. length (flattened_sources sc) + length (concat (map xo_sources (take j ops)))) [0..<length ops]"

lemma scan_extends_trans:
  assumes "scan_extends [op] sc sc1" "scan_extends ops sc1 sc2"
    and "length (required_shards sc1) = length (required_shards sc)"
  shows "scan_extends (op # ops) sc sc2"
proof -
  have "map (\<lambda>j. length (flattened_sources sc) + length (concat (map xo_sources (take j (op # ops))))) [0..<length (op # ops)]
      = length (flattened_sources sc) # map (\<lambda>j. length (flattened_sources sc1) + length (concat (map xo_sources (take j ops)))) [0..<length ops]"
    using assms(1) by (simp add: scan_extends_def upt_rec [of 0 "Suc (length ops)"] map_Suc_upt [symmetric] del: upt_Suc)
  then show ?thesis using assms by (auto simp: scan_extends_def)
qed

lemma scan_operation_iff:
  assumes "tracks sc shards"
  shows "(\<exists>sc'. scan_operation op sc = Inr sc') \<longleftrightarrow> (\<exists>shards'. execute_operation op shards = Inr shards')"
    and "scan_operation op sc = Inr sc' \<Longrightarrow> execute_operation op shards = Inr shards' \<Longrightarrow>
      tracks sc' shards' \<and> scan_extends [op] sc sc'"
proof -
  let ?out = "unat (xo_output op)"
  let ?sc = "sc\<lparr>source_offsets := source_offsets sc @ [length (flattened_sources sc)]\<rparr>"
  have tr: "tracks ?sc shards" using assms by (simp add: tracks_def)
  have scan: "scan_operation op sc = Inr x \<longleftrightarrow> ?out < length shards \<and> xo_sources op \<noteq> [] \<and>
      slot shards (xo_output op) = None \<and> (\<exists>n. (\<forall>s\<in>set (xo_sources op). \<exists>w. slot shards s = Some w \<and> length w = n) \<and>
       x = sc\<lparr>source_offsets := source_offsets sc @ [length (flattened_sources sc)],
         flattened_sources := flattened_sources sc @ xo_sources op,
         word_counts := (word_counts sc)[?out := Some n], available_shards := (available_shards sc)[?out := True],
         required_shards := (mark_required (xo_sources op) (required_shards sc))[?out := True]\<rparr>)" (is "?l \<longleftrightarrow> ?r") for x
  proof -
    have "?l \<longleftrightarrow> ?out < length shards \<and> xo_sources op \<noteq> [] \<and> slot shards (xo_output op) = None \<and>
        (\<exists>sc' wc. foldE scan_source (xo_sources op) (?sc, None) = Inr (sc', wc) \<and>
          x = sc'\<lparr>word_counts := (word_counts sc')[?out := wc], available_shards := (available_shards sc')[?out := True],
            required_shards := (required_shards sc')[?out := True]\<rparr>)"
      using assms by (auto simp: scan_operation_def Let_def tracks_def slot_def bindE_eq_Inr)
    also have "\<dots> \<longleftrightarrow> ?r"
    proof (cases "xo_sources op = []")
      case False
      then obtain s0 where s0: "s0 \<in> set (xo_sources op)" by (cases "xo_sources op") auto
      show ?thesis
      proof (intro conj_cong refl iffI, elim exE conjE)
        fix sc' wc
        assume "foldE scan_source (xo_sources op) (?sc, None) = Inr (sc', wc)"
          and x: "x = sc'\<lparr>word_counts := (word_counts sc')[?out := wc], available_shards := (available_shards sc')[?out := True],
            required_shards := (required_shards sc')[?out := True]\<rparr>"
        then have f: "\<forall>s\<in>set (xo_sources op). unat s < length (word_counts ?sc) \<and> available_shards ?sc ! unat s \<and>
          word_counts ?sc ! unat s \<noteq> None \<and> word_counts ?sc ! unat s = wc"
          and sc': "sc' = ?sc\<lparr>required_shards := mark_required (xo_sources op) (required_shards ?sc),
              flattened_sources := flattened_sources ?sc @ xo_sources op\<rparr>"
          unfolding scan_sources_Inr by blast+
        obtain n where n: "wc = Some n" using f s0 by (cases wc) auto
        have "\<forall>s\<in>set (xo_sources op). \<exists>w. slot shards s = Some w \<and> length w = n"
          using f tracks_source [OF tr, of _ n] unfolding n by blast
        then show "\<exists>n. (\<forall>s\<in>set (xo_sources op). \<exists>w. slot shards s = Some w \<and> length w = n) \<and>
           x = sc\<lparr>source_offsets := source_offsets sc @ [length (flattened_sources sc)],
             flattened_sources := flattened_sources sc @ xo_sources op,
             word_counts := (word_counts sc)[?out := Some n], available_shards := (available_shards sc)[?out := True],
             required_shards := (mark_required (xo_sources op) (required_shards sc))[?out := True]\<rparr>"
          using x unfolding sc' n by (intro exI [of _ n]) simp
      next
        assume "\<exists>n. (\<forall>s\<in>set (xo_sources op). \<exists>w. slot shards s = Some w \<and> length w = n) \<and>
           x = sc\<lparr>source_offsets := source_offsets sc @ [length (flattened_sources sc)],
             flattened_sources := flattened_sources sc @ xo_sources op,
             word_counts := (word_counts sc)[?out := Some n], available_shards := (available_shards sc)[?out := True],
             required_shards := (mark_required (xo_sources op) (required_shards sc))[?out := True]\<rparr>"
        then obtain n where n: "\<forall>s\<in>set (xo_sources op). \<exists>w. slot shards s = Some w \<and> length w = n"
          and x: "x = sc\<lparr>source_offsets := source_offsets sc @ [length (flattened_sources sc)],
             flattened_sources := flattened_sources sc @ xo_sources op,
             word_counts := (word_counts sc)[?out := Some n], available_shards := (available_shards sc)[?out := True],
             required_shards := (mark_required (xo_sources op) (required_shards sc))[?out := True]\<rparr>"
          by blast
        let ?sc' = "?sc\<lparr>required_shards := mark_required (xo_sources op) (required_shards ?sc),
              flattened_sources := flattened_sources ?sc @ xo_sources op\<rparr>"
        have "foldE scan_source (xo_sources op) (?sc, None) = Inr (?sc', Some n)"
          unfolding scan_sources_Inr using n False tracks_source [OF tr, of _ n] by blast
        moreover have "x = ?sc'\<lparr>word_counts := (word_counts ?sc')[?out := Some n],
            available_shards := (available_shards ?sc')[?out := True],
            required_shards := (required_shards ?sc')[?out := True]\<rparr>"
          using x by simp
        ultimately show "\<exists>sc' wc. foldE scan_source (xo_sources op) (?sc, None) = Inr (sc', wc) \<and>
          x = sc'\<lparr>word_counts := (word_counts sc')[?out := wc], available_shards := (available_shards sc')[?out := True],
            required_shards := (required_shards sc')[?out := True]\<rparr>" by blast
      qed
    qed simp
    finally show ?thesis .
  qed
  have nonempty: "0 < n" if srcs: "\<forall>s\<in>set (xo_sources op). \<exists>w. slot shards s = Some w \<and> length w = n"
      "xo_sources op \<noteq> []" for n
  proof -
    obtain w where w: "slot shards (hd (xo_sources op)) = Some w" "length w = n"
      using bspec [OF srcs(1) hd_in_set [OF srcs(2)]] by blast
    then have "Some w \<in> set shards" by (auto simp: slot_def split: if_splits) (metis nth_mem)
    then show ?thesis using assms w(2) by (auto simp: tracks_def)
  qed
  show "(\<exists>sc'. scan_operation op sc = Inr sc') \<longleftrightarrow> (\<exists>shards'. execute_operation op shards = Inr shards')"
    unfolding scan execute_operation_Inr using nonempty by blast
  show "tracks sc' shards' \<and> scan_extends [op] sc sc'"
    if s: "scan_operation op sc = Inr sc'" and e: "execute_operation op shards = Inr shards'"
  proof -
    obtain n where n: "?out < length shards" "xo_sources op \<noteq> []"
        "\<forall>s\<in>set (xo_sources op). \<exists>w. slot shards s = Some w \<and> length w = n" and
      sc': "sc' = sc\<lparr>source_offsets := source_offsets sc @ [length (flattened_sources sc)],
         flattened_sources := flattened_sources sc @ xo_sources op,
         word_counts := (word_counts sc)[?out := Some n], available_shards := (available_shards sc)[?out := True],
         required_shards := (mark_required (xo_sources op) (required_shards sc))[?out := True]\<rparr>"
      using s unfolding scan by blast
    obtain m where m: "\<forall>s\<in>set (xo_sources op). \<exists>w. slot shards s = Some w \<and> length w = m"
        "shards' = shards[?out := Some (xor_all m (map (\<lambda>s. the (slot shards s)) (xo_sources op)))]"
      using e unfolding execute_operation_Inr by blast
    have mn: "m = n" using m(1) n(2,3) by (cases "xo_sources op") auto
    have len: "length (xor_all n (map (\<lambda>s. the (slot shards s)) (xo_sources op))) = n"
      by (rule length_xor_all) (use n(3) in force)
    have "Some [] \<notin> set shards'"
    proof
      assume "Some [] \<in> set shards'"
      then have "Some [] = Some (xor_all n (map (\<lambda>s. the (slot shards s)) (xo_sources op))) \<or> Some [] \<in> set shards"
        unfolding m(2) mn by (metis insertE set_update_subset_insert subsetD)
      then show False using assms len nonempty [OF n(3,2)] by (auto simp: tracks_def)
    qed
    then have "tracks sc' shards'"
      using assms len unfolding sc' m(2) mn by (auto simp: tracks_def map_update)
    moreover have "scan_extends [op] sc sc'"
      using n(1) assms unfolding sc' by (auto simp: scan_extends_def tracks_def nth_list_update nth_mark_required)
    ultimately show ?thesis by blast
  qed
qed

text \<open>The scan of all operations succeeds exactly when the CPU executor does.\<close>

lemma scan_operations_iff:
  assumes "tracks sc shards"
  shows "(\<exists>sc'. foldE scan_operation ops sc = Inr sc') \<longleftrightarrow> snd (execute_operations ops shards) = None"
  using assms
proof (induction ops arbitrary: sc shards)
  case Nil
  then show ?case by simp
next
  case (Cons op ops)
  show ?case
  proof (cases "execute_operation op shards")
    case (Inl e)
    then have "\<not> (\<exists>sc'. scan_operation op sc = Inr sc')"
      using scan_operation_iff(1) [OF Cons.prems] by simp
    then show ?thesis using Inl by (simp add: bindE_eq_Inr)
  next
    case (Inr shards')
    then obtain sc1 where sc1: "scan_operation op sc = Inr sc1"
      using scan_operation_iff(1) [OF Cons.prems] by blast
    then have "tracks sc1 shards'" using scan_operation_iff(2) [OF Cons.prems sc1 Inr] by blast
    from Cons.IH [OF this] show ?thesis using Inr sc1 by simp
  qed
qed

lemma scan_operations_extends:
  assumes "tracks sc shards" "foldE scan_operation ops sc = Inr sc'"
  shows "tracks sc' (fst (execute_operations ops shards)) \<and> scan_extends ops sc sc'"
  using assms
proof (induction ops arbitrary: sc shards)
  case Nil
  then show ?case by (simp add: scan_extends_def)
next
  case (Cons op ops)
  obtain sc1 where sc1: "scan_operation op sc = Inr sc1" "foldE scan_operation ops sc1 = Inr sc'"
    using Cons.prems(2) by (auto simp: bindE_eq_Inr)
  obtain shards1 where shards1: "execute_operation op shards = Inr shards1"
    using scan_operation_iff(1) [OF Cons.prems(1), of op] sc1(1) by blast
  have step: "tracks sc1 shards1" "scan_extends [op] sc sc1"
    using scan_operation_iff(2) [OF Cons.prems(1) sc1(1) shards1] by auto
  have "length (required_shards sc1) = length (required_shards sc)"
    using Cons.prems(1) step(1) execute_operation_frame(1) [OF shards1] by (simp add: tracks_def)
  then show ?case
    using Cons.IH [OF step(1) sc1(2)] scan_extends_trans [OF step(2)] shards1 by simp
qed

section \<open>The launches against the CPU executor\<close>

text \<open>
  The device holds, for every required slot, a buffer of the final size, and in it the shard of the
  CPU slots where that shard is present.
\<close>

definition holds :: "ScanState \<Rightarrow> ShardSlots \<Rightarrow> device_table \<Rightarrow> bool" where
  "holds sc shards device \<longleftrightarrow> length device = length shards \<and> length (word_counts sc) = length shards \<and>
     (\<forall>i<length shards. required_shards sc ! i \<longrightarrow> (\<exists>buf. device ! i = Some buf \<and>
        word_counts sc ! i = Some (length buf) \<and> (shards ! i = None \<or> shards ! i = Some buf)))"

text \<open>The metadata a launch needs: where its sources are, and that its slots are required.\<close>

definition launchable :: "ScanState \<Rightarrow> nat \<times> XorOperation \<Rightarrow> bool" where
  "launchable sc iop \<longleftrightarrow> (case iop of (j, op) \<Rightarrow>
     (\<exists>rest. drop (source_offsets sc ! j) (flattened_sources sc) = xo_sources op @ rest) \<and>
     (\<forall>s\<in>insert (xo_output op) (set (xo_sources op)).
        unat s < length (word_counts sc) \<longrightarrow> required_shards sc ! unat s))"

lemma launch_operation_ok:
  assumes rt: "runtime_ok queries" "cache_ok queries cache"
    and holds: "holds sc shards device" and la: "launchable sc (j, op)"
    and ex: "execute_operation op shards = Inr shards'"
    and final: "\<forall>w. slot shards' (xo_output op) = Some w \<longrightarrow> word_counts sc ! unat (xo_output op) = Some (length w)"
  shows "\<exists>device' cache'. launch_operation queries dev sc (j, op) (device, cache) = Some (Inr (device', cache')) \<and>
    holds sc shards' device' \<and> cache_ok queries cache'"
proof -
  let ?out = "unat (xo_output op)" and ?srcs = "xo_sources op"
  let ?table = "host_shard_table (required_shards sc) device"
  obtain n where n: "?out < length shards" "\<forall>s\<in>set ?srcs. \<exists>w. slot shards s = Some w \<and> length w = n"
      "shards' = shards[?out := Some (xor_all n (map (\<lambda>s. the (slot shards s)) ?srcs))]"
    using ex unfolding execute_operation_Inr by blast
  have len: "length device = length shards" "length (word_counts sc) = length shards"
    using holds by (simp_all add: holds_def)
  obtain rest where rest: "drop (source_offsets sc ! j) (flattened_sources sc) = ?srcs @ rest"
    using la by (auto simp: launchable_def)
  have src: "unat s < length device \<and> ?table ! unat s = slot shards s"
    if s: "s \<in> set ?srcs" for s
  proof -
    obtain w where w: "slot shards s = Some w" using n(2) s by blast
    then have "unat s < length shards" "shards ! unat s = Some w" by (auto simp: slot_def split: if_splits)
    moreover have "required_shards sc ! unat s" using la s calculation len by (auto simp: launchable_def)
    ultimately show ?thesis using holds w len by (auto simp: holds_def host_shard_table_def)
  qed
  have map_eq: "map (\<lambda>s. the (?table ! unat s)) ?srcs = map (\<lambda>s. the (slot shards s)) ?srcs"
    using src by simp
  have lens: "length (xor_all n (map (\<lambda>s. the (slot shards s)) ?srcs)) = n"
    by (rule length_xor_all) (use n(2) in force)
  have wc: "word_counts sc ! ?out = Some n"
    using final n(1) lens unfolding n(3) by (simp add: slot_def)
  have "required_shards sc ! ?out" using la n(1) len by (auto simp: launchable_def)
  then obtain buf where buf: "device ! ?out = Some buf" "length buf = n"
    using holds n(1) wc by (auto simp: holds_def)
  have "sources_ready ?table ?srcs n"
    unfolding sources_ready_def
  proof
    fix s
    assume s: "s \<in> set ?srcs"
    then obtain w where "slot shards s = Some w" "length w = n" using n(2) by blast
    then show "unat s < length ?table \<and> (\<exists>buf. ?table ! unat s = Some buf \<and> length buf = n)"
      using src [OF s] by (simp add: host_shard_table_def)
  qed
  from LaunchXor_ok [OF rt this buf(2), of dev rest]
  obtain cache' where c: "LaunchXorOperationCuda queries dev (length ?srcs) n ?table (?srcs @ rest) buf cache
      = Some (Inr (xor_all n (map (\<lambda>s. the (slot shards s)) ?srcs), cache'))" "cache_ok queries cache'"
    unfolding map_eq by blast
  let ?new = "xor_all n (map (\<lambda>s. the (slot shards s)) ?srcs)"
  have "launch_operation queries dev sc (j, op) (device, cache) = Some (Inr (device[?out := Some ?new], cache'))"
    using c(1) rest wc buf(1) by (simp add: launch_operation_def Let_def)
  moreover have "holds sc shards' (device[?out := Some ?new])"
    unfolding holds_def
  proof (intro conjI allI impI)
    show "length (device[?out := Some ?new]) = length shards'" "length (word_counts sc) = length shards'"
      using len n(3) by simp_all
    fix i
    assume "i < length shards'" "required_shards sc ! i"
    then show "\<exists>buf. device[?out := Some ?new] ! i = Some buf \<and> word_counts sc ! i = Some (length buf) \<and>
        (shards' ! i = None \<or> shards' ! i = Some buf)"
      using holds n(3) wc lens len by (cases "i = ?out") (auto simp: holds_def)
  qed
  ultimately show ?thesis using c(2) by blast
qed

lemma launch_operations_ok:
  assumes "runtime_ok queries" "cache_ok queries cache" "holds sc shards device"
    and "\<forall>iop\<in>set iops. launchable sc iop"
    and "execute_operations (map snd iops) shards = (shards', None)"
    and "\<forall>i w. slot shards' i = Some w \<longrightarrow> word_counts sc ! unat i = Some (length w)"
  shows "\<exists>device' cache'. launch_operations queries dev sc iops (device, cache) = Some (Inr (device', cache')) \<and>
    holds sc shards' device' \<and> cache_ok queries cache'"
  using assms(2-5)
proof (induction iops arbitrary: device cache shards)
  case Nil
  then show ?case by simp
next
  case (Cons iop iops)
  obtain j op where iop: "iop = (j, op)" by fastforce
  obtain shards1 where s1: "execute_operation op shards = Inr shards1"
      "execute_operations (map snd iops) shards1 = (shards', None)"
    using Cons.prems(4) iop by (auto split: sum.splits)
  have "\<forall>w. slot shards1 (xo_output op) = Some w \<longrightarrow> word_counts sc ! unat (xo_output op) = Some (length w)"
    using execute_operations_frame [of "map snd iops" shards1 "xo_output op"] s1(2) assms(6) by simp
  moreover have "launchable sc (j, op)" using Cons.prems(3) iop by simp
  ultimately obtain device1 cache1 where d1:
      "launch_operation queries dev sc iop (device, cache) = Some (Inr (device1, cache1))"
      "holds sc shards1 device1" "cache_ok queries cache1"
    using launch_operation_ok [OF assms(1) Cons.prems(1,2) _ s1(1)] iop by blast
  have "\<forall>iop\<in>set iops. launchable sc iop" using Cons.prems(3) by simp
  from Cons.IH [OF d1(3,2) this s1(2)] show ?case using d1(1) by simp
qed

text \<open>The scan makes every operation of the plan launchable.\<close>

lemma scan_launchable:
  assumes "scan_extends ops sc sc'" "flattened_sources sc = []" "source_offsets sc = []"
    and "length (required_shards sc) = length (word_counts sc')"
    and "iop \<in> set (List.enumerate 0 ops)"
  shows "launchable sc' iop"
proof -
  obtain j op where iop: "iop = (j, op)" by fastforce
  then have j: "j < length ops" "ops ! j = op" using assms(5) by (auto simp: in_set_enumerate_eq)
  have "concat (map xo_sources ops) = concat (map xo_sources (take j ops)) @ xo_sources op @ concat (map xo_sources (drop (Suc j) ops))"
    using id_take_nth_drop [OF j(1)] j(2) by (metis concat.simps(2) concat_append list.simps(9) map_append)
  then have "\<exists>rest. drop (source_offsets sc' ! j) (flattened_sources sc') = xo_sources op @ rest"
    using assms(1-3) j(1) by (simp add: scan_extends_def)
  moreover have "op \<in> set ops" using j by auto
  ultimately show ?thesis
    using assms(1,4) iop by (auto simp: launchable_def scan_extends_def)
qed

section \<open>Downloads\<close>

lemma length_download [simp]: "length (download ops device shards) = length shards"
  unfolding download_def by (induction ops arbitrary: shards) auto

lemma nth_download:
  "i < length shards \<Longrightarrow> download ops device shards ! i
    = (if i \<in> unat ` xo_output ` set ops then Some (the (device ! i)) else shards ! i)"
  unfolding download_def
proof (induction ops arbitrary: shards)
  case (Cons op ops)
  from Cons.IH [of "shards[unat (xo_output op) := Some (the (device ! unat (xo_output op)))]"] Cons.prems
  show ?case by (cases "i = unat (xo_output op)") auto
qed simp

lemma execute_operations_outputs:
  assumes "execute_operations ops shards = (shards', None)" "op \<in> set ops"
  shows "slot shards' (xo_output op) \<noteq> None"
  using assms
proof (induction ops arbitrary: shards)
  case (Cons o1 ops)
  obtain s1 where s1: "execute_operation o1 shards = Inr s1" "execute_operations ops s1 = (shards', None)"
    using Cons.prems(1) by (auto split: sum.splits)
  show ?case
  proof (cases "op = o1")
    case True
    then obtain w where "slot s1 (xo_output op) = Some w" using execute_operation_frame(2) [OF s1(1)] by auto
    then show ?thesis using execute_operations_frame [of ops s1 "xo_output op" w] s1(2) by simp
  next
    case False
    then show ?thesis using Cons.IH [OF s1(2)] Cons.prems(2) by simp
  qed
qed simp

lemma execute_operations_nth:
  assumes "execute_operations ops shards = (shards', None)" "i \<notin> unat ` xo_output ` set ops"
  shows "shards' ! i = shards ! i"
  using assms
proof (induction ops arbitrary: shards)
  case (Cons op ops)
  obtain s1 where s1: "execute_operation op shards = Inr s1" "execute_operations ops s1 = (shards', None)"
    using Cons.prems(1) by (auto split: sum.splits)
  then have "s1 ! i = shards ! i"
    using Cons.prems(2) unfolding execute_operation_Inr by auto
  then show ?case using Cons.IH [OF s1(2)] Cons.prems(2) by simp
qed simp

lemma download_final:
  assumes "execute_operations ops shards = (shards', None)" "holds sc shards' device"
    and "\<forall>op\<in>set ops. required_shards sc ! unat (xo_output op)"
    and "length dest = length shards" "\<forall>i<length shards. i \<notin> unat ` xo_output ` set ops \<longrightarrow> dest ! i = shards ! i"
  shows "download ops device dest = shards'"
proof (rule nth_equalityI)
  have len: "length shards' = length shards"
    using execute_operations_frame [of ops shards] assms(1) by simp
  then show "length (download ops device dest) = length shards'" using assms(4) by simp
  fix i
  assume "i < length (download ops device dest)"
  then have i: "i < length shards" using assms(4) by simp
  show "download ops device dest ! i = shards' ! i"
  proof (cases "i \<in> unat ` xo_output ` set ops")
    case True
    then obtain op where op: "op \<in> set ops" "i = unat (xo_output op)" by auto
    have "shards' ! i \<noteq> None"
      using execute_operations_outputs [OF assms(1) op(1)] op(2) i len by (simp add: slot_def)
    then show ?thesis
      using assms(2,3) op i len True assms(4) by (auto simp: holds_def nth_download)
  next
    case False
    then show ?thesis using execute_operations_nth [OF assms(1) False] i assms(4,5) by (simp add: nth_download)
  qed
qed

section \<open>Whole plans\<close>

lemma execute_operations_sources:
  assumes "execute_operations ops shards = (shards', None)" "op \<in> set ops" "s \<in> set (xo_sources op)"
  shows "slot shards' s \<noteq> None"
  using assms(1,2)
proof (induction ops arbitrary: shards)
  case (Cons o1 ops)
  obtain s1 where s1: "execute_operation o1 shards = Inr s1" "execute_operations ops s1 = (shards', None)"
    using Cons.prems(1) by (auto split: sum.splits)
  show ?case
  proof (cases "op = o1")
    case True
    obtain w where "slot shards s = Some w"
      using s1(1) assms(3) unfolding execute_operation_Inr True by blast
    then have "slot s1 s = Some w" by (rule execute_operation_frame(4) [OF s1(1)])
    then show ?thesis using execute_operations_frame [of ops s1 s w] s1(2) by simp
  next
    case False
    then show ?thesis using Cons.IH [OF s1(2)] Cons.prems(2) by simp
  qed
qed simp

lemma execute_operations_present:
  assumes "execute_operations ops shards = (shards', None)" "i < length shards" "shards ! i \<noteq> None"
  shows "shards' ! i = shards ! i"
proof (cases "i \<in> unat ` xo_output ` set ops")
  case True
  then obtain x :: ShardId where x: "i = unat x" by blast
  obtain w where "slot shards x = Some w" using assms(2,3) x by (auto simp: slot_def)
  then have "slot shards' x = Some w" using execute_operations_frame [of ops shards x w] assms(1) by simp
  then show ?thesis
    using \<open>slot shards x = Some w\<close> x by (auto simp: slot_def split: if_splits)
next
  case False
  then show ?thesis by (rule execute_operations_nth [OF assms(1)])
qed

text \<open>A scan state before the first operation.\<close>

definition fresh_scan :: "ScanState \<Rightarrow> ShardSlots \<Rightarrow> bool" where
  "fresh_scan sc shards \<longleftrightarrow> tracks sc shards \<and> flattened_sources sc = [] \<and> source_offsets sc = [] \<and>
     required_shards sc = replicate (length shards) False"

lemma scan_slots_fresh:
  "Some [] \<notin> set shards \<Longrightarrow> \<exists>sc. scan_slots shards = Inr sc \<and> fresh_scan sc shards"
  by (auto simp: scan_slots_def reject_any_def list_ex_iff fresh_scan_def tracks_def)

lemma scan_complete:
  assumes "fresh_scan sc0 shards" "scan_plan plan sc0 = Inr sc"
  obtains shards' where "execute_operations (operations plan) shards = (shards', None)" "tracks sc shards'"
    "\<forall>iop\<in>set (List.enumerate 0 (operations plan)). launchable sc iop"
    "\<forall>op\<in>set (operations plan). required_shards sc ! unat (xo_output op)"
    "\<forall>i<length shards. required_shards sc ! i \<longrightarrow> shards' ! i \<noteq> None"
    "\<forall>i<length shards. shards ! i \<noteq> None \<longrightarrow> shards' ! i = shards ! i" "length shards' = length shards"
proof -
  let ?ops = "operations plan"
  have tr: "tracks sc0 shards" and sc0: "flattened_sources sc0 = []" "source_offsets sc0 = []"
      "required_shards sc0 = replicate (length shards) False"
    using assms(1) by (simp_all add: fresh_scan_def)
  have scan: "foldE scan_operation ?ops sc0 = Inr sc" using assms(2) by (simp add: scan_plan_def)
  obtain shards' where ex: "execute_operations ?ops shards = (shards', None)"
    using scan_operations_iff [OF tr, of ?ops] scan by (cases "execute_operations ?ops shards") auto
  have ext: "tracks sc shards'" "scan_extends ?ops sc0 sc"
    using scan_operations_extends [OF tr scan] ex by auto
  have len: "length shards' = length shards" using execute_operations_frame [of ?ops shards] ex by simp
  have req: "required_shards sc ! i \<longleftrightarrow> i \<in> (\<Union>op\<in>set ?ops. insert (unat (xo_output op)) (unat ` set (xo_sources op)))"
    if "i < length shards" for i
    using ext(2) sc0(3) that by (simp add: scan_extends_def)
  show thesis
  proof (rule that [OF ex ext(1)])
    show "\<forall>iop\<in>set (List.enumerate 0 ?ops). launchable sc iop"
      using scan_launchable [OF ext(2) sc0(1,2)] sc0(3) ext(1) len by (simp add: tracks_def)
    show "\<forall>op\<in>set ?ops. required_shards sc ! unat (xo_output op)"
    proof
      fix op
      assume op: "op \<in> set ?ops"
      have "unat (xo_output op) < length shards"
        using execute_operations_outputs [OF ex op] len by (auto simp: slot_def split: if_splits)
      then show "required_shards sc ! unat (xo_output op)" using req op by blast
    qed
    show "\<forall>i<length shards. required_shards sc ! i \<longrightarrow> shards' ! i \<noteq> None"
    proof (intro allI impI)
      fix i
      assume i: "i < length shards" "required_shards sc ! i"
      then obtain op x where op: "op \<in> set ?ops" "i = unat x" "x = xo_output op \<or> x \<in> set (xo_sources op)"
        using req [OF i(1)] by auto
      then have "slot shards' x \<noteq> None"
        using execute_operations_outputs [OF ex op(1)] execute_operations_sources [OF ex op(1)] by blast
      then show "shards' ! i \<noteq> None" using op(2) by (auto simp: slot_def split: if_splits)
    qed
  qed (use execute_operations_present [OF ex] len in auto)
qed

lemma holds_initial:
  assumes "tracks sc shards'" "length shards' = length shards" "length device = length shards"
    and "\<forall>i<length shards. required_shards sc ! i \<longrightarrow> shards' ! i \<noteq> None"
    and "\<forall>i<length shards. shards ! i \<noteq> None \<longrightarrow> shards' ! i = shards ! i"
    and "\<forall>i<length shards. required_shards sc ! i \<longrightarrow> device ! i =
      (if shards ! i = None then Some (map (fresh i) [0..<the (word_counts sc ! i)]) else shards ! i)"
  shows "holds sc shards device"
  unfolding holds_def
proof (intro conjI allI impI)
  show "length device = length shards" "length (word_counts sc) = length shards"
    using assms(1-3) by (simp_all add: tracks_def)
  fix i
  assume i: "i < length shards" "required_shards sc ! i"
  obtain w where w: "shards' ! i = Some w" using assms(4) i by blast
  then have "word_counts sc ! i = Some (length w)" using assms(1,2) i(1) by (simp add: tracks_def)
  then show "\<exists>buf. device ! i = Some buf \<and> word_counts sc ! i = Some (length buf) \<and>
      (shards ! i = None \<or> shards ! i = Some buf)"
    using assms(5,6) i w by (cases "shards ! i") auto
qed

lemma holds_weaken:
  assumes "holds sc shards' device" "length shards' = length shards"
    and "\<forall>i<length shards. shards ! i \<noteq> None \<longrightarrow> shards' ! i = shards ! i"
  shows "holds sc shards device"
  unfolding holds_def
proof (intro conjI allI impI)
  show "length device = length shards" "length (word_counts sc) = length shards"
    using assms(1,2) by (simp_all add: holds_def)
  fix i
  assume i: "i < length shards" "required_shards sc ! i"
  then obtain buf where "device ! i = Some buf" "word_counts sc ! i = Some (length buf)"
      "shards' ! i = None \<or> shards' ! i = Some buf"
    using assms(1,2) by (auto simp: holds_def)
  then show "\<exists>buf. device ! i = Some buf \<and> word_counts sc ! i = Some (length buf) \<and>
      (shards ! i = None \<or> shards ! i = Some buf)"
    using assms(3) i(1) by (cases "shards ! i") auto
qed

lemma upload_allocate:
  assumes "i < n" "required_shards sc ! i"
  shows "upload sc shards (allocate fresh sc (replicate n None)) ! i =
      (if shards ! i = None then Some (map (fresh i) [0..<the (word_counts sc ! i)]) else shards ! i)"
  using assms by (simp add: upload_def allocate_def)

lemma length_buffers [simp]:
  "length (upload sc shards device) = length device" "length (allocate fresh sc device) = length device"
  by (simp_all add: upload_def allocate_def)

text \<open>
  The heart of all three entry points: from a device that holds the uploaded shards, the launches end
  and a download into the same slots gives what the CPU executor gives.
\<close>

lemma launch_plan:
  assumes "runtime_ok queries" "cache_ok queries cache"
    and scan: "fresh_scan sc0 shards" "scan_plan plan sc0 = Inr sc" and holds: "holds sc shards device"
  shows "\<exists>shards' device' cache'. execute_operations (operations plan) shards = (shards', None) \<and>
    launch_operations queries dev sc (List.enumerate 0 (operations plan)) (device, cache) = Some (Inr (device', cache')) \<and>
    download (operations plan) device' shards = shards' \<and> holds sc shards device' \<and> cache_ok queries cache'"
proof -
  obtain shards' where s: "execute_operations (operations plan) shards = (shards', None)" "tracks sc shards'"
    "\<forall>iop\<in>set (List.enumerate 0 (operations plan)). launchable sc iop"
    "\<forall>op\<in>set (operations plan). required_shards sc ! unat (xo_output op)"
    "\<forall>i<length shards. required_shards sc ! i \<longrightarrow> shards' ! i \<noteq> None"
    "\<forall>i<length shards. shards ! i \<noteq> None \<longrightarrow> shards' ! i = shards ! i" "length shards' = length shards"
    by (rule scan_complete [OF scan])
  have "execute_operations (map snd (List.enumerate 0 (operations plan))) shards = (shards', None)"
    using s(1) by simp
  moreover have "\<forall>i w. slot shards' i = Some w \<longrightarrow> word_counts sc ! unat i = Some (length w)"
    using s(2) by (auto simp: tracks_def slot_def split: if_splits)
  ultimately obtain device' cache' where d:
      "launch_operations queries dev sc (List.enumerate 0 (operations plan)) (device, cache) = Some (Inr (device', cache'))"
      "holds sc shards' device'" "cache_ok queries cache'"
    using launch_operations_ok [OF assms(1,2) holds s(3)] by blast
  have "download (operations plan) device' shards = shards'"
    using download_final [OF s(1) d(2) s(4)] by blast
  moreover have "holds sc shards device'" by (rule holds_weaken [OF d(2) s(7,6)])
  ultimately show ?thesis using s(1) d by blast
qed

lemma scan_upload_holds:
  assumes "fresh_scan sc0 shards" "scan_plan plan sc0 = Inr sc"
  shows "holds sc shards (upload sc shards (allocate fresh sc (replicate (length shards) None)))"
proof -
  obtain shards' where s: "tracks sc shards'" "\<forall>i<length shards. required_shards sc ! i \<longrightarrow> shards' ! i \<noteq> None"
    "\<forall>i<length shards. shards ! i \<noteq> None \<longrightarrow> shards' ! i = shards ! i" "length shards' = length shards"
    by (rule scan_complete [OF assms])
  show ?thesis
    by (rule holds_initial [OF s(1,4) _ s(2,3), where fresh = fresh]) (simp_all add: upload_allocate)
qed

lemma execute_decode_plan_cpu_ok:
  "execute_decode_plan_cpu plan shards = (shards', None) \<longleftrightarrow>
     ValidatePlanShape plan = Inr () \<and> execute_operations (operations plan) shards = (shards', None)"
  by (auto simp: execute_decode_plan_cpu_def split: sum.splits)

lemma scan_plan_iff:
  assumes "fresh_scan sc0 shards" "ValidatePlanShape plan = Inr ()"
  shows "(\<exists>sc. scan_plan plan sc0 = Inr sc) \<longleftrightarrow> snd (execute_decode_plan_cpu plan shards) = None"
  using scan_operations_iff [of sc0 shards "operations plan"] assms
  by (simp add: scan_plan_def fresh_scan_def execute_decode_plan_cpu_def)

section \<open>Relaunching and staging\<close>

text \<open>A prepared context launched several times.\<close>

primrec relaunch ::
  "nat \<Rightarrow> (int \<Rightarrow> KernelId \<Rightarrow> DeviceQueries) \<Rightarrow> DeviceDecodeContext \<Rightarrow> config_cache \<Rightarrow>
   (DeviceDecodeContext \<times> config_cache) result option" where
  "relaunch 0 queries ctx cache = Some (Inr (ctx, cache))"
| "relaunch (Suc n) queries ctx cache =
     bindR (launch_decode_plan_cuda queries ctx cache) (\<lambda>(ctx', cache'). relaunch n queries ctx' cache')"

lemma relaunch_ok:
  assumes "runtime_ok queries" "cache_ok queries cache" "fresh_scan sc0 shards"
    and "scan_plan (dd_plan ctx) sc0 = Inr (dd_scan ctx)" "holds (dd_scan ctx) shards (dd_device_shards ctx)"
    and "execute_operations (operations (dd_plan ctx)) shards = (shards', None)"
  shows "\<exists>ctx' cache'. relaunch (Suc n) queries ctx cache = Some (Inr (ctx', cache')) \<and>
    download (operations (dd_plan ctx)) (dd_device_shards ctx') shards = shards' \<and>
    dd_plan ctx' = dd_plan ctx \<and> dd_scan ctx' = dd_scan ctx"
  using assms(2,4-6)
proof (induction n arbitrary: ctx cache)
  case 0
  from launch_plan [OF assms(1) 0(1) assms(3) 0(2,3), of "dd_device_id ctx"] 0(4)
  show ?case by (auto simp: launch_decode_plan_cuda_def)
next
  case (Suc n)
  from launch_plan [OF assms(1) Suc.prems(1) assms(3) Suc.prems(2,3), of "dd_device_id ctx"]
  obtain device' cache' where d: "launch_operations queries (dd_device_id ctx) (dd_scan ctx)
      (List.enumerate 0 (operations (dd_plan ctx))) (dd_device_shards ctx, cache) = Some (Inr (device', cache'))"
      "holds (dd_scan ctx) shards device'" "cache_ok queries cache'" by blast
  from Suc.IH [OF d(3), of "ctx\<lparr>dd_device_shards := device'\<rparr>"] Suc.prems d(1,2)
  show ?case by (simp add: launch_decode_plan_cuda_def)
qed

text \<open>The slots that a sequence of staged shards describes, and the context it leads to.\<close>

definition staged_slots :: "nat \<Rightarrow> (ShardId \<times> WordShard) list \<Rightarrow> ShardSlots" where
  "staged_slots n uploads = foldl (\<lambda>slots (i, w). slots[unat i := Some w]) (replicate n None) uploads"

definition stage_all ::
  "(ShardId \<times> WordShard) list \<Rightarrow> DeviceShardStagingContext \<Rightarrow> DeviceShardStagingContext result" where
  "stage_all = foldE (\<lambda>(i, w). stage_decode_shard_cuda i w)"

definition staging_ok :: "ShardSlots \<Rightarrow> DeviceShardStagingContext \<Rightarrow> bool" where
  "staging_ok slots ctx \<longleftrightarrow> sg_staged_shards ctx = slots \<and> sg_device_shards ctx = slots \<and>
     sg_word_counts ctx = map (map_option length) slots \<and> \<not> sg_finalized ctx \<and> Some [] \<notin> set slots"

lemma stage_ok:
  assumes "staging_ok slots ctx" "stage_decode_shard_cuda i w ctx = Inr ctx'"
  shows "staging_ok (slots[unat i := Some w]) ctx'"
proof -
  have "w \<noteq> []" using assms by (auto simp: stage_decode_shard_cuda_def split: if_splits)
  then have "Some [] \<notin> set (slots[unat i := Some w])"
    using assms(1) set_update_subset_insert [of slots "unat i" "Some w"] by (auto simp: staging_ok_def)
  then show ?thesis
    using assms by (auto simp: staging_ok_def stage_decode_shard_cuda_def map_update split: if_splits)
qed

lemma stage_all_ok:
  assumes "create_device_shard_staging_context_cuda dev n = Inr ctx0" "stage_all uploads ctx0 = Inr ctx"
  shows "staging_ok (staged_slots n uploads) ctx"
proof -
  have "staging_ok (replicate n None) ctx0"
    using assms(1) by (auto simp: create_device_shard_staging_context_cuda_def staging_ok_def split: if_splits)
  then have "staging_ok (staged_slots n []) ctx0" by (simp add: staged_slots_def)
  from foldE_invariant [OF assms(2) [unfolded stage_all_def], of "\<lambda>done. staging_ok (staged_slots n done)", OF this]
  show ?thesis using stage_ok by (fastforce simp: staged_slots_def)
qed

lemma length_staged_slots [simp]: "length (staged_slots n uploads) = n"
  unfolding staged_slots_def by (induction uploads rule: rev_induct) (auto split: prod.splits)

lemma run_staged_ok:
  assumes "runtime_ok queries" "cache_ok queries cache" "staging_ok shards ctx"
    and "execute_decode_plan_cpu plan shards = (shards', None)"
  shows "\<exists>ctx' cache'. run_staged_decode_plan_cuda queries fresh plan shards ctx cache
    = Some (ctx', Inr (shards', cache')) \<and> sg_finalized ctx' \<and> cache_ok queries cache'"
proof -
  let ?sc0 = "\<lparr>word_counts = sg_word_counts ctx, available_shards = map (\<lambda>c. c \<noteq> None) (sg_word_counts ctx),
     required_shards = replicate (length (sg_device_shards ctx)) False,
     flattened_sources = [], source_offsets = []\<rparr>"
  note ctx = assms(3) [unfolded staging_ok_def]
  have sc0: "fresh_scan ?sc0 shards"
    using ctx by (auto simp: fresh_scan_def tracks_def)
  have shape: "ValidatePlanShape plan = Inr ()" using assms(4) by (simp add: execute_decode_plan_cpu_ok)
  obtain sc where sc: "scan_plan plan ?sc0 = Inr sc" using scan_plan_iff [OF sc0 shape] assms(4) by auto
  have "holds sc shards (allocate fresh sc (sg_device_shards ctx))"
  proof -
    obtain final where s: "tracks sc final" "\<forall>i<length shards. required_shards sc ! i \<longrightarrow> final ! i \<noteq> None"
      "\<forall>i<length shards. shards ! i \<noteq> None \<longrightarrow> final ! i = shards ! i" "length final = length shards"
      by (rule scan_complete [OF sc0 sc])
    show ?thesis
      by (rule holds_initial [OF s(1,4) _ s(2,3), where fresh = fresh]) (use ctx in \<open>simp_all add: allocate_def\<close>)
  qed
  from launch_plan [OF assms(1,2) sc0 sc this, of "sg_device_id ctx"] assms(4)
  obtain device' cache' where d: "launch_operations queries (sg_device_id ctx) sc (List.enumerate 0 (operations plan))
      (allocate fresh sc (sg_device_shards ctx), cache) = Some (Inr (device', cache'))"
      "download (operations plan) device' shards = shards'" "cache_ok queries cache'"
    by (auto simp: execute_decode_plan_cpu_ok)
  show ?thesis
    using ctx shape sc d by (simp add: run_staged_decode_plan_cuda_def Let_def)
qed

section \<open>Properties\<close>

text \<open>A plan and its execution, for the witnesses.\<close>

lemma example_execution:
  "execute_decode_plan_cpu example_plan [None, None, Some [4, 4], Some [6, 0], Some [7, 5]]
    = ([Some [5, 1], Some [3, 1], Some [4, 4], Some [6, 0], Some [7, 5]], None)"
  by (simp add: execute_decode_plan_cpu_def ValidatePlanShape_def reject_any_def execute_operation_def
      slot_def decode_source_def xor_words_def example_plan_def replicate_numeral)

text \<open>
  The CUDA decoder and the CPU executor are interchangeable: on slots without empty shards, with a
  working device and whatever its fresh buffers contain, the CUDA run ends, succeeds exactly when the
  CPU executor does, and then produces exactly the same slots.
\<close>

theorem cuda_decode_matches_cpu:
  assumes "runtime_ok queries" "cache_ok queries cache" "Some [] \<notin> set shards"
  shows "\<exists>r. run_decode_plan_cuda queries dev fresh plan shards cache = Some r \<and>
    (case execute_decode_plan_cpu plan shards of
       (shards', None) \<Rightarrow> \<exists>cache'. r = Inr (shards', cache')
     | (_, Some _) \<Rightarrow> \<exists>message. r = Inl (InvalidArgument message))"
proof (cases "ValidatePlanShape plan")
  case (Inl e)
  then have "\<exists>m. e = InvalidArgument m" by (auto simp: ValidatePlanShape_def exn_simps split: if_splits)
  then show ?thesis using Inl by (simp add: run_decode_plan_cuda_def execute_decode_plan_cpu_def)
next
  case (Inr u)
  then have shape: "ValidatePlanShape plan = Inr ()" by simp
  show ?thesis
  proof (cases "operations plan = []")
    case True
    then show ?thesis using shape by (simp add: run_decode_plan_cuda_def execute_decode_plan_cpu_def)
  next
    case False
    obtain sc0 where sc0: "scan_slots shards = Inr sc0" "fresh_scan sc0 shards"
      using scan_slots_fresh [OF assms(3)] by blast
    show ?thesis
    proof (cases "scan_plan plan sc0")
      case (Inl e)
      then obtain err s where "execute_decode_plan_cpu plan shards = (s, Some err)"
        using scan_plan_iff [OF sc0(2) shape] by (cases "execute_decode_plan_cpu plan shards") auto
      then show ?thesis
        using Inl scan_plan_Inl [OF Inl] shape False sc0(1) by (simp add: run_decode_plan_cuda_def)
    next
      case (Inr sc)
      from launch_plan [OF assms(1,2) sc0(2) Inr scan_upload_holds [OF sc0(2) Inr], of dev fresh]
      show ?thesis
        using Inr shape False sc0(1) by (auto simp: run_decode_plan_cuda_def execute_decode_plan_cpu_def)
    qed
  qed
qed

theorem cuda_decode_matches_cpu_witness:
  "\<exists>cache'. run_decode_plan_cuda example_queries 0 (\<lambda>_ _. 77) example_plan
     [None, None, Some [4, 4], Some [6, 0], Some [7, 5]] [] =
     Some (Inr ([Some [5, 1], Some [3, 1], Some [4, 4], Some [6, 0], Some [7, 5]], cache'))"
proof -
  show ?thesis
    using cuda_decode_matches_cpu [OF example_runtime cache_ok_Nil, of "[None, None, Some [4, 4], Some [6, 0], Some [7, 5]]"
      0 "\<lambda>_ _. 77" example_plan] example_execution
    by auto
qed

text \<open>
  A prepared context can be launched any positive number of times: whenever the CPU executor
  succeeds, preparing succeeds, every launch ends, and the download yields the CPU executor's slots.
\<close>

theorem prepared_launches_match_cpu:
  assumes "runtime_ok queries" "cache_ok queries cache" "Some [] \<notin> set shards"
    and "execute_decode_plan_cpu plan shards = (shards', None)"
  shows "\<exists>ctx ctx' cache'. prepare_decode_plan_cuda dev fresh plan shards = Inr ctx \<and>
    relaunch (Suc n) queries ctx cache = Some (Inr (ctx', cache')) \<and>
    download_decode_results_cuda ctx' shards = Inr shards'"
proof -
  have shape: "ValidatePlanShape plan = Inr ()" "execute_operations (operations plan) shards = (shards', None)"
    using assms(4) by (simp_all add: execute_decode_plan_cpu_ok)
  obtain sc0 where sc0: "scan_slots shards = Inr sc0" "fresh_scan sc0 shards"
    using scan_slots_fresh [OF assms(3)] by blast
  obtain sc where sc: "scan_plan plan sc0 = Inr sc" using scan_plan_iff [OF sc0(2) shape(1)] assms(4) by auto
  define ctx where "ctx = \<lparr>dd_plan = plan, dd_scan = sc,
     dd_device_shards = upload sc shards (allocate fresh sc (replicate (length shards) None)), dd_device_id = dev\<rparr>"
  have holds: "holds sc shards (dd_device_shards ctx)"
    using scan_upload_holds [OF sc0(2) sc] by (simp add: ctx_def)
  have "prepare_decode_plan_cuda dev fresh plan shards = Inr ctx"
    using shape sc0 sc by (simp add: prepare_decode_plan_cuda_def ctx_def)
  moreover obtain ctx' cache' where "relaunch (Suc n) queries ctx cache = Some (Inr (ctx', cache'))"
      "download (operations plan) (dd_device_shards ctx') shards = shards'" "dd_plan ctx' = plan" "dd_scan ctx' = sc"
    using relaunch_ok [OF assms(1,2) sc0(2), of ctx shards' n] sc holds shape(2) by (auto simp: ctx_def)
  ultimately show ?thesis
    using holds by (auto simp: download_decode_results_cuda_def holds_def)
qed

theorem prepared_launches_match_cpu_witness:
  "\<exists>ctx ctx' cache'. prepare_decode_plan_cuda 0 (\<lambda>_ _. 77) example_plan
       [None, None, Some [4, 4], Some [6, 0], Some [7, 5]] = Inr ctx \<and>
     relaunch (Suc 2) example_queries ctx [] = Some (Inr (ctx', cache')) \<and>
     download_decode_results_cuda ctx' [None, None, Some [4, 4], Some [6, 0], Some [7, 5]]
       = Inr [Some [5, 1], Some [3, 1], Some [4, 4], Some [6, 0], Some [7, 5]]"
  by (rule prepared_launches_match_cpu [OF example_runtime cache_ok_Nil _ example_execution]) simp

text \<open>
  Staging: after any sequence of accepted uploads, the staged run computes what the CPU executor
  computes if the supplied slots are exactly the staged shards, and otherwise throws and leaves the
  context as it was; in particular one extra staged shard makes the run throw.
\<close>

theorem staged_decode_exact:
  assumes "runtime_ok queries" "cache_ok queries cache"
    and "create_device_shard_staging_context_cuda dev (length shards) = Inr ctx0"
    and "stage_all uploads ctx0 = Inr ctx"
    and "execute_decode_plan_cpu plan shards = (shards', None)"
  shows "\<exists>ctx' r. run_staged_decode_plan_cuda queries fresh plan shards ctx cache = Some (ctx', r) \<and>
    (if shards = staged_slots (length shards) uploads
     then sg_finalized ctx' \<and> (\<exists>cache'. r = Inr (shards', cache'))
     else ctx' = ctx \<and> r = Inl (InvalidArgument ''Staged shards must match the supplied host shard slots''))"
proof -
  have ok: "staging_ok (staged_slots (length shards) uploads) ctx"
    by (rule stage_all_ok [OF assms(3,4)])
  show ?thesis
  proof (cases "shards = staged_slots (length shards) uploads")
    case True
    then have "staging_ok shards ctx" using ok by simp
    from run_staged_ok [OF assms(1,2) this assms(5), of fresh] show ?thesis
      unfolding if_P [OF True] by blast
  next
    case False
    have "ValidatePlanShape plan = Inr ()" using assms(5) by (simp add: execute_decode_plan_cpu_ok)
    moreover have "sg_staged_shards ctx \<noteq> shards" "length (sg_device_shards ctx) = length shards" "\<not> sg_finalized ctx"
      using ok False by (auto simp: staging_ok_def)
    ultimately have "run_staged_decode_plan_cuda queries fresh plan shards ctx cache
        = Some (ctx, Inl (InvalidArgument ''Staged shards must match the supplied host shard slots''))"
      by (simp add: run_staged_decode_plan_cuda_def)
    then show ?thesis unfolding if_not_P [OF False] by blast
  qed
qed

text \<open>Staged uploads in any order, for the witness.\<close>

theorem staged_decode_exact_witness:
  "\<exists>ctx ctx' cache'. create_device_shard_staging_context_cuda 0 5 = Inr ctx \<and>
     stage_all [(4, [7, 5]), (2, [4, 4]), (3, [6, 0])] ctx = Inr ctx' \<and>
     map_option snd (run_staged_decode_plan_cuda example_queries (\<lambda>_ _. 77) example_plan
       [None, None, Some [4, 4], Some [6, 0], Some [7, 5]] ctx' [])
     = Some (Inr ([Some [5, 1], Some [3, 1], Some [4, 4], Some [6, 0], Some [7, 5]], cache'))"
proof -
  let ?slots = "[None, None, Some [4, 4], Some [6, 0], Some [7, 5]] :: ShardSlots"
  obtain ctx0 where five: "create_device_shard_staging_context_cuda 0 5 = Inr ctx0"
    by (simp add: create_device_shard_staging_context_cuda_def)
  have "length ?slots = 5" by simp
  then have ctx0: "create_device_shard_staging_context_cuda 0 (length ?slots) = Inr ctx0"
    using five by (simp only:)
  obtain ctx where ctx: "stage_all [(4, [7, 5]), (2, [4, 4]), (3, [6, 0])] ctx0 = Inr ctx"
    using ctx0 by (auto simp: stage_all_def stage_decode_shard_cuda_def
        create_device_shard_staging_context_cuda_def nth_list_update replicate_numeral)
  have slots: "?slots = staged_slots (length ?slots) [(4, [7, 5]), (2, [4, 4]), (3, [6, 0])]"
    by (simp add: staged_slots_def replicate_numeral)
  from staged_decode_exact [OF example_runtime cache_ok_Nil ctx0 ctx example_execution, of "\<lambda>_ _. 77"]
  obtain c r cache' where "run_staged_decode_plan_cuda example_queries (\<lambda>_ _. 77) example_plan ?slots ctx [] = Some (c, r)"
      "r = Inr ([Some [5, 1], Some [3, 1], Some [4, 4], Some [6, 0], Some [7, 5]], cache')"
    unfolding if_P [OF slots] by blast
  then have "map_option snd (run_staged_decode_plan_cuda example_queries (\<lambda>_ _. 77) example_plan ?slots ctx [])
     = Some (Inr ([Some [5, 1], Some [3, 1], Some [4, 4], Some [6, 0], Some [7, 5]], cache'))" by simp
  then show ?thesis using five ctx by blast
qed

text \<open>
  C2. Recovery on the GPU is exact: encode the data shards, lose systematic shards and parities; if the
  planner finds the loss recoverable, the CUDA decoder ends without an exception and every systematic
  slot holds exactly the original shard.
\<close>

theorem cuda_recovery_exact:
  assumes "runtime_ok queries" "cache_ok queries cache" "omap_ok (parity_to_systematic g)"
    and "CodeGraph_new (of_nat (systematic_shard_count g)) (of_nat (parity_shard_count g))
           (to_equations g) = Inr cg"
    and "encode_parity_cpu cg data = Inr parity"
    and "CreatePlan g missing available = Inr plan" "is_recoverable plan"
  shows "\<exists>shards' cache'. run_decode_plan_cuda queries dev fresh plan (received_slots data parity missing available) cache
      = Some (Inr (shards', cache')) \<and> take (length data) shards' = map Some data"
proof -
  have g: "graph_ok g"
    using assms(3,6) ValidateGraph_iff by (auto simp: CreatePlan_def bindE_eq_Inr)
  obtain shards' where s: "execute_decode_plan_cpu plan (received_slots data parity missing available)
      = (shards', None)" "take (length data) shards' = map Some data"
    using cpu_recovery.recovers_encoded [OF g assms(4,5) _ assms(6,7)] assms(6) CreatePlan_Inr [OF g] by blast
  have "Some [] \<notin> set (received_slots data parity missing available)"
  proof
    assume "Some [] \<in> set (received_slots data parity missing available)"
    then have empty: "[] \<in> set data \<or> [] \<in> set parity"
      unfolding received_slots_def by (auto split: if_splits) (metis nth_mem)+
    obtain n where n: "0 < n" "codeword (parity_to_systematic g) n (shard_value data parity)"
      using encode_codeword(3) [OF g refl refl assms(4,5)] by blast
    obtain j where j: "j < length data + length parity" "(data @ parity) ! j = []"
      using empty by (metis Un_iff in_set_conv_nth length_append set_append)
    have "length data + length parity \<le> 2 ^ 32"
      using encode_codeword(1,2) [OF g refl refl assms(4,5)] g by (simp add: graph_ok_def)
    then have "unat (of_nat j :: ShardId) = j" using j(1) by (simp add: unat_of_nat_ShardId)
    then have "shard_value data parity (of_nat j) = []" using j by (simp add: shard_value_def)
    moreover have "length (shard_value data parity (of_nat j)) = n" using n(2) unfolding codeword_def by blast
    ultimately show False using n(1) by simp
  qed
  note slots = this
  obtain sc0 where sc0: "scan_slots (received_slots data parity missing available) = Inr sc0"
      "fresh_scan sc0 (received_slots data parity missing available)"
    using scan_slots_fresh [OF slots] by blast
  have shape: "ValidatePlanShape plan = Inr ()"
      "execute_operations (operations plan) (received_slots data parity missing available) = (shards', None)"
    using s(1) by (simp_all add: execute_decode_plan_cpu_ok)
  obtain sc where sc: "scan_plan plan sc0 = Inr sc" using scan_plan_iff [OF sc0(2) shape(1)] s(1) by auto
  from launch_plan [OF assms(1,2) sc0(2) sc scan_upload_holds [OF sc0(2) sc], of dev fresh] shape sc0(1) sc s(2)
  show ?thesis
    by (cases "operations plan = []") (auto simp: run_decode_plan_cuda_def)
qed

theorem cuda_recovery_exact_witness:
  "\<exists>shards' cache'. run_decode_plan_cuda example_queries 0 (\<lambda>_ _. 77) example_plan
       (received_slots [[5, 1], [3, 1], [4, 4]] [[6, 0], [7, 5]] {0, 1} {3, 4}) [] = Some (Inr (shards', cache')) \<and>
     take (length [[5, 1 :: ShardWord], [3, 1], [4, 4]]) shards' = map Some [[5, 1], [3, 1], [4, 4]]"
proof -
  have "is_recoverable example_plan" by (simp add: example_plan_def)
  from cuda_recovery_exact [OF example_runtime cache_ok_Nil example_graph_valid(1) example_code_graph example_encoding example_CreatePlan this]
  show ?thesis by blast
qed

end
