(* ===== verification/CudaFaults.thy ===== *)
theory CudaFaults imports CudaDecode Complex_Main begin

text \<open>
  The CUDA runtime with calls that fail, and the code that owns its resources: \<open>CUDA_CHECK\<close>
  (\<open>include/codedllm/kernels/cuda_utils.cuh\<close>), \<open>cuda_unique_ptr\<close> (\<open>kernels/cuda_memory.cuh\<close>), and \<open>CudaEvent\<close> and
  \<open>AllocateDeviceBuffer\<close> (\<open>kernels/sparse_decoder.cu\<close>).

  Which calls fail is a parameter, arbitrary for every kind of call and every point of the execution; a call that fails
  has no effect. Whatever the runtime hands out is live until it is released. An action ends with a value, an
  exception, the end of the process (an exception that leaves a destructor), or not at all. The lemmas are two program
  logics for these actions: one for what they do to the memory of the host, one for what they own.
\<close>

section \<open>The runtime\<close>

datatype cuda_api =
    GetDevice | SetDevice | LaunchConfig | Malloc | Free | Memcpy | LastError | Synchronize
  | EventCreate | EventRecord | EventElapsed | EventDestroy | StreamCreate | StreamDestroy

datatype resource = DeviceBuffer nat | CudaEvent_handle nat | CudaStream_handle nat

primrec handle :: "resource \<Rightarrow> nat" where
  "handle (DeviceBuffer n) = n"
| "handle (CudaEvent_handle n) = n"
| "handle (CudaStream_handle n) = n"

text \<open>The members of a context object that hold resources.\<close>

datatype member = Shard_member nat | Table_member | SourceIds_member | Transfer_member | Stream_member | Event_member nat

text \<open>
  \<open>wd_locals\<close> are the resources of the RAII objects of the current function, newest first, \<open>wd_members\<close> those of the
  context object, \<open>wd_raw\<close> those that only plain variables refer to. \<open>wd_host\<close> is the memory of the host.
  \<open>wd_misused\<close> is set when a resource is released that is not live. \<open>wd_elapsed\<close> is what the runtime measures between
  two events, by the number of the call that asks.
\<close>

record 'h World =
  wd_host :: 'h
  wd_faults :: "cuda_api \<Rightarrow> nat \<Rightarrow> bool"
  wd_elapsed :: "nat \<Rightarrow> real"
  wd_calls :: nat
  wd_live :: "resource set"
  wd_next :: nat
  wd_locals :: "resource list"
  wd_members :: "(member \<times> resource) list"
  wd_raw :: "resource list"
  wd_misused :: bool

datatype 'a outcome = Done 'a | Raised exn | Terminated | Hangs

type_synonym ('h, 'a) action = "'h World \<Rightarrow> 'a outcome \<times> 'h World"

section \<open>Actions\<close>

definition retA :: "'a \<Rightarrow> ('h, 'a) action" where
  "retA x w = (Done x, w)"

definition bindA :: "('h, 'a) action \<Rightarrow> ('a \<Rightarrow> ('h, 'b) action) \<Rightarrow> ('h, 'b) action" where
  "bindA m f w =
     (case m w of (v, w') \<Rightarrow>
       case v of Done x \<Rightarrow> f x w' | Raised e \<Rightarrow> (Raised e, w') | Terminated \<Rightarrow> (Terminated, w') | Hangs \<Rightarrow> (Hangs, w'))"

definition liftA :: "'a result \<Rightarrow> ('h, 'a) action" where
  "liftA r w = (case r of Inl e \<Rightarrow> (Raised e, w) | Inr x \<Rightarrow> (Done x, w))"

text \<open>A computation of the device; \<open>None\<close> is a kernel that does not end.\<close>

definition liftR :: "'a result option \<Rightarrow> ('h, 'a) action" where
  "liftR r w = (case r of None \<Rightarrow> (Hangs, w) | Some v \<Rightarrow> liftA v w)"

definition hostA :: "('h \<Rightarrow> 'a) \<Rightarrow> ('h, 'a) action" where
  "hostA f w = (Done (f (wd_host w)), w)"

definition modifyA :: "('h \<Rightarrow> 'h) \<Rightarrow> ('h, unit) action" where
  "modifyA f w = (Done (), w\<lparr>wd_host := f (wd_host w)\<rparr>)"

fun forA :: "('x \<Rightarrow> ('h, unit) action) \<Rightarrow> 'x list \<Rightarrow> ('h, unit) action" where
  "forA f [] = retA ()"
| "forA f (x # xs) = bindA (f x) (\<lambda>_. forA f xs)"

text \<open>\<open>CUDA_CHECK(call)\<close>.\<close>

definition callA :: "cuda_api \<Rightarrow> ('h, unit) action" where
  "callA api w =
     (if wd_faults w api (wd_calls w) then Raised cuda_error else Done (), w\<lparr>wd_calls := wd_calls w + 1\<rparr>)"

text \<open>A call whose status is ignored.\<close>

definition ignoring :: "('h, unit) action \<Rightarrow> ('h, unit) action" where
  "ignoring m w = (case m w of (v, w') \<Rightarrow> (case v of Raised e \<Rightarrow> (Done (), w') | _ \<Rightarrow> (v, w')))"

text \<open>What the destructor of an object does when its construction throws.\<close>

definition on_exception :: "('h, 'a) action \<Rightarrow> ('h, unit) action \<Rightarrow> ('h, 'a) action" where
  "on_exception m cleanup w =
     (case m w of (v, w') \<Rightarrow> (case v of
        Raised e \<Rightarrow> (case cleanup w' of (d, w'') \<Rightarrow>
          (case d of Terminated \<Rightarrow> Terminated | Hangs \<Rightarrow> Hangs | _ \<Rightarrow> Raised e, w''))
      | _ \<Rightarrow> (v, w')))"

text \<open>\<open>cudaEventElapsedTime\<close>, in milliseconds.\<close>

definition ElapsedTime :: "('h, real) action" where
  "ElapsedTime = bindA (callA EventElapsed) (\<lambda>_ w. (Done (wd_elapsed w (wd_calls w)), w))"

text \<open>The runtime hands out a resource; it becomes owned by a local object, or only a plain variable refers to it.\<close>

definition acquire_local :: "cuda_api \<Rightarrow> (nat \<Rightarrow> resource) \<Rightarrow> ('h, unit) action" where
  "acquire_local api mk = bindA (callA api) (\<lambda>_ w. let r = mk (wd_next w) in
     (Done (), w\<lparr>wd_live := insert r (wd_live w), wd_next := wd_next w + 1, wd_locals := r # wd_locals w\<rparr>))"

definition acquire_raw :: "cuda_api \<Rightarrow> (nat \<Rightarrow> resource) \<Rightarrow> ('h, resource) action" where
  "acquire_raw api mk = bindA (callA api) (\<lambda>_ w. let r = mk (wd_next w) in
     (Done r, w\<lparr>wd_live := insert r (wd_live w), wd_next := wd_next w + 1, wd_raw := wd_raw w @ [r]\<rparr>))"

definition release :: "cuda_api \<Rightarrow> resource \<Rightarrow> ('h, unit) action" where
  "release api r = bindA (callA api) (\<lambda>_ w.
     (Done (), w\<lparr>wd_live := wd_live w - {r}, wd_misused := (wd_misused w \<or> r \<notin> wd_live w)\<rparr>))"

text \<open>A checked release of a resource that only a plain variable refers to.\<close>

definition release_raw :: "cuda_api \<Rightarrow> resource \<Rightarrow> ('h, unit) action" where
  "release_raw api r = bindA (release api r) (\<lambda>_ w. (Done (), w\<lparr>wd_raw := remove1 r (wd_raw w)\<rparr>))"

text \<open>
  \<open>CudaDeleter\<close> checks \<open>cudaFree\<close>; the destructors of events and streams ignore the status of their calls.
\<close>

definition destroy :: "resource \<Rightarrow> ('h, unit) action" where
  "destroy r = (case r of DeviceBuffer n \<Rightarrow> release Free r
     | CudaEvent_handle n \<Rightarrow> ignoring (release EventDestroy r)
     | CudaStream_handle n \<Rightarrow> ignoring (release StreamDestroy r))"

text \<open>A destructor: an exception that leaves it ends the process.\<close>

definition destructor :: "('h, unit) action \<Rightarrow> ('h, unit) action" where
  "destructor m w = (case m w of (v, w') \<Rightarrow> (case v of Raised e \<Rightarrow> (Terminated, w') | _ \<Rightarrow> (v, w')))"

text \<open>
  The newest local object is moved into a member of the context (a unique pointer, the stream); what the member held
  before is destroyed.
\<close>

definition move_to_member :: "member \<Rightarrow> ('h, unit) action" where
  "move_to_member m w =
     (let old = map snd (filter (\<lambda>(k, _). k = m) (wd_members w)) in
      destructor (forA destroy old)
        (w\<lparr>wd_locals := tl (wd_locals w),
           wd_members := filter (\<lambda>(k, _). k \<noteq> m) (wd_members w) @ [(m, hd (wd_locals w))]\<rparr>))"

text \<open>\<open>CudaEvent\<close>s of a local object are appended to a vector of the context.\<close>

definition push_transfer :: "('h, unit) action" where
  "push_transfer w = (Done (), w\<lparr>wd_members := wd_members w @ map (Pair Transfer_member) (rev (wd_locals w)), wd_locals := []\<rparr>)"

text \<open>Members are destroyed: a vector is cleared, or the context dies.\<close>

definition destroy_members :: "(member \<Rightarrow> bool) \<Rightarrow> ('h, unit) action" where
  "destroy_members P w = destructor (forA destroy (map snd (filter (\<lambda>(k, _). P k) (wd_members w))))
     (w\<lparr>wd_members := filter (\<lambda>(k, _). \<not> P k) (wd_members w)\<rparr>)"

text \<open>The body of a function: its local objects are destroyed whenever control leaves it.\<close>

definition leave :: "resource list \<Rightarrow> 'a outcome \<times> 'h World \<Rightarrow> 'a outcome \<times> 'h World" where
  "leave outer r =
     (case r of (v, w') \<Rightarrow>
       if v = Terminated \<or> v = Hangs then (v, w')
       else (case destructor (forA destroy (wd_locals w')) (w'\<lparr>wd_locals := outer\<rparr>) of
               (d, w'') \<Rightarrow> (if d = Terminated then Terminated else v, w'')))"

definition scope :: "('h, 'a) action \<Rightarrow> ('h, 'a) action" where
  "scope m w = leave (wd_locals w) (m (w\<lparr>wd_locals := []\<rparr>))"

definition AllocateDeviceBuffer :: "('h, unit) action" where
  "AllocateDeviceBuffer = acquire_local Malloc DeviceBuffer"

definition CudaEvent_Create :: "('h, unit) action" where
  "CudaEvent_Create = acquire_local EventCreate CudaEvent_handle"

definition CudaEvent_Record :: "('h, unit) action" where
  "CudaEvent_Record = callA EventRecord"

section \<open>Triples on the host memory\<close>

text \<open>
  \<open>hoare F P m Q E\<close>: with the faults \<open>F\<close>, from host memory that satisfies \<open>P\<close> the action ends; the memory it leaves
  satisfies \<open>Q\<close> when it returns and \<open>E\<close> when it throws, and it ends the process only if a \<open>cudaFree\<close> failed.
\<close>

fun ends ::
  "(cuda_api \<Rightarrow> nat \<Rightarrow> bool) \<Rightarrow> ('a \<Rightarrow> 'h \<Rightarrow> bool) \<Rightarrow> (exn \<Rightarrow> 'h \<Rightarrow> bool) \<Rightarrow> 'a outcome \<times> 'h World \<Rightarrow> bool" where
  "ends F Q E (Done x, w) \<longleftrightarrow> wd_faults w = F \<and> Q x (wd_host w)"
| "ends F Q E (Raised e, w) \<longleftrightarrow> wd_faults w = F \<and> E e (wd_host w)"
| "ends F Q E (Terminated, w) \<longleftrightarrow> (\<exists>n. F Free n)"
| "ends F Q E (Hangs, w) \<longleftrightarrow> False"

definition hoare ::
  "(cuda_api \<Rightarrow> nat \<Rightarrow> bool) \<Rightarrow> ('h \<Rightarrow> bool) \<Rightarrow> ('h, 'a) action \<Rightarrow> ('a \<Rightarrow> 'h \<Rightarrow> bool) \<Rightarrow> (exn \<Rightarrow> 'h \<Rightarrow> bool) \<Rightarrow> bool" where
  "hoare F P m Q E \<longleftrightarrow> (\<forall>w. wd_faults w = F \<longrightarrow> P (wd_host w) \<longrightarrow> ends F Q E (m w))"

text \<open>A call that is not made by a destructor failed.\<close>

definition some_fault :: "(cuda_api \<Rightarrow> nat \<Rightarrow> bool) \<Rightarrow> bool" where
  "some_fault F \<longleftrightarrow> (\<exists>api n. api \<noteq> Free \<and> F api n)"

lemma hoareI: "(\<And>w. wd_faults w = F \<Longrightarrow> P (wd_host w) \<Longrightarrow> ends F Q E (m w)) \<Longrightarrow> hoare F P m Q E"
  by (simp add: hoare_def)

lemma hoareD: "hoare F P m Q E \<Longrightarrow> wd_faults w = F \<Longrightarrow> P (wd_host w) \<Longrightarrow> ends F Q E (m w)"
  by (simp add: hoare_def)

lemma ends_mono:
  assumes "ends F Q E r" "\<And>x h. Q x h \<Longrightarrow> Q' x h" "\<And>e h. E e h \<Longrightarrow> E' e h"
  shows "ends F Q' E' r"
proof -
  obtain v w where r: "r = (v, w)" by (cases r)
  show ?thesis using assms unfolding r by (cases v) simp_all
qed

named_theorems hoare_rules \<open>triples of the primitive actions\<close>

lemma hoare_weaken:
  assumes "hoare F P' m Q' E'" "\<And>h. P h \<Longrightarrow> P' h" "\<And>x h. Q' x h \<Longrightarrow> Q x h" "\<And>e h. E' e h \<Longrightarrow> E e h"
  shows "hoare F P m Q E"
  by (rule hoareI, rule ends_mono [OF hoareD [OF assms(1)]]) (simp_all add: assms(2-4))

lemma hoare_pre: "hoare F P' m Q E \<Longrightarrow> (\<And>h. P h \<Longrightarrow> P' h) \<Longrightarrow> hoare F P m Q E"
  by (rule hoare_weaken)

lemma hoare_retA [hoare_rules]: "hoare F (Q x) (retA x) Q E"
  by (simp add: hoare_def retA_def)

lemma bindA_simps [simp]:
  "m w = (Done x, w') \<Longrightarrow> bindA m f w = f x w'"
  "m w = (Raised e, w') \<Longrightarrow> bindA m f w = (Raised e, w')"
  "m w = (Terminated, w') \<Longrightarrow> bindA m f w = (Terminated, w')"
  "m w = (Hangs, w') \<Longrightarrow> bindA m f w = (Hangs, w')"
  by (simp_all add: bindA_def)

lemma hoare_bindA:
  fixes m :: "('h, 'a) action"
  assumes "hoare F P m R E" "\<And>x. hoare F (R x) (f x) Q E"
  shows "hoare F P (bindA m f) Q E"
proof (rule hoareI)
  fix w :: "'h World"
  assume w: "wd_faults w = F" "P (wd_host w)"
  obtain u w1 where m: "m w = (u, w1)" by fastforce
  with hoareD [OF assms(1) w] have a: "ends F R E (u, w1)" by simp
  show "ends F Q E (bindA m f w)"
  proof (cases u)
    case (Done x)
    then show ?thesis using a m hoareD [OF assms(2) [of x], of w1] by simp
  qed (use a m in simp_all)
qed

lemma hoare_liftA [hoare_rules]: "hoare F (\<lambda>h. case r of Inl e \<Rightarrow> E e h | Inr x \<Rightarrow> Q x h) (liftA r) Q E"
  by (simp add: hoare_def liftA_def split: sum.split)

lemma hoare_liftR [hoare_rules]:
  "hoare F (\<lambda>h. \<exists>v. r = Some v \<and> (case v of Inl e \<Rightarrow> E e h | Inr x \<Rightarrow> Q x h)) (liftR r) Q E"
  by (cases r) (auto simp: hoare_def liftR_def liftA_def split: sum.split)

lemma hoare_hostA [hoare_rules]: "hoare F (\<lambda>h. Q (f h) h) (hostA f) Q E"
  by (simp add: hoare_def hostA_def)

lemma hoare_modifyA [hoare_rules]: "hoare F (\<lambda>h. Q () (f h)) (modifyA f) Q E"
  by (simp add: hoare_def modifyA_def)

text \<open>Actions on the runtime leave the host memory alone and throw only if a call failed.\<close>

definition runtime_only :: "('h, 'a) action \<Rightarrow> bool" where
  "runtime_only m \<longleftrightarrow> (\<forall>F P. hoare F P m (\<lambda>_. P) (\<lambda>e h. P h \<and> e = cuda_error \<and> some_fault F))"

lemma hoare_runtime [hoare_rules]:
  assumes "runtime_only m"
  shows "hoare F (\<lambda>h. (\<forall>x. Q x h) \<and> (some_fault F \<longrightarrow> E cuda_error h)) m Q E"
  by (rule hoare_weaken [OF assms [unfolded runtime_only_def, THEN spec, THEN spec,
        of F "\<lambda>h. (\<forall>x. Q x h) \<and> (some_fault F \<longrightarrow> E cuda_error h)"]]) auto

lemma runtime_only_callA [simp]: "api \<noteq> Free \<Longrightarrow> runtime_only (callA api)"
  unfolding runtime_only_def by (intro allI hoareI) (auto simp: callA_def some_fault_def)

lemma runtime_only_bindA:
  assumes "runtime_only m" "\<And>x. runtime_only (f x)"
  shows "runtime_only (bindA m f)"
  using assms unfolding runtime_only_def by (blast intro: hoare_bindA)

lemma runtime_only_retA [simp]: "runtime_only (retA x)"
  by (simp add: runtime_only_def hoare_def retA_def)

lemma runtime_only_pure:
  fixes m :: "('h, 'a) action"
  shows "(\<And>w. \<exists>x w'. m w = (Done x, w') \<and> wd_faults w' = wd_faults w \<and> wd_host w' = wd_host w) \<Longrightarrow> runtime_only m"
  unfolding runtime_only_def
proof (intro allI hoareI)
  fix F P and w :: "'h World"
  assume w: "wd_faults w = F" "P (wd_host w)" and m: "\<And>w. \<exists>x w'. m w = (Done x, w') \<and> wd_faults w' = wd_faults w \<and> wd_host w' = wd_host w"
  obtain x w' where "m w = (Done x, w')" "wd_faults w' = wd_faults w" "wd_host w' = wd_host w" using m by blast
  then show "ends F (\<lambda>_. P) (\<lambda>e h. P h \<and> e = cuda_error \<and> some_fault F) (m w)" using w by simp
qed

lemma runtime_only_acquire [simp]:
  "api \<noteq> Free \<Longrightarrow> runtime_only (acquire_local api mk)" "api \<noteq> Free \<Longrightarrow> runtime_only (acquire_raw api mk)"
  unfolding acquire_local_def acquire_raw_def
  by (intro runtime_only_bindA runtime_only_callA runtime_only_pure; simp add: Let_def)+

lemma runtime_only_buffer [simp]: "runtime_only AllocateDeviceBuffer"
  by (simp add: AllocateDeviceBuffer_def)

lemma runtime_only_elapsed: "runtime_only ElapsedTime"
  unfolding ElapsedTime_def by (intro runtime_only_bindA runtime_only_callA runtime_only_pure; simp)

lemma runtime_only_release [simp]: "api \<noteq> Free \<Longrightarrow> runtime_only (release_raw api r)"
  unfolding release_raw_def release_def
  by (intro runtime_only_bindA runtime_only_callA runtime_only_pure; simp)+

lemma runtime_only_event [simp]: "runtime_only CudaEvent_Create" "runtime_only CudaEvent_Record"
  by (simp_all add: CudaEvent_Create_def CudaEvent_Record_def)

lemma runtime_only_push [simp]: "runtime_only push_transfer"
  by (rule runtime_only_pure) (simp add: push_transfer_def)

lemma runtime_only_forA: "(\<And>x. runtime_only (f x)) \<Longrightarrow> runtime_only (forA f xs)"
  by (induction xs) (auto intro: runtime_only_bindA)

lemma runtime_only_if [simp]: "runtime_only m \<Longrightarrow> runtime_only m' \<Longrightarrow> runtime_only (if b then m else m')"
  by simp

text \<open>The loop rule.\<close>

lemma hoare_forA:
  assumes "\<And>pre x rest. xs = pre @ x # rest \<Longrightarrow> hoare F (I pre) (f x) (\<lambda>_. I (pre @ [x])) E"
  shows "hoare F (I []) (forA f xs) (\<lambda>_. I xs) E"
proof -
  have "xs = pre @ rest \<Longrightarrow> hoare F (I pre) (forA f rest) (\<lambda>_. I xs) E" for rest pre
  proof (induction rest arbitrary: pre)
    case Nil
    then show ?case using hoare_retA [of F "\<lambda>_. I xs" "()"] by simp
  next
    case (Cons x rest)
    then have "hoare F (I pre) (f x) (\<lambda>_. I (pre @ [x])) E" "hoare F (I (pre @ [x])) (forA f rest) (\<lambda>_. I xs) E"
      using assms by simp_all
    then show ?case by (auto intro: hoare_bindA)
  qed
  from this [of "[]" xs] show ?thesis by simp
qed

text \<open>Destructors touch no host memory; they end the process only if \<open>cudaFree\<close> failed.\<close>

lemma hoare_ignoring:
  fixes m :: "('h, unit) action"
  assumes "hoare F P m (\<lambda>_. P) (\<lambda>_. P)"
  shows "hoare F P (ignoring m) (\<lambda>_. P) E"
proof (rule hoareI)
  fix w :: "'h World"
  assume w: "wd_faults w = F" "P (wd_host w)"
  obtain u w1 where m: "m w = (u, w1)" by fastforce
  with hoareD [OF assms w] show "ends F (\<lambda>_. P) E (ignoring m w)" by (cases u) (simp_all add: ignoring_def)
qed

lemma hoare_destructor:
  fixes m :: "('h, unit) action"
  assumes "hoare F P m (\<lambda>_. P) (\<lambda>_ _. \<exists>n. F Free n)"
  shows "hoare F P (destructor m) (\<lambda>_. P) E"
proof (rule hoareI)
  fix w :: "'h World"
  assume w: "wd_faults w = F" "P (wd_host w)"
  obtain u w1 where m: "m w = (u, w1)" by fastforce
  with hoareD [OF assms w] show "ends F (\<lambda>_. P) E (destructor m w)" by (cases u) (simp_all add: destructor_def)
qed

lemma hoare_release: "hoare F P (release api r) (\<lambda>_. P) (\<lambda>_ h. P h \<and> (\<exists>n. F api n))"
  unfolding release_def by (rule hoareI) (auto simp: bindA_def callA_def)

lemma hoare_destroy: "hoare F P (destroy r) (\<lambda>_. P) (\<lambda>_ _. \<exists>n. F Free n)"
  unfolding destroy_def
  by (cases r) (auto intro!: hoare_ignoring intro: hoare_weaken [OF hoare_release])

lemma hoare_destroy_all: "hoare F P (destructor (forA destroy rs)) (\<lambda>_. P) E"
  by (rule hoare_destructor [OF hoare_forA [where I = "\<lambda>_. P"]]) (rule hoare_destroy)

lemma runtime_only_destroy_all: "runtime_only (destructor (forA destroy rs))"
  by (simp add: runtime_only_def hoare_destroy_all)

lemma runtime_only_members [simp]: "runtime_only (move_to_member k)" "runtime_only (destroy_members P)"
  unfolding runtime_only_def
  by (intro allI hoareI; simp add: move_to_member_def destroy_members_def Let_def hoareD [OF hoare_destroy_all])+

lemma hoare_scope:
  fixes m :: "('h, 'a) action"
  assumes "hoare F P m Q E"
  shows "hoare F P (scope m) Q E"
proof (rule hoareI)
  fix w :: "'h World"
  assume w: "wd_faults w = F" "P (wd_host w)"
  obtain u w1 where m: "m (w\<lparr>wd_locals := []\<rparr>) = (u, w1)" by fastforce
  with hoareD [OF assms, of "w\<lparr>wd_locals := []\<rparr>"] w have a: "ends F Q E (u, w1)" by simp
  let ?w1 = "w1\<lparr>wd_locals := wd_locals w\<rparr>"
  obtain d w2 where d: "destructor (forA destroy (wd_locals w1)) ?w1 = (d, w2)" by fastforce
  show "ends F Q E (scope m w)"
  proof (cases "u = Terminated \<or> u = Hangs")
    case False
    then have "wd_faults ?w1 = F" using a by (cases u) simp_all
    from hoareD [OF hoare_destroy_all [where P = "\<lambda>h. h = wd_host w1" and E = "\<lambda>_ _. False"] this, of "wd_locals w1"] d
    have "ends F (\<lambda>_ h. h = wd_host w1) (\<lambda>_ _. False) (d, w2)" by simp
    then show ?thesis using a False m d by (cases d; cases u) (auto simp: scope_def leave_def)
  qed (use a m in \<open>auto simp: scope_def leave_def\<close>)
qed

section \<open>Triples on the resources\<close>

definition owned :: "'h World \<Rightarrow> resource list" where
  "owned w = wd_locals w @ map snd (wd_members w) @ wd_raw w"

text \<open>The destructor of such a resource releases it or ends the process.\<close>

definition quiet :: "(cuda_api \<Rightarrow> nat \<Rightarrow> bool) \<Rightarrow> resource \<Rightarrow> bool" where
  "quiet F r = (case r of DeviceBuffer _ \<Rightarrow> True | CudaEvent_handle _ \<Rightarrow> \<forall>n. \<not> F EventDestroy n
     | CudaStream_handle _ \<Rightarrow> \<forall>n. \<not> F StreamDestroy n)"

text \<open>Handles are handed out in order.\<close>

definition numbered :: "resource set \<Rightarrow> nat \<Rightarrow> bool" where
  "numbered L n \<longleftrightarrow> (\<forall>r\<in>L. handle r < n)"

lemma numbered_insert: "numbered L n \<Longrightarrow> handle r = n \<Longrightarrow> numbered (insert r L) (Suc n)"
  by (auto simp: numbered_def)

lemma numbered_subset: "numbered L n \<Longrightarrow> L' \<subseteq> L \<Longrightarrow> numbered L' n"
  by (auto simp: numbered_def)

text \<open>
  \<open>tidy F K B M S w\<close>: \<open>B\<close> and what is owned is live, each resource by one owner, and no resource was released twice; the members
  of the context are in \<open>M\<close> and the plain handles in \<open>S\<close>. Anything else that is live was lost: it is in \<open>K\<close>, and it is an event or
  a stream whose destruction may fail.
\<close>

definition tidy ::
  "(cuda_api \<Rightarrow> nat \<Rightarrow> bool) \<Rightarrow> resource set \<Rightarrow> resource set \<Rightarrow> (member \<times> resource) list set \<Rightarrow> resource list set \<Rightarrow> 'h World \<Rightarrow> bool" where
  "tidy F K B M S w \<longleftrightarrow> wd_faults w = F \<and> distinct (owned w) \<and> set (owned w) \<inter> B = {} \<and> B \<union> set (owned w) \<subseteq> wd_live w \<and>
     (\<forall>r\<in>wd_live w - B - set (owned w). r \<in> K \<and> \<not> quiet F r) \<and> numbered (wd_live w) (wd_next w) \<and> \<not> wd_misused w \<and>
     (\<forall>r\<in>set (wd_locals w) \<union> snd ` set (wd_members w). quiet F r \<or> r \<in> K) \<and> wd_members w \<in> M \<and> wd_raw w \<in> S"

text \<open>
  What an error path leaves behind of what is live (\<open>L\<close> before, \<open>L'\<close> after): nothing but events and streams, and these only if the
  calls that destroy them can fail, whose statuses the destructors ignore.
\<close>

definition left_behind :: "(cuda_api \<Rightarrow> nat \<Rightarrow> bool) \<Rightarrow> resource set \<Rightarrow> resource set \<Rightarrow> bool" where
  "left_behind F L L' \<longleftrightarrow> L \<subseteq> L' \<and> (\<forall>r\<in>L' - L. case r of DeviceBuffer _ \<Rightarrow> False
     | CudaEvent_handle _ \<Rightarrow> \<exists>k. F EventDestroy k | CudaStream_handle _ \<Rightarrow> \<exists>k. F StreamDestroy k)"

lemma left_behind_nothing: "left_behind F L L' \<Longrightarrow> \<forall>k. \<not> F EventDestroy k \<and> \<not> F StreamDestroy k \<Longrightarrow> L' = L"
proof (rule ccontr)
  assume l: "left_behind F L L'" and d: "\<forall>k. \<not> F EventDestroy k \<and> \<not> F StreamDestroy k" and "L' \<noteq> L"
  then obtain r where "r \<in> L' - L" by (auto simp: left_behind_def)
  then have "case r of DeviceBuffer _ \<Rightarrow> False | CudaEvent_handle _ \<Rightarrow> \<exists>k. F EventDestroy k
     | CudaStream_handle _ \<Rightarrow> \<exists>k. F StreamDestroy k"
    using l unfolding left_behind_def by blast
  then show False using d by (cases r) auto
qed

text \<open>When no resource may be lost, exactly what was live and what is owned is live.\<close>

lemma tidy_exact: "tidy F {} B M S w \<Longrightarrow> wd_live w = B \<union> set (owned w)"
  unfolding tidy_def by auto

lemma tidy_lost:
  assumes "tidy F K B M S w" "owned w = []"
  shows "left_behind F B (wd_live w)"
proof -
  have "B \<subseteq> wd_live w" "\<forall>r\<in>wd_live w - B. \<not> quiet F r" using assms unfolding tidy_def by auto
  then show ?thesis unfolding left_behind_def quiet_def by (auto split: resource.splits)
qed

lemma tidy_new: "\<forall>r\<in>wd_live w. handle r < wd_next w \<Longrightarrow> wd_locals w = [] \<Longrightarrow> wd_members w = [] \<Longrightarrow> wd_raw w = [] \<Longrightarrow> \<not> wd_misused w \<Longrightarrow>
    tidy (wd_faults w) K (wd_live w) {[]} {[]} w"
  by (simp add: tidy_def owned_def numbered_def)

fun settles :: "('a \<Rightarrow> 'h World \<Rightarrow> bool) \<Rightarrow> ('h World \<Rightarrow> bool) \<Rightarrow> 'a outcome \<times> 'h World \<Rightarrow> bool" where
  "settles J X (Done x, w) \<longleftrightarrow> J x w"
| "settles J X (Raised e, w) \<longleftrightarrow> X w"
| "settles J X (Terminated, w) \<longleftrightarrow> True"
| "settles J X (Hangs, w) \<longleftrightarrow> True"

definition account :: "('h World \<Rightarrow> bool) \<Rightarrow> ('h, 'a) action \<Rightarrow> ('a \<Rightarrow> 'h World \<Rightarrow> bool) \<Rightarrow> ('h World \<Rightarrow> bool) \<Rightarrow> bool" where
  "account I m J X \<longleftrightarrow> (\<forall>w. I w \<longrightarrow> settles J X (m w))"

abbreviation keeps :: "('h World \<Rightarrow> bool) \<Rightarrow> ('h, 'a) action \<Rightarrow> bool" where
  "keeps I m \<equiv> account I m (\<lambda>_. I) I"

named_theorems account_rules \<open>actions that keep the resources accounted for\<close>

lemma accountI: "(\<And>w. I w \<Longrightarrow> settles J X (m w)) \<Longrightarrow> account I m J X"
  by (simp add: account_def)

lemma accountD: "account I m J X \<Longrightarrow> I w \<Longrightarrow> settles J X (m w)"
  by (simp add: account_def)

lemma settles_mono:
  assumes "settles J X r" "\<And>x w. J x w \<Longrightarrow> J' x w" "\<And>w. X w \<Longrightarrow> X' w"
  shows "settles J' X' r"
proof -
  obtain v w where r: "r = (v, w)" by (cases r)
  show ?thesis using assms unfolding r by (cases v) simp_all
qed

lemma account_weaken:
  assumes "account I' m J' X'" "\<And>w. I w \<Longrightarrow> I' w" "\<And>x w. J' x w \<Longrightarrow> J x w" "\<And>w. X' w \<Longrightarrow> X w"
  shows "account I m J X"
  by (rule accountI, rule settles_mono [OF accountD [OF assms(1)]]) (simp_all add: assms(2-4))

lemma account_bindA:
  fixes m :: "('h, 'a) action"
  assumes "account I m J X" "\<And>x. account (J x) (f x) K X"
  shows "account I (bindA m f) K X"
proof (rule accountI)
  fix w :: "'h World"
  assume w: "I w"
  obtain u w1 where m: "m w = (u, w1)" by fastforce
  with accountD [OF assms(1) w] have a: "settles J X (u, w1)" by simp
  show "settles K X (bindA m f w)"
  proof (cases u)
    case (Done x)
    then show ?thesis using a m accountD [OF assms(2) [of x], of w1] by simp
  qed (use a m in simp_all)
qed

lemma keeps_bindA [account_rules]: "keeps I m \<Longrightarrow> (\<And>x. keeps I (f x)) \<Longrightarrow> keeps I (bindA m f)"
  by (rule account_bindA)

lemma account_retA: "account (J x) (retA x) J X"
  by (simp add: account_def retA_def)

lemma keeps_retA [account_rules]: "keeps I (retA x)"
  by (rule account_retA)

lemma keeps_forA [account_rules]: "(\<And>x. keeps I (f x)) \<Longrightarrow> keeps I (forA f xs)"
  by (induction xs) (auto intro: account_rules)

lemma keeps_if [account_rules]: "keeps I m \<Longrightarrow> keeps I m' \<Longrightarrow> keeps I (if b then m else m')"
  by simp

lemma tidy_host [simp]:
  "tidy F K B M S (w\<lparr>wd_host := h\<rparr>) = tidy F K B M S w" "tidy F K B M S (w\<lparr>wd_calls := n\<rparr>) = tidy F K B M S w"
  by (simp_all add: tidy_def owned_def)

lemma keeps_host [account_rules]:
  "keeps (tidy F K B M S) (hostA f)" "keeps (tidy F K B M S) (modifyA g)" "keeps (tidy F K B M S) (liftA r)"
  by (auto simp: account_def hostA_def modifyA_def liftA_def split: sum.split)

lemma keeps_liftR [account_rules]: "keeps (tidy F K B M S) (liftR r)"
  by (cases r) (auto simp: account_def liftR_def liftA_def split: sum.split)

lemma keeps_callA [account_rules]: "keeps (tidy F K B M S) (callA api)"
  by (simp add: account_def callA_def)

lemma keeps_record [account_rules]: "keeps (tidy F K B M S) CudaEvent_Record"
  by (simp add: CudaEvent_Record_def keeps_callA)

lemma keeps_elapsed [account_rules]: "keeps (tidy F K B M S) ElapsedTime"
  unfolding ElapsedTime_def by (rule keeps_bindA [OF keeps_callA]) (simp add: account_def)

lemma tidy_numbered: "tidy F K B M S w \<Longrightarrow> numbered (wd_live w) (wd_next w)"
  unfolding tidy_def by blast

lemma fresh_resource:
  assumes "tidy F K B M S w" "handle r = wd_next w"
  shows "r \<notin> wd_live w"
proof
  assume "r \<in> wd_live w"
  then have "handle r < wd_next w" using assms(1) unfolding tidy_def numbered_def by blast
  then show False using assms(2) by simp
qed

lemma tidy_acquire_local:
  assumes "tidy F K B M S w" "handle r = wd_next w" "quiet F r \<or> r \<in> K"
  shows "tidy F K B M S (w\<lparr>wd_live := insert r (wd_live w), wd_next := wd_next w + 1, wd_locals := r # wd_locals w\<rparr>)"
proof -
  have "numbered (insert r (wd_live w)) (wd_next w + 1)"
    using numbered_insert [OF tidy_numbered [OF assms(1)] assms(2)] by simp
  then show ?thesis using fresh_resource [OF assms(1,2)] assms unfolding tidy_def owned_def by auto
qed

lemma tidy_acquire_raw:
  assumes "tidy F K B M {R} w" "handle r = wd_next w"
  shows "tidy F K B M {R @ [r]} (w\<lparr>wd_live := insert r (wd_live w), wd_next := wd_next w + 1, wd_raw := wd_raw w @ [r]\<rparr>)"
proof -
  have "numbered (insert r (wd_live w)) (wd_next w + 1)"
    using numbered_insert [OF tidy_numbered [OF assms(1)] assms(2)] by simp
  then show ?thesis using fresh_resource [OF assms(1,2)] assms unfolding tidy_def owned_def by auto
qed

lemma tidy_release_raw:
  assumes "tidy F K B M {R @ r # R'} w"
  shows "tidy F K B M {R @ R'} (w\<lparr>wd_live := wd_live w - {r}, wd_misused := (wd_misused w \<or> r \<notin> wd_live w), wd_raw := remove1 r (wd_raw w)\<rparr>)"
proof -
  have "r \<notin> set R" "r \<notin> B" using assms unfolding tidy_def owned_def by auto
  moreover have "numbered (wd_live w - {r}) (wd_next w)"
    using numbered_subset [OF tidy_numbered [OF assms]] by blast
  ultimately show ?thesis using assms unfolding tidy_def owned_def by (auto simp: remove1_append)
qed

lemma keeps_acquire_local:
  assumes "\<And>n. handle (mk n) = n" "\<And>n. quiet F (mk n) \<or> mk n \<in> K"
  shows "keeps (tidy F K B M S) (acquire_local api mk)"
  unfolding acquire_local_def
  by (rule keeps_bindA [OF keeps_callA], rule accountI)
    (use tidy_acquire_local [OF _ assms] in \<open>simp add: Let_def\<close>)

lemma keeps_buffer [account_rules]: "keeps (tidy F K B M S) AllocateDeviceBuffer"
  unfolding AllocateDeviceBuffer_def by (rule keeps_acquire_local) (simp_all add: quiet_def)

lemma keeps_event [account_rules]: "keeps (tidy F UNIV B M S) CudaEvent_Create"
  unfolding CudaEvent_Create_def by (rule keeps_acquire_local) simp_all

text \<open>Plain handles: each acquisition adds one, each release removes one.\<close>

lemma account_acquire_raw:
  assumes "\<And>n. handle (mk n) = n"
  shows "account (tidy F K B M {R}) (acquire_raw api mk) (\<lambda>r w. tidy F K B M {R @ [r]} w \<and> (\<exists>n. r = mk n)) (tidy F K B M {R})"
  unfolding acquire_raw_def
  by (rule account_bindA [OF keeps_callA], rule accountI)
    (use tidy_acquire_raw [OF _ assms] in \<open>auto simp: Let_def\<close>)

lemma account_release_raw:
  "account (tidy F K B M {R @ r # R'}) (release_raw api r) (\<lambda>_. tidy F K B M {R @ R'}) (tidy F K B M {R @ r # R'})"
proof (rule accountI)
  fix w :: "'a World"
  assume w: "tidy F K B M {R @ r # R'} w"
  let ?w = "w\<lparr>wd_calls := wd_calls w + 1\<rparr>"
  have "tidy F K B M {R @ r # R'} ?w" using w by simp
  from tidy_release_raw [OF this] w
  show "settles (\<lambda>_. tidy F K B M {R @ R'}) (tidy F K B M {R @ r # R'}) (release_raw api r w)"
    by (simp add: release_raw_def release_def bindA_def callA_def)
qed

text \<open>The destruction of a list of resources.\<close>

lemma destroy_step:
  assumes "r \<in> wd_live w"
  shows "(\<exists>n L. destroy r w = (Done (), w\<lparr>wd_calls := n, wd_live := L, wd_misused := (wd_misused w \<or> r \<notin> wd_live w)\<rparr>) \<and>
      (L = wd_live w - {r} \<or> L = wd_live w \<and> \<not> quiet (wd_faults w) r)) \<or> (\<exists>e w'. destroy r w = (Raised e, w'))"
proof (cases "wd_faults w (case r of DeviceBuffer _ \<Rightarrow> Free | CudaEvent_handle _ \<Rightarrow> EventDestroy | CudaStream_handle _ \<Rightarrow> StreamDestroy) (wd_calls w)")
  case True
  show ?thesis
  proof (cases r)
    case (DeviceBuffer n)
    then show ?thesis using True by (simp add: destroy_def release_def bindA_def callA_def)
  next
    case (CudaEvent_handle n)
    then have "destroy r w = (Done (), w\<lparr>wd_calls := wd_calls w + 1, wd_live := wd_live w, wd_misused := wd_misused w\<rparr>)" "\<not> quiet (wd_faults w) r"
      using True by (auto simp: destroy_def release_def ignoring_def bindA_def callA_def quiet_def)
    then show ?thesis using assms by (intro disjI1 exI [of _ "wd_calls w + 1"] exI [of _ "wd_live w"]) auto
  next
    case (CudaStream_handle n)
    then have "destroy r w = (Done (), w\<lparr>wd_calls := wd_calls w + 1, wd_live := wd_live w, wd_misused := wd_misused w\<rparr>)" "\<not> quiet (wd_faults w) r"
      using True by (auto simp: destroy_def release_def ignoring_def bindA_def callA_def quiet_def)
    then show ?thesis using assms by (intro disjI1 exI [of _ "wd_calls w + 1"] exI [of _ "wd_live w"]) auto
  qed
next
  case False
  then have "destroy r w = (Done (), w\<lparr>wd_calls := wd_calls w + 1, wd_live := wd_live w - {r}, wd_misused := (wd_misused w \<or> r \<notin> wd_live w)\<rparr>)"
    by (cases r) (simp_all add: destroy_def release_def ignoring_def bindA_def callA_def)
  then show ?thesis using assms by (intro disjI1 exI [of _ "wd_calls w + 1"] exI [of _ "wd_live w - {r}"]) auto
qed

text \<open>Everything is released, but for events and streams whose destruction failed.\<close>

definition released :: "(cuda_api \<Rightarrow> nat \<Rightarrow> bool) \<Rightarrow> resource set \<Rightarrow> resource set \<Rightarrow> resource set \<Rightarrow> bool" where
  "released F L R L' \<longleftrightarrow> L - R \<subseteq> L' \<and> L' \<subseteq> L \<and> (\<forall>r\<in>L' \<inter> R. \<not> quiet F r)"

lemma destroy_all:
  assumes "distinct rs" "set rs \<subseteq> wd_live w"
  shows "(\<exists>n L. destructor (forA destroy rs) w = (Done (), w\<lparr>wd_calls := n, wd_live := L\<rparr>) \<and> released (wd_faults w) (wd_live w) (set rs) L) \<or>
    (\<exists>w'. destructor (forA destroy rs) w = (Terminated, w'))"
  using assms
proof (induction rs arbitrary: w)
  case Nil
  have "destructor (forA destroy []) w = (Done (), w\<lparr>wd_calls := wd_calls w, wd_live := wd_live w\<rparr>)"
    by (simp add: destructor_def retA_def)
  moreover have "released (wd_faults w) (wd_live w) (set []) (wd_live w)" by (simp add: released_def)
  ultimately show ?case by blast
next
  case (Cons r rs)
  have "r \<in> wd_live w" using Cons.prems by simp
  from destroy_step [OF this] Cons.prems consider
    n L where "destroy r w = (Done (), w\<lparr>wd_calls := n, wd_live := L, wd_misused := wd_misused w\<rparr>)"
      "L = wd_live w - {r} \<or> L = wd_live w \<and> \<not> quiet (wd_faults w) r"
    | e w' where "destroy r w = (Raised e, w')" by fastforce
  then show ?case
  proof cases
    case 1
    let ?w = "w\<lparr>wd_calls := n, wd_live := L, wd_misused := wd_misused w\<rparr>"
    have step: "destructor (forA destroy (r # rs)) w = destructor (forA destroy rs) ?w"
      using 1(1) by (simp add: destructor_def)
    have IH: "(\<exists>n L'. destructor (forA destroy rs) ?w = (Done (), ?w\<lparr>wd_calls := n, wd_live := L'\<rparr>) \<and>
          released (wd_faults ?w) (wd_live ?w) (set rs) L') \<or>
        (\<exists>w'. destructor (forA destroy rs) ?w = (Terminated, w'))"
      by (rule Cons.IH) (use Cons.prems 1(2) in auto)
    have "released (wd_faults w) (wd_live w) (set (r # rs)) L'" if "released (wd_faults w) L (set rs) L'" for L'
      using that 1(2) by (auto simp: released_def)
    then show ?thesis using IH unfolding step by auto
  next
    case 2
    then show ?thesis by (simp add: destructor_def)
  qed
qed

text \<open>The books after resources \<open>rs\<close> have lost their owner and were destroyed.\<close>

lemma tidy_released:
  assumes before: "tidy F K B M S w" and gone: "released F (wd_live w) (set rs) (wd_live w')"
    and loose: "\<forall>r\<in>set rs. quiet F r \<or> r \<in> K"
    and same: "wd_faults w' = wd_faults w" "wd_next w' = wd_next w" "wd_misused w' = wd_misused w"
    and split: "B' \<union> set (owned w') \<union> set rs = B \<union> set (owned w)" "set rs \<inter> (B' \<union> set (owned w')) = {}"
      "set (owned w') \<inter> B' = {}" "distinct (owned w')"
    and after: "\<forall>r\<in>set (wd_locals w') \<union> snd ` set (wd_members w'). quiet F r \<or> r \<in> K" "wd_members w' \<in> M'" "wd_raw w' \<in> S'"
  shows "tidy F K B' M' S' w'"
proof -
  have live: "B \<union> set (owned w) \<subseteq> wd_live w" "\<forall>r\<in>wd_live w - B - set (owned w). r \<in> K \<and> \<not> quiet F r"
    and rest: "wd_faults w = F" "numbered (wd_live w) (wd_next w)" "\<not> wd_misused w"
    using before unfolding tidy_def by auto
  have "B' \<union> set (owned w') \<subseteq> wd_live w'" using live(1) gone split(1,2) unfolding released_def by blast
  moreover have "r \<in> K \<and> \<not> quiet F r" if "r \<in> wd_live w' - B' - set (owned w')" for r
  proof (cases "r \<in> set rs")
    case True
    then show ?thesis using gone loose that unfolding released_def by blast
  next
    case False
    then have "r \<in> wd_live w - B - set (owned w)" using that gone split(1) unfolding released_def by blast
    then show ?thesis using live(2) by blast
  qed
  moreover have "numbered (wd_live w') (wd_next w')"
    using numbered_subset [OF rest(2)] gone same(2) unfolding released_def by simp
  ultimately show ?thesis
    unfolding tidy_def using rest same split(3,4) after by simp
qed

lemma tidy_loose: "tidy F K B M S w \<Longrightarrow> r \<in> set (wd_locals w) \<union> snd ` set (wd_members w) \<Longrightarrow> quiet F r \<or> r \<in> K"
  unfolding tidy_def by blast

lemma tidy_calls: "tidy F K B M S (w\<lparr>wd_calls := n, wd_live := L\<rparr>) = tidy F K B M S (w\<lparr>wd_live := L\<rparr>)"
  by (simp add: tidy_def owned_def)

text \<open>
  A function body that is accounted for whatever else is live keeps the books of its caller: its local objects are gone
  when it is left.
\<close>

lemma account_scope:
  fixes m :: "('h, 'a) action"
  assumes "\<And>B. account (tidy F K B M S) m (\<lambda>x. tidy F K B M1 (S1 x)) (tidy F K B M2 S2)"
  shows "account (\<lambda>w. tidy F K B M S w \<and> wd_locals w = L) (scope m) (\<lambda>x w. tidy F K B M1 (S1 x) w \<and> wd_locals w = L)
    (\<lambda>w. tidy F K B M2 S2 w \<and> wd_locals w = L)"
proof (rule accountI)
  fix w :: "'h World"
  assume "tidy F K B M S w \<and> wd_locals w = L"
  then have w: "tidy F K B M S w" and outer: "wd_locals w = L" by simp_all
  let ?B = "B \<union> set (wd_locals w)"
  have keep: "\<forall>r\<in>set (wd_locals w). quiet F r \<or> r \<in> K" and dist: "distinct (wd_locals w)"
    using w by (auto simp: tidy_def owned_def)
  have "tidy F K ?B M S (w\<lparr>wd_locals := []\<rparr>)"
    using w unfolding tidy_def owned_def by auto
  from accountD [OF assms this] obtain v w1 where m: "m (w\<lparr>wd_locals := []\<rparr>) = (v, w1)"
      "settles (\<lambda>x. tidy F K ?B M1 (S1 x)) (tidy F K ?B M2 S2) (v, w1)" by (metis surj_pair)
  have left: "v \<noteq> Terminated \<Longrightarrow> v \<noteq> Hangs \<Longrightarrow> tidy F K ?B M' S' w1 \<Longrightarrow>
     snd (leave (wd_locals w) (v, w1)) = w2 \<Longrightarrow> fst (leave (wd_locals w) (v, w1)) \<noteq> Terminated \<Longrightarrow>
     fst (leave (wd_locals w) (v, w1)) = v \<and> tidy F K B M' S' w2 \<and> wd_locals w2 = L" for M' S' w2
  proof -
    assume v: "v \<noteq> Terminated" "v \<noteq> Hangs" and t: "tidy F K ?B M' S' w1"
      and w2: "snd (leave (wd_locals w) (v, w1)) = w2" and nt: "fst (leave (wd_locals w) (v, w1)) \<noteq> Terminated"
    let ?w1 = "w1\<lparr>wd_locals := wd_locals w\<rparr>"
    have pre: "distinct (wd_locals w1)" "set (wd_locals w1) \<subseteq> wd_live ?w1"
      using t unfolding tidy_def owned_def by auto
    have "tidy F K B M' S' (?w1\<lparr>wd_live := L'\<rparr>)" if gone: "released F (wd_live w1) (set (wd_locals w1)) L'" for L'
    proof (rule tidy_released [OF t, of "wd_locals w1"])
      show "released F (wd_live w1) (set (wd_locals w1)) (wd_live (?w1\<lparr>wd_live := L'\<rparr>))" using gone by simp
      have o: "set (owned w1) \<inter> ?B = {}" "distinct (owned w1)" using t unfolding tidy_def by auto
      have "set (wd_locals w) \<inter> B = {}" using w unfolding tidy_def owned_def by auto
      then show "set (owned (?w1\<lparr>wd_live := L'\<rparr>)) \<inter> B = {}" "distinct (owned (?w1\<lparr>wd_live := L'\<rparr>))"
          "set (wd_locals w1) \<inter> (B \<union> set (owned (?w1\<lparr>wd_live := L'\<rparr>))) = {}"
          "B \<union> set (owned (?w1\<lparr>wd_live := L'\<rparr>)) \<union> set (wd_locals w1) = ?B \<union> set (owned w1)"
        using o dist by (auto simp: owned_def)
      show "\<forall>r\<in>set (wd_locals w1). quiet F r \<or> r \<in> K" using tidy_loose [OF t] by blast
      show "\<forall>r\<in>set (wd_locals (?w1\<lparr>wd_live := L'\<rparr>)) \<union> snd ` set (wd_members (?w1\<lparr>wd_live := L'\<rparr>)). quiet F r \<or> r \<in> K"
        using tidy_loose [OF t] keep by auto
    qed (use t in \<open>simp_all add: tidy_def\<close>)
    moreover have "wd_faults ?w1 = F" using t by (simp add: tidy_def)
    ultimately show ?thesis
      using destroy_all [OF pre] v w2 nt outer by (auto simp: leave_def tidy_calls)
  qed
  have leave: "scope m w = leave (wd_locals w) (v, w1)" using m(1) by (simp add: scope_def)
  obtain v' w2 where r: "leave (wd_locals w) (v, w1) = (v', w2)" by fastforce
  show "settles (\<lambda>x w. tidy F K B M1 (S1 x) w \<and> wd_locals w = L) (\<lambda>w. tidy F K B M2 S2 w \<and> wd_locals w = L) (scope m w)"
  proof (cases "v = Terminated \<or> v = Hangs \<or> v' = Terminated")
    case True
    then show ?thesis using r unfolding leave by (auto simp: leave_def)
  next
    case False
    then show ?thesis using left [of _ _ w2] m(2) r unfolding leave by (cases v) auto
  qed
qed

text \<open>Members: a resource moves in, the old one goes.\<close>

lemma distinct_map_filter_not:
  assumes "distinct (map f xs)"
  shows "distinct (map f (filter P xs))" "set (map f (filter P xs)) \<inter> set (map f (filter (\<lambda>x. \<not> P x) xs)) = {}"
    "set (map f xs) = set (map f (filter P xs)) \<union> set (map f (filter (\<lambda>x. \<not> P x) xs))"
  using assms by (auto simp: distinct_map inj_on_def)

text \<open>What \<open>destroy_all\<close> leaves when the resources \<open>rs\<close> have lost their owner.\<close>

lemma settle_destroy:
  assumes "distinct rs" "set rs \<subseteq> wd_live w"
    and "\<And>L. released (wd_faults w) (wd_live w) (set rs) L \<Longrightarrow> tidy F K B M S (w\<lparr>wd_live := L\<rparr>)"
  shows "settles (\<lambda>_. tidy F K B M S) X (destructor (forA destroy rs) w)"
  using destroy_all [OF assms(1,2)] assms(3) by (auto simp: tidy_calls)

lemma keeps_move:
  "account (\<lambda>w. tidy F K B UNIV S w \<and> wd_locals w \<noteq> []) (move_to_member k) (\<lambda>_. tidy F K B UNIV S) (tidy F K B UNIV S)"
proof (rule accountI)
  fix w :: "'a World"
  assume w: "tidy F K B UNIV S w \<and> wd_locals w \<noteq> []"
  then obtain r ls where l: "wd_locals w = r # ls" by (cases "wd_locals w") auto
  let ?keep = "filter (\<lambda>(k', _). k' \<noteq> k) (wd_members w)"
  let ?old = "map snd (filter (\<lambda>(k', _). k' = k) (wd_members w))"
  let ?w = "w\<lparr>wd_locals := ls, wd_members := ?keep @ [(k, r)]\<rparr>"
  have t: "tidy F K B UNIV S w" using w by simp
  then have o: "distinct (map snd (wd_members w))" "distinct (owned w)" "set (owned w) \<inter> B = {}" "set (owned w) \<subseteq> wd_live w"
    by (auto simp: tidy_def owned_def)
  note split = distinct_map_filter_not [OF o(1), of "\<lambda>(k', _). k' = k"]
    distinct_map_filter_not(1) [OF o(1), of "\<lambda>(k', _). k' \<noteq> k"]
  have not: "filter (\<lambda>x. \<not> (case x of (k', _) \<Rightarrow> k' = k)) (wd_members w) = ?keep" by (simp add: case_prod_unfold)
  note parts = split(2,3) [unfolded not]
  have live: "set ?old \<subseteq> wd_live ?w" using parts(2) o(4) by (auto simp: owned_def)
  have "tidy F K B UNIV S (?w\<lparr>wd_live := L\<rparr>)" if gone: "released (wd_faults ?w) (wd_live ?w) (set ?old) L" for L
  proof (rule tidy_released [OF t, of ?old])
    show "released F (wd_live w) (set ?old) (wd_live (?w\<lparr>wd_live := L\<rparr>))" using gone t by (simp add: tidy_def)
    have members: "set (map snd (wd_members w)) = set ?old \<union> set (map snd ?keep)" "set ?old \<inter> set (map snd ?keep) = {}"
      using parts by simp_all
    have owned: "owned (?w\<lparr>wd_live := L\<rparr>) = ls @ map snd ?keep @ [r] @ wd_raw w" "owned w = r # ls @ map snd (wd_members w) @ wd_raw w"
      using l by (simp_all add: owned_def)
    show "set (owned (?w\<lparr>wd_live := L\<rparr>)) \<inter> B = {}" "distinct (owned (?w\<lparr>wd_live := L\<rparr>))"
        "set ?old \<inter> (B \<union> set (owned (?w\<lparr>wd_live := L\<rparr>))) = {}"
        "B \<union> set (owned (?w\<lparr>wd_live := L\<rparr>)) \<union> set ?old = B \<union> set (owned w)"
      using o(2,3) members split(4) unfolding owned distinct_append set_append list.set distinct.simps by blast+
    show "\<forall>r\<in>set ?old. quiet F r \<or> r \<in> K" using tidy_loose [OF t] by auto
    show "\<forall>r\<in>set (wd_locals (?w\<lparr>wd_live := L\<rparr>)) \<union> snd ` set (wd_members (?w\<lparr>wd_live := L\<rparr>)). quiet F r \<or> r \<in> K"
      using tidy_loose [OF t] l by auto
  qed (use t in \<open>simp_all add: tidy_def\<close>)
  from settle_destroy [OF split(1) live this, of "tidy F K B UNIV S"] l
  show "settles (\<lambda>_. tidy F K B UNIV S) (tidy F K B UNIV S) (move_to_member k w)"
    by (simp add: move_to_member_def Let_def)
qed

lemma account_buffer_member: "keeps (tidy F K B UNIV S) (bindA AllocateDeviceBuffer (\<lambda>_. move_to_member k))"
proof (rule account_bindA [OF _ keeps_move], rule accountI)
  fix w :: "'a World"
  assume "tidy F K B UNIV S w"
  then have "settles (\<lambda>_. tidy F K B UNIV S) (tidy F K B UNIV S) (AllocateDeviceBuffer w)"
    using accountD [OF keeps_buffer] by blast
  then show "settles (\<lambda>_ w. tidy F K B UNIV S w \<and> wd_locals w \<noteq> []) (tidy F K B UNIV S) (AllocateDeviceBuffer w)"
    by (simp add: AllocateDeviceBuffer_def acquire_local_def bindA_def callA_def Let_def split: if_splits)
qed

lemma keeps_push [account_rules]: "keeps (tidy F K B UNIV S) push_transfer"
proof (rule accountI)
  fix w :: "'a World"
  assume "tidy F K B UNIV S w"
  then show "settles (\<lambda>_. tidy F K B UNIV S) (tidy F K B UNIV S) (push_transfer w)"
    unfolding tidy_def owned_def push_transfer_def by (auto simp: image_image image_Un comp_def)
qed

lemma account_destroy_members:
  "account (tidy F K B UNIV S) (destroy_members P) (\<lambda>_. tidy F K B {ms. \<forall>(k, r)\<in>set ms. \<not> P k} S) X"
proof (rule accountI)
  fix w :: "'a World"
  assume w: "tidy F K B UNIV S w"
  let ?keep = "filter (\<lambda>(k, _). \<not> P k) (wd_members w)"
  let ?old = "map snd (filter (\<lambda>(k, _). P k) (wd_members w))"
  let ?w = "w\<lparr>wd_members := ?keep\<rparr>"
  have o: "distinct (map snd (wd_members w))" "distinct (owned w)" "set (owned w) \<inter> B = {}" "set (owned w) \<subseteq> wd_live w"
    using w by (auto simp: tidy_def owned_def)
  note split = distinct_map_filter_not [OF o(1), of "\<lambda>(k, _). P k"] distinct_map_filter_not(1) [OF o(1), of "\<lambda>(k, _). \<not> P k"]
  have not: "filter (\<lambda>x. \<not> (case x of (k, _) \<Rightarrow> P k)) (wd_members w) = ?keep" by (simp add: case_prod_unfold)
  note parts = split(2,3) [unfolded not]
  have live: "set ?old \<subseteq> wd_live ?w" using parts(2) o(4) by (auto simp: owned_def)
  have "tidy F K B {ms. \<forall>(k, r)\<in>set ms. \<not> P k} S (?w\<lparr>wd_live := L\<rparr>)" if gone: "released (wd_faults ?w) (wd_live ?w) (set ?old) L" for L
  proof (rule tidy_released [OF w, of ?old])
    show "released F (wd_live w) (set ?old) (wd_live (?w\<lparr>wd_live := L\<rparr>))" using gone w by (simp add: tidy_def)
    have members: "set (map snd (wd_members w)) = set ?old \<union> set (map snd ?keep)" "set ?old \<inter> set (map snd ?keep) = {}"
      using parts by simp_all
    have owned: "owned (?w\<lparr>wd_live := L\<rparr>) = wd_locals w @ map snd ?keep @ wd_raw w" "owned w = wd_locals w @ map snd (wd_members w) @ wd_raw w"
      by (simp_all add: owned_def)
    show "set (owned (?w\<lparr>wd_live := L\<rparr>)) \<inter> B = {}" "distinct (owned (?w\<lparr>wd_live := L\<rparr>))"
        "set ?old \<inter> (B \<union> set (owned (?w\<lparr>wd_live := L\<rparr>))) = {}"
        "B \<union> set (owned (?w\<lparr>wd_live := L\<rparr>)) \<union> set ?old = B \<union> set (owned w)"
      using o(2,3) members split(4) unfolding owned distinct_append set_append by blast+
    show "\<forall>r\<in>set ?old. quiet F r \<or> r \<in> K" using tidy_loose [OF w] by auto
    show "\<forall>r\<in>set (wd_locals (?w\<lparr>wd_live := L\<rparr>)) \<union> snd ` set (wd_members (?w\<lparr>wd_live := L\<rparr>)). quiet F r \<or> r \<in> K"
      using tidy_loose [OF w] by auto
  qed (use w in \<open>auto simp: tidy_def\<close>)
  from settle_destroy [OF split(1) live this, of X]
  show "settles (\<lambda>_. tidy F K B {ms. \<forall>(k, r)\<in>set ms. \<not> P k} S) X (destroy_members P w)"
    by (simp add: destroy_members_def)
qed

lemma ignoring_release: "\<exists>w1. ignoring (release api r) w = (Done (), w1) \<and> wd_faults w1 = wd_faults w"
  by (cases "wd_faults w api (wd_calls w)") (simp_all add: release_def ignoring_def bindA_def callA_def)

text \<open>When \<open>cudaFree\<close> fails, the destruction of a buffer throws.\<close>

lemma destroy_buffer_throws:
  assumes "\<forall>n. wd_faults w Free n" "DeviceBuffer k \<in> set rs"
  shows "\<exists>w'. destructor (forA destroy rs) w = (Terminated, w')"
proof -
  have "\<exists>e w'. forA destroy rs w = (Raised e, w')"
    using assms
  proof (induction rs arbitrary: w)
    case (Cons r rs)
    show ?case
    proof (cases "\<exists>n. r = DeviceBuffer n")
      case True
      then show ?thesis using Cons.prems(1) by (auto simp: destroy_def release_def bindA_def callA_def)
    next
      case False
      then obtain w1 where "destroy r w = (Done (), w1)" "wd_faults w1 = wd_faults w"
        using ignoring_release [of EventDestroy r w] ignoring_release [of StreamDestroy r w] by (cases r) (auto simp: destroy_def)
      then show ?thesis using Cons False by auto
    qed
  qed simp
  then show ?thesis by (auto simp: destructor_def)
qed

text \<open>Caught exceptions and cleanups.\<close>

lemma account_ignoring: "keeps I m \<Longrightarrow> account I (ignoring m) (\<lambda>_. I) X"
proof (rule accountI)
  fix w
  assume "keeps I m" "I w"
  from accountD [OF this] show "settles (\<lambda>_. I) X (ignoring m w)"
    by (cases "m w"; cases "fst (m w)") (auto simp: ignoring_def)
qed

lemma keeps_ignoring [account_rules]: "keeps I m \<Longrightarrow> keeps I (ignoring m)"
  by (rule account_ignoring)

lemma account_forA: "(\<And>x. account I (f x) (\<lambda>_. I) X) \<Longrightarrow> account I (forA f xs) (\<lambda>_. I) X"
  by (induction xs) (auto intro: account_bindA account_retA)

lemma account_on_exception:
  assumes "account I m J X" "account X cleanup (\<lambda>_. Y) Y"
  shows "account I (on_exception m cleanup) J Y"
proof (rule accountI)
  fix w :: "'a World"
  assume "I w"
  obtain v w1 where m: "m w = (v, w1)" by fastforce
  obtain d w2 where d: "cleanup w1 = (d, w2)" by fastforce
  show "settles J Y (on_exception m cleanup w)"
    using accountD [OF assms(1) \<open>I w\<close>] accountD [OF assms(2), of w1] m d
    by (cases v; cases d) (auto simp: on_exception_def)
qed

lemma hoare_on_exception:
  fixes m :: "('h, 'a) action"
  assumes "hoare F P m Q E" "\<And>e. hoare F (E e) cleanup (\<lambda>_. E e) (\<lambda>_. E e)"
  shows "hoare F P (on_exception m cleanup) Q E"
proof (rule hoareI)
  fix w :: "'h World"
  assume w: "wd_faults w = F" "P (wd_host w)"
  obtain v w1 where m: "m w = (v, w1)" by fastforce
  with hoareD [OF assms(1) w] have a: "ends F Q E (v, w1)" by simp
  obtain d w2 where d: "cleanup w1 = (d, w2)" by fastforce
  show "ends F Q E (on_exception m cleanup w)"
  proof (cases v)
    case (Raised e)
    then show ?thesis using a m d hoareD [OF assms(2) [of e], of w1] by (cases d) (auto simp: on_exception_def)
  qed (use a m in \<open>simp_all add: on_exception_def\<close>)
qed

end
