(* ===== verification/CudaDirect.thy ===== *)
theory CudaDirect imports CudaFaults begin

text \<open>
  \<open>RunDecodePlanCuda\<close> of \<open>kernels/sparse_decoder.cu\<close>, call by call: every CUDA call can fail, the buffers are local
  objects, the timing events of a profiled run are plain handles, and the slots are written one by one as the outputs
  are downloaded. The scan and the effect of a launch are those of \<open>CudaDecode\<close>.

  The theorems say that whatever fails, the run returns the slots of the CPU executor, or throws and every slot is either
  untouched or decoded; that an unprofiled run leaks nothing; and what the handling of failures does not achieve.
\<close>

section \<open>The run\<close>

record CudaDecodeTimings =
  h2d_ms :: real
  kernel_ms :: real
  d2h_ms :: real

record DirectHost =
  dh_shards :: ShardSlots
  dh_device :: device_table
  dh_cache :: config_cache
  dh_timings :: CudaDecodeTimings

definition timed_only :: "bool \<Rightarrow> ('h, unit) action \<Rightarrow> ('h, unit) action" where
  "timed_only timed m = (if timed then m else retA ())"

text \<open>\<open>cudaEventCreate\<close> into plain variables.\<close>

primrec create_events :: "nat \<Rightarrow> ('h, resource list) action" where
  "create_events 0 = retA []"
| "create_events (Suc n) = bindA (acquire_raw EventCreate CudaEvent_handle) (\<lambda>event.
     bindA (create_events n) (\<lambda>events. retA (event # events)))"

definition allocate_shard :: "(nat \<Rightarrow> nat \<Rightarrow> ShardWord) \<Rightarrow> ScanState \<Rightarrow> nat \<Rightarrow> (DirectHost, unit) action" where
  "allocate_shard fresh sc i =
     (if required_shards sc ! i
      then bindA AllocateDeviceBuffer (\<lambda>_. modifyA (\<lambda>h. h\<lparr>dh_device :=
             (dh_device h)[i := Some (map (fresh i) [0..<the (word_counts sc ! i)])]\<rparr>))
      else retA ())"

definition upload_shard :: "ScanState \<Rightarrow> ShardSlots \<Rightarrow> nat \<Rightarrow> (DirectHost, unit) action" where
  "upload_shard sc shards i =
     (if required_shards sc ! i \<and> shards ! i \<noteq> None
      then bindA (callA Memcpy) (\<lambda>_. modifyA (\<lambda>h. h\<lparr>dh_device := (dh_device h)[i := shards ! i]\<rparr>))
      else retA ())"

text \<open>A device copy of the pointer table, of the source ids.\<close>

definition upload_metadata :: "('h, unit) action" where
  "upload_metadata = bindA AllocateDeviceBuffer (\<lambda>_. callA Memcpy)"

text \<open>
  One case of the \<open>switch\<close>; only a kernel that is not cached yet is queried. \<open>cudaGetLastError\<close> follows the launch: when it
  reports a failure, the model has already applied the effect of the kernel to the device buffers, which the exception releases
  unread.
\<close>

definition launch_one ::
  "(int \<Rightarrow> KernelId \<Rightarrow> DeviceQueries) \<Rightarrow> int \<Rightarrow> ScanState \<Rightarrow> nat \<times> XorOperation \<Rightarrow> (DirectHost, unit) action" where
  "launch_one queries device_id sc iop =
     bindA (hostA (\<lambda>h. map_of (dh_cache h) (device_id, xor_kernel_id (length (xo_sources (snd iop)))))) (\<lambda>cached.
     bindA (if cached = None then callA LaunchConfig else retA ()) (\<lambda>_.
     bindA (hostA (\<lambda>h. launch_operation queries device_id sc iop (dh_device h, dh_cache h))) (\<lambda>r.
     bindA (liftR r) (\<lambda>(device, cache).
     bindA (modifyA (\<lambda>h. h\<lparr>dh_device := device, dh_cache := cache\<rparr>)) (\<lambda>_.
     callA LastError)))))"

definition download_one :: "XorOperation \<Rightarrow> (DirectHost, unit) action" where
  "download_one op =
     bindA (callA Memcpy) (\<lambda>_. modifyA (\<lambda>h. h\<lparr>dh_shards :=
       (dh_shards h)[unat (xo_output op) := Some (the (dh_device h ! unat (xo_output op)))]\<rparr>))"

text \<open>From the scan to the last launch.\<close>

definition launch_plan_phase ::
  "(int \<Rightarrow> KernelId \<Rightarrow> DeviceQueries) \<Rightarrow> int \<Rightarrow> (nat \<Rightarrow> nat \<Rightarrow> ShardWord) \<Rightarrow> DecodePlan \<Rightarrow> bool \<Rightarrow> (DirectHost, unit) action" where
  "launch_plan_phase queries device_id fresh plan timed =
     bindA (hostA dh_shards) (\<lambda>shards.
     bindA (liftA (bindE (scan_slots shards) (scan_plan plan))) (\<lambda>sc.
     bindA (modifyA (\<lambda>h. h\<lparr>dh_device := replicate (length shards) None\<rparr>)) (\<lambda>_.
     bindA (forA (allocate_shard fresh sc) [0..<length shards]) (\<lambda>_.
     bindA (timed_only timed (callA EventRecord)) (\<lambda>_.
     bindA (forA (upload_shard sc shards) [0..<length shards]) (\<lambda>_.
     bindA upload_metadata (\<lambda>_.
     bindA upload_metadata (\<lambda>_.
     bindA (timed_only timed (bindA (callA EventRecord) (\<lambda>_. callA EventRecord))) (\<lambda>_.
     forA (launch_one queries device_id sc) (List.enumerate 0 (operations plan)))))))))))"

definition read_timings :: "(DirectHost, unit) action" where
  "read_timings =
     bindA (callA EventRecord) (\<lambda>_.
     bindA (callA Synchronize) (\<lambda>_.
     bindA ElapsedTime (\<lambda>t. bindA (modifyA (\<lambda>h. h\<lparr>dh_timings := (dh_timings h)\<lparr>h2d_ms := t\<rparr>\<rparr>)) (\<lambda>_.
     bindA ElapsedTime (\<lambda>t. bindA (modifyA (\<lambda>h. h\<lparr>dh_timings := (dh_timings h)\<lparr>kernel_ms := t\<rparr>\<rparr>)) (\<lambda>_.
     bindA ElapsedTime (\<lambda>t. modifyA (\<lambda>h. h\<lparr>dh_timings := (dh_timings h)\<lparr>d2h_ms := t\<rparr>\<rparr>))))))))"

text \<open>From the wait for the kernels to the end.\<close>

definition download_phase :: "DecodePlan \<Rightarrow> bool \<Rightarrow> resource list \<Rightarrow> (DirectHost, unit) action" where
  "download_phase plan timed events =
     bindA (timed_only timed (callA EventRecord)) (\<lambda>_.
     bindA (callA Synchronize) (\<lambda>_.
     bindA (timed_only timed (callA EventRecord)) (\<lambda>_.
     bindA (forA download_one (operations plan)) (\<lambda>_.
     timed_only timed (bindA read_timings (\<lambda>_. forA (release_raw EventDestroy) events))))))"

definition RunDecodePlanCuda ::
  "(int \<Rightarrow> KernelId \<Rightarrow> DeviceQueries) \<Rightarrow> int \<Rightarrow> (nat \<Rightarrow> nat \<Rightarrow> ShardWord) \<Rightarrow> DecodePlan \<Rightarrow> bool \<Rightarrow> (DirectHost, unit) action" where
  "RunDecodePlanCuda queries device_id fresh plan timed = scope (
     bindA (liftA (ValidatePlanShape plan)) (\<lambda>_.
     if operations plan = [] then retA ()
     else bindA (callA GetDevice) (\<lambda>_.
       bindA (if timed then create_events 6 else retA []) (\<lambda>events.
       bindA (launch_plan_phase queries device_id fresh plan timed) (\<lambda>_.
       download_phase plan timed events)))))"

definition run_decode_plan_cuda_profiled ::
  "(int \<Rightarrow> KernelId \<Rightarrow> DeviceQueries) \<Rightarrow> int \<Rightarrow> (nat \<Rightarrow> nat \<Rightarrow> ShardWord) \<Rightarrow> DecodePlan \<Rightarrow> (DirectHost, unit) action" where
  "run_decode_plan_cuda_profiled queries device_id fresh plan =
     bindA (modifyA (\<lambda>h. h\<lparr>dh_timings := \<lparr>h2d_ms = 0, kernel_ms = 0, d2h_ms = 0\<rparr>\<rparr>))
       (\<lambda>_. RunDecodePlanCuda queries device_id fresh plan True)"

section \<open>The host memory\<close>

lemma fold_update_upt:
  assumes "n \<le> length d"
  shows "fold (\<lambda>i d. if c i (d ! i) then d[i := v i] else d) [0..<n] d
    = map (\<lambda>i. if i < n \<and> c i (d ! i) then v i else d ! i) [0..<length d]"
  using assms
proof (induction n)
  case 0
  then show ?case by (simp add: map_nth)
next
  case (Suc n)
  then show ?case by (auto simp: intro!: nth_equalityI simp: nth_list_update less_Suc_eq)
qed

lemma fold_allocate:
  "fold (\<lambda>i d. if required_shards sc ! i then d[i := Some (map (fresh i) [0..<the (word_counts sc ! i)])] else d)
     [0..<n] (replicate n None) = allocate fresh sc (replicate n None)"
  by (simp add: fold_update_upt [where c = "\<lambda>i _. required_shards sc ! i"] allocate_def)

lemma fold_allocate_missing:
  "fold (\<lambda>i d. if required_shards sc ! i \<and> d ! i = None then d[i := Some (map (fresh i) [0..<the (word_counts sc ! i)])] else d)
     [0..<length d] d = allocate fresh sc d"
  by (simp add: fold_update_upt [where c = "\<lambda>i b. required_shards sc ! i \<and> b = None"] allocate_def)

lemma fold_upload:
  "fold (\<lambda>i d. if required_shards sc ! i \<and> shards ! i \<noteq> None then d[i := shards ! i] else d) [0..<length d] d = upload sc shards d"
  by (subst fold_update_upt [where c = "\<lambda>i _. required_shards sc ! i \<and> shards ! i \<noteq> None"]) (simp_all add: upload_def)

lemma launch_operations_append:
  "launch_operations queries dev sc (xs @ ys) st
    = bindR (launch_operations queries dev sc xs st) (launch_operations queries dev sc ys)"
proof (induction xs arbitrary: st)
  case (Cons x xs)
  show ?case
    by (cases "launch_operation queries dev sc x st" rule: option.exhaust; simp add: bindR_def Cons.IH split: sum.split option.split)
qed simp

lemma download_snoc:
  "download (ops @ [op]) device shards
    = (download ops device shards)[unat (xo_output op) := Some (the (device ! unat (xo_output op)))]"
  by (simp add: download_def)

lemma LaunchXor_cache:
  assumes "LaunchXorOperationCuda queries dev n wc table ids out cache = Some (Inr (buf, cache'))" "cache_ok queries cache"
  shows "cache_ok queries cache'"
proof -
  obtain config where "GetCachedOptimalLaunchConfig queries (xor_kernel_id n) dev cache = Inr (config, cache')"
    using assms(1) by (auto simp: LaunchXorOperationCuda_def bindR_def Let_def split: sum.splits option.splits)
  then show ?thesis
    using assms(2) by (auto simp: GetCachedOptimalLaunchConfig_def cache_ok_def bindE_eq_Inr split: option.splits if_splits)
qed

lemma launch_operation_cache:
  assumes "launch_operation queries dev sc iop (device, cache) = Some (Inr (device', cache'))" "cache_ok queries cache"
  shows "cache_ok queries cache'"
  using assms LaunchXor_cache
  by (fastforce simp: launch_operation_def bindR_def Let_def split: prod.splits sum.splits option.splits)

text \<open>A loop whose body updates a component of the host memory, and may fail before it does.\<close>

lemma hoare_for_fold:
  assumes "\<And>x d. x \<in> set xs \<Longrightarrow> hoare F (I d) (f x) (\<lambda>_. I (g x d)) E"
  shows "hoare F (I start) (forA f xs) (\<lambda>_. I (fold g xs start)) E"
  using hoare_forA [of xs F "\<lambda>pre. I (fold g pre start)" f E] assms by simp

definition host_is :: "ShardSlots \<Rightarrow> config_cache \<Rightarrow> device_table \<Rightarrow> DirectHost \<Rightarrow> bool" where
  "host_is shards cache device h \<longleftrightarrow> dh_shards h = shards \<and> dh_cache h = cache \<and> dh_device h = device"

text \<open>What a failure before the downloads leaves.\<close>

definition untouched ::
  "(int \<Rightarrow> KernelId \<Rightarrow> DeviceQueries) \<Rightarrow> (cuda_api \<Rightarrow> nat \<Rightarrow> bool) \<Rightarrow> ShardSlots \<Rightarrow> exn \<Rightarrow> DirectHost \<Rightarrow> bool" where
  "untouched queries F shards e h \<longleftrightarrow> e = cuda_error \<and> some_fault F \<and> dh_shards h = shards \<and> cache_ok queries (dh_cache h)"

lemma hoare_skip: "hoare F P (retA x) (\<lambda>_. P) E"
  by (rule hoare_retA)

lemma hoare_read:
  fixes f :: "'h \<Rightarrow> 'a"
  assumes "\<And>h. P h \<Longrightarrow> f h = x" "hoare F P (k x) Q E"
  shows "hoare F P (bindA (hostA f) k) Q E"
  using assms by (simp add: hoare_def bindA_def hostA_def)

lemma hoare_returned [simp]:
  "hoare F P (bindA (liftA (Inr x)) k) Q E \<longleftrightarrow> hoare F P (k x) Q E"
  "hoare F P (bindA (liftR (Some (Inr x))) k) Q E \<longleftrightarrow> hoare F P (k x) Q E"
  by (simp_all add: hoare_def bindA_def liftA_def liftR_def)

lemma hoare_allocate_shard:
  assumes "cache_ok queries cache"
  shows "hoare F (host_is shards cache d) (allocate_shard fresh sc i)
    (\<lambda>_. host_is shards cache (if required_shards sc ! i then d[i := Some (map (fresh i) [0..<the (word_counts sc ! i)])] else d))
    (untouched queries F shards)"
proof (cases "required_shards sc ! i")
  case True
  then show ?thesis unfolding allocate_shard_def
    by simp (rule hoare_bindA [rotated], rule hoare_modifyA, rule hoare_pre [OF hoare_runtime],
        use assms in \<open>simp_all add: host_is_def untouched_def\<close>)
next
  case False
  then show ?thesis by (simp add: allocate_shard_def hoare_skip)
qed

lemma hoare_upload_shard:
  assumes "cache_ok queries cache"
  shows "hoare F (host_is shards cache d) (upload_shard sc shards i)
    (\<lambda>_. host_is shards cache (if required_shards sc ! i \<and> shards ! i \<noteq> None then d[i := shards ! i] else d))
    (untouched queries F shards)"
proof (cases "required_shards sc ! i \<and> shards ! i \<noteq> None")
  case True
  show ?thesis unfolding upload_shard_def if_P [OF True]
    by (rule hoare_bindA [rotated], rule hoare_modifyA, rule hoare_pre [OF hoare_runtime],
        use assms in \<open>simp_all add: host_is_def untouched_def\<close>)
next
  case False
  show ?thesis unfolding upload_shard_def if_not_P [OF False] by (rule hoare_skip)
qed

lemma hoare_untouched:
  assumes "runtime_only m" "cache_ok queries cache"
  shows "hoare F (host_is shards cache d) m (\<lambda>_. host_is shards cache d) (untouched queries F shards)"
  by (rule hoare_pre [OF hoare_runtime [OF assms(1)]]) (use assms(2) in \<open>simp add: host_is_def untouched_def\<close>)

lemma hoare_launch_one:
  assumes "launch_operation queries dev sc iop (d, cache) = Some (Inr (d', cache'))" "cache_ok queries cache"
  shows "hoare F (host_is shards cache d) (launch_one queries dev sc iop) (\<lambda>_. host_is shards cache' d') (untouched queries F shards)"
proof -
  note ok = launch_operation_cache [OF assms]
  have set: "hoare F (host_is shards cache d) (bindA (modifyA (\<lambda>h. h\<lparr>dh_device := d', dh_cache := cache'\<rparr>)) (\<lambda>_. callA LastError))
      (\<lambda>_. host_is shards cache' d') (untouched queries F shards)"
    by (rule hoare_bindA [OF _ hoare_untouched [OF _ ok]], rule hoare_pre [OF hoare_modifyA]) (simp_all add: host_is_def)
  show ?thesis
    unfolding launch_one_def
    by (rule hoare_read [where x = "map_of cache (dev, xor_kernel_id (length (xo_sources (snd iop))))"], simp add: host_is_def,
        rule hoare_bindA [OF hoare_untouched [OF _ assms(2)]], simp,
        rule hoare_read [where x = "Some (Inr (d', cache'))"], simp add: host_is_def assms(1), simp add: hoare_returned set)
qed

lemma hoare_launches:
  assumes "launch_operations queries dev sc iops (d, cache) = Some (Inr (d', cache'))" "cache_ok queries cache"
  shows "hoare F (host_is shards cache d) (forA (launch_one queries dev sc) iops) (\<lambda>_. host_is shards cache' d') (untouched queries F shards)"
  using assms
proof (induction iops arbitrary: d cache)
  case Nil
  then show ?case using hoare_retA [of F "\<lambda>_. host_is shards cache d" "()"] by simp
next
  case (Cons iop iops)
  obtain d1 cache1 where s: "launch_operation queries dev sc iop (d, cache) = Some (Inr (d1, cache1))"
      "launch_operations queries dev sc iops (d1, cache1) = Some (Inr (d', cache'))"
    using Cons.prems(1) by (auto simp: bindR_def split: option.splits sum.splits)
  show ?case
    using hoare_bindA [OF hoare_launch_one [OF s(1) Cons.prems(2)] Cons.IH [OF s(2) launch_operation_cache [OF s(1) Cons.prems(2)]]]
    by simp
qed

text \<open>From an accepted scan to the last launch: nothing visible happens, and the device then holds the outputs.\<close>

lemma hoare_launch_phase:
  assumes "runtime_ok queries" "cache_ok queries cache" "scan_slots shards = Inr sc0" "fresh_scan sc0 shards" "scan_plan plan sc0 = Inr sc"
  shows "\<exists>device' cache'. hoare F (\<lambda>h. dh_shards h = shards \<and> dh_cache h = cache) (launch_plan_phase queries dev fresh plan timed)
      (\<lambda>_. host_is shards cache' device') (untouched queries F shards) \<and>
    download (operations plan) device' shards = fst (execute_operations (operations plan) shards) \<and> cache_ok queries cache'"
proof -
  let ?n = "length shards"
  let ?d0 = "replicate ?n None"
  let ?d1 = "allocate fresh sc ?d0"
  let ?d2 = "upload sc shards ?d1"
  obtain device' cache' where l: "launch_operations queries dev sc (List.enumerate 0 (operations plan)) (?d2, cache) = Some (Inr (device', cache'))"
      "download (operations plan) device' shards = fst (execute_operations (operations plan) shards)" "cache_ok queries cache'"
    using launch_plan [OF assms(1,2,4,5) scan_upload_holds [OF assms(4,5)], of dev fresh] by auto
  note keep = hoare_untouched [OF _ assms(2)]
  have alloc: "hoare F (host_is shards cache ?d0) (forA (allocate_shard fresh sc) [0..<?n]) (\<lambda>_. host_is shards cache ?d1) (untouched queries F shards)"
    unfolding fold_allocate [symmetric] by (rule hoare_for_fold) (rule hoare_allocate_shard [OF assms(2)])
  have "[0..<?n] = [0..<length ?d1]" by (simp add: allocate_def)
  then have up: "hoare F (host_is shards cache ?d1) (forA (upload_shard sc shards) [0..<?n]) (\<lambda>_. host_is shards cache ?d2) (untouched queries F shards)"
    unfolding fold_upload [symmetric] by (simp only:, intro hoare_for_fold) (rule hoare_upload_shard [OF assms(2)])
  have meta: "runtime_only upload_metadata" unfolding upload_metadata_def by (intro runtime_only_bindA) simp_all
  have rest: "hoare F (host_is shards cache ?d0)
      (bindA (forA (allocate_shard fresh sc) [0..<?n]) (\<lambda>_.
       bindA (timed_only timed (callA EventRecord)) (\<lambda>_.
       bindA (forA (upload_shard sc shards) [0..<?n]) (\<lambda>_.
       bindA upload_metadata (\<lambda>_.
       bindA upload_metadata (\<lambda>_.
       bindA (timed_only timed (bindA (callA EventRecord) (\<lambda>_. callA EventRecord))) (\<lambda>_.
       forA (launch_one queries dev sc) (List.enumerate 0 (operations plan))))))))) (\<lambda>_. host_is shards cache' device') (untouched queries F shards)"
    by (intro hoare_bindA [OF alloc] hoare_bindA [OF keep] hoare_bindA [OF up] hoare_launches [OF l(1) assms(2)] meta)
      (simp_all add: timed_only_def runtime_only_bindA)
  have "hoare F (\<lambda>h. dh_shards h = shards \<and> dh_cache h = cache) (launch_plan_phase queries dev fresh plan timed)
      (\<lambda>_. host_is shards cache' device') (untouched queries F shards)"
    unfolding launch_plan_phase_def
    by (rule hoare_read [where x = shards], simp, simp add: assms(3,5),
        rule hoare_bindA [OF _ rest], rule hoare_pre [OF hoare_modifyA], simp add: host_is_def)
  then show ?thesis using l(2,3) by blast
qed

text \<open>Every slot is as it was or decoded.\<close>

definition partly_decoded :: "ShardSlots \<Rightarrow> ShardSlots \<Rightarrow> ShardSlots \<Rightarrow> bool" where
  "partly_decoded shards final slots \<longleftrightarrow> length slots = length shards \<and> (\<forall>i<length shards. slots ! i = shards ! i \<or> slots ! i = final ! i)"

text \<open>What a run leaves when it throws; \<open>failure\<close> and \<open>final\<close> are the CPU executor's.\<close>

definition direct_failure ::
  "(int \<Rightarrow> KernelId \<Rightarrow> DeviceQueries) \<Rightarrow> (cuda_api \<Rightarrow> nat \<Rightarrow> bool) \<Rightarrow> ShardSlots \<Rightarrow> ShardSlots \<times> exn option \<Rightarrow> exn \<Rightarrow> DirectHost \<Rightarrow> bool" where
  "direct_failure queries F shards cpu e h \<longleftrightarrow> cache_ok queries (dh_cache h) \<and>
     ((\<exists>m. e = InvalidArgument m) \<and> snd cpu \<noteq> None \<and> dh_shards h = shards \<or>
      e = cuda_error \<and> some_fault F \<and> partly_decoded shards (if snd cpu = None then fst cpu else shards) (dh_shards h))"

lemma partly_decoded_refl [simp]: "partly_decoded shards final shards"
  by (simp add: partly_decoded_def)

lemma untouched_failure: "untouched queries F shards e h \<Longrightarrow> direct_failure queries F shards cpu e h"
  by (simp add: untouched_def direct_failure_def)

lemma partly_decoded_download:
  assumes "download (pre @ post) device shards = final"
  shows "partly_decoded shards final (download pre device shards)"
  unfolding partly_decoded_def
proof (intro conjI allI impI)
  fix i
  assume "i < length shards"
  then show "download pre device shards ! i = shards ! i \<or> download pre device shards ! i = final ! i"
    unfolding assms [symmetric] by (auto simp: nth_download)
qed simp

definition downloaded ::
  "(int \<Rightarrow> KernelId \<Rightarrow> DeviceQueries) \<Rightarrow> device_table \<Rightarrow> ShardSlots \<Rightarrow> XorOperation list \<Rightarrow> DirectHost \<Rightarrow> bool" where
  "downloaded queries device shards pre h \<longleftrightarrow>
     dh_shards h = download pre device shards \<and> dh_device h = device \<and> cache_ok queries (dh_cache h)"

lemma hoare_downloaded:
  assumes "runtime_only m" "download (pre @ post) device shards = fst cpu" "snd cpu = None"
  shows "hoare F (downloaded queries device shards pre) m (\<lambda>_. downloaded queries device shards pre) (direct_failure queries F shards cpu)"
  by (rule hoare_pre [OF hoare_runtime [OF assms(1)]])
    (use assms(3) partly_decoded_download [OF assms(2)] in \<open>simp add: downloaded_def direct_failure_def\<close>)

lemma hoare_download_phase:
  assumes "download (operations plan) device shards = fst cpu" "snd cpu = None"
  shows "hoare F (downloaded queries device shards []) (download_phase plan timed events)
    (\<lambda>_. downloaded queries device shards (operations plan)) (direct_failure queries F shards cpu)"
proof -
  have rt: "runtime_only (timed_only timed (callA EventRecord :: (DirectHost, unit) action))" by (simp add: timed_only_def)
  have loop: "hoare F (downloaded queries device shards []) (forA download_one (operations plan))
      (\<lambda>_. downloaded queries device shards (operations plan)) (direct_failure queries F shards cpu)"
  proof (rule hoare_forA)
    fix pre op post
    assume ops: "operations plan = pre @ op # post"
    have "hoare F (downloaded queries device shards pre) (callA Memcpy)
        (\<lambda>_. downloaded queries device shards pre) (direct_failure queries F shards cpu)"
      by (rule hoare_downloaded) (use assms ops in simp_all)
    then show "hoare F (downloaded queries device shards pre) (download_one op)
        (\<lambda>_. downloaded queries device shards (pre @ [op])) (direct_failure queries F shards cpu)"
      unfolding download_one_def
      by (rule hoare_bindA) (rule hoare_pre [OF hoare_modifyA], simp add: downloaded_def download_snoc)
  qed
  have final: "runtime_only m \<Longrightarrow> hoare F (downloaded queries device shards (operations plan)) m
      (\<lambda>_. downloaded queries device shards (operations plan)) (direct_failure queries F shards cpu)" for m :: "(DirectHost, 'x) action"
    by (rule hoare_downloaded [where post = "[]"]) (use assms in simp_all)
  have set: "hoare F (downloaded queries device shards (operations plan)) (modifyA (\<lambda>h. h\<lparr>dh_timings := g h\<rparr>))
      (\<lambda>_. downloaded queries device shards (operations plan)) (direct_failure queries F shards cpu)" for g
    by (rule hoare_pre [OF hoare_modifyA]) (simp add: downloaded_def)
  have timings: "hoare F (downloaded queries device shards (operations plan)) read_timings
      (\<lambda>_. downloaded queries device shards (operations plan)) (direct_failure queries F shards cpu)"
    unfolding read_timings_def by (intro hoare_bindA [OF final] hoare_bindA [OF set] set runtime_only_elapsed) simp_all
  have "hoare F (downloaded queries device shards (operations plan))
      (timed_only timed (bindA read_timings (\<lambda>_. forA (release_raw EventDestroy) events)))
      (\<lambda>_. downloaded queries device shards (operations plan)) (direct_failure queries F shards cpu)"
    by (cases timed) (simp_all add: timed_only_def hoare_skip hoare_bindA [OF timings] final runtime_only_forA)
  then show ?thesis
    unfolding download_phase_def
    by (intro hoare_bindA [OF hoare_downloaded [where post = "operations plan"]] hoare_bindA [OF loop] rt)
      (use assms in simp_all)
qed

lemma runtime_only_create_events [simp]: "runtime_only (create_events n)"
  by (induction n) (auto intro!: runtime_only_bindA)

text \<open>The whole run.\<close>

lemma hoare_RunDecodePlanCuda:
  assumes "runtime_ok queries" "cache_ok queries cache" "Some [] \<notin> set shards" "execute_decode_plan_cpu plan shards = cpu"
  shows "hoare F (\<lambda>h. dh_shards h = shards \<and> dh_cache h = cache) (RunDecodePlanCuda queries dev fresh plan timed)
    (\<lambda>_ h. snd cpu = None \<and> dh_shards h = fst cpu \<and> cache_ok queries (dh_cache h)) (direct_failure queries F shards cpu)"
  (is "hoare F ?P _ ?Q ?E")
  unfolding RunDecodePlanCuda_def
proof (rule hoare_scope, cases "ValidatePlanShape plan")
  case (Inl e)
  then have "\<exists>m. e = InvalidArgument m" by (auto simp: ValidatePlanShape_def exn_simps split: if_splits)
  then have "?P h \<Longrightarrow> ?E e h" for h
    using Inl assms(2,4) by (auto simp: direct_failure_def execute_decode_plan_cpu_def)
  then show "hoare F ?P (bindA (liftA (ValidatePlanShape plan)) k) ?Q ?E" for k :: "unit \<Rightarrow> (DirectHost, unit) action"
    by (simp add: Inl hoare_def bindA_def liftA_def)
next
  case (Inr u)
  then have shape: "ValidatePlanShape plan = Inr ()" by simp
  have start: "runtime_only m \<Longrightarrow> hoare F ?P m (\<lambda>_. ?P) ?E" for m :: "(DirectHost, 'x) action"
    by (rule hoare_pre [OF hoare_runtime]) (simp_all add: direct_failure_def assms(2))
  obtain sc0 where sc0: "scan_slots shards = Inr sc0" "fresh_scan sc0 shards"
    using scan_slots_fresh [OF assms(3)] by blast
  have rest: "hoare F ?P (bindA (launch_plan_phase queries dev fresh plan timed) (\<lambda>_. download_phase plan timed events)) ?Q ?E" for events
  proof (cases "scan_plan plan sc0")
    case (Inl e)
    then have cpu: "snd cpu \<noteq> None" using scan_plan_iff [OF sc0(2) shape] assms(4) by auto
    show ?thesis
      unfolding launch_plan_phase_def
      by (rule hoare_bindA [where R = "\<lambda>_ _. False"], rule hoare_read [where x = shards])
        (use scan_plan_Inl [OF Inl] Inl cpu assms(2) in \<open>auto simp: sc0(1) hoare_def bindA_def liftA_def direct_failure_def\<close>)
  next
    case (Inr sc)
    from hoare_launch_phase [OF assms(1,2) sc0 Inr, of F dev fresh timed]
    obtain device' cache' where l: "hoare F ?P (launch_plan_phase queries dev fresh plan timed) (\<lambda>_. host_is shards cache' device') (untouched queries F shards)"
        "download (operations plan) device' shards = fst (execute_operations (operations plan) shards)" "cache_ok queries cache'"
      by blast
    have "snd cpu = None" using scan_plan_iff [OF sc0(2) shape] Inr assms(4) by auto
    moreover have "fst cpu = fst (execute_operations (operations plan) shards)"
      using assms(4) shape by (auto simp: execute_decode_plan_cpu_def)
    ultimately have d: "hoare F (downloaded queries device' shards []) (download_phase plan timed events)
        (\<lambda>_. downloaded queries device' shards (operations plan)) ?E" "snd cpu = None" "download (operations plan) device' shards = fst cpu"
      using hoare_download_phase [of plan device' shards cpu F queries timed events] l(2) by simp_all
    show ?thesis
      by (rule hoare_bindA [OF hoare_weaken [OF l(1)] hoare_weaken [OF d(1)]])
        (use l(3) d(2,3) untouched_failure in \<open>auto simp: host_is_def downloaded_def download_def\<close>)
  qed
  show "hoare F ?P (bindA (liftA (ValidatePlanShape plan)) (\<lambda>_.
     if operations plan = [] then retA ()
     else bindA (callA GetDevice) (\<lambda>_.
       bindA (if timed then create_events 6 else retA []) (\<lambda>events.
       bindA (launch_plan_phase queries dev fresh plan timed) (\<lambda>_. download_phase plan timed events))))) ?Q ?E"
  proof (cases "operations plan = []")
    case True
    then show ?thesis
      using shape assms(2,4) by (auto simp: execute_decode_plan_cpu_def intro!: hoare_pre [OF hoare_retA])
  next
    case False
    show ?thesis
      unfolding shape hoare_returned if_not_P [OF False]
      by (intro hoare_bindA [OF start [OF runtime_only_callA]] hoare_bindA [OF start [OF runtime_only_if]] rest) simp_all
  qed
qed

section \<open>The resources\<close>

definition is_event :: "resource \<Rightarrow> bool" where
  "is_event r \<longleftrightarrow> (\<exists>n. r = CudaEvent_handle n)"

text \<open>The plain handles \<open>R\<close> and some more events.\<close>

definition leaked :: "resource list \<Rightarrow> nat \<Rightarrow> resource list set" where
  "leaked R n = {R @ events |events. length events \<le> n \<and> (\<forall>r\<in>set events. is_event r)}"

lemma tidy_mono: "tidy F K B M S w \<Longrightarrow> M \<subseteq> M' \<Longrightarrow> S \<subseteq> S' \<Longrightarrow> tidy F K B M' S' w"
  unfolding tidy_def by blast

lemma leakedI: "\<forall>r\<in>set events. is_event r \<Longrightarrow> length events \<le> n \<Longrightarrow> {R @ events} \<subseteq> leaked R n"
  by (auto simp: leaked_def)

lemma leaked_snoc: "is_event r \<Longrightarrow> leaked (R @ [r]) n \<subseteq> leaked R (Suc n)"
  by (fastforce simp: leaked_def)

lemma account_create_events:
  "account (tidy F K B M {R}) (create_events n :: ('h, resource list) action) (\<lambda>events w. tidy F K B M {R @ events} w \<and> length events = n \<and> (\<forall>r\<in>set events. is_event r))
    (tidy F K B M (leaked R n))"
proof (induction n arbitrary: R)
  case 0
  then show ?case by (auto simp: account_def retA_def)
next
  case (Suc n)
  show ?case
    unfolding create_events.simps
  proof (rule account_bindA)
    show "account (tidy F K B M {R}) (acquire_raw EventCreate CudaEvent_handle :: ('h, resource) action)
        (\<lambda>r w. tidy F K B M {R @ [r]} w \<and> is_event r) (tidy F K B M (leaked R (Suc n)))"
      by (rule account_weaken [OF account_acquire_raw]) (auto simp: is_event_def elim: tidy_mono intro: leakedI [of "[]", simplified])
    fix r
    show "account (\<lambda>w :: 'h World. tidy F K B M {R @ [r]} w \<and> is_event r) (bindA (create_events n) (\<lambda>events. retA (r # events)))
        (\<lambda>events w. tidy F K B M {R @ events} w \<and> length events = Suc n \<and> (\<forall>r\<in>set events. is_event r)) (tidy F K B M (leaked R (Suc n)))"
    proof (cases "is_event r")
      case True
      show ?thesis
      proof (rule account_bindA)
        show "account (\<lambda>w. tidy F K B M {R @ [r]} w \<and> is_event r) (create_events n :: ('h, resource list) action)
            (\<lambda>events w. tidy F K B M {R @ r # events} w \<and> length events = n \<and> (\<forall>r\<in>set events. is_event r)) (tidy F K B M (leaked R (Suc n)))"
          by (rule account_weaken [OF Suc.IH [of "R @ [r]"]]) (use True in \<open>auto elim!: tidy_mono intro: subsetD [OF leaked_snoc]\<close>)
      qed (use True in \<open>simp add: account_def retA_def\<close>)
    qed (simp add: account_def)
  qed
qed

lemma account_release_events:
  "\<forall>r\<in>set events. is_event r \<Longrightarrow>
    account (tidy F K B M {R @ events}) (forA (release_raw EventDestroy) events) (\<lambda>_. tidy F K B M {R}) (tidy F K B M (leaked R (length events)))"
proof (induction events)
  case Nil
  then show ?case by (simp add: account_def retA_def)
next
  case (Cons r events)
  have "leaked R (length events) \<subseteq> leaked R (length (r # events))" by (auto simp: leaked_def)
  moreover have "{R @ r # events} \<subseteq> leaked R (length (r # events))" by (rule leakedI) (use Cons.prems in simp_all)
  ultimately show ?case
    using Cons by (simp only: forA.simps) (rule account_bindA [OF account_weaken [OF account_release_raw] account_weaken [OF Cons.IH]],
        auto elim: tidy_mono)
qed

lemmas direct_steps = timed_only_def allocate_shard_def upload_shard_def upload_metadata_def launch_one_def download_one_def

lemma keeps_case_prod [account_rules]: "(\<And>a b. keeps I (f a b)) \<Longrightarrow> keeps I (case x of (a, b) \<Rightarrow> f a b)"
  by (cases x) simp

lemma keeps_launch_plan_phase: "keeps (tidy F K B M S) (launch_plan_phase queries dev fresh plan timed)"
  unfolding launch_plan_phase_def direct_steps by (intro account_rules)

lemma keeps_read_timings: "keeps (tidy F K B M S) read_timings"
  unfolding read_timings_def by (intro account_rules)

lemma account_download_phase:
  assumes "\<forall>r\<in>set events. is_event r" "length events = (if timed then 6 else 0)"
  shows "account (tidy F K B M {R @ events}) (download_phase plan timed events) (\<lambda>_. tidy F K B M {R}) (tidy F K B M (leaked R (if timed then 6 else 0)))"
proof -
  have keep: "keeps (tidy F K B M {R @ events}) m \<Longrightarrow>
      account (tidy F K B M {R @ events}) m (\<lambda>_. tidy F K B M {R @ events}) (tidy F K B M (leaked R (if timed then 6 else 0)))" for m :: "(DirectHost, unit) action"
    by (erule account_weaken) (use assms in \<open>auto elim!: tidy_mono intro: leakedI [THEN subsetD]\<close>)
  have last: "account (tidy F K B M {R @ events}) (timed_only timed (bindA read_timings (\<lambda>_. forA (release_raw EventDestroy) events)))
      (\<lambda>_. tidy F K B M {R}) (tidy F K B M (leaked R (if timed then 6 else 0)))"
  proof (cases timed)
    case True
    then show ?thesis
      using account_bindA [OF keep [OF keeps_read_timings] account_release_events [OF assms(1), unfolded assms(2)]]
      by (simp add: timed_only_def)
  next
    case False
    then show ?thesis using assms by (auto simp: timed_only_def account_def retA_def)
  qed
  show ?thesis
    unfolding download_phase_def
    by (intro account_bindA [OF keep] last) (unfold direct_steps, (intro account_rules)+)
qed

text \<open>The books of a run.\<close>

lemma account_RunDecodePlanCuda:
  "account (\<lambda>w. tidy F K B M {R} w \<and> wd_locals w = L) (RunDecodePlanCuda queries dev fresh plan timed)
    (\<lambda>_ w. tidy F K B M {R} w \<and> wd_locals w = L) (\<lambda>w. tidy F K B M (leaked R (if timed then 6 else 0)) w \<and> wd_locals w = L)"
  unfolding RunDecodePlanCuda_def
proof (rule account_scope)
  fix B
  let ?X = "tidy F K B M (leaked R (if timed then 6 else 0)) :: DirectHost World \<Rightarrow> bool"
  have sub: "tidy F K B M {R} w \<Longrightarrow> ?X w" for w :: "DirectHost World"
    by (erule tidy_mono) (simp_all add: leakedI [of "[]", simplified])
  have keep: "keeps (tidy F K B M {R}) m \<Longrightarrow> account (tidy F K B M {R}) m (\<lambda>_. tidy F K B M {R}) ?X" for m :: "(DirectHost, 'x) action"
    by (erule account_weaken) (simp_all add: sub)
  have events: "account (tidy F K B M {R}) (if timed then create_events 6 else retA [])
      (\<lambda>events w. tidy F K B M {R @ events} w \<and> length events = (if timed then 6 else 0) \<and> (\<forall>r\<in>set events. is_event r)) ?X"
  proof (cases timed)
    case True
    then show ?thesis using account_create_events [of F K B M R 6] by simp
  next
    case False
    then show ?thesis using sub by (simp add: account_def retA_def)
  qed
  have rest: "account (\<lambda>w. tidy F K B M {R @ events} w \<and> length events = (if timed then 6 else 0) \<and> (\<forall>r\<in>set events. is_event r))
      (bindA (launch_plan_phase queries dev fresh plan timed) (\<lambda>_. download_phase plan timed events)) (\<lambda>_. tidy F K B M {R}) ?X" for events
  proof (cases "length events = (if timed then 6 else 0) \<and> (\<forall>r\<in>set events. is_event r)")
    case True
    have "account (tidy F K B M {R @ events}) (launch_plan_phase queries dev fresh plan timed) (\<lambda>_. tidy F K B M {R @ events}) ?X"
      by (rule account_weaken [OF keeps_launch_plan_phase [of F K B M "{R @ events}"]])
        (use True in \<open>auto elim!: tidy_mono intro: leakedI [THEN subsetD]\<close>)
    then have "account (tidy F K B M {R @ events}) (bindA (launch_plan_phase queries dev fresh plan timed) (\<lambda>_. download_phase plan timed events))
        (\<lambda>_. tidy F K B M {R}) ?X"
      by (rule account_bindA) (use True in \<open>simp_all add: account_download_phase\<close>)
    then show ?thesis by (rule account_weaken) simp_all
  next
    case False
    then show ?thesis by (simp only: account_def) blast
  qed
  show "account (tidy F K B M {R}) (bindA (liftA (ValidatePlanShape plan)) (\<lambda>_. if operations plan = [] then retA ()
      else bindA (callA GetDevice) (\<lambda>_. bindA (if timed then create_events 6 else retA []) (\<lambda>events.
        bindA (launch_plan_phase queries dev fresh plan timed) (\<lambda>_. download_phase plan timed events)))))
      (\<lambda>_. tidy F K B M {R}) ?X"
  proof (cases "operations plan = []")
    case True
    show ?thesis unfolding if_P [OF True] by (intro account_bindA [OF keep] keep account_rules)
  next
    case False
    show ?thesis unfolding if_not_P [OF False] by (intro account_bindA [OF keep] account_bindA [OF events] rest account_rules)
  qed
qed

section \<open>Failures that are not handled\<close>

definition no_faults :: "(cuda_api \<Rightarrow> nat \<Rightarrow> bool) \<Rightarrow> bool" where
  "no_faults F \<longleftrightarrow> (\<forall>api n. \<not> F api n)"

lemma create_events_ok:
  fixes w :: "'h World"
  assumes "no_faults (wd_faults w)"
  shows "\<exists>w'. create_events n w = (Done (map CudaEvent_handle [wd_next w..<wd_next w + n]), w') \<and>
    wd_live w' = wd_live w \<union> CudaEvent_handle ` {wd_next w..<wd_next w + n} \<and> wd_host w' = wd_host w \<and> wd_locals w' = wd_locals w"
  using assms
proof (induction n arbitrary: w)
  case 0
  then show ?case by (simp add: retA_def)
next
  case (Suc n)
  let ?r = "CudaEvent_handle (wd_next w)"
  let ?w = "w\<lparr>wd_calls := wd_calls w + 1, wd_live := insert ?r (wd_live w), wd_next := wd_next w + 1, wd_raw := wd_raw w @ [?r]\<rparr>"
  have a: "acquire_raw EventCreate CudaEvent_handle w = (Done ?r, ?w)"
    using Suc.prems by (simp add: acquire_raw_def bindA_def callA_def Let_def no_faults_def)
  obtain w' where w': "create_events n ?w = (Done (map CudaEvent_handle [wd_next ?w..<wd_next ?w + n]), w')"
      "wd_live w' = wd_live ?w \<union> CudaEvent_handle ` {wd_next ?w..<wd_next ?w + n}" "wd_host w' = wd_host ?w" "wd_locals w' = wd_locals ?w"
    using Suc.IH [of ?w] Suc.prems by auto
  have "{wd_next w..<wd_next w + Suc n} = insert (wd_next w) {wd_next ?w..<wd_next ?w + n}" by auto
  then show ?case using a w' by (auto simp: retA_def upt_conv_Cons)
qed

text \<open>A buffer is among the local objects.\<close>

definition has_buffer :: "'h World \<Rightarrow> bool" where
  "has_buffer w \<longleftrightarrow> (\<exists>k. DeviceBuffer k \<in> set (wd_locals w))"

text \<open>Nothing fails but what may fail after the allocations.\<close>

definition late_faults :: "(cuda_api \<Rightarrow> nat \<Rightarrow> bool) \<Rightarrow> bool" where
  "late_faults F \<longleftrightarrow> (\<forall>n. F Free n) \<and> (\<forall>n. \<not> F GetDevice n \<and> \<not> F EventCreate n \<and> \<not> F Malloc n)"

definition late :: "(cuda_api \<Rightarrow> nat \<Rightarrow> bool) \<Rightarrow> ShardSlots \<Rightarrow> DirectHost World \<Rightarrow> bool" where
  "late F shards w \<longleftrightarrow> wd_faults w = F \<and> dh_shards (wd_host w) = shards"

definition buffered :: "(cuda_api \<Rightarrow> nat \<Rightarrow> bool) \<Rightarrow> 'h World \<Rightarrow> bool" where
  "buffered F w \<longleftrightarrow> wd_faults w = F \<and> has_buffer w"

named_theorems buffered_rules \<open>actions that keep a local buffer\<close>

lemma buffered_basic [buffered_rules]:
  "keeps (buffered F) (hostA f)" "keeps (buffered F) (modifyA g)" "keeps (buffered F) (callA api)" "keeps (buffered F) (retA x)"
  "keeps (buffered F) (liftR r)" "keeps (buffered F) AllocateDeviceBuffer" "keeps (buffered F) ElapsedTime" "keeps (buffered F) (release_raw api e)"
  by (auto simp: account_def buffered_def has_buffer_def hostA_def modifyA_def callA_def retA_def liftR_def liftA_def ElapsedTime_def
      AllocateDeviceBuffer_def acquire_local_def release_raw_def release_def bindA_def Let_def split: option.split sum.split)

lemmas buffered_steps = buffered_rules keeps_bindA keeps_forA keeps_if keeps_case_prod

lemma buffered_download_phase: "keeps (buffered F) (download_phase plan timed events)"
  unfolding download_phase_def read_timings_def direct_steps by (intro buffered_steps)

lemma allocate_loop_buffers:
  assumes "late_faults F" "late F shards w"
  shows "\<exists>w'. forA (allocate_shard fresh sc) ids w = (Done (), w') \<and> late F shards w' \<and>
    (has_buffer w \<or> (\<exists>i\<in>set ids. required_shards sc ! i) \<longrightarrow> has_buffer w')"
  using assms(2)
proof (induction ids arbitrary: w)
  case Nil
  then show ?case by (simp add: retA_def)
next
  case (Cons i ids)
  have "\<exists>w'. allocate_shard fresh sc i w = (Done (), w') \<and> late F shards w' \<and>
      (has_buffer w \<or> required_shards sc ! i \<longrightarrow> has_buffer w')"
    using Cons.prems assms(1) by (auto simp: allocate_shard_def AllocateDeviceBuffer_def acquire_local_def bindA_def callA_def Let_def retA_def
        modifyA_def late_def late_faults_def has_buffer_def)
  then obtain w1 where w1: "allocate_shard fresh sc i w = (Done (), w1)" "late F shards w1"
      "has_buffer w \<or> required_shards sc ! i \<longrightarrow> has_buffer w1" by blast
  show ?case using Cons.IH [OF w1(2)] w1 by auto
qed

text \<open>Whatever follows the allocations of an accepted plan leaves a buffer to destroy.\<close>

lemma account_launch_plan_phase:
  assumes "late_faults F" "scan_slots shards = Inr sc0" "fresh_scan sc0 shards" "scan_plan plan sc0 = Inr sc" "operations plan \<noteq> []"
  shows "account (late F shards) (launch_plan_phase queries dev fresh plan timed) (\<lambda>_. buffered F) (buffered F)"
proof (rule accountI)
  fix w
  assume w: "late F shards w"
  let ?w = "w\<lparr>wd_host := (wd_host w)\<lparr>dh_device := replicate (length shards) None\<rparr>\<rparr>"
  obtain final where s: "execute_operations (operations plan) shards = (final, None)"
      "\<forall>op\<in>set (operations plan). required_shards sc ! unat (xo_output op)" "length final = length shards"
    by (rule scan_complete [OF assms(3,4)])
  let ?op = "hd (operations plan)"
  have "slot final (xo_output ?op) \<noteq> None" using execute_operations_outputs [OF s(1)] assms(5) by simp
  then have "unat (xo_output ?op) < length shards" using s(3) by (auto simp: slot_def split: if_splits)
  then have "\<exists>i\<in>set [0..<length shards]. required_shards sc ! i"
    using s(2) assms(5) by (intro bexI [of _ "unat (xo_output ?op)"]) simp_all
  moreover have "late F shards ?w" using w by (simp add: late_def)
  ultimately obtain w1 where w1: "forA (allocate_shard fresh sc) [0..<length shards] ?w = (Done (), w1)" "late F shards w1" "has_buffer w1"
    using allocate_loop_buffers [OF assms(1), of shards ?w fresh sc "[0..<length shards]"] by blast
  have "keeps (buffered F) (bindA (timed_only timed (callA EventRecord)) (\<lambda>_.
     bindA (forA (upload_shard sc shards) [0..<length shards]) (\<lambda>_.
     bindA upload_metadata (\<lambda>_.
     bindA upload_metadata (\<lambda>_.
     bindA (timed_only timed (bindA (callA EventRecord) (\<lambda>_. callA EventRecord))) (\<lambda>_.
     forA (launch_one queries dev sc) (List.enumerate 0 (operations plan))))))))"
    unfolding direct_steps by (intro buffered_steps)
  from accountD [OF this, of w1] w1(2,3) show "settles (\<lambda>_. buffered F) (buffered F) (launch_plan_phase queries dev fresh plan timed w)"
    using w assms(2,4) w1(1)
    by (simp add: launch_plan_phase_def bindA_def hostA_def liftA_def modifyA_def late_def buffered_def)
qed

section \<open>Properties\<close>

text \<open>A world for the witnesses: no resource is live, and the given calls fail.\<close>

definition example_world :: "(cuda_api \<Rightarrow> nat \<Rightarrow> bool) \<Rightarrow> 'h \<Rightarrow> 'h World" where
  "example_world F h = \<lparr>wd_host = h, wd_faults = F, wd_elapsed = (\<lambda>_. 1), wd_calls = 0, wd_live = {}, wd_next = 0,
     wd_locals = [], wd_members = [], wd_raw = [], wd_misused = False\<rparr>"

definition example_direct :: DirectHost where
  "example_direct = \<lparr>dh_shards = [None, None, Some [4, 4], Some [6, 0], Some [7, 5]], dh_device = [], dh_cache = [],
     dh_timings = \<lparr>h2d_ms = 0, kernel_ms = 0, d2h_ms = 0\<rparr>\<rparr>"

lemma RunDecodePlanCuda_ends:
  assumes "runtime_ok queries" "cache_ok queries (dh_cache (wd_host w))" "Some [] \<notin> set (dh_shards (wd_host w))"
  shows "ends (wd_faults w) (\<lambda>_ h. snd (execute_decode_plan_cpu plan (dh_shards (wd_host w))) = None \<and>
      dh_shards h = fst (execute_decode_plan_cpu plan (dh_shards (wd_host w))) \<and> cache_ok queries (dh_cache h))
    (direct_failure queries (wd_faults w) (dh_shards (wd_host w)) (execute_decode_plan_cpu plan (dh_shards (wd_host w))))
    (RunDecodePlanCuda queries dev fresh plan timed w)"
  by (rule hoareD [OF hoare_RunDecodePlanCuda [OF assms refl] refl]) simp

text \<open>
  C4. Whatever CUDA calls fail, a GPU decode ends, and in one of three ways. It returns, and the slots are exactly those of
  the CPU executor. It throws: either the plan is one the CPU executor rejects too and no slot has changed, or a CUDA call
  other than \<open>cudaFree\<close> failed and every slot is untouched or holds the CPU executor's shard. Or it ends the process, and
  a \<open>cudaFree\<close> failed.
\<close>

theorem direct_decode_under_faults:
  assumes "runtime_ok queries" "cache_ok queries (dh_cache (wd_host w))" "Some [] \<notin> set shards" "dh_shards (wd_host w) = shards"
    and "execute_decode_plan_cpu plan shards = (final, failure)"
    and "RunDecodePlanCuda queries dev fresh plan timed w = (v, w')"
  shows "case v of
      Done _ \<Rightarrow> failure = None \<and> dh_shards (wd_host w') = final
    | Raised e \<Rightarrow> (\<exists>m. e = InvalidArgument m) \<and> failure \<noteq> None \<and> dh_shards (wd_host w') = shards \<or>
        e = cuda_error \<and> (\<exists>api n. api \<noteq> Free \<and> wd_faults w api n) \<and>
        partly_decoded shards (if failure = None then final else shards) (dh_shards (wd_host w'))
    | Terminated \<Rightarrow> \<exists>n. wd_faults w Free n
    | Hangs \<Rightarrow> False"
  using RunDecodePlanCuda_ends [OF assms(1,2), of plan dev fresh timed] assms(3-6)
  by (cases v) (auto simp: direct_failure_def some_fault_def)

theorem direct_decode_under_faults_witness:
  "\<exists>v w'. RunDecodePlanCuda example_queries 0 (\<lambda>_ _. 77) example_plan True (example_world (\<lambda>api n. api = Memcpy \<and> n = 30) example_direct) = (v, w') \<and>
    v \<noteq> Hangs \<and> v \<noteq> Terminated"
proof -
  let ?w = "example_world (\<lambda>api n. api = Memcpy \<and> n = 30) example_direct"
  obtain v w' where run: "RunDecodePlanCuda example_queries 0 (\<lambda>_ _. 77) example_plan True ?w = (v, w')" by fastforce
  have "case v of Terminated \<Rightarrow> False | Hangs \<Rightarrow> False | _ \<Rightarrow> True"
    using direct_decode_under_faults [OF example_runtime _ _ _ example_execution run]
    by (cases v) (simp_all add: example_world_def example_direct_def cache_ok_Nil)
  then show ?thesis using run by auto
qed

text \<open>
  C37. A decode releases what it acquires: whatever calls fail, when an unprofiled run returns or throws, exactly the
  resources are live that were live before, and nothing was released twice. A profiled run that returns leaks nothing
  either; one that throws can leave its timing events behind, at most six, and nothing else.
\<close>

theorem direct_decode_releases:
  assumes "\<forall>r\<in>wd_live w. handle r < wd_next w" "wd_locals w = []" "wd_members w = []" "wd_raw w = []" "\<not> wd_misused w"
    and "RunDecodePlanCuda queries dev fresh plan timed w = (v, w')" "v = Done () \<or> v = Raised e"
  shows "\<not> wd_misused w' \<and> (\<exists>events. wd_live w' = wd_live w \<union> set events \<and> set events \<inter> wd_live w = {} \<and>
    (\<forall>r\<in>set events. is_event r) \<and> length events \<le> (if timed \<and> v \<noteq> Done () then 6 else 0))"
proof -
  have w: "tidy (wd_faults w) {} (wd_live w) {[]} {[]} w \<and> wd_locals w = []"
    using tidy_new [OF assms(1-5)] assms(2) by simp
  from accountD [OF account_RunDecodePlanCuda [of _ _ _ _ _ _ queries dev fresh plan timed] w] assms(6,7)
  have closed: "wd_locals w' = [] \<and> tidy (wd_faults w) {} (wd_live w) {[]} (leaked [] (if timed \<and> v \<noteq> Done () then 6 else 0)) w'"
    by (auto elim!: tidy_mono intro: leakedI [of "[]", simplified])
  then obtain events where "wd_raw w' = events" "length events \<le> (if timed \<and> v \<noteq> Done () then 6 else 0)" "\<forall>r\<in>set events. is_event r"
    by (auto simp: tidy_def leaked_def)
  then show ?thesis using closed tidy_exact [OF conjunct2 [OF closed]] unfolding tidy_def owned_def by auto
qed

theorem direct_decode_releases_witness:
  "\<exists>v w'. RunDecodePlanCuda example_queries 0 (\<lambda>_ _. 77) example_plan False (example_world (\<lambda>api n. api = Memcpy \<and> n = 12) example_direct) = (v, w') \<and>
    wd_live w' = {}"
proof -
  let ?w = "example_world (\<lambda>api n. api = Memcpy \<and> n = 12) example_direct"
  obtain v w' where run: "RunDecodePlanCuda example_queries 0 (\<lambda>_ _. 77) example_plan False ?w = (v, w')" by fastforce
  have "v \<noteq> Terminated" "v \<noteq> Hangs"
    using RunDecodePlanCuda_ends [OF example_runtime, of ?w example_plan 0 "\<lambda>_ _. 77" False] run
    by (auto simp: example_world_def example_direct_def cache_ok_Nil)
  then obtain e where "v = Done () \<or> v = Raised e" by (cases v) auto
  from direct_decode_releases [OF _ _ _ _ _ run this] run show ?thesis by (auto simp: example_world_def)
qed

text \<open>
  A profiled decode leaks its timing events when the plan is rejected: with every call succeeding, a plan whose shape
  is valid and that the CPU executor rejects makes the run throw and leave six events behind, which nothing can release
  any more.
\<close>

theorem profiled_rejection_leaks_events:
  assumes "no_faults (wd_faults w)" "dh_shards (wd_host w) = shards" "Some [] \<notin> set shards"
    and "ValidatePlanShape plan = Inr ()" "operations plan \<noteq> []" "snd (execute_decode_plan_cpu plan shards) \<noteq> None"
  shows "\<exists>m w'. run_decode_plan_cuda_profiled queries dev fresh plan w = (Raised (InvalidArgument m), w') \<and>
    wd_live w' = wd_live w \<union> CudaEvent_handle ` {wd_next w..<wd_next w + 6}"
proof -
  obtain sc0 where sc0: "scan_slots shards = Inr sc0" "fresh_scan sc0 shards"
    using scan_slots_fresh [OF assms(3)] by blast
  obtain m where m: "scan_plan plan sc0 = Inl (InvalidArgument m)"
    using scan_plan_iff [OF sc0(2) assms(4)] assms(6) scan_plan_Inl [of plan sc0] by (cases "scan_plan plan sc0") auto
  let ?w0 = "w\<lparr>wd_host := (wd_host w)\<lparr>dh_timings := \<lparr>h2d_ms = 0, kernel_ms = 0, d2h_ms = 0\<rparr>\<rparr>, wd_locals := [], wd_calls := wd_calls w + 1\<rparr>"
  obtain w1 where w1: "create_events 6 ?w0 = (Done (map CudaEvent_handle [wd_next ?w0..<wd_next ?w0 + 6]), w1)"
      "wd_live w1 = wd_live w \<union> CudaEvent_handle ` {wd_next w..<wd_next w + 6}" "wd_host w1 = wd_host ?w0" "wd_locals w1 = []"
    using create_events_ok [of ?w0 6] assms(1) by auto
  have "RunDecodePlanCuda queries dev fresh plan True (w\<lparr>wd_host := (wd_host w)\<lparr>dh_timings := \<lparr>h2d_ms = 0, kernel_ms = 0, d2h_ms = 0\<rparr>\<rparr>\<rparr>)
      = leave (wd_locals w) (Raised (InvalidArgument m), w1)"
    using assms(1,2,4,5) w1 sc0(1) m
    by (simp add: RunDecodePlanCuda_def scope_def bindA_def liftA_def callA_def no_faults_def launch_plan_phase_def hostA_def)
  moreover have "leave (wd_locals w) (Raised (InvalidArgument m), w1) = (Raised (InvalidArgument m), w1\<lparr>wd_locals := wd_locals w\<rparr>)"
    using w1(4) by (simp add: leave_def destructor_def retA_def)
  ultimately have "run_decode_plan_cuda_profiled queries dev fresh plan w = (Raised (InvalidArgument m), w1\<lparr>wd_locals := wd_locals w\<rparr>)"
    by (simp only: run_decode_plan_cuda_profiled_def bindA_def modifyA_def prod.case outcome.case)
  then show ?thesis using w1(2) by simp
qed

text \<open>A plan whose only source is missing.\<close>

definition unavailable_plan :: DecodePlan where
  "unavailable_plan = \<lparr>operations = [\<lparr>xo_output = 0, xo_sources = [1]\<rparr>], dependencies = [[]], is_recoverable = True\<rparr>"

theorem profiled_rejection_leaks_events_witness:
  "\<exists>m w'. run_decode_plan_cuda_profiled example_queries 0 (\<lambda>_ _. 77) unavailable_plan (example_world (\<lambda>_ _. False) example_direct)
     = (Raised (InvalidArgument m), w') \<and> wd_live w' = CudaEvent_handle ` {0..<6}"
proof -
  have "ValidatePlanShape unavailable_plan = Inr ()" "operations unavailable_plan \<noteq> []"
    "snd (execute_decode_plan_cpu unavailable_plan (dh_shards (wd_host (example_world (\<lambda>_ _. False) example_direct)))) \<noteq> None"
    by (simp_all add: unavailable_plan_def example_world_def example_direct_def execute_decode_plan_cpu_def ValidatePlanShape_def
        reject_any_def execute_operation_def slot_def)
  from profiled_rejection_leaks_events [OF _ refl _ this, of example_queries 0 "\<lambda>_ _. 77"]
  show ?thesis by (simp add: example_world_def no_faults_def example_direct_def)
qed

text \<open>
  C39. A failing \<open>cudaFree\<close> is never reported: \<open>CudaDeleter\<close> throws from a destructor. If \<open>cudaFree\<close> fails, as it does on a
  device that has reported an error, then whatever else fails after the buffers were allocated, and even if nothing does,
  the decode of an executable non-empty plan ends the process.
\<close>

theorem failing_free_ends_process:
  assumes "runtime_ok queries" "cache_ok queries (dh_cache (wd_host w))" "Some [] \<notin> set shards" "dh_shards (wd_host w) = shards"
    and "execute_decode_plan_cpu plan shards = (final, None)" "operations plan \<noteq> []" "late_faults (wd_faults w)"
  shows "\<exists>w'. RunDecodePlanCuda queries dev fresh plan False w = (Terminated, w')"
proof -
  have shape: "ValidatePlanShape plan = Inr ()" using assms(5) by (simp add: execute_decode_plan_cpu_ok)
  obtain sc0 where sc0: "scan_slots shards = Inr sc0" "fresh_scan sc0 shards"
    using scan_slots_fresh [OF assms(3)] by blast
  obtain sc where sc: "scan_plan plan sc0 = Inr sc" using scan_plan_iff [OF sc0(2) shape] assms(5) by auto
  let ?w = "w\<lparr>wd_locals := [], wd_calls := wd_calls w + 1\<rparr>"
  let ?rest = "bindA (launch_plan_phase queries dev fresh plan False) (\<lambda>_. download_phase plan False [])"
  obtain v w1 where r: "?rest ?w = (v, w1)" by fastforce
  have run: "RunDecodePlanCuda queries dev fresh plan False w = leave (wd_locals w) (v, w1)"
    using assms(6,7) shape r
    by (simp add: RunDecodePlanCuda_def scope_def late_faults_def bindA_def liftA_def callA_def retA_def)
  have "late (wd_faults w) shards ?w" using assms(4) by (simp add: late_def)
  moreover have "account (late (wd_faults w) shards) ?rest (\<lambda>_. buffered (wd_faults w)) (buffered (wd_faults w))"
    by (rule account_bindA [OF account_launch_plan_phase [OF assms(7) sc0 sc assms(6)] buffered_download_phase])
  ultimately have settled: "settles (\<lambda>_. buffered (wd_faults w)) (buffered (wd_faults w)) (v, w1)"
    unfolding r [symmetric] by (rule accountD [rotated])
  have "v \<noteq> Hangs"
    using RunDecodePlanCuda_ends [OF assms(1,2), of plan dev fresh False] assms(3,4) run by (auto simp: leave_def)
  then show ?thesis
  proof (cases "v = Terminated")
    case False
    then have "buffered (wd_faults w) w1" using settled \<open>v \<noteq> Hangs\<close> by (cases v) simp_all
    then obtain k where "\<forall>n. wd_faults (w1\<lparr>wd_locals := wd_locals w\<rparr>) Free n" "DeviceBuffer k \<in> set (wd_locals w1)"
      using assms(7) by (auto simp: buffered_def has_buffer_def late_faults_def)
    from destroy_buffer_throws [OF this] show ?thesis
      using False \<open>v \<noteq> Hangs\<close> run by (auto simp: leave_def)
  qed (use run in \<open>simp add: leave_def\<close>)
qed

theorem failing_free_ends_process_witness:
  "\<exists>w'. RunDecodePlanCuda example_queries 0 (\<lambda>_ _. 77) example_plan False (example_world (\<lambda>api _. api = Free \<or> api = Synchronize) example_direct)
     = (Terminated, w')"
proof -
  have "operations example_plan \<noteq> []" by (simp add: example_plan_def)
  from failing_free_ends_process [OF example_runtime _ _ _ example_execution this, of "example_world (\<lambda>api _. api = Free \<or> api = Synchronize) example_direct"]
  show ?thesis by (simp add: example_world_def example_direct_def late_faults_def cache_ok_Nil)
qed

end
