(* ===== verification/CudaStaging.thy ===== *)
theory CudaStaging imports CudaDirect begin

text \<open>
  The staging context of \<open>kernels/sparse_decoder.cu\<close>, call by call: every CUDA call can fail, the buffers, the stream and the
  events of the transfers are members of the context, and the context is destroyed at the end. The scan and the
  effect of a launch are those of \<open>CudaDecode\<close>; an asynchronous copy counts as done when it is enqueued, because the
  stream is in order and is synchronised before anything it wrote is used.

  The theorems say that a staged decode is all or nothing for the slots of the caller, that a context that is used in any
  way and then destroyed leaves nothing behind but what cannot be destroyed, and what a failed upload does to the later decode.
\<close>

section \<open>The operations\<close>

record StagingHost =
  sh_ctx :: DeviceShardStagingContext
  sh_transfers :: nat
  sh_shards :: ShardSlots
  sh_cache :: config_cache
  sh_timings :: CudaDecodeTimings

text \<open>A buffer that a member of the context owns.\<close>

definition assign_buffer :: "member \<Rightarrow> ('h, unit) action" where
  "assign_buffer k = bindA AllocateDeviceBuffer (\<lambda>_. move_to_member k)"

text \<open>\<open>~Impl\<close>, and the destructors of the members.\<close>

definition destroy_staging_context :: "('h, unit) action" where
  "destroy_staging_context =
     bindA (ignoring (callA SetDevice)) (\<lambda>_.
     bindA (ignoring (callA Synchronize)) (\<lambda>_.
     bindA (destroy_members (\<lambda>k. k = Stream_member)) (\<lambda>_.
     destroy_members (\<lambda>_. True))))"

definition create_staging_context :: "int \<Rightarrow> nat \<Rightarrow> (StagingHost, unit) action" where
  "create_staging_context device_id shard_count =
     bindA (liftA (create_device_shard_staging_context_cuda device_id shard_count)) (\<lambda>ctx.
     on_exception
       (bindA (callA GetDevice) (\<lambda>_.
        bindA (acquire_local StreamCreate CudaStream_handle) (\<lambda>_.
        bindA (move_to_member Stream_member) (\<lambda>_.
        modifyA (\<lambda>h. h\<lparr>sh_ctx := ctx, sh_transfers := 0\<rparr>)))))
       (ignoring (callA SetDevice)))"

definition stage_shard ::
  "(nat \<Rightarrow> nat \<Rightarrow> ShardWord) \<Rightarrow> ShardId \<Rightarrow> WordShard \<Rightarrow> (StagingHost, unit) action" where
  "stage_shard fresh shard_id shard = scope (
     bindA (hostA sh_ctx) (\<lambda>ctx.
     bindA (liftA (stage_decode_shard_cuda shard_id shard ctx)) (\<lambda>_.
     bindA (callA SetDevice) (\<lambda>_.
     bindA (modifyA (\<lambda>h. h\<lparr>sh_ctx := (sh_ctx h)
       \<lparr>sg_staged_shards := (sg_staged_shards ctx)[unat shard_id := Some shard],
        sg_word_counts := (sg_word_counts ctx)[unat shard_id := Some (length shard)]\<rparr>\<rparr>)) (\<lambda>_.
     bindA (assign_buffer (Shard_member (unat shard_id))) (\<lambda>_.
     bindA (modifyA (\<lambda>h. h\<lparr>sh_ctx := (sh_ctx h)
       \<lparr>sg_device_shards := (sg_device_shards ctx)[unat shard_id := Some (map (fresh (unat shard_id)) [0..<length shard])]\<rparr>\<rparr>)) (\<lambda>_.
     bindA CudaEvent_Create (\<lambda>_.
     bindA CudaEvent_Create (\<lambda>_.
     bindA CudaEvent_Record (\<lambda>_.
     bindA (callA Memcpy) (\<lambda>_.
     bindA (modifyA (\<lambda>h. h\<lparr>sh_ctx := (sh_ctx h)
       \<lparr>sg_device_shards := (sg_device_shards ctx)[unat shard_id := Some shard]\<rparr>\<rparr>)) (\<lambda>_.
     bindA CudaEvent_Record (\<lambda>_.
     bindA push_transfer (\<lambda>_.
     modifyA (\<lambda>h. h\<lparr>sh_transfers := sh_transfers h + 1\<rparr>)))))))))))))))"

definition synchronize_staged_shard_uploads :: "('h, unit) action" where
  "synchronize_staged_shard_uploads = bindA (callA SetDevice) (\<lambda>_. callA Synchronize)"

definition allocate_missing :: "(nat \<Rightarrow> nat \<Rightarrow> ShardWord) \<Rightarrow> ScanState \<Rightarrow> nat \<Rightarrow> (StagingHost, unit) action" where
  "allocate_missing fresh sc i =
     bindA (hostA (\<lambda>h. sg_device_shards (sh_ctx h) ! i)) (\<lambda>device_shard.
     if required_shards sc ! i \<and> device_shard = None
     then bindA (assign_buffer (Shard_member i)) (\<lambda>_. modifyA (\<lambda>h. h\<lparr>sh_ctx := (sh_ctx h)\<lparr>sg_device_shards :=
            (sg_device_shards (sh_ctx h))[i := Some (map (fresh i) [0..<the (word_counts sc ! i)])]\<rparr>\<rparr>))
     else retA ())"

definition upload_member :: "member \<Rightarrow> ('h, unit) action" where
  "upload_member k = bindA (assign_buffer k) (\<lambda>_. callA Memcpy)"

definition launch_staged ::
  "(int \<Rightarrow> KernelId \<Rightarrow> DeviceQueries) \<Rightarrow> ScanState \<Rightarrow> nat \<times> XorOperation \<Rightarrow> (StagingHost, unit) action" where
  "launch_staged queries sc iop =
     bindA (hostA (\<lambda>h. map_of (sh_cache h) (sg_device_id (sh_ctx h), xor_kernel_id (length (xo_sources (snd iop)))))) (\<lambda>cached.
     bindA (if cached = None then callA LaunchConfig else retA ()) (\<lambda>_.
     bindA (hostA (\<lambda>h. launch_operation queries (sg_device_id (sh_ctx h)) sc iop (sg_device_shards (sh_ctx h), sh_cache h))) (\<lambda>r.
     bindA (liftR r) (\<lambda>(device, cache).
     bindA (modifyA (\<lambda>h. h\<lparr>sh_ctx := (sh_ctx h)\<lparr>sg_device_shards := device\<rparr>, sh_cache := cache\<rparr>)) (\<lambda>_.
     callA LastError)))))"

text \<open>
  One more staged transfer is added to \<open>timings.h2d_ms\<close>. The measured times are arbitrary and nothing else reads them, so a sum
  that \<open>float\<close> rounds is the exact sum of other measured times.
\<close>

definition add_transfer_time :: "nat \<Rightarrow> (StagingHost, unit) action" where
  "add_transfer_time _ = bindA ElapsedTime (\<lambda>t. modifyA (\<lambda>h. h\<lparr>sh_timings := (sh_timings h)\<lparr>h2d_ms := h2d_ms (sh_timings h) + t\<rparr>\<rparr>))"

definition read_staged_timings :: "(StagingHost, unit) action" where
  "read_staged_timings =
     bindA (modifyA (\<lambda>h. h\<lparr>sh_timings := \<lparr>h2d_ms = 0, kernel_ms = 0, d2h_ms = 0\<rparr>\<rparr>)) (\<lambda>_.
     bindA (hostA sh_transfers) (\<lambda>transfers.
     bindA (forA add_transfer_time [0..<transfers]) (\<lambda>_.
     bindA (destroy_members (\<lambda>k. k = Transfer_member)) (\<lambda>_.
     bindA (modifyA (\<lambda>h. h\<lparr>sh_transfers := 0\<rparr>)) (\<lambda>_.
     bindA ElapsedTime (\<lambda>t. bindA (modifyA (\<lambda>h. h\<lparr>sh_timings := (sh_timings h)\<lparr>kernel_ms := t\<rparr>\<rparr>)) (\<lambda>_.
     bindA ElapsedTime (\<lambda>t. modifyA (\<lambda>h. h\<lparr>sh_timings := (sh_timings h)\<lparr>d2h_ms := t\<rparr>\<rparr>)))))))))"

text \<open>The checks and the scan of \<open>run_staged_decode_plan_cuda\<close>, around \<open>cudaSetDevice\<close>.\<close>

definition check_staged :: "DecodePlan \<Rightarrow> ShardSlots \<Rightarrow> DeviceShardStagingContext \<Rightarrow> unit result" where
  "check_staged plan shards ctx =
     (if sg_finalized ctx then Inl (LogicError ''Staged decode context has already executed a plan'')
      else if length shards \<noteq> length (sg_device_shards ctx)
      then Inl (InvalidArgument ''Destination shard slots must match the staged context'')
      else ValidatePlanShape plan)"

definition scan_staged :: "DecodePlan \<Rightarrow> ShardSlots \<Rightarrow> DeviceShardStagingContext \<Rightarrow> ScanState result" where
  "scan_staged plan shards ctx =
     (if sg_staged_shards ctx \<noteq> shards
      then Inl (InvalidArgument ''Staged shards must match the supplied host shard slots'')
      else scan_plan plan
        \<lparr>word_counts = sg_word_counts ctx, available_shards = map (\<lambda>c. c \<noteq> None) (sg_word_counts ctx),
         required_shards = replicate (length (sg_device_shards ctx)) False,
         flattened_sources = [], source_offsets = []\<rparr>)"

text \<open>From the buffers to the last launch.\<close>

definition launch_staged_phase ::
  "(int \<Rightarrow> KernelId \<Rightarrow> DeviceQueries) \<Rightarrow> (nat \<Rightarrow> nat \<Rightarrow> ShardWord) \<Rightarrow> DecodePlan \<Rightarrow> ScanState \<Rightarrow> nat \<Rightarrow> (StagingHost, unit) action" where
  "launch_staged_phase queries fresh plan sc n =
     bindA (forA (allocate_missing fresh sc) [0..<n]) (\<lambda>_.
     bindA (if operations plan = [] then retA ()
            else bindA (upload_member Table_member) (\<lambda>_. upload_member SourceIds_member)) (\<lambda>_.
     bindA (modifyA (\<lambda>h. h\<lparr>sh_ctx := (sh_ctx h)\<lparr>sg_word_counts := word_counts sc, sg_plan := plan,
              sg_source_offsets := source_offsets sc, sg_finalized := True\<rparr>\<rparr>)) (\<lambda>_.
     bindA CudaEvent_Create (\<lambda>_. bindA CudaEvent_Create (\<lambda>_. bindA CudaEvent_Create (\<lambda>_. bindA CudaEvent_Create (\<lambda>_.
     bindA CudaEvent_Record (\<lambda>_.
     bindA (forA (launch_staged queries sc) (List.enumerate 0 (operations plan))) (\<lambda>_.
     CudaEvent_Record)))))))))"

text \<open>From the download to the end.\<close>

definition download_staged_phase :: "DecodePlan \<Rightarrow> (StagingHost, unit) action" where
  "download_staged_phase plan =
     bindA CudaEvent_Record (\<lambda>_.
     bindA (forA (\<lambda>_. callA Memcpy) (operations plan)) (\<lambda>_.
     bindA CudaEvent_Record (\<lambda>_.
     bindA (callA Synchronize) (\<lambda>_.
     bindA (hostA (\<lambda>h. sg_device_shards (sh_ctx h))) (\<lambda>device.
     bindA read_staged_timings (\<lambda>_.
     modifyA (\<lambda>h. h\<lparr>sh_shards := download (operations plan) device (sh_shards h),
       sh_ctx := (sh_ctx h)\<lparr>sg_staged_shards := []\<rparr>\<rparr>)))))))"

definition run_staged ::
  "(int \<Rightarrow> KernelId \<Rightarrow> DeviceQueries) \<Rightarrow> (nat \<Rightarrow> nat \<Rightarrow> ShardWord) \<Rightarrow> DecodePlan \<Rightarrow> (StagingHost, unit) action" where
  "run_staged queries fresh plan = scope (
     bindA (hostA sh_ctx) (\<lambda>ctx.
     bindA (hostA sh_shards) (\<lambda>shards.
     bindA (liftA (check_staged plan shards ctx)) (\<lambda>_.
     bindA (callA SetDevice) (\<lambda>_.
     bindA (liftA (scan_staged plan shards ctx)) (\<lambda>sc.
     bindA (launch_staged_phase queries fresh plan sc (length (sg_device_shards ctx))) (\<lambda>_.
     download_staged_phase plan)))))))"

text \<open>What a client does with a context. Exceptions are caught by the client.\<close>

datatype staging_call = Stage_call ShardId WordShard | Synchronize_call | Run_call DecodePlan ShardSlots

fun staging_call_action ::
  "(int \<Rightarrow> KernelId \<Rightarrow> DeviceQueries) \<Rightarrow> (nat \<Rightarrow> nat \<Rightarrow> ShardWord) \<Rightarrow> staging_call \<Rightarrow> (StagingHost, unit) action" where
  "staging_call_action queries fresh (Stage_call i shard) = stage_shard fresh i shard"
| "staging_call_action queries fresh Synchronize_call = synchronize_staged_shard_uploads"
| "staging_call_action queries fresh (Run_call plan slots) =
     bindA (modifyA (\<lambda>h. h\<lparr>sh_shards := slots\<rparr>)) (\<lambda>_. run_staged queries fresh plan)"

definition staging_session ::
  "(int \<Rightarrow> KernelId \<Rightarrow> DeviceQueries) \<Rightarrow> (nat \<Rightarrow> nat \<Rightarrow> ShardWord) \<Rightarrow> int \<Rightarrow> nat \<Rightarrow> staging_call list \<Rightarrow> (StagingHost, unit) action" where
  "staging_session queries fresh device_id shard_count calls =
     bindA (create_staging_context device_id shard_count) (\<lambda>_.
     bindA (forA (\<lambda>call. ignoring (staging_call_action queries fresh call)) calls) (\<lambda>_.
     destroy_staging_context))"

section \<open>The resources\<close>

lemma keeps_assign_buffer [account_rules]: "keeps (tidy F UNIV B UNIV S) (assign_buffer k)"
  unfolding assign_buffer_def by (rule account_buffer_member)

lemma keeps_destroy_members [account_rules]: "keeps (tidy F UNIV B UNIV S) (destroy_members P)"
  by (rule account_weaken [OF account_destroy_members]) (auto elim: tidy_mono)

lemma keeps_scope:
  assumes "\<And>B. keeps (tidy F UNIV B M S) m"
  shows "keeps (\<lambda>w. tidy F UNIV B M S w \<and> wd_locals w = L) (scope m)"
  by (rule account_scope [OF assms])

text \<open>A destructor that cannot destroy its event or stream says nothing, so these may be lost.\<close>

definition context_tidy :: "(cuda_api \<Rightarrow> nat \<Rightarrow> bool) \<Rightarrow> resource set \<Rightarrow> 'h World \<Rightarrow> bool" where
  "context_tidy F B w \<longleftrightarrow> tidy F UNIV B UNIV {[]} w \<and> wd_locals w = []"

lemma keeps_stage_shard: "keeps (context_tidy F B) (stage_shard fresh i shard)"
  unfolding context_tidy_def stage_shard_def
  by (intro keeps_scope account_rules)

lemma keeps_run_staged: "keeps (context_tidy F B) (run_staged queries fresh plan)"
  unfolding context_tidy_def run_staged_def launch_staged_phase_def download_staged_phase_def allocate_missing_def upload_member_def launch_staged_def
    read_staged_timings_def add_transfer_time_def
  by (intro keeps_scope account_rules)

text \<open>Actions that touch no local object.\<close>

lemma destroy_locals: "wd_locals (snd (destroy r w)) = wd_locals w"
  by (cases "wd_faults w Free (wd_calls w)"; cases "wd_faults w EventDestroy (wd_calls w)"; cases "wd_faults w StreamDestroy (wd_calls w)"; cases r)
    (simp_all add: destroy_def release_def ignoring_def bindA_def callA_def)

lemma destroys_locals: "wd_locals (snd (forA destroy rs w)) = wd_locals w"
proof (induction rs arbitrary: w)
  case (Cons r rs)
  obtain v w1 where "destroy r w = (v, w1)" by fastforce
  then show ?case using Cons [of w1] destroy_locals [of r w] by (cases v) simp_all
qed (simp add: retA_def)

lemma destructor_snd [simp]: "snd (destructor m w) = snd (m w)"
  by (cases "m w"; cases "fst (m w)") (auto simp: destructor_def)

lemma destructor_not_raised: "destructor m w \<noteq> (Raised e, w')"
  by (cases "m w"; cases "fst (m w)") (auto simp: destructor_def)

lemma move_not_raised: "move_to_member k w \<noteq> (Raised e, w')"
  by (simp add: move_to_member_def Let_def destructor_not_raised)

lemma members_locals:
  "wd_locals (snd (destroy_members P w)) = wd_locals w" "wd_locals (snd (move_to_member k w)) = tl (wd_locals w)"
  by (simp_all add: destroy_members_def move_to_member_def Let_def destroys_locals)

lemma account_destroy_context: "account (context_tidy F B) (destroy_members P) (\<lambda>_. context_tidy F B) X"
proof (rule accountI)
  fix w :: "'a World"
  assume w: "context_tidy F B w"
  then have t: "settles (\<lambda>_. tidy F UNIV B {ms. \<forall>(k, r)\<in>set ms. \<not> P k} {[]}) (\<lambda>_. False) (destroy_members P w)"
    by (intro accountD [OF account_destroy_members]) (simp add: context_tidy_def)
  obtain v w' where r: "destroy_members P w = (v, w')" by fastforce
  then have "wd_locals w' = []" using w members_locals(1) [of P w] by (simp add: context_tidy_def)
  then show "settles (\<lambda>_. context_tidy F B) X (destroy_members P w)"
    using t r by (cases v) (auto simp: context_tidy_def elim: tidy_mono)
qed

lemma keeps_destroy_context [account_rules]: "keeps (context_tidy F B) (destroy_members P)"
  by (rule account_destroy_context)

lemma keeps_context [account_rules]:
  "keeps (context_tidy F B) (hostA f)" "keeps (context_tidy F B) (modifyA g)" "keeps (context_tidy F B) (liftA r)"
  "keeps (context_tidy F B) (callA api)"
  by (auto simp: context_tidy_def account_def hostA_def modifyA_def liftA_def callA_def split: sum.split)

lemma keeps_staging_call: "keeps (context_tidy F B) (staging_call_action queries fresh call)"
  by (cases call) (auto simp: synchronize_staged_shard_uploads_def intro!: account_rules keeps_stage_shard keeps_run_staged)

text \<open>The creation of the context.\<close>

definition nothing_owned :: "(cuda_api \<Rightarrow> nat \<Rightarrow> bool) \<Rightarrow> resource set \<Rightarrow> 'h World \<Rightarrow> bool" where
  "nothing_owned F B w \<longleftrightarrow> tidy F UNIV B {[]} {[]} w \<and> wd_locals w = []"

lemma nothing_owned_live:
  assumes "nothing_owned F B w"
  shows "left_behind F B (wd_live w)" "\<not> wd_misused w" "wd_members w = []"
proof -
  have t: "tidy F UNIV B {[]} {[]} w" and l: "wd_locals w = []" using assms by (simp_all add: nothing_owned_def)
  then show "\<not> wd_misused w" "wd_members w = []" by (simp_all add: tidy_def)
  have "owned w = []" using t l by (simp add: tidy_def owned_def)
  from tidy_lost [OF t this] show "left_behind F B (wd_live w)" .
qed

lemma keeps_nothing [account_rules]:
  "keeps (nothing_owned F B) (modifyA g)" "keeps (nothing_owned F B) (liftA r)" "keeps (nothing_owned F B) (callA api)"
  by (auto simp: nothing_owned_def account_def modifyA_def liftA_def callA_def split: sum.split)

lemma account_acquire_local:
  fixes mk :: "nat \<Rightarrow> resource"
  assumes "\<And>n. handle (mk n) = n"
  shows "account (nothing_owned F B) (acquire_local api mk) (\<lambda>_ w. tidy F UNIV B UNIV {[]} w \<and> length (wd_locals w) = 1) (nothing_owned F B)"
  unfolding acquire_local_def
proof (rule account_bindA [OF keeps_nothing(3)], rule accountI)
  fix w :: "'a World"
  assume w: "nothing_owned F B w"
  let ?w = "w\<lparr>wd_live := insert (mk (wd_next w)) (wd_live w), wd_next := wd_next w + 1, wd_locals := mk (wd_next w) # wd_locals w\<rparr>"
  have "tidy F UNIV B {[]} {[]} ?w" by (rule tidy_acquire_local) (use w assms in \<open>simp_all add: nothing_owned_def\<close>)
  then have "tidy F UNIV B UNIV {[]} ?w" by (rule tidy_mono) simp_all
  then show "settles (\<lambda>_ w. tidy F UNIV B UNIV {[]} w \<and> length (wd_locals w) = 1) (nothing_owned F B)
      (let r = mk (wd_next w) in (Done (), w\<lparr>wd_live := insert r (wd_live w), wd_next := wd_next w + 1, wd_locals := r # wd_locals w\<rparr>))"
    using w by (simp add: Let_def nothing_owned_def)
qed

lemma account_member_stream:
  "account (nothing_owned F B) (bindA (acquire_local StreamCreate CudaStream_handle) (\<lambda>_. move_to_member Stream_member))
    (\<lambda>_. context_tidy F B) (nothing_owned F B :: 'a World \<Rightarrow> bool)"
proof (rule account_bindA [OF account_acquire_local])
  show "account (\<lambda>w :: 'a World. tidy F UNIV B UNIV {[]} w \<and> length (wd_locals w) = 1) (move_to_member Stream_member)
      (\<lambda>_. context_tidy F B) (nothing_owned F B)"
  proof (rule accountI)
    fix w :: "'a World"
    assume w: "tidy F UNIV B UNIV {[]} w \<and> length (wd_locals w) = 1"
    then have t: "settles (\<lambda>_. tidy F UNIV B UNIV {[]}) (tidy F UNIV B UNIV {[]}) (move_to_member Stream_member w)"
      by (intro accountD [OF keeps_move]) auto
    obtain v w' where r: "move_to_member Stream_member w = (v, w')" by fastforce
    then have "wd_locals w' = []" using w members_locals(2) [of Stream_member w] by (cases "wd_locals w") simp_all
    moreover have "\<forall>e. v \<noteq> Raised e" using r move_not_raised by metis
    ultimately show "settles (\<lambda>_. context_tidy F B) (nothing_owned F B) (move_to_member Stream_member w)"
      using t r by (cases v) (simp_all add: context_tidy_def)
  qed
qed simp

lemma bindA_assoc: "bindA (bindA m f) g = bindA m (\<lambda>x. bindA (f x) g)"
proof
  fix w
  obtain v w1 where "m w = (v, w1)" by fastforce
  then show "bindA (bindA m f) g w = bindA m (\<lambda>x. bindA (f x) g) w" by (cases v) (simp_all add: bindA_def)
qed

lemma account_create:
  "account (nothing_owned F B) (create_staging_context device_id shard_count) (\<lambda>_. context_tidy F B) (nothing_owned F B)"
proof -
  have body: "account (nothing_owned F B) (bindA (callA GetDevice) (\<lambda>_. bindA (acquire_local StreamCreate CudaStream_handle) (\<lambda>_.
      bindA (move_to_member Stream_member) (\<lambda>_. modifyA (\<lambda>h. h\<lparr>sh_ctx := ctx, sh_transfers := 0\<rparr>)))))
      (\<lambda>_. context_tidy F B) (nothing_owned F B)" for ctx
    unfolding bindA_assoc [symmetric, of "acquire_local StreamCreate CudaStream_handle"]
    by (rule account_bindA [OF keeps_nothing(3)], rule account_bindA [OF account_member_stream])
      (simp add: account_def modifyA_def context_tidy_def)
  show ?thesis
    unfolding create_staging_context_def
    by (intro account_bindA [OF keeps_nothing(2)] account_on_exception [OF body] keeps_ignoring keeps_nothing)
qed

text \<open>After the destruction of the context nothing is left of it.\<close>

lemma account_clear_members: "account (context_tidy F B) (destroy_members (\<lambda>_. True)) (\<lambda>_. nothing_owned F B) X"
proof (rule accountI)
  fix w :: "'a World"
  assume w: "context_tidy F B w"
  then have t: "settles (\<lambda>_. tidy F UNIV B {ms. \<forall>(k, r)\<in>set ms. \<not> True} {[]}) (\<lambda>_. False) (destroy_members (\<lambda>_. True) w)"
    by (intro accountD [OF account_destroy_members]) (simp add: context_tidy_def)
  obtain v w' where r: "destroy_members (\<lambda>_. True) w = (v, w')" by fastforce
  then have "wd_locals w' = []" using w members_locals(1) [of "\<lambda>_. True" w] by (simp add: context_tidy_def)
  moreover have "{ms :: (member \<times> resource) list. \<forall>(k, r)\<in>set ms. \<not> True} = {[]}"
  proof -
    have "ms = [] \<longleftrightarrow> (\<forall>(k, r)\<in>set ms. \<not> True)" for ms :: "(member \<times> resource) list" by (cases ms) auto
    then show ?thesis by blast
  qed
  ultimately show "settles (\<lambda>_. nothing_owned F B) X (destroy_members (\<lambda>_. True) w)"
    using t r by (cases v) (simp_all add: nothing_owned_def)
qed

lemma account_destroy_staging: "account (context_tidy F B) destroy_staging_context (\<lambda>_. nothing_owned F B) X"
  unfolding destroy_staging_context_def
  by (intro account_bindA [OF account_ignoring [OF keeps_context(4)]] account_bindA [OF account_destroy_context] account_clear_members)

lemma account_session:
  "account (nothing_owned F B) (staging_session queries fresh device_id shard_count calls) (\<lambda>_. nothing_owned F B)
    (nothing_owned F B)"
  unfolding staging_session_def
  by (rule account_bindA [OF account_create], rule account_bindA [OF account_forA account_destroy_staging])
    (rule account_ignoring [OF keeps_staging_call])

section \<open>The host memory\<close>

lemma runtime_only_assign [simp]: "runtime_only (assign_buffer k)" "runtime_only (upload_member k)"
  by (simp_all add: assign_buffer_def upload_member_def runtime_only_bindA)

text \<open>What a run leaves in the slots and the cache when a call fails.\<close>

definition slots_kept ::
  "(int \<Rightarrow> KernelId \<Rightarrow> DeviceQueries) \<Rightarrow> (cuda_api \<Rightarrow> nat \<Rightarrow> bool) \<Rightarrow> ShardSlots \<Rightarrow> exn \<Rightarrow> StagingHost \<Rightarrow> bool" where
  "slots_kept queries F shards e h \<longleftrightarrow> e = cuda_error \<and> some_fault F \<and> sh_shards h = shards \<and> cache_ok queries (sh_cache h)"

definition staged_is :: "DeviceShardStagingContext \<Rightarrow> ShardSlots \<Rightarrow> config_cache \<Rightarrow> device_table \<Rightarrow> StagingHost \<Rightarrow> bool" where
  "staged_is ctx shards cache device h \<longleftrightarrow>
     sh_ctx h = ctx\<lparr>sg_device_shards := device\<rparr> \<and> sh_shards h = shards \<and> sh_cache h = cache"

lemma hoare_kept:
  assumes "runtime_only m" "cache_ok queries cache"
  shows "hoare F (staged_is ctx shards cache d) m (\<lambda>_. staged_is ctx shards cache d) (slots_kept queries F shards)"
  by (rule hoare_pre [OF hoare_runtime [OF assms(1)]]) (use assms(2) in \<open>simp add: staged_is_def slots_kept_def\<close>)

lemma hoare_allocate_missing:
  assumes "cache_ok queries cache"
  shows "hoare F (staged_is ctx shards cache d) (allocate_missing fresh sc i)
    (\<lambda>_. staged_is ctx shards cache (if required_shards sc ! i \<and> d ! i = None
       then d[i := Some (map (fresh i) [0..<the (word_counts sc ! i)])] else d)) (slots_kept queries F shards)"
  unfolding allocate_missing_def
proof (rule hoare_read [where x = "d ! i"], simp add: staged_is_def, cases "required_shards sc ! i \<and> d ! i = None")
  case True
  show "hoare F (staged_is ctx shards cache d)
      (if required_shards sc ! i \<and> d ! i = None
       then bindA (assign_buffer (Shard_member i)) (\<lambda>_. modifyA (\<lambda>h. h\<lparr>sh_ctx := (sh_ctx h)\<lparr>sg_device_shards :=
            (sg_device_shards (sh_ctx h))[i := Some (map (fresh i) [0..<the (word_counts sc ! i)])]\<rparr>\<rparr>)) else retA ())
      (\<lambda>_. staged_is ctx shards cache (if required_shards sc ! i \<and> d ! i = None
       then d[i := Some (map (fresh i) [0..<the (word_counts sc ! i)])] else d)) (slots_kept queries F shards)"
    unfolding if_P [OF True]
    by (rule hoare_bindA [OF hoare_kept [OF _ assms]], simp, rule hoare_pre [OF hoare_modifyA], simp add: staged_is_def)
next
  case False
  show "hoare F (staged_is ctx shards cache d)
      (if required_shards sc ! i \<and> d ! i = None
       then bindA (assign_buffer (Shard_member i)) (\<lambda>_. modifyA (\<lambda>h. h\<lparr>sh_ctx := (sh_ctx h)\<lparr>sg_device_shards :=
            (sg_device_shards (sh_ctx h))[i := Some (map (fresh i) [0..<the (word_counts sc ! i)])]\<rparr>\<rparr>)) else retA ())
      (\<lambda>_. staged_is ctx shards cache (if required_shards sc ! i \<and> d ! i = None
       then d[i := Some (map (fresh i) [0..<the (word_counts sc ! i)])] else d)) (slots_kept queries F shards)"
    unfolding if_not_P [OF False] by (rule hoare_skip)
qed

lemma hoare_launch_staged:
  assumes "launch_operation queries (sg_device_id ctx) sc iop (d, cache) = Some (Inr (d', cache'))" "cache_ok queries cache"
  shows "hoare F (staged_is ctx shards cache d) (launch_staged queries sc iop) (\<lambda>_. staged_is ctx shards cache' d') (slots_kept queries F shards)"
proof -
  note ok = launch_operation_cache [OF assms]
  have set: "hoare F (staged_is ctx shards cache d)
      (bindA (modifyA (\<lambda>h. h\<lparr>sh_ctx := (sh_ctx h)\<lparr>sg_device_shards := d'\<rparr>, sh_cache := cache'\<rparr>)) (\<lambda>_. callA LastError))
      (\<lambda>_. staged_is ctx shards cache' d') (slots_kept queries F shards)"
    by (rule hoare_bindA [OF _ hoare_kept [OF _ ok]], rule hoare_pre [OF hoare_modifyA]) (simp_all add: staged_is_def)
  show ?thesis
    unfolding launch_staged_def
    by (rule hoare_read [where x = "map_of cache (sg_device_id ctx, xor_kernel_id (length (xo_sources (snd iop))))"], simp add: staged_is_def,
        rule hoare_bindA [OF hoare_kept [OF _ assms(2)]], simp,
        rule hoare_read [where x = "Some (Inr (d', cache'))"], simp add: staged_is_def assms(1), simp add: hoare_returned set)
qed

lemma hoare_launches_staged:
  assumes "launch_operations queries (sg_device_id ctx) sc iops (d, cache) = Some (Inr (d', cache'))" "cache_ok queries cache"
  shows "hoare F (staged_is ctx shards cache d) (forA (launch_staged queries sc) iops) (\<lambda>_. staged_is ctx shards cache' d')
    (slots_kept queries F shards)"
  using assms
proof (induction iops arbitrary: d cache)
  case Nil
  then show ?case by (simp add: hoare_skip)
next
  case (Cons iop iops)
  obtain d1 cache1 where s: "launch_operation queries (sg_device_id ctx) sc iop (d, cache) = Some (Inr (d1, cache1))"
      "launch_operations queries (sg_device_id ctx) sc iops (d1, cache1) = Some (Inr (d', cache'))"
    using Cons.prems(1) by (auto simp: bindR_def split: option.splits sum.splits)
  show ?case
    using hoare_bindA [OF hoare_launch_staged [OF s(1) Cons.prems(2)] Cons.IH [OF s(2) launch_operation_cache [OF s(1) Cons.prems(2)]]]
    by simp
qed

lemma hoare_read_staged_timings:
  assumes "cache_ok queries cache"
  shows "hoare F (staged_is ctx shards cache d) read_staged_timings (\<lambda>_. staged_is ctx shards cache d) (slots_kept queries F shards)"
proof -
  note keep = hoare_kept [OF _ assms]
  have set: "hoare F (staged_is ctx shards cache d) (modifyA (\<lambda>h. h\<lparr>sh_timings := g h\<rparr>)) (\<lambda>_. staged_is ctx shards cache d) (slots_kept queries F shards)" for g
    by (rule hoare_pre [OF hoare_modifyA]) (simp add: staged_is_def)
  have clear: "hoare F (staged_is ctx shards cache d) (modifyA (\<lambda>h. h\<lparr>sh_transfers := 0\<rparr>)) (\<lambda>_. staged_is ctx shards cache d) (slots_kept queries F shards)"
    by (rule hoare_pre [OF hoare_modifyA]) (simp add: staged_is_def)
  have transfers: "hoare F (staged_is ctx shards cache d) (hostA sh_transfers) (\<lambda>_. staged_is ctx shards cache d) (slots_kept queries F shards)"
    by (rule hoare_pre [OF hoare_hostA])
  have add: "hoare F (staged_is ctx shards cache d) (forA add_transfer_time xs) (\<lambda>_. staged_is ctx shards cache d) (slots_kept queries F shards)" for xs
    by (rule hoare_forA [where I = "\<lambda>_. staged_is ctx shards cache d"])
      (simp add: add_transfer_time_def hoare_bindA [OF keep [OF runtime_only_elapsed] set])
  show ?thesis
    unfolding read_staged_timings_def
    by (intro hoare_bindA [OF set] hoare_bindA [OF transfers] hoare_bindA [OF add] hoare_bindA [OF keep] hoare_bindA [OF clear] set
        runtime_only_members runtime_only_elapsed)
qed

text \<open>The phases of an accepted plan, when the launches end with the table \<open>device'\<close>.\<close>

lemma hoare_staged_launches:
  assumes "cache_ok queries cache" "cache_ok queries cache'"
    and "launch_operations queries (sg_device_id ctx) sc (List.enumerate 0 (operations plan)) (allocate fresh sc (sg_device_shards ctx), cache)
      = Some (Inr (device', cache'))"
  shows "hoare F (\<lambda>h. sh_ctx h = ctx \<and> sh_shards h = shards \<and> sh_cache h = cache)
      (bindA (launch_staged_phase queries fresh plan sc (length (sg_device_shards ctx))) (\<lambda>_. download_staged_phase plan))
      (\<lambda>_ h. sh_shards h = download (operations plan) device' shards) (slots_kept queries F shards)"
proof -
  let ?d = "sg_device_shards ctx"
  let ?d1 = "allocate fresh sc ?d"
  let ?ctx' = "ctx\<lparr>sg_word_counts := word_counts sc, sg_plan := plan, sg_source_offsets := source_offsets sc, sg_finalized := True\<rparr>"
  note keep = hoare_kept [OF _ assms(1)]
  have alloc: "hoare F (staged_is ctx shards cache ?d) (forA (allocate_missing fresh sc) [0..<length ?d]) (\<lambda>_. staged_is ctx shards cache ?d1)
      (slots_kept queries F shards)"
    unfolding fold_allocate_missing [symmetric] by (rule hoare_for_fold) (rule hoare_allocate_missing [OF assms(1)])
  have finalize: "hoare F (staged_is ctx shards cache ?d1) (modifyA (\<lambda>h. h\<lparr>sh_ctx := (sh_ctx h)\<lparr>sg_word_counts := word_counts sc, sg_plan := plan,
      sg_source_offsets := source_offsets sc, sg_finalized := True\<rparr>\<rparr>)) (\<lambda>_. staged_is ?ctx' shards cache ?d1) (slots_kept queries F shards)"
    by (rule hoare_pre [OF hoare_modifyA]) (simp add: staged_is_def)
  have l: "launch_operations queries (sg_device_id ?ctx') sc (List.enumerate 0 (operations plan)) (?d1, cache) = Some (Inr (device', cache'))"
    using assms(3) by simp
  have "hoare F (staged_is ctx shards cache ?d) (launch_staged_phase queries fresh plan sc (length ?d))
      (\<lambda>_. staged_is ?ctx' shards cache' device') (slots_kept queries F shards)"
    unfolding launch_staged_phase_def
    by (intro hoare_bindA [OF alloc] hoare_bindA [OF keep [OF runtime_only_if]] hoare_bindA [OF finalize] hoare_bindA [OF keep]
        hoare_bindA [OF hoare_launches_staged [OF l assms(1)]] hoare_kept [OF _ assms(2)] runtime_only_bindA) simp_all
  moreover have "staged_is ctx shards cache ?d = (\<lambda>h. sh_ctx h = ctx \<and> sh_shards h = shards \<and> sh_cache h = cache)"
    by (auto simp: staged_is_def)
  ultimately have launch: "hoare F (\<lambda>h. sh_ctx h = ctx \<and> sh_shards h = shards \<and> sh_cache h = cache)
      (launch_staged_phase queries fresh plan sc (length ?d)) (\<lambda>_. staged_is ?ctx' shards cache' device') (slots_kept queries F shards)"
    by simp
  note keep' = hoare_kept [OF _ assms(2), of _ F ?ctx' shards device']
  have read: "hoare F (staged_is ?ctx' shards cache' device')
      (bindA (hostA (\<lambda>h. sg_device_shards (sh_ctx h))) (\<lambda>device. bindA read_staged_timings (\<lambda>_.
         modifyA (\<lambda>h. h\<lparr>sh_shards := download (operations plan) device (sh_shards h), sh_ctx := (sh_ctx h)\<lparr>sg_staged_shards := []\<rparr>\<rparr>))))
      (\<lambda>_ h. sh_shards h = download (operations plan) device' shards) (slots_kept queries F shards)"
    by (rule hoare_read [where x = device'], simp add: staged_is_def, rule hoare_bindA [OF hoare_read_staged_timings [OF assms(2)]],
        rule hoare_pre [OF hoare_modifyA], simp add: staged_is_def)
  have "hoare F (staged_is ?ctx' shards cache' device') (download_staged_phase plan)
      (\<lambda>_ h. sh_shards h = download (operations plan) device' shards) (slots_kept queries F shards)"
    unfolding download_staged_phase_def
    by (intro hoare_bindA [OF keep'] read runtime_only_forA) simp_all
  from hoare_bindA [OF launch this] show ?thesis .
qed

text \<open>The buffers hold \<open>held\<close>, which need not be what was staged.\<close>

lemma hoare_staged_phases:
  assumes "runtime_ok queries" "cache_ok queries cache" "staging_ok held (ctx\<lparr>sg_staged_shards := held\<rparr>)"
    "ValidatePlanShape plan = Inr ()" "scan_staged plan shards ctx = Inr sc"
  shows "\<exists>device. hoare F (\<lambda>h. sh_ctx h = ctx \<and> sh_shards h = shards \<and> sh_cache h = cache)
      (bindA (launch_staged_phase queries fresh plan sc (length (sg_device_shards ctx))) (\<lambda>_. download_staged_phase plan))
      (\<lambda>_ h. sh_shards h = download (operations plan) device shards) (slots_kept queries F shards) \<and>
    execute_decode_plan_cpu plan held = (download (operations plan) device held, None)"
proof -
  let ?sc0 = "\<lparr>word_counts = sg_word_counts ctx, available_shards = map (\<lambda>c. c \<noteq> None) (sg_word_counts ctx),
     required_shards = replicate (length (sg_device_shards ctx)) False, flattened_sources = [], source_offsets = []\<rparr>"
  note ctx = assms(3) [unfolded staging_ok_def]
  have sc0: "fresh_scan ?sc0 held" using ctx by (auto simp: fresh_scan_def tracks_def)
  have sc: "scan_plan plan ?sc0 = Inr sc" using assms(5) by (simp add: scan_staged_def split: if_splits)
  obtain final where s: "tracks sc final" "\<forall>i<length held. required_shards sc ! i \<longrightarrow> final ! i \<noteq> None"
    "\<forall>i<length held. held ! i \<noteq> None \<longrightarrow> final ! i = held ! i" "length final = length held"
    by (rule scan_complete [OF sc0 sc])
  have "holds sc held (allocate fresh sc (sg_device_shards ctx))"
    by (rule holds_initial [OF s(1,4) _ s(2,3), where fresh = fresh]) (use ctx in \<open>simp_all add: allocate_def\<close>)
  from launch_plan [OF assms(1,2) sc0 sc this, of "sg_device_id ctx"] obtain device' cache' where l:
      "launch_operations queries (sg_device_id ctx) sc (List.enumerate 0 (operations plan)) (allocate fresh sc (sg_device_shards ctx), cache)
        = Some (Inr (device', cache'))"
      "execute_operations (operations plan) held = (download (operations plan) device' held, None)" "cache_ok queries cache'"
    by auto
  from hoare_staged_launches [OF assms(2) l(3,1), of F shards] l(2) assms(4)
  show ?thesis by (auto simp: execute_decode_plan_cpu_ok)
qed

text \<open>What a run leaves when it throws; \<open>cpu\<close> is what the CPU executor does.\<close>

definition staged_failure ::
  "(cuda_api \<Rightarrow> nat \<Rightarrow> bool) \<Rightarrow> ShardSlots \<Rightarrow> ShardSlots \<times> exn option \<Rightarrow> exn \<Rightarrow> StagingHost \<Rightarrow> bool" where
  "staged_failure F shards cpu e h \<longleftrightarrow> sh_shards h = shards \<and>
     ((\<exists>m. e = InvalidArgument m) \<and> snd cpu \<noteq> None \<or> e = cuda_error \<and> some_fault F)"

lemma hoare_run_staged:
  assumes "runtime_ok queries" "cache_ok queries cache" "staging_ok shards ctx" "execute_decode_plan_cpu plan shards = cpu"
  shows "hoare F (\<lambda>h. sh_ctx h = ctx \<and> sh_shards h = shards \<and> sh_cache h = cache) (run_staged queries fresh plan)
    (\<lambda>_ h. snd cpu = None \<and> sh_shards h = fst cpu) (staged_failure F shards cpu)"
  (is "hoare F ?P _ ?Q ?E")
  unfolding run_staged_def
proof (rule hoare_scope, rule hoare_read [where x = ctx], simp, rule hoare_read [where x = shards], simp)
  let ?rest = "\<lambda>sc. bindA (launch_staged_phase queries fresh plan sc (length (sg_device_shards ctx))) (\<lambda>_. download_staged_phase plan)"
  have same: "sg_staged_shards ctx = shards" "\<not> sg_finalized ctx" "length shards = length (sg_device_shards ctx)"
    using assms(3) by (auto simp: staging_ok_def)
  have rest: "hoare F ?P (?rest sc) ?Q ?E" if shape: "ValidatePlanShape plan = Inr ()" and sc: "scan_staged plan shards ctx = Inr sc" for sc
  proof -
    have held: "staging_ok shards (ctx\<lparr>sg_staged_shards := shards\<rparr>)" using assms(3) by (simp add: staging_ok_def)
    from hoare_staged_phases [OF assms(1,2) held shape sc, of F fresh] obtain device where
      "hoare F ?P (?rest sc) (\<lambda>_ h. sh_shards h = download (operations plan) device shards) (slots_kept queries F shards)"
      "cpu = (download (operations plan) device shards, None)"
      using assms(4) by auto
    then show ?thesis by - (rule hoare_weaken, assumption, simp_all add: slots_kept_def staged_failure_def)
  qed
  show "hoare F ?P (bindA (liftA (check_staged plan shards ctx)) (\<lambda>_. bindA (callA SetDevice) (\<lambda>_.
      bindA (liftA (scan_staged plan shards ctx)) ?rest))) ?Q ?E"
  proof (cases "ValidatePlanShape plan")
    case (Inl e)
    then have "\<exists>m. e = InvalidArgument m" by (auto simp: ValidatePlanShape_def exn_simps split: if_splits)
    moreover have "snd cpu \<noteq> None" using Inl assms(4) by (auto simp: execute_decode_plan_cpu_def)
    ultimately show ?thesis
      using Inl same by (auto simp: check_staged_def hoare_def bindA_def liftA_def staged_failure_def)
  next
    case (Inr u)
    then have shape: "ValidatePlanShape plan = Inr ()" by simp
    have set: "hoare F ?P (callA SetDevice) (\<lambda>_. ?P) ?E"
      by (rule hoare_pre [OF hoare_runtime]) (simp_all add: staged_failure_def)
    have scan: "hoare F ?P (bindA (liftA (scan_staged plan shards ctx)) ?rest) ?Q ?E"
    proof (cases "scan_staged plan shards ctx")
      case (Inl e)
      let ?sc0 = "\<lparr>word_counts = sg_word_counts ctx, available_shards = map (\<lambda>c. c \<noteq> None) (sg_word_counts ctx),
         required_shards = replicate (length (sg_device_shards ctx)) False, flattened_sources = [], source_offsets = []\<rparr>"
      have "fresh_scan ?sc0 shards" using assms(3) by (auto simp: staging_ok_def fresh_scan_def tracks_def)
      moreover have "scan_plan plan ?sc0 = Inl e" using Inl same by (simp add: scan_staged_def)
      ultimately have "snd cpu \<noteq> None" "\<exists>m. e = InvalidArgument m"
        using scan_plan_iff [OF _ shape, of ?sc0 shards] scan_plan_Inl [of plan ?sc0 e] assms(4) by auto
      then show ?thesis using Inl by (auto simp: hoare_def bindA_def liftA_def staged_failure_def)
    next
      case (Inr sc)
      then show ?thesis using rest [OF shape Inr] by simp
    qed
    show ?thesis
      using hoare_bindA [OF set scan] shape same by (simp add: check_staged_def)
  qed
qed

text \<open>Slots that are not what was staged are refused.\<close>

lemma hoare_run_mismatch:
  assumes "staging_ok staged ctx" "slots \<noteq> staged"
  shows "hoare F (\<lambda>h. sh_ctx h = ctx \<and> sh_shards h = slots) (run_staged queries fresh plan) (\<lambda>_ _. False)
    (\<lambda>e h. sh_shards h = slots \<and> ((\<exists>m. e = InvalidArgument m) \<or> e = cuda_error \<and> some_fault F))"
  unfolding run_staged_def
proof (rule hoare_scope, rule hoare_read [where x = ctx], simp, rule hoare_read [where x = slots], simp, cases "check_staged plan slots ctx")
  case (Inl e)
  then have "\<exists>m. e = InvalidArgument m"
    using assms(1) by (auto simp: check_staged_def staging_ok_def ValidatePlanShape_def exn_simps split: if_splits)
  then show "hoare F (\<lambda>h. sh_ctx h = ctx \<and> sh_shards h = slots) (bindA (liftA (check_staged plan slots ctx)) k) (\<lambda>_ _. False)
      (\<lambda>e h. sh_shards h = slots \<and> ((\<exists>m. e = InvalidArgument m) \<or> e = cuda_error \<and> some_fault F))" for k :: "unit \<Rightarrow> (StagingHost, unit) action"
    by (auto simp: Inl hoare_def bindA_def liftA_def)
next
  case (Inr u)
  have "scan_staged plan slots ctx = Inl (InvalidArgument ''Staged shards must match the supplied host shard slots'')"
    using assms by (simp add: scan_staged_def staging_ok_def)
  then have scan: "hoare F (\<lambda>h. sh_ctx h = ctx \<and> sh_shards h = slots) (bindA (liftA (scan_staged plan slots ctx)) k) (\<lambda>_ _. False)
      (\<lambda>e h. sh_shards h = slots \<and> ((\<exists>m. e = InvalidArgument m) \<or> e = cuda_error \<and> some_fault F))" for k :: "ScanState \<Rightarrow> (StagingHost, unit) action"
    by (simp add: hoare_def bindA_def liftA_def)
  have "hoare F (\<lambda>h. sh_ctx h = ctx \<and> sh_shards h = slots) (callA SetDevice) (\<lambda>_ h. sh_ctx h = ctx \<and> sh_shards h = slots)
      (\<lambda>e h. sh_shards h = slots \<and> ((\<exists>m. e = InvalidArgument m) \<or> e = cuda_error \<and> some_fault F))"
    by (rule hoare_pre [OF hoare_runtime]) simp_all
  from hoare_bindA [OF this scan]
  show "hoare F (\<lambda>h. sh_ctx h = ctx \<and> sh_shards h = slots) (bindA (liftA (check_staged plan slots ctx))
        (\<lambda>_. bindA (callA SetDevice) (\<lambda>_. bindA (liftA (scan_staged plan slots ctx)) k))) (\<lambda>_ _. False)
      (\<lambda>e h. sh_shards h = slots \<and> ((\<exists>m. e = InvalidArgument m) \<or> e = cuda_error \<and> some_fault F))" for k :: "ScanState \<Rightarrow> (StagingHost, unit) action"
    by (simp add: Inr)
qed

section \<open>After a failed upload\<close>

definition on_host :: "(cuda_api \<Rightarrow> nat \<Rightarrow> bool) \<Rightarrow> ('h \<Rightarrow> bool) \<Rightarrow> 'h World \<Rightarrow> bool" where
  "on_host F P w \<longleftrightarrow> wd_faults w = F \<and> P (wd_host w)"

named_theorems host_rules \<open>actions that keep a predicate on the host memory\<close>

lemma hoare_account:
  fixes m :: "('h, 'a) action"
  assumes "hoare F P m (\<lambda>_. P) (\<lambda>_. P)"
  shows "keeps (on_host F P) m"
proof (rule accountI)
  fix w :: "'h World"
  assume w: "on_host F P w"
  obtain v w' where m: "m w = (v, w')" by fastforce
  show "settles (\<lambda>_. on_host F P) (on_host F P) (m w)"
    using hoareD [OF assms, of w] w m by (cases v) (simp_all add: on_host_def)
qed

lemma keeps_runtime [host_rules]: "runtime_only m \<Longrightarrow> keeps (on_host F P) m"
  by (rule hoare_account, rule hoare_weaken [OF hoare_runtime, where P = P and Q = "\<lambda>_. P" and E = "\<lambda>_. P"]) auto

lemma keeps_modify: "(\<And>h. P h \<Longrightarrow> P (g h)) \<Longrightarrow> keeps (on_host F P) (modifyA g)"
  by (simp add: account_def modifyA_def on_host_def)

lemma keeps_pure [host_rules]:
  "keeps (on_host F P) (hostA f)" "keeps (on_host F P) (liftA r)" "keeps (on_host F P) (liftR r')" "keeps (on_host F P) (retA x)"
  by (auto simp: account_def hostA_def liftA_def liftR_def retA_def split: sum.split option.split)

lemma on_host_locals [simp]: "on_host F P (w\<lparr>wd_locals := ls\<rparr>) = on_host F P w"
  by (simp add: on_host_def)

lemma account_no_fault: "\<forall>n. \<not> F api n \<Longrightarrow> account (on_host F P) (callA api) (\<lambda>_. on_host F P) X"
  by (simp add: account_def callA_def on_host_def)

lemma account_host_scope:
  fixes m :: "('h, 'a) action"
  assumes "account I m (\<lambda>x. on_host F (Q x)) (on_host F R)" "\<And>w. I w \<Longrightarrow> I (w\<lparr>wd_locals := []\<rparr>)"
  shows "account I (scope m) (\<lambda>x. on_host F (Q x)) (on_host F R)"
proof (rule accountI)
  fix w :: "'h World"
  assume w: "I w"
  obtain v w1 where m: "m (w\<lparr>wd_locals := []\<rparr>) = (v, w1)" by fastforce
  have s: "settles (\<lambda>x. on_host F (Q x)) (on_host F R) (v, w1)"
    using accountD [OF assms(1), of "w\<lparr>wd_locals := []\<rparr>"] assms(2) [OF w] m by (simp add: on_host_def)
  let ?w1 = "w1\<lparr>wd_locals := wd_locals w\<rparr>"
  obtain d w2 where d: "destructor (forA destroy (wd_locals w1)) ?w1 = (d, w2)" by fastforce
  have e: "ends (wd_faults w1) (\<lambda>_ h. h = wd_host w1) (\<lambda>_ _. False) (d, w2)"
    using hoareD [OF hoare_destroy_all [where P = "\<lambda>h. h = wd_host w1" and E = "\<lambda>_ _. False"], of ?w1 "wd_faults w1" "wd_locals w1"] d by simp
  show "settles (\<lambda>x. on_host F (Q x)) (on_host F R) (scope m w)"
    using m s d e by (cases v; cases d) (auto simp: scope_def leave_def on_host_def)
qed

text \<open>The shard \<open>i\<close> is staged; its buffer exists. A finalized context accepts nothing any more.\<close>

definition staged_slot :: "nat \<Rightarrow> DeviceShardStagingContext \<Rightarrow> bool" where
  "staged_slot i ctx \<longleftrightarrow> sg_finalized ctx \<or> i < length (sg_staged_shards ctx) \<and> sg_staged_shards ctx ! i \<noteq> None"

definition upload_blocked :: "nat \<Rightarrow> DeviceShardStagingContext \<Rightarrow> bool" where
  "upload_blocked i ctx \<longleftrightarrow> sg_finalized ctx \<or> i < length (sg_device_shards ctx) \<and> sg_device_shards ctx ! i \<noteq> None"

text \<open>Both properties, or only the first one, as a predicate on the context.\<close>

definition wedged :: "bool \<Rightarrow> nat \<Rightarrow> DeviceShardStagingContext \<Rightarrow> bool" where
  "wedged blocked i ctx \<longleftrightarrow> staged_slot i ctx \<and> (blocked \<longrightarrow> upload_blocked i ctx)"

lemma update_present: "i < length xs \<Longrightarrow> xs ! i \<noteq> None \<Longrightarrow> xs[j := Some x] ! i \<noteq> None"
  by (cases "i = j") simp_all

lemma wedged_update:
  assumes "wedged b i ctx" "\<not> sg_finalized ctx" "wedged b i ctx'"
  shows "wedged b i (ctx'\<lparr>sg_staged_shards := (sg_staged_shards ctx)[j := Some x], sg_word_counts := c\<rparr>)"
    "wedged b i (ctx'\<lparr>sg_device_shards := (sg_device_shards ctx)[j := Some y]\<rparr>)"
  using assms update_present [of i "sg_staged_shards ctx" j x] update_present [of i "sg_device_shards ctx" j y]
  by (simp_all add: wedged_def staged_slot_def upload_blocked_def del: not_None_eq)

lemma keeps_wedged_stage: "keeps (on_host F (\<lambda>h. wedged b i (sh_ctx h))) (stage_shard fresh j shard)"
  unfolding stage_shard_def
proof (rule account_host_scope, rule account_bindA)
  let ?P = "\<lambda>h. wedged b i (sh_ctx h)"
  show "account (on_host F ?P) (hostA sh_ctx) (\<lambda>ctx w. on_host F ?P w \<and> wedged b i ctx) (on_host F ?P)"
    by (simp add: account_def hostA_def on_host_def)
  fix ctx
  show "account (\<lambda>w. on_host F ?P w \<and> wedged b i ctx) (bindA (liftA (stage_decode_shard_cuda j shard ctx)) (\<lambda>_.
     bindA (callA SetDevice) (\<lambda>_.
     bindA (modifyA (\<lambda>h. h\<lparr>sh_ctx := (sh_ctx h)
       \<lparr>sg_staged_shards := (sg_staged_shards ctx)[unat j := Some shard],
        sg_word_counts := (sg_word_counts ctx)[unat j := Some (length shard)]\<rparr>\<rparr>)) (\<lambda>_.
     bindA (assign_buffer (Shard_member (unat j))) (\<lambda>_.
     bindA (modifyA (\<lambda>h. h\<lparr>sh_ctx := (sh_ctx h)
       \<lparr>sg_device_shards := (sg_device_shards ctx)[unat j := Some (map (fresh (unat j)) [0..<length shard])]\<rparr>\<rparr>)) (\<lambda>_.
     bindA CudaEvent_Create (\<lambda>_.
     bindA CudaEvent_Create (\<lambda>_.
     bindA CudaEvent_Record (\<lambda>_.
     bindA (callA Memcpy) (\<lambda>_.
     bindA (modifyA (\<lambda>h. h\<lparr>sh_ctx := (sh_ctx h)
       \<lparr>sg_device_shards := (sg_device_shards ctx)[unat j := Some shard]\<rparr>\<rparr>)) (\<lambda>_.
     bindA CudaEvent_Record (\<lambda>_.
     bindA push_transfer (\<lambda>_.
     modifyA (\<lambda>h. h\<lparr>sh_transfers := sh_transfers h + 1\<rparr>))))))))))))))
     (\<lambda>_. on_host F ?P) (on_host F ?P)" (is "account _ ?m _ _")
  proof (cases "stage_decode_shard_cuda j shard ctx")
    case (Inl e)
    then show ?thesis by (simp add: account_def bindA_def liftA_def)
  next
    case (Inr ctx1)
    then have unused: "\<not> sg_finalized ctx" by (auto simp: stage_decode_shard_cuda_def split: if_splits)
    show ?thesis
    proof (cases "wedged b i ctx")
      case True
      note keep = wedged_update [OF True unused]
      have "keeps (on_host F ?P) ?m"
        by (intro keeps_bindA host_rules keeps_modify) (simp_all add: keep)
      then show ?thesis by (rule account_weaken) simp_all
    qed (simp add: account_def)
  qed
qed simp

text \<open>A run can only allocate more buffers, and it finalizes the context before it changes anything else.\<close>

lemma keeps_finalized:
  assumes "\<And>h. sg_finalized (sh_ctx h) \<Longrightarrow> sg_finalized (sh_ctx (g h))"
  shows "keeps (on_host F (\<lambda>h. sg_finalized (sh_ctx h))) (modifyA g)"
  by (rule keeps_modify) (rule assms)

lemma keeps_finalized_steps [host_rules]:
  "keeps (on_host F (\<lambda>h. sg_finalized (sh_ctx h))) (launch_staged queries sc iop)"
  "keeps (on_host F (\<lambda>h. sg_finalized (sh_ctx h))) read_staged_timings"
  unfolding launch_staged_def read_staged_timings_def add_transfer_time_def
  by (intro keeps_bindA keeps_forA keeps_if keeps_case_prod host_rules keeps_finalized runtime_only_elapsed runtime_only_members; simp)+

lemma finalized_wedged: "sg_finalized ctx \<Longrightarrow> wedged b i ctx"
  by (simp add: wedged_def staged_slot_def upload_blocked_def)

lemma wedged_more: "wedged b i ctx \<Longrightarrow> wedged b i (ctx\<lparr>sg_device_shards := (sg_device_shards ctx)[j := Some y]\<rparr>)"
  using update_present [of i "sg_device_shards ctx" j y]
  by (auto simp add: wedged_def staged_slot_def upload_blocked_def simp del: not_None_eq)

lemma keeps_wedged_allocate: "keeps (on_host F (\<lambda>h. wedged b i (sh_ctx h))) (allocate_missing fresh sc j)"
  unfolding allocate_missing_def
  by (intro keeps_modify keeps_bindA keeps_if keeps_pure keeps_runtime runtime_only_assign)
    (simp_all add: wedged_more)

lemma keeps_wedged_run: "keeps (on_host F (\<lambda>h. wedged b i (sh_ctx h))) (run_staged queries fresh plan)"
proof -
  let ?P = "\<lambda>h. wedged b i (sh_ctx h)" and ?Q = "\<lambda>h. sg_finalized (sh_ctx h)"
  have late: "keeps (on_host F ?Q) m \<Longrightarrow> account (on_host F ?Q) m (\<lambda>_. on_host F ?Q) (on_host F ?P)" for m :: "(StagingHost, 'x) action"
    by (erule account_weaken) (auto simp: on_host_def finalized_wedged)
  have finalize: "account (on_host F ?P) (modifyA (\<lambda>h. h\<lparr>sh_ctx := (sh_ctx h)\<lparr>sg_word_counts := word_counts sc, sg_plan := plan,
      sg_source_offsets := source_offsets sc, sg_finalized := True\<rparr>\<rparr>)) (\<lambda>_. on_host F ?Q) (on_host F ?P)" for sc
    by (simp add: account_def modifyA_def on_host_def)
  have phase: "account (on_host F ?P) (launch_staged_phase queries fresh plan sc n) (\<lambda>_. on_host F ?Q) (on_host F ?P)" for sc n
    unfolding launch_staged_phase_def
    by (intro account_bindA [OF keeps_forA [OF keeps_wedged_allocate]] account_bindA [OF keeps_if] account_bindA [OF finalize]
        account_bindA [OF late] late keeps_forA host_rules keeps_bindA) simp_all
  have "account (on_host F ?P) (run_staged queries fresh plan) (\<lambda>_. on_host F ?Q) (on_host F ?P)"
    unfolding run_staged_def download_staged_phase_def
    by (intro account_host_scope account_bindA [OF keeps_pure(1)] account_bindA [OF keeps_pure(2)] account_bindA [OF keeps_runtime]
        account_bindA [OF phase] account_bindA [OF late] late keeps_forA host_rules keeps_finalized runtime_only_callA) simp_all
  then show ?thesis by (rule account_weaken) (auto simp: on_host_def finalized_wedged)
qed

lemma keeps_wedged_call: "keeps (on_host F (\<lambda>h. wedged b i (sh_ctx h))) (staging_call_action queries fresh call)"
proof (cases call)
  case (Run_call plan slots)
  show ?thesis unfolding Run_call staging_call_action.simps by (rule keeps_bindA [OF keeps_modify keeps_wedged_run]) simp
qed (simp_all add: keeps_wedged_stage keeps_runtime synchronize_staged_shard_uploads_def runtime_only_bindA)

text \<open>The calls that cannot return any more.\<close>

lemma wedged_stage:
  assumes "upload_blocked (unat i) (sh_ctx (wd_host w))"
  shows "stage_shard fresh i shard w \<noteq> (Done (), w')"
proof -
  obtain e where "stage_decode_shard_cuda i shard (sh_ctx (wd_host w)) = Inl e"
    using assms by (cases "stage_decode_shard_cuda i shard (sh_ctx (wd_host w))")
      (auto simp: upload_blocked_def stage_decode_shard_cuda_def split: if_splits)
  then show ?thesis by (auto simp: stage_shard_def scope_def leave_def bindA_def hostA_def liftA_def split: prod.splits if_splits)
qed

lemma wedged_run:
  assumes "staged_slot i (sh_ctx (wd_host w))" "slots ! i = None"
  shows "staging_call_action queries fresh (Run_call plan slots) w \<noteq> (Done (), w')"
proof -
  let ?ctx = "sh_ctx (wd_host w)"
  have "(\<exists>e. check_staged plan slots ?ctx = Inl e) \<or> (\<exists>e. scan_staged plan slots ?ctx = Inl e)"
    using assms by (auto simp: staged_slot_def check_staged_def scan_staged_def)
  then show ?thesis
    by (auto simp: run_staged_def scope_def leave_def bindA_def hostA_def liftA_def modifyA_def callA_def split: prod.splits if_splits sum.splits)
qed

text \<open>What a failing upload leaves.\<close>

lemma account_recorded_upload:
  assumes "stage_decode_shard_cuda i shard ctx = Inr ctx1"
  shows "account (\<lambda>w. on_host F (\<lambda>h. sh_ctx h = ctx) w \<and> \<not> F SetDevice (wd_calls w)) (stage_shard fresh i shard) (\<lambda>_. on_host F (\<lambda>_. True))
    (on_host F (\<lambda>h. sg_staged_shards (sh_ctx h) = (sg_staged_shards ctx)[unat i := Some shard] \<and>
       length (sg_device_shards (sh_ctx h)) = length (sg_device_shards ctx)))"
    (is "account ?I _ _ (on_host F ?P)")
proof -
  have read: "account ?I (hostA sh_ctx) (\<lambda>x w. x = ctx \<and> ?I w) (on_host F ?P)"
    by (simp add: account_def hostA_def on_host_def)
  have accepted: "account ?I (liftA (stage_decode_shard_cuda i shard ctx)) (\<lambda>_. ?I) (on_host F ?P)"
    by (simp add: assms account_def liftA_def)
  have first: "account ?I (callA SetDevice) (\<lambda>_. on_host F (\<lambda>h. sh_ctx h = ctx)) (on_host F ?P)"
    by (auto simp: account_def callA_def on_host_def)
  have mark: "account (on_host F (\<lambda>h. sh_ctx h = ctx)) (modifyA (\<lambda>h. h\<lparr>sh_ctx := (sh_ctx h)
       \<lparr>sg_staged_shards := (sg_staged_shards ctx)[unat i := Some shard],
        sg_word_counts := (sg_word_counts ctx)[unat i := Some (length shard)]\<rparr>\<rparr>)) (\<lambda>_. on_host F ?P) (on_host F ?P)"
    by (simp add: account_def modifyA_def on_host_def)
  have fill: "keeps (on_host F ?P) (modifyA (\<lambda>h. h\<lparr>sh_ctx := (sh_ctx h)\<lparr>sg_device_shards := (sg_device_shards ctx)[unat i := Some y]\<rparr>\<rparr>))" for y
    by (rule keeps_modify) simp
  have count: "keeps (on_host F ?P) (modifyA (\<lambda>h. h\<lparr>sh_transfers := sh_transfers h + 1\<rparr>))"
    by (rule keeps_modify) simp
  show ?thesis
    unfolding stage_shard_def
  proof (rule account_host_scope, rule account_bindA [OF read])
    fix x
    show "account (\<lambda>w. x = ctx \<and> ?I w) (bindA (liftA (stage_decode_shard_cuda i shard x)) (\<lambda>_.
     bindA (callA SetDevice) (\<lambda>_.
     bindA (modifyA (\<lambda>h. h\<lparr>sh_ctx := (sh_ctx h)
       \<lparr>sg_staged_shards := (sg_staged_shards x)[unat i := Some shard],
        sg_word_counts := (sg_word_counts x)[unat i := Some (length shard)]\<rparr>\<rparr>)) (\<lambda>_.
     bindA (assign_buffer (Shard_member (unat i))) (\<lambda>_.
     bindA (modifyA (\<lambda>h. h\<lparr>sh_ctx := (sh_ctx h)
       \<lparr>sg_device_shards := (sg_device_shards x)[unat i := Some (map (fresh (unat i)) [0..<length shard])]\<rparr>\<rparr>)) (\<lambda>_.
     bindA CudaEvent_Create (\<lambda>_.
     bindA CudaEvent_Create (\<lambda>_.
     bindA CudaEvent_Record (\<lambda>_.
     bindA (callA Memcpy) (\<lambda>_.
     bindA (modifyA (\<lambda>h. h\<lparr>sh_ctx := (sh_ctx h)
       \<lparr>sg_device_shards := (sg_device_shards x)[unat i := Some shard]\<rparr>\<rparr>)) (\<lambda>_.
     bindA CudaEvent_Record (\<lambda>_.
     bindA push_transfer (\<lambda>_.
     modifyA (\<lambda>h. h\<lparr>sh_transfers := sh_transfers h + 1\<rparr>))))))))))))))
     (\<lambda>_. on_host F (\<lambda>_. True)) (on_host F ?P)" (is "account _ (?m x) _ _")
    proof (cases "x = ctx")
      case True
      have "account ?I (?m ctx) (\<lambda>_. on_host F ?P) (on_host F ?P)"
        by (intro account_bindA [OF accepted] account_bindA [OF first] account_bindA [OF mark] keeps_bindA fill count keeps_runtime) simp_all
      then show ?thesis unfolding True by (rule account_weaken) (simp_all add: on_host_def)
    qed (simp add: account_def)
  qed simp
qed

text \<open>An upload that is refused, or whose first call fails, leaves the context as it was.\<close>

lemma untouched_upload:
  assumes "stage_shard fresh i shard w = (Raised e, w1)"
    and "(\<exists>e'. stage_decode_shard_cuda i shard (sh_ctx (wd_host w)) = Inl e') \<or> wd_faults w SetDevice (wd_calls w)"
  shows "wd_host w1 = wd_host w"
proof -
  have "leave (wd_locals w) (Raised e', w\<lparr>wd_locals := [], wd_calls := n\<rparr>) = (Raised e', w\<lparr>wd_calls := n\<rparr>)" for e' n
    by (simp add: leave_def destructor_def retA_def)
  note gone = this this [of _ "wd_calls w", simplified]
  show ?thesis
    using assms
    by (cases "stage_decode_shard_cuda i shard (sh_ctx (wd_host w))")
      (auto simp: stage_shard_def scope_def bindA_def hostA_def liftA_def callA_def gone)
qed

section \<open>Properties\<close>

text \<open>Why a call throws: its arguments are refused, with the exception of \<open>r\<close>, or a CUDA call failed.\<close>

definition refused :: "(cuda_api \<Rightarrow> nat \<Rightarrow> bool) \<Rightarrow> 'a result \<Rightarrow> exn \<Rightarrow> 'h \<Rightarrow> bool" where
  "refused F r e h \<longleftrightarrow> r = Inl e \<or> e = cuda_error \<and> some_fault F"

lemma hoare_create:
  "hoare F (\<lambda>h. sh_cache h = cache) (create_staging_context device_id n)
    (\<lambda>_ h. create_device_shard_staging_context_cuda device_id n = Inr (sh_ctx h) \<and> sh_cache h = cache) (refused F (create_device_shard_staging_context_cuda device_id n))"
proof (cases "create_device_shard_staging_context_cuda device_id n")
  case (Inl e)
  then show ?thesis by (simp add: create_staging_context_def hoare_def bindA_def liftA_def refused_def)
next
  case (Inr ctx)
  let ?Q = "\<lambda>_ h. create_device_shard_staging_context_cuda device_id n = Inr (sh_ctx h) \<and> sh_cache h = cache"
  have rt: "runtime_only m \<Longrightarrow> hoare F (\<lambda>h. sh_cache h = cache) m (\<lambda>_ h. sh_cache h = cache) (refused F (create_device_shard_staging_context_cuda device_id n))" for m :: "(StagingHost, 'x) action"
    by (rule hoare_pre [OF hoare_runtime]) (simp_all add: refused_def)
  have body: "hoare F (\<lambda>h :: StagingHost. sh_cache h = cache) (bindA (callA GetDevice) (\<lambda>_. bindA (acquire_local StreamCreate CudaStream_handle) (\<lambda>_.
      bindA (move_to_member Stream_member) (\<lambda>_. modifyA (\<lambda>h. h\<lparr>sh_ctx := ctx, sh_transfers := 0\<rparr>))))) ?Q (refused F (create_device_shard_staging_context_cuda device_id n))"
    by (rule hoare_bindA [OF rt], simp, rule hoare_bindA [OF rt], simp, rule hoare_bindA [OF rt], simp) (simp add: hoare_def modifyA_def Inr)
  have "hoare F P (ignoring (callA SetDevice)) (\<lambda>_. P) (\<lambda>_. P)" for P :: "StagingHost \<Rightarrow> bool"
    by (rule hoare_ignoring, rule hoare_pre [OF hoare_runtime]) simp_all
  from hoare_on_exception [OF body this] show ?thesis by (simp add: create_staging_context_def Inr)
qed

text \<open>The context between the checks of an upload and its end; \<open>copied\<close> says that the copy was enqueued.\<close>

definition uploading ::
  "DeviceShardStagingContext \<Rightarrow> ShardId \<Rightarrow> WordShard \<Rightarrow> config_cache \<Rightarrow> bool \<Rightarrow> StagingHost \<Rightarrow> bool" where
  "uploading ctx i shard cache copied h \<longleftrightarrow> (\<exists>device. sh_ctx h = ctx
      \<lparr>sg_staged_shards := (sg_staged_shards ctx)[unat i := Some shard],
       sg_word_counts := (sg_word_counts ctx)[unat i := Some (length shard)], sg_device_shards := device\<rparr> \<and>
     (copied \<longrightarrow> device = (sg_device_shards ctx)[unat i := Some shard])) \<and> sh_cache h = cache"

lemma hoare_uploading:
  "runtime_only m \<Longrightarrow> hoare F (uploading ctx i shard cache d) m (\<lambda>_. uploading ctx i shard cache d) (refused F r)"
  "hoare F (\<lambda>h. sh_ctx h = ctx \<and> sh_cache h = cache) (modifyA (\<lambda>h. h\<lparr>sh_ctx := (sh_ctx h)
     \<lparr>sg_staged_shards := (sg_staged_shards ctx)[unat i := Some shard],
      sg_word_counts := (sg_word_counts ctx)[unat i := Some (length shard)]\<rparr>\<rparr>)) (\<lambda>_. uploading ctx i shard cache False) (refused F r)"
  "hoare F (uploading ctx i shard cache False) (modifyA (\<lambda>h. h\<lparr>sh_ctx := (sh_ctx h)
     \<lparr>sg_device_shards := (sg_device_shards ctx)[unat i := Some x]\<rparr>\<rparr>)) (\<lambda>_. uploading ctx i shard cache False) (refused F r)"
  "hoare F (uploading ctx i shard cache False) (modifyA (\<lambda>h. h\<lparr>sh_ctx := (sh_ctx h)
     \<lparr>sg_device_shards := (sg_device_shards ctx)[unat i := Some shard]\<rparr>\<rparr>)) (\<lambda>_. uploading ctx i shard cache True) (refused F r)"
proof -
  show "runtime_only m \<Longrightarrow> hoare F (uploading ctx i shard cache d) m (\<lambda>_. uploading ctx i shard cache d) (refused F r)"
    by (rule hoare_pre [OF hoare_runtime]) (simp_all add: refused_def)
qed (rule hoare_pre [OF hoare_modifyA]; force simp: uploading_def intro: exI [of _ "sg_device_shards ctx"])+

lemma hoare_stage_shard:
  "hoare F (\<lambda>h. sh_ctx h = ctx \<and> sh_cache h = cache) (stage_shard fresh i shard)
    (\<lambda>_ h. stage_decode_shard_cuda i shard ctx = Inr (sh_ctx h) \<and> sh_cache h = cache) (refused F (stage_decode_shard_cuda i shard ctx))"
  unfolding stage_shard_def
proof (rule hoare_scope, rule hoare_read [where x = ctx], simp, cases "stage_decode_shard_cuda i shard ctx")
  case (Inr ctx1)
  have ctx1: "ctx1 = ctx\<lparr>sg_staged_shards := (sg_staged_shards ctx)[unat i := Some shard],
       sg_word_counts := (sg_word_counts ctx)[unat i := Some (length shard)],
       sg_device_shards := (sg_device_shards ctx)[unat i := Some shard]\<rparr>"
    using Inr by (auto simp: stage_decode_shard_cuda_def split: if_splits)
  have start: "hoare F (\<lambda>h :: StagingHost. sh_ctx h = ctx \<and> sh_cache h = cache) (callA SetDevice) (\<lambda>_ h. sh_ctx h = ctx \<and> sh_cache h = cache) (refused F (stage_decode_shard_cuda i shard ctx))"
    by (rule hoare_pre [OF hoare_runtime]) (simp_all add: refused_def)
  have last: "hoare F (uploading ctx i shard cache True) (modifyA (\<lambda>h. h\<lparr>sh_transfers := sh_transfers h + 1\<rparr>))
      (\<lambda>_ h. Inr ctx1 = Inr (sh_ctx h) \<and> sh_cache h = cache) (refused F (stage_decode_shard_cuda i shard ctx))"
    by (rule hoare_pre [OF hoare_modifyA]) (auto simp: ctx1 uploading_def)
  show "hoare F (\<lambda>h :: StagingHost. sh_ctx h = ctx \<and> sh_cache h = cache) (bindA (liftA (stage_decode_shard_cuda i shard ctx)) (\<lambda>_.
     bindA (callA SetDevice) (\<lambda>_.
     bindA (modifyA (\<lambda>h. h\<lparr>sh_ctx := (sh_ctx h)
       \<lparr>sg_staged_shards := (sg_staged_shards ctx)[unat i := Some shard],
        sg_word_counts := (sg_word_counts ctx)[unat i := Some (length shard)]\<rparr>\<rparr>)) (\<lambda>_.
     bindA (assign_buffer (Shard_member (unat i))) (\<lambda>_.
     bindA (modifyA (\<lambda>h. h\<lparr>sh_ctx := (sh_ctx h)
       \<lparr>sg_device_shards := (sg_device_shards ctx)[unat i := Some (map (fresh (unat i)) [0..<length shard])]\<rparr>\<rparr>)) (\<lambda>_.
     bindA CudaEvent_Create (\<lambda>_.
     bindA CudaEvent_Create (\<lambda>_.
     bindA CudaEvent_Record (\<lambda>_.
     bindA (callA Memcpy) (\<lambda>_.
     bindA (modifyA (\<lambda>h. h\<lparr>sh_ctx := (sh_ctx h)
       \<lparr>sg_device_shards := (sg_device_shards ctx)[unat i := Some shard]\<rparr>\<rparr>)) (\<lambda>_.
     bindA CudaEvent_Record (\<lambda>_.
     bindA push_transfer (\<lambda>_.
     modifyA (\<lambda>h. h\<lparr>sh_transfers := sh_transfers h + 1\<rparr>))))))))))))))
    (\<lambda>_ h. stage_decode_shard_cuda i shard ctx = Inr (sh_ctx h) \<and> sh_cache h = cache) (refused F (stage_decode_shard_cuda i shard ctx))"
    unfolding Inr hoare_returned
    by (rule hoare_bindA [OF start [unfolded Inr]], rule hoare_bindA [OF hoare_uploading(2)], rule hoare_bindA [OF hoare_uploading(1)], simp,
        rule hoare_bindA [OF hoare_uploading(3)], rule hoare_bindA [OF hoare_uploading(1)], simp,
        rule hoare_bindA [OF hoare_uploading(1)], simp, rule hoare_bindA [OF hoare_uploading(1)], simp,
        rule hoare_bindA [OF hoare_uploading(1)], simp, rule hoare_bindA [OF hoare_uploading(4)],
        rule hoare_bindA [OF hoare_uploading(1)], simp, rule hoare_bindA [OF hoare_uploading(1)], simp, rule last [unfolded Inr])
qed (simp add: hoare_def bindA_def liftA_def refused_def)

text \<open>A client that makes a context and its uploads.\<close>

definition begin_staging ::
  "(nat \<Rightarrow> nat \<Rightarrow> ShardWord) \<Rightarrow> int \<Rightarrow> nat \<Rightarrow> (ShardId \<times> WordShard) list \<Rightarrow> (StagingHost, unit) action" where
  "begin_staging fresh device_id shard_count uploads =
     bindA (create_staging_context device_id shard_count) (\<lambda>_. forA (\<lambda>(i, shard). stage_shard fresh i shard) uploads)"

lemma begin_staging_ok:
  assumes "begin_staging fresh device_id n uploads w = (Done (), w')"
  shows "staging_ok (staged_slots n uploads) (sh_ctx (wd_host w')) \<and> sh_cache (wd_host w') = sh_cache (wd_host w) \<and> wd_faults w' = wd_faults w"
proof -
  let ?F = "wd_faults w" and ?cache = "sh_cache (wd_host w)"
  let ?I = "\<lambda>pre (h :: StagingHost). (\<exists>ctx0. create_device_shard_staging_context_cuda device_id n = Inr ctx0 \<and> stage_all pre ctx0 = Inr (sh_ctx h)) \<and> sh_cache h = ?cache"
  have uploads: "hoare ?F (?I []) (forA (\<lambda>(i, shard). stage_shard fresh i shard) uploads) (\<lambda>_. ?I uploads) (\<lambda>_ _. True)"
  proof (rule hoare_forA, rule hoareI)
    fix pre rest and x :: "ShardId \<times> WordShard" and w1 :: "StagingHost World"
    assume "uploads = pre @ x # rest" and w1: "wd_faults w1 = ?F" "?I pre (wd_host w1)"
    obtain i shard where x: "x = (i, shard)" by fastforce
    have "ends ?F (\<lambda>_ h. stage_decode_shard_cuda i shard (sh_ctx (wd_host w1)) = Inr (sh_ctx h) \<and> sh_cache h = ?cache)
        (refused ?F (stage_decode_shard_cuda i shard (sh_ctx (wd_host w1)))) (stage_shard fresh i shard w1)"
      by (rule hoareD [OF hoare_stage_shard]) (use w1 in auto)
    then show "ends ?F (\<lambda>_. ?I (pre @ [x])) (\<lambda>_ _. True) ((case x of (i, shard) \<Rightarrow> stage_shard fresh i shard) w1)"
      unfolding x prod.case by (rule ends_mono) (use w1(2) in \<open>auto simp: stage_all_def foldE_append\<close>)
  qed
  have "hoare ?F (\<lambda>h. sh_cache h = ?cache) (begin_staging fresh device_id n uploads) (\<lambda>_. ?I uploads) (\<lambda>_ _. True)"
    unfolding begin_staging_def
    by (rule hoare_bindA [OF hoare_weaken [OF hoare_create] hoare_pre [OF uploads]]) (auto simp: stage_all_def)
  from hoareD [OF this refl] assms show ?thesis by (auto intro: stage_all_ok)
qed

text \<open>A world for the witnesses.\<close>

definition example_staging :: StagingHost where
  "example_staging = \<lparr>sh_ctx = \<lparr>sg_word_counts = [], sg_staged_shards = [], sg_device_shards = [], sg_plan = DecodePlan_default,
       sg_source_offsets = [], sg_device_id = 0, sg_finalized = False\<rparr>, sh_transfers = 0, sh_shards = [], sh_cache = [],
     sh_timings = \<lparr>h2d_ms = 0, kernel_ms = 0, d2h_ms = 0\<rparr>\<rparr>"

text \<open>Concrete runs, for the witnesses.\<close>

definition example_uploads :: "(ShardId \<times> WordShard) list" where
  "example_uploads = [(4, [7, 5]), (2, [4, 4]), (3, [6, 0])]"

lemma example_begin: "fst (begin_staging (\<lambda>_ _. 77) 0 5 example_uploads (example_world (\<lambda>_ _. False) example_staging)) = Done ()"
  by code_simp

definition failing_copy :: "StagingHost World" where
  "failing_copy = snd (begin_staging (\<lambda>_ _. 77) 0 5 [] (example_world (\<lambda>api _. api = Memcpy) example_staging))"

lemma example_failing_copy:
  "fst (stage_shard (\<lambda>_ _. 77) 2 [4, 4] failing_copy) = Raised cuda_error"
  "length (sg_staged_shards (sh_ctx (wd_host failing_copy))) = length (sg_device_shards (sh_ctx (wd_host failing_copy)))"
  "unat (2 :: ShardId) < length (sg_device_shards (sh_ctx (wd_host failing_copy)))"
  "fst (begin_staging (\<lambda>_ _. 77) 0 5 [] (example_world (\<lambda>api _. api = Memcpy) example_staging)) = Done ()"
  by code_simp+

lemma example_session: "fst (staging_session example_queries (\<lambda>_ _. 77) 0 5 [Stage_call 2 [4, 4], Synchronize_call, Stage_call 2 [4, 4]]
    (example_world (\<lambda>api _. api = Memcpy) example_staging)) = Done ()"
  by code_simp

text \<open>
  C3. A staged decode is all or nothing: once shards have been uploaded, and whatever CUDA calls fail after that, a run on
  any slots ends. If it returns, the slots were exactly what was uploaded, and they become those of the CPU executor; if
  it throws, they are unchanged, and the CPU executor rejects the plan too, or the slots are not what was uploaded, or a
  CUDA call other than \<open>cudaFree\<close> failed; and it ends the process only if a \<open>cudaFree\<close> failed.
\<close>

theorem staged_decode_all_or_nothing:
  assumes "runtime_ok queries" "cache_ok queries (sh_cache (wd_host w0))"
    and "begin_staging fresh device_id n uploads w0 = (Done (), w)"
    and "execute_decode_plan_cpu plan slots = (final, failure)"
    and "staging_call_action queries fresh (Run_call plan slots) w = (v, w')"
  shows "case v of
      Done _ \<Rightarrow> slots = staged_slots n uploads \<and> failure = None \<and> sh_shards (wd_host w') = final
    | Raised e \<Rightarrow> sh_shards (wd_host w') = slots \<and>
        ((\<exists>m. e = InvalidArgument m) \<and> (failure \<noteq> None \<or> slots \<noteq> staged_slots n uploads) \<or>
         e = cuda_error \<and> (\<exists>api k. api \<noteq> Free \<and> wd_faults w0 api k))
    | Terminated \<Rightarrow> \<exists>k. wd_faults w0 Free k
    | Hangs \<Rightarrow> False"
proof -
  note ok = begin_staging_ok [OF assms(3)]
  let ?w = "w\<lparr>wd_host := (wd_host w)\<lparr>sh_shards := slots\<rparr>\<rparr>"
  have run: "run_staged queries fresh plan ?w = (v, w')" using assms(5) by (simp add: bindA_def modifyA_def)
  show ?thesis
  proof (cases "slots = staged_slots n uploads")
    case True
    have "ends (wd_faults w0) (\<lambda>_ h. snd (final, failure) = None \<and> sh_shards h = fst (final, failure))
        (staged_failure (wd_faults w0) slots (final, failure)) (run_staged queries fresh plan ?w)"
      by (rule hoareD [OF hoare_run_staged [OF assms(1) _ _ assms(4), where ctx = "sh_ctx (wd_host ?w)" and cache = "sh_cache (wd_host ?w)"]])
        (use ok assms(2) True in simp_all)
    then show ?thesis using True unfolding run by (cases v) (auto simp: staged_failure_def some_fault_def)
  next
    case False
    have "ends (wd_faults w0) (\<lambda>_ _. False)
        (\<lambda>e h. sh_shards h = slots \<and> ((\<exists>m. e = InvalidArgument m) \<or> e = cuda_error \<and> some_fault (wd_faults w0)))
        (run_staged queries fresh plan ?w)"
      by (rule hoareD [OF hoare_run_mismatch [where ctx = "sh_ctx (wd_host ?w)" and staged = "staged_slots n uploads"]])
        (use ok False in simp_all)
    then show ?thesis using False unfolding run by (cases v) (auto simp: some_fault_def)
  qed
qed

theorem staged_decode_all_or_nothing_witness:
  "\<exists>w w'. begin_staging (\<lambda>_ _. 77) 0 5 example_uploads (example_world (\<lambda>_ _. False) example_staging) = (Done (), w) \<and>
    staging_call_action example_queries (\<lambda>_ _. 77) (Run_call example_plan [None, None, Some [4, 4], Some [6, 0], Some [7, 5]]) w = (Done (), w') \<and>
    sh_shards (wd_host w') = [Some [5, 1], Some [3, 1], Some [4, 4], Some [6, 0], Some [7, 5]]"
proof -
  let ?w0 = "example_world (\<lambda>_ _. False) example_staging"
  let ?slots = "[None, None, Some [4, 4], Some [6, 0], Some [7, 5]] :: ShardSlots"
  obtain w where b: "begin_staging (\<lambda>_ _. 77) 0 5 example_uploads ?w0 = (Done (), w)"
    using example_begin by (cases "begin_staging (\<lambda>_ _. 77) 0 5 example_uploads ?w0") simp
  obtain v w' where run: "staging_call_action example_queries (\<lambda>_ _. 77) (Run_call example_plan ?slots) w = (v, w')" by fastforce
  have slots: "staged_slots 5 example_uploads = ?slots"
    by (simp add: staged_slots_def example_uploads_def replicate_numeral)
  have "cache_ok example_queries (sh_cache (wd_host ?w0))" by (simp add: example_world_def example_staging_def cache_ok_Nil)
  from staged_decode_all_or_nothing [OF example_runtime this b example_execution run]
  have "v = Done ()" "sh_shards (wd_host w') = [Some [5, 1], Some [3, 1], Some [4, 4], Some [6, 0], Some [7, 5]]"
    unfolding slots by (cases v; simp add: example_world_def)+
  then show ?thesis using b run by blast
qed


lemma example_session_stream:
  "wd_live (snd (staging_session example_queries (\<lambda>_ _. 77) 0 5 [Stage_call 2 [4, 4], Synchronize_call, Stage_call 2 [4, 4]]
    (example_world (\<lambda>api _. api = Memcpy \<or> api = StreamDestroy) example_staging))) = {CudaStream_handle 0}"
  "fst (staging_session example_queries (\<lambda>_ _. 77) 0 5 [Stage_call 2 [4, 4], Synchronize_call, Stage_call 2 [4, 4]]
    (example_world (\<lambda>api _. api = Memcpy \<or> api = StreamDestroy) example_staging)) = Done ()"
  by code_simp+


text \<open>
  C38. A failed upload cannot be undone. A call of \<open>stage_decode_shard_cuda\<close> that throws leaves the context as it was if it
  refuses its arguments or its own first call, \<open>cudaSetDevice\<close>, fails. In every other case the staged copy of the shard is already
  recorded; then, after whatever the client does next, with or without further failures, a run with slots in which the shard is
  missing never returns, however recoverable the plan, and if the buffer of the shard had been allocated, uploading the shard
  again never returns either.
\<close>

theorem failed_upload_is_permanent:
  assumes "stage_shard fresh i shard w = (Raised e, w1)"
    and "length (sg_staged_shards (sh_ctx (wd_host w))) = length (sg_device_shards (sh_ctx (wd_host w)))"
    and "forA (\<lambda>call. ignoring (staging_call_action queries fresh call)) calls w1 = (Done (), w2)"
  shows "if (\<exists>e'. stage_decode_shard_cuda i shard (sh_ctx (wd_host w)) = Inl e') \<or> wd_faults w SetDevice (wd_calls w)
    then sh_ctx (wd_host w1) = sh_ctx (wd_host w)
    else sg_staged_shards (sh_ctx (wd_host w1)) ! unat i = Some shard \<and>
      (\<forall>plan slots w3. slots ! unat i = None \<longrightarrow> staging_call_action queries fresh (Run_call plan slots) w2 \<noteq> (Done (), w3)) \<and>
      (sg_device_shards (sh_ctx (wd_host w1)) ! unat i \<noteq> None \<longrightarrow> (\<forall>shard' w3. stage_shard fresh i shard' w2 \<noteq> (Done (), w3)))"
proof (cases "(\<exists>e'. stage_decode_shard_cuda i shard (sh_ctx (wd_host w)) = Inl e') \<or> wd_faults w SetDevice (wd_calls w)")
  case True
  then show ?thesis using untouched_upload [OF assms(1) True] by simp
next
  case False
  let ?F = "wd_faults w" and ?ctx = "sh_ctx (wd_host w)" and ?ctx1 = "sh_ctx (wd_host w1)"
  obtain ctx where ctx: "stage_decode_shard_cuda i shard ?ctx = Inr ctx"
    using False by (cases "stage_decode_shard_cuda i shard ?ctx") auto
  then have i: "unat i < length (sg_device_shards ?ctx)" by (auto simp: stage_decode_shard_cuda_def split: if_splits)
  have recorded: "wd_faults w1 = ?F" "sg_staged_shards ?ctx1 = (sg_staged_shards ?ctx)[unat i := Some shard]"
      "length (sg_device_shards ?ctx1) = length (sg_device_shards ?ctx)"
    using accountD [OF account_recorded_upload [OF ctx], of ?F w fresh] False assms(1) by (simp_all add: on_host_def)
  have wedged: "wedged b (unat i) (sh_ctx (wd_host w2))" if b: "b \<longrightarrow> sg_device_shards ?ctx1 ! unat i \<noteq> None" for b
  proof -
    have "on_host ?F (\<lambda>h. wedged b (unat i) (sh_ctx h)) w1"
      using recorded i assms(2) b by (auto simp: on_host_def wedged_def staged_slot_def upload_blocked_def)
    moreover have "keeps (on_host ?F (\<lambda>h. wedged b (unat i) (sh_ctx h))) (forA (\<lambda>call. ignoring (staging_call_action queries fresh call)) calls)"
      by (intro keeps_forA keeps_ignoring keeps_wedged_call)
    ultimately have "on_host ?F (\<lambda>h. wedged b (unat i) (sh_ctx h)) w2" using accountD assms(3) by fastforce
    then show ?thesis by (simp add: on_host_def)
  qed
  have "sg_staged_shards ?ctx1 ! unat i = Some shard" using recorded(2) i assms(2) by simp
  moreover have "staging_call_action queries fresh (Run_call plan slots) w2 \<noteq> (Done (), w3)" if "slots ! unat i = None" for plan slots w3
    using wedged_run [OF _ that] wedged [of False] by (simp add: wedged_def del: staging_call_action.simps)
  moreover have "stage_shard fresh i shard' w2 \<noteq> (Done (), w3)" if "sg_device_shards ?ctx1 ! unat i \<noteq> None" for shard' w3
    using wedged_stage wedged [of True] that by (simp add: wedged_def)
  ultimately show ?thesis unfolding if_not_P [OF False] by blast
qed

lemma example_failing_copy_buffer:
  "sg_device_shards (sh_ctx (wd_host (snd (stage_shard (\<lambda>_ _. 77) 2 [4, 4] failing_copy)))) ! 2 \<noteq> None"
  by code_simp

theorem failed_upload_is_permanent_witness:
  "\<exists>w1. stage_shard (\<lambda>_ _. 77) 2 [4, 4] failing_copy = (Raised cuda_error, w1) \<and>
    (\<forall>w3. staging_call_action example_queries (\<lambda>_ _. 77) (Run_call example_plan [None, None, None, Some [6, 0], Some [7, 5]]) w1 \<noteq> (Done (), w3) \<and>
      stage_shard (\<lambda>_ _. 77) 2 [4, 4] w1 \<noteq> (Done (), w3))"
proof -
  obtain w1 where s: "stage_shard (\<lambda>_ _. 77) 2 [4, 4] failing_copy = (Raised cuda_error, w1)"
    using example_failing_copy(1) by (cases "stage_shard (\<lambda>_ _. 77) 2 [4, 4] failing_copy") simp
  have ok: "staging_ok (staged_slots 5 []) (sh_ctx (wd_host failing_copy))" "wd_faults failing_copy = (\<lambda>api _. api = Memcpy)"
    using begin_staging_ok [of "\<lambda>_ _. 77" 0 5 "[]" "example_world (\<lambda>api _. api = Memcpy) example_staging" failing_copy] example_failing_copy(4)
    by (simp_all add: failing_copy_def prod_eq_iff example_world_def)
  obtain ctx where ctx: "stage_decode_shard_cuda 2 [4, 4] (sh_ctx (wd_host failing_copy)) = Inr ctx"
    using ok(1) by (simp add: staging_ok_def stage_decode_shard_cuda_def staged_slots_def replicate_numeral)
  have buffer: "sg_device_shards (sh_ctx (wd_host w1)) ! 2 \<noteq> None" using example_failing_copy_buffer unfolding s by simp
  have accepted: "\<not> ((\<exists>e'. stage_decode_shard_cuda 2 [4, 4] (sh_ctx (wd_host failing_copy)) = Inl e') \<or>
      wd_faults failing_copy SetDevice (wd_calls failing_copy))"
    using ctx ok(2) by simp
  have calls: "forA (\<lambda>call. ignoring (staging_call_action example_queries (\<lambda>_ _. 77) call)) [] w1 = (Done (), w1)"
    by (simp add: retA_def)
  from failed_upload_is_permanent [OF s example_failing_copy(2) calls, unfolded if_not_P [OF accepted]] buffer s
  show ?thesis by (auto simp del: staging_call_action.simps)
qed

end
