(* ===== verification/CudaPrepared.thy ===== *)
theory CudaPrepared imports CudaStaging begin

text \<open>
  The prepared context of \<open>kernels/sparse_decoder.cu\<close>, call by call: \<open>prepare_decode_plan_cuda\<close> allocates and uploads
  everything once, the launches run the plan on the context's stream, and the results are downloaded when the caller wants
  them. The stream, two timing events and the buffers are members of the context, which is destroyed when the preparation
  throws or by the client at the end.

  The theorems say that a context can be used in any way, launched any number of times and with any call failing,
  and that a launch that returns followed by a download that returns yields the slots of the CPU executor; and that
  nothing is leaked.
\<close>

section \<open>The operations\<close>

record PreparedHost =
  ph_ctx :: DeviceDecodeContext
  ph_shards :: ShardSlots
  ph_cache :: config_cache

text \<open>\<open>~Impl\<close>, and the destructors of the members.\<close>

definition destroy_prepared_context :: "('h, unit) action" where
  "destroy_prepared_context =
     bindA (destroy_members (\<lambda>k. k = Event_member 0)) (\<lambda>_.
     bindA (destroy_members (\<lambda>k. k = Event_member 1)) (\<lambda>_.
     bindA (destroy_members (\<lambda>k. k = Stream_member)) (\<lambda>_.
     destroy_members (\<lambda>_. True))))"

text \<open>The runtime writes a handle into a member of the context.\<close>

definition acquire_member :: "cuda_api \<Rightarrow> (nat \<Rightarrow> resource) \<Rightarrow> member \<Rightarrow> ('h, unit) action" where
  "acquire_member api mk k = bindA (acquire_local api mk) (\<lambda>_. move_to_member k)"

definition prepare_shard :: "(nat \<Rightarrow> nat \<Rightarrow> ShardWord) \<Rightarrow> ScanState \<Rightarrow> ShardSlots \<Rightarrow> nat \<Rightarrow> (PreparedHost, unit) action" where
  "prepare_shard fresh sc shards i =
     (if required_shards sc ! i
      then bindA (assign_buffer (Shard_member i)) (\<lambda>_.
        bindA (modifyA (\<lambda>h. h\<lparr>ph_ctx := (ph_ctx h)\<lparr>dd_device_shards :=
          (dd_device_shards (ph_ctx h))[i := Some (map (fresh i) [0..<the (word_counts sc ! i)])]\<rparr>\<rparr>)) (\<lambda>_.
        if shards ! i \<noteq> None
        then bindA (callA Memcpy) (\<lambda>_. modifyA (\<lambda>h. h\<lparr>ph_ctx := (ph_ctx h)\<lparr>dd_device_shards :=
               (dd_device_shards (ph_ctx h))[i := shards ! i]\<rparr>\<rparr>))
        else retA ()))
      else retA ())"

definition prepare :: "int \<Rightarrow> (nat \<Rightarrow> nat \<Rightarrow> ShardWord) \<Rightarrow> DecodePlan \<Rightarrow> (PreparedHost, unit) action" where
  "prepare device_id fresh plan =
     bindA (liftA (ValidatePlanShape plan)) (\<lambda>_.
     on_exception
       (bindA (callA GetDevice) (\<lambda>_.
        bindA (acquire_member StreamCreate CudaStream_handle Stream_member) (\<lambda>_.
        bindA (acquire_member EventCreate CudaEvent_handle (Event_member 0)) (\<lambda>_.
        bindA (acquire_member EventCreate CudaEvent_handle (Event_member 1)) (\<lambda>_.
        bindA (hostA ph_shards) (\<lambda>shards.
        bindA (liftA (bindE (scan_slots shards) (scan_plan plan))) (\<lambda>sc.
        bindA (modifyA (\<lambda>h. h\<lparr>ph_ctx := \<lparr>dd_plan = plan, dd_scan = sc, dd_device_shards = replicate (length shards) None,
          dd_device_id = device_id\<rparr>\<rparr>)) (\<lambda>_.
        bindA (forA (prepare_shard fresh sc shards) [0..<length shards]) (\<lambda>_.
        bindA (if operations plan = [] then retA ()
               else bindA (upload_member Table_member) (\<lambda>_. upload_member SourceIds_member)) (\<lambda>_.
        callA Synchronize))))))))))
       destroy_prepared_context)"

definition launch_prepared ::
  "(int \<Rightarrow> KernelId \<Rightarrow> DeviceQueries) \<Rightarrow> nat \<times> XorOperation \<Rightarrow> (PreparedHost, unit) action" where
  "launch_prepared queries iop =
     bindA (hostA (\<lambda>h. map_of (ph_cache h) (dd_device_id (ph_ctx h), xor_kernel_id (length (xo_sources (snd iop)))))) (\<lambda>cached.
     bindA (if cached = None then callA LaunchConfig else retA ()) (\<lambda>_.
     bindA (hostA (\<lambda>h. launch_operation queries (dd_device_id (ph_ctx h)) (dd_scan (ph_ctx h)) iop (dd_device_shards (ph_ctx h), ph_cache h))) (\<lambda>r.
     bindA (liftR r) (\<lambda>(device, cache).
     bindA (modifyA (\<lambda>h. h\<lparr>ph_ctx := (ph_ctx h)\<lparr>dd_device_shards := device\<rparr>, ph_cache := cache\<rparr>)) (\<lambda>_.
     callA LastError)))))"

definition launch_context :: "(int \<Rightarrow> KernelId \<Rightarrow> DeviceQueries) \<Rightarrow> (PreparedHost, unit) action" where
  "launch_context queries =
     bindA (callA SetDevice) (\<lambda>_.
     bindA (hostA (\<lambda>h. operations (dd_plan (ph_ctx h)))) (\<lambda>ops.
     forA (launch_prepared queries) (List.enumerate 0 ops)))"

definition launch_context_timed :: "(int \<Rightarrow> KernelId \<Rightarrow> DeviceQueries) \<Rightarrow> (PreparedHost, real) action" where
  "launch_context_timed queries =
     bindA (callA SetDevice) (\<lambda>_.
     bindA (callA EventRecord) (\<lambda>_.
     bindA (launch_context queries) (\<lambda>_.
     bindA (callA EventRecord) (\<lambda>_.
     bindA (callA Synchronize) (\<lambda>_.
     ElapsedTime)))))"

definition synchronize_context :: "('h, unit) action" where
  "synchronize_context = bindA (callA SetDevice) (\<lambda>_. callA Synchronize)"

definition download_context :: "(PreparedHost, unit) action" where
  "download_context =
     bindA (hostA ph_ctx) (\<lambda>ctx.
     bindA (hostA ph_shards) (\<lambda>shards.
     bindA (liftA (throw_if (length shards \<noteq> length (word_counts (dd_scan ctx)))
       (InvalidArgument ''Destination shard slots must match the prepared context''))) (\<lambda>_.
     bindA (callA SetDevice) (\<lambda>_.
     bindA (forA (\<lambda>_. callA Memcpy) (operations (dd_plan ctx))) (\<lambda>_.
     bindA (callA Synchronize) (\<lambda>_.
     modifyA (\<lambda>h. h\<lparr>ph_shards := download (operations (dd_plan ctx)) (dd_device_shards ctx) (ph_shards h)\<rparr>)))))))"

text \<open>What a client does with a context; \<open>Download_call\<close> has the destination of the download.\<close>

datatype prepared_call = Launch_call | Timed_launch_call | Wait_call | Download_call ShardSlots

fun prepared_call_action :: "(int \<Rightarrow> KernelId \<Rightarrow> DeviceQueries) \<Rightarrow> prepared_call \<Rightarrow> (PreparedHost, unit) action" where
  "prepared_call_action queries Launch_call = launch_context queries"
| "prepared_call_action queries Timed_launch_call = bindA (launch_context_timed queries) (\<lambda>_. retA ())"
| "prepared_call_action queries Wait_call = synchronize_context"
| "prepared_call_action queries (Download_call slots) = bindA (modifyA (\<lambda>h. h\<lparr>ph_shards := slots\<rparr>)) (\<lambda>_. download_context)"

text \<open>Exceptions of the calls are caught by the client.\<close>

definition prepared_session ::
  "(int \<Rightarrow> KernelId \<Rightarrow> DeviceQueries) \<Rightarrow> int \<Rightarrow> (nat \<Rightarrow> nat \<Rightarrow> ShardWord) \<Rightarrow> DecodePlan \<Rightarrow> prepared_call list \<Rightarrow> (PreparedHost, unit) action" where
  "prepared_session queries device_id fresh plan calls =
     bindA (prepare device_id fresh plan) (\<lambda>_.
     bindA (forA (\<lambda>call. ignoring (prepared_call_action queries call)) calls) (\<lambda>_.
     destroy_prepared_context))"

section \<open>The resources\<close>

lemma keeps_acquire_member:
  assumes "\<And>n. handle (mk n) = n"
  shows "keeps (context_tidy F B) (acquire_member api mk k :: ('h, unit) action)"
  unfolding acquire_member_def acquire_local_def bindA_assoc
proof (rule account_bindA [OF keeps_context(4)], rule accountI)
  fix w :: "'h World"
  assume w: "context_tidy F B w"
  let ?r = "mk (wd_next w)"
  let ?w = "w\<lparr>wd_live := insert ?r (wd_live w), wd_next := wd_next w + 1, wd_locals := ?r # wd_locals w\<rparr>"
  have "tidy F UNIV B UNIV {[]} ?w" by (rule tidy_acquire_local) (use w assms in \<open>simp_all add: context_tidy_def\<close>)
  then have t: "settles (\<lambda>_. tidy F UNIV B UNIV {[]}) (tidy F UNIV B UNIV {[]}) (move_to_member k ?w)"
    by (intro accountD [OF keeps_move]) simp
  obtain v w' where r: "move_to_member k ?w = (v, w')" by fastforce
  then have "wd_locals w' = []" using w members_locals(2) [of k ?w] by (simp add: context_tidy_def)
  then show "settles (\<lambda>_. context_tidy F B) (context_tidy F B) (bindA (\<lambda>w. let r = mk (wd_next w) in
      (Done (), w\<lparr>wd_live := insert r (wd_live w), wd_next := wd_next w + 1, wd_locals := r # wd_locals w\<rparr>)) (\<lambda>_. move_to_member k) w)"
    using t r by (cases v) (simp_all add: bindA_def Let_def context_tidy_def)
qed

lemma keeps_context_steps [account_rules]:
  "keeps (context_tidy F B) (retA x)" "keeps (context_tidy F B) (liftR r)" "keeps (context_tidy F B) ElapsedTime"
  "keeps (context_tidy F B) (assign_buffer k)"
proof -
  show "keeps (context_tidy F B) (assign_buffer k)"
    unfolding assign_buffer_def AllocateDeviceBuffer_def acquire_member_def [symmetric]
    by (rule keeps_acquire_member) simp
qed (auto simp: account_def retA_def liftR_def liftA_def ElapsedTime_def bindA_def callA_def context_tidy_def split: option.split sum.split)

lemma keeps_launch_prepared [account_rules]: "keeps (context_tidy F B) (launch_prepared queries iop)"
  unfolding launch_prepared_def by (intro account_rules)

lemma keeps_prepared_call: "keeps (context_tidy F B) (prepared_call_action queries call)"
  by (cases call; simp only: prepared_call_action.simps launch_context_def launch_context_timed_def
      synchronize_context_def download_context_def; intro account_rules)

lemma account_destroy_prepared: "account (context_tidy F B) destroy_prepared_context (\<lambda>_. nothing_owned F B) X"
  unfolding destroy_prepared_context_def by (intro account_bindA [OF account_destroy_context] account_clear_members)

lemma keeps_prepare_shard [account_rules]: "keeps (context_tidy F B) (prepare_shard fresh sc shards i)"
  unfolding prepare_shard_def by (intro account_rules)

lemma account_prepare:
  "account (nothing_owned F B) (prepare device_id fresh plan) (\<lambda>_. context_tidy F B) (nothing_owned F B)"
proof -
  have sub: "account (context_tidy F B) m J (context_tidy F B) \<Longrightarrow> account (nothing_owned F B) m J (context_tidy F B)" for m :: "(PreparedHost, unit) action" and J
    by (erule account_weaken) (auto simp: nothing_owned_def context_tidy_def elim: tidy_mono)
  show ?thesis
    unfolding prepare_def upload_member_def
    by (intro account_bindA [OF keeps_nothing(2)] account_on_exception [OF sub account_destroy_prepared] account_rules keeps_acquire_member) simp_all
qed

lemma account_prepared_session:
  "account (nothing_owned F B) (prepared_session queries device_id fresh plan calls) (\<lambda>_. nothing_owned F B) (nothing_owned F B)"
  unfolding prepared_session_def
  by (rule account_bindA [OF account_prepare], rule account_bindA [OF account_forA account_destroy_prepared])
    (rule account_ignoring [OF keeps_prepared_call])

section \<open>The host memory\<close>

text \<open>The context of a plan whose scan is \<open>sc\<close>, with the device holding what \<open>slots\<close> require.\<close>

definition prepared_ok ::
  "(int \<Rightarrow> KernelId \<Rightarrow> DeviceQueries) \<Rightarrow> DecodePlan \<Rightarrow> ScanState \<Rightarrow> ShardSlots \<Rightarrow> PreparedHost \<Rightarrow> bool" where
  "prepared_ok queries plan sc slots h \<longleftrightarrow> dd_plan (ph_ctx h) = plan \<and> dd_scan (ph_ctx h) = sc \<and>
     holds sc slots (dd_device_shards (ph_ctx h)) \<and> cache_ok queries (ph_cache h)"

definition prepared_is :: "DeviceDecodeContext \<Rightarrow> config_cache \<Rightarrow> device_table \<Rightarrow> PreparedHost \<Rightarrow> bool" where
  "prepared_is ctx cache device h \<longleftrightarrow> ph_ctx h = ctx\<lparr>dd_device_shards := device\<rparr> \<and> ph_cache h = cache"

lemma hoare_launch_prepared:
  assumes "launch_operation queries (dd_device_id ctx) (dd_scan ctx) iop (d, cache) = Some (Inr (d', cache'))"
    and "\<And>h. some_fault F \<Longrightarrow> prepared_is ctx cache d h \<Longrightarrow> E cuda_error h"
      "\<And>h. some_fault F \<Longrightarrow> prepared_is ctx cache' d' h \<Longrightarrow> E cuda_error h"
  shows "hoare F (prepared_is ctx cache d) (launch_prepared queries iop) (\<lambda>_. prepared_is ctx cache' d') E"
proof -
  have keep: "runtime_only m \<Longrightarrow> hoare F (prepared_is ctx cache d) m (\<lambda>_. prepared_is ctx cache d) E"
    "runtime_only m \<Longrightarrow> hoare F (prepared_is ctx cache' d') m (\<lambda>_. prepared_is ctx cache' d') E" for m :: "(PreparedHost, unit) action"
    by (rule hoare_pre [OF hoare_runtime], simp, simp add: assms(2,3))+
  have set: "hoare F (prepared_is ctx cache d)
      (bindA (modifyA (\<lambda>h. h\<lparr>ph_ctx := (ph_ctx h)\<lparr>dd_device_shards := d'\<rparr>, ph_cache := cache'\<rparr>)) (\<lambda>_. callA LastError))
      (\<lambda>_. prepared_is ctx cache' d') E"
    by (rule hoare_bindA [OF _ keep(2)], rule hoare_pre [OF hoare_modifyA]) (simp_all add: prepared_is_def)
  show ?thesis
    unfolding launch_prepared_def
    by (rule hoare_read [where x = "map_of cache (dd_device_id ctx, xor_kernel_id (length (xo_sources (snd iop))))"], simp add: prepared_is_def,
        rule hoare_bindA [OF keep(1)], simp,
        rule hoare_read [where x = "Some (Inr (d', cache'))"], simp add: prepared_is_def assms(1), simp add: hoare_returned set)
qed

definition launch_failure ::
  "(int \<Rightarrow> KernelId \<Rightarrow> DeviceQueries) \<Rightarrow> (cuda_api \<Rightarrow> nat \<Rightarrow> bool) \<Rightarrow> DecodePlan \<Rightarrow> ScanState \<Rightarrow> ShardSlots \<Rightarrow> exn \<Rightarrow> PreparedHost \<Rightarrow> bool" where
  "launch_failure queries F plan sc slots e h \<longleftrightarrow> e = cuda_error \<and> some_fault F \<and> prepared_ok queries plan sc slots h"

lemma hoare_launch_loop:
  assumes "runtime_ok queries" "\<forall>iop\<in>set iops. launchable sc iop" "execute_operations (map snd iops) s = (final, None)"
    and "\<forall>i w. slot final i = Some w \<longrightarrow> word_counts sc ! unat i = Some (length w)"
    and "length s = length slots" "\<forall>i<length slots. slots ! i \<noteq> None \<longrightarrow> s ! i = slots ! i"
  shows "hoare F (prepared_ok queries plan sc s) (forA (launch_prepared queries) iops) (\<lambda>_. prepared_ok queries plan sc final)
    (launch_failure queries F plan sc slots)"
  using assms(2,3,5,6)
proof (induction iops arbitrary: s)
  case Nil
  then show ?case by (simp add: hoare_skip)
next
  case (Cons iop iops)
  obtain j op where iop: "iop = (j, op)" by fastforce
  obtain s1 where s1: "execute_operation op s = Inr s1" "execute_operations (map snd iops) s1 = (final, None)"
    using Cons.prems(2) iop by (auto split: sum.splits)
  have len: "length s1 = length slots" using execute_operation_frame(1) [OF s1(1)] Cons.prems(3) by simp
  have ext: "\<forall>i<length slots. slots ! i \<noteq> None \<longrightarrow> s1 ! i = slots ! i"
    using Cons.prems(3,4) s1(1) by (auto simp: execute_operation_Inr nth_list_update slot_def split: if_splits)
  have out: "\<forall>w. slot s1 (xo_output op) = Some w \<longrightarrow> word_counts sc ! unat (xo_output op) = Some (length w)"
    using execute_operations_frame [of "map snd iops" s1 "xo_output op"] s1(2) assms(4) by simp
  have weaken: "prepared_ok queries plan sc s' h \<Longrightarrow> length s' = length slots \<Longrightarrow> \<forall>i<length slots. slots ! i \<noteq> None \<longrightarrow> s' ! i = slots ! i \<Longrightarrow>
      prepared_ok queries plan sc slots h" for s' h
    unfolding prepared_ok_def using holds_weaken by blast
  have "hoare F (prepared_ok queries plan sc s) (launch_prepared queries iop) (\<lambda>_. prepared_ok queries plan sc s1)
      (launch_failure queries F plan sc slots)"
  proof (rule hoareI)
    fix w :: "PreparedHost World"
    assume w: "wd_faults w = F" "prepared_ok queries plan sc s (wd_host w)"
    let ?ctx = "ph_ctx (wd_host w)" and ?cache = "ph_cache (wd_host w)"
    have la: "launchable sc (j, op)" using Cons.prems(1) iop by simp
    obtain d' cache' where l: "launch_operation queries (dd_device_id ?ctx) sc (j, op) (dd_device_shards ?ctx, ?cache) = Some (Inr (d', cache'))"
        "holds sc s1 d'" "cache_ok queries cache'"
      using launch_operation_ok [OF assms(1) _ _ la s1(1) out] w(2) unfolding prepared_ok_def by blast
    have scan: "dd_scan ?ctx = sc" using w(2) by (simp add: prepared_ok_def)
    have before: "prepared_ok queries plan sc slots h" if "prepared_is ?ctx ?cache (dd_device_shards ?ctx) h" for h
      using weaken [of s] Cons.prems(3,4) w(2) that by (simp add: prepared_ok_def prepared_is_def)
    have after: "prepared_ok queries plan sc s1 h" if "prepared_is ?ctx cache' d' h" for h
      using l(2,3) w(2) that by (simp add: prepared_ok_def prepared_is_def)
    have "hoare F (prepared_is ?ctx ?cache (dd_device_shards ?ctx)) (launch_prepared queries iop) (\<lambda>_. prepared_is ?ctx cache' d')
        (launch_failure queries F plan sc slots)"
      by (rule hoare_launch_prepared) (simp_all add: l(1) iop scan before after weaken [OF after len ext] launch_failure_def)
    then have "ends F (\<lambda>_. prepared_is ?ctx cache' d') (launch_failure queries F plan sc slots) (launch_prepared queries iop w)"
      by (rule hoareD) (simp_all add: w(1) prepared_is_def)
    then show "ends F (\<lambda>_. prepared_ok queries plan sc s1) (launch_failure queries F plan sc slots) (launch_prepared queries iop w)"
      by (rule ends_mono) (simp_all add: after)
  qed
  from hoare_bindA [OF this Cons.IH [OF _ s1(2) len ext]] Cons.prems(1) show ?case by simp
qed

text \<open>After a launch that returns, the device holds the outputs, whatever was launched before.\<close>

definition launched ::
  "(int \<Rightarrow> KernelId \<Rightarrow> DeviceQueries) \<Rightarrow> DecodePlan \<Rightarrow> ScanState \<Rightarrow> ShardSlots \<Rightarrow> PreparedHost \<Rightarrow> bool" where
  "launched queries plan sc slots h \<longleftrightarrow> prepared_ok queries plan sc slots h \<and>
     download (operations plan) (dd_device_shards (ph_ctx h)) slots = fst (execute_operations (operations plan) slots)"

lemma hoare_launch_context:
  assumes "runtime_ok queries" "fresh_scan sc0 slots" "scan_plan plan sc0 = Inr sc"
  shows "hoare F (prepared_ok queries plan sc slots) (launch_context queries) (\<lambda>_. launched queries plan sc slots)
    (launch_failure queries F plan sc slots)"
proof -
  obtain final where s: "execute_operations (operations plan) slots = (final, None)" "tracks sc final"
    "\<forall>iop\<in>set (List.enumerate 0 (operations plan)). launchable sc iop"
    "\<forall>op\<in>set (operations plan). required_shards sc ! unat (xo_output op)"
    "\<forall>i<length slots. slots ! i \<noteq> None \<longrightarrow> final ! i = slots ! i" "length final = length slots"
    by (rule scan_complete [OF assms(2,3)])
  have counts: "\<forall>i w. slot final i = Some w \<longrightarrow> word_counts sc ! unat i = Some (length w)"
    using s(2) by (auto simp: tracks_def slot_def split: if_splits)
  have final: "hoare F (prepared_ok queries plan sc slots) (forA (launch_prepared queries) (List.enumerate 0 (operations plan)))
      (\<lambda>_. prepared_ok queries plan sc final) (launch_failure queries F plan sc slots)"
    by (rule hoare_launch_loop [OF assms(1) s(3) _ counts]) (simp_all add: s(1))
  have "prepared_ok queries plan sc final h \<Longrightarrow> launched queries plan sc slots h" for h
    using download_final [OF s(1) _ s(4) refl] holds_weaken s(1,5,6)
    unfolding launched_def prepared_ok_def by fastforce
  then have loop: "hoare F (prepared_ok queries plan sc slots) (forA (launch_prepared queries) (List.enumerate 0 (operations plan)))
      (\<lambda>_. launched queries plan sc slots) (launch_failure queries F plan sc slots)"
    by (intro hoare_weaken [OF final]) simp_all
  have set: "hoare F (prepared_ok queries plan sc slots) (callA SetDevice) (\<lambda>_. prepared_ok queries plan sc slots)
      (launch_failure queries F plan sc slots)"
    by (rule hoare_pre [OF hoare_runtime]) (simp_all add: launch_failure_def)
  show ?thesis
    unfolding launch_context_def
    by (rule hoare_bindA [OF set], rule hoare_read [where x = "operations plan"], simp add: prepared_ok_def, rule loop)
qed

text \<open>The preparation.\<close>

lemma scan_slots_Inr: "scan_slots slots = Inr sc0 \<Longrightarrow> fresh_scan sc0 slots"
  using scan_slots_fresh [of slots] by (cases "Some [] \<in> set slots") (auto simp: scan_slots_def reject_any_def list_ex_iff)

lemma fold_prepare:
  "fold (\<lambda>i d. if required_shards sc ! i
       then d[i := if slots ! i \<noteq> None then slots ! i else Some (map (fresh i) [0..<the (word_counts sc ! i)])] else d)
     [0..<n] (replicate n None) = upload sc slots (allocate fresh sc (replicate n None))"
  by (subst fold_update_upt [where c = "\<lambda>i _. required_shards sc ! i"]) (simp_all add: upload_def allocate_def)

lemma hoare_prepare_shard:
  "hoare F (prepared_is ctx cache d) (prepare_shard fresh sc slots i)
    (\<lambda>_. prepared_is ctx cache (if required_shards sc ! i
       then d[i := if slots ! i \<noteq> None then slots ! i else Some (map (fresh i) [0..<the (word_counts sc ! i)])] else d)) (\<lambda>_ _. True)"
proof (cases "required_shards sc ! i")
  case True
  let ?new = "Some (map (fresh i) [0..<the (word_counts sc ! i)])"
  have rt: "runtime_only m \<Longrightarrow> hoare F (prepared_is ctx cache e) m (\<lambda>_. prepared_is ctx cache e) (\<lambda>_ _. True)" for m :: "(PreparedHost, unit) action" and e
    by (rule hoare_pre [OF hoare_runtime]) simp_all
  have set: "hoare F (prepared_is ctx cache e) (modifyA (\<lambda>h. h\<lparr>ph_ctx := (ph_ctx h)\<lparr>dd_device_shards := (dd_device_shards (ph_ctx h))[i := y]\<rparr>\<rparr>))
      (\<lambda>_. prepared_is ctx cache (e[i := y])) (\<lambda>_ _. True)" for e y
    by (rule hoare_pre [OF hoare_modifyA]) (simp add: prepared_is_def)
  show ?thesis
  proof (cases "slots ! i = None")
    case None: True
    have "hoare F (prepared_is ctx cache d) (prepare_shard fresh sc slots i) (\<lambda>_. prepared_is ctx cache (d[i := ?new])) (\<lambda>_ _. True)"
      unfolding prepare_shard_def if_P [OF True]
      by (rule hoare_bindA [OF rt [OF runtime_only_assign(1)]], rule hoare_bindA [OF set]) (simp add: None hoare_skip)
    then show ?thesis by (simp add: True None)
  next
    case False
    have "hoare F (prepared_is ctx cache (d[i := ?new])) (bindA (callA Memcpy) (\<lambda>_. modifyA (\<lambda>h. h\<lparr>ph_ctx := (ph_ctx h)\<lparr>dd_device_shards :=
        (dd_device_shards (ph_ctx h))[i := slots ! i]\<rparr>\<rparr>))) (\<lambda>_. prepared_is ctx cache (d[i := slots ! i])) (\<lambda>_ _. True)"
      using hoare_bindA [OF rt set, of "callA Memcpy" "d[i := ?new]"] by simp
    then have "hoare F (prepared_is ctx cache d) (prepare_shard fresh sc slots i) (\<lambda>_. prepared_is ctx cache (d[i := slots ! i])) (\<lambda>_ _. True)"
      unfolding prepare_shard_def if_P [OF True] if_P [OF False]
      by (intro hoare_bindA [OF rt [OF runtime_only_assign(1)]] hoare_bindA [OF set])
    then show ?thesis by (simp only: True False if_True simp_thms)
  qed
qed (simp add: prepare_shard_def hoare_skip)

lemma hoare_lift: "r = Inr x \<Longrightarrow> hoare F P (k x) Q E \<Longrightarrow> hoare F P (bindA (liftA r) k) Q E"
  by simp

lemma hoare_prepare:
  assumes "cache_ok queries cache"
  shows "hoare F (\<lambda>h. ph_shards h = slots \<and> ph_cache h = cache) (prepare dev fresh plan)
    (\<lambda>_ h. \<exists>sc0 sc. ValidatePlanShape plan = Inr () \<and> fresh_scan sc0 slots \<and> scan_plan plan sc0 = Inr sc \<and> prepared_ok queries plan sc slots h)
    (\<lambda>_ _. True)" (is "hoare F ?P _ ?Q ?E")
proof (cases "ValidatePlanShape plan")
  case (Inl e)
  then show ?thesis by (simp add: prepare_def hoare_def bindA_def liftA_def)
next
  case (Inr u)
  then have shape: "ValidatePlanShape plan = Inr ()" by simp
  have rt: "runtime_only m \<Longrightarrow> hoare F ?P m (\<lambda>_. ?P) ?E" for m :: "(PreparedHost, unit) action"
    by (rule hoare_pre [OF hoare_runtime]) simp_all
  have acq: "runtime_only (acquire_member api mk k)" if "api \<noteq> Free" for api mk k
    using that by (simp add: acquire_member_def runtime_only_bindA)
  have clean: "hoare F (\<lambda>_. True) destroy_prepared_context (\<lambda>_ _. True) (\<lambda>_ _. True)"
    unfolding destroy_prepared_context_def
    by (rule hoare_pre [OF hoare_runtime]) (simp_all add: runtime_only_bindA)
  have rest: "hoare F ?P (bindA (liftA (bindE (scan_slots slots) (scan_plan plan))) (\<lambda>sc.
        bindA (modifyA (\<lambda>h. h\<lparr>ph_ctx := \<lparr>dd_plan = plan, dd_scan = sc, dd_device_shards = replicate (length slots) None, dd_device_id = dev\<rparr>\<rparr>)) (\<lambda>_.
        bindA (forA (prepare_shard fresh sc slots) [0..<length slots]) (\<lambda>_.
        bindA (if operations plan = [] then retA () else bindA (upload_member Table_member) (\<lambda>_. upload_member SourceIds_member)) (\<lambda>_.
        callA Synchronize))))) ?Q ?E"
  proof (cases "bindE (scan_slots slots) (scan_plan plan)")
    case (Inl e)
    then show ?thesis by (simp add: hoare_def bindA_def liftA_def)
  next
    case (Inr sc)
    then obtain sc0 where sc0: "scan_slots slots = Inr sc0" "scan_plan plan sc0 = Inr sc" by (auto simp: bindE_eq_Inr)
    let ?n = "length slots"
    let ?ctx = "\<lparr>dd_plan = plan, dd_scan = sc, dd_device_shards = replicate ?n None, dd_device_id = dev\<rparr>"
    let ?d = "upload sc slots (allocate fresh sc (replicate ?n None))"
    have ok: "prepared_is ?ctx cache ?d h \<Longrightarrow> ?Q () h" for h
      using shape scan_slots_Inr [OF sc0(1)] sc0(2) scan_upload_holds [OF scan_slots_Inr [OF sc0(1)] sc0(2)] assms
      by (auto simp: prepared_is_def prepared_ok_def)
    have set: "hoare F ?P (modifyA (\<lambda>h. h\<lparr>ph_ctx := ?ctx\<rparr>)) (\<lambda>_. prepared_is ?ctx cache (replicate ?n None)) ?E"
      by (rule hoare_pre [OF hoare_modifyA]) (simp add: prepared_is_def)
    have loop: "hoare F (prepared_is ?ctx cache (replicate ?n None)) (forA (prepare_shard fresh sc slots) [0..<?n]) (\<lambda>_. prepared_is ?ctx cache ?d) ?E"
      unfolding fold_prepare [symmetric] by (rule hoare_for_fold) (rule hoare_prepare_shard)
    have keep: "runtime_only m \<Longrightarrow> hoare F (prepared_is ?ctx cache ?d) m (\<lambda>_. prepared_is ?ctx cache ?d) ?E" for m :: "(PreparedHost, unit) action"
      by (rule hoare_pre [OF hoare_runtime]) simp_all
    have last: "hoare F (prepared_is ?ctx cache ?d) (callA Synchronize) ?Q ?E"
      by (rule hoare_weaken [OF keep]) (use ok in simp_all)
    show ?thesis
      unfolding Inr hoare_returned
      by (rule hoare_bindA [OF set], rule hoare_bindA [OF loop], rule hoare_bindA [OF keep], simp add: runtime_only_bindA, rule last)
  qed
  show ?thesis
    unfolding prepare_def
    by (rule hoare_lift [OF shape], rule hoare_on_exception [OF _ clean], rule hoare_bindA [OF rt], simp, rule hoare_bindA [OF rt], simp add: acq,
        rule hoare_bindA [OF rt], simp add: acq, rule hoare_bindA [OF rt], simp add: acq,
        rule hoare_read [where x = slots], simp, rule rest)
qed

lemma prepare_ok:
  assumes "cache_ok queries (ph_cache (wd_host w0))" "prepare dev fresh plan w0 = (Done (), w1)"
  obtains sc0 sc where "wd_faults w1 = wd_faults w0" "ValidatePlanShape plan = Inr ()" "fresh_scan sc0 (ph_shards (wd_host w0))"
    "scan_plan plan sc0 = Inr sc" "prepared_ok queries plan sc (ph_shards (wd_host w0)) (wd_host w1)"
proof -
  have "ends (wd_faults w0) (\<lambda>_ h. \<exists>sc0 sc. ValidatePlanShape plan = Inr () \<and> fresh_scan sc0 (ph_shards (wd_host w0)) \<and>
      scan_plan plan sc0 = Inr sc \<and> prepared_ok queries plan sc (ph_shards (wd_host w0)) h) (\<lambda>_ _. True) (prepare dev fresh plan w0)"
    by (rule hoareD [OF hoare_prepare [OF assms(1)] refl]) simp
  then show thesis using assms(2) that by auto
qed

text \<open>The calls of a client.\<close>

lemma hoare_download_context:
  assumes "launched queries plan sc slots h0" "length (word_counts sc) = length slots"
  shows "hoare F (\<lambda>h. ph_ctx h = ph_ctx h0 \<and> ph_shards h = slots) download_context
    (\<lambda>_ h. ph_shards h = fst (execute_operations (operations plan) slots)) (\<lambda>e h. ph_shards h = slots \<and> e = cuda_error \<and> some_fault F)"
proof -
  let ?P = "\<lambda>h. ph_ctx h = ph_ctx h0 \<and> ph_shards h = slots" and ?E = "\<lambda>e h. ph_shards h = slots \<and> e = cuda_error \<and> some_fault F"
  have rt: "runtime_only m \<Longrightarrow> hoare F ?P m (\<lambda>_. ?P) ?E" for m :: "(PreparedHost, unit) action"
    by (rule hoare_pre [OF hoare_runtime]) simp_all
  have "throw_if (length slots \<noteq> length (word_counts (dd_scan (ph_ctx h0))))
      (InvalidArgument ''Destination shard slots must match the prepared context'') = Inr ()"
    using assms by (simp add: launched_def prepared_ok_def)
  then show ?thesis
    unfolding download_context_def
    by (intro hoare_read [where x = "ph_ctx h0"] hoare_read [where x = slots])
      (simp, simp, simp only: hoare_returned, intro hoare_bindA [OF rt] runtime_only_forA runtime_only_callA,
        simp_all add: hoare_def modifyA_def assms(1) [unfolded launched_def prepared_ok_def])
qed

lemma hoare_prepared_call:
  assumes "runtime_ok queries" "fresh_scan sc0 slots" "scan_plan plan sc0 = Inr sc"
  shows "hoare F (prepared_ok queries plan sc slots) (prepared_call_action queries call) (\<lambda>_. prepared_ok queries plan sc slots)
    (\<lambda>_. prepared_ok queries plan sc slots)"
proof -
  let ?P = "prepared_ok queries plan sc slots"
  have rt: "runtime_only m \<Longrightarrow> hoare F ?P m (\<lambda>_. ?P) (\<lambda>_. ?P)" for m :: "(PreparedHost, 'x) action"
    by (rule hoare_pre [OF hoare_runtime]) simp_all
  have launch: "hoare F ?P (launch_context queries) (\<lambda>_. ?P) (\<lambda>_. ?P)"
    by (rule hoare_weaken [OF hoare_launch_context [OF assms]]) (simp_all add: launched_def launch_failure_def)
  have store: "hoare F ?P (modifyA (\<lambda>h. h\<lparr>ph_shards := g h\<rparr>)) (\<lambda>_. ?P) (\<lambda>_. ?P)" for g
    by (rule hoare_pre [OF hoare_modifyA]) (simp add: prepared_ok_def)
  have "hoare F ?P (launch_context_timed queries) (\<lambda>_. ?P) (\<lambda>_. ?P)"
    unfolding launch_context_timed_def by (intro hoare_bindA [OF rt] hoare_bindA [OF launch] rt runtime_only_elapsed runtime_only_callA) simp_all
  moreover have "hoare F ?P download_context (\<lambda>_. ?P) (\<lambda>_. ?P)"
  proof -
    have read: "hoare F ?P (hostA f) (\<lambda>_. ?P) (\<lambda>_. ?P)" for f :: "PreparedHost \<Rightarrow> 'x" by (rule hoare_pre [OF hoare_hostA])
    have throw: "hoare F ?P (liftA (throw_if b e)) (\<lambda>_. ?P) (\<lambda>_. ?P)" for b e
      by (rule hoare_pre [OF hoare_liftA]) (simp split: sum.split)
    show ?thesis
      unfolding download_context_def
      by (intro hoare_bindA [OF read] hoare_bindA [OF throw] hoare_bindA [OF rt] store runtime_only_forA runtime_only_callA) simp_all
  qed
  ultimately show ?thesis
    using launch by (cases call) (simp_all add: synchronize_context_def hoare_bindA [OF _ hoare_skip] hoare_bindA [OF store] rt runtime_only_bindA)
qed

section \<open>Properties\<close>

definition example_prepared :: PreparedHost where
  "example_prepared = \<lparr>ph_ctx = \<lparr>dd_plan = DecodePlan_default, dd_scan = \<lparr>word_counts = [], available_shards = [], required_shards = [],
       flattened_sources = [], source_offsets = []\<rparr>, dd_device_shards = [], dd_device_id = 0\<rparr>,
     ph_shards = [None, None, Some [4, 4], Some [6, 0], Some [7, 5]], ph_cache = []\<rparr>"

text \<open>
  C5. A prepared context survives failures: once \<open>prepare_decode_plan_cuda\<close> has returned, a client may launch, launch timed,
  wait and download in any order, with any CUDA call failing, and catch the exceptions. When after all that one launch returns,
  a download yields exactly the slots of the CPU executor, or throws because a CUDA call failed and leaves the destination
  as it was; and the plan is one that the CPU executor accepts.
\<close>

theorem prepared_decode_survives_failures:
  assumes "runtime_ok queries" "cache_ok queries (ph_cache (wd_host w0))" "ph_shards (wd_host w0) = slots"
    and "execute_decode_plan_cpu plan slots = (final, failure)"
    and "prepare dev fresh plan w0 = (Done (), w1)"
    and "forA (\<lambda>call. ignoring (prepared_call_action queries call)) calls w1 = (Done (), w2)"
    and "launch_context queries w2 = (Done (), w3)"
    and "prepared_call_action queries (Download_call slots) w3 = (v, w4)"
  shows "failure = None \<and> (case v of
      Done _ \<Rightarrow> ph_shards (wd_host w4) = final
    | Raised e \<Rightarrow> ph_shards (wd_host w4) = slots \<and> e = cuda_error \<and> (\<exists>api k. api \<noteq> Free \<and> wd_faults w0 api k)
    | Terminated \<Rightarrow> \<exists>k. wd_faults w0 Free k
    | Hangs \<Rightarrow> False)"
proof -
  let ?F = "wd_faults w0"
  obtain sc0 sc where sc: "wd_faults w1 = ?F" "ValidatePlanShape plan = Inr ()" "fresh_scan sc0 slots" "scan_plan plan sc0 = Inr sc"
      "prepared_ok queries plan sc slots (wd_host w1)"
    using prepare_ok [OF assms(2,5)] assms(3) by blast
  have cpu: "failure = None" "execute_operations (operations plan) slots = (final, None)"
    using scan_plan_iff [OF sc(3,2)] sc(2,4) assms(4) by (auto simp: execute_decode_plan_cpu_def)
  have "hoare ?F (prepared_ok queries plan sc slots) (forA (\<lambda>call. ignoring (prepared_call_action queries call)) calls)
      (\<lambda>_. prepared_ok queries plan sc slots) (\<lambda>_. prepared_ok queries plan sc slots)"
    by (rule hoare_forA [where I = "\<lambda>_. prepared_ok queries plan sc slots"]) (rule hoare_ignoring [OF hoare_prepared_call [OF assms(1) sc(3,4)]])
  from hoareD [OF this sc(1,5)] assms(6) have w2: "wd_faults w2 = ?F" "prepared_ok queries plan sc slots (wd_host w2)" by auto
  from hoareD [OF hoare_launch_context [OF assms(1) sc(3,4)] w2] assms(7)
  have w3: "wd_faults w3 = ?F" "launched queries plan sc slots (wd_host w3)" by auto
  have "length (word_counts sc) = length slots" using w3(2) by (auto simp: launched_def prepared_ok_def holds_def)
  note download = hoare_download_context [OF w3(2) this, of ?F]
  have "ends ?F (\<lambda>_ h. ph_shards h = final) (\<lambda>e h. ph_shards h = slots \<and> e = cuda_error \<and> some_fault ?F) (v, w4)"
    using hoareD [OF download, of "w3\<lparr>wd_host := (wd_host w3)\<lparr>ph_shards := slots\<rparr>\<rparr>"] assms(8) w3(1) cpu(2)
    by (simp add: bindA_def modifyA_def)
  then show ?thesis using cpu(1) by (cases v) (auto simp: some_fault_def)
qed

lemma example_prepare: "fst (prepare 0 (\<lambda>_ _. 77) example_plan (example_world (\<lambda>_ _. False) example_prepared)) = Done ()"
  by code_simp

theorem prepared_decode_survives_failures_witness:
  "\<exists>w1 w2 w3 w4. prepare 0 (\<lambda>_ _. 77) example_plan (example_world (\<lambda>_ _. False) example_prepared) = (Done (), w1) \<and>
    forA (\<lambda>call. ignoring (prepared_call_action example_queries call)) [Timed_launch_call, Wait_call] w1 = (Done (), w2) \<and>
    launch_context example_queries w2 = (Done (), w3) \<and>
    prepared_call_action example_queries (Download_call [None, None, Some [4, 4], Some [6, 0], Some [7, 5]]) w3 = (Done (), w4) \<and>
    ph_shards (wd_host w4) = [Some [5, 1], Some [3, 1], Some [4, 4], Some [6, 0], Some [7, 5]]"
proof -
  let ?w0 = "example_world (\<lambda>_ _. False) example_prepared"
  let ?slots = "[None, None, Some [4, 4], Some [6, 0], Some [7, 5]] :: ShardSlots"
  let ?calls = "[Timed_launch_call, Wait_call]"
  have w0: "cache_ok example_queries (ph_cache (wd_host ?w0))" "ph_shards (wd_host ?w0) = ?slots" "wd_faults ?w0 = (\<lambda>_ _. False)"
    by (simp_all add: example_world_def example_prepared_def cache_ok_Nil)
  obtain w1 where w1: "prepare 0 (\<lambda>_ _. 77) example_plan ?w0 = (Done (), w1)"
    using example_prepare by (cases "prepare 0 (\<lambda>_ _. 77) example_plan ?w0") simp
  obtain sc0 sc where sc: "wd_faults w1 = (\<lambda>_ _. False)" "fresh_scan sc0 ?slots" "scan_plan example_plan sc0 = Inr sc"
      "prepared_ok example_queries example_plan sc ?slots (wd_host w1)"
    using prepare_ok [OF w0(1) w1] unfolding w0(2,3) by blast
  note call = hoare_ignoring [OF hoare_prepared_call [OF example_runtime sc(2,3)]]
  obtain v2 w2 where w2: "forA (\<lambda>call. ignoring (prepared_call_action example_queries call)) ?calls w1 = (v2, w2)" by fastforce
  have "hoare (\<lambda>_ _. False) (prepared_ok example_queries example_plan sc ?slots) (forA (\<lambda>call. ignoring (prepared_call_action example_queries call)) ?calls)
      (\<lambda>_. prepared_ok example_queries example_plan sc ?slots) (\<lambda>_ _. False)"
    by (rule hoare_forA [where I = "\<lambda>_. prepared_ok example_queries example_plan sc ?slots"]) (rule call)
  from hoareD [OF this sc(1,4)] w2 have v2: "v2 = Done ()" "wd_faults w2 = (\<lambda>_ _. False)" "prepared_ok example_queries example_plan sc ?slots (wd_host w2)"
    by (cases v2; simp)+
  obtain v3 w3 where w3: "launch_context example_queries w2 = (v3, w3)" by fastforce
  from hoareD [OF hoare_launch_context [OF example_runtime sc(2,3)] v2(2,3)] w3 have v3: "v3 = Done ()"
    by (cases v3; simp add: launch_failure_def some_fault_def)
  obtain v4 w4 where w4: "prepared_call_action example_queries (Download_call ?slots) w3 = (v4, w4)" by fastforce
  from prepared_decode_survives_failures [OF example_runtime w0(1,2) example_execution w1 w2 [unfolded v2(1)] w3 [unfolded v3] w4]
  have "v4 = Done ()" "ph_shards (wd_host w4) = [Some [5, 1], Some [3, 1], Some [4, 4], Some [6, 0], Some [7, 5]]"
    by (cases v4; simp add: w0(3))+
  then show ?thesis using w1 w2 v2(1) w3 v3 w4 by blast
qed

text \<open>
  A prepared context gives everything back that it can: whatever CUDA calls fail, when the preparation has thrown, or the client has
  used the context in any way and destroyed it, no buffer is live that was not live before and nothing was released twice; an event
  or a stream stays live only if its destruction, whose status the code ignores, can fail.
\<close>

theorem prepared_session_leaks_nothing:
  assumes "\<forall>r\<in>wd_live w. handle r < wd_next w" "wd_locals w = []" "wd_members w = []" "wd_raw w = []" "\<not> wd_misused w"
    and "prepared_session queries dev fresh plan calls w = (v, w')" "v = Done () \<or> v = Raised e"
  shows "left_behind (wd_faults w) (wd_live w) (wd_live w') \<and> \<not> wd_misused w' \<and> wd_members w' = [] \<and>
    ((\<forall>k. \<not> wd_faults w EventDestroy k \<and> \<not> wd_faults w StreamDestroy k) \<longrightarrow> wd_live w' = wd_live w)"
proof -
  have "nothing_owned (wd_faults w) (wd_live w) w"
    using tidy_new [OF assms(1-5)] assms(2) by (simp add: nothing_owned_def)
  from accountD [OF account_prepared_session this, of queries dev fresh plan calls] assms(6,7)
  have "nothing_owned (wd_faults w) (wd_live w) w'" by auto
  from nothing_owned_live [OF this] show ?thesis using left_behind_nothing by blast
qed

lemma example_prepared_session: "fst (prepared_session example_queries 0 (\<lambda>_ _. 77) example_plan [Wait_call]
    (example_world (\<lambda>api n. api = Memcpy \<and> n = 9) example_prepared)) = Raised cuda_error"
  by code_simp

theorem prepared_session_leaks_nothing_witness:
  "\<exists>w'. prepared_session example_queries 0 (\<lambda>_ _. 77) example_plan [Wait_call] (example_world (\<lambda>api n. api = Memcpy \<and> n = 9) example_prepared)
    = (Raised cuda_error, w') \<and> wd_live w' = {}"
proof -
  let ?w = "example_world (\<lambda>api n. api = Memcpy \<and> n = 9) example_prepared"
  obtain w' where s: "prepared_session example_queries 0 (\<lambda>_ _. 77) example_plan [Wait_call] ?w = (Raised cuda_error, w')"
    using example_prepared_session by (cases "prepared_session example_queries 0 (\<lambda>_ _. 77) example_plan [Wait_call] ?w") simp
  have "wd_live w' = wd_live ?w"
    using prepared_session_leaks_nothing [OF _ _ _ _ _ s] by (simp add: example_world_def)
  then show ?thesis using s by (simp add: example_world_def)
qed

end
