(* ===== verification/Executor.thy ===== *)
theory Executor imports CudaDecode begin

text \<open>
  \<open>src/runtime/cuda_recovery_executor.cpp\<close>: the bounded asynchronous executor that runs staged decode
  plans on worker threads.

  Every critical section of the code is one atomic operation on the state: the calls of the clients
  (\<open>EstimateRecoveryCost\<close>, \<open>StageShard\<close>, \<open>Submit\<close>, \<open>Cancel\<close>, the destructor's stop flag) and the phases
  of a worker between two acquisitions of the mutex, or up to the wait on the condition variable. \<open>exec_step\<close> interleaves them
  arbitrarily, with spurious wakeups. A worker that sleeps goes on only when it is notified or woken in this way. A call
  that throws returns the exception together with the state it leaves behind; the arguments \<open>failure\<close> and
  \<open>failing\<close> say which CUDA calls fail in it, and every step may have any. Measured times are arbitrary
  numbers; an error is kept as the exception whose text the code stores. The process-wide cache of launch
  configurations is part of the state; what a throwing run adds to it is not recorded, because every entry
  equals a fresh query.
\<close>

section \<open>State\<close>

record RecoveryExecutionMetrics =
  m_planning :: microseconds
  m_queue_wait :: microseconds
  m_h2d :: microseconds
  m_kernel :: microseconds
  m_d2h :: microseconds
  m_handoff :: microseconds
  m_total :: microseconds

definition zero_metrics :: RecoveryExecutionMetrics where
  "zero_metrics = \<lparr>m_planning = 0, m_queue_wait = 0, m_h2d = 0, m_kernel = 0, m_d2h = 0, m_handoff = 0, m_total = 0\<rparr>"

record RecoveryTaskResult =
  rt_success :: bool
  rt_shards :: ShardSlots
  rt_metrics :: RecoveryExecutionMetrics
  rt_error :: "exn option"

record Task =
  task_request :: RequestId
  task_plan :: DecodePlan
  task_shards :: ShardSlots
  task_context :: DeviceShardStagingContext

text \<open>
  Where a worker is in the body of \<open>WorkerLoop\<close>: \<open>Waiting\<close> is awake and about to evaluate the predicate of
  \<open>work_available.wait\<close>, \<open>Sleeping\<close> is blocked in it until a notification or a spurious wakeup, \<open>Notifying\<close> is in front of
  the \<open>notify_all\<close> at the end of the body.
\<close>

datatype Worker =
    Waiting
  | Sleeping
  | Executing Task
  | Executed RequestId RecoveryTaskResult
  | Completing RequestId RecoveryTaskResult
  | Retiring RequestId
  | Notifying
  | Exited

record Executor =
  ex_concurrency :: nat
  ex_capacity :: nat
  ex_service_cost :: microseconds
  ex_queue :: "Task list"
  ex_staged :: "RequestId \<rightharpoonup> nat \<times> DeviceShardStagingContext"
  ex_running :: "RequestId set"
  ex_cancelled :: "RequestId set"
  ex_workers :: "Worker list"
  ex_stopping :: bool
  ex_cache :: config_cache

text \<open>The CUDA runtime: its answers, the device, and what a fresh buffer holds.\<close>

record CudaRuntime =
  cu_queries :: "int \<Rightarrow> KernelId \<Rightarrow> DeviceQueries"
  cu_device :: int
  cu_fresh :: "nat \<Rightarrow> nat \<Rightarrow> ShardWord"

section \<open>The condition variable\<close>

text \<open>
  \<open>work_available.notify_one\<close> wakes one of the workers that sleep, if any does; which one is the choice of the runtime, \<open>pick\<close>.
  \<open>work_available.notify_all\<close> wakes them all. A woken worker has to find the predicate true once more.
\<close>

definition sleepers :: "Worker list \<Rightarrow> nat list" where
  "sleepers ws = filter (\<lambda>i. ws ! i = Sleeping) [0..<length ws]"

definition notify_one :: "nat \<Rightarrow> Worker list \<Rightarrow> Worker list" where
  "notify_one pick ws =
     (if sleepers ws = [] then ws else ws[sleepers ws ! (pick mod length (sleepers ws)) := Waiting])"

definition notify_all :: "Worker list \<Rightarrow> Worker list" where
  "notify_all ws = map (\<lambda>w. if w = Sleeping then Waiting else w) ws"

section \<open>Operations of the clients\<close>

definition CudaRecoveryExecutor_new :: "nat \<Rightarrow> nat \<Rightarrow> microseconds \<Rightarrow> Executor result" where
  "CudaRecoveryExecutor_new concurrency_limit max_depth service_cost =
     (let capacity = (concurrency_limit + max_depth) mod 2 ^ 64 in
      if concurrency_limit = 0
      then Inl (InvalidArgument ''CUDA recovery concurrency must be non-zero'')
      else if capacity < concurrency_limit
      then Inl (InvalidArgument ''CUDA recovery queue capacity overflows size_t'')
      else if service_cost \<le> 0
      then Inl (InvalidArgument ''CUDA recovery service estimate must be positive'')
      else Inr \<lparr>ex_concurrency = concurrency_limit, ex_capacity = capacity, ex_service_cost = service_cost,
                ex_queue = [], ex_staged = Map.empty, ex_running = {}, ex_cancelled = {},
                ex_workers = replicate concurrency_limit Waiting, ex_stopping = False, ex_cache = []\<rparr>)"

text \<open>\<open>queue.size() + running_requests.size()\<close>\<close>

definition outstanding :: "Executor \<Rightarrow> nat" where
  "outstanding ex = length (ex_queue ex) + card (ex_running ex)"

definition EstimateRecoveryCost :: "Executor \<Rightarrow> microseconds option" where
  "EstimateRecoveryCost ex =
     (if ex_stopping ex \<or> outstanding ex \<ge> ex_capacity ex then None
      else (let completion_wave = outstanding ex div ex_concurrency ex + 1
            in Some (ex_service_cost ex * int completion_wave)))"

definition HasQueuedRequest :: "RequestId \<Rightarrow> Executor \<Rightarrow> bool" where
  "HasQueuedRequest r ex = list_ex (\<lambda>task. task_request task = r) (ex_queue ex)"

text \<open>
  A CUDA call of \<open>StageShard\<close> may fail, and the failures are told apart by what they leave: no context, a context as it
  was, a shard that is recorded without a buffer, and a shard that is recorded with a buffer in which something else may be.
\<close>

datatype StagingFailure = No_context | No_device | No_buffer | Not_uploaded "nat \<Rightarrow> ShardWord"

definition find_context ::
  "CudaRuntime \<Rightarrow> StagingFailure option \<Rightarrow> RequestId \<Rightarrow> nat \<Rightarrow> Executor \<Rightarrow> (nat \<times> DeviceShardStagingContext) result" where
  "find_context cu failure r shard_count ex =
     (case ex_staged ex r of
        None \<Rightarrow> bindE (create_device_shard_staging_context_cuda (cu_device cu) shard_count)
          (\<lambda>context. case failure of Some No_context \<Rightarrow> Inl cuda_error | _ \<Rightarrow> Inr (shard_count, context))
      | Some (staged_count, context) \<Rightarrow>
          if staged_count \<noteq> shard_count
          then Inl (InvalidArgument ''Staged shards must use a consistent shard-slot count'')
          else Inr (staged_count, context))"

text \<open>The call of \<open>stage_decode_shard_cuda\<close>: the context it leaves and what it throws.\<close>

definition attempt_upload ::
  "StagingFailure option \<Rightarrow> ShardId \<Rightarrow> WordShard \<Rightarrow> DeviceShardStagingContext \<Rightarrow> DeviceShardStagingContext \<times> exn option" where
  "attempt_upload failure shard_id payload context =
     (case stage_decode_shard_cuda shard_id payload context of
        Inl e \<Rightarrow> (context, Some e)
      | Inr context' \<Rightarrow>
          (case failure of
             Some No_device \<Rightarrow> (context, Some cuda_error)
           | Some No_buffer \<Rightarrow> (context'\<lparr>sg_device_shards := sg_device_shards context\<rparr>, Some cuda_error)
           | Some (Not_uploaded held) \<Rightarrow>
               (context'\<lparr>sg_device_shards := (sg_device_shards context)[unat shard_id := Some (map held [0..<length payload])]\<rparr>,
                Some cuda_error)
           | _ \<Rightarrow> (context', None)))"

definition StageShard ::
  "CudaRuntime \<Rightarrow> StagingFailure option \<Rightarrow> RequestId \<Rightarrow> nat \<Rightarrow> ShardId \<Rightarrow> WordShard \<Rightarrow> Executor \<Rightarrow> Executor \<times> exn option" where
  "StageShard cu failure r shard_count shard_id payload ex =
     (if ex_stopping ex \<or> r \<in> ex_running ex \<or> HasQueuedRequest r ex then (ex, None)
      else (case find_context cu failure r shard_count ex of
          Inl e \<Rightarrow> (ex, Some e)
        | Inr (staged_count, context) \<Rightarrow>
            (case attempt_upload failure shard_id payload context of
               (context', threw) \<Rightarrow> (ex\<lparr>ex_staged := (ex_staged ex)(r \<mapsto> (staged_count, context'))\<rparr>, threw))))"

text \<open>A submission without staged shards stages the present ones itself; \<open>failing\<close>: a CUDA call fails on the way.\<close>

definition stage_submitted :: "CudaRuntime \<Rightarrow> bool \<Rightarrow> ShardSlots \<Rightarrow> DeviceShardStagingContext result" where
  "stage_submitted cu failing shards =
     bindE (create_device_shard_staging_context_cuda (cu_device cu) (length shards))
       (\<lambda>context. if failing then Inl cuda_error
          else foldE (\<lambda>shard_id context. case shards ! shard_id of
                  None \<Rightarrow> Inr context
                | Some w \<Rightarrow> stage_decode_shard_cuda (of_nat shard_id) w context) [0..<length shards] context)"

definition Submit ::
  "CudaRuntime \<Rightarrow> nat \<Rightarrow> bool \<Rightarrow> RequestId \<Rightarrow> DecodePlan \<Rightarrow> ShardSlots \<Rightarrow> Executor \<Rightarrow> Executor \<times> bool result" where
  "Submit cu pick failing r plan shards ex =
     (if ex_stopping ex \<or> outstanding ex \<ge> ex_capacity ex \<or> r \<in> ex_running ex \<or> HasQueuedRequest r ex
      then (ex\<lparr>ex_staged := (ex_staged ex)(r := None)\<rparr>, Inr False)
      else (let ex' = ex\<lparr>ex_staged := (ex_staged ex)(r := None)\<rparr> in
        case (case ex_staged ex r of
            Some (staged_count, context) \<Rightarrow>
              if staged_count \<noteq> length shards
              then Inl (InvalidArgument ''Submitted shards must match the staged shard-slot count'')
              else Inr context
          | None \<Rightarrow> stage_submitted cu failing shards) of
          Inl e \<Rightarrow> (ex', Inl e)
        | Inr context \<Rightarrow>
            (ex'\<lparr>ex_queue := ex_queue ex @ [\<lparr>task_request = r, task_plan = plan, task_shards = shards,
                                            task_context = context\<rparr>],
                 ex_workers := notify_one pick (ex_workers ex)\<rparr>, Inr True)))"

text \<open>\<open>std::find_if\<close> and \<open>erase\<close>: the first queued task of the request goes.\<close>

fun erase_task :: "RequestId \<Rightarrow> Task list \<Rightarrow> Task list" where
  "erase_task r [] = []"
| "erase_task r (task # tasks) = (if task_request task = r then tasks else task # erase_task r tasks)"

definition Cancel :: "RequestId \<Rightarrow> Executor \<Rightarrow> Executor \<times> bool" where
  "Cancel r ex =
     (let cancelled = (ex_staged ex r \<noteq> None); ex' = ex\<lparr>ex_staged := (ex_staged ex)(r := None)\<rparr> in
      if HasQueuedRequest r ex then (ex'\<lparr>ex_queue := erase_task r (ex_queue ex)\<rparr>, True)
      else if r \<in> ex_running ex then (ex'\<lparr>ex_cancelled := insert r (ex_cancelled ex)\<rparr>, True)
      else (ex', cancelled))"

text \<open>
  The destructor sets the flag and then wakes everybody; a worker that goes on before the notification reaches it cannot be
  told from one that goes on after it, so the two are one operation. It joins the workers after it.
\<close>

definition Executor_stop :: "Executor \<Rightarrow> Executor" where
  "Executor_stop ex = ex\<lparr>ex_stopping := True, ex_workers := notify_all (ex_workers ex)\<rparr>"

section \<open>Workers\<close>

text \<open>The checks in front of the first CUDA call of \<open>run_staged_decode_plan_cuda\<close>.\<close>

definition calls_cuda :: "Task \<Rightarrow> bool" where
  "calls_cuda task \<longleftrightarrow> \<not> sg_finalized (task_context task) \<and>
     length (task_shards task) = length (sg_device_shards (task_context task)) \<and> ValidatePlanShape (task_plan task) = Inr ()"

definition failed_result :: "RecoveryExecutionMetrics \<Rightarrow> exn \<Rightarrow> RecoveryTaskResult" where
  "failed_result measured e =
     \<lparr>rt_success = False, rt_shards = [],
      rt_metrics = zero_metrics\<lparr>m_queue_wait := m_queue_wait measured, m_total := m_total measured\<rparr>, rt_error = Some e\<rparr>"

text \<open>
  The \<open>try\<close> block and its handler: what the worker measured is given, and the result carries it; \<open>failing\<close> says that a
  CUDA call fails. \<open>None\<close> would be a kernel that never ends.
\<close>

definition run_task ::
  "CudaRuntime \<Rightarrow> bool \<Rightarrow> RecoveryExecutionMetrics \<Rightarrow> Task \<Rightarrow> config_cache \<Rightarrow> (RecoveryTaskResult \<times> config_cache) option" where
  "run_task cu failing measured task cache =
     (if failing \<and> calls_cuda task then Some (failed_result measured cuda_error, cache)
      else (case run_staged_decode_plan_cuda (cu_queries cu) (cu_fresh cu) (task_plan task) (task_shards task)
             (task_context task) cache of
        None \<Rightarrow> None
      | Some (_, Inl e) \<Rightarrow> Some (failed_result measured e, cache)
      | Some (_, Inr (shards, cache')) \<Rightarrow>
          Some (\<lparr>rt_success = True, rt_shards = shards,
                 rt_metrics = zero_metrics\<lparr>m_queue_wait := m_queue_wait measured, m_h2d := m_h2d measured,
                   m_kernel := m_kernel measured, m_d2h := m_d2h measured, m_total := m_total measured\<rparr>,
                 rt_error = None\<rparr>, cache')))"

text \<open>
  The next phase of worker \<open>i\<close>: \<open>None\<close> while it sleeps and after it has exited, otherwise the new state and the
  completion it delivers, if any. A worker that is awake and finds neither a task nor the stop flag goes to sleep, in one
  critical section with the evaluation of the predicate, as \<open>wait\<close> releases the mutex and blocks atomically.
\<close>

definition WorkerLoop ::
  "CudaRuntime \<Rightarrow> bool \<Rightarrow> RecoveryExecutionMetrics \<Rightarrow> nat \<Rightarrow> Executor \<Rightarrow>
   (Executor \<times> (RequestId \<times> RecoveryTaskResult) option) option" where
  "WorkerLoop cu failing measured i ex =
     (let move = (\<lambda>ex' w. ex'\<lparr>ex_workers := (ex_workers ex)[i := w]\<rparr>) in
      case ex_workers ex ! i of
        Waiting \<Rightarrow>
          (case ex_queue ex of
             [] \<Rightarrow> Some (move ex (if ex_stopping ex then Exited else Sleeping), None)
           | task # tasks \<Rightarrow>
               Some (move (ex\<lparr>ex_queue := tasks, ex_running := insert (task_request task) (ex_running ex)\<rparr>)
                       (Executing task), None))
      | Sleeping \<Rightarrow> None
      | Executing task \<Rightarrow>
          map_option (\<lambda>(result, cache). (move (ex\<lparr>ex_cache := cache\<rparr>) (Executed (task_request task) result), None))
            (run_task cu failing measured task (ex_cache ex))
      | Executed r result \<Rightarrow>
          Some (move ex (if r \<in> ex_cancelled ex then Retiring r else Completing r result), None)
      | Completing r result \<Rightarrow> Some (move ex (Retiring r), Some (r, result))
      | Retiring r \<Rightarrow>
          Some (move (ex\<lparr>ex_running := ex_running ex - {r}, ex_cancelled := ex_cancelled ex - {r}\<rparr>) Notifying, None)
      | Notifying \<Rightarrow> Some (ex\<lparr>ex_workers := notify_all ((ex_workers ex)[i := Waiting])\<rparr>, None)
      | Exited \<Rightarrow> None)"

text \<open>A condition variable may also wake a thread without a notification.\<close>

definition spurious_wakeup :: "nat \<Rightarrow> Executor \<Rightarrow> Executor option" where
  "spurious_wakeup i ex =
     (if i < length (ex_workers ex) \<and> ex_workers ex ! i = Sleeping
      then Some (ex\<lparr>ex_workers := (ex_workers ex)[i := Waiting]\<rparr>) else None)"

section \<open>Interleavings\<close>

datatype ExecutorEvent =
    Staged RequestId ShardId "exn option"
  | Accepted RequestId DecodePlan ShardSlots
  | NotAccepted RequestId
  | Cancelled RequestId
  | Stopped
  | Worked nat
  | WokenUp nat
  | Completed RequestId RecoveryTaskResult

inductive exec_step :: "CudaRuntime \<Rightarrow> Executor \<Rightarrow> ExecutorEvent \<Rightarrow> Executor \<Rightarrow> bool" for cu where
  stage: "StageShard cu failure r shard_count shard_id payload ex = (ex', threw) \<Longrightarrow>
     exec_step cu ex (Staged r shard_id threw) ex'"
| submit: "Submit cu pick failing r plan shards ex = (ex', Inr True) \<Longrightarrow> exec_step cu ex (Accepted r plan shards) ex'"
| refuse: "Submit cu pick failing r plan shards ex = (ex', v) \<Longrightarrow> v \<noteq> Inr True \<Longrightarrow> exec_step cu ex (NotAccepted r) ex'"
| cancel: "Cancel r ex = (ex', b) \<Longrightarrow> exec_step cu ex (Cancelled r) ex'"
| stop: "exec_step cu ex Stopped (Executor_stop ex)"
| work: "i < length (ex_workers ex) \<Longrightarrow> WorkerLoop cu failing measured i ex = Some (ex', None) \<Longrightarrow>
     exec_step cu ex (Worked i) ex'"
| spurious: "spurious_wakeup i ex = Some ex' \<Longrightarrow> exec_step cu ex (WokenUp i) ex'"
| complete: "i < length (ex_workers ex) \<Longrightarrow> WorkerLoop cu failing measured i ex = Some (ex', Some (r, result)) \<Longrightarrow>
     exec_step cu ex (Completed r result) ex'"

inductive exec_trace :: "CudaRuntime \<Rightarrow> Executor \<Rightarrow> ExecutorEvent list \<Rightarrow> Executor \<Rightarrow> bool" for cu where
  start: "exec_trace cu ex [] ex"
| next_event: "exec_trace cu ex evs ex' \<Longrightarrow> exec_step cu ex' ev ex'' \<Longrightarrow> exec_trace cu ex (evs @ [ev]) ex''"

inductive_cases exec_stepE: "exec_step cu ex ev ex'"

section \<open>The invariant\<close>

fun worker_request :: "Worker \<Rightarrow> RequestId option" where
  "worker_request Waiting = None"
| "worker_request Sleeping = None"
| "worker_request (Executing task) = Some (task_request task)"
| "worker_request (Executed r result) = Some r"
| "worker_request (Completing r result) = Some r"
| "worker_request (Retiring r) = Some r"
| "worker_request Notifying = None"
| "worker_request Exited = None"

text \<open>The running set is what the workers work on, each request on one worker.\<close>

definition workers_ok :: "Worker list \<Rightarrow> RequestId set \<Rightarrow> bool" where
  "workers_ok ws R \<longleftrightarrow> (\<forall>r. r \<in> R \<longleftrightarrow> (\<exists>i<length ws. worker_request (ws ! i) = Some r)) \<and>
     (\<forall>i<length ws. \<forall>j<length ws. \<forall>r. worker_request (ws ! i) = Some r \<and> worker_request (ws ! j) = Some r \<longrightarrow> i = j)"

text \<open>What every staging context satisfies, whichever uploads failed: a buffer has the size of its shard.\<close>

definition context_ok :: "nat \<Rightarrow> DeviceShardStagingContext \<Rightarrow> bool" where
  "context_ok n cx \<longleftrightarrow> length (sg_staged_shards cx) = n \<and> length (sg_device_shards cx) = n \<and>
     sg_word_counts cx = map (map_option length) (sg_staged_shards cx) \<and> \<not> sg_finalized cx \<and>
     Some [] \<notin> set (sg_staged_shards cx) \<and>
     (\<forall>i<n. \<forall>buf. sg_device_shards cx ! i = Some buf \<longrightarrow>
        (\<exists>w. sg_staged_shards cx ! i = Some w \<and> length buf = length w))"

definition task_ok :: "Task \<Rightarrow> bool" where
  "task_ok task \<longleftrightarrow> context_ok (length (task_shards task)) (task_context task)"

definition ids_ok :: "Executor \<Rightarrow> bool" where
  "ids_ok ex \<longleftrightarrow> distinct (map task_request (ex_queue ex)) \<and>
     (\<forall>r\<in>task_request ` set (ex_queue ex). r \<notin> ex_running ex \<and> ex_staged ex r = None) \<and>
     (\<forall>r\<in>ex_running ex. ex_staged ex r = None) \<and> ex_cancelled ex \<subseteq> ex_running ex"

definition tasks_ok :: "Executor \<Rightarrow> bool" where
  "tasks_ok ex \<longleftrightarrow> (\<forall>task\<in>set (ex_queue ex). task_ok task) \<and>
     (\<forall>task. Executing task \<in> set (ex_workers ex) \<longrightarrow> task_ok task) \<and>
     (\<forall>r n cx. ex_staged ex r = Some (n, cx) \<longrightarrow> context_ok n cx)"

definition executor_inv :: "CudaRuntime \<Rightarrow> Executor \<Rightarrow> bool" where
  "executor_inv cu ex \<longleftrightarrow> length (ex_workers ex) = ex_concurrency ex \<and> 0 < ex_concurrency ex \<and>
     0 < ex_service_cost ex \<and> ex_concurrency ex \<le> ex_capacity ex \<and> outstanding ex \<le> ex_capacity ex \<and>
     ids_ok ex \<and> tasks_ok ex \<and> workers_ok (ex_workers ex) (ex_running ex) \<and>
     (Exited \<in> set (ex_workers ex) \<longrightarrow> ex_stopping ex \<and> ex_queue ex = []) \<and>
     cache_ok (cu_queries cu) (ex_cache ex)"

lemma HasQueuedRequest_iff: "HasQueuedRequest r ex \<longleftrightarrow> r \<in> task_request ` set (ex_queue ex)"
  by (auto simp: HasQueuedRequest_def list_ex_iff)

lemma workers_ok_card:
  assumes "workers_ok ws R"
  shows "finite R" "card R \<le> length ws"
proof -
  have "R \<subseteq> (\<lambda>i. the (worker_request (ws ! i))) ` {..<length ws}"
  proof
    fix r
    assume "r \<in> R"
    then obtain i where "i < length ws" "worker_request (ws ! i) = Some r"
      using assms by (auto simp: workers_ok_def)
    then show "r \<in> (\<lambda>i. the (worker_request (ws ! i))) ` {..<length ws}"
      by (intro image_eqI [of _ _ i]) simp_all
  qed
  then have "finite R \<and> card R \<le> card {..<length ws}"
    using finite_subset surj_card_le by (metis finite_imageI finite_lessThan)
  then show "finite R" "card R \<le> length ws" by simp_all
qed

lemma workers_ok_same:
  assumes "workers_ok ws R" "i < length ws" "worker_request w = worker_request (ws ! i)"
  shows "workers_ok (ws[i := w]) R"
proof -
  have "worker_request (ws[i := w] ! j) = worker_request (ws ! j)" if "j < length ws" for j
    using assms(2,3) that by (cases "j = i") auto
  then show ?thesis using assms(1) by (auto simp: workers_ok_def)
qed

lemma workers_ok_take:
  assumes "workers_ok ws R" "i < length ws" "worker_request (ws ! i) = None" "worker_request w = Some r" "r \<notin> R"
  shows "workers_ok (ws[i := w]) (insert r R)"
proof -
  have req: "worker_request (ws[i := w] ! j) = (if j = i then Some r else worker_request (ws ! j))" if "j < length ws" for j
    using assms(2,4) that by auto
  have R: "r' \<in> R \<longleftrightarrow> (\<exists>j<length ws. worker_request (ws ! j) = Some r')" for r'
    using assms(1) by (simp add: workers_ok_def)
  show ?thesis
    unfolding workers_ok_def
  proof (intro conjI allI impI, goal_cases)
    case (1 r')
    show ?case
    proof
      assume "r' \<in> insert r R"
      then consider "r' = r" | j where "j < length ws" "worker_request (ws ! j) = Some r'" using R by blast
      then show "\<exists>j<length (ws[i := w]). worker_request (ws[i := w] ! j) = Some r'"
      proof cases
        case 1
        then show ?thesis using req [OF assms(2)] assms(2) by (intro exI [of _ i]) simp
      next
        case 2
        then have "j \<noteq> i" using assms(3) by auto
        then show ?thesis using 2 req [OF 2(1)] by (intro exI [of _ j]) simp
      qed
    next
      assume "\<exists>j<length (ws[i := w]). worker_request (ws[i := w] ! j) = Some r'"
      then show "r' \<in> insert r R" using req R by (auto split: if_splits)
    qed
  next
    case (2 j k r')
    then have jk: "(if j = i then Some r else worker_request (ws ! j)) = Some r'"
        "(if k = i then Some r else worker_request (ws ! k)) = Some r'" "j < length ws" "k < length ws"
      using req by auto
    show ?case
    proof (cases "j = i \<or> k = i")
      case True
      then have "r' = r" using jk by (auto split: if_splits)
      then show ?thesis using jk assms(5) R by (auto split: if_splits)
    next
      case False
      then show ?thesis using jk assms(1) unfolding workers_ok_def by (metis (no_types))
    qed
  qed
qed

lemma workers_ok_retire:
  assumes "workers_ok ws R" "i < length ws" "worker_request (ws ! i) = Some r" "worker_request w = None"
  shows "workers_ok (ws[i := w]) (R - {r})"
proof -
  have req: "worker_request (ws[i := w] ! j) = (if j = i then None else worker_request (ws ! j))" if "j < length ws" for j
    using assms(2,4) that by auto
  have inj: "j = k" if "j < length ws" "k < length ws" "worker_request (ws ! j) = Some r'" "worker_request (ws ! k) = Some r'" for j k r'
    using assms(1) that unfolding workers_ok_def by blast
  have R: "r' \<in> R \<longleftrightarrow> (\<exists>j<length ws. worker_request (ws ! j) = Some r')" for r'
    using assms(1) by (simp add: workers_ok_def)
  show ?thesis
    unfolding workers_ok_def
  proof (intro conjI allI impI, goal_cases)
    case (1 r')
    show ?case
    proof
      assume r': "r' \<in> R - {r}"
      then obtain j where j: "j < length ws" "worker_request (ws ! j) = Some r'" using R by blast
      then have "j \<noteq> i" using r' assms(3) by auto
      then show "\<exists>j<length (ws[i := w]). worker_request (ws[i := w] ! j) = Some r'"
        using j req [OF j(1)] by (intro exI [of _ j]) simp
    next
      assume "\<exists>j<length (ws[i := w]). worker_request (ws[i := w] ! j) = Some r'"
      then obtain j where j: "j < length ws" "j \<noteq> i" "worker_request (ws ! j) = Some r'"
        using req by (auto split: if_splits)
      then have "r' \<noteq> r" using inj [OF j(1) assms(2)] assms(3) by auto
      then show "r' \<in> R - {r}" using R j by blast
    qed
  next
    case (2 j k r')
    then show ?case using req inj by (auto split: if_splits)
  qed
qed

text \<open>A notification changes nothing but that some sleeping workers are awake.\<close>

definition wakes :: "Worker list \<Rightarrow> Worker list \<Rightarrow> bool" where
  "wakes ws ws' \<longleftrightarrow> list_all2 (\<lambda>w w'. w' = w \<or> w = Sleeping \<and> w' = Waiting) ws ws'"

lemma wakes_nth: "wakes ws ws' \<longleftrightarrow>
    length ws' = length ws \<and> (\<forall>i<length ws. ws' ! i = ws ! i \<or> ws ! i = Sleeping \<and> ws' ! i = Waiting)"
  by (auto simp: wakes_def list_all2_conv_all_nth)

lemma sleepers_iff: "i \<in> set (sleepers ws) \<longleftrightarrow> i < length ws \<and> ws ! i = Sleeping"
  by (auto simp: sleepers_def)

lemma wakes_refl [simp]: "wakes ws ws"
  by (simp add: wakes_nth)

lemma wakes_update: "i < length ws \<Longrightarrow> ws ! i = Sleeping \<Longrightarrow> wakes ws (ws[i := Waiting])"
  by (auto simp: wakes_nth nth_list_update)

lemma wakes_notify_all: "wakes ws (notify_all ws)"
  by (simp add: wakes_nth notify_all_def)

lemma notify_one_cases:
  "notify_one pick ws = ws \<and> Sleeping \<notin> set ws \<or>
   (\<exists>i<length ws. ws ! i = Sleeping \<and> notify_one pick ws = ws[i := Waiting])"
proof (cases "sleepers ws = []")
  case True
  then have "Sleeping \<notin> set ws" using sleepers_iff [of _ ws] by (auto simp: in_set_conv_nth)
  then show ?thesis using True by (simp add: notify_one_def)
next
  case False
  then have "sleepers ws ! (pick mod length (sleepers ws)) \<in> set (sleepers ws)" by (intro nth_mem) simp
  then show ?thesis using False unfolding sleepers_iff by (auto simp: notify_one_def)
qed

lemma wakes_notify_one: "wakes ws (notify_one pick ws)"
  using notify_one_cases [of pick ws] wakes_update by auto

lemma wakes_set: "wakes ws ws' \<Longrightarrow> w \<in> set ws' \<Longrightarrow> w \<in> set ws \<or> w = Waiting"
  unfolding wakes_nth in_set_conv_nth by fastforce

lemma wakes_request: "wakes ws ws' \<Longrightarrow> i < length ws \<Longrightarrow> worker_request (ws' ! i) = worker_request (ws ! i)"
  unfolding wakes_nth by auto

lemma wakes_length: "wakes ws ws' \<Longrightarrow> length ws' = length ws"
  by (simp add: wakes_nth)

lemma workers_ok_wakes:
  assumes "wakes ws ws'" "workers_ok ws R"
  shows "workers_ok ws' R"
proof -
  note same = wakes_request [OF assms(1)] and len = wakes_length [OF assms(1)]
  have "(\<exists>i<length ws. worker_request (ws' ! i) = Some r) = (\<exists>i<length ws. worker_request (ws ! i) = Some r)" for r
    using same by metis
  then show ?thesis using assms(2) same unfolding workers_ok_def len by metis
qed

lemma executor_inv_wakes:
  assumes "executor_inv cu ex" "wakes (ex_workers ex) ws"
  shows "executor_inv cu (ex\<lparr>ex_workers := ws\<rparr>)"
proof -
  have "Executing t \<in> set ws \<Longrightarrow> Executing t \<in> set (ex_workers ex)" "Exited \<in> set ws \<Longrightarrow> Exited \<in> set (ex_workers ex)" for t
    using wakes_set [OF assms(2)] by auto
  moreover have "workers_ok ws (ex_running ex)"
    by (rule workers_ok_wakes [OF assms(2)]) (use assms(1) in \<open>simp add: executor_inv_def\<close>)
  ultimately show ?thesis
    using assms(1) wakes_length [OF assms(2)] unfolding executor_inv_def
    by (auto simp: ids_ok_def tasks_ok_def outstanding_def)
qed

lemma context_ok_intact: "context_ok n cx \<Longrightarrow> sg_device_shards cx = sg_staged_shards cx \<Longrightarrow> staging_ok (sg_staged_shards cx) cx"
  by (simp add: context_ok_def staging_ok_def)

lemma context_ok_upload:
  assumes "context_ok n cx" "attempt_upload failure i w cx = (cx', threw)"
  shows "context_ok n cx'"
proof (cases "stage_decode_shard_cuda i w cx")
  case (Inl e)
  then show ?thesis using assms by (simp add: attempt_upload_def)
next
  case (Inr cx1)
  then have w: "w \<noteq> []" "unat i < n" "sg_device_shards cx ! unat i = None" and
    cx1: "cx1 = cx\<lparr>sg_staged_shards := (sg_staged_shards cx)[unat i := Some w],
       sg_word_counts := (sg_word_counts cx)[unat i := Some (length w)], sg_device_shards := (sg_device_shards cx)[unat i := Some w]\<rparr>"
    using assms(1) by (auto simp: stage_decode_shard_cuda_def context_ok_def split: if_splits)
  have slots: "Some [] \<notin> set ((sg_staged_shards cx)[unat i := Some w])"
    using assms(1) w(1) set_update_subset_insert [of "sg_staged_shards cx" "unat i" "Some w"] by (auto simp: context_ok_def)
  have recorded: "context_ok n (cx1\<lparr>sg_device_shards := device\<rparr>)"
    if "device = sg_device_shards cx \<or> (\<exists>buf. length buf = length w \<and> device = (sg_device_shards cx)[unat i := Some buf])" for device
    using assms(1) that w slots by (auto simp: context_ok_def cx1 map_update nth_list_update)
  have "cx' = cx \<or> cx' = cx1 \<or> cx' = cx1\<lparr>sg_device_shards := sg_device_shards cx\<rparr> \<or>
      (\<exists>held. cx' = cx1\<lparr>sg_device_shards := (sg_device_shards cx)[unat i := Some (map held [0..<length w])]\<rparr>)"
    using assms(2) Inr by (auto simp: attempt_upload_def split: option.splits StagingFailure.splits)
  moreover have "cx1 = cx1\<lparr>sg_device_shards := (sg_device_shards cx)[unat i := Some w]\<rparr>" by (simp add: cx1)
  then have "context_ok n cx1" using recorded by metis
  moreover have "context_ok n (cx1\<lparr>sg_device_shards := (sg_device_shards cx)[unat i := Some (map held [0..<length w])]\<rparr>)" for held
    by (rule recorded) (intro disjI2 exI conjI; simp)
  ultimately show ?thesis using recorded [of "sg_device_shards cx"] assms(1) by blast
qed

lemma context_ok_stage: "context_ok n cx \<Longrightarrow> stage_decode_shard_cuda i w cx = Inr cx' \<Longrightarrow> context_ok n cx'"
  using context_ok_upload [of n cx None i w cx' None] by (simp add: attempt_upload_def)

lemma context_ok_create: "create_device_shard_staging_context_cuda dev n = Inr cx \<Longrightarrow> context_ok n cx"
  by (auto simp: create_device_shard_staging_context_cuda_def context_ok_def split: if_splits)

lemma context_ok_submitted: "stage_submitted cu failing shards = Inr cx \<Longrightarrow> context_ok (length shards) cx"
proof -
  assume s: "stage_submitted cu failing shards = Inr cx"
  obtain c0 where c0: "create_device_shard_staging_context_cuda (cu_device cu) (length shards) = Inr c0"
      "foldE (\<lambda>shard_id cx. case shards ! shard_id of None \<Rightarrow> Inr cx
                | Some w \<Rightarrow> stage_decode_shard_cuda (of_nat shard_id) w cx) [0..<length shards] c0 = Inr cx"
    using s by (auto simp: stage_submitted_def bindE_eq_Inr split: if_splits)
  show ?thesis
  proof (rule foldE_invariant [OF c0(2), of "\<lambda>_ c. context_ok (length shards) c"])
    show "context_ok (length shards) c0" by (rule context_ok_create [OF c0(1)])
  qed (auto split: option.splits dest: context_ok_stage)
qed

section \<open>Every operation keeps the invariant\<close>

lemma find_context_ok:
  assumes "tasks_ok ex" "find_context cu failure r n ex = Inr (m, cx)"
  shows "context_ok m cx"
proof (cases "ex_staged ex r")
  case None
  then have "create_device_shard_staging_context_cuda (cu_device cu) n = Inr cx \<and> m = n"
    using assms(2) by (cases "the failure"; cases failure) (auto simp: find_context_def bindE_eq_Inr)
  then show ?thesis using context_ok_create by blast
next
  case (Some staged)
  then show ?thesis using assms by (cases staged) (auto simp: find_context_def tasks_ok_def split: if_splits)
qed

lemma StageShard_cases:
  assumes "tasks_ok ex" "StageShard cu failure r n i w ex = (ex', threw)"
  shows "ex' = ex \<or> (\<exists>m cx. ex' = ex\<lparr>ex_staged := (ex_staged ex)(r \<mapsto> (m, cx))\<rparr> \<and> context_ok m cx \<and>
      r \<notin> ex_running ex \<and> \<not> HasQueuedRequest r ex)"
  using assms(2) find_context_ok [OF assms(1)] context_ok_upload
  by (auto simp: StageShard_def split: if_splits sum.splits prod.splits) blast

lemma StageShard_inv:
  assumes "executor_inv cu ex" "StageShard cu failure r n i w ex = (ex', e)"
  shows "executor_inv cu ex'"
proof -
  have "ex' = ex \<or> (\<exists>m cx. ex' = ex\<lparr>ex_staged := (ex_staged ex)(r \<mapsto> (m, cx))\<rparr> \<and> context_ok m cx \<and>
      r \<notin> ex_running ex \<and> \<not> HasQueuedRequest r ex)"
    using StageShard_cases [OF _ assms(2)] assms(1) by (simp add: executor_inv_def)
  then show ?thesis
  proof
    assume "ex' = ex"
    then show ?thesis using assms(1) by simp
  next
    assume "\<exists>m cx. ex' = ex\<lparr>ex_staged := (ex_staged ex)(r \<mapsto> (m, cx))\<rparr> \<and> context_ok m cx \<and>
      r \<notin> ex_running ex \<and> \<not> HasQueuedRequest r ex"
    then show ?thesis
      using assms(1)
      by (auto simp: executor_inv_def ids_ok_def tasks_ok_def outstanding_def HasQueuedRequest_iff split: if_splits)
  qed
qed

lemma unstage_inv:
  assumes "executor_inv cu ex"
  shows "executor_inv cu (ex\<lparr>ex_staged := (ex_staged ex)(r := None)\<rparr>)"
  using assms by (auto simp: executor_inv_def ids_ok_def tasks_ok_def outstanding_def)

lemma Submit_cases:
  assumes "Submit cu pick failing r plan shards ex = (ex', v)"
  shows "(v \<noteq> Inr True \<and> ex' = ex\<lparr>ex_staged := (ex_staged ex)(r := None)\<rparr>) \<or>
    (\<exists>cx. v = Inr True \<and> \<not> ex_stopping ex \<and> outstanding ex < ex_capacity ex \<and> r \<notin> ex_running ex \<and>
       \<not> HasQueuedRequest r ex \<and>
       (ex_staged ex r = Some (length shards, cx) \<or> ex_staged ex r = None \<and> stage_submitted cu failing shards = Inr cx) \<and>
       ex' = ex\<lparr>ex_staged := (ex_staged ex)(r := None),
         ex_queue := ex_queue ex @ [\<lparr>task_request = r, task_plan = plan, task_shards = shards, task_context = cx\<rparr>],
         ex_workers := notify_one pick (ex_workers ex)\<rparr>)"
  using assms by (auto simp: Submit_def Let_def split: if_splits option.splits sum.splits prod.splits)

lemma Submit_inv:
  assumes "executor_inv cu ex" "Submit cu pick failing r plan shards ex = (ex', v)"
  shows "executor_inv cu ex'"
  using Submit_cases [OF assms(2)]
proof
  assume "v \<noteq> Inr True \<and> ex' = ex\<lparr>ex_staged := (ex_staged ex)(r := None)\<rparr>"
  then show ?thesis using unstage_inv [OF assms(1)] by simp
next
  assume "\<exists>cx. v = Inr True \<and> \<not> ex_stopping ex \<and> outstanding ex < ex_capacity ex \<and> r \<notin> ex_running ex \<and>
       \<not> HasQueuedRequest r ex \<and>
       (ex_staged ex r = Some (length shards, cx) \<or> ex_staged ex r = None \<and> stage_submitted cu failing shards = Inr cx) \<and>
       ex' = ex\<lparr>ex_staged := (ex_staged ex)(r := None),
         ex_queue := ex_queue ex @ [\<lparr>task_request = r, task_plan = plan, task_shards = shards, task_context = cx\<rparr>],
         ex_workers := notify_one pick (ex_workers ex)\<rparr>"
  then obtain cx where c: "outstanding ex < ex_capacity ex" "r \<notin> ex_running ex" "\<not> HasQueuedRequest r ex" "\<not> ex_stopping ex"
       "ex_staged ex r = Some (length shards, cx) \<or> ex_staged ex r = None \<and> stage_submitted cu failing shards = Inr cx"
    and ex': "ex' = ex\<lparr>ex_staged := (ex_staged ex)(r := None),
         ex_queue := ex_queue ex @ [\<lparr>task_request = r, task_plan = plan, task_shards = shards, task_context = cx\<rparr>],
         ex_workers := notify_one pick (ex_workers ex)\<rparr>"
    by blast
  let ?ex = "ex\<lparr>ex_staged := (ex_staged ex)(r := None),
         ex_queue := ex_queue ex @ [\<lparr>task_request = r, task_plan = plan, task_shards = shards, task_context = cx\<rparr>]\<rparr>"
  have "context_ok (length shards) cx"
    using c(5) context_ok_submitted assms(1) by (auto simp: executor_inv_def tasks_ok_def)
  then have "executor_inv cu ?ex"
    using assms(1) c(1-4)
    by (auto simp: executor_inv_def ids_ok_def tasks_ok_def task_ok_def outstanding_def HasQueuedRequest_iff)
  from executor_inv_wakes [OF this, of "notify_one pick (ex_workers ex)"] show ?thesis
    by (simp add: ex' wakes_notify_one)
qed

lemma Executor_stop_inv: "executor_inv cu ex \<Longrightarrow> executor_inv cu (Executor_stop ex)"
proof -
  assume inv: "executor_inv cu ex"
  then have "executor_inv cu (ex\<lparr>ex_stopping := True\<rparr>)"
    by (auto simp: executor_inv_def ids_ok_def tasks_ok_def outstanding_def)
  from executor_inv_wakes [OF this, of "notify_all (ex_workers ex)"] show ?thesis
    by (simp add: Executor_stop_def wakes_notify_all)
qed

lemma spurious_wakeup_cases:
  assumes "spurious_wakeup i ex = Some ex'"
  shows "wakes (ex_workers ex) (ex_workers ex')" "ex' = ex\<lparr>ex_workers := (ex_workers ex)[i := Waiting]\<rparr>"
    "i < length (ex_workers ex)" "ex_workers ex ! i = Sleeping"
  using assms by (auto simp: spurious_wakeup_def wakes_update split: if_splits)

lemma spurious_wakeup_inv: "executor_inv cu ex \<Longrightarrow> spurious_wakeup i ex = Some ex' \<Longrightarrow> executor_inv cu ex'"
  using executor_inv_wakes [of cu ex "ex_workers ex'"] spurious_wakeup_cases(1,2) [of i ex ex'] by simp

lemma erase_task_set: "distinct (map task_request ts) \<Longrightarrow>
    set (erase_task r ts) = {t \<in> set ts. task_request t \<noteq> r} \<and> distinct (map task_request (erase_task r ts)) \<and>
    length (erase_task r ts) \<le> length ts"
  by (induction ts) (auto simp: image_iff)

lemma Cancel_inv:
  assumes "executor_inv cu ex" "Cancel r ex = (ex', b)"
  shows "executor_inv cu ex'"
proof -
  have d: "distinct (map task_request (ex_queue ex))" using assms(1) by (simp add: executor_inv_def ids_ok_def)
  show ?thesis
    using assms erase_task_set [OF d, of r]
    by (auto simp: Cancel_def Let_def executor_inv_def ids_ok_def tasks_ok_def outstanding_def HasQueuedRequest_iff
        split: if_splits)
qed

lemma set_update_worker: "x \<in> set (ws[i := w]) \<Longrightarrow> x = w \<or> x \<in> set ws"
  using set_update_subset_insert [of ws i w] by blast

text \<open>What a staged run decodes from: for every recorded shard its buffer, or a fresh one if the allocation had failed.\<close>

definition held_slots :: "(nat \<Rightarrow> nat \<Rightarrow> ShardWord) \<Rightarrow> DeviceShardStagingContext \<Rightarrow> ShardSlots" where
  "held_slots fresh cx = map (\<lambda>i. map_option (\<lambda>w. case sg_device_shards cx ! i of None \<Rightarrow> map (fresh i) [0..<length w] | Some buf \<Rightarrow> buf)
     (sg_staged_shards cx ! i)) [0..<length (sg_staged_shards cx)]"

lemma held_slots_intact: "sg_device_shards cx = sg_staged_shards cx \<Longrightarrow> held_slots fresh cx = sg_staged_shards cx"
  by (rule nth_equalityI) (auto simp: held_slots_def map_option_case split: option.splits)

lemma held_slots_ok:
  assumes "context_ok n cx"
  shows "length (held_slots fresh cx) = n" "map (map_option length) (held_slots fresh cx) = sg_word_counts cx"
    "Some [] \<notin> set (held_slots fresh cx)"
    "i < n \<Longrightarrow> held_slots fresh cx ! i = None \<Longrightarrow> sg_device_shards cx ! i = None"
    "i < n \<Longrightarrow> held_slots fresh cx ! i = Some b \<Longrightarrow>
      sg_device_shards cx ! i = Some b \<or> sg_device_shards cx ! i = None \<and> b = map (fresh i) [0..<length b]"
proof -
  note cx = assms [unfolded context_ok_def]
  show n: "length (held_slots fresh cx) = n" using cx by (simp add: held_slots_def)
  have nth: "held_slots fresh cx ! i = map_option (\<lambda>w. case sg_device_shards cx ! i of None \<Rightarrow> map (fresh i) [0..<length w] | Some buf \<Rightarrow> buf)
     (sg_staged_shards cx ! i)" if "i < n" for i
    using cx that by (cases "sg_device_shards cx ! i") (simp_all add: held_slots_def)
  show counts: "map (map_option length) (held_slots fresh cx) = sg_word_counts cx"
  proof (rule nth_equalityI)
    fix i
    assume "i < length (map (map_option length) (held_slots fresh cx))"
    then show "map (map_option length) (held_slots fresh cx) ! i = sg_word_counts cx ! i"
      using cx n nth [of i] by (cases "sg_staged_shards cx ! i"; cases "sg_device_shards cx ! i") auto
  qed (use cx n in simp)
  show "Some [] \<notin> set (held_slots fresh cx)"
  proof
    assume "Some [] \<in> set (held_slots fresh cx)"
    then have "Some 0 \<in> set (map (map_option length) (held_slots fresh cx))" by force
    then have "Some 0 \<in> set (map (map_option length) (sg_staged_shards cx))" using counts cx by simp
    then obtain x where "x \<in> set (sg_staged_shards cx)" "map_option length x = Some 0"
      by (metis (no_types, lifting) imageE list.set_map)
    then show False using cx by auto
  qed
  show "i < n \<Longrightarrow> held_slots fresh cx ! i = None \<Longrightarrow> sg_device_shards cx ! i = None"
    using cx nth [of i] by (cases "sg_device_shards cx ! i") auto
  show "i < n \<Longrightarrow> held_slots fresh cx ! i = Some b \<Longrightarrow>
      sg_device_shards cx ! i = Some b \<or> sg_device_shards cx ! i = None \<and> b = map (fresh i) [0..<length b]"
    using nth [of i] by (auto split: option.splits)
qed

text \<open>Whatever uploads failed, the launches of an accepted plan end, and they decode the held slots.\<close>

lemma held_launches:
  assumes "runtime_ok queries" "cache_ok queries cache" "context_ok n cx" "ValidatePlanShape plan = Inr ()"
  defines "sc0 \<equiv> \<lparr>word_counts = sg_word_counts cx, available_shards = map (\<lambda>c. c \<noteq> None) (sg_word_counts cx),
     required_shards = replicate (length (sg_device_shards cx)) False, flattened_sources = [], source_offsets = []\<rparr>"
  shows "scan_plan plan sc0 = Inl e \<Longrightarrow> snd (execute_decode_plan_cpu plan (held_slots fresh cx)) \<noteq> None"
    and "scan_plan plan sc0 = Inr sc \<Longrightarrow> \<exists>device' cache'.
      launch_operations queries (sg_device_id cx) sc (List.enumerate 0 (operations plan)) (allocate fresh sc (sg_device_shards cx), cache)
        = Some (Inr (device', cache')) \<and> cache_ok queries cache' \<and>
      execute_decode_plan_cpu plan (held_slots fresh cx) = (download (operations plan) device' (held_slots fresh cx), None)"
proof -
  let ?held = "held_slots fresh cx"
  note cx = assms(3) [unfolded context_ok_def] and held = held_slots_ok [OF assms(3), where fresh = fresh]
  have "map (\<lambda>c. c \<noteq> None) (sg_word_counts cx) = map (\<lambda>s. s \<noteq> None) ?held" by (simp add: held(2) [symmetric] comp_def)
  then have sc0: "fresh_scan sc0 ?held"
    using cx held(1,3) held(2) [symmetric] by (auto simp: fresh_scan_def tracks_def sc0_def)
  show "scan_plan plan sc0 = Inl e \<Longrightarrow> snd (execute_decode_plan_cpu plan ?held) \<noteq> None"
    using scan_plan_iff [OF sc0 assms(4)] by auto
  assume sc: "scan_plan plan sc0 = Inr sc"
  obtain final where s: "tracks sc final" "\<forall>i<length ?held. required_shards sc ! i \<longrightarrow> final ! i \<noteq> None"
    "\<forall>i<length ?held. ?held ! i \<noteq> None \<longrightarrow> final ! i = ?held ! i" "length final = length ?held"
    by (rule scan_complete [OF sc0 sc])
  have device: "allocate fresh sc (sg_device_shards cx) ! i =
      (if ?held ! i = None then Some (map (fresh i) [0..<the (word_counts sc ! i)]) else ?held ! i)"
    if i: "i < length ?held" "required_shards sc ! i" for i
  proof (cases "?held ! i")
    case None
    then show ?thesis using i held(1,4) cx by (simp add: allocate_def)
  next
    case (Some b)
    then have "final ! i = Some b" using s(3) i(1) by simp
    then have "word_counts sc ! i = Some (length b)" using s(1,4) i(1) by (simp add: tracks_def)
    then show ?thesis using held(1) held(5) [OF _ Some] i cx Some by (auto simp: allocate_def)
  qed
  have "holds sc ?held (allocate fresh sc (sg_device_shards cx))"
    by (rule holds_initial [OF s(1,4) _ s(2,3), where fresh = fresh]) (use cx held(1) device in \<open>simp_all add: allocate_def\<close>)
  from launch_plan [OF assms(1,2) sc0 sc this, of "sg_device_id cx"] assms(4)
  show "\<exists>device' cache'.
      launch_operations queries (sg_device_id cx) sc (List.enumerate 0 (operations plan)) (allocate fresh sc (sg_device_shards cx), cache)
        = Some (Inr (device', cache')) \<and> cache_ok queries cache' \<and>
      execute_decode_plan_cpu plan ?held = (download (operations plan) device' ?held, None)"
    by (auto simp: execute_decode_plan_cpu_def)
qed

lemma run_staged_held:
  assumes "runtime_ok queries" "cache_ok queries cache" "context_ok (length shards) cx"
  shows "\<exists>cx' r. run_staged_decode_plan_cuda queries fresh plan shards cx cache = Some (cx', r) \<and>
    (case r of
       Inl e \<Rightarrow> sg_staged_shards cx \<noteq> shards \<or> snd (execute_decode_plan_cpu plan (held_slots fresh cx)) \<noteq> None
     | Inr (shards', cache') \<Rightarrow> cache_ok queries cache' \<and> sg_staged_shards cx = shards \<and>
         (\<exists>device. execute_decode_plan_cpu plan (held_slots fresh cx) = (download (operations plan) device (held_slots fresh cx), None) \<and>
            shards' = download (operations plan) device shards))"
proof (cases "ValidatePlanShape plan = Inr () \<and> sg_staged_shards cx = shards")
  case False
  then show ?thesis
    using assms(3) by (cases "ValidatePlanShape plan")
      (auto simp: run_staged_decode_plan_cuda_def execute_decode_plan_cpu_def context_ok_def)
next
  case True
  note cx = assms(3) [unfolded context_ok_def] and launches = held_launches [OF assms(1-3), of plan, where fresh = fresh]
  let ?sc0 = "\<lparr>word_counts = sg_word_counts cx, available_shards = map (\<lambda>c. c \<noteq> None) (sg_word_counts cx),
     required_shards = replicate (length (sg_device_shards cx)) False, flattened_sources = [], source_offsets = []\<rparr>"
  show ?thesis
  proof (cases "scan_plan plan ?sc0")
    case (Inl e)
    then show ?thesis using cx True launches(1) by (simp add: run_staged_decode_plan_cuda_def)
  next
    case (Inr sc)
    obtain device' cache' where "launch_operations queries (sg_device_id cx) sc (List.enumerate 0 (operations plan))
        (allocate fresh sc (sg_device_shards cx), cache) = Some (Inr (device', cache'))" "cache_ok queries cache'"
      "execute_decode_plan_cpu plan (held_slots fresh cx) = (download (operations plan) device' (held_slots fresh cx), None)"
      using launches(2) True Inr by blast
    then show ?thesis using cx True Inr by (auto simp: run_staged_decode_plan_cuda_def Let_def)
  qed
qed

text \<open>
  A task always ends with a result, and a failure says why. If no shard was recorded without its content, then the task
  succeeds exactly when no CUDA call fails, what was staged is what was submitted and the CPU executor succeeds, and then
  with the CPU executor's slots.
\<close>

definition trusted :: "Task \<Rightarrow> bool" where
  "trusted task \<longleftrightarrow> (sg_staged_shards (task_context task) = task_shards task \<longrightarrow>
     sg_device_shards (task_context task) = task_shards task)"

definition result_for :: "bool \<Rightarrow> Task \<Rightarrow> RecoveryTaskResult \<Rightarrow> bool" where
  "result_for failing task result \<longleftrightarrow>
     (rt_success result \<longleftrightarrow> \<not> (failing \<and> calls_cuda task) \<and> sg_staged_shards (task_context task) = task_shards task \<and>
        snd (execute_decode_plan_cpu (task_plan task) (task_shards task)) = None) \<and>
     (rt_success result \<longrightarrow> execute_decode_plan_cpu (task_plan task) (task_shards task) = (rt_shards result, None))"

lemma run_task_total:
  assumes "runtime_ok (cu_queries cu)" "cache_ok (cu_queries cu) cache" "task_ok task"
  shows "\<exists>result cache'. run_task cu failing measured task cache = Some (result, cache') \<and> cache_ok (cu_queries cu) cache' \<and>
    (rt_success result \<or> rt_error result \<noteq> None) \<and> (trusted task \<longrightarrow> result_for failing task result)"
proof (cases "failing \<and> calls_cuda task")
  case True
  then show ?thesis using assms(2) by (simp add: run_task_def failed_result_def result_for_def)
next
  case False
  let ?cx = "task_context task" and ?shards = "task_shards task" and ?plan = "task_plan task"
  obtain cx' r where run: "run_staged_decode_plan_cuda (cu_queries cu) (cu_fresh cu) ?plan ?shards ?cx cache = Some (cx', r)"
    and r: "case r of Inl e \<Rightarrow> sg_staged_shards ?cx \<noteq> ?shards \<or> snd (execute_decode_plan_cpu ?plan (held_slots (cu_fresh cu) ?cx)) \<noteq> None
     | Inr (shards', cache') \<Rightarrow> cache_ok (cu_queries cu) cache' \<and> sg_staged_shards ?cx = ?shards \<and>
         (\<exists>device. execute_decode_plan_cpu ?plan (held_slots (cu_fresh cu) ?cx) = (download (operations ?plan) device (held_slots (cu_fresh cu) ?cx), None) \<and>
            shards' = download (operations ?plan) device ?shards)"
    using run_staged_held [OF assms(1,2) assms(3) [unfolded task_ok_def], of "cu_fresh cu" ?plan] by blast
  have held: "held_slots (cu_fresh cu) ?cx = ?shards" if "trusted task" "sg_staged_shards ?cx = ?shards"
    using that held_slots_intact [of ?cx "cu_fresh cu"] by (simp add: trusted_def)
  show ?thesis
  proof (cases r)
    case (Inl e)
    then show ?thesis
      using assms(2) r held run by (auto simp: run_task_def if_not_P [OF False] failed_result_def result_for_def)
  next
    case (Inr y)
    then show ?thesis
      using r held run False by (cases y) (auto simp: run_task_def result_for_def)
  qed
qed

lemma WorkerLoop_inv:
  assumes inv: "executor_inv cu ex" and rt: "runtime_ok (cu_queries cu)"
    and i: "i < length (ex_workers ex)" and step: "WorkerLoop cu failing measured i ex = Some (ex', d)"
  shows "executor_inv cu ex'"
proof -
  have ids: "ids_ok ex" and tasks: "tasks_ok ex" and workers: "workers_ok (ex_workers ex) (ex_running ex)"
    and cache: "cache_ok (cu_queries cu) (ex_cache ex)"
    using inv by (simp_all add: executor_inv_def)
  note fin = workers_ok_card [OF workers]
  have upd: "Executing t \<in> set (ex_workers ex) \<or> w = Executing t" "w \<noteq> Exited \<Longrightarrow> x = Exited \<Longrightarrow> Exited \<in> set (ex_workers ex)"
    if "Executing t \<in> set ((ex_workers ex)[i := w])" "x \<in> set ((ex_workers ex)[i := w])" for t w x
    using that set_update_worker [of _ "ex_workers ex" i w] by auto
  have same: "executor_inv cu (ex\<lparr>ex_workers := (ex_workers ex)[i := w], ex_cache := c\<rparr>)"
    if w: "worker_request w = worker_request (ex_workers ex ! i)" "w \<noteq> Exited" "\<forall>t. w \<noteq> Executing t"
      "cache_ok (cu_queries cu) c" for w c
  proof -
    have "workers_ok ((ex_workers ex)[i := w]) (ex_running ex)" by (rule workers_ok_same [OF workers i w(1)])
    moreover have "Exited \<in> set ((ex_workers ex)[i := w]) \<Longrightarrow> Exited \<in> set (ex_workers ex)"
      using set_update_worker [of Exited "ex_workers ex" i w] w(2) by auto
    moreover have "Executing t \<in> set ((ex_workers ex)[i := w]) \<Longrightarrow> Executing t \<in> set (ex_workers ex)" for t
      using set_update_worker [of "Executing t" "ex_workers ex" i w] w(3) by auto
    ultimately show ?thesis
      using inv w(4) by (auto simp: executor_inv_def ids_ok_def tasks_ok_def outstanding_def)
  qed
  show ?thesis
  proof (cases "ex_workers ex ! i")
    case Waiting
    show ?thesis
    proof (cases "ex_queue ex")
      case Nil
      define w where "w = (if ex_stopping ex then Exited else Sleeping)"
      have ex': "ex' = ex\<lparr>ex_workers := (ex_workers ex)[i := w]\<rparr>"
        using step Waiting Nil by (auto simp: WorkerLoop_def Let_def w_def)
      have "workers_ok ((ex_workers ex)[i := w]) (ex_running ex)"
        by (rule workers_ok_same [OF workers i]) (simp add: Waiting w_def)
      moreover have "Executing t \<in> set ((ex_workers ex)[i := w]) \<Longrightarrow> Executing t \<in> set (ex_workers ex)" for t
        using set_update_worker [of "Executing t" "ex_workers ex" i w] by (auto simp: w_def)
      moreover have "Exited \<in> set ((ex_workers ex)[i := w]) \<Longrightarrow> ex_stopping ex"
        using set_update_worker [of Exited "ex_workers ex" i w] inv by (auto simp: w_def executor_inv_def split: if_splits)
      ultimately show ?thesis
        using inv Nil unfolding ex' by (auto simp: executor_inv_def ids_ok_def tasks_ok_def outstanding_def)
    next
      case (Cons t ts)
      let ?r = "task_request t"
      have ex': "ex' = ex\<lparr>ex_workers := (ex_workers ex)[i := Executing t], ex_queue := ts,
          ex_running := insert ?r (ex_running ex)\<rparr>"
        using step Waiting Cons by (auto simp: WorkerLoop_def Let_def)
      have new: "?r \<notin> ex_running ex" "ex_staged ex ?r = None" "\<forall>s\<in>set ts. task_request s \<noteq> ?r"
        using ids Cons by (auto simp: ids_ok_def image_iff)
      have "workers_ok ((ex_workers ex)[i := Executing t]) (insert ?r (ex_running ex))"
        using workers_ok_take [OF workers i _ _ new(1), of "Executing t"] Waiting by simp
      moreover have "Exited \<notin> set ((ex_workers ex)[i := Executing t])"
        using set_update_worker [of Exited "ex_workers ex" i "Executing t"] inv Cons by (auto simp: executor_inv_def)
      moreover have "Executing s \<in> set ((ex_workers ex)[i := Executing t]) \<Longrightarrow> task_ok s" for s
        using set_update_worker [of "Executing s" "ex_workers ex" i "Executing t"] tasks Cons by (auto simp: tasks_ok_def)
      moreover have "card (insert ?r (ex_running ex)) = Suc (card (ex_running ex))"
        using fin(1) new(1) by simp
      ultimately show ?thesis
        using inv new Cons unfolding ex' by (auto simp: executor_inv_def ids_ok_def tasks_ok_def outstanding_def)
    qed
  next
    case (Executing t)
    then have "task_ok t" using tasks i by (auto simp: tasks_ok_def) (metis nth_mem)
    from run_task_total [OF rt cache this, of failing measured] obtain result c where r:
      "run_task cu failing measured t (ex_cache ex) = Some (result, c)" "cache_ok (cu_queries cu) c" by blast
    have "ex' = ex\<lparr>ex_workers := (ex_workers ex)[i := Executed (task_request t) result], ex_cache := c\<rparr>"
      using step Executing r(1) by (auto simp: WorkerLoop_def Let_def)
    then show ?thesis using same [of "Executed (task_request t) result" c] Executing r(2) by simp
  next
    case (Executed r result)
    then have "ex' = ex\<lparr>ex_workers := (ex_workers ex)[i := if r \<in> ex_cancelled ex then Retiring r else Completing r result],
        ex_cache := ex_cache ex\<rparr>"
      using step by (auto simp: WorkerLoop_def Let_def)
    then show ?thesis using same [of "if r \<in> ex_cancelled ex then Retiring r else Completing r result" "ex_cache ex"] Executed cache by simp
  next
    case (Completing r result)
    then have "ex' = ex\<lparr>ex_workers := (ex_workers ex)[i := Retiring r], ex_cache := ex_cache ex\<rparr>"
      using step by (auto simp: WorkerLoop_def Let_def)
    then show ?thesis using same [of "Retiring r" "ex_cache ex"] Completing cache by simp
  next
    case (Retiring r)
    then have ex': "ex' = ex\<lparr>ex_workers := (ex_workers ex)[i := Notifying], ex_running := ex_running ex - {r},
        ex_cancelled := ex_cancelled ex - {r}\<rparr>"
      using step by (auto simp: WorkerLoop_def Let_def)
    have "workers_ok ((ex_workers ex)[i := Notifying]) (ex_running ex - {r})"
      by (rule workers_ok_retire [OF workers i]) (simp_all add: Retiring)
    moreover have "Exited \<in> set ((ex_workers ex)[i := Notifying]) \<Longrightarrow> Exited \<in> set (ex_workers ex)"
      using set_update_worker [of Exited "ex_workers ex" i Notifying] by auto
    moreover have "Executing t \<in> set ((ex_workers ex)[i := Notifying]) \<Longrightarrow> Executing t \<in> set (ex_workers ex)" for t
      using set_update_worker [of "Executing t" "ex_workers ex" i Notifying] by auto
    moreover have "card (ex_running ex - {r}) \<le> card (ex_running ex)" by (rule card_Diff1_le)
    ultimately show ?thesis
      using inv unfolding ex' by (auto simp: executor_inv_def ids_ok_def tasks_ok_def outstanding_def)
  next
    case Notifying
    then have "executor_inv cu (ex\<lparr>ex_workers := (ex_workers ex)[i := Waiting], ex_cache := ex_cache ex\<rparr>)"
      using same [of Waiting "ex_cache ex"] cache by simp
    from executor_inv_wakes [OF this, of "notify_all ((ex_workers ex)[i := Waiting])"] show ?thesis
      using step Notifying by (simp add: WorkerLoop_def Let_def wakes_notify_all)
  next
    case Sleeping
    then show ?thesis using step by (simp add: WorkerLoop_def Let_def)
  next
    case Exited
    then show ?thesis using step by (simp add: WorkerLoop_def Let_def)
  qed
qed

lemma exec_step_inv:
  assumes "exec_step cu ex ev ex'" "executor_inv cu ex" "runtime_ok (cu_queries cu)"
  shows "executor_inv cu ex'"
  using assms(1)
proof cases
  case (stage failure r n i w threw)
  then show ?thesis using StageShard_inv [OF assms(2)] by blast
next
  case (submit pick failing r plan shards)
  then show ?thesis using Submit_inv [OF assms(2)] by blast
next
  case (refuse pick failing r plan shards v)
  then show ?thesis using Submit_inv [OF assms(2)] by blast
next
  case (cancel r b)
  then show ?thesis using Cancel_inv [OF assms(2)] by blast
next
  case stop
  then show ?thesis using Executor_stop_inv [OF assms(2)] by simp
next
  case (spurious i)
  then show ?thesis using spurious_wakeup_inv [OF assms(2)] by blast
next
  case (work i failing measured)
  then show ?thesis using WorkerLoop_inv [OF assms(2,3)] by blast
next
  case (complete i failing measured r result)
  then show ?thesis using WorkerLoop_inv [OF assms(2,3)] by blast
qed

lemma exec_trace_inv:
  assumes "exec_trace cu ex evs ex'" "executor_inv cu ex" "runtime_ok (cu_queries cu)"
  shows "executor_inv cu ex'"
  using assms by (induction rule: exec_trace.induct) (blast intro: exec_step_inv)+

lemma executor_inv_new:
  assumes "CudaRecoveryExecutor_new c d s = Inr ex"
  shows "executor_inv cu ex"
  using assms
  by (auto simp: CudaRecoveryExecutor_new_def Let_def executor_inv_def ids_ok_def tasks_ok_def outstanding_def
      workers_ok_def cache_ok_def split: if_splits)

end
