(* ===== verification/ExecutorRuns.thy ===== *)
theory ExecutorRuns imports Executor begin

text \<open>
  Whole runs of the executor of \<open>src/runtime/cuda_recovery_executor.cpp\<close>: how accepted submissions and
  completions balance over a trace, that every completion is truthful for clients that do not submit a shard
  whose upload failed, that the workers always drain what is outstanding, and the contract \<open>recovery_executor\<close> a coordinator relies on.
\<close>

section \<open>Accepted tasks and their completions\<close>

fun is_accept :: "RequestId \<Rightarrow> ExecutorEvent \<Rightarrow> bool" where
  "is_accept r (Accepted r' plan shards) = (r' = r)"
| "is_accept r _ = False"

fun is_completion :: "RequestId \<Rightarrow> ExecutorEvent \<Rightarrow> bool" where
  "is_completion r (Completed r' result) = (r' = r)"
| "is_completion r _ = False"

definition accepts :: "RequestId \<Rightarrow> ExecutorEvent list \<Rightarrow> nat" where
  "accepts r evs = length (filter (is_accept r) evs)"

definition completions :: "RequestId \<Rightarrow> ExecutorEvent list \<Rightarrow> nat" where
  "completions r evs = length (filter (is_completion r) evs)"

lemma counts_simps [simp]:
  "accepts r [] = 0" "completions r [] = 0"
  "accepts r (evs @ [ev]) = accepts r evs + of_bool (is_accept r ev)"
  "completions r (evs @ [ev]) = completions r evs + of_bool (is_completion r ev)"
  by (simp_all add: accepts_def completions_def)

text \<open>A request is owed a completion while it is queued or on a worker that has not delivered yet.\<close>

fun worker_owes :: "RequestId \<Rightarrow> Worker \<Rightarrow> bool" where
  "worker_owes r (Executing task) = (task_request task = r)"
| "worker_owes r (Executed r' result) = (r' = r)"
| "worker_owes r (Completing r' result) = (r' = r)"
| "worker_owes r _ = False"

definition owed :: "RequestId \<Rightarrow> Executor \<Rightarrow> bool" where
  "owed r ex \<longleftrightarrow> HasQueuedRequest r ex \<or> (\<exists>i<length (ex_workers ex). worker_owes r (ex_workers ex ! i))"

lemma worker_owes_request: "worker_owes r w \<Longrightarrow> worker_request w = Some r"
  by (cases w) auto

lemma owed_running: "executor_inv cu ex \<Longrightarrow> i < length (ex_workers ex) \<Longrightarrow> worker_owes r (ex_workers ex ! i) \<Longrightarrow>
    r \<in> ex_running ex"
  using worker_owes_request by (auto simp: executor_inv_def workers_ok_def)

lemma owed_update:
  assumes "i < length (ex_workers ex)" "owed r (ex\<lparr>ex_workers := (ex_workers ex)[i := w], ex_queue := ts\<rparr>)"
  shows "r \<in> task_request ` set ts \<or> worker_owes r w \<or>
    (\<exists>j<length (ex_workers ex). j \<noteq> i \<and> worker_owes r (ex_workers ex ! j))"
proof (cases "r \<in> task_request ` set ts")
  case False
  then obtain j where j: "j < length (ex_workers ex)" "worker_owes r ((ex_workers ex)[i := w] ! j)"
    using assms(2) by (auto simp: owed_def HasQueuedRequest_iff)
  then show ?thesis using assms(1) by (cases "j = i") auto
qed simp

text \<open>A wakeup changes nothing of what is owed.\<close>

lemma wakes_owes: "wakes ws ws' \<Longrightarrow> i < length ws \<Longrightarrow> worker_owes r (ws' ! i) = worker_owes r (ws ! i)"
  unfolding wakes_nth by auto

lemma owed_wakes:
  assumes "ex_queue ex' = ex_queue ex" "wakes (ex_workers ex) (ex_workers ex')"
  shows "owed r ex' = owed r ex"
proof -
  have "(\<exists>i<length (ex_workers ex). worker_owes r (ex_workers ex' ! i)) =
      (\<exists>i<length (ex_workers ex). worker_owes r (ex_workers ex ! i))"
    using wakes_owes [OF assms(2)] by metis
  then show ?thesis using assms(1) wakes_length [OF assms(2)] by (simp add: owed_def HasQueuedRequest_def)
qed

text \<open>What one worker phase does to the owed requests: only a completion settles one.\<close>

lemma WorkerLoop_owed:
  assumes inv: "executor_inv cu ex" and i: "i < length (ex_workers ex)"
    and step: "WorkerLoop cu failing measured i ex = Some (ex', d)" and o': "owed r ex'"
  shows "owed r ex \<and> (\<forall>result. d \<noteq> Some (r, result))"
proof -
  have ids: "ids_ok ex" using inv by (simp add: executor_inv_def)
  have inj: "j = i" if "j < length (ex_workers ex)" "worker_owes s (ex_workers ex ! j)" "worker_owes s (ex_workers ex ! i)" for j s
    using inv i that worker_owes_request unfolding executor_inv_def workers_ok_def by blast
  have owed_other: "owed r ex" if "j < length (ex_workers ex)" "worker_owes r (ex_workers ex ! j)" for j
    using that by (auto simp: owed_def)
  have owedE: "HasQueuedRequest r ex \<or> worker_owes r w \<or> (\<exists>j<length (ex_workers ex). j \<noteq> i \<and> worker_owes r (ex_workers ex ! j))"
    if "ex_queue ex' = ex_queue ex" "ex_workers ex' = (ex_workers ex)[i := w]" for w
    using owed_update [OF i, where r = r and w = w and ts = "ex_queue ex"] o' that by (auto simp: owed_def HasQueuedRequest_def list_ex_iff)
  show ?thesis
  proof (cases "ex_workers ex ! i")
    case Waiting
    show ?thesis
    proof (cases "ex_queue ex")
      case Nil
      define w where "w = (if ex_stopping ex then Exited else Sleeping)"
      then have e: "ex' = ex\<lparr>ex_workers := (ex_workers ex)[i := w]\<rparr>" "d = None" "\<not> worker_owes r w"
        using step Waiting Nil by (auto simp: WorkerLoop_def Let_def)
      then show ?thesis using owedE [of w] owed_other by (auto simp: owed_def)
    next
      case (Cons t ts)
      then have e: "ex_queue ex' = ts" "ex_workers ex' = (ex_workers ex)[i := Executing t]" "d = None"
        using step Waiting by (auto simp: WorkerLoop_def Let_def)
      have "r \<in> task_request ` set ts \<or> task_request t = r \<or>
          (\<exists>j<length (ex_workers ex). j \<noteq> i \<and> worker_owes r (ex_workers ex ! j))"
        using owed_update [OF i, where r = r and w = "Executing t" and ts = ts] o' e by (auto simp: owed_def HasQueuedRequest_def list_ex_iff)
      then show ?thesis using e(3) Cons owed_other by (auto simp: owed_def HasQueuedRequest_iff)
    qed
  next
    case (Executing t)
    then obtain result where e: "ex_queue ex' = ex_queue ex" "ex_workers ex' = (ex_workers ex)[i := Executed (task_request t) result]" "d = None"
      using step by (auto simp: WorkerLoop_def Let_def)
    have "worker_owes r (Executed (task_request t) result) \<Longrightarrow> worker_owes r (ex_workers ex ! i)" using Executing by simp
    then show ?thesis using owedE [OF e(1,2)] e(3) i owed_other by (auto simp: owed_def)
  next
    case (Executed r' result)
    then obtain w where e: "ex_queue ex' = ex_queue ex" "ex_workers ex' = (ex_workers ex)[i := w]" "d = None"
        "w = Retiring r' \<or> w = Completing r' result"
      using step by (auto simp: WorkerLoop_def Let_def split: if_splits)
    have "worker_owes r w \<Longrightarrow> worker_owes r (ex_workers ex ! i)" using Executed e(4) by auto
    then show ?thesis using owedE [OF e(1,2)] e(3) i owed_other by (auto simp: owed_def)
  next
    case (Completing r' result)
    then have e: "ex_queue ex' = ex_queue ex" "ex_workers ex' = (ex_workers ex)[i := Retiring r']" "d = Some (r', result)"
      using step by (auto simp: WorkerLoop_def Let_def)
    have "r \<noteq> r'"
    proof
      assume r: "r = r'"
      have "r' \<in> ex_running ex" using owed_running [OF inv i] Completing by simp
      then have "\<not> HasQueuedRequest r' ex" using ids by (auto simp: ids_ok_def HasQueuedRequest_iff)
      then obtain j where "j < length (ex_workers ex)" "j \<noteq> i" "worker_owes r' (ex_workers ex ! j)"
        using owedE [OF e(1,2)] r by auto
      then show False using inj [of j r'] Completing by simp
    qed
    then show ?thesis using owedE [OF e(1,2)] e(3) owed_other by (auto simp: owed_def)
  next
    case (Retiring r')
    then have e: "ex_queue ex' = ex_queue ex" "ex_workers ex' = (ex_workers ex)[i := Notifying]" "d = None"
      using step by (auto simp: WorkerLoop_def Let_def)
    then show ?thesis using owedE [OF e(1,2)] owed_other by (auto simp: owed_def)
  next
    case Notifying
    let ?ex = "ex\<lparr>ex_workers := (ex_workers ex)[i := Waiting]\<rparr>"
    have e: "ex_queue ex' = ex_queue ex" "ex_workers ex' = notify_all (ex_workers ?ex)" "d = None"
      using step Notifying by (auto simp: WorkerLoop_def Let_def)
    have "owed r ?ex" using o' owed_wakes [of ex' ?ex r] e(1,2) wakes_notify_all by simp
    then show ?thesis using owed_update [OF i, where r = r and w = Waiting and ts = "ex_queue ex"] e(3) owed_other
      by (auto simp: owed_def HasQueuedRequest_iff)
  next
    case Sleeping
    then show ?thesis using step by (simp add: WorkerLoop_def Let_def)
  next
    case Exited
    then show ?thesis using step by (simp add: WorkerLoop_def Let_def)
  qed
qed

lemma WorkerLoop_completes:
  assumes "i < length (ex_workers ex)" "WorkerLoop cu failing measured i ex = Some (ex', Some (r, result))"
  shows "ex_workers ex ! i = Completing r result" "owed r ex"
proof -
  show "ex_workers ex ! i = Completing r result"
    using assms(2) by (auto simp: WorkerLoop_def Let_def split: Worker.splits list.splits if_splits)
  then show "owed r ex" using assms(1) by (auto simp: owed_def)
qed

lemma exec_step_counts:
  assumes "exec_step cu ex ev ex'" "executor_inv cu ex"
  shows "of_bool (is_completion r ev) + of_bool (owed r ex') \<le> of_bool (is_accept r ev) + (of_bool (owed r ex) :: nat)"
  using assms(1)
proof cases
  case (stage failure q n i w threw)
  then have "ex_queue ex' = ex_queue ex" "ex_workers ex' = ex_workers ex"
    using StageShard_cases [OF _ stage(2)] assms(2) by (auto simp: executor_inv_def)
  then show ?thesis using stage(1) by (simp add: owed_def HasQueuedRequest_def)
next
  case (submit pick failing q plan shards)
  then obtain cx where ex': "ex_workers ex' = notify_one pick (ex_workers ex)"
      "ex_queue ex' = ex_queue ex @ [\<lparr>task_request = q, task_plan = plan, task_shards = shards, task_context = cx\<rparr>]"
    using Submit_cases [OF submit(2)] by auto
  have "owed r ex' = owed r (ex'\<lparr>ex_workers := ex_workers ex\<rparr>)"
    by (rule owed_wakes) (simp_all add: ex' wakes_notify_one)
  then show ?thesis
    using submit(1) by (auto simp: ex'(2) owed_def HasQueuedRequest_iff)
next
  case (refuse pick failing q plan shards v)
  then have "ex_queue ex' = ex_queue ex" "ex_workers ex' = ex_workers ex"
    using Submit_cases [OF refuse(2)] by auto
  then show ?thesis using refuse(1) by (simp add: owed_def HasQueuedRequest_def)
next
  case (cancel q b)
  have d: "distinct (map task_request (ex_queue ex))" using assms(2) by (simp add: executor_inv_def ids_ok_def)
  have "owed r ex' \<Longrightarrow> owed r ex"
    using cancel(2) erase_task_set [OF d, of q]
    by (auto simp: Cancel_def Let_def owed_def HasQueuedRequest_iff split: if_splits)
  then show ?thesis using cancel(1) by simp
next
  case stop
  then show ?thesis using owed_wakes [of ex' ex r] by (simp add: Executor_stop_def wakes_notify_all)
next
  case (spurious i)
  then show ?thesis using owed_wakes [of ex' ex r] spurious_wakeup_cases [OF spurious(2)] by simp
next
  case (work i failing measured)
  then show ?thesis using WorkerLoop_owed [OF assms(2) work(2,3), of r] by auto
next
  case (complete i failing measured q result)
  then show ?thesis
    using WorkerLoop_owed [OF assms(2) complete(2,3), of r] WorkerLoop_completes(2) [OF complete(2,3)] by auto
qed

lemma exec_trace_counts:
  assumes "exec_trace cu ex evs ex'" "executor_inv cu ex" "runtime_ok (cu_queries cu)"
  shows "completions r evs + of_bool (owed r ex') \<le> accepts r evs + of_bool (owed r ex)"
  using assms
proof (induction rule: exec_trace.induct)
  case (start ex)
  then show ?case by simp
next
  case (next_event ex evs ex' ev ex'')
  then have "executor_inv cu ex'" using exec_trace_inv by blast
  from exec_step_counts [OF next_event(2) this, of r] next_event.IH [OF next_event.prems]
  show ?case by simp
qed

text \<open>
  A call of \<open>StageShard\<close> that throws may have recorded the shard without uploading it. Whoever then goes on as if it were
  staged gets garbage: a trace is honest if no accepted submission contains a shard whose last upload threw.
\<close>

definition upload_failed :: "RequestId \<Rightarrow> ShardId \<Rightarrow> ExecutorEvent list \<Rightarrow> bool" where
  "upload_failed r i evs = foldl (\<lambda>failed ev. case ev of
     Staged r' i' threw \<Rightarrow> if r' = r \<and> i' = i then threw \<noteq> None else failed | _ \<Rightarrow> failed) False evs"

definition backed :: "ExecutorEvent list \<Rightarrow> ExecutorEvent \<Rightarrow> bool" where
  "backed evs ev = (case ev of
     Accepted r plan shards \<Rightarrow> (\<forall>i. unat i < length shards \<and> shards ! unat i \<noteq> None \<longrightarrow> \<not> upload_failed r i evs)
   | _ \<Rightarrow> True)"

definition honest :: "ExecutorEvent list \<Rightarrow> bool" where
  "honest evs \<longleftrightarrow> (\<forall>k<length evs. backed (take k evs) (evs ! k))"

lemma upload_failed_simps [simp]:
  "upload_failed r i [] = False"
  "upload_failed r i (evs @ [ev]) = (case ev of
     Staged r' i' threw \<Rightarrow> if r' = r \<and> i' = i then threw \<noteq> None else upload_failed r i evs | _ \<Rightarrow> upload_failed r i evs)"
proof -
  show "upload_failed r i [] = False" by (simp add: upload_failed_def)
  show "upload_failed r i (evs @ [ev]) = (case ev of
     Staged r' i' threw \<Rightarrow> if r' = r \<and> i' = i then threw \<noteq> None else upload_failed r i evs | _ \<Rightarrow> upload_failed r i evs)"
    unfolding upload_failed_def foldl_append by (cases ev) simp_all
qed

lemma honest_simps [simp]: "honest []" "honest (evs @ [ev]) \<longleftrightarrow> honest evs \<and> backed evs ev"
  by (auto simp: honest_def less_Suc_eq nth_append)

lemma honest_no_failure: "\<forall>r i e. Staged r i (Some e) \<notin> set evs \<Longrightarrow> honest evs \<and> \<not> upload_failed r i evs"
proof (induction evs arbitrary: r i rule: rev_induct)
  case (snoc ev evs)
  have old: "honest evs \<and> \<not> upload_failed r i evs" for r i by (rule snoc.IH) (use snoc.prems in auto)
  have "ev \<noteq> Staged r i (Some e)" for r i e using snoc.prems by auto
  then have "\<not> upload_failed r i (evs @ [ev])" using old by (cases ev) auto
  then show ?case using old by (auto simp: backed_def split: ExecutorEvent.splits)
qed simp

text \<open>Every task and every result goes back to an accepted submission.\<close>

definition outcome :: "DecodePlan \<Rightarrow> ShardSlots \<Rightarrow> RecoveryTaskResult \<Rightarrow> bool" where
  "outcome plan shards result \<longleftrightarrow>
     (if rt_success result then execute_decode_plan_cpu plan shards = (rt_shards result, None)
      else rt_error result \<noteq> None)"

definition accepted_task :: "ExecutorEvent list \<Rightarrow> Task \<Rightarrow> bool" where
  "accepted_task evs task \<longleftrightarrow> Accepted (task_request task) (task_plan task) (task_shards task) \<in> set evs \<and> trusted task"

definition accepted_result :: "ExecutorEvent list \<Rightarrow> RequestId \<Rightarrow> RecoveryTaskResult \<Rightarrow> bool" where
  "accepted_result evs r result \<longleftrightarrow>
     (\<exists>plan shards. Accepted r plan shards \<in> set evs \<and> outcome plan shards result)"

fun worker_history :: "ExecutorEvent list \<Rightarrow> Worker \<Rightarrow> bool" where
  "worker_history evs (Executing task) = accepted_task evs task"
| "worker_history evs (Executed r result) = accepted_result evs r result"
| "worker_history evs (Completing r result) = accepted_result evs r result"
| "worker_history evs _ = True"

definition history_ok :: "ExecutorEvent list \<Rightarrow> Executor \<Rightarrow> bool" where
  "history_ok evs ex \<longleftrightarrow> (\<forall>task\<in>set (ex_queue ex). accepted_task evs task) \<and>
     (\<forall>w\<in>set (ex_workers ex). worker_history evs w) \<and>
     (\<forall>r result. Completed r result \<in> set evs \<longrightarrow> accepted_result evs r result)"

text \<open>While submissions are accepted, a staged shard whose buffer does not hold it is one whose upload threw.\<close>

definition uploads_ok :: "ExecutorEvent list \<Rightarrow> Executor \<Rightarrow> bool" where
  "uploads_ok evs ex \<longleftrightarrow> (\<not> ex_stopping ex \<longrightarrow> (\<forall>r n cx. ex_staged ex r = Some (n, cx) \<longrightarrow>
     (\<forall>j<n. sg_staged_shards cx ! j \<noteq> sg_device_shards cx ! j \<longrightarrow> (\<exists>i. unat i = j \<and> upload_failed r i evs))))"

lemma history_mono:
  "accepted_task evs task \<Longrightarrow> accepted_task (evs @ [ev]) task"
  "accepted_result evs r result \<Longrightarrow> accepted_result (evs @ [ev]) r result"
  by (auto simp: accepted_task_def accepted_result_def)

lemma worker_history_mono: "worker_history evs w \<Longrightarrow> worker_history (evs @ [ev]) w"
  by (cases w) (auto intro: history_mono)

lemma wakes_history: "wakes ws ws' \<Longrightarrow> w \<in> set ws' \<Longrightarrow> w \<in> set ws \<or> worker_history evs w"
  using wakes_set [of ws ws' w] by auto

lemma history_frame:
  assumes "history_ok evs ex" "set (ex_queue ex') \<subseteq> set (ex_queue ex)"
    and "\<forall>w\<in>set (ex_workers ex'). w \<in> set (ex_workers ex) \<or> worker_history (evs @ [ev]) w"
    and "\<forall>r result. ev = Completed r result \<longrightarrow> accepted_result evs r result"
  shows "history_ok (evs @ [ev]) ex'"
  unfolding history_ok_def
proof (intro conjI ballI allI impI)
  fix task
  assume "task \<in> set (ex_queue ex')"
  then show "accepted_task (evs @ [ev]) task"
    using assms(1,2) history_mono(1) unfolding history_ok_def by blast
next
  fix w
  assume "w \<in> set (ex_workers ex')"
  then show "worker_history (evs @ [ev]) w"
    using assms(1,3) worker_history_mono unfolding history_ok_def by blast
next
  fix r result
  assume "Completed r result \<in> set (evs @ [ev])"
  then have "Completed r result \<in> set evs \<or> ev = Completed r result" by auto
  then have "accepted_result evs r result" using assms(1,4) unfolding history_ok_def by blast
  then show "accepted_result (evs @ [ev]) r result" by (rule history_mono)
qed

lemma WorkerLoop_history:
  assumes "history_ok evs ex" "executor_inv cu ex" "runtime_ok (cu_queries cu)"
    and i: "i < length (ex_workers ex)" and step: "WorkerLoop cu failing measured i ex = Some (ex', d)"
  shows "set (ex_queue ex') \<subseteq> set (ex_queue ex)"
    "\<forall>w\<in>set (ex_workers ex'). w \<in> set (ex_workers ex) \<or> worker_history evs w"
    "\<forall>r result. d = Some (r, result) \<longrightarrow> accepted_result evs r result"
proof -
  have wi: "worker_history evs (ex_workers ex ! i)" using assms(1) i by (simp add: history_ok_def)
  have "set (ex_queue ex') \<subseteq> set (ex_queue ex) \<and>
      (\<exists>w. wakes ((ex_workers ex)[i := w]) (ex_workers ex') \<and> worker_history evs w) \<and>
      (\<forall>r result. d = Some (r, result) \<longrightarrow> accepted_result evs r result)"
  proof (cases "ex_workers ex ! i")
    case (Executing t)
    have "task_ok t" using assms(2) i Executing unfolding executor_inv_def tasks_ok_def by (metis nth_mem)
    moreover have "cache_ok (cu_queries cu) (ex_cache ex)" using assms(2) by (simp add: executor_inv_def)
    ultimately obtain result c where r: "run_task cu failing measured t (ex_cache ex) = Some (result, c)"
        "rt_success result \<or> rt_error result \<noteq> None" "trusted t \<longrightarrow> result_for failing t result"
      using run_task_total [OF assms(3)] by blast
    have "accepted_result evs (task_request t) result"
      unfolding accepted_result_def
    proof (intro exI conjI)
      show "Accepted (task_request t) (task_plan t) (task_shards t) \<in> set evs"
        using wi Executing by (simp add: accepted_task_def)
      have "trusted t" using wi Executing by (simp add: accepted_task_def)
      then have "rt_success result \<longrightarrow> execute_decode_plan_cpu (task_plan t) (task_shards t) = (rt_shards result, None)"
        using r(3) by (simp add: result_for_def)
      then show "outcome (task_plan t) (task_shards t) result" using r(2) by (auto simp: outcome_def)
    qed
    moreover have "ex_workers ex' = (ex_workers ex)[i := Executed (task_request t) result]"
        "ex_queue ex' = ex_queue ex" "d = None"
      using step Executing r(1) by (auto simp: WorkerLoop_def Let_def)
    ultimately show ?thesis by (auto intro!: exI [of _ "Executed (task_request t) result"])
  next
    case Waiting
    have queued: "\<forall>task\<in>set (ex_queue ex). accepted_task evs task" using assms(1) by (simp add: history_ok_def)
    show ?thesis
    proof (cases "ex_queue ex")
      case Nil
      then have "ex_workers ex' = (ex_workers ex)[i := if ex_stopping ex then Exited else Sleeping]"
          "ex_queue ex' = ex_queue ex" "d = None"
        using step Waiting by (auto simp: WorkerLoop_def Let_def)
      then show ?thesis by (auto intro!: exI [of _ "if ex_stopping ex then Exited else Sleeping"])
    next
      case (Cons t ts)
      then have "ex_workers ex' = (ex_workers ex)[i := Executing t]" "ex_queue ex' = ts" "d = None"
        using step Waiting by (auto simp: WorkerLoop_def Let_def)
      then show ?thesis using queued Cons by (auto intro: exI [of _ "Executing t"])
    qed
  next
    case (Executed r result)
    let ?w = "if r \<in> ex_cancelled ex then Retiring r else Completing r result"
    have "ex_workers ex' = (ex_workers ex)[i := ?w]" "ex_queue ex' = ex_queue ex" "d = None"
      using step Executed by (auto simp: WorkerLoop_def Let_def)
    then show ?thesis using wi Executed by (auto intro!: exI [of _ ?w])
  next
    case (Completing r result)
    then have "ex_workers ex' = (ex_workers ex)[i := Retiring r]" "ex_queue ex' = ex_queue ex" "d = Some (r, result)"
      using step by (auto simp: WorkerLoop_def Let_def)
    then show ?thesis using wi Completing by (auto intro: exI [of _ "Retiring r"])
  next
    case (Retiring r)
    then have "ex_workers ex' = (ex_workers ex)[i := Notifying]" "ex_queue ex' = ex_queue ex" "d = None"
      using step by (auto simp: WorkerLoop_def Let_def)
    then show ?thesis by (auto intro: exI [of _ Notifying])
  next
    case Notifying
    then have "ex_workers ex' = notify_all ((ex_workers ex)[i := Waiting])" "ex_queue ex' = ex_queue ex" "d = None"
      using step by (auto simp: WorkerLoop_def Let_def)
    then show ?thesis by (auto intro: exI [of _ Waiting] wakes_notify_all)
  next
    case Sleeping
    then show ?thesis using step by (simp add: WorkerLoop_def Let_def)
  next
    case Exited
    then show ?thesis using step by (simp add: WorkerLoop_def Let_def)
  qed
  then obtain w where w: "set (ex_queue ex') \<subseteq> set (ex_queue ex)" "wakes ((ex_workers ex)[i := w]) (ex_workers ex')"
      "worker_history evs w" "\<forall>r result. d = Some (r, result) \<longrightarrow> accepted_result evs r result" by blast
  show "set (ex_queue ex') \<subseteq> set (ex_queue ex)" by (rule w(1))
  show "\<forall>w\<in>set (ex_workers ex'). w \<in> set (ex_workers ex) \<or> worker_history evs w"
    using w(3) wakes_set [OF w(2)] set_update_worker [of _ "ex_workers ex" i w] by fastforce
  show "\<forall>r result. d = Some (r, result) \<longrightarrow> accepted_result evs r result" by (rule w(4))
qed

lemma Cancel_queue:
  assumes "Cancel q ex = (ex', b)"
  shows "ex_queue ex' = ex_queue ex \<or> ex_queue ex' = erase_task q (ex_queue ex)" "ex_workers ex' = ex_workers ex"
  using assms by (auto simp: Cancel_def Let_def split: if_splits)

lemma set_erase_task: "set (erase_task q ts) \<subseteq> set ts"
  by (induction ts) auto

lemma attempt_upload_cases:
  assumes "attempt_upload failure i w cx = (cx', threw)"
  shows "cx' = cx \<and> threw \<noteq> None \<or> sg_staged_shards cx' = (sg_staged_shards cx)[unat i := Some w] \<and>
    (sg_device_shards cx' = sg_device_shards cx \<and> threw \<noteq> None \<or>
     (\<exists>buf. sg_device_shards cx' = (sg_device_shards cx)[unat i := Some buf] \<and> (threw \<noteq> None \<or> buf = w)))"
  using assms
  by (auto simp: attempt_upload_def stage_decode_shard_cuda_def split: if_splits option.splits StagingFailure.splits)

lemma find_context_intact:
  assumes "find_context cu failure r n ex = Inr (m, cx)"
  shows "ex_staged ex r = Some (m, cx) \<or> ex_staged ex r = None \<and> sg_device_shards cx = sg_staged_shards cx"
proof (cases "ex_staged ex r")
  case None
  then have "create_device_shard_staging_context_cuda (cu_device cu) n = Inr cx"
    using assms by (cases "the failure"; cases failure) (auto simp: find_context_def bindE_eq_Inr)
  then show ?thesis using None by (auto simp: create_device_shard_staging_context_cuda_def split: if_splits)
next
  case (Some staged)
  then show ?thesis using assms by (cases staged) (auto simp: find_context_def split: if_splits)
qed

lemma StageShard_uploads:
  assumes "uploads_ok evs ex" "executor_inv cu ex" "StageShard cu failure r n i w ex = (ex', threw)"
  shows "uploads_ok (evs @ [Staged r i threw]) ex'"
proof (cases "ex_stopping ex \<or> r \<in> ex_running ex \<or> HasQueuedRequest r ex")
  case True
  then have ex': "ex' = ex" "threw = None" using assms(3) by (auto simp: StageShard_def)
  have "ex_staged ex r = None" if "\<not> ex_stopping ex"
    using True that assms(2) by (auto simp: executor_inv_def ids_ok_def HasQueuedRequest_iff)
  have "upload_failed q i' (evs @ [Staged r i threw]) = upload_failed q i' evs" if "\<not> ex_stopping ex" "ex_staged ex q = Some x" for q x i'
  proof -
    have "r \<noteq> q" using \<open>\<not> ex_stopping ex \<Longrightarrow> ex_staged ex r = None\<close> that by auto
    then show ?thesis by simp
  qed
  then show ?thesis using assms(1) unfolding uploads_ok_def ex'(1) by metis
next
  case free: False
  have older: "\<exists>i'. unat i' = j \<and> upload_failed q i' (evs @ [Staged r i threw])"
    if h: "ex_staged ex q = Some (m, cx)" "j < m" "sg_staged_shards cx ! j \<noteq> sg_device_shards cx ! j" "q \<noteq> r \<or> j \<noteq> unat i \<or> threw \<noteq> None" for q m cx j
  proof -
    obtain i' where i': "unat i' = j" "upload_failed q i' evs" using assms(1) free h(1-3) unfolding uploads_ok_def by blast
    then have "upload_failed q i' (evs @ [Staged r i threw])" using h(4) by auto
    then show ?thesis using i'(1) by blast
  qed
  show ?thesis
  proof (cases "find_context cu failure r n ex")
    case (Inl e)
    then have "ex' = ex" "threw = Some e" using assms(3) free by (simp_all add: StageShard_def)
    then show ?thesis using older by (simp add: uploads_ok_def del: upload_failed_simps)
  next
    case (Inr mcx)
    obtain m cx where mcx: "mcx = (m, cx)" by fastforce
    obtain cx' where up: "attempt_upload failure i w cx = (cx', threw)"
      and ex': "ex' = ex\<lparr>ex_staged := (ex_staged ex)(r \<mapsto> (m, cx'))\<rparr>"
      using assms(3) free Inr mcx by (auto simp: StageShard_def split: prod.splits)
    have ok: "context_ok m cx" using find_context_ok [OF _ Inr [unfolded mcx]] assms(2) by (simp add: executor_inv_def)
    then have len: "length (sg_staged_shards cx) = m" "length (sg_device_shards cx) = m" by (simp_all add: context_ok_def)
    note before = find_context_intact [OF Inr [unfolded mcx]]
    have new: "\<exists>i'. unat i' = j \<and> upload_failed r i' (evs @ [Staged r i threw])"
      if j: "j < m" "sg_staged_shards cx' ! j \<noteq> sg_device_shards cx' ! j" for j
    proof (cases "j = unat i \<and> threw \<noteq> None")
      case True
      then show ?thesis by (intro exI [of _ i]) simp
    next
      case other: False
      have "sg_staged_shards cx ! j \<noteq> sg_device_shards cx ! j \<and> (j \<noteq> unat i \<or> threw \<noteq> None)"
        using attempt_upload_cases [OF up] j other len by (cases "unat i = j") auto
      moreover have "ex_staged ex r = Some (m, cx)" using before calculation by auto
      ultimately show ?thesis using older [of r m cx j] j(1) by blast
    qed
    show ?thesis
      unfolding uploads_ok_def ex' using new older free by (auto simp del: upload_failed_simps split: if_splits)
  qed
qed

text \<open>An accepted submission without a shard whose upload threw is of a task whose shards are where they are recorded.\<close>

lemma stage_submitted_intact:
  assumes "stage_submitted cu failing shards = Inr cx"
  shows "sg_device_shards cx = sg_staged_shards cx"
proof -
  obtain c0 where c0: "create_device_shard_staging_context_cuda (cu_device cu) (length shards) = Inr c0"
      "foldE (\<lambda>shard_id cx. case shards ! shard_id of None \<Rightarrow> Inr cx
                | Some w \<Rightarrow> stage_decode_shard_cuda (of_nat shard_id) w cx) [0..<length shards] c0 = Inr cx"
    using assms by (auto simp: stage_submitted_def bindE_eq_Inr split: if_splits)
  show ?thesis
  proof (rule foldE_invariant [OF c0(2), of "\<lambda>_ c. sg_device_shards c = sg_staged_shards c"])
    show "sg_device_shards c0 = sg_staged_shards c0"
      using c0(1) by (auto simp: create_device_shard_staging_context_cuda_def split: if_splits)
  qed (auto simp: stage_decode_shard_cuda_def split: option.splits if_splits)
qed

lemma Submit_trusted:
  assumes "uploads_ok evs ex" "executor_inv cu ex" "\<not> ex_stopping ex"
    and "ex_staged ex r = Some (length shards, cx) \<or> ex_staged ex r = None \<and> stage_submitted cu failing shards = Inr cx"
    and "\<forall>i. unat i < length shards \<and> shards ! unat i \<noteq> None \<longrightarrow> \<not> upload_failed r i evs"
    and "sg_staged_shards cx = shards"
  shows "sg_device_shards cx = shards"
  using assms(4)
proof
  assume staged: "ex_staged ex r = Some (length shards, cx)"
  then have ok: "context_ok (length shards) cx" using assms(2) by (simp add: executor_inv_def tasks_ok_def)
  show ?thesis
  proof (rule nth_equalityI)
    fix j
    assume "j < length (sg_device_shards cx)"
    then have j: "j < length shards" using ok by (simp add: context_ok_def)
    show "sg_device_shards cx ! j = shards ! j"
    proof (rule ccontr)
      assume diff: "sg_device_shards cx ! j \<noteq> shards ! j"
      then obtain i where i: "unat i = j" "upload_failed r i evs"
        using assms(1,3,6) staged j unfolding uploads_ok_def by metis
      then have "shards ! j = None" using assms(5) j by blast
      then have "sg_device_shards cx ! j = None"
        using ok j assms(6) by (cases "sg_device_shards cx ! j") (auto simp: context_ok_def)
      then show False using diff \<open>shards ! j = None\<close> by simp
    qed
  qed (use ok in \<open>simp add: context_ok_def\<close>)
qed (use stage_submitted_intact assms(6) in auto)

lemma uploads_frame:
  assumes "uploads_ok evs ex" "\<And>r i threw. ev \<noteq> Staged r i threw"
    and "ex_stopping ex \<longrightarrow> ex_stopping ex'" "\<And>r. ex_staged ex' r = None \<or> ex_staged ex' r = ex_staged ex r"
  shows "uploads_ok (evs @ [ev]) ex'"
proof -
  have "upload_failed r i (evs @ [ev]) = upload_failed r i evs" for r i
    using assms(2) by (cases ev) auto
  then show ?thesis using assms(1,3,4) unfolding uploads_ok_def by (metis option.distinct(1))
qed

lemma exec_step_uploads:
  assumes "exec_step cu ex ev ex'" "uploads_ok evs ex" "executor_inv cu ex"
  shows "uploads_ok (evs @ [ev]) ex'"
  using assms(1)
proof cases
  case (stage failure q n i w threw)
  then show ?thesis using StageShard_uploads [OF assms(2,3)] by simp
next
  case (submit pick failing q plan shards)
  from Submit_cases [OF submit(2)] submit(1) show ?thesis by (intro uploads_frame [OF assms(2)]) auto
next
  case (refuse pick failing q plan shards v)
  from Submit_cases [OF refuse(2)] refuse(1,3) show ?thesis by (intro uploads_frame [OF assms(2)]) auto
next
  case (cancel q b)
  then show ?thesis by (intro uploads_frame [OF assms(2)]) (auto simp: Cancel_def Let_def split: if_splits)
next
  case stop
  then show ?thesis by (intro uploads_frame [OF assms(2)]) (auto simp: Executor_stop_def)
next
  case (spurious i)
  then show ?thesis by (intro uploads_frame [OF assms(2)]) (auto simp: spurious_wakeup_def split: if_splits)
next
  case (work i failing measured)
  then show ?thesis
    by (intro uploads_frame [OF assms(2)]) (auto simp: WorkerLoop_def Let_def split: Worker.splits list.splits if_splits)
next
  case (complete i failing measured q result)
  then show ?thesis
    by (intro uploads_frame [OF assms(2)]) (auto simp: WorkerLoop_def Let_def split: Worker.splits list.splits if_splits)
qed

lemma exec_step_history:
  assumes "exec_step cu ex ev ex'" "history_ok evs ex" "uploads_ok evs ex" "honest (evs @ [ev])"
    and "executor_inv cu ex" "runtime_ok (cu_queries cu)"
  shows "history_ok (evs @ [ev]) ex'"
  using assms(1)
proof cases
  case (stage failure q n i w threw)
  then have "ex_queue ex' = ex_queue ex" "ex_workers ex' = ex_workers ex"
    using StageShard_cases [OF _ stage(2)] assms(5) by (auto simp: executor_inv_def)
  then show ?thesis using stage(1) by (intro history_frame [OF assms(2)]) auto
next
  case (submit pick failing q plan shards)
  then obtain cx where cx: "\<not> ex_stopping ex"
      "ex_staged ex q = Some (length shards, cx) \<or> ex_staged ex q = None \<and> stage_submitted cu failing shards = Inr cx"
      "ex_queue ex' = ex_queue ex @ [\<lparr>task_request = q, task_plan = plan, task_shards = shards, task_context = cx\<rparr>]"
      "ex_workers ex' = notify_one pick (ex_workers ex)"
    using Submit_cases [OF submit(2)] by auto
  have "trusted \<lparr>task_request = q, task_plan = plan, task_shards = shards, task_context = cx\<rparr>"
    using Submit_trusted [OF assms(3,5) cx(1,2)] assms(4) submit(1) by (simp add: trusted_def backed_def)
  moreover have "history_ok (evs @ [ev]) (ex\<lparr>ex_workers := ex_workers ex'\<rparr>)"
    using submit(1) wakes_history [OF wakes_notify_one] by (intro history_frame [OF assms(2)]) (auto simp: cx(4))
  ultimately show ?thesis using submit(1) cx(3) by (auto simp: history_ok_def accepted_task_def)
next
  case (refuse pick failing q plan shards v)
  then have "ex_queue ex' = ex_queue ex" "ex_workers ex' = ex_workers ex"
    using Submit_cases [OF refuse(2)] by auto
  then show ?thesis using refuse(1) by (intro history_frame [OF assms(2)]) auto
next
  case (cancel q b)
  have "set (ex_queue ex') \<subseteq> set (ex_queue ex)" "ex_workers ex' = ex_workers ex"
    using Cancel_queue [OF cancel(2)] set_erase_task [of q "ex_queue ex"] by auto
  then show ?thesis using cancel(1) by (intro history_frame [OF assms(2)]) auto
next
  case stop
  then show ?thesis
    using wakes_history [OF wakes_notify_all] by (intro history_frame [OF assms(2)]) (auto simp: Executor_stop_def)
next
  case (spurious i)
  then show ?thesis
    using wakes_history [OF spurious_wakeup_cases(1) [OF spurious(2)]] spurious_wakeup_cases(2) [OF spurious(2)]
    by (intro history_frame [OF assms(2)]) auto
next
  case (work i failing measured)
  note h = WorkerLoop_history [OF assms(2,5,6) work(2,3)]
  show ?thesis
    using h(1,2) worker_history_mono work(1) by (intro history_frame [OF assms(2)]) blast+
next
  case (complete i failing measured q result)
  note h = WorkerLoop_history [OF assms(2,5,6) complete(2,3)]
  show ?thesis
    using h worker_history_mono complete(1) by (intro history_frame [OF assms(2)]) blast+
qed

lemma exec_trace_uploads:
  assumes "exec_trace cu ex evs ex'" "executor_inv cu ex" "runtime_ok (cu_queries cu)" "uploads_ok [] ex"
  shows "uploads_ok evs ex'"
  using assms
proof (induction rule: exec_trace.induct)
  case (next_event ex evs ex' ev ex'')
  then have "executor_inv cu ex'" using exec_trace_inv by blast
  then show ?case using exec_step_uploads [OF next_event.hyps(2)] next_event by blast
qed simp

lemma exec_trace_history:
  assumes "exec_trace cu ex evs ex'" "honest evs" "executor_inv cu ex" "runtime_ok (cu_queries cu)"
    and "history_ok [] ex" "uploads_ok [] ex"
  shows "history_ok evs ex'"
  using assms
proof (induction rule: exec_trace.induct)
  case (start ex)
  then show ?case by simp
next
  case (next_event ex evs ex' ev ex'')
  have "honest evs" using next_event.prems(1) by simp
  then have "history_ok evs ex'" using next_event.IH next_event.prems by blast
  moreover have "uploads_ok evs ex'" by (rule exec_trace_uploads [OF next_event.hyps(1) next_event.prems(2,3,5)])
  moreover have "executor_inv cu ex'" by (rule exec_trace_inv [OF next_event.hyps(1) next_event.prems(2,3)])
  ultimately show ?case using exec_step_history [OF next_event.hyps(2)] next_event.prems by blast
qed

section \<open>Progress\<close>

fun worker_event :: "ExecutorEvent \<Rightarrow> bool" where
  "worker_event (Worked i) = True"
| "worker_event (Completed r result) = True"
| "worker_event _ = False"

fun wakeup_event :: "ExecutorEvent \<Rightarrow> bool" where
  "wakeup_event (WokenUp i) = True"
| "wakeup_event _ = False"

text \<open>No client calls in.\<close>

definition internal :: "ExecutorEvent list \<Rightarrow> bool" where
  "internal evs \<longleftrightarrow> (\<forall>ev\<in>set evs. worker_event ev \<or> wakeup_event ev)"

lemma internal_simps [simp]: "internal []" "internal (evs @ [ev]) \<longleftrightarrow> internal evs \<and> (worker_event ev \<or> wakeup_event ev)"
  by (auto simp: internal_def)

text \<open>The number of workers is \<open>n\<close>: one that notifies may wake all the others.\<close>

fun worker_weight :: "nat \<Rightarrow> Worker \<Rightarrow> nat" where
  "worker_weight n Waiting = 1"
| "worker_weight n Sleeping = 0"
| "worker_weight n (Executing task) = n + 5"
| "worker_weight n (Executed r result) = n + 4"
| "worker_weight n (Completing r result) = n + 3"
| "worker_weight n (Retiring r) = n + 2"
| "worker_weight n Notifying = n + 1"
| "worker_weight n Exited = 0"

text \<open>An upper bound on the phases the workers have left when no client calls in and no worker is woken without a reason.\<close>

definition work_left :: "Executor \<Rightarrow> nat" where
  "work_left ex = (let n = length (ex_workers ex) in
     (n + 5) * length (ex_queue ex) + sum_list (map (worker_weight n) (ex_workers ex)))"

lemma worker_move:
  assumes "i < length ws"
  shows "sum_list (map (worker_weight n) (ws[i := w])) + worker_weight n (ws ! i)
    = sum_list (map (worker_weight n) ws) + worker_weight n w"
proof -
  have "worker_weight n (ws ! i) \<le> sum_list (map (worker_weight n) ws)"
    using elem_le_sum_list [of i "map (worker_weight n) ws"] assms by simp
  then show ?thesis using assms by (simp add: map_update sum_list_update)
qed

lemma notify_all_weight:
  "sum_list (map (worker_weight n) (notify_all ws)) = sum_list (map (worker_weight n) ws) + count_list ws Sleeping"
  by (induction ws) (auto simp: notify_all_def)

lemma count_list_less: "x \<in> set xs \<Longrightarrow> x \<noteq> y \<Longrightarrow> count_list xs y < length xs"
  by (induction xs) (auto simp: less_Suc_eq_le count_le_length)

lemma count_list_update:
  "i < length xs \<Longrightarrow> count_list (xs[i := x]) y + of_bool (xs ! i = y) = count_list xs y + of_bool (x = y)"
proof (induction xs arbitrary: i)
  case (Cons a xs)
  then show ?case
  proof (cases i)
    case (Suc j)
    then show ?thesis using Cons.IH [of j] Cons.prems by (cases "a = y") simp_all
  qed simp
qed simp

lemma WorkerLoop_decreases:
  assumes "i < length (ex_workers ex)" "WorkerLoop cu failing measured i ex = Some (ex', d)"
  shows "work_left ex' < work_left ex"
proof -
  let ?n = "length (ex_workers ex)" and ?ws = "ex_workers ex"
  show ?thesis
  proof (cases "?ws ! i = Notifying")
    case True
    then have ex': "ex_workers ex' = notify_all (?ws[i := Waiting])" "ex_queue ex' = ex_queue ex"
      using assms(2) by (auto simp: WorkerLoop_def Let_def)
    have "count_list (?ws[i := Waiting]) Sleeping < length (?ws[i := Waiting])"
      by (rule count_list_less [of Waiting]) (use assms(1) in \<open>simp_all add: set_update_memI\<close>)
    then show ?thesis
      using worker_move [OF assms(1), of ?n Waiting] notify_all_weight [of ?n "?ws[i := Waiting]"] True wakes_length [OF wakes_notify_all]
      by (simp add: work_left_def Let_def ex')
  next
    case False
    have "\<exists>w. ex_workers ex' = ?ws[i := w] \<and>
        (?n + 5) * length (ex_queue ex') + worker_weight ?n w < (?n + 5) * length (ex_queue ex) + worker_weight ?n (?ws ! i)"
      using assms(2) False
      by (cases "?ws ! i")
        (auto simp: WorkerLoop_def Let_def split: list.splits if_splits intro: exI [of _ Exited] exI [of _ Sleeping])
    then obtain w where w: "ex_workers ex' = ?ws[i := w]"
        "(?n + 5) * length (ex_queue ex') + worker_weight ?n w < (?n + 5) * length (ex_queue ex) + worker_weight ?n (?ws ! i)"
      by blast
    then show ?thesis using worker_move [OF assms(1), of ?n w] by (simp add: work_left_def Let_def)
  qed
qed

lemma worker_step_decreases:
  "exec_step cu ex ev ex' \<Longrightarrow> worker_event ev \<Longrightarrow> work_left ex' < work_left ex"
  by (erule exec_stepE) (auto dest: WorkerLoop_decreases)

lemma wakeup_step_increases:
  assumes "exec_step cu ex ev ex'" "wakeup_event ev"
  shows "work_left ex' = work_left ex + 1"
proof -
  obtain i where i: "spurious_wakeup i ex = Some ex'" using assms by (cases rule: exec_step.cases) auto
  note s = spurious_wakeup_cases [OF i]
  show ?thesis using worker_move [OF s(3), of "length (ex_workers ex)" Waiting] s by (simp add: work_left_def Let_def)
qed

lemma worker_trace_bounded:
  assumes "exec_trace cu ex evs ex'" "internal evs"
  shows "length (filter worker_event evs) + work_left ex' \<le> work_left ex + length (filter wakeup_event evs)"
  using assms
proof (induction rule: exec_trace.induct)
  case (next_event ex evs ex' ev ex'')
  have "worker_event ev \<Longrightarrow> \<not> wakeup_event ev" by (cases ev) auto
  moreover have "worker_event ev \<Longrightarrow> work_left ex'' < work_left ex'" using worker_step_decreases next_event.hyps(2) by blast
  moreover have "wakeup_event ev \<Longrightarrow> work_left ex'' = work_left ex' + 1" using wakeup_step_increases next_event.hyps(2) by blast
  ultimately show ?case using next_event by auto
qed simp

text \<open>
  No wakeup is lost: while a worker sleeps, the stop flag is not set and for every queued task some worker is awake and about to
  look at the queue.
\<close>

definition no_lost_wakeup :: "Executor \<Rightarrow> bool" where
  "no_lost_wakeup ex \<longleftrightarrow> (Sleeping \<in> set (ex_workers ex) \<longrightarrow>
     \<not> ex_stopping ex \<and> length (ex_queue ex) \<le> count_list (ex_workers ex) Waiting)"

lemma notify_all_awake: "Sleeping \<notin> set (notify_all ws)"
  by (auto simp: notify_all_def)

lemma length_erase_task: "length (erase_task r ts) \<le> length ts"
  by (induction ts) auto

lemma no_lost_wakeup_notify_one:
  assumes "no_lost_wakeup ex" "\<not> ex_stopping ex" "ex_stopping ex' = ex_stopping ex"
    and "length (ex_queue ex') = Suc (length (ex_queue ex))" "ex_workers ex' = notify_one pick (ex_workers ex)"
  shows "no_lost_wakeup ex'"
  using notify_one_cases [of pick "ex_workers ex"]
proof
  assume "notify_one pick (ex_workers ex) = ex_workers ex \<and> Sleeping \<notin> set (ex_workers ex)"
  then show ?thesis using assms(5) by (simp add: no_lost_wakeup_def)
next
  assume "\<exists>i<length (ex_workers ex). ex_workers ex ! i = Sleeping \<and> notify_one pick (ex_workers ex) = (ex_workers ex)[i := Waiting]"
  then obtain i where i: "i < length (ex_workers ex)" "ex_workers ex ! i = Sleeping" "ex_workers ex' = (ex_workers ex)[i := Waiting]"
    using assms(5) by auto
  then have "length (ex_queue ex) \<le> count_list (ex_workers ex) Waiting"
    using assms(1) nth_mem [OF i(1)] by (simp add: no_lost_wakeup_def)
  then show ?thesis using assms(2-4) i count_list_update [OF i(1), of Waiting Waiting] by (simp add: no_lost_wakeup_def)
qed

lemma WorkerLoop_no_lost_wakeup:
  assumes "no_lost_wakeup ex" "i < length (ex_workers ex)" "WorkerLoop cu failing measured i ex = Some (ex', d)"
  shows "no_lost_wakeup ex'"
proof -
  have still: "Sleeping \<in> set (ex_workers ex)" if "Sleeping \<in> set ((ex_workers ex)[i := w])" "w \<noteq> Sleeping" for w
    using set_update_worker [OF that(1)] that(2) by auto
  have kept: "no_lost_wakeup ex'"
    if "ex_workers ex' = (ex_workers ex)[i := w]" "w \<noteq> Sleeping" "ex_stopping ex' = ex_stopping ex" "ex_queue ex' = ex_queue ex"
      "ex_workers ex ! i \<noteq> Waiting" for w
    using that still [of w] assms(1) count_list_update [OF assms(2), of w Waiting] by (auto simp: no_lost_wakeup_def)
  show ?thesis
  proof (cases "ex_workers ex ! i")
    case Waiting
    show ?thesis
    proof (cases "ex_queue ex")
      case Nil
      then have ex': "ex' = ex\<lparr>ex_workers := (ex_workers ex)[i := if ex_stopping ex then Exited else Sleeping]\<rparr>"
        using assms(3) Waiting by (auto simp: WorkerLoop_def Let_def)
      show ?thesis using still [of Exited] assms(1) Nil by (auto simp: no_lost_wakeup_def ex')
    next
      case (Cons t ts)
      then have ex': "ex_workers ex' = (ex_workers ex)[i := Executing t]" "ex_queue ex' = ts" "ex_stopping ex' = ex_stopping ex"
        using assms(3) Waiting by (auto simp: WorkerLoop_def Let_def)
      show ?thesis
        using still [of "Executing t"] assms(1) Cons Waiting count_list_update [OF assms(2), of "Executing t" Waiting]
        by (auto simp: no_lost_wakeup_def ex')
    qed
  next
    case Notifying
    then show ?thesis using assms(3) by (auto simp: WorkerLoop_def Let_def no_lost_wakeup_def notify_all_awake)
  next
    case (Executing t)
    then obtain result where "ex_workers ex' = (ex_workers ex)[i := Executed (task_request t) result]"
        "ex_queue ex' = ex_queue ex" "ex_stopping ex' = ex_stopping ex"
      using assms(3) by (auto simp: WorkerLoop_def Let_def)
    then show ?thesis using kept [of "Executed (task_request t) result"] Executing by simp
  next
    case (Executed r result)
    then show ?thesis using assms(3) kept [of "if r \<in> ex_cancelled ex then Retiring r else Completing r result"]
      by (auto simp: WorkerLoop_def Let_def)
  next
    case (Completing r result)
    then show ?thesis using assms(3) kept [of "Retiring r"] by (auto simp: WorkerLoop_def Let_def)
  next
    case (Retiring r)
    then show ?thesis using assms(3) kept [of Notifying] by (auto simp: WorkerLoop_def Let_def)
  qed (use assms(3) in \<open>simp_all add: WorkerLoop_def\<close>)
qed

lemma exec_step_no_lost_wakeup:
  assumes "exec_step cu ex ev ex'" "executor_inv cu ex" "no_lost_wakeup ex"
  shows "no_lost_wakeup ex'"
  using assms(1)
proof cases
  case (stage failure q n i w threw)
  then show ?thesis using StageShard_cases [OF _ stage(2)] assms(2,3) by (auto simp: executor_inv_def no_lost_wakeup_def)
next
  case (submit pick failing q plan shards)
  from Submit_cases [OF submit(2)] show ?thesis
    using no_lost_wakeup_notify_one [OF assms(3), of ex' pick] by auto
next
  case (refuse pick failing q plan shards v)
  from Submit_cases [OF refuse(2)] show ?thesis using refuse(3) assms(3) by (auto simp: no_lost_wakeup_def)
next
  case (cancel q b)
  have "ex_stopping ex' = ex_stopping ex" using cancel(2) by (auto simp: Cancel_def Let_def split: if_splits)
  then show ?thesis
    using Cancel_queue [OF cancel(2)] length_erase_task [of q "ex_queue ex"] assms(3) by (auto simp: no_lost_wakeup_def)
next
  case stop
  then show ?thesis by (simp add: Executor_stop_def no_lost_wakeup_def notify_all_awake)
next
  case (spurious i)
  note s = spurious_wakeup_cases [OF spurious(2)]
  have "Sleeping \<in> set (ex_workers ex)" using nth_mem [OF s(3)] s(4) by simp
  then show ?thesis
    using s(2-4) assms(3) count_list_update [OF s(3), of Waiting Waiting] by (simp add: no_lost_wakeup_def)
next
  case (work i failing measured)
  then show ?thesis using WorkerLoop_no_lost_wakeup [OF assms(3)] by blast
next
  case (complete i failing measured q result)
  then show ?thesis using WorkerLoop_no_lost_wakeup [OF assms(3)] by blast
qed

lemma exec_trace_no_lost_wakeup:
  assumes "exec_trace cu ex evs ex'" "executor_inv cu ex" "runtime_ok (cu_queries cu)" "no_lost_wakeup ex"
  shows "no_lost_wakeup ex'"
  using assms
proof (induction rule: exec_trace.induct)
  case (next_event ex evs ex' ev ex'')
  then have "executor_inv cu ex'" using exec_trace_inv by blast
  then show ?case using exec_step_no_lost_wakeup [OF next_event.hyps(2)] next_event by blast
qed simp

lemma fresh_no_lost_wakeup: "CudaRecoveryExecutor_new c d s = Inr ex \<Longrightarrow> no_lost_wakeup ex"
  by (auto simp: CudaRecoveryExecutor_new_def Let_def no_lost_wakeup_def split: if_splits)

text \<open>A worker that is neither asleep nor gone can always move, so when none can, nothing is left.\<close>

lemma WorkerLoop_moves:
  assumes inv: "executor_inv cu ex" and rt: "runtime_ok (cu_queries cu)" and i: "i < length (ex_workers ex)"
    and "WorkerLoop cu failing measured i ex = None"
  shows "ex_workers ex ! i = Sleeping \<or> ex_workers ex ! i = Exited"
proof (cases "ex_workers ex ! i")
  case (Executing t)
  have "task_ok t" using inv i Executing unfolding executor_inv_def tasks_ok_def by (metis nth_mem)
  moreover have "cache_ok (cu_queries cu) (ex_cache ex)" using inv by (simp add: executor_inv_def)
  ultimately obtain result c where "run_task cu failing measured t (ex_cache ex) = Some (result, c)"
    using run_task_total [OF rt] by blast
  then show ?thesis using assms(4) Executing by (simp add: WorkerLoop_def Let_def)
qed (use assms(4) in \<open>auto simp: WorkerLoop_def Let_def split: list.splits\<close>)

lemma workers_idle:
  assumes inv: "executor_inv cu ex" and "no_lost_wakeup ex"
    and idle: "\<And>i. i < length (ex_workers ex) \<Longrightarrow> ex_workers ex ! i = Sleeping \<or> ex_workers ex ! i = Exited"
  shows "outstanding ex = 0" "\<not> owed r ex" "ex_stopping ex \<Longrightarrow> set (ex_workers ex) \<subseteq> {Exited}"
proof -
  have ws: "set (ex_workers ex) \<subseteq> {Sleeping, Exited}" using idle by (auto simp: set_conv_nth)
  then have none: "count_list (ex_workers ex) Waiting = 0" by (auto simp: count_list_0_iff)
  have "ex_workers ex ! 0 \<in> set (ex_workers ex)" using inv by (intro nth_mem) (simp add: executor_inv_def)
  then have "Sleeping \<in> set (ex_workers ex) \<or> Exited \<in> set (ex_workers ex)" using ws by fastforce
  then have queue: "ex_queue ex = []"
    using none assms(2) inv unfolding no_lost_wakeup_def executor_inv_def by auto
  moreover have "worker_request (ex_workers ex ! i) = None" if "i < length (ex_workers ex)" for i
    using idle [OF that] by auto
  then have "ex_running ex = {}" using inv by (auto simp: executor_inv_def workers_ok_def)
  ultimately show "outstanding ex = 0" by (simp add: outstanding_def)
  have "\<not> worker_owes r (ex_workers ex ! i)" if "i < length (ex_workers ex)" for i
    using idle [OF that] by auto
  then show "\<not> owed r ex" using queue by (simp add: owed_def HasQueuedRequest_def)
  show "ex_stopping ex \<Longrightarrow> set (ex_workers ex) \<subseteq> {Exited}"
    using ws assms(2) by (auto simp: no_lost_wakeup_def)
qed

lemma exec_step_worker:
  assumes "i < length (ex_workers ex)" "WorkerLoop cu failing measured i ex = Some (ex', d)"
  shows "\<exists>ev. exec_step cu ex ev ex' \<and> worker_event ev"
proof (cases d)
  case None
  then have "exec_step cu ex (Worked i) ex'" using exec_step.work [OF assms(1)] assms(2) by simp
  then show ?thesis by (intro exI [of _ "Worked i"]) simp
next
  case (Some c)
  then have "exec_step cu ex (Completed (fst c) (snd c)) ex'"
    using exec_step.complete [OF assms(1), of cu failing measured ex' "fst c" "snd c"] assms(2) by simp
  then show ?thesis by (intro exI [of _ "Completed (fst c) (snd c)"]) simp
qed

definition workers_stuck :: "CudaRuntime \<Rightarrow> Executor \<Rightarrow> bool" where
  "workers_stuck cu ex \<longleftrightarrow> (\<forall>ev ex'. exec_step cu ex ev ex' \<longrightarrow> \<not> worker_event ev)"

lemma workers_stuck_idle:
  assumes "executor_inv cu ex" "runtime_ok (cu_queries cu)" "workers_stuck cu ex" "i < length (ex_workers ex)"
  shows "ex_workers ex ! i = Sleeping \<or> ex_workers ex ! i = Exited"
proof (rule WorkerLoop_moves [OF assms(1,2,4)])
  show "WorkerLoop cu False zero_metrics i ex = None"
  proof (rule ccontr)
    assume "WorkerLoop cu False zero_metrics i ex \<noteq> None"
    then obtain ex' d where "WorkerLoop cu False zero_metrics i ex = Some (ex', d)" by auto
    then show False using exec_step_worker [OF assms(4)] assms(3) unfolding workers_stuck_def by blast
  qed
qed

lemma exec_trace_cons: "exec_trace cu ex' evs ex'' \<Longrightarrow> exec_step cu ex ev ex' \<Longrightarrow> exec_trace cu ex (ev # evs) ex''"
proof (induction rule: exec_trace.induct)
  case (start ex')
  then show ?case using exec_trace.next_event [OF exec_trace.start, of cu ex ev ex'] by simp
next
  case (next_event ex' evs ex2 ev2 ex3)
  then show ?case using exec_trace.next_event [of cu ex "ev # evs" ex2 ev2 ex3] by simp
qed

text \<open>A schedule of the workers can always be completed to one after which none can move.\<close>

lemma drain: "\<exists>evs ex'. exec_trace cu ex evs ex' \<and> (\<forall>ev\<in>set evs. worker_event ev) \<and> workers_stuck cu ex'"
proof (induction "work_left ex" arbitrary: ex rule: less_induct)
  case less
  show ?case
  proof (cases "workers_stuck cu ex")
    case True
    then show ?thesis using exec_trace.start by (intro exI [of _ "[]"]) auto
  next
    case False
    then obtain ev ex1 where ev: "exec_step cu ex ev ex1" "worker_event ev" by (auto simp: workers_stuck_def)
    from less.hyps [OF worker_step_decreases [OF ev]]
    obtain evs ex' where "exec_trace cu ex1 evs ex'" "\<forall>ev\<in>set evs. worker_event ev" "workers_stuck cu ex'" by blast
    then show ?thesis using exec_trace_cons [OF _ ev(1)] ev(2) by (intro exI [of _ "ev # evs"] exI [of _ ex']) auto
  qed
qed

text \<open>No owed request that is not cancelled is lost by the workers.\<close>

lemma WorkerLoop_keeps:
  assumes o: "owed r ex" "r \<notin> ex_cancelled ex"
    and i: "i < length (ex_workers ex)" and step: "WorkerLoop cu failing measured i ex = Some (ex', d)"
  shows "owed r ex' \<and> r \<notin> ex_cancelled ex' \<or> (\<exists>result. d = Some (r, result))"
proof -
  have owed': "owed r ex'"
    if "\<forall>t\<in>set (ex_queue ex). t \<in> set (ex_queue ex') \<or> worker_owes (task_request t) w"
      "ex_workers ex' = (ex_workers ex)[i := w]" "worker_owes r (ex_workers ex ! i) \<Longrightarrow> worker_owes r w" for w ex'
  proof -
    consider "r \<in> task_request ` set (ex_queue ex)" | j where "j < length (ex_workers ex)" "worker_owes r (ex_workers ex ! j)"
      using o(1) by (auto simp: owed_def HasQueuedRequest_iff)
    then show ?thesis
    proof cases
      case 1
      then show ?thesis using that(1,2) i by (auto simp: owed_def HasQueuedRequest_iff intro!: exI [of _ i])
    next
      case 2
      then show ?thesis using that(2,3) i by (cases "j = i") (auto simp: owed_def intro!: exI [of _ j])
    qed
  qed
  show ?thesis
  proof (cases "ex_workers ex ! i")
    case Waiting
    show ?thesis
    proof (cases "ex_queue ex")
      case Nil
      then show ?thesis using step Waiting o(2) owed' [of ex' "if ex_stopping ex then Exited else Sleeping"]
        by (auto simp: WorkerLoop_def Let_def)
    next
      case (Cons t ts)
      then show ?thesis using step Waiting o(2) owed' [of ex' "Executing t"] by (auto simp: WorkerLoop_def Let_def)
    qed
  next
    case (Executing t)
    then obtain result c where "run_task cu failing measured t (ex_cache ex) = Some (result, c)"
      using step by (auto simp: WorkerLoop_def Let_def)
    then show ?thesis using step Executing o(2) owed' [of ex' "Executed (task_request t) result"]
      by (auto simp: WorkerLoop_def Let_def)
  next
    case (Executed q result)
    then show ?thesis using step o(2) owed' [of ex' "if q \<in> ex_cancelled ex then Retiring q else Completing q result"]
      by (auto simp: WorkerLoop_def Let_def split: if_splits)
  next
    case (Completing q result)
    then show ?thesis using step o(2) owed' [of ex' "Retiring q"] by (auto simp: WorkerLoop_def Let_def)
  next
    case (Retiring q)
    then show ?thesis using step o(2) owed' [of ex' Notifying] by (auto simp: WorkerLoop_def Let_def)
  next
    case Notifying
    let ?ex = "ex\<lparr>ex_workers := (ex_workers ex)[i := Waiting]\<rparr>"
    have "owed r ?ex" using owed' [of ?ex Waiting] Notifying by simp
    moreover have "ex' = ex\<lparr>ex_workers := notify_all (ex_workers ?ex)\<rparr>"
      using step Notifying by (simp add: WorkerLoop_def Let_def)
    ultimately show ?thesis using o(2) owed_wakes [of ex' ?ex r] wakes_notify_all by simp
  qed (use step in \<open>simp_all add: WorkerLoop_def Let_def\<close>)
qed

lemma worker_step_keeps:
  assumes "exec_step cu ex ev ex'" "worker_event ev \<or> wakeup_event ev" "owed r ex" "r \<notin> ex_cancelled ex"
  shows "owed r ex' \<and> r \<notin> ex_cancelled ex' \<or> (\<exists>result. ev = Completed r result)"
  using assms(1)
proof cases
  case (spurious i)
  note s = spurious_wakeup_cases [OF spurious(2)]
  have "owed r ex' = owed r ex" by (rule owed_wakes) (use s(1,2) in simp_all)
  then show ?thesis using s(2) assms(3,4) by simp
qed (use assms(2) in \<open>auto dest: WorkerLoop_keeps [OF assms(3,4)]\<close>)

lemma worker_trace_keeps:
  assumes "exec_trace cu ex evs ex'" "internal evs" "owed r ex" "r \<notin> ex_cancelled ex"
  shows "owed r ex' \<and> r \<notin> ex_cancelled ex' \<or> (\<exists>result. Completed r result \<in> set evs)"
  using assms
proof (induction rule: exec_trace.induct)
  case (next_event ex evs ex' ev ex'')
  then show ?case using worker_step_keeps [of cu ex' ev ex'' r] by auto
qed simp

section \<open>The contract of an executor\<close>

text \<open>Submissions one after the other, with nothing in between; the second component counts the accepted ones.\<close>

fun burst ::
  "(RequestId \<Rightarrow> DecodePlan \<Rightarrow> ShardSlots \<Rightarrow> 'e \<Rightarrow> 'e \<times> bool result) \<Rightarrow>
   (RequestId \<times> DecodePlan \<times> ShardSlots) list \<Rightarrow> 'e \<Rightarrow> 'e \<times> nat" where
  "burst submit [] ex = (ex, 0)"
| "burst submit ((r, plan, shards) # jobs) ex =
     (case submit r plan shards ex of (ex', v) \<Rightarrow>
        (case burst submit jobs ex' of (ex'', n) \<Rightarrow> (ex'', of_bool (v = Inr True) + n)))"

text \<open>
  What a coordinator relies on: the price is quoted only while there is room, a submission adds to the
  load exactly when it is accepted, and prices rise with the load.
\<close>

locale recovery_executor =
  fixes inv :: "'e \<Rightarrow> bool"
    and load :: "'e \<Rightarrow> nat"
    and limit :: "'e \<Rightarrow> nat"
    and price :: "'e \<Rightarrow> microseconds option"
    and submit :: "RequestId \<Rightarrow> DecodePlan \<Rightarrow> ShardSlots \<Rightarrow> 'e \<Rightarrow> 'e \<times> bool result"
  assumes submit_load: "inv ex \<Longrightarrow> submit r plan shards ex = (ex', v) \<Longrightarrow>
      inv ex' \<and> limit ex' = limit ex \<and> load ex' = load ex + of_bool (v = Inr True)"
    and load_limit: "inv ex \<Longrightarrow> load ex \<le> limit ex"
    and no_price: "inv ex \<Longrightarrow> price ex = None \<Longrightarrow> submit r plan shards ex = (ex', v) \<Longrightarrow> v = Inr False \<and> price ex' = None"
    and price_rises: "inv ex \<Longrightarrow> submit r plan shards ex = (ex', v) \<Longrightarrow> price ex = Some c \<Longrightarrow> price ex' = Some c' \<Longrightarrow> c \<le> c'"
begin

lemma burst_load:
  assumes "inv ex" "burst submit jobs ex = (ex', n)"
  shows "inv ex' \<and> limit ex' = limit ex \<and> load ex' = load ex + n"
  using assms
proof (induction jobs arbitrary: ex n)
  case Nil
  then show ?case by simp
next
  case (Cons job jobs)
  obtain r plan shards where job: "job = (r, plan, shards)" by (cases job) auto
  obtain ex1 v where s: "submit r plan shards ex = (ex1, v)" by fastforce
  obtain m where b: "burst submit jobs ex1 = (ex', m)" "n = of_bool (v = Inr True) + m"
    using Cons.prems(2) job s by (auto split: prod.splits)
  show ?case using submit_load [OF Cons.prems(1) s] Cons.IH [OF _ b(1)] b(2) by simp
qed

lemma burst_bound: "inv ex \<Longrightarrow> burst submit jobs ex = (ex', n) \<Longrightarrow> load ex + n \<le> limit ex"
  using burst_load load_limit by metis

lemma burst_price:
  assumes "inv ex" "burst submit jobs ex = (ex', n)" "price ex' = Some c'"
  shows "\<exists>c. price ex = Some c \<and> c \<le> c'"
  using assms(1,2)
proof (induction jobs arbitrary: ex n)
  case Nil
  then show ?case using assms(3) by simp
next
  case (Cons job jobs)
  obtain r plan shards where job: "job = (r, plan, shards)" by (cases job) auto
  obtain ex1 v where s: "submit r plan shards ex = (ex1, v)" by fastforce
  obtain m where b: "burst submit jobs ex1 = (ex', m)"
    using Cons.prems(2) job s by (auto split: prod.splits)
  from Cons.IH [OF _ b] submit_load [OF Cons.prems(1) s]
  obtain c1 where c1: "price ex1 = Some c1" "c1 \<le> c'" by blast
  then obtain c where c: "price ex = Some c" using no_price [OF Cons.prems(1) _ s] by (cases "price ex") auto
  then show ?case using price_rises [OF Cons.prems(1) s c c1(1)] c1(2) by auto
qed

lemma burst_closed: "inv ex \<Longrightarrow> price ex = None \<Longrightarrow> burst submit jobs ex = (ex', n) \<Longrightarrow> n = 0"
proof (induction jobs arbitrary: ex n)
  case (Cons job jobs)
  obtain r plan shards where job: "job = (r, plan, shards)" by (cases job) auto
  obtain ex1 v where s: "submit r plan shards ex = (ex1, v)" by fastforce
  obtain m where b: "burst submit jobs ex1 = (ex', m)" "n = of_bool (v = Inr True) + m"
    using Cons.prems(3) job s by (auto split: prod.splits)
  show ?case
    using no_price [OF Cons.prems(1,2) s] submit_load [OF Cons.prems(1) s] Cons.IH [OF _ _ b(1)] b(2) by auto
qed simp

end

lemma Submit_outstanding:
  assumes "executor_inv cu ex" "Submit cu pick failing r plan shards ex = (ex', v)"
  shows "outstanding ex' = outstanding ex + of_bool (v = Inr True)" "ex_capacity ex' = ex_capacity ex"
    "ex_stopping ex' = ex_stopping ex" "ex_service_cost ex' = ex_service_cost ex" "ex_concurrency ex' = ex_concurrency ex"
  using Submit_cases [OF assms(2)] by (auto simp: outstanding_def)

text \<open>\<open>pick\<close> says which worker a submission wakes, \<open>failing\<close> of which submissions a CUDA call fails.\<close>

interpretation cuda: recovery_executor "executor_inv cu" outstanding ex_capacity EstimateRecoveryCost
  "\<lambda>r plan shards. Submit cu (pick r) (failing r) r plan shards"
proof (unfold_locales, goal_cases)
  case (1 ex r plan shards ex' v)
  then show ?case using Submit_inv [OF 1] Submit_outstanding(1,2) [OF 1] by simp
next
  case (2 ex)
  then show ?case by (simp add: executor_inv_def)
next
  case (3 ex r plan shards ex' v)
  then have "v = Inr False"
    by (auto simp: EstimateRecoveryCost_def Submit_def Let_def split: if_splits)
  then show ?case using 3 Submit_outstanding [OF 3(1,3)] by (auto simp: EstimateRecoveryCost_def Let_def split: if_splits)
next
  case (4 ex r plan shards ex' v c c')
  note o = Submit_outstanding [OF 4(1,2)]
  have "outstanding ex div ex_concurrency ex \<le> outstanding ex' div ex_concurrency ex"
    using o(1) by (intro div_le_mono) simp
  moreover have "0 < ex_service_cost ex" using 4(1) by (simp add: executor_inv_def)
  ultimately show ?case
    using 4(3,4) o by (auto simp: EstimateRecoveryCost_def Let_def split: if_splits)
qed

section \<open>Properties\<close>

lemma exec_step_config:
  "exec_step cu ex ev ex' \<Longrightarrow> executor_inv cu ex \<Longrightarrow> ex_capacity ex' = ex_capacity ex \<and> ex_concurrency ex' = ex_concurrency ex"
proof (induction rule: exec_step.induct)
  case (stage failure r n i w ex ex' threw)
  then show ?case using StageShard_cases [OF _ stage(1)] by (auto simp: executor_inv_def)
qed (auto simp: Submit_outstanding Executor_stop_def Cancel_def WorkerLoop_def spurious_wakeup_def Let_def
    split: if_splits Worker.splits list.splits)

lemma exec_trace_config:
  assumes "exec_trace cu ex evs ex'" "executor_inv cu ex" "runtime_ok (cu_queries cu)"
  shows "ex_capacity ex' = ex_capacity ex \<and> ex_concurrency ex' = ex_concurrency ex"
  using assms
proof (induction rule: exec_trace.induct)
  case (next_event ex evs ex' ev ex'')
  then show ?case using exec_step_config [OF next_event(2)] exec_trace_inv by metis
qed simp

lemma exec_trace_append: "exec_trace cu ex1 evs' ex2 \<Longrightarrow> exec_trace cu ex evs ex1 \<Longrightarrow> exec_trace cu ex (evs @ evs') ex2"
proof (induction rule: exec_trace.induct)
  case (next_event ex1 evs' ex2 ev ex3)
  from exec_trace.next_event [OF next_event.IH [OF next_event.prems] next_event.hyps(2)] show ?case by simp
qed simp

lemma fresh_history:
  assumes "CudaRecoveryExecutor_new c d s = Inr ex"
  shows "history_ok [] ex" "uploads_ok [] ex"
  using assms by (auto simp: CudaRecoveryExecutor_new_def Let_def history_ok_def uploads_ok_def split: if_splits)

lemma reachable_inv:
  assumes "CudaRecoveryExecutor_new c d s = Inr ex0" "exec_trace cu ex0 evs ex" "runtime_ok (cu_queries cu)"
  shows "executor_inv cu ex"
  using exec_trace_inv [OF assms(2) executor_inv_new [OF assms(1)] assms(3)] .

text \<open>When no worker of a reachable state can move, nothing is outstanding, and a stopped executor can be joined.\<close>

lemma stuck_drained:
  assumes "CudaRecoveryExecutor_new c d s = Inr ex0" "runtime_ok (cu_queries cu)" "exec_trace cu ex0 evs ex" "workers_stuck cu ex"
  shows "outstanding ex = 0" "\<not> owed r ex" "ex_stopping ex \<Longrightarrow> set (ex_workers ex) \<subseteq> {Exited}"
proof -
  have inv: "executor_inv cu ex" by (rule reachable_inv [OF assms(1,3,2)])
  have wake: "no_lost_wakeup ex"
    by (rule exec_trace_no_lost_wakeup [OF assms(3) executor_inv_new [OF assms(1)] assms(2) fresh_no_lost_wakeup [OF assms(1)]])
  note idle = workers_idle [OF inv wake workers_stuck_idle [OF inv assms(2,4)]]
  show "outstanding ex = 0" "\<not> owed r ex" "ex_stopping ex \<Longrightarrow> set (ex_workers ex) \<subseteq> {Exited}" using idle by blast+
qed

text \<open>
  C21. Whatever the clients call and however the workers are scheduled, the executor never holds more
  than \<open>concurrency_limit + max_queue_depth\<close> tasks nor runs more than \<open>concurrency_limit\<close>; a request is
  queued at most once, and never both queued and running, nor staged while it is either; only running
  requests are marked as cancelled.
\<close>

theorem executor_bounded:
  assumes "CudaRecoveryExecutor_new c d s = Inr ex0" "c < 2 ^ 64" "d < 2 ^ 64"
    and "runtime_ok (cu_queries cu)" "exec_trace cu ex0 evs ex"
  shows "outstanding ex \<le> c + d \<and> card (ex_running ex) \<le> c \<and> distinct (map task_request (ex_queue ex)) \<and>
    ex_running ex \<inter> task_request ` set (ex_queue ex) = {} \<and>
    dom (ex_staged ex) \<inter> (ex_running ex \<union> task_request ` set (ex_queue ex)) = {} \<and>
    ex_cancelled ex \<subseteq> ex_running ex"
proof -
  have inv: "executor_inv cu ex" by (rule reachable_inv [OF assms(1,5,4)])
  have new: "ex_capacity ex0 = (c + d) mod 2 ^ 64" "c \<le> (c + d) mod 2 ^ 64" "ex_concurrency ex0 = c"
    using assms(1) by (auto simp: CudaRecoveryExecutor_new_def Let_def split: if_splits)
  have "(c + d) mod 2 ^ 64 \<le> c + d" by simp
  then have cap: "ex_capacity ex \<le> c + d" "ex_concurrency ex = c"
    using new exec_trace_config [OF assms(5) executor_inv_new [OF assms(1)] assms(4)] by auto
  have "card (ex_running ex) \<le> length (ex_workers ex)"
    using workers_ok_card(2) [of "ex_workers ex" "ex_running ex"] inv by (simp add: executor_inv_def)
  then show ?thesis
    using inv cap by (auto simp: executor_inv_def ids_ok_def)
qed

text \<open>An executor with one accepted task, for the witnesses.\<close>

definition example_cuda :: CudaRuntime where
  "example_cuda = \<lparr>cu_queries = example_queries, cu_device = 0, cu_fresh = \<lambda>_ _. 77\<rparr>"

definition example_slots :: ShardSlots where
  "example_slots = [None, None, Some [4, 4], Some [6, 0], Some [7, 5]]"

lemma example_cuda_runtime: "runtime_ok (cu_queries example_cuda)"
  by (simp add: example_cuda_def example_runtime)

lemma example_accepts:
  "\<exists>ex0 ex. CudaRecoveryExecutor_new 1 1 50 = Inr ex0 \<and>
     Submit example_cuda 0 False 7 example_plan example_slots ex0 = (ex, Inr True)"
  by (simp add: CudaRecoveryExecutor_new_def Submit_def outstanding_def HasQueuedRequest_def stage_submitted_def
      create_device_shard_staging_context_cuda_def example_slots_def upt_rec stage_decode_shard_cuda_def
      replicate_numeral Let_def)

lemma example_trace:
  "\<exists>ex0 ex. CudaRecoveryExecutor_new 1 1 50 = Inr ex0 \<and>
     exec_trace example_cuda ex0 [Accepted 7 example_plan example_slots] ex \<and> owed 7 ex \<and> ex_cancelled ex = {} \<and>
     HasQueuedRequest 7 ex"
proof -
  obtain ex0 ex where e: "CudaRecoveryExecutor_new 1 1 50 = Inr ex0"
      "Submit example_cuda 0 False 7 example_plan example_slots ex0 = (ex, Inr True)"
    using example_accepts by blast
  have "exec_trace example_cuda ex0 ([] @ [Accepted 7 example_plan example_slots]) ex"
    by (rule exec_trace.next_event [OF exec_trace.start exec_step.submit [OF e(2)]])
  moreover have "HasQueuedRequest 7 ex \<and> ex_cancelled ex = {}"
    using Submit_cases [OF e(2)] e(1)
    by (auto simp: HasQueuedRequest_def CudaRecoveryExecutor_new_def Let_def split: if_splits)
  ultimately show ?thesis using e(1) by (auto simp: owed_def)
qed

theorem executor_bounded_witness:
  "\<exists>ex0 ex. exec_trace example_cuda ex0 [Accepted 7 example_plan example_slots] ex \<and> outstanding ex \<le> 1 + 1 \<and>
     HasQueuedRequest 7 ex \<and> 7 \<notin> ex_running ex"
proof -
  obtain ex0 ex where e: "CudaRecoveryExecutor_new 1 1 50 = Inr ex0"
      "exec_trace example_cuda ex0 [Accepted 7 example_plan example_slots] ex" "HasQueuedRequest 7 ex"
    using example_trace by blast
  from executor_bounded [OF e(1) _ _ example_cuda_runtime e(2)] e(2,3) show ?thesis
    by (auto simp: HasQueuedRequest_iff)
qed

text \<open>
  C19. Under any scheduling and whichever CUDA calls fail, a request is completed at most once for each accepted
  submission. Unless a client submits a shard whose upload \<open>StageShard\<close> has reported as failed, every completion is
  truthful: it belongs to an accepted submission, a success carries exactly the slots that the CPU executor computes for
  that submission, and a failure carries an error.
\<close>

theorem executor_completes_once:
  assumes "CudaRecoveryExecutor_new c d s = Inr ex0" "runtime_ok (cu_queries cu)" "exec_trace cu ex0 evs ex"
  shows "completions r evs \<le> accepts r evs \<and>
    (honest evs \<longrightarrow> (\<forall>result. Completed r result \<in> set evs \<longrightarrow>
       (\<exists>plan shards. Accepted r plan shards \<in> set evs \<and> outcome plan shards result)))"
proof -
  note inv = executor_inv_new [OF assms(1), of cu] and fresh = fresh_history [OF assms(1)]
  have "\<not> owed r ex0"
    using assms(1) by (auto simp: owed_def HasQueuedRequest_def CudaRecoveryExecutor_new_def Let_def split: if_splits)
  then show ?thesis
    using exec_trace_counts [OF assms(3) inv assms(2), of r] exec_trace_history [OF assms(3) _ inv assms(2) fresh]
    by (auto simp: history_ok_def accepted_result_def)
qed

lemma example_completes:
  "\<exists>ex0 evs ex result. CudaRecoveryExecutor_new 1 1 50 = Inr ex0 \<and> exec_trace example_cuda ex0 evs ex \<and>
     Completed 7 result \<in> set evs \<and> honest evs"
proof -
  obtain ex0 ex where e: "CudaRecoveryExecutor_new 1 1 50 = Inr ex0"
      "exec_trace example_cuda ex0 [Accepted 7 example_plan example_slots] ex" "owed 7 ex" "ex_cancelled ex = {}"
    using example_trace by blast
  have inv: "executor_inv example_cuda ex" by (rule reachable_inv [OF e(1,2) example_cuda_runtime])
  obtain evs ex' where d: "exec_trace example_cuda ex evs ex'" "\<forall>ev\<in>set evs. worker_event ev" "workers_stuck example_cuda ex'"
    using drain by blast
  then have "\<not> owed 7 ex'"
    using stuck_drained(2) [OF e(1) example_cuda_runtime exec_trace_append [OF d(1) e(2)]] by blast
  then obtain result where c: "Completed 7 result \<in> set evs"
    using worker_trace_keeps [OF d(1) _ e(3)] d(2) e(4) by (auto simp: internal_def)
  have "exec_trace example_cuda ex0 (Accepted 7 example_plan example_slots # evs) ex'"
    using exec_trace_append [OF d(1) e(2)] by simp
  moreover have "Completed 7 result \<in> set (Accepted 7 example_plan example_slots # evs)" using c by simp
  moreover have "honest (Accepted 7 example_plan example_slots # evs)"
    by (rule honest_no_failure [THEN conjunct1]) (use d(2) in fastforce)
  ultimately show ?thesis using e(1) by blast
qed

theorem executor_completes_once_witness:
  "\<exists>evs result plan shards. Completed 7 result \<in> set evs \<and> Accepted 7 plan shards \<in> set evs \<and> outcome plan shards result"
proof -
  obtain ex0 evs ex result where e: "CudaRecoveryExecutor_new 1 1 50 = Inr ex0" "exec_trace example_cuda ex0 evs ex"
      "Completed 7 result \<in> set evs" "honest evs"
    using example_completes by blast
  from executor_completes_once [OF e(1) example_cuda_runtime e(2), of 7] e(3,4) show ?thesis by blast
qed

text \<open>
  C20. No wakeup is lost and every schedule drains the executor. In every reachable state, while a worker sleeps on the condition
  variable, the stop flag is not set and there are at most as many queued tasks as workers that are awake and about to look at the
  queue. From there, however the workers are scheduled while nobody calls in, they go through a bounded number of phases, plus one
  for every spurious wakeup; and wherever a schedule ends because no worker can move, nothing is outstanding, every owed request
  that was not cancelled has been completed, and if the destructor has stopped the executor all workers have exited.
\<close>

theorem executor_drains:
  assumes "CudaRecoveryExecutor_new c d s = Inr ex0" "runtime_ok (cu_queries cu)" "exec_trace cu ex0 evs ex"
  shows "(Sleeping \<in> set (ex_workers ex) \<longrightarrow>
       \<not> ex_stopping ex \<and> length (ex_queue ex) \<le> count_list (ex_workers ex) Waiting) \<and>
    (\<forall>evs' ex'. exec_trace cu ex evs' ex' \<and> internal evs' \<longrightarrow>
       length (filter worker_event evs') \<le> work_left ex + length (filter wakeup_event evs') \<and>
       ((\<forall>ev ex''. exec_step cu ex' ev ex'' \<longrightarrow> \<not> worker_event ev) \<longrightarrow>
          outstanding ex' = 0 \<and>
          (\<forall>r. owed r ex \<and> r \<notin> ex_cancelled ex \<longrightarrow> (\<exists>result. Completed r result \<in> set evs')) \<and>
          (ex_stopping ex' \<longrightarrow> set (ex_workers ex') \<subseteq> {Exited})))"
proof -
  have "no_lost_wakeup ex"
    by (rule exec_trace_no_lost_wakeup [OF assms(3) executor_inv_new [OF assms(1)] assms(2) fresh_no_lost_wakeup [OF assms(1)]])
  moreover have "length (filter worker_event evs') \<le> work_left ex + length (filter wakeup_event evs')"
    if "exec_trace cu ex evs' ex'" "internal evs'" for evs' ex'
    using worker_trace_bounded [OF that] by simp
  moreover have "outstanding ex' = 0 \<and>
      (\<forall>r. owed r ex \<and> r \<notin> ex_cancelled ex \<longrightarrow> (\<exists>result. Completed r result \<in> set evs')) \<and>
      (ex_stopping ex' \<longrightarrow> set (ex_workers ex') \<subseteq> {Exited})"
    if t: "exec_trace cu ex evs' ex'" "internal evs'" and s: "\<forall>ev ex''. exec_step cu ex' ev ex'' \<longrightarrow> \<not> worker_event ev" for evs' ex'
  proof -
    have "workers_stuck cu ex'" using s by (simp add: workers_stuck_def)
    note drained = stuck_drained [OF assms(1,2) exec_trace_append [OF t(1) assms(3)] this]
    then show ?thesis using worker_trace_keeps [OF t] by blast
  qed
  ultimately show ?thesis unfolding no_lost_wakeup_def by blast
qed

text \<open>The only worker sleeps when the task arrives.\<close>

lemma example_asleep:
  "\<exists>ex0 ex. CudaRecoveryExecutor_new 1 1 50 = Inr ex0 \<and>
     exec_trace example_cuda ex0 [Worked 0, Accepted 7 example_plan example_slots] ex \<and> owed 7 ex \<and> ex_cancelled ex = {}"
proof -
  obtain ex0 where ex0: "CudaRecoveryExecutor_new 1 1 50 = Inr ex0" by (simp add: CudaRecoveryExecutor_new_def)
  then have fresh: "ex_workers ex0 = [Waiting]" "ex_queue ex0 = []" "ex_running ex0 = {}" "ex_cancelled ex0 = {}"
      "ex_staged ex0 = Map.empty" "\<not> ex_stopping ex0" "ex_capacity ex0 = 2"
    by (auto simp: CudaRecoveryExecutor_new_def)
  let ?asleep = "ex0\<lparr>ex_workers := [Sleeping]\<rparr>"
  have "WorkerLoop example_cuda False zero_metrics 0 ex0 = Some (?asleep, None)"
    by (simp add: WorkerLoop_def fresh)
  then have w: "exec_step example_cuda ex0 (Worked 0) ?asleep"
    using exec_step.work [of 0 ex0] fresh(1) by simp
  obtain ex where ex: "Submit example_cuda 0 False 7 example_plan example_slots ?asleep = (ex, Inr True)"
    by (simp add: Submit_def fresh outstanding_def HasQueuedRequest_def stage_submitted_def
        create_device_shard_staging_context_cuda_def example_slots_def upt_rec stage_decode_shard_cuda_def
        replicate_numeral Let_def)
  have "exec_trace example_cuda ex0 [Worked 0, Accepted 7 example_plan example_slots] ex"
    by (rule exec_trace_cons [OF exec_trace_cons [OF exec_trace.start exec_step.submit [OF ex]] w])
  moreover have "owed 7 ex \<and> ex_cancelled ex = {}"
    using Submit_cases [OF ex] fresh(4) by (auto simp: owed_def HasQueuedRequest_def)
  ultimately show ?thesis using ex0 by blast
qed

theorem executor_drains_witness:
  "\<exists>ex0 ex evs' ex' result. exec_trace example_cuda ex0 [Worked 0, Accepted 7 example_plan example_slots] ex \<and>
     exec_trace example_cuda ex evs' ex' \<and> internal evs' \<and> outstanding ex' = 0 \<and> Completed 7 result \<in> set evs'"
proof -
  obtain ex0 ex where e: "CudaRecoveryExecutor_new 1 1 50 = Inr ex0"
      "exec_trace example_cuda ex0 [Worked 0, Accepted 7 example_plan example_slots] ex" "owed 7 ex" "ex_cancelled ex = {}"
    using example_asleep by blast
  obtain evs' ex' where d: "exec_trace example_cuda ex evs' ex'" "internal evs'" "workers_stuck example_cuda ex'"
    using drain [of example_cuda ex] by (auto simp: internal_def)
  from executor_drains [OF e(1) example_cuda_runtime e(2)] d e(2-4) show ?thesis
    unfolding workers_stuck_def by blast
qed

text \<open>
  Cancelling a queued request is final: unless it is submitted and accepted again, no completion for
  it is ever delivered.
\<close>

theorem executor_cancel_final:
  assumes "CudaRecoveryExecutor_new c d s = Inr ex0" "runtime_ok (cu_queries cu)" "exec_trace cu ex0 evs ex"
    and "HasQueuedRequest r ex" "Cancel r ex = (ex', b)" "exec_trace cu ex' evs' ex''" "accepts r evs' = 0"
  shows "b \<and> completions r evs' = 0"
proof -
  have inv: "executor_inv cu ex" by (rule reachable_inv [OF assms(1,3,2)])
  then have d: "distinct (map task_request (ex_queue ex))" and free: "r \<notin> ex_running ex"
    using assms(4) by (auto simp: executor_inv_def ids_ok_def HasQueuedRequest_iff)
  have c: "b" "ex_queue ex' = erase_task r (ex_queue ex)" "ex_workers ex' = ex_workers ex"
    using assms(4,5) by (auto simp: Cancel_def Let_def)
  have "\<not> owed r ex'"
    using erase_task_set [OF d, of r] c owed_running [OF inv] free by (auto simp: owed_def HasQueuedRequest_iff)
  then show ?thesis
    using exec_trace_counts [OF assms(6) Cancel_inv [OF inv assms(5)] assms(2), of r] assms(7) c(1) by simp
qed

theorem executor_cancel_final_witness:
  "\<exists>ex ex' b. HasQueuedRequest 7 ex \<and> Cancel 7 ex = (ex', b) \<and> exec_trace example_cuda ex' [Stopped] (Executor_stop ex') \<and>
     b \<and> completions 7 [Stopped] = 0"
proof -
  obtain ex0 ex where e: "CudaRecoveryExecutor_new 1 1 50 = Inr ex0"
      "exec_trace example_cuda ex0 [Accepted 7 example_plan example_slots] ex" "HasQueuedRequest 7 ex"
    using example_trace by blast
  obtain ex' b where c: "Cancel 7 ex = (ex', b)" by fastforce
  have t: "exec_trace example_cuda ex' [Stopped] (Executor_stop ex')"
    using exec_trace_cons [OF exec_trace.start exec_step.stop] .
  have "accepts 7 [Stopped] = 0" by (simp add: accepts_def)
  from executor_cancel_final [OF e(1) example_cuda_runtime e(2,3) c t this] c e(3) t show ?thesis by blast
qed

text \<open>
  Admission control: of any burst of submissions at most the free capacity is accepted, each accepted
  one is counted, the price never falls during the burst, and while no price is quoted nothing is accepted.
\<close>

theorem executor_admission:
  assumes "CudaRecoveryExecutor_new c d s = Inr ex0" "runtime_ok (cu_queries cu)" "exec_trace cu ex0 evs ex"
    and "burst (\<lambda>r. Submit cu (pick r) (failing r) r) jobs ex = (ex', n)"
  shows "outstanding ex' = outstanding ex + n \<and> outstanding ex + n \<le> ex_capacity ex \<and>
    (case EstimateRecoveryCost ex' of
       None \<Rightarrow> True
     | Some price' \<Rightarrow> \<exists>price. EstimateRecoveryCost ex = Some price \<and> price \<le> price') \<and>
    (n = 0 \<or> EstimateRecoveryCost ex \<noteq> None)"
proof -
  have inv: "executor_inv cu ex" by (rule reachable_inv [OF assms(1,3,2)])
  show ?thesis
    using cuda.burst_load [OF inv assms(4)] cuda.burst_bound [OF inv assms(4)] cuda.burst_price [OF inv assms(4)]
      cuda.burst_closed [OF inv _ assms(4)]
    by (auto split: option.splits)
qed

theorem executor_admission_witness:
  "\<exists>ex0 ex'. CudaRecoveryExecutor_new 1 1 50 = Inr ex0 \<and>
     burst (\<lambda>r. Submit example_cuda 0 False r) [(7, example_plan, example_slots)] ex0 = (ex', 1) \<and> outstanding ex' = outstanding ex0 + 1"
proof -
  obtain ex0 ex where e: "CudaRecoveryExecutor_new 1 1 50 = Inr ex0"
      "Submit example_cuda 0 False 7 example_plan example_slots ex0 = (ex, Inr True)"
    using example_accepts by blast
  have b: "burst (\<lambda>r. Submit example_cuda 0 False r) [(7, example_plan, example_slots)] ex0 = (ex, 1)" using e(2) by simp
  from executor_admission [OF e(1) example_cuda_runtime exec_trace.start b] e(1) b show ?thesis by auto
qed

end
