(* ===== verification/Rounding.thy ===== *)
theory Rounding imports Prelude Complex_Main begin

text \<open>
  \<open>std::llround\<close>, which the CUDA executor and the workload generator share: the nearest integer, halves away from zero, as a
  64-bit \<open>long long\<close>. If the nearest integer does not fit, the value is unspecified: it is what the parameter \<open>unspecified\<close> gives.
  An infinite argument is one of those that do not fit.
\<close>

definition nearest :: "real \<Rightarrow> int" where
  "nearest x = (if x < 0 then - \<lfloor>1 / 2 - x\<rfloor> else \<lfloor>x + 1 / 2\<rfloor>)"

definition llround :: "(real \<Rightarrow> 64 word) \<Rightarrow> real \<Rightarrow> int" where
  "llround unspecified x =
     (let n = nearest x in if - (2 ^ 63) \<le> n \<and> n < 2 ^ 63 then n else sint (unspecified x))"

lemma nearest_mono: "x \<le> y \<Longrightarrow> nearest x \<le> nearest y"
proof -
  assume le: "x \<le> y"
  consider "y < 0" | "x < 0" "0 \<le> y" | "0 \<le> x" using le by linarith
  then show ?thesis
  proof cases
    case 1
    then show ?thesis using le floor_mono [of "1 / 2 - y" "1 / 2 - x"] by (simp add: nearest_def)
  next
    case 2
    then have "0 \<le> \<lfloor>1 / 2 - x\<rfloor>" "0 \<le> \<lfloor>y + 1 / 2\<rfloor>" by simp_all
    then have "- \<lfloor>1 / 2 - x\<rfloor> \<le> \<lfloor>y + 1 / 2\<rfloor>" by linarith
    then show ?thesis using 2 by (simp add: nearest_def)
  next
    case 3
    then show ?thesis using le floor_mono [of "x + 1 / 2" "y + 1 / 2"] by (simp add: nearest_def)
  qed
qed

text \<open>The result is always a \<open>long long\<close>, and on times that are small enough it is the rounding.\<close>

lemma llround_range: "- (2 ^ 63) \<le> llround u x" "llround u x < 2 ^ 63"
  using sint_greater_eq [of "u x"] sint_less [of "u x"] by (simp_all add: llround_def Let_def)

lemma llround_small:
  assumes "0 \<le> x" "x < 2 ^ 61"
  shows "llround u x = nearest x" "0 \<le> llround u x" "llround u x \<le> 2 ^ 61"
proof -
  have n: "0 \<le> nearest x" "nearest x \<le> 2 ^ 61"
    using nearest_mono [OF assms(1)] nearest_mono [of x "2 ^ 61"] assms(2) by (simp_all add: nearest_def)
  then show "llround u x = nearest x" by (simp add: llround_def Let_def)
  then show "0 \<le> llround u x" "llround u x \<le> 2 ^ 61" using n by simp_all
qed

lemma llround_mono: "0 \<le> x \<Longrightarrow> x \<le> y \<Longrightarrow> y < 2 ^ 61 \<Longrightarrow> llround u x \<le> llround u y"
  using nearest_mono by (simp add: llround_small(1))

end
