(* ===== verification/CudaWorker.thy ===== *)
theory CudaWorker imports CudaPrepared ExecutorRuns Rounding begin

text \<open>
  \<open>src/runtime/cuda_recovery_executor.cpp\<close> on a device whose calls fail: how \<open>Submit\<close> stages the shards of a task, how a worker
  executes the task inside its \<open>try\<close> block, and the end of the task, with the context that it owns. The theorems are
  what the coordinator and the interleavings of \<open>ExecutorRuns\<close> assume of a task: a result that is truthful whatever
  fails, nothing that leaves the worker's thread but the end of the process, nothing left behind but what cannot be destroyed, and the results of
  \<open>StageShard\<close> and \<open>run_task\<close> with a failure that stands for the calls that fail. The last section shows what a client gets that goes on after an upload has failed.
\<close>

section \<open>The operations\<close>

text \<open>A \<open>try\<close> block with one handler.\<close>

definition catching :: "('h, 'a) action \<Rightarrow> (exn \<Rightarrow> ('h, 'a) action) \<Rightarrow> ('h, 'a) action" where
  "catching m handler w = (case m w of (v, w') \<Rightarrow> (case v of Raised e \<Rightarrow> handler e w' | _ \<Rightarrow> (v, w')))"

text \<open>
  The product of a \<open>float\<close> and 1000 is exact in \<open>double\<close>. \<open>unspecified\<close> is the value of \<open>std::llround\<close> for a time that is no
  64-bit integer; the times themselves are whatever the runtime measures.
\<close>

definition MillisecondsToMicroseconds :: "(real \<Rightarrow> 64 word) \<Rightarrow> real \<Rightarrow> microseconds" where
  "MillisecondsToMicroseconds unspecified milliseconds = llround unspecified (milliseconds * 1000)"

text \<open>
  \<open>Submit\<close> of a request of which nothing was staged. The context is a local object until the task is queued, so an exception
  destroys it.
\<close>

definition stage_for_submission :: "(nat \<Rightarrow> nat \<Rightarrow> ShardWord) \<Rightarrow> int \<Rightarrow> ShardSlots \<Rightarrow> (StagingHost, unit) action" where
  "stage_for_submission fresh device_id shards =
     bindA (create_staging_context device_id (length shards)) (\<lambda>_.
     on_exception
       (forA (\<lambda>i. case shards ! i of None \<Rightarrow> retA () | Some shard \<Rightarrow> stage_shard fresh (of_nat i) shard) [0..<length shards])
       destroy_staging_context)"

text \<open>The results of the \<open>try\<close> block and of its handler; \<open>queue_wait\<close> and \<open>total_time\<close> are what the clock of the host measured.\<close>

definition task_succeeded :: "(real \<Rightarrow> 64 word) \<Rightarrow> microseconds \<Rightarrow> microseconds \<Rightarrow> ShardSlots \<Rightarrow> CudaDecodeTimings \<Rightarrow> RecoveryTaskResult" where
  "task_succeeded unspecified queue_wait total_time shards timings =
     \<lparr>rt_success = True, rt_shards = shards,
      rt_metrics = zero_metrics\<lparr>m_queue_wait := queue_wait, m_h2d := MillisecondsToMicroseconds unspecified (h2d_ms timings),
        m_kernel := MillisecondsToMicroseconds unspecified (kernel_ms timings), m_d2h := MillisecondsToMicroseconds unspecified (d2h_ms timings),
        m_total := total_time\<rparr>,
      rt_error = None\<rparr>"

definition task_failed :: "microseconds \<Rightarrow> microseconds \<Rightarrow> exn \<Rightarrow> RecoveryTaskResult" where
  "task_failed queue_wait total_time e =
     \<lparr>rt_success = False, rt_shards = [], rt_metrics = zero_metrics\<lparr>m_queue_wait := queue_wait, m_total := total_time\<rparr>,
      rt_error = Some e\<rparr>"

definition execute_task ::
  "(real \<Rightarrow> 64 word) \<Rightarrow> (int \<Rightarrow> KernelId \<Rightarrow> DeviceQueries) \<Rightarrow> (nat \<Rightarrow> nat \<Rightarrow> ShardWord) \<Rightarrow> DecodePlan \<Rightarrow> microseconds \<Rightarrow> microseconds \<Rightarrow>
   (StagingHost, RecoveryTaskResult) action" where
  "execute_task unspecified queries fresh plan queue_wait total_time =
     bindA (modifyA (\<lambda>h. h\<lparr>sh_timings := \<lparr>h2d_ms = 0, kernel_ms = 0, d2h_ms = 0\<rparr>\<rparr>)) (\<lambda>_.
     catching
       (bindA (run_staged queries fresh plan) (\<lambda>_. hostA (\<lambda>h. task_succeeded unspecified queue_wait total_time (sh_shards h) (sh_timings h))))
       (\<lambda>e. retA (task_failed queue_wait total_time e)))"

text \<open>The task dies at the end of the loop body, and its context with it.\<close>

definition work_on_task ::
  "(real \<Rightarrow> 64 word) \<Rightarrow> (int \<Rightarrow> KernelId \<Rightarrow> DeviceQueries) \<Rightarrow> (nat \<Rightarrow> nat \<Rightarrow> ShardWord) \<Rightarrow> DecodePlan \<Rightarrow> microseconds \<Rightarrow> microseconds \<Rightarrow>
   (StagingHost, RecoveryTaskResult) action" where
  "work_on_task unspecified queries fresh plan queue_wait total_time =
     bindA (execute_task unspecified queries fresh plan queue_wait total_time) (\<lambda>result. bindA destroy_staging_context (\<lambda>_. retA result))"

text \<open>A task from its submission to its end.\<close>

definition recovery_task ::
  "(real \<Rightarrow> 64 word) \<Rightarrow> (int \<Rightarrow> KernelId \<Rightarrow> DeviceQueries) \<Rightarrow> (nat \<Rightarrow> nat \<Rightarrow> ShardWord) \<Rightarrow> int \<Rightarrow> DecodePlan \<Rightarrow> ShardSlots \<Rightarrow>
   microseconds \<Rightarrow> microseconds \<Rightarrow> (StagingHost, RecoveryTaskResult) action" where
  "recovery_task unspecified queries fresh device_id plan shards queue_wait total_time =
     bindA (stage_for_submission fresh device_id shards) (\<lambda>_.
     bindA (modifyA (\<lambda>h. h\<lparr>sh_shards := shards\<rparr>)) (\<lambda>_.
     work_on_task unspecified queries fresh plan queue_wait total_time))"

section \<open>What the operations leave\<close>

lemma hoare_catching:
  fixes m :: "('h, 'a) action"
  assumes "hoare F P m Q E" "\<And>e. hoare F (E e) (handler e) Q E'"
  shows "hoare F P (catching m handler) Q E'"
proof (rule hoareI)
  fix w :: "'h World"
  assume w: "wd_faults w = F" "P (wd_host w)"
  obtain v w1 where m: "m w = (v, w1)" by fastforce
  with hoareD [OF assms(1) w] have a: "ends F Q E (v, w1)" by simp
  show "ends F Q E' (catching m handler w)"
  proof (cases v)
    case (Raised e)
    then show ?thesis using a m hoareD [OF assms(2) [of e], of w1] by (simp add: catching_def)
  qed (use a m in \<open>simp_all add: catching_def\<close>)
qed

lemma account_catching:
  fixes m :: "('h, 'a) action"
  assumes "account I m J X" "\<And>e. account X (handler e) J Y"
  shows "account I (catching m handler) J Y"
proof (rule accountI)
  fix w :: "'h World"
  assume w: "I w"
  obtain v w1 where m: "m w = (v, w1)" by fastforce
  with accountD [OF assms(1) w] have a: "settles J X (v, w1)" by simp
  show "settles J Y (catching m handler w)"
  proof (cases v)
    case (Raised e)
    then show ?thesis using a m accountD [OF assms(2) [of e], of w1] by (simp add: catching_def)
  qed (use a m in \<open>simp_all add: catching_def\<close>)
qed

lemma runtime_only_destroy_context: "hoare F P destroy_staging_context (\<lambda>_. P) E"
proof -
  have rt: "hoare F P (destroy_members K) (\<lambda>_. P) E" for K
    by (simp add: hoare_def destroy_members_def hoareD [OF hoare_destroy_all])
  have ig: "api \<noteq> Free \<Longrightarrow> hoare F P (ignoring (callA api)) (\<lambda>_. P) E" for api
    by (rule hoare_ignoring, rule hoare_pre [OF hoare_runtime]) simp_all
  show ?thesis
    unfolding destroy_staging_context_def
    by (intro hoare_bindA [OF ig] hoare_bindA [OF rt] rt) simp_all
qed

text \<open>A worker: no exception leaves it.\<close>

definition result_of ::
  "(cuda_api \<Rightarrow> nat \<Rightarrow> bool) \<Rightarrow> ShardSlots \<Rightarrow> DecodePlan \<Rightarrow> ShardSlots \<Rightarrow> RecoveryTaskResult \<Rightarrow> bool" where
  "result_of F staged plan slots result \<longleftrightarrow> outcome plan slots result \<and>
     (if rt_success result then slots = staged
      else rt_shards result = [] \<and>
        ((\<exists>m. rt_error result = Some (InvalidArgument m)) \<and> (snd (execute_decode_plan_cpu plan slots) \<noteq> None \<or> slots \<noteq> staged) \<or>
         rt_error result = Some cuda_error \<and> some_fault F))"

lemma hoare_execute_task:
  assumes "runtime_ok queries" "cache_ok queries cache" "staging_ok staged ctx"
  shows "hoare F (\<lambda>h. sh_ctx h = ctx \<and> sh_shards h = slots \<and> sh_cache h = cache)
    (execute_task unspecified queries fresh plan queue_wait total_time) (\<lambda>result _. result_of F staged plan slots result) (\<lambda>_ _. False)"
  unfolding execute_task_def
proof (rule hoare_bindA)
  let ?P = "\<lambda>h. sh_ctx h = ctx \<and> sh_shards h = slots \<and> sh_cache h = cache"
  let ?E = "\<lambda>e h. sh_shards h = slots \<and> ((\<exists>m. e = InvalidArgument m) \<and> (snd (execute_decode_plan_cpu plan slots) \<noteq> None \<or> slots \<noteq> staged) \<or>
         e = cuda_error \<and> some_fault F)"
  show "hoare F ?P (modifyA (\<lambda>h. h\<lparr>sh_timings := \<lparr>h2d_ms = 0, kernel_ms = 0, d2h_ms = 0\<rparr>\<rparr>)) (\<lambda>_. ?P) (\<lambda>_ _. False)"
    by (rule hoare_pre [OF hoare_modifyA]) simp
  have run: "hoare F ?P (run_staged queries fresh plan)
      (\<lambda>_ h. slots = staged \<and> execute_decode_plan_cpu plan slots = (sh_shards h, None)) ?E"
  proof (cases "slots = staged")
    case True
    show ?thesis
      by (rule hoare_weaken [OF hoare_run_staged [OF assms(1,2) assms(3) [folded True] refl]])
        (auto simp: True staged_failure_def prod_eq_iff)
  next
    case False
    show ?thesis
      by (rule hoare_weaken [OF hoare_run_mismatch [OF assms(3) False]]) (auto simp: False)
  qed
  show "hoare F ?P (catching
       (bindA (run_staged queries fresh plan) (\<lambda>_. hostA (\<lambda>h. task_succeeded unspecified queue_wait total_time (sh_shards h) (sh_timings h))))
       (\<lambda>e. retA (task_failed queue_wait total_time e))) (\<lambda>result _. result_of F staged plan slots result) (\<lambda>_ _. False)"
    by (rule hoare_catching [OF hoare_bindA [OF run]]; rule hoare_pre [OF hoare_hostA] hoare_pre [OF hoare_retA];
        auto simp: result_of_def outcome_def task_succeeded_def task_failed_def)
qed

lemma hoare_work_on_task:
  assumes "runtime_ok queries" "cache_ok queries cache" "staging_ok staged ctx"
  shows "hoare F (\<lambda>h. sh_ctx h = ctx \<and> sh_shards h = slots \<and> sh_cache h = cache)
    (work_on_task unspecified queries fresh plan queue_wait total_time) (\<lambda>result _. result_of F staged plan slots result) (\<lambda>_ _. False)"
proof -
  have die: "hoare F (\<lambda>_. result_of F staged plan slots result) (bindA destroy_staging_context (\<lambda>_. retA result))
      (\<lambda>result _. result_of F staged plan slots result) (\<lambda>_ _. False)" for result
    by (rule hoare_bindA [OF runtime_only_destroy_context], rule hoare_pre [OF hoare_retA])
  show ?thesis
    unfolding work_on_task_def by (rule hoare_bindA [OF hoare_execute_task [OF assms] die])
qed

section \<open>From the submission to the end of the task\<close>

lemma take_replicate_update:
  assumes "i < length slots"
  shows "(take i slots @ replicate (length slots - i) None)[i := slots ! i] = take (Suc i) slots @ replicate (length slots - Suc i) None"
proof -
  have "replicate (length slots - i) None = None # replicate (length slots - Suc i) None"
    using assms by (metis Suc_diff_Suc replicate_Suc)
  from arg_cong [OF this, of "\<lambda>xs. (take i slots @ xs)[i := slots ! i]"] assms show ?thesis
    by (simp add: take_Suc_conv_app_nth list_update_append)
qed

lemma create_staging_ok:
  "create_device_shard_staging_context_cuda device_id n = Inr ctx \<Longrightarrow> staging_ok (replicate n None) ctx"
  by (auto simp: create_device_shard_staging_context_cuda_def staging_ok_def split: if_splits)

text \<open>A submission throws only if there are no slots, a shard is empty, or a call failed.\<close>

definition submission_error :: "(cuda_api \<Rightarrow> nat \<Rightarrow> bool) \<Rightarrow> ShardSlots \<Rightarrow> exn \<Rightarrow> 'h \<Rightarrow> bool" where
  "submission_error F shards e h \<longleftrightarrow> shards = [] \<or> Some [] \<in> set shards \<or> e = cuda_error \<and> some_fault F"

lemma hoare_stage_for_submission:
  assumes "length shards \<le> 2 ^ 32"
  shows "hoare F (\<lambda>h. sh_cache h = cache) (stage_for_submission fresh device_id shards)
    (\<lambda>_ h. staging_ok shards (sh_ctx h) \<and> sh_cache h = cache) (submission_error F shards)"
proof -
  let ?slots = "\<lambda>i. take i shards @ replicate (length shards - i) None"
  let ?I = "\<lambda>(pre :: nat list) (h :: StagingHost). staging_ok (?slots (length pre)) (sh_ctx h) \<and> sh_cache h = cache"
  let ?stage = "\<lambda>i. case shards ! i of None \<Rightarrow> retA () | Some shard \<Rightarrow> stage_shard fresh (of_nat i) shard"
  have "hoare F (?I []) (forA ?stage [0..<length shards]) (\<lambda>_. ?I [0..<length shards]) (submission_error F shards)"
  proof (rule hoare_forA [where I = ?I], rule hoareI)
    fix pre i rest and w :: "StagingHost World"
    assume xs: "[0..<length shards] = pre @ i # rest" and w: "wd_faults w = F" "?I pre (wd_host w)"
    have len: "length shards = length pre + Suc (length rest)" using arg_cong [OF xs, of length] by simp
    moreover have "[0..<length shards] ! length pre = i" unfolding xs by simp
    ultimately have i: "i = length pre" "i < length shards" by (simp_all del: upt_Suc)
    have next_slots: "(?slots i)[i := shards ! i] = ?slots (length (pre @ [i]))"
      using take_replicate_update [OF i(2)] i(1) by simp
    show "ends F (\<lambda>_. ?I (pre @ [i])) (submission_error F shards) (?stage i w)"
    proof (cases "shards ! i")
      case None
      have "(?slots i)[i := shards ! i] = ?slots i"
        using i(2) None by (intro list_update_same_conv [THEN iffD2]) (simp_all add: nth_append)
      then show ?thesis using None w next_slots i(1) by (simp add: retA_def)
    next
      case (Some shard)
      have id: "unat (of_nat i :: ShardId) = i" using i(2) assms by (simp add: unat_of_nat)
      have accepted: "shard \<noteq> [] \<Longrightarrow> \<exists>ctx. stage_decode_shard_cuda (of_nat i) shard (sh_ctx (wd_host w)) = Inr ctx"
        using w(2) i id by (auto simp: staging_ok_def stage_decode_shard_cuda_def nth_append)
      have "ends F (\<lambda>_ h. stage_decode_shard_cuda (of_nat i) shard (sh_ctx (wd_host w)) = Inr (sh_ctx h) \<and> sh_cache h = cache)
          (refused F (stage_decode_shard_cuda (of_nat i) shard (sh_ctx (wd_host w)))) (stage_shard fresh (of_nat i) shard w)"
        by (rule hoareD [OF hoare_stage_shard]) (use w in auto)
      then show ?thesis
        unfolding Some option.case
      proof (rule ends_mono)
        show "submission_error F shards e h" if "refused F (stage_decode_shard_cuda (of_nat i) shard (sh_ctx (wd_host w))) e h" for e h
          using that accepted Some i(2) nth_mem [OF i(2)] by (cases "shard = []") (auto simp: refused_def submission_error_def)
      qed (use stage_ok [of "?slots i" "sh_ctx (wd_host w)" "of_nat i" shard] w(2) next_slots i(1) id Some in auto)
    qed
  qed
  moreover have "?I [] h" if "create_device_shard_staging_context_cuda device_id (length shards) = Inr (sh_ctx h)" "sh_cache h = cache" for h
    using create_staging_ok [OF that(1)] that(2) by simp
  ultimately have stage: "hoare F (\<lambda>h. create_device_shard_staging_context_cuda device_id (length shards) = Inr (sh_ctx h) \<and> sh_cache h = cache)
      (forA ?stage [0..<length shards]) (\<lambda>_ h. staging_ok shards (sh_ctx h) \<and> sh_cache h = cache) (submission_error F shards)"
    by (rule hoare_weaken) simp_all
  have create: "hoare F (\<lambda>h :: StagingHost. sh_cache h = cache) (create_staging_context device_id (length shards))
      (\<lambda>_ h. create_device_shard_staging_context_cuda device_id (length shards) = Inr (sh_ctx h) \<and> sh_cache h = cache) (submission_error F shards)"
    by (rule hoare_weaken [OF hoare_create])
      (auto simp: refused_def submission_error_def create_device_shard_staging_context_cuda_def split: if_splits)
  show ?thesis
    unfolding stage_for_submission_def
    by (rule hoare_bindA [OF create hoare_on_exception [OF stage runtime_only_destroy_context]])
qed

lemma hoare_recovery_task:
  assumes "runtime_ok queries" "cache_ok queries cache" "length shards \<le> 2 ^ 32"
  shows "hoare F (\<lambda>h. sh_cache h = cache) (recovery_task unspecified queries fresh device_id plan shards queue_wait total_time)
    (\<lambda>result _. result_of F shards plan shards result) (submission_error F shards)"
proof -
  have work: "hoare F (\<lambda>h. staging_ok shards (sh_ctx h) \<and> sh_shards h = shards \<and> sh_cache h = cache)
      (work_on_task unspecified queries fresh plan queue_wait total_time) (\<lambda>result _. result_of F shards plan shards result) (submission_error F shards)"
  proof (rule hoareI)
    fix w :: "StagingHost World"
    assume w: "wd_faults w = F" "staging_ok shards (sh_ctx (wd_host w)) \<and> sh_shards (wd_host w) = shards \<and> sh_cache (wd_host w) = cache"
    show "ends F (\<lambda>result _. result_of F shards plan shards result) (submission_error F shards) (work_on_task unspecified queries fresh plan queue_wait total_time w)"
      by (rule ends_mono [OF hoareD [OF hoare_work_on_task [OF assms(1,2)]]]) (use w in auto)
  qed
  have store: "hoare F (\<lambda>h. staging_ok shards (sh_ctx h) \<and> sh_cache h = cache) (modifyA (\<lambda>h. h\<lparr>sh_shards := shards\<rparr>))
      (\<lambda>_ h. staging_ok shards (sh_ctx h) \<and> sh_shards h = shards \<and> sh_cache h = cache) (submission_error F shards)"
    by (rule hoare_pre [OF hoare_modifyA]) simp
  show ?thesis
    unfolding recovery_task_def
    by (rule hoare_bindA [OF hoare_stage_for_submission [OF assms(3)] hoare_bindA [OF store work]])
qed

text \<open>The resources.\<close>

lemma account_stage_for_submission:
  "account (nothing_owned F B) (stage_for_submission fresh device_id shards) (\<lambda>_. context_tidy F B) (nothing_owned F B)"
proof -
  have "keeps (context_tidy F B) (case shards ! i of None \<Rightarrow> retA () | Some shard \<Rightarrow> stage_shard fresh (of_nat i) shard)" for i
    by (cases "shards ! i") (simp_all add: keeps_retA keeps_stage_shard)
  then show ?thesis
    unfolding stage_for_submission_def
    by (intro account_bindA [OF account_create] account_on_exception [OF keeps_forA account_destroy_staging])
qed

lemma account_execute_task:
  "account (context_tidy F B) (execute_task unspecified queries fresh plan queue_wait total_time) (\<lambda>_. context_tidy F B) Y"
  unfolding execute_task_def
proof (rule account_bindA)
  show "account (context_tidy F B) (modifyA (\<lambda>h. h\<lparr>sh_timings := \<lparr>h2d_ms = 0, kernel_ms = 0, d2h_ms = 0\<rparr>\<rparr>)) (\<lambda>_. context_tidy F B) Y"
    by (simp add: account_def modifyA_def context_tidy_def)
  show "account (context_tidy F B) (catching
       (bindA (run_staged queries fresh plan) (\<lambda>_. hostA (\<lambda>h. task_succeeded unspecified queue_wait total_time (sh_shards h) (sh_timings h))))
       (\<lambda>e. retA (task_failed queue_wait total_time e))) (\<lambda>_. context_tidy F B) Y"
    by (rule account_catching [OF keeps_bindA [OF keeps_run_staged keeps_context(1)] account_retA])
qed

lemma account_recovery_task:
  "account (nothing_owned F B) (recovery_task unspecified queries fresh device_id plan shards queue_wait total_time)
    (\<lambda>_. nothing_owned F B) (nothing_owned F B)"
proof -
  have store: "account (context_tidy F B) (modifyA (\<lambda>h. h\<lparr>sh_shards := shards\<rparr>)) (\<lambda>_. context_tidy F B) (nothing_owned F B)"
    by (simp add: account_def modifyA_def context_tidy_def)
  show ?thesis
    unfolding recovery_task_def work_on_task_def
    by (rule account_bindA [OF account_stage_for_submission], rule account_bindA [OF store],
        rule account_bindA [OF account_execute_task], rule account_bindA [OF account_destroy_staging account_retA])
qed

section \<open>The worker and its model\<close>

lemma hoare_run_rejected:
  assumes "bindE (check_staged plan slots ctx) (\<lambda>_. scan_staged plan slots ctx) = Inl e"
  shows "hoare F (\<lambda>h. sh_ctx h = ctx \<and> sh_shards h = slots) (run_staged queries fresh plan) (\<lambda>_ _. False)
    (\<lambda>e' _. e' = e \<or> e' = cuda_error \<and> some_fault F \<and> check_staged plan slots ctx = Inr ())" (is "hoare F ?P _ _ ?E")
  unfolding run_staged_def
proof (rule hoare_scope, rule hoare_read [where x = ctx], simp, rule hoare_read [where x = slots], simp, cases "check_staged plan slots ctx")
  case (Inl e')
  then show "hoare F ?P (bindA (liftA (check_staged plan slots ctx)) k) (\<lambda>_ _. False) ?E" for k :: "unit \<Rightarrow> (StagingHost, unit) action"
    using assms by (simp add: hoare_def bindA_def liftA_def exn_simps)
next
  case (Inr u)
  then have "scan_staged plan slots ctx = Inl e" using assms by (simp add: exn_simps)
  then have scan: "hoare F ?P (bindA (liftA (scan_staged plan slots ctx)) k) (\<lambda>_ _. False) ?E" for k :: "ScanState \<Rightarrow> (StagingHost, unit) action"
    by (simp add: hoare_def bindA_def liftA_def)
  have "hoare F ?P (callA SetDevice) (\<lambda>_. ?P) ?E"
    by (rule hoare_pre [OF hoare_runtime]) (simp_all add: Inr)
  from hoare_bindA [OF this scan]
  show "hoare F ?P (bindA (liftA (check_staged plan slots ctx))
        (\<lambda>_. bindA (callA SetDevice) (\<lambda>_. bindA (liftA (scan_staged plan slots ctx)) k))) (\<lambda>_ _. False) ?E" for k :: "ScanState \<Rightarrow> (StagingHost, unit) action"
    by (simp add: Inr)
qed

lemma hoare_run_accepted:
  assumes "check_staged plan slots ctx = Inr ()" "scan_staged plan slots ctx = Inr sc" "cache_ok queries cache" "cache_ok queries cache'"
    and "launch_operations queries (sg_device_id ctx) sc (List.enumerate 0 (operations plan)) (allocate fresh sc (sg_device_shards ctx), cache)
      = Some (Inr (device', cache'))"
  shows "hoare F (\<lambda>h. sh_ctx h = ctx \<and> sh_shards h = slots \<and> sh_cache h = cache) (run_staged queries fresh plan)
    (\<lambda>_ h. sh_shards h = download (operations plan) device' slots) (\<lambda>e _. e = cuda_error \<and> some_fault F)" (is "hoare F ?P _ ?Q ?E")
proof -
  have phases: "hoare F ?P (bindA (launch_staged_phase queries fresh plan sc (length (sg_device_shards ctx))) (\<lambda>_. download_staged_phase plan)) ?Q ?E"
    by (rule hoare_weaken [OF hoare_staged_launches [OF assms(3-5), of F slots]]) (simp_all add: slots_kept_def)
  have "hoare F ?P (callA SetDevice) (\<lambda>_. ?P) ?E" by (rule hoare_pre [OF hoare_runtime]) simp_all
  moreover have "hoare F ?P (bindA (liftA (scan_staged plan slots ctx)) (\<lambda>sc.
      bindA (launch_staged_phase queries fresh plan sc (length (sg_device_shards ctx))) (\<lambda>_. download_staged_phase plan))) ?Q ?E"
    using phases by (simp add: assms(2) hoare_returned)
  ultimately have "hoare F ?P (bindA (callA SetDevice) (\<lambda>_. bindA (liftA (scan_staged plan slots ctx)) (\<lambda>sc.
      bindA (launch_staged_phase queries fresh plan sc (length (sg_device_shards ctx))) (\<lambda>_. download_staged_phase plan)))) ?Q ?E"
    by (rule hoare_bindA)
  then show ?thesis
    unfolding run_staged_def
    by (intro hoare_scope hoare_read [where x = ctx] hoare_read [where x = slots]) (simp_all add: assms(1) hoare_returned)
qed

lemma run_staged_checks:
  "bindE (check_staged plan slots ctx) (\<lambda>_. scan_staged plan slots ctx) = Inl e \<Longrightarrow>
   run_staged_decode_plan_cuda queries fresh plan slots ctx cache = Some (ctx, Inl e)"
  by (cases "ValidatePlanShape plan")
    (auto simp: check_staged_def scan_staged_def run_staged_decode_plan_cuda_def exn_simps split: if_splits)

lemma hoare_execute_ends:
  assumes "hoare F P (run_staged queries fresh plan) (\<lambda>_. Q) E" "\<And>h t. P h \<Longrightarrow> P (h\<lparr>sh_timings := t\<rparr>)"
  shows "hoare F P (execute_task unspecified queries fresh plan queue_wait total_time)
    (\<lambda>result _. (\<exists>h. Q h \<and> result = task_succeeded unspecified queue_wait total_time (sh_shards h) (sh_timings h)) \<or>
      (\<exists>e h. E e h \<and> result = task_failed queue_wait total_time e)) (\<lambda>_ _. False)"
  unfolding execute_task_def
  by (rule hoare_bindA, rule hoare_pre [OF hoare_modifyA], erule assms(2),
      rule hoare_catching [OF hoare_bindA [OF assms(1)]]; rule hoare_pre [OF hoare_hostA] hoare_pre [OF hoare_retA]; blast)

text \<open>The result is one that the model has, which fails only if a call does.\<close>

definition modelled_result ::
  "(cuda_api \<Rightarrow> nat \<Rightarrow> bool) \<Rightarrow> CudaRuntime \<Rightarrow> Task \<Rightarrow> config_cache \<Rightarrow> RecoveryTaskResult \<Rightarrow> bool" where
  "modelled_result F cu task cache result \<longleftrightarrow>
     (\<exists>failing measured cache'. run_task cu failing measured task cache = Some (result, cache') \<and> (failing \<longrightarrow> some_fault F))"

lemma calls_cuda_iff: "calls_cuda task \<longleftrightarrow> check_staged (task_plan task) (task_shards task) (task_context task) = Inr ()"
  by (auto simp: calls_cuda_def check_staged_def)

lemma task_failed_result:
  "task_failed queue_wait total_time e = failed_result (rt_metrics (task_failed queue_wait total_time e)) e"
  by (simp add: task_failed_def failed_result_def zero_metrics_def)

lemma modelled_failure:
  assumes "calls_cuda task" "some_fault F"
  shows "modelled_result F cu task cache (task_failed queue_wait total_time cuda_error)"
  unfolding modelled_result_def
  by (rule exI [of _ True], subst task_failed_result) (use assms in \<open>auto simp: run_task_def\<close>)

lemma hoare_execute_modelled:
  fixes cu task cache
  assumes "runtime_ok (cu_queries cu)" "cache_ok (cu_queries cu) cache" "task_ok task"
  defines "P \<equiv> \<lambda>h. sh_ctx h = task_context task \<and> sh_shards h = task_shards task \<and> sh_cache h = cache"
  shows "hoare F P (execute_task unspecified (cu_queries cu) (cu_fresh cu) (task_plan task) queue_wait total_time)
    (\<lambda>result _. modelled_result F cu task cache result) (\<lambda>_ _. False)"
proof -
  let ?plan = "task_plan task" and ?slots = "task_shards task" and ?ctx = "task_context task"
  let ?queries = "cu_queries cu" and ?fresh = "cu_fresh cu"
  have timings: "P h \<Longrightarrow> P (h\<lparr>sh_timings := t\<rparr>)" for h t by (simp add: P_def)
  show ?thesis
  proof (cases "bindE (check_staged ?plan ?slots ?ctx) (\<lambda>_. scan_staged ?plan ?slots ?ctx)")
    case (Inl e)
    have run: "hoare F P (run_staged ?queries ?fresh ?plan) (\<lambda>_ _. False) (\<lambda>e' _. e' = e \<or> e' = cuda_error \<and> some_fault F \<and> calls_cuda task)"
      by (rule hoare_pre [OF hoare_run_rejected [OF Inl, folded calls_cuda_iff]]) (simp add: P_def)
    have "modelled_result F cu task cache (task_failed queue_wait total_time e)"
      unfolding modelled_result_def
      by (rule exI [of _ False], subst task_failed_result) (auto simp: run_task_def run_staged_checks [OF Inl])
    then show ?thesis
      by (intro hoare_weaken [OF hoare_execute_ends [OF run timings]]) (auto intro: modelled_failure)
  next
    case (Inr sc)
    then have ok: "check_staged ?plan ?slots ?ctx = Inr ()" "scan_staged ?plan ?slots ?ctx = Inr sc"
      by (auto simp: exn_simps split: sum.splits)
    then have shape: "ValidatePlanShape ?plan = Inr ()" by (auto simp: check_staged_def split: if_splits)
    obtain device' cache' where l: "launch_operations ?queries (sg_device_id ?ctx) sc (List.enumerate 0 (operations ?plan))
        (allocate ?fresh sc (sg_device_shards ?ctx), cache) = Some (Inr (device', cache'))" "cache_ok ?queries cache'"
      using held_launches(2) [OF assms(1,2) assms(3) [unfolded task_ok_def] shape, where fresh = ?fresh] ok(2)
      by (auto simp: scan_staged_def split: if_splits)
    obtain ctx' where r: "run_staged_decode_plan_cuda ?queries ?fresh ?plan ?slots ?ctx cache
        = Some (ctx', Inr (download (operations ?plan) device' ?slots, cache'))"
      using ok l by (auto simp: run_staged_decode_plan_cuda_def check_staged_def scan_staged_def Let_def split: if_splits)
    have run: "hoare F P (run_staged ?queries ?fresh ?plan) (\<lambda>_ h. sh_shards h = download (operations ?plan) device' ?slots)
        (\<lambda>e _. e = cuda_error \<and> some_fault F)"
      unfolding P_def by (rule hoare_run_accepted [OF ok assms(2) l(2,1)])
    have "modelled_result F cu task cache (task_succeeded unspecified queue_wait total_time (download (operations ?plan) device' ?slots) t)" for t
      unfolding modelled_result_def
      by (rule exI [of _ False], rule exI [of _ "rt_metrics (task_succeeded unspecified queue_wait total_time [] t)"])
        (simp add: run_task_def r task_succeeded_def zero_metrics_def)
    moreover have "calls_cuda task" using ok(1) by (simp add: calls_cuda_iff)
    ultimately show ?thesis
      by (intro hoare_weaken [OF hoare_execute_ends [OF run timings]]) (auto intro: modelled_failure)
  qed
qed

text \<open>\<open>stage_decode_shard_cuda\<close>: what it leaves when it throws is what the executor's model has for some failure.\<close>

lemma hoare_stage_modelled:
  "hoare F (\<lambda>h. sh_ctx h = ctx) (stage_shard fresh i shard)
    (\<lambda>_ h. attempt_upload None i shard ctx = (sh_ctx h, None))
    (\<lambda>e h. \<exists>failure. attempt_upload failure i shard ctx = (sh_ctx h, Some e) \<and> (failure \<noteq> None \<longrightarrow> some_fault F))"
  (is "hoare F ?P _ ?Q ?E")
  unfolding stage_shard_def
proof (rule hoare_scope, rule hoare_read [where x = ctx], simp, cases "stage_decode_shard_cuda i shard ctx")
  case (Inl e)
  then show "hoare F ?P (bindA (liftA (stage_decode_shard_cuda i shard ctx)) k) ?Q ?E" for k :: "DeviceShardStagingContext \<Rightarrow> (StagingHost, unit) action"
    by (auto simp: hoare_def bindA_def liftA_def attempt_upload_def intro: exI [of _ None])
next
  case (Inr ctx1)
  let ?recorded = "ctx\<lparr>sg_staged_shards := (sg_staged_shards ctx)[unat i := Some shard],
       sg_word_counts := (sg_word_counts ctx)[unat i := Some (length shard)]\<rparr>"
  let ?device = "\<lambda>w. (sg_device_shards ctx)[unat i := Some w]"
  have ctx1: "ctx1 = ?recorded\<lparr>sg_device_shards := ?device shard\<rparr>"
    using Inr by (auto simp: stage_decode_shard_cuda_def split: if_splits)
  have leaves: "?E cuda_error h" if "some_fault F" "sh_ctx h = ctx \<or> sh_ctx h = ?recorded \<or>
      (\<exists>held. sh_ctx h = ?recorded\<lparr>sg_device_shards := ?device (map held [0..<length shard])\<rparr>)" for h
    using that(2)
  proof (elim disjE exE)
    assume "sh_ctx h = ctx"
    then show ?thesis using that(1) by (intro exI [of _ "Some No_device"]) (simp add: attempt_upload_def Inr)
  next
    assume "sh_ctx h = ?recorded"
    then show ?thesis using that(1) by (intro exI [of _ "Some No_buffer"]) (simp add: attempt_upload_def Inr ctx1)
  next
    fix held
    assume "sh_ctx h = ?recorded\<lparr>sg_device_shards := ?device (map held [0..<length shard])\<rparr>"
    then show ?thesis using that(1) by (intro exI [of _ "Some (Not_uploaded held)"]) (simp add: attempt_upload_def Inr ctx1)
  qed
  have uploaded: "?device shard = ?device (map ((!) shard) [0..<length shard])" by (simp add: map_nth)
  note rt = hoare_pre [OF hoare_runtime]
  have s0: "hoare F (\<lambda>h. sh_ctx h = ctx) (callA SetDevice) (\<lambda>_ h. sh_ctx h = ctx) ?E"
    by (rule rt, simp) (use leaves in blast)
  have s1: "hoare F (\<lambda>h. sh_ctx h = ?recorded) m (\<lambda>_ h. sh_ctx h = ?recorded) ?E" if "runtime_only m" for m :: "(StagingHost, 'x) action"
    by (rule rt [OF that]) (use leaves in blast)
  have s2: "hoare F (\<lambda>h. sh_ctx h = ?recorded\<lparr>sg_device_shards := ?device (map (fresh (unat i)) [0..<length shard])\<rparr>) m
      (\<lambda>_ h. sh_ctx h = ?recorded\<lparr>sg_device_shards := ?device (map (fresh (unat i)) [0..<length shard])\<rparr>) ?E"
    if "runtime_only m" for m :: "(StagingHost, 'x) action"
    by (rule rt [OF that]) (use leaves in blast)
  have s3: "hoare F (\<lambda>h. sh_ctx h = ctx1) m (\<lambda>_ h. sh_ctx h = ctx1) ?E" if "runtime_only m" for m :: "(StagingHost, 'x) action"
    by (rule rt [OF that]) (use leaves uploaded ctx1 in metis)
  have step: "hoare F (\<lambda>h. sh_ctx h = c) (modifyA g) (\<lambda>_ h. sh_ctx h = c') ?E" if "\<And>h. sh_ctx h = c \<Longrightarrow> sh_ctx (g h) = c'" for c c' g
    by (rule hoare_pre [OF hoare_modifyA]) (rule that)
  have last: "hoare F (\<lambda>h. sh_ctx h = ctx1) (modifyA (\<lambda>h. h\<lparr>sh_transfers := sh_transfers h + 1\<rparr>)) ?Q ?E"
    by (rule hoare_pre [OF hoare_modifyA]) (simp add: attempt_upload_def Inr)
  show "hoare F ?P (bindA (liftA (stage_decode_shard_cuda i shard ctx)) (\<lambda>_.
     bindA (callA SetDevice) (\<lambda>_.
     bindA (modifyA (\<lambda>h. h\<lparr>sh_ctx := (sh_ctx h)
       \<lparr>sg_staged_shards := (sg_staged_shards ctx)[unat i := Some shard],
        sg_word_counts := (sg_word_counts ctx)[unat i := Some (length shard)]\<rparr>\<rparr>)) (\<lambda>_.
     bindA (assign_buffer (Shard_member (unat i))) (\<lambda>_.
     bindA (modifyA (\<lambda>h. h\<lparr>sh_ctx := (sh_ctx h)
       \<lparr>sg_device_shards := (sg_device_shards ctx)[unat i := Some (map (fresh (unat i)) [0..<length shard])]\<rparr>\<rparr>)) (\<lambda>_.
     bindA CudaEvent_Create (\<lambda>_.
     bindA CudaEvent_Create (\<lambda>_.
     bindA CudaEvent_Record (\<lambda>_.
     bindA (callA Memcpy) (\<lambda>_.
     bindA (modifyA (\<lambda>h. h\<lparr>sh_ctx := (sh_ctx h)
       \<lparr>sg_device_shards := (sg_device_shards ctx)[unat i := Some shard]\<rparr>\<rparr>)) (\<lambda>_.
     bindA CudaEvent_Record (\<lambda>_.
     bindA push_transfer (\<lambda>_.
     modifyA (\<lambda>h. h\<lparr>sh_transfers := sh_transfers h + 1\<rparr>)))))))))))))) ?Q ?E"
    unfolding Inr hoare_returned
    by (rule hoare_bindA [OF s0], rule hoare_bindA [OF step [of _ _ ?recorded]], simp, rule hoare_bindA [OF s1], simp,
        rule hoare_bindA [OF step [of _ _ "?recorded\<lparr>sg_device_shards := ?device (map (fresh (unat i)) [0..<length shard])\<rparr>"]], simp,
        rule hoare_bindA [OF s2], simp, rule hoare_bindA [OF s2], simp, rule hoare_bindA [OF s2], simp, rule hoare_bindA [OF s2], simp,
        rule hoare_bindA [OF step [of _ _ ctx1]], simp add: ctx1, rule hoare_bindA [OF s3], simp, rule hoare_bindA [OF s3], simp,
        rule last)
qed

text \<open>\<open>StageShard\<close> of a request that is neither queued nor running, from the lookup of its context: \<open>known\<close> says that there is one.\<close>

definition stage_request ::
  "(nat \<Rightarrow> nat \<Rightarrow> ShardWord) \<Rightarrow> int \<Rightarrow> bool \<Rightarrow> nat \<Rightarrow> ShardId \<Rightarrow> WordShard \<Rightarrow> (StagingHost, unit) action" where
  "stage_request fresh device_id known shard_count shard_id payload =
     bindA (if known then retA () else create_staging_context device_id shard_count) (\<lambda>_. stage_shard fresh shard_id payload)"

lemma create_staging_Inl:
  "create_device_shard_staging_context_cuda device_id n = Inl e \<Longrightarrow> create_staging_context device_id n = (\<lambda>w. (Raised e, w))"
  by (simp add: create_staging_context_def bindA_def liftA_def fun_eq_iff)

text \<open>What \<open>StageShard\<close> makes of the executor's state, given the context that is left in the host's memory.\<close>

definition staged_as :: "CudaRuntime \<Rightarrow> RequestId \<Rightarrow> nat \<Rightarrow> ShardId \<Rightarrow> WordShard \<Rightarrow> Executor \<Rightarrow> StagingFailure option \<Rightarrow> exn option \<Rightarrow> StagingHost \<Rightarrow> bool" where
  "staged_as cu r n i shard ex failure threw h \<longleftrightarrow>
     (\<exists>ex'. StageShard cu failure r n i shard ex = (ex', threw) \<and>
       (ex' = ex\<lparr>ex_staged := (ex_staged ex)(r \<mapsto> (n, sh_ctx h))\<rparr> \<or> ex' = ex \<and> ex_staged ex r = None \<and> threw \<noteq> None))"

lemma hoare_stage_request:
  assumes "\<not> ex_stopping ex" "r \<notin> ex_running ex" "\<not> HasQueuedRequest r ex"
  shows "ex_staged ex r = Some (n, ctx) \<Longrightarrow> hoare F (\<lambda>h. sh_ctx h = ctx) (stage_request fresh (cu_device cu) True n i shard)
      (\<lambda>_. staged_as cu r n i shard ex None None)
      (\<lambda>e h. \<exists>failure. staged_as cu r n i shard ex failure (Some e) h \<and> (failure \<noteq> None \<longrightarrow> some_fault F))"
    and "ex_staged ex r = None \<Longrightarrow> hoare F (\<lambda>_. True) (stage_request fresh (cu_device cu) False n i shard)
      (\<lambda>_. staged_as cu r n i shard ex None None)
      (\<lambda>e h. \<exists>failure. staged_as cu r n i shard ex failure (Some e) h \<and> (failure \<noteq> None \<longrightarrow> some_fault F))"
    (is "_ \<Longrightarrow> hoare F _ _ ?Q ?E")
proof -
  have staged: "staged_as cu r n i shard ex failure threw h"
    if "find_context cu failure r n ex = Inr (n, ctx)" "attempt_upload failure i shard ctx = (sh_ctx h, threw)" for failure threw ctx and h :: StagingHost
    using that assms by (simp add: staged_as_def StageShard_def)
  have modelled: "hoare F (\<lambda>h. sh_ctx h = ctx) (stage_shard fresh i shard) ?Q ?E"
    if "\<And>failure. failure \<noteq> Some No_context \<Longrightarrow> find_context cu failure r n ex = Inr (n, ctx)" for ctx
  proof (rule hoare_weaken [OF hoare_stage_modelled [of F ctx fresh i shard]])
    show "?Q u h" if "attempt_upload None i shard ctx = (sh_ctx h, None)" for u and h :: StagingHost
      using staged [OF _ that] \<open>\<And>failure. failure \<noteq> Some No_context \<Longrightarrow> find_context cu failure r n ex = Inr (n, ctx)\<close> by simp
    fix e and h :: StagingHost
    assume "\<exists>failure. attempt_upload failure i shard ctx = (sh_ctx h, Some e) \<and> (failure \<noteq> None \<longrightarrow> some_fault F)"
    then obtain failure where f: "attempt_upload failure i shard ctx = (sh_ctx h, Some e)" "failure \<noteq> None \<longrightarrow> some_fault F" by blast
    define failure' where "failure' = (if failure = Some No_context then None else failure)"
    have "attempt_upload failure' i shard ctx = (sh_ctx h, Some e)" "failure' \<noteq> None \<longrightarrow> some_fault F" "failure' \<noteq> Some No_context"
      using f by (auto simp: failure'_def attempt_upload_def split: sum.splits)
    then show "?E e h" using staged that by blast
  qed simp_all
  show "hoare F (\<lambda>h. sh_ctx h = ctx) (stage_request fresh (cu_device cu) True n i shard) ?Q ?E" if "ex_staged ex r = Some (n, ctx)"
    using modelled [of ctx] that by (simp add: stage_request_def find_context_def hoare_def bindA_def retA_def)
  assume new: "ex_staged ex r = None"
  show "hoare F (\<lambda>_. True) (stage_request fresh (cu_device cu) False n i shard) ?Q ?E"
  proof (cases "create_device_shard_staging_context_cuda (cu_device cu) n")
    case (Inl e)
    then have "staged_as cu r n i shard ex None (Some e) h" for h :: StagingHost
      using new assms by (simp add: staged_as_def StageShard_def find_context_def)
    then show ?thesis by (auto simp: stage_request_def create_staging_Inl [OF Inl] hoare_def bindA_def intro: exI [of _ None])
  next
    case (Inr ctx)
    have found: "find_context cu failure r n ex = Inr (n, ctx)" if "failure \<noteq> Some No_context" for failure
      using that new Inr by (cases failure; cases "the failure") (simp_all add: find_context_def)
    have "staged_as cu r n i shard ex (Some No_context) (Some cuda_error) h" for h :: StagingHost
      using new assms Inr by (simp add: staged_as_def StageShard_def find_context_def)
    then have lost: "?E e h" if "refused F (create_device_shard_staging_context_cuda (cu_device cu) n) e h" for e and h :: StagingHost
      using that Inr by (auto simp: refused_def)
    have create: "hoare F (\<lambda>_. True) (create_staging_context (cu_device cu) n) (\<lambda>_ h. sh_ctx h = ctx) ?E"
    proof (rule hoareI)
      fix w :: "StagingHost World"
      assume w: "wd_faults w = F"
      show "ends F (\<lambda>_ h. sh_ctx h = ctx) ?E (create_staging_context (cu_device cu) n w)"
        by (rule ends_mono [OF hoareD [OF hoare_create [where cache = "sh_cache (wd_host w)"]]]) (use w Inr lost in auto)
    qed
    from hoare_bindA [OF this modelled [OF found]] show ?thesis by (simp add: stage_request_def)
  qed
qed

text \<open>\<open>Submit\<close> of a request of which nothing was staged.\<close>

lemma hoare_submit_modelled:
  "hoare F (\<lambda>_. True) (stage_for_submission fresh (cu_device cu) shards) (\<lambda>_ h. stage_submitted cu False shards = Inr (sh_ctx h))
    (\<lambda>e _. \<exists>failing. stage_submitted cu failing shards = Inl e \<and> (failing \<longrightarrow> some_fault F))" (is "hoare F _ _ ?Q ?E")
proof (cases "create_device_shard_staging_context_cuda (cu_device cu) (length shards)")
  case (Inl e)
  then show ?thesis
    by (auto simp: stage_for_submission_def create_staging_Inl [OF Inl] hoare_def bindA_def stage_submitted_def intro: exI [of _ False])
next
  case (Inr ctx)
  let ?step = "\<lambda>i context. case shards ! i of None \<Rightarrow> Inr context | Some w \<Rightarrow> stage_decode_shard_cuda (of_nat i) w context"
  let ?stage = "\<lambda>i. case shards ! i of None \<Rightarrow> retA () | Some shard \<Rightarrow> stage_shard fresh (of_nat i) shard"
  let ?I = "\<lambda>(pre :: nat list) (h :: StagingHost). foldE ?step pre ctx = Inr (sh_ctx h)"
  have submitted: "stage_submitted cu False shards = foldE ?step [0..<length shards] ctx" "stage_submitted cu True shards = Inl cuda_error"
    using Inr by (simp_all add: stage_submitted_def)
  have "hoare F (?I []) (forA ?stage [0..<length shards]) (\<lambda>_. ?I [0..<length shards]) (\<lambda>e _. ?E e h0)" for h0 :: StagingHost
  proof (rule hoare_forA [where I = ?I], rule hoareI)
    fix pre i rest and w :: "StagingHost World"
    assume xs: "[0..<length shards] = pre @ i # rest" and w: "wd_faults w = F" "?I pre (wd_host w)"
    show "ends F (\<lambda>_. ?I (pre @ [i])) (\<lambda>e _. ?E e h0) (?stage i w)"
    proof (cases "shards ! i")
      case None
      then show ?thesis using w by (simp add: retA_def foldE_append)
    next
      case (Some shard)
      let ?r = "stage_decode_shard_cuda (of_nat i) shard (sh_ctx (wd_host w))"
      have failed: "foldE ?step [0..<length shards] ctx = Inl e" if "?r = Inl e" for e
        unfolding xs foldE_append using w(2) that Some by (simp add: exn_simps)
      have "ends F (\<lambda>_ h. ?r = Inr (sh_ctx h) \<and> sh_cache h = sh_cache (wd_host w)) (refused F ?r) (stage_shard fresh (of_nat i) shard w)"
        by (rule hoareD [OF hoare_stage_shard]) (use w in auto)
      then show ?thesis
        unfolding Some option.case
      proof (rule ends_mono)
        show "?E e h0" if "refused F ?r e h" for e and h :: StagingHost
          using that failed submitted by (auto simp: refused_def intro: exI [of _ False] exI [of _ True])
      qed (use w(2) Some in \<open>auto simp: foldE_append\<close>)
    qed
  qed
  then have stage: "hoare F (\<lambda>h. sh_ctx h = ctx) (forA ?stage [0..<length shards]) ?Q ?E"
    by (rule hoare_weaken) (auto simp: submitted)
  have create: "hoare F (\<lambda>_. True) (create_staging_context (cu_device cu) (length shards)) (\<lambda>_ h. sh_ctx h = ctx) ?E"
  proof (rule hoareI)
    fix w :: "StagingHost World"
    assume w: "wd_faults w = F"
    show "ends F (\<lambda>_ h. sh_ctx h = ctx) ?E (create_staging_context (cu_device cu) (length shards) w)"
      by (rule ends_mono [OF hoareD [OF hoare_create [where cache = "sh_cache (wd_host w)"]]])
        (use w Inr submitted in \<open>auto simp: refused_def intro: exI [of _ True]\<close>)
  qed
  show ?thesis
    unfolding stage_for_submission_def
    by (rule hoare_bindA [OF create hoare_on_exception [OF stage runtime_only_destroy_context]])
qed

section \<open>After a failed upload\<close>

lemma assign_buffer_raises:
  "\<forall>n. \<not> F Malloc n \<Longrightarrow> account (on_host F P) (assign_buffer k) (\<lambda>_. on_host F P) X"
proof -
  assume F: "\<forall>n. \<not> F Malloc n"
  have "account (on_host F P) (move_to_member k) (\<lambda>_. on_host F P) X"
  proof (rule accountI)
    fix w
    assume "on_host F P w"
    then have t: "settles (\<lambda>_. on_host F P) (on_host F P) (move_to_member k w)"
      by (rule accountD [OF keeps_runtime [OF runtime_only_members(1)]])
    obtain v w' where r: "move_to_member k w = (v, w')" by fastforce
    then have "\<forall>e. v \<noteq> Raised e" using move_not_raised by metis
    then show "settles (\<lambda>_. on_host F P) X (move_to_member k w)" using t r by (cases v) simp_all
  qed
  moreover have "account (on_host F P) AllocateDeviceBuffer (\<lambda>_. on_host F P) X"
    using F by (simp add: account_def AllocateDeviceBuffer_def acquire_local_def bindA_def callA_def on_host_def Let_def)
  ultimately show ?thesis unfolding assign_buffer_def by (intro account_bindA)
qed

text \<open>Only copies fail: an upload that throws leaves the shard recorded and its buffer as it was allocated.\<close>

lemma account_failed_copy:
  assumes "stage_decode_shard_cuda i shard ctx = Inr ctx1" "\<forall>api k. F api k \<longrightarrow> api = Memcpy"
  shows "account (on_host F (\<lambda>h. sh_ctx h = ctx \<and> sh_cache h = cache)) (stage_shard fresh i shard) (\<lambda>_. on_host F (\<lambda>_. True))
    (on_host F (\<lambda>h. sh_ctx h = ctx1\<lparr>sg_device_shards := (sg_device_shards ctx)[unat i := Some (map (fresh (unat i)) [0..<length shard])]\<rparr> \<and>
      sh_cache h = cache))" (is "account (on_host F ?P) _ _ (on_host F ?R)")
proof -
  let ?S = "\<lambda>h. sh_ctx h = ctx\<lparr>sg_staged_shards := (sg_staged_shards ctx)[unat i := Some shard],
        sg_word_counts := (sg_word_counts ctx)[unat i := Some (length shard)]\<rparr> \<and> sh_cache h = cache"
  have ctx1: "ctx1 = ctx\<lparr>sg_staged_shards := (sg_staged_shards ctx)[unat i := Some shard],
       sg_word_counts := (sg_word_counts ctx)[unat i := Some (length shard)],
       sg_device_shards := (sg_device_shards ctx)[unat i := Some shard]\<rparr>"
    using assms(1) by (auto simp: stage_decode_shard_cuda_def split: if_splits)
  have no: "api \<noteq> Memcpy \<Longrightarrow> \<forall>k. \<not> F api k" for api using assms(2) by blast
  have read: "account (on_host F ?P) (hostA sh_ctx) (\<lambda>x w. x = ctx \<and> on_host F ?P w) (on_host F ?R)"
    by (simp add: account_def hostA_def on_host_def)
  have set1: "account (on_host F ?P) (modifyA (\<lambda>h. h\<lparr>sh_ctx := (sh_ctx h)
       \<lparr>sg_staged_shards := (sg_staged_shards ctx)[unat i := Some shard],
        sg_word_counts := (sg_word_counts ctx)[unat i := Some (length shard)]\<rparr>\<rparr>)) (\<lambda>_. on_host F ?S) (on_host F ?R)"
    by (simp add: account_def modifyA_def on_host_def)
  have set2: "account (on_host F ?S) (modifyA (\<lambda>h. h\<lparr>sh_ctx := (sh_ctx h)\<lparr>sg_device_shards :=
       (sg_device_shards ctx)[unat i := Some (map (fresh (unat i)) [0..<length shard])]\<rparr>\<rparr>)) (\<lambda>_. on_host F ?R) (on_host F ?R)"
    by (simp add: account_def modifyA_def on_host_def ctx1)
  have anything: "account (on_host F Q) (modifyA g) (\<lambda>_. on_host F (\<lambda>_. True)) X" for Q g and X :: "StagingHost World \<Rightarrow> bool"
    by (simp add: account_def modifyA_def on_host_def)
  have event: "account (on_host F Q) CudaEvent_Record (\<lambda>_. on_host F Q) X" for Q and X :: "StagingHost World \<Rightarrow> bool"
    unfolding CudaEvent_Record_def by (rule account_no_fault [OF no]) simp
  have push: "account (on_host F Q) push_transfer (\<lambda>_. on_host F Q) X" for Q and X :: "StagingHost World \<Rightarrow> bool"
    by (simp add: account_def push_transfer_def on_host_def)
  have rt: "runtime_only m \<Longrightarrow> keeps (on_host F ?R) m" for m :: "(StagingHost, 'x) action" by (rule keeps_runtime)
  show ?thesis
    unfolding stage_shard_def
  proof (rule account_host_scope, rule account_bindA [OF read])
    fix x
    show "account (\<lambda>w. x = ctx \<and> on_host F ?P w) (bindA (liftA (stage_decode_shard_cuda i shard x)) (\<lambda>_.
     bindA (callA SetDevice) (\<lambda>_.
     bindA (modifyA (\<lambda>h. h\<lparr>sh_ctx := (sh_ctx h)
       \<lparr>sg_staged_shards := (sg_staged_shards x)[unat i := Some shard],
        sg_word_counts := (sg_word_counts x)[unat i := Some (length shard)]\<rparr>\<rparr>)) (\<lambda>_.
     bindA (assign_buffer (Shard_member (unat i))) (\<lambda>_.
     bindA (modifyA (\<lambda>h. h\<lparr>sh_ctx := (sh_ctx h)
       \<lparr>sg_device_shards := (sg_device_shards x)[unat i := Some (map (fresh (unat i)) [0..<length shard])]\<rparr>\<rparr>)) (\<lambda>_.
     bindA CudaEvent_Create (\<lambda>_.
     bindA CudaEvent_Create (\<lambda>_.
     bindA CudaEvent_Record (\<lambda>_.
     bindA (callA Memcpy) (\<lambda>_.
     bindA (modifyA (\<lambda>h. h\<lparr>sh_ctx := (sh_ctx h)
       \<lparr>sg_device_shards := (sg_device_shards x)[unat i := Some shard]\<rparr>\<rparr>)) (\<lambda>_.
     bindA CudaEvent_Record (\<lambda>_.
     bindA push_transfer (\<lambda>_.
     modifyA (\<lambda>h. h\<lparr>sh_transfers := sh_transfers h + 1\<rparr>))))))))))))))
     (\<lambda>_. on_host F (\<lambda>_. True)) (on_host F ?R)" (is "account _ (?m x) _ _")
    proof (cases "x = ctx")
      case True
      have "account (on_host F ?P) (?m ctx) (\<lambda>_. on_host F (\<lambda>_. True)) (on_host F ?R)"
        unfolding assms(1)
        by (rule account_bindA [where J = "\<lambda>_. on_host F ?P"], simp add: account_def liftA_def,
            rule account_bindA [OF account_no_fault [OF no]], simp, rule account_bindA [OF set1],
            rule account_bindA [OF assign_buffer_raises [OF no]], simp, rule account_bindA [OF set2],
            rule account_bindA [OF rt], simp, rule account_bindA [OF rt], simp, rule account_bindA [OF rt], simp,
            rule account_bindA [OF rt], simp, rule account_bindA [OF anything], rule account_bindA [OF event],
            rule account_bindA [OF push], rule anything)
      then show ?thesis unfolding True by (rule account_weaken) simp_all
    qed (simp add: account_def)
  qed simp
qed

text \<open>A run on slots that are what was staged, while the buffers hold something else of the same shape.\<close>

lemma hoare_run_held:
  assumes "runtime_ok queries" "cache_ok queries cache" "staging_ok held (ctx\<lparr>sg_staged_shards := held\<rparr>)"
    and "sg_staged_shards ctx = shards" "length shards = length held" "execute_decode_plan_cpu plan held = (final, None)"
  shows "hoare F (\<lambda>h. sh_ctx h = ctx \<and> sh_shards h = shards \<and> sh_cache h = cache) (run_staged queries fresh plan)
    (\<lambda>_ h. \<forall>op\<in>set (operations plan). sh_shards h ! unat (xo_output op) = final ! unat (xo_output op))
    (\<lambda>e _. some_fault F)" (is "hoare F ?P _ ?Q ?E")
proof -
  have shape: "ValidatePlanShape plan = Inr ()" using assms(6) by (simp add: execute_decode_plan_cpu_ok)
  let ?sc0 = "\<lparr>word_counts = sg_word_counts ctx, available_shards = map (\<lambda>c. c \<noteq> None) (sg_word_counts ctx),
     required_shards = replicate (length (sg_device_shards ctx)) False, flattened_sources = [], source_offsets = []\<rparr>"
  have "fresh_scan ?sc0 held" using assms(3) by (auto simp: staging_ok_def fresh_scan_def tracks_def)
  then obtain sc where sc: "scan_staged plan shards ctx = Inr sc"
    using scan_plan_iff [of ?sc0 held, OF _ shape] assms(4,6) by (auto simp: scan_staged_def)
  have check: "check_staged plan shards ctx = Inr ()"
    using shape assms(3,5) by (simp add: check_staged_def staging_ok_def)
  obtain device where d: "hoare F ?P (bindA (launch_staged_phase queries fresh plan sc (length (sg_device_shards ctx))) (\<lambda>_. download_staged_phase plan))
        (\<lambda>_ h. sh_shards h = download (operations plan) device shards) (slots_kept queries F shards)"
      "execute_decode_plan_cpu plan held = (download (operations plan) device held, None)"
    using hoare_staged_phases [OF assms(1-3) shape sc, of F fresh] by blast
  have out: "unat (xo_output op) < length held" if "op \<in> set (operations plan)" for op
    using execute_operations_outputs [of "operations plan" held final op] that assms(6) d(2)
    by (auto simp: execute_decode_plan_cpu_ok slot_def split: if_splits)
  have phases: "hoare F ?P (bindA (launch_staged_phase queries fresh plan sc (length (sg_device_shards ctx))) (\<lambda>_. download_staged_phase plan)) ?Q ?E"
    by (rule hoare_weaken [OF d(1)]) (use out assms(5,6) d(2) in \<open>auto simp: nth_download slots_kept_def\<close>)
  have set: "hoare F ?P (callA SetDevice) (\<lambda>_. ?P) ?E"
    by (rule hoare_pre [OF hoare_runtime]) simp_all
  show ?thesis
    unfolding run_staged_def
    by (rule hoare_scope, rule hoare_read [where x = ctx], simp, rule hoare_read [where x = shards], simp,
        simp add: check sc, rule hoare_bindA [OF set], simp add: phases)
qed

section \<open>Properties\<close>



text \<open>
  C7. The worker refines its model: whatever CUDA calls fail, and whichever uploads of the task's shards had failed before,
  executing a task ends, no exception leaves the worker's thread, and the result is one that \<open>run_task\<close> has, the step of the
  executor's interleavings, where a failing run of \<open>run_task\<close> stands for a CUDA call that fails.
\<close>

theorem worker_refines_model:
  assumes "runtime_ok (cu_queries cu)" "cache_ok (cu_queries cu) (sh_cache (wd_host w))" "task_ok task"
    and "sh_ctx (wd_host w) = task_context task" "sh_shards (wd_host w) = task_shards task"
    and "execute_task unspecified (cu_queries cu) (cu_fresh cu) (task_plan task) queue_wait total_time w = (v, w')"
  shows "case v of
      Done result \<Rightarrow> \<exists>failing measured cache'. run_task cu failing measured task (sh_cache (wd_host w)) = Some (result, cache') \<and>
        (failing \<longrightarrow> (\<exists>api k. api \<noteq> Free \<and> wd_faults w api k))
    | Raised e \<Rightarrow> False
    | Terminated \<Rightarrow> \<exists>k. wd_faults w Free k
    | Hangs \<Rightarrow> False"
proof -
  have "ends (wd_faults w) (\<lambda>result _. modelled_result (wd_faults w) cu task (sh_cache (wd_host w)) result) (\<lambda>_ _. False) (v, w')"
    unfolding assms(6) [symmetric] by (rule hoareD [OF hoare_execute_modelled [OF assms(1-3)]]) (simp_all add: assms(4,5))
  then show ?thesis by (cases v) (auto simp: modelled_result_def some_fault_def)
qed

definition example_task :: Task where
  "example_task = \<lparr>task_request = 7, task_plan = example_plan, task_shards = example_slots,
     task_context = \<lparr>sg_word_counts = map (map_option length) example_slots, sg_staged_shards = example_slots,
       sg_device_shards = example_slots, sg_plan = DecodePlan_default, sg_source_offsets = [], sg_device_id = 0, sg_finalized = False\<rparr>\<rparr>"

lemma example_task_ok: "task_ok example_task"
  by (auto simp: task_ok_def context_ok_def example_task_def example_slots_def)

theorem worker_refines_model_witness:
  "\<exists>result w' measured cache'. execute_task (\<lambda>_. 0) (cu_queries example_cuda) (cu_fresh example_cuda) (task_plan example_task) 3 9
      (example_world (\<lambda>_ _. False) (example_staging\<lparr>sh_ctx := task_context example_task, sh_shards := task_shards example_task\<rparr>)) = (Done result, w') \<and>
    run_task example_cuda False measured example_task [] = Some (result, cache')"
proof -
  let ?w = "example_world (\<lambda>_ _. False) (example_staging\<lparr>sh_ctx := task_context example_task, sh_shards := task_shards example_task\<rparr>)"
  obtain v w' where run: "execute_task (\<lambda>_. 0) (cu_queries example_cuda) (cu_fresh example_cuda) (task_plan example_task) 3 9 ?w = (v, w')" by fastforce
  have w: "sh_cache (wd_host ?w) = []" "wd_faults ?w = (\<lambda>_ _. False)" "sh_ctx (wd_host ?w) = task_context example_task"
      "sh_shards (wd_host ?w) = task_shards example_task"
    by (simp_all add: example_world_def example_staging_def)
  note refines = worker_refines_model [OF example_cuda_runtime _ example_task_ok w(3,4) run]
  show ?thesis
  proof (cases v)
    case (Done result)
    then obtain failing measured cache' where "run_task example_cuda failing measured example_task [] = Some (result, cache')" "failing = False"
      using refines by (auto simp: w(1,2) cache_ok_Nil)
    then show ?thesis using run Done by blast
  qed (use refines in \<open>simp_all add: w(1,2) cache_ok_Nil\<close>)
qed

text \<open>
  C8. Staging refines its model: whatever CUDA calls fail, \<open>StageShard\<close> ends, and what it throws and leaves of the context is what
  \<open>StageShard\<close> of the executor's model has, where a failure stands for a CUDA call that fails.
\<close>

theorem staging_refines_model:
  assumes "\<not> ex_stopping ex" "r \<notin> ex_running ex" "\<not> HasQueuedRequest r ex"
    and "case ex_staged ex r of None \<Rightarrow> \<not> known | Some (m, ctx) \<Rightarrow> known \<and> m = n \<and> sh_ctx (wd_host w) = ctx"
    and "stage_request (cu_fresh cu) (cu_device cu) known n i shard w = (v, w')"
  shows "case v of
      Done _ \<Rightarrow> staged_as cu r n i shard ex None None (wd_host w')
    | Raised e \<Rightarrow> \<exists>failure. staged_as cu r n i shard ex failure (Some e) (wd_host w') \<and>
        (failure \<noteq> None \<longrightarrow> (\<exists>api k. api \<noteq> Free \<and> wd_faults w api k))
    | Terminated \<Rightarrow> \<exists>k. wd_faults w Free k
    | Hangs \<Rightarrow> False"
proof -
  have "ends (wd_faults w) (\<lambda>_. staged_as cu r n i shard ex None None)
      (\<lambda>e h. \<exists>failure. staged_as cu r n i shard ex failure (Some e) h \<and> (failure \<noteq> None \<longrightarrow> some_fault (wd_faults w))) (v, w')"
  proof (cases "ex_staged ex r")
    case None
    then show ?thesis
      using hoareD [OF hoare_stage_request(2) [OF assms(1-3) None], of w] assms(4) unfolding assms(5) [symmetric] by simp
  next
    case (Some staged)
    then show ?thesis
      using hoareD [OF hoare_stage_request(1) [OF assms(1-3)], of n "sh_ctx (wd_host w)" w] assms(4) unfolding assms(5) [symmetric]
      by (cases staged) simp
  qed
  then show ?thesis by (cases v) (auto simp: some_fault_def)
qed

lemma example_stage_request:
  "fst (stage_request (\<lambda>_ _. 77) 0 False 5 2 [4, 4] (example_world (\<lambda>api k. api = Memcpy) example_staging)) = Raised cuda_error"
  by code_simp

theorem staging_refines_model_witness:
  "\<exists>ex w' failure. CudaRecoveryExecutor_new 1 1 50 = Inr ex \<and>
     stage_request (cu_fresh example_cuda) (cu_device example_cuda) False 5 2 [4, 4] (example_world (\<lambda>api k. api = Memcpy) example_staging)
       = (Raised cuda_error, w') \<and>
     staged_as example_cuda 7 5 2 [4, 4] ex failure (Some cuda_error) (wd_host w')"
proof -
  let ?w = "example_world (\<lambda>api k. api = Memcpy) example_staging"
  obtain ex where ex: "CudaRecoveryExecutor_new 1 1 50 = Inr ex" by (simp add: CudaRecoveryExecutor_new_def)
  then have free: "\<not> ex_stopping ex" "7 \<notin> ex_running ex" "\<not> HasQueuedRequest 7 ex"
      "case ex_staged ex 7 of None \<Rightarrow> \<not> False | Some (m, ctx) \<Rightarrow> False \<and> m = 5 \<and> sh_ctx (wd_host ?w) = ctx"
    by (auto simp: CudaRecoveryExecutor_new_def HasQueuedRequest_def Let_def split: if_splits)
  obtain w' where w': "stage_request (cu_fresh example_cuda) (cu_device example_cuda) False 5 2 [4, 4] ?w = (Raised cuda_error, w')"
    using example_stage_request
    by (cases "stage_request (cu_fresh example_cuda) (cu_device example_cuda) False 5 2 [4, 4] ?w") (simp add: example_cuda_def)
  from staging_refines_model [OF free w'] ex w' show ?thesis by auto
qed

text \<open>
  C40. A failed copy can corrupt a decode silently. After some uploads the copy of one more shard fails and
  \<open>stage_decode_shard_cuda\<close> throws. A client that still knows the shard, as a caller of \<open>Submit\<close> does, and runs an executable
  plan on slots that contain it gets no exception, although every call now succeeds: the run returns, and each output is
  decoded from whatever the buffer of the shard held when it was allocated.
\<close>

theorem failed_copy_corrupts_decode:
  assumes "runtime_ok queries" "cache_ok queries (sh_cache (wd_host w0))" "\<forall>api k. wd_faults w0 api k \<longrightarrow> api = Memcpy"
    and "begin_staging fresh device_id n uploads w0 = (Done (), w)"
    and "unat i < n" "staged_slots n uploads ! unat i = None" "shard \<noteq> []"
    and "stage_shard fresh i shard w = (Raised cuda_error, w1)"
    and "execute_decode_plan_cpu plan ((staged_slots n uploads)[unat i := Some (map (fresh (unat i)) [0..<length shard])]) = (final, None)"
  shows "\<exists>w2. staging_call_action queries fresh (Run_call plan ((staged_slots n uploads)[unat i := Some shard]))
      (w1\<lparr>wd_faults := \<lambda>_ _. False\<rparr>) = (Done (), w2) \<and>
    (\<forall>op\<in>set (operations plan). sh_shards (wd_host w2) ! unat (xo_output op) = final ! unat (xo_output op))"
proof -
  let ?staged = "staged_slots n uploads" and ?garbage = "map (fresh (unat i)) [0..<length shard]"
  let ?slots = "?staged[unat i := Some shard]" and ?held = "?staged[unat i := Some ?garbage]"
  note ok = begin_staging_ok [OF assms(4)]
  then have stage: "stage_decode_shard_cuda i shard (sh_ctx (wd_host w)) = Inr ((sh_ctx (wd_host w))
      \<lparr>sg_staged_shards := ?slots, sg_word_counts := (sg_word_counts (sh_ctx (wd_host w)))[unat i := Some (length shard)], sg_device_shards := ?slots\<rparr>)"
      (is "_ = Inr ?ctx1")
    using assms(5-7) by (simp add: stage_decode_shard_cuda_def staging_ok_def)
  have "on_host (wd_faults w0) (\<lambda>h. sh_ctx h = sh_ctx (wd_host w) \<and> sh_cache h = sh_cache (wd_host w0)) w"
    using ok by (simp add: on_host_def)
  from accountD [OF account_failed_copy [OF stage assms(3)] this, of fresh]
  have w1: "sh_ctx (wd_host w1) = ?ctx1\<lparr>sg_device_shards := ?held\<rparr>" "sh_cache (wd_host w1) = sh_cache (wd_host w0)"
    using ok unfolding assms(8) by (simp_all add: on_host_def staging_ok_def)
  have held: "staging_ok ?held ((sh_ctx (wd_host w1))\<lparr>sg_staged_shards := ?held\<rparr>)"
    using ok assms(7) set_update_subset_insert [of ?staged "unat i" "Some ?garbage"]
    by (auto simp: w1(1) staging_ok_def map_update)
  let ?w1 = "w1\<lparr>wd_faults := \<lambda>_ _. False, wd_host := (wd_host w1)\<lparr>sh_shards := ?slots\<rparr>\<rparr>"
  have "ends (\<lambda>_ _. False) (\<lambda>_ h. \<forall>op\<in>set (operations plan). sh_shards h ! unat (xo_output op) = final ! unat (xo_output op))
      (\<lambda>e h. some_fault (\<lambda>_ _. False)) (run_staged queries fresh plan ?w1)"
    by (rule hoareD [OF hoare_run_held [OF assms(1,2) held _ _ assms(9)]]) (simp_all add: w1)
  moreover have "staging_call_action queries fresh (Run_call plan ?slots) (w1\<lparr>wd_faults := \<lambda>_ _. False\<rparr>) = run_staged queries fresh plan ?w1"
    by (simp add: bindA_def modifyA_def)
  moreover obtain v w2 where "run_staged queries fresh plan ?w1 = (v, w2)" by fastforce
  ultimately show ?thesis by (cases v) (auto simp: some_fault_def)
qed

text \<open>Two shards are uploaded, the copy of the third one fails.\<close>

definition third_copy_fails :: "StagingHost World" where
  "third_copy_fails = example_world (\<lambda>api k. api = Memcpy \<and> k = 21) example_staging"

lemma example_third_copy:
  "fst (begin_staging (\<lambda>_ _. 77) 0 5 [(4, [7, 5]), (3, [6, 0])] third_copy_fails) = Done ()"
  "fst (stage_shard (\<lambda>_ _. 77) 2 [4, 4] (snd (begin_staging (\<lambda>_ _. 77) 0 5 [(4, [7, 5]), (3, [6, 0])] third_copy_fails)))
    = Raised cuda_error"
  by code_simp+

theorem failed_copy_corrupts_decode_witness:
  "\<exists>w w1 w2. begin_staging (\<lambda>_ _. 77) 0 5 [(4, [7, 5]), (3, [6, 0])] third_copy_fails = (Done (), w) \<and>
    stage_shard (\<lambda>_ _. 77) 2 [4, 4] w = (Raised cuda_error, w1) \<and>
    staging_call_action example_queries (\<lambda>_ _. 77) (Run_call example_plan [None, None, Some [4, 4], Some [6, 0], Some [7, 5]])
      (w1\<lparr>wd_faults := \<lambda>_ _. False\<rparr>) = (Done (), w2) \<and> sh_shards (wd_host w2) ! 0 = Some [76, 72]"
proof -
  let ?uploads = "[(4, [7, 5]), (3, [6, 0])] :: (ShardId \<times> WordShard) list"
  obtain w where w: "begin_staging (\<lambda>_ _. 77) 0 5 ?uploads third_copy_fails = (Done (), w)"
    using example_third_copy(1) by (cases "begin_staging (\<lambda>_ _. 77) 0 5 ?uploads third_copy_fails") simp
  obtain w1 where w1: "stage_shard (\<lambda>_ _. 77) 2 [4, 4] w = (Raised cuda_error, w1)"
    using example_third_copy(2) w by (cases "stage_shard (\<lambda>_ _. 77) 2 [4, 4] w") simp
  have slots: "staged_slots 5 ?uploads = [None, None, None, Some [6, 0], Some [7, 5]]"
    by (simp add: staged_slots_def replicate_numeral)
  have "execute_decode_plan_cpu example_plan ((staged_slots 5 ?uploads)[unat (2 :: ShardId) := Some (map (\<lambda>_. 77) [0..<length [4, 4 :: ShardWord]])])
      = ([Some [76, 72], Some [74, 72], Some [77, 77], Some [6, 0], Some [7, 5]], None)"
    by (simp add: slots execute_decode_plan_cpu_def ValidatePlanShape_def reject_any_def execute_operation_def
        slot_def decode_source_def xor_words_def example_plan_def replicate_numeral)
  note garbage = this
  have cache: "cache_ok example_queries (sh_cache (wd_host third_copy_fails))"
    and copies: "\<forall>api k. wd_faults third_copy_fails api k \<longrightarrow> api = Memcpy"
    by (simp_all add: third_copy_fails_def example_world_def example_staging_def cache_ok_Nil)
  have missing: "unat (2 :: ShardId) < 5" "staged_slots 5 ?uploads ! unat (2 :: ShardId) = None" by (simp_all add: slots)
  from failed_copy_corrupts_decode [OF example_runtime cache copies w missing _ w1 garbage]
  obtain w2 where run: "staging_call_action example_queries (\<lambda>_ _. 77) (Run_call example_plan ((staged_slots 5 ?uploads)[unat (2 :: ShardId) := Some [4, 4]]))
      (w1\<lparr>wd_faults := \<lambda>_ _. False\<rparr>) = (Done (), w2)"
    and out: "\<forall>op\<in>set (operations example_plan). sh_shards (wd_host w2) ! unat (xo_output op)
      = [Some [76, 72], Some [74, 72], Some [77, 77], Some [6, 0], Some [7, 5]] ! unat (xo_output op)" by blast
  have "(staged_slots 5 ?uploads)[unat (2 :: ShardId) := Some [4, 4]] = [None, None, Some [4, 4], Some [6, 0], Some [7, 5]]" by (simp add: slots)
  moreover have "sh_shards (wd_host w2) ! 0 = Some [76, 72]" using out by (simp add: example_plan_def)
  ultimately show ?thesis using w w1 run by metis
qed

end
