(* ===== verification/Coordinator.thy ===== *)
theory Coordinator imports ExecutorRuns Policy "HOL-Library.Multiset" begin

text \<open>
  \<open>src/runtime/coordinator.cpp\<close> and \<open>include/codedllm/runtime/serving.hpp\<close>: the coordinator that tracks
  the shards of every request, decides when to recover and merges the outcome of a recovery.

  Every region under the coordinator's mutex is one operation; the answers it gets from the executor
  inside it (whether \<open>StageShard\<close> threw, the price) and the time spent planning are its parameters. The
  rest of \<open>OnShardArrived\<close> runs without the lock, so an arrival that has to submit or to cancel leaves a
  thread behind, and \<open>serve_step\<close> interleaves the threads, new arrivals and completions. A time point is
  an \<open>int\<close>, an error is kept as the exception whose text the code stores.
\<close>

section \<open>State\<close>

datatype RequestStatus = Pending | NaturalComplete | Recovered | Failed

record RequestSnapshot =
  sn_status :: RequestStatus
  sn_recovery_submitted :: bool
  sn_recovery_rejected :: bool
  sn_late_arrivals :: nat
  sn_metrics :: RecoveryExecutionMetrics
  sn_error :: "exn option"

type_synonym wait_cost_oracle = "RequestId \<Rightarrow> int \<Rightarrow> microseconds result"

record RequestState =
  rq_tracker :: ShardArrivalTracker
  rq_shards :: ShardSlots
  rq_oracle :: wait_cost_oracle
  rq_snapshot :: RequestSnapshot
  rq_word_count :: nat
  rq_recovery_closed :: bool

record Coordinator =
  co_graph :: BipartiteGraph
  co_transport :: bool
  co_requests :: "RequestId \<rightharpoonup> RequestState"

definition IsTerminal :: "RequestStatus \<Rightarrow> bool" where
  "IsTerminal status \<longleftrightarrow> status \<noteq> Pending"

section \<open>Operations\<close>

definition RequestState_new :: "nat \<Rightarrow> nat \<Rightarrow> wait_cost_oracle \<Rightarrow> RequestState result" where
  "RequestState_new k m oracle =
     bindE (ShardArrivalTracker_new k m) (\<lambda>tracker.
       Inr \<lparr>rq_tracker = tracker, rq_shards = replicate (k + m) None, rq_oracle = oracle,
            rq_snapshot = \<lparr>sn_status = Pending, sn_recovery_submitted = False, sn_recovery_rejected = False,
              sn_late_arrivals = 0, sn_metrics = zero_metrics, sn_error = None\<rparr>,
            rq_word_count = 0, rq_recovery_closed = False\<rparr>)"

definition RecoveryCoordinator_new :: "BipartiteGraph \<Rightarrow> bool \<Rightarrow> Coordinator result" where
  "RecoveryCoordinator_new g has_executor =
     bindE (RecoveryPolicy_new g) (\<lambda>_.
       if \<not> has_executor then Inl (InvalidArgument ''RecoveryCoordinator requires an executor'')
       else Inr \<lparr>co_graph = g, co_transport = False, co_requests = Map.empty\<rparr>)"

definition AttachTransport :: "Coordinator \<Rightarrow> Coordinator" where
  "AttachTransport co = co\<lparr>co_transport := True\<rparr>"

text \<open>The part of \<open>StartRequest\<close> before it hands the request to the transport.\<close>

definition StartRequest :: "RequestId \<Rightarrow> wait_cost_oracle option \<Rightarrow> Coordinator \<Rightarrow> Coordinator result" where
  "StartRequest r oracle co =
     (case oracle of
        None \<Rightarrow> Inl (InvalidArgument ''Request requires a wait-cost oracle'')
      | Some wait \<Rightarrow>
          if \<not> co_transport co then Inl (LogicError ''No shard transport is attached'')
          else bindE (RequestState_new (systematic_shard_count (co_graph co)) (parity_shard_count (co_graph co)) wait)
            (\<lambda>state. if co_requests co r \<noteq> None then Inl (InvalidArgument ''Request ID is already active'')
              else Inr (co\<lparr>co_requests := (co_requests co)(r \<mapsto> state)\<rparr>)))"

text \<open>What the arrival handler still has to do when it leaves the critical section.\<close>

datatype ArrivalOutcome = Threw exn | Returned | CancelNext | SubmitNext DecodePlan ShardSlots

text \<open>The branch that plans a recovery, once the arrival is recorded.\<close>

definition consider_recovery_plan ::
  "BipartiteGraph \<Rightarrow> microseconds option \<Rightarrow> microseconds \<Rightarrow> RequestId \<Rightarrow> int \<Rightarrow> RequestState \<Rightarrow>
   RequestState \<times> ArrivalOutcome" where
  "consider_recovery_plan g estimate planning r arrival_time st =
     (case bindE (arrived_parities (rq_tracker st) g) (CreatePlan g (GetMissingSystematic (rq_tracker st))) of
        Inl e \<Rightarrow> (st, Threw e)
      | Inr plan \<Rightarrow>
          (let sn = rq_snapshot st; metrics = sn_metrics sn;
               sn1 = sn\<lparr>sn_metrics := metrics\<lparr>m_planning := m_planning metrics + planning\<rparr>\<rparr>;
               st1 = st\<lparr>rq_snapshot := sn1\<rparr> in
           if \<not> is_recoverable plan then (st1, Returned)
           else (case estimate of
               None \<Rightarrow> (st1\<lparr>rq_snapshot := sn1\<lparr>sn_recovery_rejected := True\<rparr>, rq_recovery_closed := True\<rparr>, Returned)
             | Some cost \<Rightarrow>
                 (case bindE (rq_oracle st r arrival_time) (\<lambda>wait.
                      Evaluate g (rq_tracker st) \<lparr>expected_wait_remaining = wait, expected_recovery_cost = cost\<rparr>) of
                    Inl e \<Rightarrow> (st1, Threw e)
                  | Inr Recover \<Rightarrow>
                      (st1\<lparr>rq_snapshot := sn1\<lparr>sn_recovery_submitted := True\<rparr>\<rparr>, SubmitNext plan (rq_shards st))
                  | Inr _ \<Rightarrow> (st1, Returned)))))"

text \<open>The critical section on the state of the request.\<close>

definition arrival_section ::
  "BipartiteGraph \<Rightarrow> exn option \<Rightarrow> microseconds option \<Rightarrow> microseconds \<Rightarrow> RequestId \<Rightarrow> ShardId \<Rightarrow> WordShard \<Rightarrow>
   int \<Rightarrow> RequestState \<Rightarrow> RequestState \<times> ArrivalOutcome" where
  "arrival_section g stage_threw estimate planning r shard_id payload arrival_time st =
     (let sn = rq_snapshot st in
      if IsTerminal (sn_status sn)
      then (st\<lparr>rq_snapshot := sn\<lparr>sn_late_arrivals := sn_late_arrivals sn + 1\<rparr>\<rparr>, Returned)
      else if unat shard_id \<ge> length (rq_shards st)
      then (st, Threw (InvalidArgument ''Arrival shard ID is out of bounds''))
      else if payload = []
      then (st, Threw (InvalidArgument ''Arrived shards must not be empty''))
      else if rq_word_count st \<noteq> 0 \<and> rq_word_count st \<noteq> length payload
      then (st, Threw (InvalidArgument ''Arrived shards must have equal sizes''))
      else (let st1 = st\<lparr>rq_word_count := length payload\<rparr> in
        if rq_shards st ! unat shard_id \<noteq> None then (st1, Returned)
        else (case stage_threw of
            Some e \<Rightarrow> (st1, Threw e)
          | None \<Rightarrow>
              (let st2 = st1\<lparr>rq_shards := (rq_shards st)[unat shard_id := Some payload]\<rparr> in
               case MarkArrived shard_id arrival_time (rq_tracker st) of
                 Inl e \<Rightarrow> (st2, Threw e)
               | Inr tracker \<Rightarrow>
                   (let st3 = st2\<lparr>rq_tracker := tracker\<rparr> in
                    if IsSystematicComplete tracker
                    then (st3\<lparr>rq_snapshot := sn\<lparr>sn_status := NaturalComplete\<rparr>\<rparr>, CancelNext)
                    else if \<not> rq_recovery_closed st \<and> \<not> sn_recovery_submitted sn
                    then consider_recovery_plan g estimate planning r arrival_time st3
                    else (st3, Returned))))))"

definition OnShardArrived ::
  "exn option \<Rightarrow> microseconds option \<Rightarrow> microseconds \<Rightarrow> RequestId \<Rightarrow> ShardId \<Rightarrow> WordShard \<Rightarrow> int \<Rightarrow>
   Coordinator \<Rightarrow> Coordinator \<times> ArrivalOutcome" where
  "OnShardArrived stage_threw estimate planning r shard_id payload arrival_time co =
     (case co_requests co r of
        None \<Rightarrow> (co, Threw (InvalidArgument ''Arrival references an unknown request''))
      | Some st \<Rightarrow>
          (case arrival_section (co_graph co) stage_threw estimate planning r shard_id payload arrival_time st of
             (st', v) \<Rightarrow> (co\<lparr>co_requests := (co_requests co)(r \<mapsto> st')\<rparr>, v)))"

text \<open>After an accepted submission: \<open>true\<close> when the executor has to be told to cancel it.\<close>

definition CompletedNaturally :: "RequestId \<Rightarrow> Coordinator \<Rightarrow> bool" where
  "CompletedNaturally r co =
     (case co_requests co r of None \<Rightarrow> False | Some st \<Rightarrow> sn_status (rq_snapshot st) = NaturalComplete)"

text \<open>After a refused submission.\<close>

definition RejectRecovery :: "RequestId \<Rightarrow> Coordinator \<Rightarrow> Coordinator" where
  "RejectRecovery r co =
     (case co_requests co r of
        None \<Rightarrow> co
      | Some st \<Rightarrow>
          if IsTerminal (sn_status (rq_snapshot st)) then co
          else co\<lparr>co_requests := (co_requests co)(r \<mapsto>
            st\<lparr>rq_snapshot := (rq_snapshot st)\<lparr>sn_recovery_submitted := False, sn_recovery_rejected := True\<rparr>,
               rq_recovery_closed := True\<rparr>)\<rparr>)"

definition merge_result :: "RecoveryTaskResult \<Rightarrow> RequestState \<Rightarrow> RequestState" where
  "merge_result result st =
     (let sn = rq_snapshot st; m = rt_metrics result; planning = m_planning (sn_metrics sn);
          sn1 = sn\<lparr>sn_metrics := \<lparr>m_planning = planning, m_queue_wait = m_queue_wait m, m_h2d = m_h2d m,
            m_kernel = m_kernel m, m_d2h = m_d2h m, m_handoff = m_handoff m, m_total = planning + m_total m\<rparr>\<rparr>
      in if \<not> rt_success result
         then st\<lparr>rq_snapshot := sn1\<lparr>sn_status := Failed, sn_error := rt_error result\<rparr>\<rparr>
         else st\<lparr>rq_snapshot := sn1\<lparr>sn_status := Recovered\<rparr>, rq_shards := rt_shards result\<rparr>)"

definition OnRecoveryComplete :: "RequestId \<Rightarrow> RecoveryTaskResult \<Rightarrow> Coordinator \<Rightarrow> Coordinator" where
  "OnRecoveryComplete r result co =
     (case co_requests co r of
        None \<Rightarrow> co
      | Some st \<Rightarrow>
          if IsTerminal (sn_status (rq_snapshot st)) then co
          else co\<lparr>co_requests := (co_requests co)(r \<mapsto> merge_result result st)\<rparr>)"

definition GetSnapshot :: "RequestId \<Rightarrow> Coordinator \<Rightarrow> RequestSnapshot result" where
  "GetSnapshot r co =
     (case co_requests co r of
        None \<Rightarrow> Inl (InvalidArgument ''Unknown request ID'')
      | Some st \<Rightarrow> Inr (rq_snapshot st))"

definition GetShard :: "RequestId \<Rightarrow> ShardId \<Rightarrow> Coordinator \<Rightarrow> WordShard option result" where
  "GetShard r shard_id co =
     (case co_requests co r of
        None \<Rightarrow> Inl (InvalidArgument ''Unknown request or shard ID'')
      | Some st \<Rightarrow>
          if unat shard_id \<ge> length (rq_shards st)
          then Inl (InvalidArgument ''Unknown request or shard ID'')
          else Inr (rq_shards st ! unat shard_id))"

section \<open>Interleavings\<close>

text \<open>Where a thread of the transport is after it left the critical section of its arrival.\<close>

datatype ArrivalThread =
    Submitting RequestId DecodePlan ShardSlots
  | Confirming RequestId
  | Rejecting RequestId
  | Cancelling RequestId

text \<open>The coordinator, the threads in flight, and the accepted tasks: a completion of any of them may come, early, late
  or more than once.\<close>

record Serving =
  sv_coordinator :: Coordinator
  sv_threads :: "ArrivalThread multiset"
  sv_tasks :: "(RequestId \<times> DecodePlan \<times> ShardSlots) set"

definition threads_of :: "RequestId \<Rightarrow> ArrivalOutcome \<Rightarrow> ArrivalThread multiset" where
  "threads_of r v =
     (case v of SubmitNext plan shards \<Rightarrow> {#Submitting r plan shards#} | CancelNext \<Rightarrow> {#Cancelling r#} | _ \<Rightarrow> {#})"

datatype ServingEvent =
    Started RequestId
  | Arrived RequestId ShardId WordShard ArrivalOutcome
  | SubmitCalled RequestId DecodePlan ShardSlots
  | CancelCalled RequestId
  | Settled RequestId
  | CompletionCalled RequestId RecoveryTaskResult

text \<open>
  The executor may accept, refuse or throw on a submission; a completion is truthful, which is what
  \<open>executor_completes_once\<close> shows of the CUDA executor.
\<close>

inductive serve_step :: "Serving \<Rightarrow> ServingEvent \<Rightarrow> Serving \<Rightarrow> bool" where
  start_request: "StartRequest r oracle (sv_coordinator sv) = Inr co \<Longrightarrow>
     serve_step sv (Started r) (sv\<lparr>sv_coordinator := co\<rparr>)"
| arrival: "OnShardArrived stage_threw estimate planning r i payload t (sv_coordinator sv) = (co, v) \<Longrightarrow>
     serve_step sv (Arrived r i payload v) (sv\<lparr>sv_coordinator := co, sv_threads := sv_threads sv + threads_of r v\<rparr>)"
| accepted: "Submitting r plan shards \<in># sv_threads sv \<Longrightarrow>
     serve_step sv (SubmitCalled r plan shards)
       (sv\<lparr>sv_threads := sv_threads sv - {#Submitting r plan shards#} + {#Confirming r#},
           sv_tasks := insert (r, plan, shards) (sv_tasks sv)\<rparr>)"
| refused: "Submitting r plan shards \<in># sv_threads sv \<Longrightarrow>
     serve_step sv (SubmitCalled r plan shards)
       (sv\<lparr>sv_threads := sv_threads sv - {#Submitting r plan shards#} + {#Rejecting r#}\<rparr>)"
| submit_threw: "Submitting r plan shards \<in># sv_threads sv \<Longrightarrow>
     serve_step sv (SubmitCalled r plan shards) (sv\<lparr>sv_threads := sv_threads sv - {#Submitting r plan shards#}\<rparr>)"
| confirm: "Confirming r \<in># sv_threads sv \<Longrightarrow>
     serve_step sv (Settled r) (sv\<lparr>sv_threads := sv_threads sv - {#Confirming r#} +
       (if CompletedNaturally r (sv_coordinator sv) then {#Cancelling r#} else {#})\<rparr>)"
| reject: "Rejecting r \<in># sv_threads sv \<Longrightarrow>
     serve_step sv (Settled r) (sv\<lparr>sv_threads := sv_threads sv - {#Rejecting r#},
       sv_coordinator := RejectRecovery r (sv_coordinator sv)\<rparr>)"
| cancel: "Cancelling r \<in># sv_threads sv \<Longrightarrow>
     serve_step sv (CancelCalled r) (sv\<lparr>sv_threads := sv_threads sv - {#Cancelling r#}\<rparr>)"
| complete: "(r, plan, shards) \<in> sv_tasks sv \<Longrightarrow> outcome plan shards result \<Longrightarrow>
     serve_step sv (CompletionCalled r result)
       (sv\<lparr>sv_coordinator := OnRecoveryComplete r result (sv_coordinator sv)\<rparr>)"

inductive serve_trace :: "Serving \<Rightarrow> ServingEvent list \<Rightarrow> Serving \<Rightarrow> bool" where
  begin_trace: "serve_trace sv [] sv"
| extend_trace: "serve_trace sv evs sv' \<Longrightarrow> serve_step sv' ev sv'' \<Longrightarrow> serve_trace sv (evs @ [ev]) sv''"

definition Serving_new :: "Coordinator \<Rightarrow> Serving" where
  "Serving_new co = \<lparr>sv_coordinator = AttachTransport co, sv_threads = {#}, sv_tasks = {}\<rparr>"

inductive_cases serve_stepE: "serve_step sv ev sv'"

section \<open>What one arrival does\<close>

lemma consider_recovery_plan_frame:
  assumes "consider_recovery_plan g estimate planning r t st = (st', v)"
  shows "rq_shards st' = rq_shards st" "rq_tracker st' = rq_tracker st"
    "sn_status (rq_snapshot st') = sn_status (rq_snapshot st)" "rq_word_count st' = rq_word_count st"
    "sn_recovery_submitted (rq_snapshot st') \<longleftrightarrow> sn_recovery_submitted (rq_snapshot st) \<or> (\<exists>plan shards. v = SubmitNext plan shards)"
    "rq_recovery_closed st \<Longrightarrow> rq_recovery_closed st'" "v \<noteq> CancelNext"
  using assms
  by (auto simp: consider_recovery_plan_def Let_def
      split: sum.splits if_splits option.splits PolicyDecision.splits)

lemma consider_recovery_plan_submits:
  assumes "consider_recovery_plan g estimate planning r t st = (st', SubmitNext plan shards)"
  shows "bindE (arrived_parities (rq_tracker st) g) (CreatePlan g (GetMissingSystematic (rq_tracker st))) = Inr plan"
    "is_recoverable plan" "shards = rq_shards st"
  using assms
  by (auto simp: consider_recovery_plan_def Let_def
      split: sum.splits if_splits option.splits PolicyDecision.splits)

text \<open>A recorded arrival: the state with the shard stored and marked.\<close>

definition record_arrival :: "ShardId \<Rightarrow> WordShard \<Rightarrow> ShardArrivalTracker \<Rightarrow> RequestState \<Rightarrow> RequestState" where
  "record_arrival i payload tracker st =
     st\<lparr>rq_word_count := length payload, rq_shards := (rq_shards st)[unat i := Some payload], rq_tracker := tracker\<rparr>"

lemma record_arrival_simps [simp]:
  "rq_shards (record_arrival i payload tracker st) = (rq_shards st)[unat i := Some payload]"
  "rq_tracker (record_arrival i payload tracker st) = tracker"
  "rq_snapshot (record_arrival i payload tracker st) = rq_snapshot st"
  "rq_recovery_closed (record_arrival i payload tracker st) = rq_recovery_closed st"
  by (simp_all add: record_arrival_def)

text \<open>The branches of the critical section.\<close>

lemma arrival_section_cases:
  assumes "arrival_section g stage_threw estimate planning r i payload t st = (st', v)"
  obtains (late) "IsTerminal (sn_status (rq_snapshot st))" "v = Returned"
      "st' = st\<lparr>rq_snapshot := (rq_snapshot st)\<lparr>sn_late_arrivals := sn_late_arrivals (rq_snapshot st) + 1\<rparr>\<rparr>"
    | (threw) e where "sn_status (rq_snapshot st) = Pending" "v = Threw e" "st' = st \<or> st' = st\<lparr>rq_word_count := length payload\<rparr>"
    | (repeated) "sn_status (rq_snapshot st) = Pending" "v = Returned" "unat i < length (rq_shards st)"
      "rq_shards st ! unat i \<noteq> None" "st' = st\<lparr>rq_word_count := length payload\<rparr>"
    | (unmarked) e where "sn_status (rq_snapshot st) = Pending" "v = Threw e" "MarkArrived i t (rq_tracker st) = Inl e"
      "unat i < length (rq_shards st)"
      "st' = st\<lparr>rq_word_count := length payload, rq_shards := (rq_shards st)[unat i := Some payload]\<rparr>"
    | (finished) tracker where "sn_status (rq_snapshot st) = Pending" "v = CancelNext" "unat i < length (rq_shards st)"
      "rq_shards st ! unat i = None" "payload \<noteq> []" "MarkArrived i t (rq_tracker st) = Inr tracker" "IsSystematicComplete tracker"
      "st' = (record_arrival i payload tracker st)\<lparr>rq_snapshot := (rq_snapshot st)\<lparr>sn_status := NaturalComplete\<rparr>\<rparr>"
    | (planning) tracker where "sn_status (rq_snapshot st) = Pending" "unat i < length (rq_shards st)"
      "rq_shards st ! unat i = None" "payload \<noteq> []" "MarkArrived i t (rq_tracker st) = Inr tracker" "\<not> IsSystematicComplete tracker"
      "\<not> rq_recovery_closed st" "\<not> sn_recovery_submitted (rq_snapshot st)"
      "consider_recovery_plan g estimate planning r t (record_arrival i payload tracker st) = (st', v)"
    | (waiting) tracker where "sn_status (rq_snapshot st) = Pending" "v = Returned" "unat i < length (rq_shards st)"
      "rq_shards st ! unat i = None" "payload \<noteq> []" "MarkArrived i t (rq_tracker st) = Inr tracker" "\<not> IsSystematicComplete tracker"
      "rq_recovery_closed st \<or> sn_recovery_submitted (rq_snapshot st)"
      "st' = record_arrival i payload tracker st"
proof (cases "IsTerminal (sn_status (rq_snapshot st))")
  case True
  then show thesis using assms late by (simp add: arrival_section_def Let_def)
next
  case False
  then have pending: "sn_status (rq_snapshot st) = Pending" by (simp add: IsTerminal_def)
  show thesis
  proof (cases "unat i \<ge> length (rq_shards st) \<or> payload = [] \<or> rq_word_count st \<noteq> 0 \<and> rq_word_count st \<noteq> length payload")
    case True
    then show thesis using assms False pending threw by (auto simp: arrival_section_def Let_def split: if_splits)
  next
    case ok: False
    show thesis
    proof (cases "rq_shards st ! unat i \<noteq> None")
      case True
      then show thesis using assms False pending ok repeated by (auto simp: arrival_section_def Let_def)
    next
      case None: False
      show thesis
      proof (cases stage_threw)
        case (Some e)
        then show thesis using assms False pending ok None threw by (auto simp: arrival_section_def Let_def)
      next
        case staged: None
        show thesis
        proof (cases "MarkArrived i t (rq_tracker st)")
          case (Inl e)
          then show thesis using assms False pending ok None staged unmarked by (auto simp: arrival_section_def Let_def)
        next
          case (Inr tracker)
          consider "IsSystematicComplete tracker"
            | "\<not> IsSystematicComplete tracker" "\<not> rq_recovery_closed st" "\<not> sn_recovery_submitted (rq_snapshot st)"
            | "\<not> IsSystematicComplete tracker" "rq_recovery_closed st \<or> sn_recovery_submitted (rq_snapshot st)"
            by blast
          then show thesis
          proof cases
            case 1
            then show thesis using assms False pending ok None staged Inr finished [of tracker]
              by (auto simp: arrival_section_def Let_def record_arrival_def)
          next
            case 2
            then show thesis using assms False pending ok None staged Inr planning [of tracker]
              by (auto simp: arrival_section_def Let_def record_arrival_def)
          next
            case 3
            then show thesis using assms False pending ok None staged Inr waiting [of tracker]
              by (auto simp: arrival_section_def Let_def record_arrival_def)
          qed
        qed
      qed
    qed
  qed
qed

lemma arrival_flags:
  assumes "arrival_section g stage_threw estimate planning r i payload t st = (st', v)"
  shows "rq_recovery_closed st \<Longrightarrow> rq_recovery_closed st'"
    "sn_recovery_submitted (rq_snapshot st') \<longleftrightarrow> sn_recovery_submitted (rq_snapshot st) \<or> (\<exists>plan shards. v = SubmitNext plan shards)"
    "v = SubmitNext plan shards \<Longrightarrow> \<not> rq_recovery_closed st \<and> \<not> sn_recovery_submitted (rq_snapshot st)"
proof -
  have "(rq_recovery_closed st \<longrightarrow> rq_recovery_closed st') \<and>
    (sn_recovery_submitted (rq_snapshot st') \<longleftrightarrow> sn_recovery_submitted (rq_snapshot st) \<or> (\<exists>plan shards. v = SubmitNext plan shards)) \<and>
    (v = SubmitNext plan shards \<longrightarrow> \<not> rq_recovery_closed st \<and> \<not> sn_recovery_submitted (rq_snapshot st))"
    using assms
  proof (cases rule: arrival_section_cases)
    case (planning tracker)
    then show ?thesis using consider_recovery_plan_frame [OF planning(9)] by simp
  qed auto
  then show "rq_recovery_closed st \<Longrightarrow> rq_recovery_closed st'"
    "sn_recovery_submitted (rq_snapshot st') \<longleftrightarrow> sn_recovery_submitted (rq_snapshot st) \<or> (\<exists>plan shards. v = SubmitNext plan shards)"
    "v = SubmitNext plan shards \<Longrightarrow> \<not> rq_recovery_closed st \<and> \<not> sn_recovery_submitted (rq_snapshot st)"
    by blast+
qed

section \<open>Terminal states are final\<close>

definition request_of :: "RequestId \<Rightarrow> Serving \<Rightarrow> RequestState option" where
  "request_of r sv = co_requests (sv_coordinator sv) r"

definition same_outcome :: "RequestState \<Rightarrow> RequestState \<Rightarrow> bool" where
  "same_outcome st st' \<longleftrightarrow> sn_status (rq_snapshot st') = sn_status (rq_snapshot st) \<and>
     sn_error (rq_snapshot st') = sn_error (rq_snapshot st) \<and> rq_shards st' = rq_shards st"

lemma serve_step_terminal:
  assumes "serve_step sv ev sv'" "request_of r sv = Some st" "IsTerminal (sn_status (rq_snapshot st))"
  shows "\<exists>st'. request_of r sv' = Some st' \<and> same_outcome st st'"
  using assms(1)
proof cases
  case (start_request q orc co)
  then have "q \<noteq> r" using assms(2)
    by (auto simp: StartRequest_def request_of_def bindE_eq_Inr split: option.splits if_splits)
  then show ?thesis
    using assms(2) start_request
    by (auto simp: StartRequest_def request_of_def same_outcome_def bindE_eq_Inr split: option.splits if_splits)
next
  case (arrival stage_threw estimate planning q i payload t co v)
  then show ?thesis
    using assms(2,3)
    by (cases "q = r") (auto simp: OnShardArrived_def request_of_def same_outcome_def arrival_section_def Let_def
        split: option.splits prod.splits)
next
  case (reject q)
  then show ?thesis
    using assms(2,3) by (auto simp: RejectRecovery_def request_of_def same_outcome_def split: option.splits)
next
  case (complete q plan shards result)
  then show ?thesis
    using assms(2,3) by (auto simp: OnRecoveryComplete_def request_of_def same_outcome_def split: option.splits)
qed (use assms(2) in \<open>simp_all add: request_of_def same_outcome_def\<close>)

lemma serve_trace_terminal:
  assumes "serve_trace sv evs sv'" "request_of r sv = Some st" "IsTerminal (sn_status (rq_snapshot st))"
  shows "\<exists>st'. request_of r sv' = Some st' \<and> same_outcome st st'"
  using assms
proof (induction rule: serve_trace.induct)
  case (begin_trace sv)
  then show ?case by (simp add: same_outcome_def)
next
  case (extend_trace sv evs sv' ev sv'')
  then obtain st' where st': "request_of r sv' = Some st'" "same_outcome st st'" by blast
  then have "IsTerminal (sn_status (rq_snapshot st'))" using extend_trace.prems(2) by (simp add: same_outcome_def)
  from serve_step_terminal [OF extend_trace.hyps(2) st'(1) this] st'(2) show ?case
    by (auto simp: same_outcome_def)
qed

section \<open>One submission per request\<close>

fun is_submitting :: "RequestId \<Rightarrow> ArrivalThread \<Rightarrow> bool" where
  "is_submitting r (Submitting q plan shards) = (q = r)"
| "is_submitting r _ = False"

fun is_submit_call :: "RequestId \<Rightarrow> ServingEvent \<Rightarrow> bool" where
  "is_submit_call r (SubmitCalled q plan shards) = (q = r)"
| "is_submit_call r _ = False"

definition submit_calls :: "RequestId \<Rightarrow> ServingEvent list \<Rightarrow> nat" where
  "submit_calls r evs = length (filter (is_submit_call r) evs)"

definition submit_attempts :: "RequestId \<Rightarrow> ServingEvent list \<Rightarrow> Serving \<Rightarrow> nat" where
  "submit_attempts r evs sv = submit_calls r evs + size (filter_mset (is_submitting r) (sv_threads sv))"

text \<open>The request has used its only attempt.\<close>

definition attempted :: "RequestId \<Rightarrow> Serving \<Rightarrow> bool" where
  "attempted r sv \<longleftrightarrow> (\<exists>st. request_of r sv = Some st \<and>
     (sn_recovery_submitted (rq_snapshot st) \<or> rq_recovery_closed st))"

lemma submit_calls_snoc [simp]:
  "submit_calls r [] = 0" "submit_calls r (evs @ [ev]) = submit_calls r evs + of_bool (is_submit_call r ev)"
  by (simp_all add: submit_calls_def)

lemma filter_submitting_diff:
  "x \<in># T \<Longrightarrow> size (filter_mset (is_submitting r) (T - {#x#})) + of_bool (is_submitting r x)
    = size (filter_mset (is_submitting r) T)"
  by (auto simp: size_Diff_singleton_if multiset_eq_iff dest!: multi_member_split)

lemma attempts_frame:
  assumes "submit_attempts r evs' sv' = submit_attempts r evs sv" "attempted r sv \<longrightarrow> attempted r sv'"
    and "submit_attempts r evs sv \<le> of_bool (attempted r sv)"
  shows "submit_attempts r evs' sv' \<le> of_bool (attempted r sv')"
  using assms by (cases "attempted r sv") auto

lemma serve_step_attempts:
  assumes "serve_step sv ev sv'" "submit_attempts r evs sv \<le> of_bool (attempted r sv)"
  shows "submit_attempts r (evs @ [ev]) sv' \<le> of_bool (attempted r sv')"
  using assms(1)
proof cases
  case (start_request q orc co)
  then have "attempted r sv \<longrightarrow> attempted r sv'"
    by (auto simp: attempted_def request_of_def StartRequest_def bindE_eq_Inr split: option.splits if_splits)
  moreover have "submit_attempts r (evs @ [ev]) sv' = submit_attempts r evs sv"
    using start_request by (simp add: submit_attempts_def)
  ultimately show ?thesis using attempts_frame assms(2) by blast
next
  case (arrival stage_threw estimate planning q i payload t co v)
  show ?thesis
  proof (cases "request_of q sv")
    case None
    then have "co = sv_coordinator sv" "threads_of q v = {#}"
      using arrival(3) by (auto simp: OnShardArrived_def request_of_def threads_of_def)
    then show ?thesis using assms(2) arrival(1,2) by (simp add: submit_attempts_def attempted_def request_of_def)
  next
    case (Some st)
    obtain st' where a: "arrival_section (co_graph (sv_coordinator sv)) stage_threw estimate planning q i payload t st = (st', v)"
        "co = (sv_coordinator sv)\<lparr>co_requests := (co_requests (sv_coordinator sv))(q \<mapsto> st')\<rparr>"
      using arrival(3) Some by (auto simp: OnShardArrived_def request_of_def split: prod.splits)
    note flags = arrival_flags [OF a(1)]
    have mono: "attempted r sv \<longrightarrow> attempted r sv'"
      using Some flags(1,2) arrival(2) a(2) by (auto simp: attempted_def request_of_def)
    show ?thesis
    proof (cases "q = r \<and> (\<exists>plan shards. v = SubmitNext plan shards)")
      case True
      then obtain plan shards where v: "v = SubmitNext plan shards" by blast
      have "\<not> attempted r sv" using flags(3) [OF v] Some True by (simp add: attempted_def)
      moreover have "attempted r sv'"
        using flags(2) v True arrival(2) a(2) by (auto simp: attempted_def request_of_def)
      ultimately show ?thesis
        using assms(2) arrival(1,2) v True by (auto simp: submit_attempts_def threads_of_def split: if_splits)
    next
      case False
      then have "filter_mset (is_submitting r) (threads_of q v) = {#}"
        by (auto simp: threads_of_def split: ArrivalOutcome.splits)
      then have "submit_attempts r (evs @ [ev]) sv' = submit_attempts r evs sv"
        using arrival(1,2) by (simp add: submit_attempts_def)
      then show ?thesis using attempts_frame mono assms(2) by blast
    qed
  qed
next
  case (accepted q plan shards)
  then show ?thesis
    using assms(2) filter_submitting_diff [OF accepted(3), of r] by (auto simp: submit_attempts_def attempted_def request_of_def)
next
  case (refused q plan shards)
  then show ?thesis
    using assms(2) filter_submitting_diff [OF refused(3), of r] by (auto simp: submit_attempts_def attempted_def request_of_def)
next
  case (submit_threw q plan shards)
  then show ?thesis
    using assms(2) filter_submitting_diff [OF submit_threw(3), of r] by (auto simp: submit_attempts_def attempted_def request_of_def)
next
  case (confirm q)
  then show ?thesis
    using assms(2) filter_submitting_diff [OF confirm(3), of r] by (auto simp: submit_attempts_def attempted_def request_of_def)
next
  case (reject q)
  have "attempted r sv \<longrightarrow> attempted r sv'"
    using reject(2) by (auto simp: attempted_def request_of_def RejectRecovery_def split: option.splits)
  moreover have "submit_attempts r (evs @ [ev]) sv' = submit_attempts r evs sv"
    using reject(1,2) filter_submitting_diff [OF reject(3), of r] by (simp add: submit_attempts_def)
  ultimately show ?thesis using attempts_frame assms(2) by blast
next
  case (cancel q)
  then show ?thesis
    using assms(2) filter_submitting_diff [OF cancel(3), of r] by (auto simp: submit_attempts_def attempted_def request_of_def)
next
  case (complete q plan shards result)
  have "attempted r sv \<longrightarrow> attempted r sv'"
    using complete(2) by (auto simp: attempted_def request_of_def OnRecoveryComplete_def merge_result_def Let_def split: option.splits)
  moreover have "submit_attempts r (evs @ [ev]) sv' = submit_attempts r evs sv"
    using complete(1,2) by (simp add: submit_attempts_def)
  ultimately show ?thesis using attempts_frame assms(2) by blast
qed

lemma serve_trace_attempts:
  "serve_trace sv evs sv' \<Longrightarrow> submit_attempts r [] sv \<le> of_bool (attempted r sv) \<Longrightarrow>
    submit_attempts r evs sv' \<le> of_bool (attempted r sv')"
  by (induction rule: serve_trace.induct) (auto dest: serve_step_attempts)

section \<open>The shape of a request\<close>

definition present :: "ShardSlots \<Rightarrow> ShardId set" where
  "present shards = {i. slot shards i \<noteq> None}"

definition shard_count :: "BipartiteGraph \<Rightarrow> nat" where
  "shard_count g = systematic_shard_count g + parity_shard_count g"

definition request_shape :: "BipartiteGraph \<Rightarrow> RequestState \<Rightarrow> bool" where
  "request_shape g st \<longleftrightarrow> tracker_for g (rq_tracker st) \<and> length (rq_shards st) = shard_count g \<and>
     (sn_status (rq_snapshot st) = Pending \<longrightarrow> arrived (rq_tracker st) = present (rq_shards st) \<and>
        missing_shards g (present (rq_shards st)) \<noteq> {}) \<and>
     (sn_status (rq_snapshot st) = NaturalComplete \<longrightarrow> missing_shards g (present (rq_shards st)) = {})"

definition task_shape :: "BipartiteGraph \<Rightarrow> DecodePlan \<Rightarrow> ShardSlots \<Rightarrow> bool" where
  "task_shape g plan shards \<longleftrightarrow> length shards = shard_count g \<and> is_recoverable plan \<and>
     CreatePlan g (missing_shards g (present shards)) (available_parities g (present shards)) = Inr plan"

definition serving_shape :: "BipartiteGraph \<Rightarrow> Serving \<Rightarrow> bool" where
  "serving_shape g sv \<longleftrightarrow> co_graph (sv_coordinator sv) = g \<and>
     (\<forall>r st. request_of r sv = Some st \<longrightarrow> request_shape g st) \<and>
     (\<forall>r plan shards. Submitting r plan shards \<in># sv_threads sv \<or> (r, plan, shards) \<in> sv_tasks sv \<longrightarrow> task_shape g plan shards)"

lemma present_update:
  "unat i < length shards \<Longrightarrow> present (shards[unat i := Some w]) = insert i (present shards)"
  by (auto simp: present_def slot_update)

lemma arrived_parities_arrived:
  assumes "graph_ok g" "tracker_for g tr"
  shows "bindE (arrived_parities tr g) (CreatePlan g (GetMissingSystematic tr))
    = CreatePlan g (missing_shards g (arrived tr)) (available_parities g (arrived tr))"
proof -
  have "RecoveryPolicy_CreatePlan g tr = bindE (arrived_parities tr g) (CreatePlan g (GetMissingSystematic tr))"
    using assms(2) by (simp add: RecoveryPolicy_CreatePlan_def tracker_for_def)
  then show ?thesis
    using RecoveryPolicy_CreatePlan_eq [OF assms(1)] assms(2) GetMissingSystematic_arrived [OF assms(2)]
      arrived_parity_set_arrived [of g tr]
    by (simp add: tracker_for_def)
qed

lemma MarkArrived_tracker:
  assumes "tracker_for g tr" "MarkArrived i t tr = Inr tr'"
  shows "tracker_for g tr'" "arrived tr' = insert i (arrived tr)"
  using assms MarkArrived_Inr [OF assms(2)] by (auto simp: tracker_for_def tracker_ok_def arrived_def)

lemma MarkArrived_ok:
  assumes "request_shape g st" "unat i < length (rq_shards st)"
  shows "\<exists>tr. MarkArrived i t (rq_tracker st) = Inr tr"
  using assms MarkArrived_succeeds [of i "rq_tracker st" t]
  by (simp add: request_shape_def tracker_for_def tracker_ok_def shard_count_def)

lemma recorded_shape:
  assumes "request_shape g st" "sn_status (rq_snapshot st) = Pending" "unat i < length (rq_shards st)"
    and "MarkArrived i t (rq_tracker st) = Inr tracker"
  shows "tracker_for g tracker" "arrived tracker = present (rq_shards (record_arrival i payload tracker st))"
    "length (rq_shards (record_arrival i payload tracker st)) = shard_count g"
    "IsSystematicComplete tracker \<longleftrightarrow> missing_shards g (present (rq_shards (record_arrival i payload tracker st))) = {}"
proof -
  have st: "tracker_for g (rq_tracker st)" "arrived (rq_tracker st) = present (rq_shards st)"
      "length (rq_shards st) = shard_count g"
    using assms(1,2) by (simp_all add: request_shape_def)
  note m = MarkArrived_tracker [OF st(1) assms(4)]
  show "tracker_for g tracker" by (rule m(1))
  show a: "arrived tracker = present (rq_shards (record_arrival i payload tracker st))"
    using m(2) st(2) present_update [OF assms(3)] by simp
  show "length (rq_shards (record_arrival i payload tracker st)) = shard_count g" using st(3) by simp
  show "IsSystematicComplete tracker \<longleftrightarrow> missing_shards g (present (rq_shards (record_arrival i payload tracker st))) = {}"
    using IsSystematicComplete_arrived [OF m(1)] a by simp
qed

lemma arrival_shape:
  assumes g: "graph_ok g" and sh: "request_shape g st"
    and a: "arrival_section g stage_threw estimate planning r i payload t st = (st', v)"
  shows "request_shape g st'" "v = SubmitNext plan shards \<Longrightarrow> task_shape g plan shards \<and> shards = rq_shards st'"
proof -
  have "request_shape g st' \<and> (v = SubmitNext plan shards \<longrightarrow> task_shape g plan shards \<and> shards = rq_shards st')"
    using a
  proof (cases rule: arrival_section_cases)
    case late
    then show ?thesis using sh by (auto simp: request_shape_def)
  next
    case (threw e)
    then show ?thesis using sh by (auto simp: request_shape_def)
  next
    case repeated
    then show ?thesis using sh by (auto simp: request_shape_def)
  next
    case (unmarked e)
    then show ?thesis using MarkArrived_ok [OF sh unmarked(4), of t] by simp
  next
    case (finished tracker)
    note rec = recorded_shape [OF sh finished(1,3,6)]
    then show ?thesis using finished(2,7,8) by (simp add: request_shape_def)
  next
    case (planning tracker)
    note rec = recorded_shape [OF sh planning(1,2,5)]
    note frame = consider_recovery_plan_frame [OF planning(9)]
    have shape: "request_shape g st'"
      using rec frame planning(1,6) by (simp add: request_shape_def)
    moreover have "task_shape g plan shards \<and> shards = rq_shards st'" if v: "v = SubmitNext plan shards"
    proof -
      note s = consider_recovery_plan_submits [OF planning(9) [unfolded v]]
      show ?thesis
        using s rec frame(1) arrived_parities_arrived [OF g rec(1)] by (simp add: task_shape_def)
    qed
    ultimately show ?thesis by blast
  next
    case (waiting tracker)
    note rec = recorded_shape [OF sh waiting(1,3,6)]
    then show ?thesis using waiting(1,2,7,9) by (simp add: request_shape_def)
  qed
  then show "request_shape g st'" "v = SubmitNext plan shards \<Longrightarrow> task_shape g plan shards \<and> shards = rq_shards st'"
    by blast+
qed

lemma RequestState_new_shape:
  assumes "graph_ok g" "RequestState_new (systematic_shard_count g) (parity_shard_count g) wait = Inr st"
  shows "request_shape g st" "rq_shards st = replicate (shard_count g) None"
proof -
  obtain tr where tr: "ShardArrivalTracker_new (systematic_shard_count g) (parity_shard_count g) = Inr tr"
      "tracker_for g tr" "arrived tr = {}"
    using tracker_for_new [OF assms(1)] by blast
  have st: "rq_tracker st = tr" "rq_shards st = replicate (shard_count g) None" "sn_status (rq_snapshot st) = Pending"
    using assms(2) tr(1) by (auto simp: RequestState_new_def shard_count_def)
  have "present (replicate (shard_count g) None) = {}" by (auto simp: present_def slot_def)
  moreover have "0 \<in> missing_shards g {}" using assms(1) by (simp add: missing_shards_def graph_ok_def)
  ultimately show "request_shape g st" using st tr by (auto simp: request_shape_def)
  show "rq_shards st = replicate (shard_count g) None" by (rule st(2))
qed

lemma StartRequest_cases:
  assumes "StartRequest r orc co = Inr co'"
  obtains wait st where "co_requests co r = None" "co_transport co"
    "RequestState_new (systematic_shard_count (co_graph co)) (parity_shard_count (co_graph co)) wait = Inr st"
    "co' = co\<lparr>co_requests := (co_requests co)(r \<mapsto> st)\<rparr>"
  using assms by (auto simp: StartRequest_def bindE_eq_Inr split: option.splits if_splits)

lemma execute_decode_plan_cpu_length:
  "execute_decode_plan_cpu plan shards = (shards', err) \<Longrightarrow> length shards' = length shards"
  using execute_operations_frame [of "operations plan" shards]
  by (auto simp: execute_decode_plan_cpu_def split: sum.splits)

lemma merge_result_shape:
  assumes "request_shape g st" "task_shape g plan shards" "outcome plan shards result"
  shows "request_shape g (merge_result result st)"
  using assms execute_decode_plan_cpu_length [of plan shards "rt_shards result" None]
  by (auto simp: request_shape_def merge_result_def task_shape_def outcome_def Let_def)

lemma serve_step_shape:
  assumes g: "graph_ok g" and step: "serve_step sv ev sv'" and inv: "serving_shape g sv"
  shows "serving_shape g sv'"
  using step
proof cases
  case (start_request q orc co)
  from start_request(3) obtain wait st where s:
    "RequestState_new (systematic_shard_count (co_graph (sv_coordinator sv))) (parity_shard_count (co_graph (sv_coordinator sv))) wait = Inr st"
    "co = (sv_coordinator sv)\<lparr>co_requests := (co_requests (sv_coordinator sv))(q \<mapsto> st)\<rparr>"
    by (rule StartRequest_cases)
  have "request_shape g st" using RequestState_new_shape(1) [OF g] s(1) inv by (simp add: serving_shape_def)
  then show ?thesis using inv start_request(2) s(2) by (auto simp: serving_shape_def request_of_def)
next
  case (arrival stage_threw estimate planning q i payload t co v)
  show ?thesis
  proof (cases "request_of q sv")
    case None
    then have "co = sv_coordinator sv" "threads_of q v = {#}"
      using arrival(3) by (auto simp: OnShardArrived_def request_of_def threads_of_def)
    then show ?thesis using inv arrival(2) by (simp add: serving_shape_def request_of_def)
  next
    case (Some st)
    obtain st' where a: "arrival_section (co_graph (sv_coordinator sv)) stage_threw estimate planning q i payload t st = (st', v)"
        "co = (sv_coordinator sv)\<lparr>co_requests := (co_requests (sv_coordinator sv))(q \<mapsto> st')\<rparr>"
      using arrival(3) Some by (auto simp: OnShardArrived_def request_of_def split: prod.splits)
    have sh: "request_shape g st" and gr: "co_graph (sv_coordinator sv) = g"
      using inv Some by (auto simp: serving_shape_def)
    note shape = arrival_shape [OF g sh a(1) [unfolded gr]]
    have "\<forall>plan shards. Submitting r plan shards \<in># threads_of q v \<longrightarrow> task_shape g plan shards" for r
      using shape(2) by (auto simp: threads_of_def split: ArrivalOutcome.splits)
    then show ?thesis
      using inv shape(1) arrival(2) a(2) by (auto simp: serving_shape_def request_of_def)
  qed
next
  case (reject q)
  have "request_shape g st'"
    if "request_of q sv = Some st" "rq_shards st' = rq_shards st" "rq_tracker st' = rq_tracker st"
      "sn_status (rq_snapshot st') = sn_status (rq_snapshot st)" for st st'
    using inv that by (auto simp: serving_shape_def request_shape_def)
  then show ?thesis
    using inv reject(2) by (auto simp: serving_shape_def request_of_def RejectRecovery_def dest: in_diffD split: option.splits)
next
  case (complete q plan shards result)
  have "task_shape g plan shards" using inv complete(3) by (auto simp: serving_shape_def)
  then have "request_shape g (merge_result result st)" if "request_of q sv = Some st" for st
    using inv that merge_result_shape complete(4) by (auto simp: serving_shape_def)
  then show ?thesis
    using inv complete(2) by (auto simp: serving_shape_def request_of_def OnRecoveryComplete_def dest: in_diffD split: option.splits)
qed (use inv in \<open>auto simp: serving_shape_def request_of_def dest: in_diffD split: if_splits\<close>)

lemma serving_shape_new:
  assumes "RecoveryCoordinator_new g b = Inr co" "omap_ok (parity_to_systematic g)"
  shows "graph_ok g" "serving_shape g (Serving_new co)"
proof -
  obtain g' where p: "RecoveryPolicy_new g = Inr g'"
      "co = \<lparr>co_graph = g, co_transport = False, co_requests = Map.empty\<rparr>"
    using assms(1) by (auto simp: RecoveryCoordinator_new_def bindE_eq_Inr split: if_splits)
  then show "graph_ok g" using RecoveryPolicy_new_Inr [OF assms(2)] by blast
  show "serving_shape g (Serving_new co)"
    by (simp add: p(2) Serving_new_def AttachTransport_def serving_shape_def request_of_def)
qed

lemma serve_trace_shape:
  "serve_trace sv evs sv' \<Longrightarrow> graph_ok g \<Longrightarrow> serving_shape g sv \<Longrightarrow> serving_shape g sv'"
  by (induction rule: serve_trace.induct) (auto intro: serve_step_shape)

end
