(* ===== verification/CoordinatorRuns.thy ===== *)
theory CoordinatorRuns imports Coordinator begin

text \<open>
  The runs of the coordinator: the shards of a request are the ones of the codeword the transport delivers
  from, and no delivered shard is forgotten; then the properties of the coordinator.
\<close>


section \<open>The shards of a request are the right ones\<close>

text \<open>\<open>val\<close> is the codeword that the transport delivers the shards of a request from.\<close>

definition request_exact :: "BipartiteGraph \<Rightarrow> (ShardId \<Rightarrow> WordShard) \<Rightarrow> RequestState \<Rightarrow> bool" where
  "request_exact g val st \<longleftrightarrow> agrees val (rq_shards st) \<and>
     (sn_status (rq_snapshot st) = Recovered \<longrightarrow> missing_shards g (present (rq_shards st)) = {})"

definition serving_exact :: "BipartiteGraph \<Rightarrow> RequestId \<Rightarrow> (ShardId \<Rightarrow> WordShard) \<Rightarrow> Serving \<Rightarrow> bool" where
  "serving_exact g r val sv \<longleftrightarrow> (\<forall>st. request_of r sv = Some st \<longrightarrow> request_exact g val st) \<and>
     (\<forall>plan shards. Submitting r plan shards \<in># sv_threads sv \<or> (r, plan, shards) \<in> sv_tasks sv \<longrightarrow> agrees val shards)"

lemma agrees_update: "agrees val shards \<Longrightarrow> unat i < length shards \<Longrightarrow> agrees val (shards[unat i := Some (val i)])"
  by (auto simp: agrees_def slot_update)

lemma arrival_exact:
  assumes "request_exact g val st" "payload = val i"
    and a: "arrival_section g stage_threw estimate planning r i payload t st = (st', v)"
  shows "request_exact g val st'"
  using a
proof (cases rule: arrival_section_cases)
  case (planning tracker)
  then show ?thesis
    using consider_recovery_plan_frame [OF planning(9)] assms(1,2) agrees_update by (simp add: request_exact_def)
qed (use assms(1,2) agrees_update in \<open>auto simp: request_exact_def\<close>)

text \<open>A truthful success of a planned task holds every systematic shard, with its value.\<close>

lemma task_recovers:
  assumes g: "graph_ok g" and task: "task_shape g plan shards" "agrees val shards"
    and cw: "codeword (parity_to_systematic g) n val" "0 < n"
    and res: "outcome plan shards result" "rt_success result"
  shows "agrees val (rt_shards result)" "missing_shards g (present (rt_shards result)) = {}"
proof -
  let ?M = "missing_shards g (present shards)"
  have len: "length shards = shard_count g" using task(1) by (simp add: task_shape_def)
  have "holds_all_but ?M (parity_to_systematic g) (available_parities g (present shards)) shards"
    unfolding holds_all_but_def
  proof (intro conjI ballI, goal_cases)
    case (1 i)
    then show ?case using len by (simp add: missing_shards_def shard_count_def)
  next
    case (2 i)
    then show ?case by (simp add: missing_shards_def present_def)
  next
    case (3 e)
    obtain p ns where e: "e = (p, ns)" by (cases e)
    have "unat s < systematic_shard_count g" if "s \<in> set ns" for s
      using graph_okD(3) [OF g, of p ns] 3 e that by blast
    then show ?case using e by (auto simp: available_parities_def present_def missing_shards_def)
  qed
  from cpu_recovery.recovers_codeword [OF g _ _ cw task(2) this, of plan] task(1)
  obtain shards' where s: "execute_decode_plan_cpu plan shards = (shards', None)"
      "\<forall>i. slot shards' i = (if i \<in> ?M then Some (val i) else slot shards i)"
    by (auto simp: task_shape_def)
  then have r: "rt_shards result = shards'" using res by (auto simp: outcome_def)
  show "agrees val (rt_shards result)" using s(2) task(2) r by (auto simp: agrees_def split: if_splits)
  show "missing_shards g (present (rt_shards result)) = {}"
    using s(2) r by (auto simp: missing_shards_def present_def)
qed

lemma serve_step_exact:
  assumes g: "graph_ok g" and step: "serve_step sv ev sv'" and shape: "serving_shape g sv" and inv: "serving_exact g r val sv"
    and cw: "codeword (parity_to_systematic g) n val" "0 < n"
    and payload: "\<forall>i payload v. ev = Arrived r i payload v \<longrightarrow> payload = val i"
  shows "serving_exact g r val sv'"
  using step
proof cases
  case (start_request q orc co)
  from start_request(3) obtain wait st where s:
    "RequestState_new (systematic_shard_count (co_graph (sv_coordinator sv))) (parity_shard_count (co_graph (sv_coordinator sv))) wait = Inr st"
    "co = (sv_coordinator sv)\<lparr>co_requests := (co_requests (sv_coordinator sv))(q \<mapsto> st)\<rparr>"
    by (rule StartRequest_cases)
  have "rq_shards st = replicate (shard_count g) None" "sn_status (rq_snapshot st) = Pending"
    using RequestState_new_shape(2) [OF g] s(1) shape
    by (auto simp: serving_shape_def RequestState_new_def bindE_eq_Inr)
  then have "request_exact g val st" by (auto simp: request_exact_def agrees_def slot_def)
  then show ?thesis using inv start_request(2) s(2) by (auto simp: serving_exact_def request_of_def)
next
  case (arrival stage_threw estimate planning q i payload t co v)
  show ?thesis
  proof (cases "request_of q sv")
    case None
    then have "co = sv_coordinator sv" "threads_of q v = {#}"
      using arrival(3) by (auto simp: OnShardArrived_def request_of_def threads_of_def)
    then show ?thesis using inv arrival(2) by (simp add: serving_exact_def request_of_def)
  next
    case (Some st)
    obtain st' where a: "arrival_section (co_graph (sv_coordinator sv)) stage_threw estimate planning q i payload t st = (st', v)"
        "co = (sv_coordinator sv)\<lparr>co_requests := (co_requests (sv_coordinator sv))(q \<mapsto> st')\<rparr>"
      using arrival(3) Some by (auto simp: OnShardArrived_def request_of_def split: prod.splits)
    have gr: "co_graph (sv_coordinator sv) = g" and sh: "request_shape g st"
      using shape Some by (auto simp: serving_shape_def)
    show ?thesis
    proof (cases "q = r")
      case True
      have "payload = val i" using payload arrival(1) True by blast
      moreover have "request_exact g val st" using inv Some True by (auto simp: serving_exact_def)
      ultimately have ex: "request_exact g val st'" using arrival_exact a(1) gr by metis
      then have "\<forall>plan shards. Submitting r plan shards \<in># threads_of q v \<longrightarrow> agrees val shards"
        using arrival_shape(2) [OF g sh a(1) [unfolded gr]]
        by (auto simp: threads_of_def request_exact_def split: ArrivalOutcome.splits)
      then show ?thesis
        using inv ex arrival(2) a(2) True by (auto simp: serving_exact_def request_of_def)
    next
      case False
      then have "\<forall>plan shards. Submitting r plan shards \<notin># threads_of q v"
        by (auto simp: threads_of_def split: ArrivalOutcome.splits)
      then show ?thesis using inv arrival(2) a(2) False by (auto simp: serving_exact_def request_of_def)
    qed
  qed
next
  case (reject q)
  then show ?thesis
    using inv by (auto simp: serving_exact_def request_of_def RejectRecovery_def request_exact_def dest: in_diffD
        split: option.splits if_splits)
next
  case (complete q plan shards result)
  have "request_exact g val (merge_result result st)" if st: "request_of r sv = Some st" "q = r" for st
  proof (cases "rt_success result")
    case True
    have "task_shape g plan shards" "agrees val shards"
      using shape inv complete(3) st(2) by (auto simp: serving_shape_def serving_exact_def)
    from task_recovers [OF g this cw complete(4) True] show ?thesis
      using True by (simp add: request_exact_def merge_result_def Let_def)
  next
    case False
    then show ?thesis using inv st(1) by (auto simp: serving_exact_def request_exact_def merge_result_def Let_def)
  qed
  then show ?thesis
    using inv complete(2)
    by (auto simp: serving_exact_def request_of_def OnRecoveryComplete_def dest: in_diffD split: option.splits if_splits)
qed (use inv in \<open>auto simp: serving_exact_def request_of_def dest: in_diffD split: if_splits\<close>)

lemma serve_trace_exact:
  assumes "serve_trace sv evs sv'" "graph_ok g" "serving_shape g sv" "serving_exact g r val sv"
    and "codeword (parity_to_systematic g) n val" "0 < n"
    and "\<forall>i payload v. Arrived r i payload v \<in> set evs \<longrightarrow> payload = val i"
  shows "serving_exact g r val sv'"
  using assms
proof (induction rule: serve_trace.induct)
  case (extend_trace sv evs sv' ev sv'')
  have old: "\<forall>i payload v. Arrived r i payload v \<in> set evs \<longrightarrow> payload = val i"
    and new: "\<forall>i payload v. ev = Arrived r i payload v \<longrightarrow> payload = val i"
    using extend_trace.prems(6) by auto
  have exact: "serving_exact g r val sv'" using extend_trace.IH extend_trace.prems(1-5) old by blast
  have shape: "serving_shape g sv'" using serve_trace_shape extend_trace.hyps(1) extend_trace.prems(1,2) by blast
  show ?case
    by (rule serve_step_exact [OF extend_trace.prems(1) extend_trace.hyps(2) shape exact extend_trace.prems(4,5) new])
qed simp

section \<open>Delivered shards are never forgotten\<close>

text \<open>While a request is pending, every arrival that did not throw is in its slots.\<close>

definition delivered :: "RequestId \<Rightarrow> ServingEvent list \<Rightarrow> ShardId set" where
  "delivered r evs = {i. \<exists>payload v. Arrived r i payload v \<in> set evs \<and> (\<forall>e. v \<noteq> Threw e)}"

definition serving_complete :: "RequestId \<Rightarrow> ServingEvent list \<Rightarrow> Serving \<Rightarrow> bool" where
  "serving_complete r evs sv \<longleftrightarrow> (request_of r sv = None \<longrightarrow> delivered r evs = {}) \<and>
     (\<forall>st. request_of r sv = Some st \<longrightarrow> sn_status (rq_snapshot st) = Pending \<longrightarrow> delivered r evs \<subseteq> present (rq_shards st))"

lemma delivered_snoc:
  "delivered r (evs @ [ev]) = delivered r evs \<union> {i. \<exists>payload v. ev = Arrived r i payload v \<and> (\<forall>e. v \<noteq> Threw e)}"
  by (auto simp: delivered_def)

lemma arrival_present:
  assumes "arrival_section g stage_threw estimate planning r i payload t st = (st', v)"
    and "sn_status (rq_snapshot st') = Pending"
  shows "sn_status (rq_snapshot st) = Pending" "present (rq_shards st) \<subseteq> present (rq_shards st')"
    "(\<forall>e. v \<noteq> Threw e) \<Longrightarrow> i \<in> present (rq_shards st')"
proof -
  have "sn_status (rq_snapshot st) = Pending \<and> present (rq_shards st) \<subseteq> present (rq_shards st') \<and>
      ((\<forall>e. v \<noteq> Threw e) \<longrightarrow> i \<in> present (rq_shards st'))"
    using assms(1)
  proof (cases rule: arrival_section_cases)
    case late
    then show ?thesis using assms(2) by (simp add: IsTerminal_def)
  next
    case (threw e)
    then show ?thesis by auto
  next
    case repeated
    then show ?thesis by (auto simp: present_def slot_def)
  next
    case (unmarked e)
    then show ?thesis by (auto simp: present_update)
  next
    case (finished tracker)
    then show ?thesis using assms(2) by simp
  next
    case (planning tracker)
    then show ?thesis using consider_recovery_plan_frame [OF planning(9)] by (auto simp: present_update)
  next
    case (waiting tracker)
    then show ?thesis by (auto simp: present_update)
  qed
  then show "sn_status (rq_snapshot st) = Pending" "present (rq_shards st) \<subseteq> present (rq_shards st')"
    "(\<forall>e. v \<noteq> Threw e) \<Longrightarrow> i \<in> present (rq_shards st')" by blast+
qed

lemma serve_step_complete:
  assumes step: "serve_step sv ev sv'" and inv: "serving_complete r evs sv"
  shows "serving_complete r (evs @ [ev]) sv'"
  using step
proof cases
  case (start_request q orc co)
  from start_request(3) obtain st where s: "request_of q sv = None"
    "co = (sv_coordinator sv)\<lparr>co_requests := (co_requests (sv_coordinator sv))(q \<mapsto> st)\<rparr>"
    by (rule StartRequest_cases) (auto simp: request_of_def)
  then show ?thesis
    using inv start_request(1,2) by (auto simp: serving_complete_def request_of_def delivered_snoc)
next
  case (arrival stage_threw estimate planning q i payload t co v)
  show ?thesis
  proof (cases "request_of q sv")
    case None
    then have "co = sv_coordinator sv" "\<exists>e. v = Threw e"
      using arrival(3) by (auto simp: OnShardArrived_def request_of_def)
    then show ?thesis using inv arrival(1,2) by (auto simp: serving_complete_def request_of_def delivered_snoc)
  next
    case (Some st)
    obtain st' where a: "arrival_section (co_graph (sv_coordinator sv)) stage_threw estimate planning q i payload t st = (st', v)"
        "co = (sv_coordinator sv)\<lparr>co_requests := (co_requests (sv_coordinator sv))(q \<mapsto> st')\<rparr>"
      using arrival(3) Some by (auto simp: OnShardArrived_def request_of_def split: prod.splits)
    note p = arrival_present [OF a(1)]
    show ?thesis
    proof (cases "q = r")
      case True
      have "delivered r (evs @ [ev]) \<subseteq> present (rq_shards st')" if "sn_status (rq_snapshot st') = Pending"
      proof -
        have "delivered r evs \<subseteq> present (rq_shards st)"
          using inv Some True p(1) [OF that] by (simp add: serving_complete_def)
        then show ?thesis using p(2,3) [OF that] arrival(1) True by (auto simp: delivered_snoc)
      qed
      then show ?thesis using arrival(2) a(2) True by (auto simp: serving_complete_def request_of_def)
    next
      case False
      then show ?thesis using inv arrival(1,2) a(2) by (auto simp: serving_complete_def request_of_def delivered_snoc)
    qed
  qed
next
  case (reject q)
  then show ?thesis
    using inv by (auto simp: serving_complete_def request_of_def RejectRecovery_def delivered_snoc split: option.splits if_splits)
next
  case (complete q plan shards result)
  have "sn_status (rq_snapshot (merge_result result st)) \<noteq> Pending" for st
    by (simp add: merge_result_def Let_def)
  then show ?thesis
    using inv complete(1,2)
    by (auto simp: serving_complete_def request_of_def OnRecoveryComplete_def delivered_snoc split: option.splits if_splits)
qed (use inv in \<open>auto simp: serving_complete_def request_of_def delivered_snoc split: if_splits\<close>)

lemma serve_trace_complete:
  "serve_trace sv evs sv' \<Longrightarrow> serving_complete r [] sv \<Longrightarrow> serving_complete r evs sv'"
  by (induction rule: serve_trace.induct) (auto intro: serve_step_complete)

section \<open>An example\<close>

text \<open>Request 7 over the example code, whose oracle always expects to wait 100.\<close>

definition example_val :: "ShardId \<Rightarrow> WordShard" where
  "example_val = shard_value [[5, 1], [3, 1], [4, 4]] [[6, 0], [7, 5]]"

definition example_request :: "ShardId list \<Rightarrow> bool \<Rightarrow> RequestState" where
  "example_request ids submitted =
     \<lparr>rq_tracker = \<lparr>tr_systematic = 3, tr_parity = 2,
        arrivals = map (\<lambda>i. if of_nat i \<in> set ids then Some 0 else None) [0..<5]\<rparr>,
      rq_shards = map (\<lambda>i. if of_nat i \<in> set ids then Some (example_val (of_nat i)) else None) [0..<5],
      rq_oracle = (\<lambda>r t. Inr 100),
      rq_snapshot = \<lparr>sn_status = Pending, sn_recovery_submitted = submitted, sn_recovery_rejected = False,
        sn_late_arrivals = 0, sn_metrics = zero_metrics, sn_error = None\<rparr>,
      rq_word_count = (if ids = [] then 0 else 2), rq_recovery_closed = False\<rparr>"

definition example_coordinator :: "RequestState option \<Rightarrow> Coordinator" where
  "example_coordinator st = \<lparr>co_graph = example_graph, co_transport = True,
     co_requests = (case st of None \<Rightarrow> Map.empty | Some st \<Rightarrow> [7 \<mapsto> st])\<rparr>"

abbreviation "example_serving st threads tasks \<equiv>
  \<lparr>sv_coordinator = example_coordinator st, sv_threads = threads, sv_tasks = tasks\<rparr>"

abbreviation "example_arrival i \<equiv> OnShardArrived None (Some 50) 0 7 i (example_val i) 0"

lemmas coordinator_eval = OnShardArrived_def arrival_section_def consider_recovery_plan_def example_request_def
  example_coordinator_def MarkArrived_def IsSystematicComplete_def IsTerminal_def GetMissingSystematic_def
  arrived_parities_def HasArrived_def Evaluate_def Evaluate_plan_def RecoveryPolicy_CreatePlan_def Let_def

lemma example_val_eval [simp]:
  "example_val 0 = [5, 1]" "example_val 1 = [3, 1]" "example_val 2 = [4, 4]" "example_val 3 = [6, 0]" "example_val 4 = [7, 5]"
  by (simp_all add: example_val_def shard_value_def)

lemma example_new:
  "\<exists>co. RecoveryCoordinator_new example_graph True = Inr co \<and> Serving_new co = example_serving None {#} {}"
  by (simp add: RecoveryCoordinator_new_def RecoveryPolicy_new_def CreatePlan_all_def Serving_new_def AttachTransport_def
      example_coordinator_def) (simp add: example_graph_def planner_eval)

lemma example_start:
  "StartRequest 7 (Some (\<lambda>r t. Inr 100)) (example_coordinator None) = Inr (example_coordinator (Some (example_request [] False)))"
  by (simp add: StartRequest_def RequestState_new_def ShardArrivalTracker_new_def ShardId_max_def example_coordinator_def
      example_request_def example_graph_def upt_rec replicate_numeral Let_def)

lemma example_plans:
  "CreatePlan example_graph {0, 1, 2} {} = Inr Unrecoverable"
  "CreatePlan example_graph {0, 1} {} = Inr Unrecoverable"
  "CreatePlan example_graph {0, 1} {3} = Inr Unrecoverable"
  by (simp_all add: example_graph_def planner_eval)


lemma example_frame [simp]:
  "rq_shards (example_request ids b) = map (\<lambda>i. if of_nat i \<in> set ids then Some (example_val (of_nat i)) else None) [0..<5]"
  "rq_oracle (example_request ids b) r t = Inr 100"
  "sn\<lparr>sn_metrics := sn_metrics sn\<lparr>m_planning := m_planning (sn_metrics sn) + 0\<rparr>\<rparr> = (sn :: RequestSnapshot)"
  by (simp_all add: example_request_def)

lemma example_tracker:
  "GetMissingSystematic (rq_tracker (example_request [2] b)) = {0, 1}"
  "arrived_parities (rq_tracker (example_request [2] b)) example_graph = Inr {}"
  "GetMissingSystematic (rq_tracker (example_request [2, 3] b)) = {0, 1}"
  "arrived_parities (rq_tracker (example_request [2, 3] b)) example_graph = Inr {3}"
  "GetMissingSystematic (rq_tracker (example_request [2, 3, 4] b)) = {0, 1}"
  "arrived_parities (rq_tracker (example_request [2, 3, 4] b)) example_graph = Inr {3, 4}"
  "\<not> IsSystematicComplete (rq_tracker (example_request [2, 3, 4] b))"
  "tr_systematic (rq_tracker (example_request ids b)) = systematic_shard_count example_graph"
  "tr_parity (rq_tracker (example_request ids b)) = parity_shard_count example_graph"
  by (auto simp: GetMissingSystematic_def IsSystematicComplete_def arrived_parities_def HasArrived_def example_request_def
      example_graph_def upt_rec word_eval)

lemma example_considers:
  "consider_recovery_plan example_graph (Some 50) 0 7 0 (example_request [2] False) = (example_request [2] False, Returned)"
  "consider_recovery_plan example_graph (Some 50) 0 7 0 (example_request [2, 3] False) = (example_request [2, 3] False, Returned)"
  by (simp_all add: consider_recovery_plan_def example_tracker example_plans Let_def Unrecoverable_def)

lemma example_consider_submits:
  "consider_recovery_plan example_graph (Some 50) 0 7 0 (example_request [2, 3, 4] False)
    = (example_request [2, 3, 4] True, SubmitNext example_plan example_slots)"
proof -
  have "is_recoverable example_plan" by (simp add: example_plan_def)
  moreover have "(example_request ids False)\<lparr>rq_snapshot := (rq_snapshot (example_request ids False))\<lparr>sn_recovery_submitted := True\<rparr>\<rparr>
      = example_request ids True" for ids
    by (simp add: example_request_def)
  ultimately show ?thesis
    by (simp add: consider_recovery_plan_def example_tracker example_CreatePlan Let_def Evaluate_def
        RecoveryPolicy_CreatePlan_def Evaluate_plan_def example_slots_def upt_rec word_eval)
qed

lemma example_sections:
  "arrival_section example_graph None (Some 50) 0 7 2 (example_val 2) 0 (example_request [] False)
    = consider_recovery_plan example_graph (Some 50) 0 7 0 (example_request [2] False)"
  "arrival_section example_graph None (Some 50) 0 7 3 (example_val 3) 0 (example_request [2] False)
    = consider_recovery_plan example_graph (Some 50) 0 7 0 (example_request [2, 3] False)"
  "arrival_section example_graph None (Some 50) 0 7 4 (example_val 4) 0 (example_request [2, 3] False)
    = consider_recovery_plan example_graph (Some 50) 0 7 0 (example_request [2, 3, 4] False)"
  "arrival_section example_graph None (Some 50) 0 7 0 (example_val 0) 0 (example_request [2, 3, 4] True)
    = (example_request [2, 3, 4, 0] True, Returned)"
  by (simp_all add: arrival_section_def IsTerminal_def MarkArrived_def IsSystematicComplete_def Let_def example_request_def
      upt_rec word_eval numeral_2_eq_2 [symmetric])

lemma example_OnShardArrived:
  assumes "arrival_section example_graph None (Some 50) 0 7 i (example_val i) 0 st = (st', v)"
  shows "example_arrival i (example_coordinator (Some st)) = (example_coordinator (Some st'), v)"
  using assms by (simp add: OnShardArrived_def example_coordinator_def)

lemma example_arrivals:
  "example_arrival 2 (example_coordinator (Some (example_request [] False))) = (example_coordinator (Some (example_request [2] False)), Returned)"
  "example_arrival 3 (example_coordinator (Some (example_request [2] False))) = (example_coordinator (Some (example_request [2, 3] False)), Returned)"
  "example_arrival 4 (example_coordinator (Some (example_request [2, 3] False)))
    = (example_coordinator (Some (example_request [2, 3, 4] True)), SubmitNext example_plan example_slots)"
  "example_arrival 0 (example_coordinator (Some (example_request [2, 3, 4] True)))
    = (example_coordinator (Some (example_request [2, 3, 4, 0] True)), Returned)"
  by (rule example_OnShardArrived, simp only: example_sections example_considers example_consider_submits)+

definition example_evs :: "ServingEvent list" where
  "example_evs = [Started 7, Arrived 7 2 (example_val 2) Returned, Arrived 7 3 (example_val 3) Returned,
     Arrived 7 4 (example_val 4) (SubmitNext example_plan example_slots)]"

lemma example_arrival_step:
  assumes "example_arrival i (example_coordinator st) = (example_coordinator st', v)"
  shows "serve_step (example_serving st threads tasks) (Arrived 7 i (example_val i) v)
    (example_serving st' (threads + threads_of 7 v) tasks)"
  using serve_step.arrival [of None "Some 50" 0 7 i "example_val i" 0 "example_serving st threads tasks"] assms by simp

lemma example_run:
  "serve_trace (example_serving None {#} {}) example_evs
     (example_serving (Some (example_request [2, 3, 4] True)) {#Submitting 7 example_plan example_slots#} {})"
proof -
  note steps = example_arrival_step [OF example_arrivals(1)] example_arrival_step [OF example_arrivals(2)]
    example_arrival_step [OF example_arrivals(3)]
  have s: "serve_step (example_serving None {#} {}) (Started 7) (example_serving (Some (example_request [] False)) {#} {})"
    using serve_step.start_request [of 7 "Some (\<lambda>r t. Inr 100)" "example_serving None {#} {}"] example_start by simp
  have "serve_trace (example_serving None {#} {}) ([] @ [Started 7]) (example_serving (Some (example_request [] False)) {#} {})"
    by (rule serve_trace.extend_trace [OF serve_trace.begin_trace s])
  from serve_trace.extend_trace [OF serve_trace.extend_trace [OF serve_trace.extend_trace [OF this steps(1)] steps(2)] steps(3)]
  show ?thesis by (simp add: threads_of_def example_evs_def del: example_val_eval)
qed

definition example_result :: RecoveryTaskResult where
  "example_result = \<lparr>rt_success = True,
     rt_shards = [Some [5, 1], Some [3, 1], Some [4, 4], Some [6, 0], Some [7, 5]], rt_metrics = zero_metrics, rt_error = None\<rparr>"

lemma example_outcome: "outcome example_plan example_slots example_result"
  using example_execution by (simp add: outcome_def example_result_def example_slots_def)

lemma example_recovers:
  "serve_trace (example_serving None {#} {}) (example_evs @ [SubmitCalled 7 example_plan example_slots, CompletionCalled 7 example_result])
     (example_serving (Some (merge_result example_result (example_request [2, 3, 4] True))) {#Confirming 7#}
        {(7, example_plan, example_slots)})"
proof -
  let ?sv = "example_serving (Some (example_request [2, 3, 4] True)) {#Submitting 7 example_plan example_slots#} {}"
  let ?sv' = "example_serving (Some (example_request [2, 3, 4] True)) {#Confirming 7#} {(7, example_plan, example_slots)}"
  have a: "serve_step ?sv (SubmitCalled 7 example_plan example_slots) ?sv'"
    using serve_step.accepted [of 7 example_plan example_slots ?sv] by simp
  have "OnRecoveryComplete 7 example_result (example_coordinator (Some (example_request [2, 3, 4] True)))
      = example_coordinator (Some (merge_result example_result (example_request [2, 3, 4] True)))"
    by (simp add: OnRecoveryComplete_def example_coordinator_def IsTerminal_def example_request_def)
  then have c: "serve_step ?sv' (CompletionCalled 7 example_result)
     (example_serving (Some (merge_result example_result (example_request [2, 3, 4] True))) {#Confirming 7#}
        {(7, example_plan, example_slots)})"
    using serve_step.complete [of 7 example_plan example_slots ?sv', OF _ example_outcome] by simp
  from serve_trace.extend_trace [OF serve_trace.extend_trace [OF example_run a] c] show ?thesis by simp
qed

section \<open>Properties\<close>

text \<open>
  C22. End to end: on a code that the coordinator accepts, with any executor whose completions are
  truthful and any interleaving of arrivals, submissions and completions, a request whose shards come from
  an encoding and that ends as \<open>NaturalComplete\<close> or \<open>Recovered\<close> holds every systematic shard, bit for bit.
\<close>

theorem coordinator_exact:
  assumes "RecoveryCoordinator_new g b = Inr co" "omap_ok (parity_to_systematic g)"
    and "CodeGraph_new (of_nat (systematic_shard_count g)) (of_nat (parity_shard_count g)) (to_equations g) = Inr cg"
    and "encode_parity_cpu cg data = Inr parity"
    and "serve_trace (Serving_new co) evs sv"
    and "\<forall>i payload v. Arrived r i payload v \<in> set evs \<longrightarrow> payload = shard_value data parity i"
    and "GetSnapshot r (sv_coordinator sv) = Inr sn" "sn_status sn \<in> {NaturalComplete, Recovered}" "j < length data"
  shows "GetShard r (of_nat j) (sv_coordinator sv) = Inr (Some (data ! j))"
proof -
  note new = serving_shape_new [OF assms(1,2)]
  note enc = encode_codeword [OF new(1) refl refl assms(3,4)]
  from enc(3) obtain n where n: "0 < n" "codeword (parity_to_systematic g) n (shard_value data parity)" by blast
  have "serving_exact g r (shard_value data parity) (Serving_new co)"
    using assms(1) by (auto simp: serving_exact_def request_of_def Serving_new_def AttachTransport_def
        RecoveryCoordinator_new_def bindE_eq_Inr split: if_splits)
  from serve_trace_exact [OF assms(5) new this n(2,1) assms(6)] have ex: "serving_exact g r (shard_value data parity) sv" .
  have sh: "serving_shape g sv" by (rule serve_trace_shape [OF assms(5) new])
  obtain st where st: "request_of r sv = Some st" "rq_snapshot st = sn"
    using assms(7) by (auto simp: GetSnapshot_def request_of_def split: option.splits)
  have agree: "agrees (shard_value data parity) (rq_shards st)" "missing_shards g (present (rq_shards st)) = {}"
    using ex sh st assms(8) by (auto simp: serving_exact_def serving_shape_def request_exact_def request_shape_def)
  have "systematic_shard_count g + parity_shard_count g \<le> 2 ^ 32" using new(1) by (simp add: graph_ok_def)
  then have j: "unat (of_nat j :: ShardId) = j" "j < systematic_shard_count g"
    using assms(9) enc(1) by (simp_all add: unat_of_nat_ShardId)
  then have "of_nat j \<in> present (rq_shards st)" using agree(2) by (auto simp: missing_shards_def)
  then obtain w where w: "slot (rq_shards st) (of_nat j) = Some w" by (auto simp: present_def)
  then have "w = shard_value data parity (of_nat j)" using agree(1) by (simp add: agrees_def)
  then have "slot (rq_shards st) (of_nat j) = Some (data ! j)"
    using w j(1) assms(9) by (simp add: shard_value_def nth_append)
  then show ?thesis using st(1) j by (auto simp: GetShard_def request_of_def slot_def split: if_splits)
qed

theorem coordinator_exact_witness:
  "\<exists>sv. serve_trace (example_serving None {#} {})
     (example_evs @ [SubmitCalled 7 example_plan example_slots, CompletionCalled 7 example_result]) sv \<and>
   GetShard 7 1 (sv_coordinator sv) = Inr (Some [3, 1])"
proof -
  obtain co where co: "RecoveryCoordinator_new example_graph True = Inr co" "Serving_new co = example_serving None {#} {}"
    using example_new by blast
  have vals: "\<forall>i payload v. Arrived 7 i payload v \<in> set (example_evs @ [SubmitCalled 7 example_plan example_slots, CompletionCalled 7 example_result])
      \<longrightarrow> payload = shard_value [[5, 1], [3, 1], [4, 4]] [[6, 0], [7, 5]] i"
    by (auto simp: example_evs_def example_val_def simp del: example_val_eval)
  let ?st = "merge_result example_result (example_request [2, 3, 4] True)"
  have "GetSnapshot 7 (sv_coordinator (example_serving (Some ?st) {#Confirming 7#} {(7, example_plan, example_slots)})) = Inr (rq_snapshot ?st)"
      "sn_status (rq_snapshot ?st) \<in> {NaturalComplete, Recovered}"
    by (simp_all add: GetSnapshot_def example_coordinator_def merge_result_def Let_def example_result_def)
  from coordinator_exact [OF co(1) example_graph_valid(1) example_code_graph example_encoding example_recovers [folded co(2)] vals this, of 1]
  show ?thesis using example_recovers by auto
qed

text \<open>
  C23. Terminal states are final: once a request is complete, recovered or failed, no later arrival,
  submission or completion changes its status, its error or its shards.
\<close>

theorem coordinator_terminal_final:
  assumes "serve_trace sv evs sv'" "GetSnapshot r (sv_coordinator sv) = Inr sn" "IsTerminal (sn_status sn)"
  shows "\<exists>sn'. GetSnapshot r (sv_coordinator sv') = Inr sn' \<and> sn_status sn' = sn_status sn \<and>
    sn_error sn' = sn_error sn \<and> (\<forall>i. GetShard r i (sv_coordinator sv') = GetShard r i (sv_coordinator sv))"
proof -
  obtain st where st: "request_of r sv = Some st" "rq_snapshot st = sn"
    using assms(2) by (auto simp: GetSnapshot_def request_of_def split: option.splits)
  from serve_trace_terminal [OF assms(1) st(1)] assms(3) st(2)
  obtain st' where "request_of r sv' = Some st'" "same_outcome st st'" by blast
  then show ?thesis using st by (auto simp: same_outcome_def GetSnapshot_def GetShard_def request_of_def)
qed

theorem coordinator_terminal_final_witness:
  "\<exists>co v sn'. OnShardArrived None None 0 7 0 [1, 1] 9
       (example_coordinator (Some (merge_result example_result (example_request [2, 3, 4] True)))) = (co, v) \<and>
     GetSnapshot 7 co = Inr sn' \<and> sn_status sn' = Recovered"
proof -
  let ?st = "merge_result example_result (example_request [2, 3, 4] True)"
  let ?sv = "example_serving (Some ?st) {#} {}"
  obtain co v where a: "OnShardArrived None None 0 7 0 [1, 1] 9 (example_coordinator (Some ?st)) = (co, v)" by fastforce
  then have "serve_step ?sv (Arrived 7 0 [1, 1] v) (?sv\<lparr>sv_coordinator := co, sv_threads := sv_threads ?sv + threads_of 7 v\<rparr>)"
    by (intro serve_step.arrival) simp
  from serve_trace.extend_trace [OF serve_trace.begin_trace this]
  have t: "serve_trace ?sv ([] @ [Arrived 7 0 [1, 1] v]) (?sv\<lparr>sv_coordinator := co, sv_threads := sv_threads ?sv + threads_of 7 v\<rparr>)" .
  have "GetSnapshot 7 (sv_coordinator ?sv) = Inr (rq_snapshot ?st)" "sn_status (rq_snapshot ?st) = Recovered"
    by (simp_all add: GetSnapshot_def example_coordinator_def merge_result_def Let_def example_result_def)
  with coordinator_terminal_final [OF t, of 7 "rq_snapshot ?st"] a show ?thesis by (auto simp: IsTerminal_def)
qed

text \<open>
  C24. A request is submitted to the executor at most once, however its arrivals, refusals and
  completions interleave.
\<close>

theorem coordinator_submits_once:
  assumes "RecoveryCoordinator_new g b = Inr co" "serve_trace (Serving_new co) evs sv"
  shows "submit_calls r evs \<le> 1"
proof -
  have "sv_threads (Serving_new co) = {#}" by (simp add: Serving_new_def)
  then have "submit_attempts r [] (Serving_new co) \<le> of_bool (attempted r (Serving_new co))"
    by (simp add: submit_attempts_def)
  from serve_trace_attempts [OF assms(2) this] show ?thesis
    by (cases "attempted r sv") (auto simp: submit_attempts_def)
qed

theorem coordinator_submits_once_witness:
  "submit_calls 7 (example_evs @ [SubmitCalled 7 example_plan example_slots, CompletionCalled 7 example_result]) = 1"
proof -
  obtain co where co: "RecoveryCoordinator_new example_graph True = Inr co" "Serving_new co = example_serving None {#} {}"
    using example_new by blast
  from coordinator_submits_once [OF co(1) example_recovers [folded co(2)], of 7] show ?thesis
    by (simp add: submit_calls_def example_evs_def)
qed

text \<open>
  C25. No delivered shard is forgotten: as soon as every systematic shard of a request has been delivered
  without an exception, the request has left \<open>Pending\<close>.
\<close>

theorem coordinator_terminates:
  assumes "RecoveryCoordinator_new g b = Inr co" "omap_ok (parity_to_systematic g)"
    and "serve_trace (Serving_new co) evs sv"
    and "\<forall>i. unat i < systematic_shard_count g \<longrightarrow> (\<exists>payload v. Arrived r i payload v \<in> set evs \<and> (\<forall>e. v \<noteq> Threw e))"
  shows "\<exists>sn. GetSnapshot r (sv_coordinator sv) = Inr sn \<and> sn_status sn \<noteq> Pending"
proof -
  note new = serving_shape_new [OF assms(1,2)]
  have all: "{i. unat i < systematic_shard_count g} \<subseteq> delivered r evs" using assms(4) by (auto simp: delivered_def)
  have "0 < systematic_shard_count g" using new(1) by (simp add: graph_ok_def)
  then have "0 \<in> delivered r evs" using all by auto
  moreover have "serving_complete r [] (Serving_new co)"
    using assms(1) by (auto simp: serving_complete_def request_of_def Serving_new_def AttachTransport_def
        RecoveryCoordinator_new_def delivered_def bindE_eq_Inr split: if_splits)
  then have c: "serving_complete r evs sv" by (rule serve_trace_complete [OF assms(3)])
  ultimately obtain st where st: "request_of r sv = Some st" by (cases "request_of r sv") (auto simp: serving_complete_def)
  have "sn_status (rq_snapshot st) \<noteq> Pending"
  proof
    assume pending: "sn_status (rq_snapshot st) = Pending"
    then have "missing_shards g (present (rq_shards st)) = {}"
      using c st all by (auto simp: serving_complete_def missing_shards_def)
    then show False
      using serve_trace_shape [OF assms(3) new] st pending by (auto simp: serving_shape_def request_shape_def)
  qed
  then show ?thesis using st by (auto simp: GetSnapshot_def request_of_def)
qed

lemma example_finishes:
  "\<exists>st. example_arrival 1 (example_coordinator (Some (example_request [2, 3, 4, 0] True))) = (example_coordinator (Some st), CancelNext)"
proof -
  have "\<exists>st. arrival_section example_graph None (Some 50) 0 7 1 (example_val 1) 0 (example_request [2, 3, 4, 0] True) = (st, CancelNext)"
    by (simp add: arrival_section_def IsTerminal_def MarkArrived_def IsSystematicComplete_def Let_def example_request_def
      upt_rec word_eval numeral_2_eq_2 [symmetric])
  then show ?thesis using example_OnShardArrived by blast
qed

theorem coordinator_terminates_witness:
  "\<exists>evs sv sn. serve_trace (example_serving None {#} {}) evs sv \<and> GetSnapshot 7 (sv_coordinator sv) = Inr sn \<and> sn_status sn \<noteq> Pending"
proof -
  obtain co where co: "RecoveryCoordinator_new example_graph True = Inr co" "Serving_new co = example_serving None {#} {}"
    using example_new by blast
  obtain st where st: "example_arrival 1 (example_coordinator (Some (example_request [2, 3, 4, 0] True))) = (example_coordinator (Some st), CancelNext)"
    using example_finishes by blast
  let ?evs = "(example_evs @ [Arrived 7 0 (example_val 0) Returned]) @ [Arrived 7 1 (example_val 1) CancelNext]"
  obtain sv where t: "serve_trace (Serving_new co) ?evs sv"
    using serve_trace.extend_trace [OF serve_trace.extend_trace [OF example_run example_arrival_step [OF example_arrivals(4)]]
        example_arrival_step [OF st]] co(2) by auto
  have "\<exists>payload v. Arrived 7 i payload v \<in> set ?evs \<and> (\<forall>e. v \<noteq> Threw e)" if "unat i < systematic_shard_count example_graph" for i
  proof -
    have "unat i = 0 \<or> unat i = 1 \<or> unat i = 2" using that by (auto simp: example_graph_def)
    then have "i = 0 \<or> i = 1 \<or> i = 2" by (auto simp: word_unat_eq_iff)
    then show ?thesis by (auto simp: example_evs_def)
  qed
  then have all: "\<forall>i. unat i < systematic_shard_count example_graph \<longrightarrow>
      (\<exists>payload v. Arrived 7 i payload v \<in> set ?evs \<and> (\<forall>e. v \<noteq> Threw e))" by blast
  show ?thesis
    using coordinator_terminates [OF co(1) example_graph_valid(1) t all] t co(2) by auto
qed

end
