(* ===== verification/LockOrder.thy ===== *)
theory LockOrder imports Coordinator begin

text \<open>
  The mutexes of the runtime, and why its threads never wait for each other in a circle: the one of the coordinator
  (\<open>src/runtime/coordinator.cpp\<close>), the one of the executor (\<open>src/runtime/cuda_recovery_executor.cpp\<close>), and the one of the
  process-wide cache of launch configurations (\<open>include/codedllm/kernels/tuning.cuh\<close>).

  An operation is the list of the mutexes that it acquires and releases on one path through its code. \<open>StageShard\<close> and
  \<open>EstimateRecoveryCost\<close> are called with the coordinator's mutex held; the locale \<open>lock_hierarchy\<close> proves once that threads
  whose operations acquire mutexes in an order always get to their end.
\<close>

section \<open>Threads that lock\<close>

datatype 'm action = Acquire 'm | Release 'm

text \<open>A thread is what it holds and what it has still to do; a mutex is free when no thread holds it.\<close>

type_synonym 'm thread = "'m list \<times> 'm action list"

definition free_mutex :: "'m \<Rightarrow> 'm thread list \<Rightarrow> bool" where
  "free_mutex m ts \<longleftrightarrow> (\<forall>t\<in>set ts. m \<notin> set (fst t))"

inductive lock_step :: "'m thread list \<Rightarrow> 'm thread list \<Rightarrow> bool" where
  acquire: "i < length ts \<Longrightarrow> ts ! i = (held, Acquire m # rest) \<Longrightarrow> free_mutex m ts \<Longrightarrow>
     lock_step ts (ts[i := (m # held, rest)])"
| release: "i < length ts \<Longrightarrow> ts ! i = (held, Release m # rest) \<Longrightarrow> lock_step ts (ts[i := (remove1 m held, rest)])"

definition finished :: "'m thread list \<Rightarrow> bool" where
  "finished ts \<longleftrightarrow> (\<forall>t\<in>set ts. snd t = [])"

text \<open>Everything that is held is released before the end.\<close>

fun balanced :: "'m thread \<Rightarrow> bool" where
  "balanced (held, []) \<longleftrightarrow> held = []"
| "balanced (held, Acquire m # rest) \<longleftrightarrow> balanced (m # held, rest)"
| "balanced (held, Release m # rest) \<longleftrightarrow> m \<in> set held \<and> balanced (remove1 m held, rest)"

definition remaining :: "'m thread list \<Rightarrow> nat" where
  "remaining ts = sum_list (map (length \<circ> snd) ts)"

lemma remaining_update:
  "i < length ts \<Longrightarrow> ts ! i = (held, a # rest) \<Longrightarrow> remaining ts = Suc (remaining (ts[i := (held', rest)]))"
proof (induction ts arbitrary: i)
  case (Cons t ts)
  then show ?case by (cases i) (auto simp: remaining_def)
qed simp

text \<open>A thread acquires only mutexes above the ones that it holds.\<close>

fun in_order :: "('m \<Rightarrow> nat) \<Rightarrow> 'm thread \<Rightarrow> bool" where
  "in_order rank (held, []) \<longleftrightarrow> True"
| "in_order rank (held, Acquire m # rest) \<longleftrightarrow> (\<forall>h\<in>set held. rank h < rank m) \<and> in_order rank (m # held, rest)"
| "in_order rank (held, Release m # rest) \<longleftrightarrow> in_order rank (remove1 m held, rest)"

definition disciplined :: "('m \<Rightarrow> nat) \<Rightarrow> 'm thread \<Rightarrow> bool" where
  "disciplined rank t \<longleftrightarrow> balanced t \<and> in_order rank t"

lemma disciplined_step:
  assumes "lock_step ts ts'" "\<forall>t\<in>set ts. disciplined rank t"
  shows "(\<forall>t\<in>set ts'. disciplined rank t) \<and> remaining ts = Suc (remaining ts')"
  using assms(1)
proof cases
  case (acquire i held m rest)
  have "disciplined rank (held, Acquire m # rest)" using acquire(2,3) assms(2) nth_mem by fastforce
  then have "disciplined rank (m # held, rest)" by (simp add: disciplined_def)
  then show ?thesis using acquire(1) assms(2) remaining_update [OF acquire(2,3)] by (auto dest: set_update_subset_insert [THEN subsetD])
next
  case (release i held m rest)
  have "disciplined rank (held, Release m # rest)" using release(2,3) assms(2) nth_mem by fastforce
  then have "disciplined rank (remove1 m held, rest)" by (simp add: disciplined_def)
  then show ?thesis using release(1) assms(2) remaining_update [OF release(2,3)] by (auto dest: set_update_subset_insert [THEN subsetD])
qed

text \<open>Of the threads that want a mutex, the one that wants the highest can have it, unless some thread can release one.\<close>

lemma someone_moves:
  assumes "\<forall>t\<in>set ts. disciplined rank t" "\<not> finished ts"
  shows "\<exists>ts'. lock_step ts ts'"
proof (rule ccontr)
  assume stuck: "\<nexists>ts'. lock_step ts ts'"
  have wants: "\<exists>held m rest. t = (held, Acquire m # rest) \<and> \<not> free_mutex m ts" if mem: "t \<in> set ts" and todo: "snd t \<noteq> []" for t
  proof -
    obtain i where i: "i < length ts" "ts ! i = t" using mem unfolding in_set_conv_nth by blast
    obtain held a rest where t: "t = (held, a # rest)" using todo by (cases t; cases "snd t") auto
    show ?thesis using stuck lock_step.intros i t by (cases a) fastforce+
  qed
  define W where "W = {m. \<exists>t\<in>set ts. \<exists>rest. snd t = Acquire m # rest}"
  have "W \<subseteq> (\<lambda>t. case hd (snd t) of Acquire m \<Rightarrow> m | Release m \<Rightarrow> m) ` set ts" unfolding W_def by force
  then have finite: "finite W" using finite_surj by blast
  obtain t where t: "t \<in> set ts" "snd t \<noteq> []" using assms(2) by (auto simp: finished_def)
  then have "W \<noteq> {}" using wants [OF t] by (auto simp: W_def intro!: bexI [OF _ t(1)])
  then have "Max (rank ` W) \<in> rank ` W" using finite by (intro Max_in) simp_all
  then obtain m where m: "m \<in> W" "rank m = Max (rank ` W)" by force
  have highest: "rank m' \<le> rank m" if "m' \<in> W" for m' unfolding m(2) using finite that by (intro Max_ge) simp_all
  from m(1) obtain t0 rest where t0: "t0 \<in> set ts" "snd t0 = Acquire m # rest" by (auto simp: W_def)
  then have "\<not> free_mutex m ts" using wants [OF t0(1)] by auto
  then obtain u where u: "u \<in> set ts" "m \<in> set (fst u)" by (auto simp: free_mutex_def)
  have d: "disciplined rank u" using assms(1) u(1) by blast
  have "snd u \<noteq> []" using d u(2) by (cases u) (auto simp: disciplined_def)
  from wants [OF u(1) this] obtain held m' rest' where u': "u = (held, Acquire m' # rest')" by blast
  have "snd u = Acquire m' # rest'" using u' by simp
  then have "m' \<in> W" using u(1) unfolding W_def by blast
  moreover have "rank m < rank m'" using d u(2) u' by (simp add: disciplined_def)
  ultimately show False using highest by fastforce
qed

lemma all_finish:
  assumes "\<forall>t\<in>set ts. disciplined rank t"
  shows "\<exists>ts'. lock_step\<^sup>*\<^sup>* ts ts' \<and> finished ts'"
  using assms
proof (induction "remaining ts" arbitrary: ts rule: less_induct)
  case less
  show ?case
  proof (cases "finished ts")
    case False
    then obtain ts1 where s: "lock_step ts ts1" using someone_moves less.prems by blast
    note d = disciplined_step [OF s less.prems]
    obtain ts' where "lock_step\<^sup>*\<^sup>* ts1 ts'" "finished ts'" using less.hyps [of ts1] d by auto
    then show ?thesis using s by (meson converse_rtranclp_into_rtranclp)
  qed blast
qed

lemma disciplined_run: "lock_step\<^sup>*\<^sup>* ts ts' \<Longrightarrow> \<forall>t\<in>set ts. disciplined rank t \<Longrightarrow> \<forall>t\<in>set ts'. disciplined rank t"
  by (induction rule: rtranclp_induct) (use disciplined_step in blast)+

text \<open>
  Threads that each run a sequence of operations, where every operation starts and ends without a mutex and keeps to the
  order.
\<close>

locale lock_hierarchy =
  fixes rank :: "'m \<Rightarrow> nat" and locks :: "'o \<Rightarrow> 'm action list"
  assumes operation_in_order: "disciplined rank ([], rest) \<Longrightarrow> disciplined rank ([], locks op @ rest)"
begin

lemma program_disciplined: "disciplined rank ([], concat (map locks ops))"
proof (induction ops)
  case (Cons op ops)
  then show ?case using operation_in_order by simp
qed (simp add: disciplined_def)

lemma never_deadlocks:
  assumes "lock_step\<^sup>*\<^sup>* (map (\<lambda>ops. ([], concat (map locks ops))) programs) ts"
  shows "(\<not> finished ts \<longrightarrow> (\<exists>ts'. lock_step ts ts')) \<and> (\<exists>ts'. lock_step\<^sup>*\<^sup>* ts ts' \<and> finished ts')"
proof -
  have "\<forall>t\<in>set ts. disciplined rank t"
    by (rule disciplined_run [OF assms]) (use program_disciplined in simp)
  then show ?thesis using someone_moves all_finish by blast
qed

end

section \<open>The operations\<close>

datatype Mutex = Coordinator_mutex | Executor_mutex | Cache_mutex

definition mutex_rank :: "Mutex \<Rightarrow> nat" where
  "mutex_rank m = (case m of Coordinator_mutex \<Rightarrow> 0 | Executor_mutex \<Rightarrow> 1 | Cache_mutex \<Rightarrow> 2)"

definition locked :: "Mutex \<Rightarrow> Mutex action list" where
  "locked m = [Acquire m, Release m]"

definition times :: "nat \<Rightarrow> Mutex action list \<Rightarrow> Mutex action list" where
  "times n actions = concat (replicate n actions)"

text \<open>
  \<open>OnShardArrived\<close>: it stages, it asks for the price, and after the critical section it cancels or submits; \<open>submitted\<close> is what
  \<open>Submit\<close> returns or throws, and \<open>natural\<close> says that the request was complete when the submission was confirmed.
\<close>

definition arrival_locks :: "bool \<Rightarrow> bool \<Rightarrow> ArrivalOutcome \<Rightarrow> bool result \<Rightarrow> bool \<Rightarrow> Mutex action list" where
  "arrival_locks stages prices v submitted natural =
     [Acquire Coordinator_mutex] @ (if stages then locked Executor_mutex else []) @
     (if prices then locked Executor_mutex else []) @ [Release Coordinator_mutex] @
     (case v of
        CancelNext \<Rightarrow> locked Executor_mutex
      | SubmitNext plan shards \<Rightarrow> locked Executor_mutex @
          (case submitted of
             Inl e \<Rightarrow> []
           | Inr accepted \<Rightarrow> locked Coordinator_mutex @ (if accepted \<and> natural then locked Executor_mutex else []))
      | _ \<Rightarrow> [])"

text \<open>
  A completion handler: nothing when the coordinator is gone; otherwise it delivers, and when it was the last owner it runs the
  destructor of \<open>Impl\<close>, which cancels every request.
\<close>

datatype Delivery = Expired | Delivers "nat option"

definition delivery_locks :: "Delivery \<Rightarrow> Mutex action list" where
  "delivery_locks d = (case d of Expired \<Rightarrow> []
     | Delivers destroyed \<Rightarrow> locked Coordinator_mutex @
         (case destroyed of None \<Rightarrow> [] | Some requests \<Rightarrow> times requests (locked Executor_mutex)))"

text \<open>
  One round of \<open>WorkerLoop\<close>. A wait holds the mutex whenever it evaluates its predicate; a launch looks its configuration up
  in the cache.
\<close>

definition worker_locks :: "nat \<Rightarrow> nat \<Rightarrow> bool \<Rightarrow> Delivery \<Rightarrow> Mutex action list" where
  "worker_locks wakeups launches cancelled delivery =
     times (wakeups + 1) (locked Executor_mutex) @ times launches (locked Cache_mutex) @ locked Executor_mutex @
     (if cancelled then [] else delivery_locks delivery) @ locked Executor_mutex"

datatype Operation =
    Arrives bool bool ArrivalOutcome "bool result" bool
  | Works nat nat bool Delivery
  | Idles nat
  | Calls_coordinator
  | Waits_for_completion nat
  | Calls_executor
  | Destroys_coordinator nat

fun operation_locks :: "Operation \<Rightarrow> Mutex action list" where
  "operation_locks (Arrives stages prices v submitted natural) = arrival_locks stages prices v submitted natural"
| "operation_locks (Works wakeups launches cancelled delivery) = worker_locks wakeups launches cancelled delivery"
| "operation_locks (Idles wakeups) = times (wakeups + 1) (locked Executor_mutex)"
| "operation_locks Calls_coordinator = locked Coordinator_mutex"
| "operation_locks (Waits_for_completion wakeups) = times (wakeups + 1) (locked Coordinator_mutex)"
| "operation_locks Calls_executor = locked Executor_mutex"
| "operation_locks (Destroys_coordinator requests) = times requests (locked Executor_mutex)"

definition thread_of :: "Operation list \<Rightarrow> Mutex thread" where
  "thread_of ops = ([], concat (map operation_locks ops))"

section \<open>The order\<close>

text \<open>Actions that start and end without a mutex.\<close>

definition self_contained :: "Mutex action list \<Rightarrow> bool" where
  "self_contained actions \<longleftrightarrow> (\<forall>rest. disciplined mutex_rank ([], actions @ rest) \<longleftrightarrow> disciplined mutex_rank ([], rest))"

lemma self_contained_append: "self_contained xs \<Longrightarrow> self_contained ys \<Longrightarrow> self_contained (xs @ ys)"
  by (simp add: self_contained_def)

lemma self_contained_basic [simp]: "self_contained []" "self_contained (locked m)"
  by (simp_all add: self_contained_def locked_def disciplined_def)

lemma self_contained_times [simp]: "self_contained xs \<Longrightarrow> self_contained (times n xs)"
  by (induction n) (auto simp: times_def intro: self_contained_append)

lemma self_contained_arrival: "self_contained (arrival_locks stages prices v submitted natural)"
proof -
  have "self_contained ([Acquire Coordinator_mutex] @ (if stages then locked Executor_mutex else []) @
     (if prices then locked Executor_mutex else []) @ [Release Coordinator_mutex])"
    by (auto simp: self_contained_def locked_def disciplined_def mutex_rank_def)
  moreover have "self_contained (case v of
        CancelNext \<Rightarrow> locked Executor_mutex
      | SubmitNext plan shards \<Rightarrow> locked Executor_mutex @
          (case submitted of
             Inl e \<Rightarrow> []
           | Inr accepted \<Rightarrow> locked Coordinator_mutex @ (if accepted \<and> natural then locked Executor_mutex else []))
      | _ \<Rightarrow> [])"
    by (cases v; cases submitted) (auto intro!: self_contained_append)
  ultimately show ?thesis unfolding arrival_locks_def using self_contained_append by fastforce
qed

lemma self_contained_operation: "self_contained (operation_locks op)"
  by (cases op) (auto simp: self_contained_arrival worker_locks_def delivery_locks_def
      intro!: self_contained_append split: Delivery.split option.split)

interpretation mutexes: lock_hierarchy mutex_rank operation_locks
  by unfold_locales (use self_contained_operation in \<open>simp add: self_contained_def\<close>)

section \<open>Properties\<close>

text \<open>
  C27. The runtime does not deadlock on its mutexes: let any number of threads run any operations of the coordinator, of the
  executor and of its workers, on any of their paths. Wherever the schedule has taken them, some thread can go on, and there
  is a way for all of them to finish.
\<close>

theorem runtime_never_deadlocks:
  assumes "lock_step\<^sup>*\<^sup>* (map thread_of programs) ts"
  shows "(\<not> finished ts \<longrightarrow> (\<exists>ts'. lock_step ts ts')) \<and> (\<exists>ts'. lock_step\<^sup>*\<^sup>* ts ts' \<and> finished ts')"
  using mutexes.never_deadlocks assms by (simp add: thread_of_def [abs_def])

theorem runtime_never_deadlocks_witness:
  "\<exists>ts ts'. lock_step\<^sup>*\<^sup>* (map thread_of [[Arrives True True CancelNext (Inr True) False], [Works 0 1 False (Delivers None)]]) ts \<and>
     fst (hd ts) = [Coordinator_mutex] \<and> lock_step\<^sup>*\<^sup>* ts ts' \<and> finished ts'"
proof -
  let ?ts = "map thread_of [[Arrives True True CancelNext (Inr True) False], [Works 0 1 False (Delivers None)]]"
  obtain rest where "?ts ! 0 = ([], Acquire Coordinator_mutex # rest)" by (simp add: thread_of_def arrival_locks_def)
  moreover have "free_mutex Coordinator_mutex ?ts" by (simp add: free_mutex_def thread_of_def)
  ultimately have "lock_step ?ts (?ts[0 := ([Coordinator_mutex], rest)])" using lock_step.acquire [of 0 ?ts] by simp
  then have run: "lock_step\<^sup>*\<^sup>* ?ts (?ts[0 := ([Coordinator_mutex], rest)])" by blast
  obtain ts' where "lock_step\<^sup>*\<^sup>* (?ts[0 := ([Coordinator_mutex], rest)]) ts'" "finished ts'"
    using runtime_never_deadlocks [OF run] by blast
  then show ?thesis using run by (intro exI [of _ "?ts[0 := ([Coordinator_mutex], rest)]"] exI [of _ ts']) simp
qed

end
