(* ===== verification/CudaServing.thy ===== *)
theory CudaServing imports CoordinatorRuns begin

text \<open>
  The composition of the coordinator (\<open>src/runtime/coordinator.cpp\<close>) with the CUDA executor
  (\<open>src/runtime/cuda_recovery_executor.cpp\<close>): the calls that the coordinator makes go to the model of the
  executor, whose workers deliver the completions back. \<open>cuda_step\<close> interleaves the critical sections of
  both, and any CUDA call may fail; every run of the composition is a run of each part, so what the parts promise
  holds of it. Two runs show what goes wrong between the parts: a race, and an upload that fails.
\<close>

section \<open>The composition\<close>

record CudaServing =
  cs_coordinator :: Coordinator
  cs_executor :: Executor
  cs_threads :: "ArrivalThread multiset"

text \<open>Whether an arrival gets as far as the call of \<open>StageShard\<close>.\<close>

definition reaches_staging :: "ShardId \<Rightarrow> WordShard \<Rightarrow> RequestState \<Rightarrow> bool" where
  "reaches_staging i payload st \<longleftrightarrow> \<not> IsTerminal (sn_status (rq_snapshot st)) \<and> unat i < length (rq_shards st) \<and>
     payload \<noteq> [] \<and> (rq_word_count st = 0 \<or> rq_word_count st = length payload) \<and> rq_shards st ! unat i = None"

definition stage_arrival ::
  "CudaRuntime \<Rightarrow> StagingFailure option \<Rightarrow> RequestId \<Rightarrow> ShardId \<Rightarrow> WordShard \<Rightarrow> Coordinator \<Rightarrow> Executor \<Rightarrow>
   Executor \<times> exn option \<times> ExecutorEvent list" where
  "stage_arrival cu failure r i payload co ex =
     (case co_requests co r of
        None \<Rightarrow> (ex, None, [])
      | Some st \<Rightarrow>
          if reaches_staging i payload st
          then (case StageShard cu failure r (length (rq_shards st)) i payload ex of (ex', threw) \<Rightarrow> (ex', threw, [Staged r i threw]))
          else (ex, None, []))"

text \<open>
  The price that the arrival handler is quoted is arbitrary: the executor's lock is free between
  \<open>StageShard\<close> and \<open>EstimateRecoveryCost\<close>. A step names what the coordinator and the executor did.
\<close>

inductive cuda_step ::
  "CudaRuntime \<Rightarrow> CudaServing \<Rightarrow> ServingEvent list \<Rightarrow> ExecutorEvent list \<Rightarrow> CudaServing \<Rightarrow> bool" for cu where
  start_request: "StartRequest r wait (cs_coordinator cs) = Inr co \<Longrightarrow>
     cuda_step cu cs [Started r] [] (cs\<lparr>cs_coordinator := co\<rparr>)"
| arrival: "stage_arrival cu failure r i payload (cs_coordinator cs) (cs_executor cs) = (ex, threw, xevs) \<Longrightarrow>
     OnShardArrived threw estimate planning r i payload t (cs_coordinator cs) = (co, v) \<Longrightarrow>
     cuda_step cu cs [Arrived r i payload v] xevs
       \<lparr>cs_coordinator = co, cs_executor = ex, cs_threads = cs_threads cs + threads_of r v\<rparr>"
| accepted: "Submitting r plan shards \<in># cs_threads cs \<Longrightarrow> Submit cu pick failing r plan shards (cs_executor cs) = (ex, Inr True) \<Longrightarrow>
     cuda_step cu cs [SubmitCalled r plan shards] [Accepted r plan shards]
       (cs\<lparr>cs_executor := ex, cs_threads := cs_threads cs - {#Submitting r plan shards#} + {#Confirming r#}\<rparr>)"
| refused: "Submitting r plan shards \<in># cs_threads cs \<Longrightarrow> Submit cu pick failing r plan shards (cs_executor cs) = (ex, Inr False) \<Longrightarrow>
     cuda_step cu cs [SubmitCalled r plan shards] [NotAccepted r]
       (cs\<lparr>cs_executor := ex, cs_threads := cs_threads cs - {#Submitting r plan shards#} + {#Rejecting r#}\<rparr>)"
| submit_threw: "Submitting r plan shards \<in># cs_threads cs \<Longrightarrow> Submit cu pick failing r plan shards (cs_executor cs) = (ex, Inl e) \<Longrightarrow>
     cuda_step cu cs [SubmitCalled r plan shards] [NotAccepted r]
       (cs\<lparr>cs_executor := ex, cs_threads := cs_threads cs - {#Submitting r plan shards#}\<rparr>)"
| confirm: "Confirming r \<in># cs_threads cs \<Longrightarrow>
     cuda_step cu cs [Settled r] [] (cs\<lparr>cs_threads := cs_threads cs - {#Confirming r#} +
       (if CompletedNaturally r (cs_coordinator cs) then {#Cancelling r#} else {#})\<rparr>)"
| reject: "Rejecting r \<in># cs_threads cs \<Longrightarrow>
     cuda_step cu cs [Settled r] [] (cs\<lparr>cs_threads := cs_threads cs - {#Rejecting r#},
       cs_coordinator := RejectRecovery r (cs_coordinator cs)\<rparr>)"
| cancel: "Cancelling r \<in># cs_threads cs \<Longrightarrow> Cancel r (cs_executor cs) = (ex, b) \<Longrightarrow>
     cuda_step cu cs [CancelCalled r] [Cancelled r]
       (cs\<lparr>cs_executor := ex, cs_threads := cs_threads cs - {#Cancelling r#}\<rparr>)"
| stop: "cuda_step cu cs [] [Stopped] (cs\<lparr>cs_executor := Executor_stop (cs_executor cs)\<rparr>)"
| work: "i < length (ex_workers (cs_executor cs)) \<Longrightarrow> WorkerLoop cu failing measured i (cs_executor cs) = Some (ex, None) \<Longrightarrow>
     cuda_step cu cs [] [Worked i] (cs\<lparr>cs_executor := ex\<rparr>)"
| spurious: "spurious_wakeup i (cs_executor cs) = Some ex \<Longrightarrow> cuda_step cu cs [] [WokenUp i] (cs\<lparr>cs_executor := ex\<rparr>)"
| complete: "i < length (ex_workers (cs_executor cs)) \<Longrightarrow>
     WorkerLoop cu failing measured i (cs_executor cs) = Some (ex, Some (r, result)) \<Longrightarrow>
     cuda_step cu cs [CompletionCalled r result] [Completed r result]
       (cs\<lparr>cs_executor := ex, cs_coordinator := OnRecoveryComplete r result (cs_coordinator cs)\<rparr>)"

inductive cuda_run ::
  "CudaRuntime \<Rightarrow> CudaServing \<Rightarrow> ServingEvent list \<Rightarrow> ExecutorEvent list \<Rightarrow> CudaServing \<Rightarrow> bool" for cu where
  begin_run: "cuda_run cu cs [] [] cs"
| extend_run: "cuda_run cu cs sevs xevs cs' \<Longrightarrow> cuda_step cu cs' sev xev cs'' \<Longrightarrow>
     cuda_run cu cs (sevs @ sev) (xevs @ xev) cs''"

definition CudaServing_new :: "Coordinator \<Rightarrow> Executor \<Rightarrow> CudaServing" where
  "CudaServing_new co ex = \<lparr>cs_coordinator = AttachTransport co, cs_executor = ex, cs_threads = {#}\<rparr>"

section \<open>Refinement\<close>

text \<open>The coordinator's side of a state, after the executor's events.\<close>

definition accepted_tasks :: "ExecutorEvent list \<Rightarrow> (RequestId \<times> DecodePlan \<times> ShardSlots) set" where
  "accepted_tasks xevs = {(r, plan, shards). Accepted r plan shards \<in> set xevs}"

definition serving_of :: "ExecutorEvent list \<Rightarrow> CudaServing \<Rightarrow> Serving" where
  "serving_of xevs cs = \<lparr>sv_coordinator = cs_coordinator cs, sv_threads = cs_threads cs, sv_tasks = accepted_tasks xevs\<rparr>"

lemma accepted_tasks_snoc [simp]:
  "accepted_tasks [] = {}"
  "accepted_tasks (xevs @ [Accepted r plan shards]) = insert (r, plan, shards) (accepted_tasks xevs)"
  "accepted_tasks (xevs @ [Staged r shard_id threw]) = accepted_tasks xevs"
  "accepted_tasks (xevs @ [NotAccepted r]) = accepted_tasks xevs"
  "accepted_tasks (xevs @ [Cancelled r]) = accepted_tasks xevs"
  "accepted_tasks (xevs @ [Stopped]) = accepted_tasks xevs"
  "accepted_tasks (xevs @ [Worked i]) = accepted_tasks xevs"
  "accepted_tasks (xevs @ [WokenUp i]) = accepted_tasks xevs"
  "accepted_tasks (xevs @ [Completed r result]) = accepted_tasks xevs"
  by (auto simp: accepted_tasks_def)

lemma stage_arrival_cases:
  assumes "stage_arrival cu failure r i payload co ex = (ex', threw, xevs)"
  obtains (skipped) "ex' = ex" "xevs = []" "threw = None" "\<And>st. co_requests co r = Some st \<Longrightarrow> \<not> reaches_staging i payload st"
    | (staged) n st where "StageShard cu failure r n i payload ex = (ex', threw)" "xevs = [Staged r i threw]"
        "co_requests co r = Some st" "reaches_staging i payload st"
  using assms by (auto simp: stage_arrival_def split: option.splits if_splits prod.splits)

text \<open>A step of the composition is at most one step of the executor and at most one of the coordinator.\<close>

lemma cuda_step_executor:
  assumes "cuda_step cu cs sev xev cs'"
  shows "(xev = [] \<and> cs_executor cs' = cs_executor cs) \<or>
    (\<exists>ev. xev = [ev] \<and> exec_step cu (cs_executor cs) ev (cs_executor cs'))"
  using assms
proof cases
  case (arrival failure r i payload ex threw estimate planning t co v)
  from arrival(3) show ?thesis
  proof (cases rule: stage_arrival_cases)
    case skipped
    then show ?thesis using arrival(2) by simp
  next
    case (staged n)
    then show ?thesis using arrival(2) exec_step.stage [OF staged(1)] by simp
  qed
qed (auto intro: exec_step.intros)

lemma cuda_step_coordinator:
  assumes "cuda_step cu cs sev xev cs'" "history_ok xevs (cs_executor cs)"
    and "executor_inv cu (cs_executor cs)" "runtime_ok (cu_queries cu)"
  shows "(sev = [] \<and> serving_of (xevs @ xev) cs' = serving_of xevs cs) \<or>
    (\<exists>ev. sev = [ev] \<and> serve_step (serving_of xevs cs) ev (serving_of (xevs @ xev) cs'))"
  using assms(1)
proof cases
  case (start_request r wait co)
  then show ?thesis using serve_step.start_request [of r wait "serving_of xevs cs" co] by (simp add: serving_of_def)
next
  case (arrival failure r i payload ex threw estimate planning t co v)
  have "accepted_tasks (xevs @ xev) = accepted_tasks xevs"
    using arrival(3) by (cases rule: stage_arrival_cases) simp_all
  then show ?thesis
    using arrival(1,2) serve_step.arrival [of threw estimate planning r i payload t "serving_of xevs cs" co v] arrival(4)
    by (simp add: serving_of_def)
next
  case (accepted r plan shards pick failing ex)
  then show ?thesis using serve_step.accepted [of r plan shards "serving_of xevs cs"] by (simp add: serving_of_def)
next
  case (refused r plan shards pick failing ex)
  then show ?thesis using serve_step.refused [of r plan shards "serving_of xevs cs"] by (simp add: serving_of_def)
next
  case (submit_threw r plan shards pick failing ex e)
  then show ?thesis using serve_step.submit_threw [of r plan shards "serving_of xevs cs"] by (simp add: serving_of_def)
next
  case (confirm r)
  then show ?thesis using serve_step.confirm [of r "serving_of xevs cs"] by (simp add: serving_of_def)
next
  case (reject r)
  then show ?thesis using serve_step.reject [of r "serving_of xevs cs"] by (simp add: serving_of_def)
next
  case (cancel r ex b)
  then show ?thesis using serve_step.cancel [of r "serving_of xevs cs"] by (simp add: serving_of_def)
next
  case stop
  then show ?thesis by (simp add: serving_of_def)
next
  case (work i failing measured ex)
  then show ?thesis by (simp add: serving_of_def)
next
  case (spurious i ex)
  then show ?thesis by (simp add: serving_of_def)
next
  case (complete i failing measured ex r result)
  have "accepted_result xevs r result"
    using WorkerLoop_history(3) [OF assms(2,3,4) complete(4,5)] by simp
  then obtain plan shards where "(r, plan, shards) \<in> accepted_tasks xevs" "outcome plan shards result"
    by (auto simp: accepted_result_def accepted_tasks_def)
  then show ?thesis
    using complete(1-3) serve_step.complete [of r plan shards "serving_of xevs cs" result] by (simp add: serving_of_def)
qed

text \<open>
  The coordinator is an honest client: it stores a shard, and submits it, only after \<open>StageShard\<close> returned for it, and it
  never stages a shard again that it stores.
\<close>

lemma arrival_section_shards:
  assumes "arrival_section g threw estimate planning r i payload t st = (st', v)"
  shows "rq_shards st' = (if reaches_staging i payload st \<and> threw = None then (rq_shards st)[unat i := Some payload] else rq_shards st)"
    "IsTerminal (sn_status (rq_snapshot st)) \<Longrightarrow> IsTerminal (sn_status (rq_snapshot st'))"
    "v = SubmitNext plan shards \<Longrightarrow> shards = rq_shards st'"
proof -
  note frame = consider_recovery_plan_frame(1) consider_recovery_plan_submits(3)
  show "rq_shards st' = (if reaches_staging i payload st \<and> threw = None then (rq_shards st)[unat i := Some payload] else rq_shards st)"
    using assms
    by (auto simp: arrival_section_def reaches_staging_def Let_def dest!: frame(1) split: if_splits option.splits sum.splits)
  show "IsTerminal (sn_status (rq_snapshot st)) \<Longrightarrow> IsTerminal (sn_status (rq_snapshot st'))"
    using assms by (auto simp: arrival_section_def Let_def)
  show "v = SubmitNext plan shards \<Longrightarrow> shards = rq_shards st'"
    using assms
  proof (cases rule: arrival_section_cases)
    case (planning tracker)
    show "v = SubmitNext plan shards \<Longrightarrow> shards = rq_shards st'"
      using planning(9) frame(2) consider_recovery_plan_frame(1) [OF planning(9)] by metis
  qed simp_all
qed

definition slots_backed :: "ExecutorEvent list \<Rightarrow> RequestId \<Rightarrow> ShardSlots \<Rightarrow> bool" where
  "slots_backed xevs r shards \<longleftrightarrow> (\<forall>i. unat i < length shards \<and> shards ! unat i \<noteq> None \<longrightarrow> \<not> upload_failed r i xevs)"

text \<open>The slots that a thread submits are among those of its request, while that is pending.\<close>

definition still_stored :: "ShardSlots \<Rightarrow> RequestState \<Rightarrow> bool" where
  "still_stored shards st \<longleftrightarrow> IsTerminal (sn_status (rq_snapshot st)) \<or> length shards = length (rq_shards st) \<and>
     (\<forall>i<length shards. shards ! i \<noteq> None \<longrightarrow> rq_shards st ! i \<noteq> None)"

definition shards_backed :: "ExecutorEvent list \<Rightarrow> CudaServing \<Rightarrow> bool" where
  "shards_backed xevs cs \<longleftrightarrow>
     (\<forall>r st. co_requests (cs_coordinator cs) r = Some st \<longrightarrow> IsTerminal (sn_status (rq_snapshot st)) \<or> slots_backed xevs r (rq_shards st)) \<and>
     (\<forall>r plan shards. Submitting r plan shards \<in># cs_threads cs \<longrightarrow> slots_backed xevs r shards \<and>
        (\<exists>st. co_requests (cs_coordinator cs) r = Some st \<and> still_stored shards st)) \<and>
     (\<forall>r i threw. Staged r i threw \<in> set xevs \<longrightarrow> co_requests (cs_coordinator cs) r \<noteq> None)"

definition requests_kept :: "Coordinator \<Rightarrow> Coordinator \<Rightarrow> bool" where
  "requests_kept co co' \<longleftrightarrow> (\<forall>r. case co_requests co r of
       None \<Rightarrow> co_requests co' r = None
     | Some st \<Rightarrow> \<exists>st'. co_requests co' r = Some st' \<and> (IsTerminal (sn_status (rq_snapshot st')) \<or>
         \<not> IsTerminal (sn_status (rq_snapshot st)) \<and> rq_shards st' = rq_shards st))"

lemma requests_kept_simps:
  "requests_kept co co"
  "requests_kept co (RejectRecovery r co)"
  "requests_kept co (OnRecoveryComplete r result co)"
  by (auto simp: requests_kept_def RejectRecovery_def OnRecoveryComplete_def merge_result_def IsTerminal_def Let_def split: option.splits)

lemma shards_backed_frame:
  assumes "shards_backed xevs cs" "\<forall>ev\<in>set xev. \<forall>r i threw. ev \<noteq> Staged r i threw" "length xev \<le> 1"
    and "requests_kept (cs_coordinator cs) (cs_coordinator cs')"
    and "\<And>r plan shards. Submitting r plan shards \<in># cs_threads cs' \<Longrightarrow> Submitting r plan shards \<in># cs_threads cs"
  shows "shards_backed (xevs @ xev) cs'"
proof -
  have threw: "upload_failed r i (xevs @ xev) = upload_failed r i xevs" for r i
  proof (cases xev)
    case (Cons ev rest)
    then have "xev = [ev]" using assms(3) by simp
    then show ?thesis using assms(2) by (cases ev) auto
  qed simp
  then have slots: "slots_backed (xevs @ xev) r shards = slots_backed xevs r shards" for r shards by (simp add: slots_backed_def)
  have kept: "\<exists>st'. co_requests (cs_coordinator cs') r = Some st' \<and> (IsTerminal (sn_status (rq_snapshot st')) \<or>
      \<not> IsTerminal (sn_status (rq_snapshot st)) \<and> rq_shards st' = rq_shards st)" if "co_requests (cs_coordinator cs) r = Some st" for r st
    using assms(4) [unfolded requests_kept_def, rule_format, of r] that by simp
  have none: "co_requests (cs_coordinator cs') r = None" if "co_requests (cs_coordinator cs) r = None" for r
    using assms(4) [unfolded requests_kept_def, rule_format, of r] that by simp
  show ?thesis
    unfolding shards_backed_def slots
  proof (intro conjI allI impI)
    fix r st'
    assume st': "co_requests (cs_coordinator cs') r = Some st'"
    then obtain st where st: "co_requests (cs_coordinator cs) r = Some st" using none by (cases "co_requests (cs_coordinator cs) r") auto
    then show "IsTerminal (sn_status (rq_snapshot st')) \<or> slots_backed xevs r (rq_shards st')"
      using kept [OF st] st' assms(1) unfolding shards_backed_def by (metis option.inject)
  next
    fix r plan shards
    assume "Submitting r plan shards \<in># cs_threads cs'"
    then have old: "Submitting r plan shards \<in># cs_threads cs" by (rule assms(5))
    then show "slots_backed xevs r shards" using assms(1) unfolding shards_backed_def by blast
    obtain st where st: "co_requests (cs_coordinator cs) r = Some st" "still_stored shards st"
      using old assms(1) unfolding shards_backed_def by blast
    obtain st' where "co_requests (cs_coordinator cs') r = Some st'" "IsTerminal (sn_status (rq_snapshot st')) \<or>
      \<not> IsTerminal (sn_status (rq_snapshot st)) \<and> rq_shards st' = rq_shards st"
      using kept [OF st(1)] by blast
    then show "\<exists>st. co_requests (cs_coordinator cs') r = Some st \<and> still_stored shards st"
      using st(2) unfolding still_stored_def by metis
  next
    fix r i threw
    assume "Staged r i threw \<in> set (xevs @ xev)"
    then have "Staged r i threw \<in> set xevs" using assms(2) by auto
    then show "co_requests (cs_coordinator cs') r \<noteq> None"
      using assms(1) kept unfolding shards_backed_def by (metis not_Some_eq)
  qed
qed

text \<open>An upload of \<open>i\<close> leaves what is known of every other slot.\<close>

lemma slots_backed_stage:
  "slots_backed xevs q shards \<Longrightarrow> q \<noteq> r \<or> threw = None \<or> shards ! unat i = None \<Longrightarrow>
    slots_backed (xevs @ [Staged r i threw]) q shards"
  by (auto simp: slots_backed_def)

lemma slots_backed_store:
  assumes "slots_backed xevs r shards" "\<not> upload_failed r i xevs"
  shows "slots_backed xevs r (shards[unat i := Some payload])"
  unfolding slots_backed_def
proof (intro allI impI)
  fix j :: ShardId
  assume j: "unat j < length (shards[unat i := Some payload]) \<and> shards[unat i := Some payload] ! unat j \<noteq> None"
  show "\<not> upload_failed r j xevs"
  proof (cases "j = i")
    case False
    then have "unat i \<noteq> unat j" by (simp add: word_unat_eq_iff)
    then show ?thesis using assms(1) j by (simp add: slots_backed_def)
  qed (use assms(2) in simp)
qed

lemma arrival_backed:
  assumes "shards_backed xevs cs" "stage_arrival cu failure r i payload (cs_coordinator cs) (cs_executor cs) = (ex, threw, xev)"
    and "OnShardArrived threw estimate planning r i payload t (cs_coordinator cs) = (co, v)"
  shows "shards_backed (xevs @ xev) \<lparr>cs_coordinator = co, cs_executor = ex, cs_threads = cs_threads cs + threads_of r v\<rparr>"
proof (cases "co_requests (cs_coordinator cs) r")
  case None
  then have "xev = []" "co = cs_coordinator cs" "threads_of r v = {#}"
    using assms(2,3) by (auto simp: stage_arrival_def OnShardArrived_def threads_of_def)
  then show ?thesis
    using shards_backed_frame [OF assms(1), of "[]" "\<lparr>cs_coordinator = co, cs_executor = ex, cs_threads = cs_threads cs\<rparr>"] requests_kept_simps(1) by simp
next
  case (Some st)
  let ?g = "co_graph (cs_coordinator cs)"
  obtain st' where step: "arrival_section ?g threw estimate planning r i payload t st = (st', v)"
    and co: "co = (cs_coordinator cs)\<lparr>co_requests := (co_requests (cs_coordinator cs))(r \<mapsto> st')\<rparr>"
    using assms(3) Some by (auto simp: OnShardArrived_def split: prod.splits)
  note st' = arrival_section_shards [OF step]
  have fresh: "\<not> IsTerminal (sn_status (rq_snapshot st)) \<and> unat i < length (rq_shards st) \<and> rq_shards st ! unat i = None" if "xev \<noteq> []"
    using assms(2) that Some by (cases rule: stage_arrival_cases) (auto simp: reaches_staging_def)
  have xev: "xev = [] \<or> xev = [Staged r i threw]" using assms(2) by (cases rule: stage_arrival_cases) auto
  have stored: "rq_shards st' = (if xev \<noteq> [] \<and> threw = None then (rq_shards st)[unat i := Some payload] else rq_shards st)"
    using assms(2) Some st'(1) by (cases rule: stage_arrival_cases) auto
  have other: "slots_backed xevs q shards \<Longrightarrow> q \<noteq> r \<or> threw = None \<or> xev = [] \<or> shards ! unat i = None \<Longrightarrow> slots_backed (xevs @ xev) q shards" for q shards
    using xev slots_backed_stage by (cases "xev = []") auto
  have mine: "slots_backed (xevs @ xev) r (rq_shards st')" if "\<not> IsTerminal (sn_status (rq_snapshot st'))"
  proof -
    have "slots_backed xevs r (rq_shards st)" using that st'(2) Some assms(1) unfolding shards_backed_def by blast
    then have "slots_backed (xevs @ xev) r (rq_shards st)" by (rule other) (use fresh in \<open>cases "xev = []"; simp\<close>)
    then show ?thesis using stored xev slots_backed_store by (auto split: if_splits)
  qed
  have kept: "still_stored shards st \<Longrightarrow> still_stored shards st'" for shards
    using st'(2) stored fresh by (cases "xev = []") (auto simp: still_stored_def nth_list_update split: if_splits)
  have requests: "co_requests co = (co_requests (cs_coordinator cs))(r \<mapsto> st')" by (simp add: co)
  show ?thesis
    unfolding shards_backed_def CudaServing.simps requests
  proof (intro conjI allI impI)
    fix q stq
    assume q: "((co_requests (cs_coordinator cs))(r \<mapsto> st')) q = Some stq"
    show "IsTerminal (sn_status (rq_snapshot stq)) \<or> slots_backed (xevs @ xev) q (rq_shards stq)"
      using q mine assms(1) other unfolding shards_backed_def by (cases "q = r") auto
  next
    fix q plan shards
    assume "Submitting q plan shards \<in># cs_threads cs + threads_of r v"
    then consider (old) "Submitting q plan shards \<in># cs_threads cs" | (new) "q = r" "v = SubmitNext plan shards"
      by (auto simp: threads_of_def split: ArrivalOutcome.splits)
    note cases = this
    obtain stq where stq: "slots_backed xevs q shards" "co_requests (cs_coordinator cs) q = Some stq" "still_stored shards stq"
      if "Submitting q plan shards \<in># cs_threads cs"
      using assms(1) unfolding shards_backed_def by blast
    show "slots_backed (xevs @ xev) q shards"
      using cases
    proof cases
      case old
      have "shards ! unat i = None" if "q = r" "xev \<noteq> []"
        using stq [OF old] fresh [OF that(2)] that(1) Some by (auto simp: still_stored_def)
      then show ?thesis using other [OF stq(1) [OF old]] by blast
    next
      case new
      have "\<not> IsTerminal (sn_status (rq_snapshot st'))"
        using new(2) step by (auto simp: arrival_section_def IsTerminal_def Let_def consider_recovery_plan_frame(3)
            split: if_splits option.splits sum.splits)
      then show ?thesis using mine new st'(3) by simp
    qed
    show "\<exists>st. ((co_requests (cs_coordinator cs))(r \<mapsto> st')) q = Some st \<and> still_stored shards st"
      using cases
    proof cases
      case old
      then show ?thesis using stq [OF old] kept Some by (cases "q = r") auto
    next
      case new
      then show ?thesis using st'(3) by (simp add: still_stored_def)
    qed
  next
    fix q j e
    assume "Staged q j e \<in> set (xevs @ xev)"
    then have "Staged q j e \<in> set xevs \<or> q = r" using xev by auto
    moreover have "co_requests (cs_coordinator cs) q \<noteq> None" if "Staged q j e \<in> set xevs"
      using that assms(1) unfolding shards_backed_def by blast
    ultimately show "((co_requests (cs_coordinator cs))(r \<mapsto> st')) q \<noteq> None" by auto
  qed
qed

lemma cuda_step_backed:
  assumes "cuda_step cu cs sev xev cs'" "shards_backed xevs cs" "honest xevs"
  shows "shards_backed (xevs @ xev) cs' \<and> honest (xevs @ xev)"
  using assms(1)
proof cases
  case (start_request r wait co)
  obtain st where st: "co_requests (cs_coordinator cs) r = None" "co = (cs_coordinator cs)\<lparr>co_requests := (co_requests (cs_coordinator cs))(r \<mapsto> st)\<rparr>"
      "set (rq_shards st) \<subseteq> {None}"
  proof (rule StartRequest_cases [OF start_request(4)])
    fix wait st
    assume "RequestState_new (systematic_shard_count (co_graph (cs_coordinator cs))) (parity_shard_count (co_graph (cs_coordinator cs))) wait = Inr st"
    then have "set (rq_shards st) \<subseteq> {None}" by (auto simp: RequestState_new_def bindE_eq_Inr)
    then show "co_requests (cs_coordinator cs) r = None \<Longrightarrow>
        co = (cs_coordinator cs)\<lparr>co_requests := (co_requests (cs_coordinator cs))(r \<mapsto> st)\<rparr> \<Longrightarrow> thesis" by (intro that)
  qed
  have "slots_backed xevs r (rq_shards st)" using st(3) nth_mem by (fastforce simp: slots_backed_def)
  then have "shards_backed xevs cs'"
    using assms(2) st(1) unfolding shards_backed_def start_request(3) st(2) by (auto 0 4)
  then show ?thesis using start_request(2) assms(3) by simp
next
  case (arrival failure r i payload ex threw estimate planning t co v)
  have "honest (xevs @ xev)" using arrival(3) assms(3) by (cases rule: stage_arrival_cases) (simp_all add: backed_def)
  then show ?thesis using arrival_backed [OF assms(2) arrival(3,4)] arrival(2) by simp
next
  case (accepted r plan shards pick failing ex)
  have "slots_backed xevs r shards" using accepted(4) assms(2) unfolding shards_backed_def by blast
  then have "honest (xevs @ xev)" using accepted(2) assms(3) by (simp add: backed_def slots_backed_def)
  moreover have "shards_backed (xevs @ xev) cs'"
    by (rule shards_backed_frame [OF assms(2)]) (use accepted(2,3) in \<open>auto simp: requests_kept_simps dest: in_diffD\<close>)
  ultimately show ?thesis by blast
qed (intro conjI shards_backed_frame [OF assms(2)]; use assms(3) in \<open>auto simp: requests_kept_simps backed_def dest: in_diffD split: if_splits\<close>)+

lemma cuda_run_backed:
  "cuda_run cu cs sevs xevs cs' \<Longrightarrow> shards_backed [] cs \<Longrightarrow> shards_backed xevs cs' \<and> honest xevs"
proof (induction rule: cuda_run.induct)
  case (extend_run cs sevs xevs cs' sev xev cs'')
  then show ?case using cuda_step_backed [OF extend_run.hyps(2)] by blast
qed simp

lemma cuda_run_parts:
  assumes "cuda_run cu cs sevs xevs cs'" "executor_inv cu (cs_executor cs)" "history_ok [] (cs_executor cs)"
    and "uploads_ok [] (cs_executor cs)" "shards_backed [] cs" "runtime_ok (cu_queries cu)"
  shows "exec_trace cu (cs_executor cs) xevs (cs_executor cs') \<and>
    serve_trace (serving_of [] cs) sevs (serving_of xevs cs')"
  using assms
proof (induction rule: cuda_run.induct)
  case (begin_run cs)
  then show ?case by (simp add: exec_trace.start serve_trace.begin_trace)
next
  case (extend_run cs sevs xevs cs' sev xev cs'')
  then have x: "exec_trace cu (cs_executor cs) xevs (cs_executor cs')"
    and s: "serve_trace (serving_of [] cs) sevs (serving_of xevs cs')" by blast+
  have inv: "executor_inv cu (cs_executor cs')" by (rule exec_trace_inv [OF x extend_run.prems(1,5)])
  have "honest xevs" using cuda_run_backed [OF extend_run.hyps(1) extend_run.prems(4)] by blast
  then have "history_ok xevs (cs_executor cs')"
    by (rule exec_trace_history [OF x _ extend_run.prems(1,5,2,3)])
  from cuda_step_coordinator [OF extend_run.hyps(2) this inv extend_run.prems(5)]
  have "serve_trace (serving_of [] cs) (sevs @ sev) (serving_of (xevs @ xev) cs'')"
    using s serve_trace.extend_trace [OF s] by auto
  moreover have "exec_trace cu (cs_executor cs) (xevs @ xev) (cs_executor cs'')"
    using cuda_step_executor [OF extend_run.hyps(2)] x exec_trace.next_event [OF x] by auto
  ultimately show ?case by blast
qed

lemma shards_backed_new: "shards_backed [] (CudaServing_new co ex)"
  by (simp add: shards_backed_def CudaServing_new_def slots_backed_def)

lemma CudaServing_parts:
  assumes "CudaRecoveryExecutor_new c d s = Inr ex" "runtime_ok (cu_queries cu)"
    and "cuda_run cu (CudaServing_new co ex) sevs xevs cs"
  shows "exec_trace cu ex xevs (cs_executor cs)" "serve_trace (Serving_new co) sevs (serving_of xevs cs)" "honest xevs"
proof -
  have "serving_of [] (CudaServing_new co ex) = Serving_new co" "cs_executor (CudaServing_new co ex) = ex"
    by (simp_all add: serving_of_def CudaServing_new_def Serving_new_def)
  then show "exec_trace cu ex xevs (cs_executor cs)" "serve_trace (Serving_new co) sevs (serving_of xevs cs)"
    using cuda_run_parts [OF assms(3) _ _ _ shards_backed_new] executor_inv_new [OF assms(1)] fresh_history [OF assms(1)] assms(2) by auto
  show "honest xevs" using cuda_run_backed [OF assms(3) shards_backed_new] by blast
qed

section \<open>Properties\<close>

text \<open>
  C26. The composition refines both contracts: what the executor does in it is a run of the executor, and
  what the coordinator does is a run of the coordinator with an executor whose completions are truthful,
  so every property of either part holds of the composed system.
\<close>

theorem cuda_serving_refines:
  assumes "CudaRecoveryExecutor_new c d s = Inr ex" "runtime_ok (cu_queries cu)"
    and "cuda_run cu (CudaServing_new co ex) sevs xevs cs"
  shows "exec_trace cu ex xevs (cs_executor cs) \<and>
    honest xevs \<and>
    (\<exists>sv. serve_trace (Serving_new co) sevs sv \<and> sv_coordinator sv = cs_coordinator cs \<and>
       sv_threads sv = cs_threads cs \<and> sv_tasks sv = {(r, plan, shards). Accepted r plan shards \<in> set xevs})"
  using CudaServing_parts [OF assms] by (auto simp: serving_of_def accepted_tasks_def)

section \<open>A race\<close>

text \<open>
  One worker, one more task of depth. The shards 2, 3 and 4 of request 7 arrive; the last one makes the
  handler decide to recover 0 and 1. Before it calls \<open>Submit\<close>, another thread delivers shard 0.
\<close>

definition example_context :: "ShardId list \<Rightarrow> DeviceShardStagingContext" where
  "example_context ids =
     (let slots = map (\<lambda>i. if of_nat i \<in> set ids then Some (example_val (of_nat i)) else None) [0..<5]
      in \<lparr>sg_word_counts = map (map_option length) slots, sg_staged_shards = slots, sg_device_shards = slots,
          sg_plan = DecodePlan_default, sg_source_offsets = [], sg_device_id = 0, sg_finalized = False\<rparr>)"

definition example_executor :: "ShardId list \<Rightarrow> Executor" where
  "example_executor ids = \<lparr>ex_concurrency = 1, ex_capacity = 2, ex_service_cost = 50, ex_queue = [],
     ex_staged = (if ids = [] then Map.empty else [7 \<mapsto> (5, example_context ids)]), ex_running = {}, ex_cancelled = {},
     ex_workers = [Waiting], ex_stopping = False, ex_cache = []\<rparr>"

lemma example_executor_new: "CudaRecoveryExecutor_new 1 1 50 = Inr (example_executor [])"
  by (simp add: CudaRecoveryExecutor_new_def example_executor_def)

lemma example_stages:
  "StageShard example_cuda None 7 5 2 [4, 4] (example_executor []) = (example_executor [2], None)"
  "StageShard example_cuda None 7 5 3 [6, 0] (example_executor [2]) = (example_executor [2, 3], None)"
  "StageShard example_cuda None 7 5 4 [7, 5] (example_executor [2, 3]) = (example_executor [2, 3, 4], None)"
  "StageShard example_cuda None 7 5 0 [5, 1] (example_executor [2, 3, 4]) = (example_executor [2, 3, 4, 0], None)"
  by (simp_all add: StageShard_def find_context_def attempt_upload_def example_executor_def HasQueuedRequest_def create_device_shard_staging_context_cuda_def
      stage_decode_shard_cuda_def example_context_def example_cuda_def upt_rec word_eval replicate_numeral Let_def
      numeral_2_eq_2 [symmetric])

abbreviation "race_state ids submitted ids' threads \<equiv>
  \<lparr>cs_coordinator = example_coordinator (Some (example_request ids submitted)), cs_executor = example_executor ids',
   cs_threads = threads\<rparr>"

lemma race_stage_arrivals:
  "stage_arrival example_cuda None 7 2 (example_val 2) (example_coordinator (Some (example_request [] False))) (example_executor [])
    = (example_executor [2], None, [Staged 7 2 None])"
  "stage_arrival example_cuda None 7 3 (example_val 3) (example_coordinator (Some (example_request [2] False))) (example_executor [2])
    = (example_executor [2, 3], None, [Staged 7 3 None])"
  "stage_arrival example_cuda None 7 4 (example_val 4) (example_coordinator (Some (example_request [2, 3] False))) (example_executor [2, 3])
    = (example_executor [2, 3, 4], None, [Staged 7 4 None])"
  "stage_arrival example_cuda None 7 0 (example_val 0) (example_coordinator (Some (example_request [2, 3, 4] True))) (example_executor [2, 3, 4])
    = (example_executor [2, 3, 4, 0], None, [Staged 7 0 None])"
  using example_stages
  by (simp_all add: stage_arrival_def reaches_staging_def example_coordinator_def example_request_def IsTerminal_def
      upt_rec word_eval numeral_2_eq_2 [symmetric])

definition race_task :: Task where
  "race_task = \<lparr>task_request = 7, task_plan = example_plan, task_shards = example_slots,
     task_context = example_context [2, 3, 4, 0]\<rparr>"

definition race_result :: RecoveryTaskResult where
  "race_result = \<lparr>rt_success = False, rt_shards = [], rt_metrics = zero_metrics,
     rt_error = Some (InvalidArgument ''Staged shards must match the supplied host shard slots'')\<rparr>"

definition race_executor :: "Worker \<Rightarrow> Executor" where
  "race_executor w = (example_executor [])\<lparr>ex_running := {7}, ex_workers := [w]\<rparr>"

lemma race_submit:
  "Submit example_cuda 0 False 7 example_plan example_slots (example_executor [2, 3, 4, 0])
    = ((example_executor [])\<lparr>ex_queue := [race_task]\<rparr>, Inr True)"
  by (simp add: Submit_def example_executor_def outstanding_def HasQueuedRequest_def race_task_def example_slots_def Let_def
      notify_one_def sleepers_def)

lemma race_work:
  "WorkerLoop example_cuda False zero_metrics 0 ((example_executor [])\<lparr>ex_queue := [race_task]\<rparr>)
    = Some (race_executor (Executing race_task), None)"
  "WorkerLoop example_cuda False zero_metrics 0 (race_executor (Executing race_task))
    = Some (race_executor (Executed 7 race_result), None)"
  "WorkerLoop example_cuda False zero_metrics 0 (race_executor (Executed 7 race_result))
    = Some (race_executor (Completing 7 race_result), None)"
  "WorkerLoop example_cuda False zero_metrics 0 (race_executor (Completing 7 race_result))
    = Some (race_executor (Retiring 7), Some (7, race_result))"
proof -
  have "ValidatePlanShape example_plan = Inr ()"
    by (simp add: ValidatePlanShape_def reject_any_def example_plan_def)
  then have "run_staged_decode_plan_cuda (cu_queries example_cuda) (cu_fresh example_cuda) example_plan example_slots
      (example_context [2, 3, 4, 0]) []
    = Some (example_context [2, 3, 4, 0], Inl (InvalidArgument ''Staged shards must match the supplied host shard slots''))"
    by (simp add: run_staged_decode_plan_cuda_def example_context_def example_slots_def upt_rec word_eval Let_def)
  then have "run_task example_cuda False zero_metrics race_task [] = Some (race_result, [])"
    by (simp add: run_task_def failed_result_def race_task_def race_result_def zero_metrics_def)
  then show "WorkerLoop example_cuda False zero_metrics 0 (race_executor (Executing race_task))
    = Some (race_executor (Executed 7 race_result), None)"
    by (simp add: WorkerLoop_def race_executor_def example_executor_def race_task_def)
qed (simp_all add: WorkerLoop_def race_executor_def example_executor_def race_task_def)

lemma race_coordinator:
  "\<exists>st. OnRecoveryComplete 7 race_result (example_coordinator (Some (example_request [2, 3, 4, 0] True)))
      = example_coordinator (Some st) \<and> rq_shards st ! 1 = None \<and> length (rq_shards st) = 5 \<and>
     sn_status (rq_snapshot st) = Failed \<and> sn_error (rq_snapshot st) = rt_error race_result"
  by (rule exI [where x = "merge_result race_result (example_request [2, 3, 4, 0] True)"])
    (simp add: OnRecoveryComplete_def example_coordinator_def IsTerminal_def merge_result_def race_result_def Let_def
      example_request_def upt_rec word_eval)

text \<open>
  What the threads do: the events are listed in order, \<open>Arrived\<close> with the shard that the transport
  delivered. Every arrival carries the right payload and none throws.
\<close>

definition race_events :: "ServingEvent list" where
  "race_events = example_evs @
     [Arrived 7 0 [5, 1] Returned, SubmitCalled 7 example_plan example_slots, CompletionCalled 7 race_result,
      Arrived 7 1 [3, 1] Returned]"

lemma race_arrives:
  assumes "stage_arrival example_cuda None 7 i (example_val i) (example_coordinator (Some st)) ex = (ex', None, xevs)"
    and "example_arrival i (example_coordinator (Some st)) = (example_coordinator (Some st'), v)"
  shows "cuda_step example_cuda
     \<lparr>cs_coordinator = example_coordinator (Some st), cs_executor = ex, cs_threads = threads\<rparr>
     [Arrived 7 i (example_val i) v] xevs
     \<lparr>cs_coordinator = example_coordinator (Some st'), cs_executor = ex', cs_threads = threads + threads_of 7 v\<rparr>"
  using cuda_step.arrival [of example_cuda None 7 i "example_val i"
      "\<lparr>cs_coordinator = example_coordinator (Some st), cs_executor = ex, cs_threads = threads\<rparr>" ex' None xevs "Some 50" 0 0] assms
  by simp

lemma race_start:
  "cuda_step example_cuda \<lparr>cs_coordinator = example_coordinator None, cs_executor = example_executor [], cs_threads = {#}\<rparr>
     [Started 7] [] (race_state [] False [] {#})"
  using cuda_step.start_request [of 7 "Some (\<lambda>r t. Inr 100)"
      "\<lparr>cs_coordinator = example_coordinator None, cs_executor = example_executor [], cs_threads = {#}\<rparr>"] example_start by simp

lemma race_run_arrivals:
  "\<exists>xevs. cuda_run example_cuda \<lparr>cs_coordinator = example_coordinator None, cs_executor = example_executor [], cs_threads = {#}\<rparr>
     (example_evs @ [Arrived 7 0 [5, 1] Returned]) xevs
     (race_state [2, 3, 4, 0] True [2, 3, 4, 0] {#Submitting 7 example_plan example_slots#})"
proof -
  note steps = race_arrives [OF race_stage_arrivals(1) example_arrivals(1)]
    race_arrives [OF race_stage_arrivals(2) example_arrivals(2)]
    race_arrives [OF race_stage_arrivals(3) example_arrivals(3)]
    race_arrives [OF race_stage_arrivals(4) example_arrivals(4)]
  from cuda_run.extend_run [OF cuda_run.extend_run [OF cuda_run.extend_run [OF cuda_run.extend_run
      [OF cuda_run.extend_run [OF cuda_run.begin_run race_start] steps(1)] steps(2)] steps(3)] steps(4)]
  show ?thesis by (auto simp: threads_of_def example_evs_def)
qed

lemma race_run_fails:
  assumes "OnRecoveryComplete 7 race_result (example_coordinator (Some (example_request [2, 3, 4, 0] True))) = example_coordinator (Some st)"
  shows "\<exists>xevs threads. cuda_run example_cuda
     \<lparr>cs_coordinator = example_coordinator None, cs_executor = example_executor [], cs_threads = {#}\<rparr>
     (example_evs @ [Arrived 7 0 [5, 1] Returned, SubmitCalled 7 example_plan example_slots, CompletionCalled 7 race_result]) xevs
     \<lparr>cs_coordinator = example_coordinator (Some st), cs_executor = race_executor (Retiring 7), cs_threads = threads\<rparr>"
proof -
  let ?cs = "\<lambda>ex. \<lparr>cs_coordinator = example_coordinator (Some (example_request [2, 3, 4, 0] True)), cs_executor = ex,
     cs_threads = {#Confirming 7#}\<rparr>"
  obtain xevs where run: "cuda_run example_cuda \<lparr>cs_coordinator = example_coordinator None, cs_executor = example_executor [], cs_threads = {#}\<rparr>
     (example_evs @ [Arrived 7 0 [5, 1] Returned]) xevs
     (race_state [2, 3, 4, 0] True [2, 3, 4, 0] {#Submitting 7 example_plan example_slots#})"
    using race_run_arrivals by blast
  have submit: "cuda_step example_cuda (race_state [2, 3, 4, 0] True [2, 3, 4, 0] {#Submitting 7 example_plan example_slots#})
     [SubmitCalled 7 example_plan example_slots] [Accepted 7 example_plan example_slots]
     (?cs ((example_executor [])\<lparr>ex_queue := [race_task]\<rparr>))"
    using cuda_step.accepted [of 7 example_plan example_slots
        "race_state [2, 3, 4, 0] True [2, 3, 4, 0] {#Submitting 7 example_plan example_slots#}" example_cuda 0 False] race_submit by simp
  have work: "cuda_step example_cuda (?cs ex) [] [Worked 0] (?cs ex')"
    if "WorkerLoop example_cuda False zero_metrics 0 ex = Some (ex', None)" "ex_workers ex \<noteq> []" for ex ex'
    using cuda_step.work [of 0 "?cs ex" example_cuda False zero_metrics ex'] that by simp
  have workers: "ex_workers ((example_executor [])\<lparr>ex_queue := [race_task]\<rparr>) \<noteq> []" "ex_workers (race_executor w) \<noteq> []" for w
    by (simp_all add: example_executor_def race_executor_def)
  have complete: "cuda_step example_cuda (?cs (race_executor (Completing 7 race_result)))
     [CompletionCalled 7 race_result] [Completed 7 race_result]
     \<lparr>cs_coordinator = example_coordinator (Some st), cs_executor = race_executor (Retiring 7), cs_threads = {#Confirming 7#}\<rparr>"
    using cuda_step.complete [of 0 "?cs (race_executor (Completing 7 race_result))" example_cuda False zero_metrics
        "race_executor (Retiring 7)" 7 race_result] race_work(4) workers(2) assms by simp
  from cuda_run.extend_run [OF cuda_run.extend_run [OF cuda_run.extend_run [OF cuda_run.extend_run
      [OF cuda_run.extend_run [OF run submit] work [OF race_work(1) workers(1)]] work [OF race_work(2) workers(2)]]
      work [OF race_work(3) workers(2)]] complete]
  show ?thesis by auto
qed

text \<open>
  C28. The window between the decision and the submission is a race: a run of the composed system in which
  every shard of the request is delivered intact and no call of the transport throws ends with the request
  \<open>Failed\<close> and a systematic shard missing. An arrival between the critical section and \<open>Submit\<close> is staged,
  so the staged shards are no longer the submitted ones, and the executor rejects its own task.
\<close>

theorem coordinator_staging_race:
  "\<exists>co ex xevs cs sn. RecoveryCoordinator_new example_graph True = Inr co \<and> CudaRecoveryExecutor_new 1 1 50 = Inr ex \<and>
     cuda_run example_cuda (CudaServing_new co ex) race_events xevs cs \<and> delivered 7 race_events = {0, 1, 2, 3, 4} \<and>
     GetSnapshot 7 (cs_coordinator cs) = Inr sn \<and> sn_status sn = Failed \<and>
     sn_error sn = Some (InvalidArgument ''Staged shards must match the supplied host shard slots'') \<and>
     GetShard 7 1 (cs_coordinator cs) = Inr None"
proof -
  obtain co where co: "RecoveryCoordinator_new example_graph True = Inr co" "Serving_new co = example_serving None {#} {}"
    using example_new by blast
  have new: "CudaServing_new co (example_executor []) = \<lparr>cs_coordinator = example_coordinator None, cs_executor = example_executor [], cs_threads = {#}\<rparr>"
    using co(2) by (simp add: CudaServing_new_def Serving_new_def)
  obtain st where st: "OnRecoveryComplete 7 race_result (example_coordinator (Some (example_request [2, 3, 4, 0] True))) = example_coordinator (Some st)"
      "rq_shards st ! 1 = None" "length (rq_shards st) = 5" "sn_status (rq_snapshot st) = Failed" "sn_error (rq_snapshot st) = rt_error race_result"
    using race_coordinator by blast
  obtain xevs threads where run: "cuda_run example_cuda (CudaServing_new co (example_executor []))
     (example_evs @ [Arrived 7 0 [5, 1] Returned, SubmitCalled 7 example_plan example_slots, CompletionCalled 7 race_result]) xevs
     \<lparr>cs_coordinator = example_coordinator (Some st), cs_executor = race_executor (Retiring 7), cs_threads = threads\<rparr>"
    using race_run_fails [OF st(1)] new by auto
  define st' where "st' = st\<lparr>rq_snapshot := (rq_snapshot st)\<lparr>sn_late_arrivals := sn_late_arrivals (rq_snapshot st) + 1\<rparr>\<rparr>"
  have "example_arrival 1 (example_coordinator (Some st)) = (example_coordinator (Some st'), Returned)"
    by (rule example_OnShardArrived) (simp add: arrival_section_def IsTerminal_def st(4) st'_def Let_def)
  moreover have "stage_arrival example_cuda None 7 1 (example_val 1) (example_coordinator (Some st)) (race_executor (Retiring 7))
      = (race_executor (Retiring 7), None, [])"
    by (simp add: stage_arrival_def reaches_staging_def example_coordinator_def IsTerminal_def st(4))
  ultimately have "cuda_run example_cuda (CudaServing_new co (example_executor [])) race_events (xevs @ [])
     \<lparr>cs_coordinator = example_coordinator (Some st'), cs_executor = race_executor (Retiring 7), cs_threads = threads + threads_of 7 Returned\<rparr>"
    using cuda_run.extend_run [OF run race_arrives [of 1 st]] by (simp add: race_events_def)
  moreover have "delivered 7 race_events = {0, 1, 2, 3, 4}"
    by (auto simp: delivered_def race_events_def example_evs_def)
  moreover have "GetSnapshot 7 (example_coordinator (Some st')) = Inr (rq_snapshot st')" "sn_status (rq_snapshot st') = Failed"
      "sn_error (rq_snapshot st') = rt_error race_result" "GetShard 7 1 (example_coordinator (Some st')) = Inr None"
    using st by (simp_all add: GetSnapshot_def GetShard_def example_coordinator_def st'_def)
  ultimately show ?thesis using co(1) example_executor_new by (fastforce simp: race_result_def)
qed

section \<open>A failed upload\<close>

text \<open>
  The same executor and request, but the copy of shard 0 fails when it arrives first. The transport delivers it again, and then
  the shards 2, 3 and 4, which suffice to recover 0 and 1. No other CUDA call fails.
\<close>

definition recorded_context :: "ShardId list \<Rightarrow> DeviceShardStagingContext" where
  "recorded_context ids = (example_context (0 # ids))\<lparr>sg_device_shards := (sg_device_shards (example_context (0 # ids)))[0 := Some [9, 9]]\<rparr>"

definition recorded_executor :: "ShardId list \<Rightarrow> Executor" where
  "recorded_executor ids = (example_executor [])\<lparr>ex_staged := [7 \<mapsto> (5, recorded_context ids)]\<rparr>"

definition copy_fails :: StagingFailure where
  "copy_fails = Not_uploaded (\<lambda>_. 9)"

definition already_present :: exn where
  "already_present = InvalidArgument ''Staged shard is already present''"

lemma recorded_stages:
  "StageShard example_cuda (Some copy_fails) 7 5 0 [5, 1] (example_executor []) = (recorded_executor [], Some cuda_error)"
  "StageShard example_cuda None 7 5 0 [5, 1] (recorded_executor []) = (recorded_executor [], Some already_present)"
  "StageShard example_cuda None 7 5 2 [4, 4] (recorded_executor []) = (recorded_executor [2], None)"
  "StageShard example_cuda None 7 5 3 [6, 0] (recorded_executor [2]) = (recorded_executor [2, 3], None)"
  "StageShard example_cuda None 7 5 4 [7, 5] (recorded_executor [2, 3]) = (recorded_executor [2, 3, 4], None)"
  by (simp_all add: StageShard_def find_context_def attempt_upload_def example_executor_def HasQueuedRequest_def
      create_device_shard_staging_context_cuda_def stage_decode_shard_cuda_def example_context_def example_cuda_def upt_rec word_eval
      replicate_numeral Let_def numeral_2_eq_2 [symmetric] recorded_executor_def recorded_context_def copy_fails_def already_present_def)

text \<open>The request after the first arrival: the size of its shards is known.\<close>

definition sized_request :: RequestState where
  "sized_request = (example_request [] False)\<lparr>rq_word_count := 2\<rparr>"

lemma recorded_stage_arrivals:
  "stage_arrival example_cuda (Some copy_fails) 7 0 (example_val 0) (example_coordinator (Some (example_request [] False))) (example_executor [])
    = (recorded_executor [], Some cuda_error, [Staged 7 0 (Some cuda_error)])"
  "stage_arrival example_cuda None 7 0 (example_val 0) (example_coordinator (Some sized_request)) (recorded_executor [])
    = (recorded_executor [], Some already_present, [Staged 7 0 (Some already_present)])"
  "stage_arrival example_cuda None 7 2 (example_val 2) (example_coordinator (Some sized_request)) (recorded_executor [])
    = (recorded_executor [2], None, [Staged 7 2 None])"
  "stage_arrival example_cuda None 7 3 (example_val 3) (example_coordinator (Some (example_request [2] False))) (recorded_executor [2])
    = (recorded_executor [2, 3], None, [Staged 7 3 None])"
  "stage_arrival example_cuda None 7 4 (example_val 4) (example_coordinator (Some (example_request [2, 3] False))) (recorded_executor [2, 3])
    = (recorded_executor [2, 3, 4], None, [Staged 7 4 None])"
  using recorded_stages
  by (simp_all add: stage_arrival_def reaches_staging_def example_coordinator_def example_request_def sized_request_def IsTerminal_def
      upt_rec word_eval numeral_2_eq_2 [symmetric])

lemma recorded_sections:
  "arrival_section example_graph (Some cuda_error) (Some 50) 0 7 0 (example_val 0) 0 (example_request [] False) = (sized_request, Threw cuda_error)"
  "arrival_section example_graph (Some already_present) (Some 50) 0 7 0 (example_val 0) 0 sized_request = (sized_request, Threw already_present)"
  "arrival_section example_graph None (Some 50) 0 7 2 (example_val 2) 0 sized_request = (example_request [2] False, Returned)"
proof -
  have "arrival_section example_graph None (Some 50) 0 7 2 (example_val 2) 0 sized_request
      = consider_recovery_plan example_graph (Some 50) 0 7 0 (example_request [2] False)"
    by (simp add: arrival_section_def sized_request_def IsTerminal_def MarkArrived_def IsSystematicComplete_def Let_def
        example_request_def upt_rec word_eval numeral_2_eq_2 [symmetric])
  then show "arrival_section example_graph None (Some 50) 0 7 2 (example_val 2) 0 sized_request = (example_request [2] False, Returned)"
    by (simp only: example_considers)
qed (simp_all add: arrival_section_def sized_request_def IsTerminal_def example_request_def Let_def upt_rec)

lemma arrives:
  assumes "stage_arrival example_cuda failure 7 i (example_val i) (example_coordinator (Some st)) ex = (ex', threw, xevs)"
    and "arrival_section example_graph threw (Some 50) 0 7 i (example_val i) 0 st = (st', v)"
  shows "cuda_step example_cuda
     \<lparr>cs_coordinator = example_coordinator (Some st), cs_executor = ex, cs_threads = threads\<rparr>
     [Arrived 7 i (example_val i) v] xevs
     \<lparr>cs_coordinator = example_coordinator (Some st'), cs_executor = ex', cs_threads = threads + threads_of 7 v\<rparr>"
proof -
  have "OnShardArrived threw (Some 50) 0 7 i (example_val i) 0 (example_coordinator (Some st)) = (example_coordinator (Some st'), v)"
    using assms(2) by (simp add: OnShardArrived_def example_coordinator_def)
  then show ?thesis
    using cuda_step.arrival [of example_cuda failure 7 i "example_val i"
        "\<lparr>cs_coordinator = example_coordinator (Some st), cs_executor = ex, cs_threads = threads\<rparr>" ex' threw xevs "Some 50" 0 0]
      assms(1) by simp
qed

definition recorded_task :: Task where
  "recorded_task = race_task\<lparr>task_context := recorded_context [2, 3, 4]\<rparr>"

lemma recorded_submit:
  "Submit example_cuda 0 False 7 example_plan example_slots (recorded_executor [2, 3, 4])
    = ((example_executor [])\<lparr>ex_queue := [recorded_task]\<rparr>, Inr True)"
  by (simp add: Submit_def notify_one_def sleepers_def recorded_executor_def example_executor_def outstanding_def HasQueuedRequest_def recorded_task_def race_task_def
      example_slots_def Let_def)

lemma recorded_work:
  "WorkerLoop example_cuda False zero_metrics 0 ((example_executor [])\<lparr>ex_queue := [recorded_task]\<rparr>)
    = Some (race_executor (Executing recorded_task), None)"
  "WorkerLoop example_cuda False zero_metrics 0 (race_executor (Executing recorded_task))
    = Some (race_executor (Executed 7 race_result), None)"
proof -
  have "ValidatePlanShape example_plan = Inr ()"
    by (simp add: ValidatePlanShape_def reject_any_def example_plan_def)
  then have "run_staged_decode_plan_cuda (cu_queries example_cuda) (cu_fresh example_cuda) example_plan example_slots
      (recorded_context [2, 3, 4]) []
    = Some (recorded_context [2, 3, 4], Inl (InvalidArgument ''Staged shards must match the supplied host shard slots''))"
    by (simp add: run_staged_decode_plan_cuda_def recorded_context_def example_context_def example_slots_def upt_rec word_eval Let_def)
  then have "run_task example_cuda False zero_metrics recorded_task [] = Some (race_result, [])"
    by (simp add: run_task_def failed_result_def recorded_task_def race_task_def race_result_def zero_metrics_def)
  then show "WorkerLoop example_cuda False zero_metrics 0 (race_executor (Executing recorded_task))
    = Some (race_executor (Executed 7 race_result), None)"
    by (simp add: WorkerLoop_def race_executor_def example_executor_def recorded_task_def race_task_def)
qed (simp_all add: WorkerLoop_def race_executor_def example_executor_def recorded_task_def race_task_def)

definition recorded_events :: "ServingEvent list" where
  "recorded_events = [Started 7, Arrived 7 0 [5, 1] (Threw cuda_error), Arrived 7 0 [5, 1] (Threw already_present),
     Arrived 7 2 [4, 4] Returned, Arrived 7 3 [6, 0] Returned, Arrived 7 4 [7, 5] (SubmitNext example_plan example_slots),
     SubmitCalled 7 example_plan example_slots, CompletionCalled 7 race_result]"

lemma recorded_request_fails:
  "\<exists>st. OnRecoveryComplete 7 race_result (example_coordinator (Some (example_request [2, 3, 4] True))) = example_coordinator (Some st) \<and>
     sn_status (rq_snapshot st) = Failed \<and> sn_error (rq_snapshot st) = rt_error race_result"
  by (rule exI [where x = "merge_result race_result (example_request [2, 3, 4] True)"])
    (simp add: OnRecoveryComplete_def example_coordinator_def IsTerminal_def merge_result_def race_result_def Let_def
      example_request_def)

lemma recorded_run:
  assumes "OnRecoveryComplete 7 race_result (example_coordinator (Some (example_request [2, 3, 4] True))) = example_coordinator (Some st)"
  shows "\<exists>xevs ex threads. cuda_run example_cuda
     \<lparr>cs_coordinator = example_coordinator None, cs_executor = example_executor [], cs_threads = {#}\<rparr> recorded_events xevs
     \<lparr>cs_coordinator = example_coordinator (Some st), cs_executor = ex, cs_threads = threads\<rparr>"
proof -
  let ?cs = "\<lambda>threads ex. \<lparr>cs_coordinator = example_coordinator (Some (example_request [2, 3, 4] True)), cs_executor = ex,
     cs_threads = threads\<rparr>"
  let ?submitting = "{#Submitting 7 example_plan example_slots#}"
  note steps = arrives [OF recorded_stage_arrivals(1) recorded_sections(1)]
    arrives [OF recorded_stage_arrivals(2) recorded_sections(2)]
    arrives [OF recorded_stage_arrivals(3) recorded_sections(3)]
    arrives [OF recorded_stage_arrivals(4), unfolded example_sections, OF example_considers(2)]
    arrives [OF recorded_stage_arrivals(5), unfolded example_sections, OF example_consider_submits]
  have submit: "cuda_step example_cuda (?cs ?submitting (recorded_executor [2, 3, 4]))
     [SubmitCalled 7 example_plan example_slots] [Accepted 7 example_plan example_slots]
     (?cs {#Confirming 7#} ((example_executor [])\<lparr>ex_queue := [recorded_task]\<rparr>))"
    using cuda_step.accepted [of 7 example_plan example_slots "?cs ?submitting (recorded_executor [2, 3, 4])" example_cuda 0 False]
      recorded_submit by simp
  have work: "cuda_step example_cuda (?cs {#Confirming 7#} ex) [] [Worked 0] (?cs {#Confirming 7#} ex')"
    if "WorkerLoop example_cuda False zero_metrics 0 ex = Some (ex', None)" "ex_workers ex \<noteq> []" for ex ex'
    using cuda_step.work [of 0 "?cs {#Confirming 7#} ex" example_cuda False zero_metrics ex'] that by simp
  have workers: "ex_workers ((example_executor [])\<lparr>ex_queue := [recorded_task]\<rparr>) \<noteq> []" "ex_workers (race_executor w) \<noteq> []" for w
    by (simp_all add: example_executor_def race_executor_def)
  have complete: "cuda_step example_cuda (?cs {#Confirming 7#} (race_executor (Completing 7 race_result)))
     [CompletionCalled 7 race_result] [Completed 7 race_result]
     \<lparr>cs_coordinator = example_coordinator (Some st), cs_executor = race_executor (Retiring 7), cs_threads = {#Confirming 7#}\<rparr>"
    using cuda_step.complete [of 0 "?cs {#Confirming 7#} (race_executor (Completing 7 race_result))" example_cuda False zero_metrics
        "race_executor (Retiring 7)" 7 race_result] race_work(4) workers(2) assms by simp
  from cuda_run.extend_run [OF cuda_run.extend_run [OF cuda_run.extend_run [OF cuda_run.extend_run
      [OF cuda_run.extend_run [OF cuda_run.extend_run [OF cuda_run.begin_run race_start] steps(1)] steps(2)] steps(3)] steps(4)] steps(5)]
  obtain xevs where run: "cuda_run example_cuda
     \<lparr>cs_coordinator = example_coordinator None, cs_executor = example_executor [], cs_threads = {#}\<rparr>
     [Started 7, Arrived 7 0 [5, 1] (Threw cuda_error), Arrived 7 0 [5, 1] (Threw already_present),
      Arrived 7 2 [4, 4] Returned, Arrived 7 3 [6, 0] Returned, Arrived 7 4 [7, 5] (SubmitNext example_plan example_slots)] xevs
     (?cs ?submitting (recorded_executor [2, 3, 4]))"
    by (auto simp: threads_of_def)
  from cuda_run.extend_run [OF cuda_run.extend_run [OF cuda_run.extend_run [OF cuda_run.extend_run
      [OF cuda_run.extend_run [OF run submit] work [OF recorded_work(1) workers(1)]] work [OF recorded_work(2) workers(2)]]
      work [OF race_work(3) workers(2)]] complete]
  show ?thesis by (auto simp: recorded_events_def)
qed

text \<open>
  C29. One failed copy dooms a request. In a run of the composed system the copy of shard 0 fails once and every other call
  succeeds: the shard cannot be delivered again, and although the other arrivals make the request recoverable and the recovery is
  submitted and executed, the request ends \<open>Failed\<close>. \<open>stage_decode_shard_cuda\<close> records the shard before the copy, so the
  staged shards never match the ones that the coordinator submits.
\<close>

theorem failed_upload_dooms_request:
  "\<exists>co ex xevs cs sn. RecoveryCoordinator_new example_graph True = Inr co \<and> CudaRecoveryExecutor_new 1 1 50 = Inr ex \<and>
     cuda_run example_cuda (CudaServing_new co ex) recorded_events xevs cs \<and>
     snd (execute_decode_plan_cpu example_plan example_slots) = None \<and>
     GetSnapshot 7 (cs_coordinator cs) = Inr sn \<and> sn_status sn = Failed \<and>
     sn_error sn = Some (InvalidArgument ''Staged shards must match the supplied host shard slots'')"
proof -
  obtain co where co: "RecoveryCoordinator_new example_graph True = Inr co" "Serving_new co = example_serving None {#} {}"
    using example_new by blast
  have new: "CudaServing_new co (example_executor []) = \<lparr>cs_coordinator = example_coordinator None, cs_executor = example_executor [], cs_threads = {#}\<rparr>"
    using co(2) by (simp add: CudaServing_new_def Serving_new_def)
  obtain st where st: "OnRecoveryComplete 7 race_result (example_coordinator (Some (example_request [2, 3, 4] True))) = example_coordinator (Some st)"
      "sn_status (rq_snapshot st) = Failed" "sn_error (rq_snapshot st) = rt_error race_result"
    using recorded_request_fails by blast
  obtain xevs ex threads where run: "cuda_run example_cuda (CudaServing_new co (example_executor [])) recorded_events xevs
     \<lparr>cs_coordinator = example_coordinator (Some st), cs_executor = ex, cs_threads = threads\<rparr>"
    using recorded_run [OF st(1)] new by auto
  have snapshot: "GetSnapshot 7 (cs_coordinator \<lparr>cs_coordinator = example_coordinator (Some st), cs_executor = ex, cs_threads = threads\<rparr>)
      = Inr (rq_snapshot st)"
    by (simp add: GetSnapshot_def example_coordinator_def)
  have "snd (execute_decode_plan_cpu example_plan example_slots) = None"
    using example_execution by (simp add: example_slots_def)
  then show ?thesis using co(1) example_executor_new run snapshot st(2,3)
    by (auto simp: race_result_def intro!: exI)
qed

theorem cuda_serving_refines_witness:
  "\<exists>ex sv. exec_trace example_cuda (example_executor []) ex (example_executor [2, 3, 4, 0]) \<and>
     serve_trace (example_serving None {#} {}) (example_evs @ [Arrived 7 0 [5, 1] Returned]) sv \<and>
     sv_coordinator sv = example_coordinator (Some (example_request [2, 3, 4, 0] True))"
proof -
  obtain co where co: "RecoveryCoordinator_new example_graph True = Inr co" "Serving_new co = example_serving None {#} {}"
    using example_new by blast
  have new: "CudaServing_new co (example_executor []) = \<lparr>cs_coordinator = example_coordinator None, cs_executor = example_executor [], cs_threads = {#}\<rparr>"
    using co(2) by (simp add: CudaServing_new_def Serving_new_def)
  obtain xevs where "cuda_run example_cuda (CudaServing_new co (example_executor [])) (example_evs @ [Arrived 7 0 [5, 1] Returned]) xevs
     (race_state [2, 3, 4, 0] True [2, 3, 4, 0] {#Submitting 7 example_plan example_slots#})"
    using race_run_arrivals new by auto
  from cuda_serving_refines [OF example_executor_new example_cuda_runtime this] co(2) show ?thesis by auto
qed

end
