(* ===== verification/CoordinatorLifetime.thy ===== *)
theory CoordinatorLifetime imports CudaServing begin

text \<open>
  The end of a coordinator and of waiting on it (\<open>src/runtime/coordinator.cpp\<close>): \<open>WaitForCompletion\<close> and the
  destructor of \<open>Impl\<close>, which cancels every request at the executor.

  A condition variable may wake up at any time, so a wait is the list of the states in which the predicate is
  evaluated: at the call, at every wake-up, and last when the timeout has passed. The arrival handlers share
  the ownership of \<open>Impl\<close>, so the destructor runs when no arrival thread is in flight; here it is one step, and
  \<open>CoordinatorOwnership\<close> interleaves it with the handlers and the workers.
\<close>

section \<open>Waiting\<close>

text \<open>\<open>condition_variable::wait_for\<close> with a predicate.\<close>

fun wait_for :: "('a \<Rightarrow> bool) \<Rightarrow> 'a list \<Rightarrow> bool" where
  "wait_for P [] = False"
| "wait_for P [last_state] = P last_state"
| "wait_for P (state # wakeups) = (if P state then True else wait_for P wakeups)"

definition WaitForCompletion :: "RequestId \<Rightarrow> Coordinator \<Rightarrow> Coordinator list \<Rightarrow> bool result" where
  "WaitForCompletion r co wakeups =
     (if co_requests co r = None then Inl (InvalidArgument ''Unknown request ID'')
      else Inr (wait_for (\<lambda>co. case co_requests co r of None \<Rightarrow> False
                             | Some st \<Rightarrow> IsTerminal (sn_status (rq_snapshot st))) (co # wakeups)))"

section \<open>The destructor\<close>

text \<open>\<open>order\<close> is the order in which the hash map of the requests is traversed.\<close>

definition Coordinator_destroy :: "RequestId list \<Rightarrow> Executor \<Rightarrow> Executor" where
  "Coordinator_destroy order ex = fold (\<lambda>r ex. fst (Cancel r ex)) order ex"

section \<open>Every request of the executor is one of the coordinator's\<close>

definition requests_of :: "Executor \<Rightarrow> RequestId set" where
  "requests_of ex = task_request ` set (ex_queue ex) \<union> dom (ex_staged ex) \<union> ex_running ex"

fun thread_request :: "ArrivalThread \<Rightarrow> RequestId" where
  "thread_request (Submitting r plan shards) = r"
| "thread_request (Confirming r) = r"
| "thread_request (Rejecting r) = r"
| "thread_request (Cancelling r) = r"

definition all_known :: "CudaServing \<Rightarrow> bool" where
  "all_known cs \<longleftrightarrow> requests_of (cs_executor cs) \<subseteq> dom (co_requests (cs_coordinator cs)) \<and>
     (\<forall>thread\<in>#cs_threads cs. thread_request thread \<in> dom (co_requests (cs_coordinator cs)))"

lemma set_erase_subset: "set (erase_task r ts) \<subseteq> set ts"
  by (induction ts) auto

lemma requests_of_Cancel: "Cancel r ex = (ex', b) \<Longrightarrow> requests_of ex' \<subseteq> requests_of ex"
  using set_erase_subset [of r "ex_queue ex"]
  by (auto simp: Cancel_def Let_def requests_of_def split: if_splits)

lemma requests_of_StageShard: "StageShard cu failure r n i w ex = (ex', e) \<Longrightarrow> requests_of ex' \<subseteq> insert r (requests_of ex)"
  by (auto simp: StageShard_def requests_of_def split: if_splits sum.splits prod.splits)

lemma requests_of_Submit: "Submit cu pick failing r plan shards ex = (ex', v) \<Longrightarrow> requests_of ex' \<subseteq> insert r (requests_of ex)"
  by (drule Submit_cases) (auto simp: requests_of_def)

lemma requests_of_WorkerLoop: "WorkerLoop cu failing measured i ex = Some (ex', v) \<Longrightarrow> requests_of ex' \<subseteq> requests_of ex"
  by (auto simp: WorkerLoop_def Let_def requests_of_def split: Worker.splits list.splits if_splits)

lemma dom_OnShardArrived:
  "OnShardArrived threw estimate planning r i payload t co = (co', v) \<Longrightarrow>
    dom (co_requests co') = dom (co_requests co) \<and> (v \<in> {SubmitNext plan shards, CancelNext} \<longrightarrow> r \<in> dom (co_requests co))"
  by (auto simp: OnShardArrived_def split: option.splits prod.splits if_splits)

lemma dom_callbacks [simp]:
  "dom (co_requests (RejectRecovery r co)) = dom (co_requests co)"
  "dom (co_requests (OnRecoveryComplete r result co)) = dom (co_requests co)"
  by (auto simp: RejectRecovery_def OnRecoveryComplete_def split: option.splits)

lemma cuda_step_known:
  assumes "cuda_step cu cs sev xev cs'" "all_known cs"
  shows "all_known cs'"
  using assms(1)
proof cases
  case (start_request r wait co)
  from start_request(4) obtain st where "co = (cs_coordinator cs)\<lparr>co_requests := (co_requests (cs_coordinator cs))(r \<mapsto> st)\<rparr>"
    by (rule StartRequest_cases) blast
  then show ?thesis using assms(2) start_request(3) by (auto simp: all_known_def dest: in_diffD)
next
  case (arrival failure r i payload ex threw estimate planning t co v)
  let ?D = "dom (co_requests (cs_coordinator cs))"
  have d: "dom (co_requests co) = ?D" using dom_OnShardArrived [OF arrival(4)] by blast
  have "\<forall>thread\<in>#threads_of r v. thread_request thread \<in> ?D"
    using dom_OnShardArrived [OF arrival(4)] by (auto simp: threads_of_def split: ArrivalOutcome.splits)
  moreover have "requests_of ex \<subseteq> requests_of (cs_executor cs) \<union> ?D"
    using arrival(3) requests_of_StageShard
    by (fastforce simp: stage_arrival_def split: option.splits if_splits prod.splits)
  ultimately show ?thesis using assms(2) arrival(2) d by (auto simp: all_known_def dest: in_diffD)
next
  case (accepted r plan shards pick failing ex)
  have "r \<in> dom (co_requests (cs_coordinator cs))" using accepted(4) assms(2) by (force simp: all_known_def)
  then show ?thesis
    using accepted(3) requests_of_Submit [OF accepted(5)] assms(2) by (auto simp: all_known_def dest: in_diffD)
next
  case (refused r plan shards pick failing ex)
  have "r \<in> dom (co_requests (cs_coordinator cs))" using refused(4) assms(2) by (force simp: all_known_def)
  then show ?thesis
    using refused(3) requests_of_Submit [OF refused(5)] assms(2) by (auto simp: all_known_def dest: in_diffD)
next
  case (submit_threw r plan shards pick failing ex e)
  have "r \<in> dom (co_requests (cs_coordinator cs))" using submit_threw(4) assms(2) by (force simp: all_known_def)
  then show ?thesis
    using submit_threw(3) requests_of_Submit [OF submit_threw(5)] assms(2) by (auto simp: all_known_def dest: in_diffD)
next
  case (confirm r)
  have "r \<in> dom (co_requests (cs_coordinator cs))" using confirm(4) assms(2) by (force simp: all_known_def)
  then show ?thesis using confirm(3) assms(2) by (auto simp: all_known_def dest: in_diffD)
next
  case (reject r)
  then show ?thesis using assms(2) by (auto simp: all_known_def dest: in_diffD)
next
  case (cancel r ex b)
  then show ?thesis using requests_of_Cancel [OF cancel(5)] assms(2) by (auto simp: all_known_def dest: in_diffD)
next
  case stop
  then show ?thesis using assms(2) by (simp add: all_known_def requests_of_def Executor_stop_def)
next
  case (spurious i ex)
  then show ?thesis using spurious_wakeup_cases(2) [OF spurious(4)] assms(2) by (simp add: all_known_def requests_of_def)
next
  case (work i failing measured ex)
  then show ?thesis using requests_of_WorkerLoop [OF work(5)] assms(2) by (auto simp: all_known_def dest: in_diffD)
next
  case (complete i failing measured ex r result)
  then show ?thesis using requests_of_WorkerLoop [OF complete(5)] assms(2) by (auto simp: all_known_def dest: in_diffD)
qed

lemma cuda_run_known: "cuda_run cu cs sevs xevs cs' \<Longrightarrow> all_known cs \<Longrightarrow> all_known cs'"
  by (induction rule: cuda_run.induct) (blast intro: cuda_step_known)+

lemma all_known_new: "CudaRecoveryExecutor_new c d s = Inr ex \<Longrightarrow> all_known (CudaServing_new co ex)"
  by (auto simp: CudaRecoveryExecutor_new_def Let_def all_known_def CudaServing_new_def requests_of_def split: if_splits)

section \<open>After the destructor\<close>

definition cancelled_at :: "RequestId \<Rightarrow> Executor \<Rightarrow> bool" where
  "cancelled_at r ex \<longleftrightarrow> r \<notin> task_request ` set (ex_queue ex) \<and> ex_staged ex r = None \<and>
     (r \<in> ex_running ex \<longrightarrow> r \<in> ex_cancelled ex)"

lemma Cancel_cancels:
  assumes "executor_inv cu ex" "Cancel r ex = (ex', b)"
  shows "cancelled_at r ex'" "cancelled_at q ex \<Longrightarrow> cancelled_at q ex'" "ex_workers ex' = ex_workers ex" "ex_running ex' = ex_running ex"
proof -
  have i: "ids_ok ex" and d: "distinct (map task_request (ex_queue ex))" using assms(1) by (simp_all add: executor_inv_def ids_ok_def)
  note e = erase_task_set [OF d, of r]
  show "cancelled_at r ex'"
    using assms(2) i e by (auto simp: Cancel_def Let_def cancelled_at_def ids_ok_def HasQueuedRequest_iff split: if_splits)
  show "cancelled_at q ex \<Longrightarrow> cancelled_at q ex'"
    using assms(2) e by (auto simp: Cancel_def Let_def cancelled_at_def HasQueuedRequest_iff split: if_splits)
  show "ex_workers ex' = ex_workers ex" "ex_running ex' = ex_running ex" using assms(2) by (auto simp: Cancel_def Let_def split: if_splits)
qed

lemma destroy_cancels:
  assumes "executor_inv cu ex"
  shows "executor_inv cu (Coordinator_destroy order ex) \<and> (\<forall>r\<in>set order. cancelled_at r (Coordinator_destroy order ex)) \<and>
    requests_of (Coordinator_destroy order ex) \<subseteq> requests_of ex \<and>
    ex_workers (Coordinator_destroy order ex) = ex_workers ex"
proof (induction order rule: rev_induct)
  case Nil
  then show ?case using assms by (simp add: Coordinator_destroy_def)
next
  case (snoc r order)
  let ?ex = "Coordinator_destroy order ex"
  obtain ex' b where c: "Cancel r ?ex = (ex', b)" by fastforce
  then have "Coordinator_destroy (order @ [r]) ex = ex'" by (simp add: Coordinator_destroy_def)
  then show ?case
    using snoc Cancel_cancels [of cu ?ex r ex' b] Cancel_inv [of cu ?ex r ex' b] requests_of_Cancel [OF c] c by auto
qed

text \<open>Nothing queued, every running request cancelled; \<open>C\<close> are the requests whose completion is already under way.\<close>

definition quiet :: "RequestId set \<Rightarrow> Executor \<Rightarrow> bool" where
  "quiet C ex \<longleftrightarrow> ex_queue ex = [] \<and> ex_running ex \<subseteq> ex_cancelled ex \<and>
     (\<forall>r result. Completing r result \<in> set (ex_workers ex) \<longrightarrow> r \<in> C)"

lemma quiet_wakes: "quiet C ex \<Longrightarrow> wakes (ex_workers ex) ws \<Longrightarrow> quiet C (ex\<lparr>ex_workers := ws\<rparr>)"
  using wakes_set [of "ex_workers ex" ws] by (fastforce simp: quiet_def)

lemma WorkerLoop_quiet:
  assumes "quiet C ex" "executor_inv cu ex" "i < length (ex_workers ex)" "WorkerLoop cu failing measured i ex = Some (ex', v)"
  shows "quiet C ex' \<and> (\<forall>r result. v = Some (r, result) \<longrightarrow> r \<in> C)"
proof (cases "ex_workers ex ! i")
  case (Executed r result)
  have "r \<in> ex_running ex" using assms(2,3) Executed by (auto simp: executor_inv_def workers_ok_def)
  then show ?thesis
    using assms(1,3,4) Executed set_update_worker by (fastforce simp: WorkerLoop_def Let_def quiet_def)
next
  case (Completing r result)
  then have "r \<in> C" using assms(1,3) nth_mem [OF assms(3)] by (auto simp: quiet_def)
  then show ?thesis using assms(1,4) Completing set_update_worker by (fastforce simp: WorkerLoop_def Let_def quiet_def)
next
  case Waiting
  then show ?thesis using assms(1,4) set_update_worker by (fastforce simp: WorkerLoop_def Let_def quiet_def split: if_splits)
next
  case (Executing task)
  then show ?thesis using assms(1,4) set_update_worker by (fastforce simp: WorkerLoop_def Let_def quiet_def)
next
  case (Retiring r)
  then show ?thesis using assms(1,4) set_update_worker by (fastforce simp: WorkerLoop_def Let_def quiet_def)
next
  case Notifying
  then have "quiet C (ex\<lparr>ex_workers := (ex_workers ex)[i := Waiting]\<rparr>)"
    using assms(1) set_update_worker by (fastforce simp: quiet_def)
  from quiet_wakes [OF this, of "notify_all ((ex_workers ex)[i := Waiting])"] show ?thesis
    using assms(4) Notifying by (auto simp: WorkerLoop_def Let_def wakes_notify_all)
next
  case Sleeping
  then show ?thesis using assms(4) by (simp add: WorkerLoop_def)
next
  case Exited
  then show ?thesis using assms(4) by (simp add: WorkerLoop_def)
qed

lemma exec_step_quiet:
  assumes "exec_step cu ex ev ex'" "quiet C ex" "executor_inv cu ex" "\<And>r plan shards. ev \<noteq> Accepted r plan shards"
  shows "quiet C ex' \<and> (\<forall>r result. ev = Completed r result \<longrightarrow> r \<in> C)"
  using assms(1)
proof cases
  case (stage failure r n i w threw)
  have "tasks_ok ex" using assms(3) by (simp add: executor_inv_def)
  from StageShard_cases [OF this stage(2)] show ?thesis using assms(2) stage(1) by (elim disjE exE conjE) (simp_all add: quiet_def)
next
  case (submit pick failing r plan shards)
  then show ?thesis using assms(4) by blast
next
  case (refuse pick failing r plan shards v)
  then show ?thesis using Submit_cases [OF refuse(2)] assms(2) by (auto simp: quiet_def)
next
  case (cancel r b)
  have "ex_queue ex = []" "ex_running ex \<subseteq> ex_cancelled ex" using assms(2) by (simp_all add: quiet_def)
  then have "ex_queue ex' = [] \<and> ex_running ex' \<subseteq> ex_cancelled ex' \<and> ex_workers ex' = ex_workers ex"
    using cancel(2) by (auto simp: Cancel_def Let_def HasQueuedRequest_iff split: if_splits)
  then show ?thesis using assms(2) cancel(1) by (simp add: quiet_def)
next
  case stop
  have "quiet C (ex\<lparr>ex_stopping := True\<rparr>)" using assms(2) by (simp add: quiet_def)
  from quiet_wakes [OF this, of "notify_all (ex_workers ex)"] show ?thesis
    using stop by (simp add: Executor_stop_def wakes_notify_all)
next
  case (spurious i)
  then show ?thesis
    using quiet_wakes [OF assms(2) spurious_wakeup_cases(1) [OF spurious(2)]] spurious_wakeup_cases(2) [OF spurious(2)] by simp
next
  case (work i failing measured)
  then show ?thesis using WorkerLoop_quiet [OF assms(2,3) work(2,3)] by simp
next
  case (complete i failing measured r result)
  then show ?thesis using WorkerLoop_quiet [OF assms(2,3) complete(2,3)] by simp
qed

lemma exec_trace_quiet:
  assumes "exec_trace cu ex evs ex'" "quiet C ex" "executor_inv cu ex" "runtime_ok (cu_queries cu)"
    and "\<And>r plan shards. Accepted r plan shards \<notin> set evs"
  shows "quiet C ex' \<and> (\<forall>r result. Completed r result \<in> set evs \<longrightarrow> r \<in> C)"
  using assms
proof (induction rule: exec_trace.induct)
  case (next_event ex evs ex' ev ex'')
  then have "quiet C ex'" "\<forall>r result. Completed r result \<in> set evs \<longrightarrow> r \<in> C" by auto
  moreover have "executor_inv cu ex'" by (rule exec_trace_inv [OF next_event.hyps(1) next_event.prems(2,3)])
  ultimately show ?case using exec_step_quiet [OF next_event.hyps(2), of C] next_event.prems(4) by auto
qed simp

section \<open>Properties\<close>

text \<open>
  Tearing a coordinator down leaves its executor idle: whatever happened before, once the destructor has run
  nothing is queued, no staged shard stays on the device and every task still on a worker is cancelled. Until the
  next submission the workers then deliver no completion but one that was already past the cancellation check.
\<close>

theorem coordinator_teardown:
  assumes "CudaRecoveryExecutor_new c d s = Inr ex0" "runtime_ok (cu_queries cu)"
    and "cuda_run cu (CudaServing_new co ex0) sevs xevs cs" "set order = dom (co_requests (cs_coordinator cs))"
    and "ex = Coordinator_destroy order (cs_executor cs)"
    and "exec_trace cu ex evs ex'" "\<forall>r plan shards. Accepted r plan shards \<notin> set evs"
  shows "ex_queue ex = [] \<and> ex_staged ex = Map.empty \<and> ex_running ex \<subseteq> ex_cancelled ex \<and> ex_queue ex' = [] \<and>
    (\<forall>r result. Completed r result \<in> set evs \<longrightarrow> (\<exists>result'. Completing r result' \<in> set (ex_workers (cs_executor cs))))"
proof -
  have inv: "executor_inv cu (cs_executor cs)"
    using reachable_inv [OF assms(1) CudaServing_parts(1) [OF assms(1-3)] assms(2)] .
  note d = destroy_cancels [OF inv, of order]
  have "all_known cs" using cuda_run_known [OF assms(3) all_known_new [OF assms(1)]] .
  then have "requests_of ex \<subseteq> set order" using d assms(4,5) unfolding all_known_def by blast
  then have "\<forall>r\<in>requests_of ex. cancelled_at r ex" using d assms(5) by blast
  then have known: "r \<in> requests_of ex \<Longrightarrow> cancelled_at r ex" for r by blast
  have "task_request (hd (ex_queue ex)) \<in> task_request ` set (ex_queue ex)" if "ex_queue ex \<noteq> []" using that by simp
  then have queue: "ex_queue ex = []" using known unfolding requests_of_def cancelled_at_def by blast
  have "ex_staged ex r = None" for r using known [of r] by (cases "ex_staged ex r") (auto simp: requests_of_def cancelled_at_def)
  then have staged: "ex_staged ex = Map.empty" by blast
  have running: "ex_running ex \<subseteq> ex_cancelled ex" using known unfolding requests_of_def cancelled_at_def by blast
  note idle = queue staged running
  define C where "C = {r. \<exists>result. Completing r result \<in> set (ex_workers (cs_executor cs))}"
  have "quiet C ex" using idle d assms(5) by (auto simp: quiet_def C_def)
  from exec_trace_quiet [OF assms(6) this _ assms(2)] d assms(5,7) idle show ?thesis by (simp add: quiet_def C_def)
qed

theorem coordinator_teardown_witness:
  "\<exists>cs co xevs ex'. cuda_run example_cuda (CudaServing_new co (example_executor []))
       (example_evs @ [Arrived 7 0 [5, 1] Returned] @ [SubmitCalled 7 example_plan example_slots]) xevs cs \<and>
     ex_queue (cs_executor cs) = [race_task] \<and> ex_queue (Coordinator_destroy [7] (cs_executor cs)) = [] \<and>
     exec_trace example_cuda (Coordinator_destroy [7] (cs_executor cs)) ([] @ [Stopped]) ex' \<and> ex_queue ex' = []"
proof -
  let ?cs = "\<lparr>cs_coordinator = example_coordinator (Some (example_request [2, 3, 4, 0] True)),
     cs_executor = (example_executor [])\<lparr>ex_queue := [race_task]\<rparr>, cs_threads = {#Confirming 7#}\<rparr>"
  obtain co where "Serving_new co = example_serving None {#} {}" using example_new by blast
  then have new: "CudaServing_new co (example_executor []) = \<lparr>cs_coordinator = example_coordinator None, cs_executor = example_executor [], cs_threads = {#}\<rparr>"
    by (simp add: CudaServing_new_def Serving_new_def)
  obtain xevs where run: "cuda_run example_cuda (CudaServing_new co (example_executor [])) (example_evs @ [Arrived 7 0 [5, 1] Returned]) xevs
     (race_state [2, 3, 4, 0] True [2, 3, 4, 0] {#Submitting 7 example_plan example_slots#})"
    using race_run_arrivals new by auto
  have "cuda_step example_cuda (race_state [2, 3, 4, 0] True [2, 3, 4, 0] {#Submitting 7 example_plan example_slots#})
     [SubmitCalled 7 example_plan example_slots] [Accepted 7 example_plan example_slots] ?cs"
    using cuda_step.accepted [of 7 example_plan example_slots
        "race_state [2, 3, 4, 0] True [2, 3, 4, 0] {#Submitting 7 example_plan example_slots#}" example_cuda 0 False] race_submit by simp
  note run' = cuda_run.extend_run [OF run this]
  let ?ex = "Coordinator_destroy [7] (cs_executor ?cs)"
  have t: "exec_trace example_cuda ?ex ([] @ [Stopped]) (Executor_stop ?ex)"
    by (rule exec_trace.next_event [OF exec_trace.start exec_step.stop])
  have "set [7] = dom (co_requests (cs_coordinator ?cs))" by (simp add: example_coordinator_def)
  from coordinator_teardown [OF example_executor_new example_cuda_runtime run' this refl t] run' t
  show ?thesis by (intro exI [of _ ?cs] exI [of _ co] exI conjI) auto
qed

section \<open>What a wait returns\<close>

text \<open>States of one run, in order.\<close>

fun observed :: "Serving list \<Rightarrow> bool" where
  "observed [] = True"
| "observed [sv] = True"
| "observed (sv # sv' # svs) \<longleftrightarrow> (\<exists>evs. serve_trace sv evs sv') \<and> observed (sv' # svs)"

definition terminal_at :: "RequestId \<Rightarrow> Serving \<Rightarrow> bool" where
  "terminal_at r sv \<longleftrightarrow> (\<exists>st. co_requests (sv_coordinator sv) r = Some st \<and> IsTerminal (sn_status (rq_snapshot st)))"

lemma terminal_at_mono: "serve_trace sv evs sv' \<Longrightarrow> terminal_at r sv \<Longrightarrow> terminal_at r sv'"
  using serve_trace_terminal [of sv evs sv' r] by (auto simp: terminal_at_def request_of_def same_outcome_def)

lemma wait_for_observed:
  "observed (sv # svs) \<Longrightarrow> wait_for P (map sv_coordinator (sv # svs)) = terminal_at r (last (sv # svs))"
  if P: "\<And>sv. P (sv_coordinator sv) = terminal_at r sv" for P
proof (induction svs arbitrary: sv)
  case (Cons sv' svs)
  have "terminal_at r (last (sv' # svs))" if "terminal_at r sv"
  proof -
    have "terminal_at r sv'" using Cons.prems that terminal_at_mono by auto
    then have "wait_for P (map sv_coordinator (sv' # svs))" using P by (cases svs) auto
    then show ?thesis using Cons by auto
  qed
  then show ?case using Cons P by auto
qed (simp add: P)

text \<open>
  A wait for a known request never misses its end: whatever wakes the thread up and whenever the timeout passes, it
  returns whether the request is terminal in the last state it looks at, and once true this stays true.
\<close>

theorem wait_reports_outcome:
  assumes "observed (sv # svs)" "co_requests (sv_coordinator sv) r \<noteq> None" "serve_trace (last (sv # svs)) evs sv'"
  shows "WaitForCompletion r (sv_coordinator sv) (map sv_coordinator svs) = Inr (terminal_at r (last (sv # svs))) \<and>
    (terminal_at r (last (sv # svs)) \<longrightarrow> terminal_at r sv')"
proof -
  have "(case co_requests (sv_coordinator sv) r of None \<Rightarrow> False | Some st \<Rightarrow> IsTerminal (sn_status (rq_snapshot st)))
      = terminal_at r sv" for sv :: Serving
    by (auto simp: terminal_at_def split: option.splits)
  from wait_for_observed [OF this assms(1)] show ?thesis
    using assms(2) terminal_at_mono [OF assms(3)] by (simp add: WaitForCompletion_def)
qed

end
