(* ===== verification/CoordinatorOwnership.thy ===== *)
theory CoordinatorOwnership imports CoordinatorLifetime begin

text \<open>
  Who keeps the coordinator and its executor alive (\<open>src/runtime/coordinator.cpp\<close>,
  \<open>src/runtime/cuda_recovery_executor.cpp\<close>), and which thread destroys them. \<open>RecoveryCoordinator\<close> shares its \<open>Impl\<close> with
  every arrival handler and completion handler that has locked its weak pointer, the last owner runs \<open>~Impl\<close>, and \<open>Impl\<close>
  shares the executor with the client that created it.

  A step is one of the composition \<open>CudaServing\<close>, a handler that locks its weak pointer or returns, a reference that is
  dropped, or a step of a destructor. The members of \<open>Impl\<close> stay in the model's state after its end, when no step reads
  them.
\<close>

section \<open>The owners\<close>

datatype Thread = Worker_thread nat | Other_thread

datatype ImplLife = Alive | Destroying Thread "RequestId list" | Destroyed

datatype ExecutorLife = Running | Joining Thread | Joined

text \<open>
  \<open>ow_object\<close>: the \<open>RecoveryCoordinator\<close> exists; \<open>ow_handle\<close>: the client holds the executor. The arrival handlers that own \<open>Impl\<close> are
  those that have locked and not yet entered the critical section, those in \<open>cs_threads\<close>, and those about to return; the
  workers whose completion handler owns it are those that have locked and those that have delivered.
\<close>

record Owned =
  ow_serving :: CudaServing
  ow_object :: bool
  ow_handle :: bool
  ow_entering :: nat
  ow_leaving :: nat
  ow_locked :: "nat set"
  ow_delivered :: "nat set"
  ow_impl :: ImplLife
  ow_life :: ExecutorLife
  ow_terminated :: bool

definition Owned_new :: "Coordinator \<Rightarrow> Executor \<Rightarrow> Owned" where
  "Owned_new co ex = \<lparr>ow_serving = CudaServing_new co ex, ow_object = True, ow_handle = True, ow_entering = 0, ow_leaving = 0,
     ow_locked = {}, ow_delivered = {}, ow_impl = Alive, ow_life = Running, ow_terminated = False\<rparr>"

abbreviation ow_executor :: "Owned \<Rightarrow> Executor" where
  "ow_executor ow \<equiv> cs_executor (ow_serving ow)"

definition set_executor :: "Executor \<Rightarrow> Owned \<Rightarrow> Owned" where
  "set_executor ex ow = ow\<lparr>ow_serving := (ow_serving ow)\<lparr>cs_executor := ex\<rparr>\<rparr>"

text \<open>The use count of the shared pointer to \<open>Impl\<close>.\<close>

definition use_count :: "Owned \<Rightarrow> nat" where
  "use_count ow = of_bool (ow_object ow) + ow_entering ow + size (cs_threads (ow_serving ow)) + ow_leaving ow +
     card (ow_locked ow \<union> ow_delivered ow)"

text \<open>An owner has gone: the last one starts \<open>~Impl\<close>, which traverses the map of the requests in \<open>order\<close>.\<close>

definition release_impl :: "RequestId list \<Rightarrow> Thread \<Rightarrow> Owned \<Rightarrow> Owned" where
  "release_impl order th ow = (if use_count ow = 0 then ow\<lparr>ow_impl := Destroying th order\<rparr> else ow)"

text \<open>The last owner of the executor starts its destructor, which sets the stop flag, wakes the workers and joins them.\<close>

definition destroy_executor :: "Thread \<Rightarrow> Owned \<Rightarrow> Owned" where
  "destroy_executor th ow = (set_executor (Executor_stop (ow_executor ow)) ow)\<lparr>ow_life := Joining th\<rparr>"

definition drop_handle :: "Owned \<Rightarrow> Owned" where
  "drop_handle ow = (if ow_impl ow = Destroyed then destroy_executor Other_thread else id) (ow\<lparr>ow_handle := False\<rparr>)"

text \<open>After its body \<open>~Impl\<close> releases the members, the executor among them.\<close>

definition finish_impl :: "Thread \<Rightarrow> Owned \<Rightarrow> Owned" where
  "finish_impl th ow = (if ow_handle ow then id else destroy_executor th) (ow\<lparr>ow_impl := Destroyed\<rparr>)"

text \<open>A worker whose thread runs a completion handler or a destructor.\<close>

definition busy :: "nat \<Rightarrow> Owned \<Rightarrow> bool" where
  "busy i ow \<longleftrightarrow> i \<in> ow_locked ow \<or> i \<in> ow_delivered ow \<or>
     (case ow_impl ow of Destroying th rs \<Rightarrow> th = Worker_thread i | _ \<Rightarrow> False) \<or> ow_life ow = Joining (Worker_thread i)"

text \<open>What an arrival handler does after the critical section of the arrival.\<close>

fun thread_event :: "ServingEvent \<Rightarrow> bool" where
  "thread_event (SubmitCalled r plan shards) = True"
| "thread_event (Settled r) = True"
| "thread_event (CancelCalled r) = True"
| "thread_event _ = False"

text \<open>\<open>Handle_dropped True\<close>: the client gave its reference to the executor away while \<open>Impl\<close> held one.\<close>

datatype OwnerEvent = Serves ServingEvent | Object_destroyed | Handle_dropped bool | Other_event

inductive own_step :: "CudaRuntime \<Rightarrow> Owned \<Rightarrow> OwnerEvent \<Rightarrow> Owned \<Rightarrow> bool" for cu where
  start_request: "ow_object ow \<Longrightarrow> cuda_step cu (ow_serving ow) [Started r] xevs cs \<Longrightarrow>
     own_step cu ow (Serves (Started r)) (ow\<lparr>ow_serving := cs\<rparr>)"
| enter: "0 < use_count ow \<Longrightarrow> own_step cu ow Other_event (ow\<lparr>ow_entering := ow_entering ow + 1\<rparr>)"
| arrive: "0 < ow_entering ow \<Longrightarrow> cuda_step cu (ow_serving ow) [Arrived r i payload v] xevs cs \<Longrightarrow>
     own_step cu ow (Serves (Arrived r i payload v)) (ow\<lparr>ow_serving := cs, ow_entering := ow_entering ow - 1,
       ow_leaving := ow_leaving ow + (1 - size (threads_of r v))\<rparr>)"
| proceed: "thread_event sev \<Longrightarrow> cuda_step cu (ow_serving ow) [sev] xevs cs \<Longrightarrow>
     own_step cu ow (Serves sev) (ow\<lparr>ow_serving := cs,
       ow_leaving := ow_leaving ow + (size (cs_threads (ow_serving ow)) - size (cs_threads cs))\<rparr>)"
| leave: "0 < ow_leaving ow \<Longrightarrow> set order = dom (co_requests (cs_coordinator (ow_serving ow))) \<Longrightarrow>
     own_step cu ow Other_event (release_impl order Other_thread (ow\<lparr>ow_leaving := ow_leaving ow - 1\<rparr>))"
| work: "i < length (ex_workers (ow_executor ow)) \<Longrightarrow> \<not> busy i ow \<Longrightarrow>
     WorkerLoop cu failing measured i (ow_executor ow) = Some (ex, None) \<Longrightarrow> own_step cu ow Other_event (set_executor ex ow)"
| spurious: "spurious_wakeup i (ow_executor ow) = Some ex \<Longrightarrow> own_step cu ow Other_event (set_executor ex ow)"
| lock: "i < length (ex_workers (ow_executor ow)) \<Longrightarrow> \<not> busy i ow \<Longrightarrow> ex_workers (ow_executor ow) ! i = Completing r result \<Longrightarrow>
     0 < use_count ow \<Longrightarrow> own_step cu ow Other_event (ow\<lparr>ow_locked := insert i (ow_locked ow)\<rparr>)"
| expired: "i < length (ex_workers (ow_executor ow)) \<Longrightarrow> \<not> busy i ow \<Longrightarrow> use_count ow = 0 \<Longrightarrow>
     WorkerLoop cu failing measured i (ow_executor ow) = Some (ex, Some (r, result)) \<Longrightarrow>
     own_step cu ow Other_event (set_executor ex ow)"
| deliver: "i \<in> ow_locked ow \<Longrightarrow> WorkerLoop cu failing measured i (ow_executor ow) = Some (ex, Some (r, result)) \<Longrightarrow>
     own_step cu ow (Serves (CompletionCalled r result)) (ow\<lparr>ow_serving := (ow_serving ow)\<lparr>cs_executor := ex,
         cs_coordinator := OnRecoveryComplete r result (cs_coordinator (ow_serving ow))\<rparr>,
       ow_locked := ow_locked ow - {i}, ow_delivered := insert i (ow_delivered ow)\<rparr>)"
| return: "i \<in> ow_delivered ow \<Longrightarrow> set order = dom (co_requests (cs_coordinator (ow_serving ow))) \<Longrightarrow>
     own_step cu ow Other_event (release_impl order (Worker_thread i) (ow\<lparr>ow_delivered := ow_delivered ow - {i}\<rparr>))"
| destroy_object: "ow_object ow \<Longrightarrow> set order = dom (co_requests (cs_coordinator (ow_serving ow))) \<Longrightarrow>
     own_step cu ow Object_destroyed (release_impl order Other_thread (ow\<lparr>ow_object := False\<rparr>))"
| cancel_next: "ow_impl ow = Destroying th (r # rs) \<Longrightarrow> Cancel r (ow_executor ow) = (ex, b) \<Longrightarrow>
     own_step cu ow Other_event ((set_executor ex ow)\<lparr>ow_impl := Destroying th rs\<rparr>)"
| finish: "ow_impl ow = Destroying th [] \<Longrightarrow> own_step cu ow Other_event (finish_impl th ow)"
| drop: "ow_handle ow \<Longrightarrow> own_step cu ow (Handle_dropped (ow_impl ow \<noteq> Destroyed)) (drop_handle ow)"
| joined: "ow_life ow = Joining Other_thread \<Longrightarrow> set (ex_workers (ow_executor ow)) \<subseteq> {Exited} \<Longrightarrow>
     own_step cu ow Other_event (ow\<lparr>ow_life := Joined\<rparr>)"
| join_self: "ow_life ow = Joining (Worker_thread i) \<Longrightarrow> \<forall>j<i. ex_workers (ow_executor ow) ! j = Exited \<Longrightarrow>
     own_step cu ow Other_event (ow\<lparr>ow_terminated := True\<rparr>)"

text \<open>A thread that joins itself gets a \<open>system_error\<close>, which leaves the destructor: nothing happens after that.\<close>

inductive own_run :: "CudaRuntime \<Rightarrow> Owned \<Rightarrow> OwnerEvent list \<Rightarrow> Owned \<Rightarrow> bool" for cu where
  begin_own: "own_run cu ow [] ow"
| extend_own: "own_run cu ow evs ow' \<Longrightarrow> \<not> ow_terminated ow' \<Longrightarrow> own_step cu ow' ev ow'' \<Longrightarrow> own_run cu ow (evs @ [ev]) ow''"

inductive_cases own_stepE: "own_step cu ow ev ow'"

section \<open>The invariant\<close>

definition to_cancel :: "ImplLife \<Rightarrow> Executor \<Rightarrow> bool" where
  "to_cancel life ex = (case life of Alive \<Rightarrow> True
     | Destroying th rs \<Rightarrow> \<forall>r\<in>requests_of ex. r \<in> set rs \<or> cancelled_at r ex
     | Destroyed \<Rightarrow> \<forall>r\<in>requests_of ex. cancelled_at r ex)"

definition handlers_ok :: "Owned \<Rightarrow> bool" where
  "handlers_ok ow \<longleftrightarrow> finite (ow_locked ow) \<and> finite (ow_delivered ow) \<and>
     (\<forall>i\<in>ow_locked ow. i < length (ex_workers (ow_executor ow)) \<and> (\<exists>r result. ex_workers (ow_executor ow) ! i = Completing r result))"

definition origin_ok :: "CudaRuntime \<Rightarrow> CudaServing \<Rightarrow> Owned \<Rightarrow> bool" where
  "origin_ok cu cs0 ow \<longleftrightarrow> (ow_impl ow = Alive \<longrightarrow> (\<exists>sevs xevs. cuda_run cu cs0 sevs xevs (ow_serving ow))) \<and>
     (\<exists>xevs. exec_trace cu (cs_executor cs0) xevs (ow_executor ow))"

definition lives_ok :: "Owned \<Rightarrow> bool" where
  "lives_ok ow \<longleftrightarrow> (ow_life ow = Running \<longleftrightarrow> ow_handle ow \<or> ow_impl ow \<noteq> Destroyed) \<and>
     (ow_life ow = Joined \<longrightarrow> set (ex_workers (ow_executor ow)) \<subseteq> {Exited})"

definition own_ok :: "CudaRuntime \<Rightarrow> CudaServing \<Rightarrow> Owned \<Rightarrow> bool" where
  "own_ok cu cs0 ow \<longleftrightarrow> handlers_ok ow \<and> origin_ok cu cs0 ow \<and> to_cancel (ow_impl ow) (ow_executor ow) \<and> lives_ok ow"

definition own_inv :: "CudaRuntime \<Rightarrow> CudaServing \<Rightarrow> Owned \<Rightarrow> bool" where
  "own_inv cu cs0 ow \<longleftrightarrow> own_ok cu cs0 ow \<and> (ow_impl ow = Alive \<longleftrightarrow> 0 < use_count ow)"

lemma own_new: "own_inv cu (CudaServing_new co ex) (Owned_new co ex)"
  by (auto simp: own_inv_def own_ok_def Owned_new_def handlers_ok_def origin_ok_def to_cancel_def lives_ok_def use_count_def
      CudaServing_new_def intro: cuda_run.begin_run exec_trace.start)

lemma use_count_0:
  assumes "handlers_ok ow"
  shows "use_count ow = 0 \<longleftrightarrow> \<not> ow_object ow \<and> ow_entering ow = 0 \<and> cs_threads (ow_serving ow) = {#} \<and> ow_leaving ow = 0 \<and>
    ow_locked ow = {} \<and> ow_delivered ow = {}"
  using assms by (auto simp: use_count_def handlers_ok_def)

lemma own_executor_inv:
  assumes "CudaRecoveryExecutor_new c d s = Inr ex0" "runtime_ok (cu_queries cu)" "origin_ok cu (CudaServing_new co ex0) ow"
  shows "executor_inv cu (ow_executor ow)"
  using assms(3) reachable_inv [OF assms(1) _ assms(2)] by (auto simp: origin_ok_def CudaServing_new_def)

lemma origin_alive:
  assumes "origin_ok cu cs0 ow" "ow_impl ow = Alive" "cuda_step cu (ow_serving ow) sevs xevs cs"
  shows "(\<exists>sevs xevs. cuda_run cu cs0 sevs xevs cs) \<and> (\<exists>xevs. exec_trace cu (cs_executor cs0) xevs (cs_executor cs))"
proof -
  have "\<exists>xevs. exec_trace cu (cs_executor cs0) xevs (cs_executor cs)"
    using cuda_step_executor [OF assms(3)] assms(1) by (auto simp: origin_ok_def intro: exec_trace.next_event)
  moreover obtain sevs' xevs' where "cuda_run cu cs0 sevs' xevs' (ow_serving ow)" using assms(1,2) by (auto simp: origin_ok_def)
  ultimately show ?thesis using cuda_run.extend_run [OF _ assms(3)] by blast
qed

text \<open>What the steps of the composition do to the workers and the handlers.\<close>

lemma workers_operations:
  "StageShard cu failure r n i w ex = (ex', threw) \<Longrightarrow> ex_workers ex' = ex_workers ex"
  "Submit cu pick failing r plan shards ex = (ex', v') \<Longrightarrow> wakes (ex_workers ex) (ex_workers ex')"
  "Cancel r ex = (ex', b) \<Longrightarrow> ex_workers ex' = ex_workers ex"
  by (auto simp: StageShard_def Submit_def Cancel_def Let_def wakes_notify_one split: if_splits sum.splits prod.splits)

text \<open>Whatever a wakeup does, it does nothing to a worker that is in its handler, and nobody wakes up that has exited.\<close>

lemma wakes_awake: "wakes ws ws' \<Longrightarrow> i < length ws \<Longrightarrow> ws ! i \<noteq> Sleeping \<Longrightarrow> ws' ! i = ws ! i"
  unfolding wakes_nth by auto

lemma handlers_wakes:
  assumes "handlers_ok ow" "wakes (ex_workers (ow_executor ow)) (ex_workers (ow_executor ow'))"
    and "ow_locked ow' = ow_locked ow" "finite (ow_delivered ow')"
  shows "handlers_ok ow'"
  using assms wakes_awake [OF assms(2)] wakes_length [OF assms(2)] by (fastforce simp: handlers_ok_def)

lemma lives_wakes:
  assumes "lives_ok ow" "wakes (ex_workers (ow_executor ow)) (ex_workers (ow_executor ow'))"
    and "ow_life ow' = ow_life ow" "ow_handle ow' = ow_handle ow" "ow_impl ow' = ow_impl ow"
  shows "lives_ok ow'"
proof -
  have "set (ex_workers (ow_executor ow')) \<subseteq> {Exited}" if "ow_life ow = Joined"
  proof -
    have exited: "ex_workers (ow_executor ow) ! i = Exited" if "i < length (ex_workers (ow_executor ow))" for i
      using assms(1) \<open>ow_life ow = Joined\<close> nth_mem [OF that] by (auto simp: lives_ok_def)
    then have "ex_workers (ow_executor ow') ! i = Exited" if "i < length (ex_workers (ow_executor ow'))" for i
      using wakes_awake [OF assms(2)] wakes_length [OF assms(2)] that by simp
    then show ?thesis by (auto simp: set_conv_nth)
  qed
  then show ?thesis using assms(1,3-5) by (simp add: lives_ok_def)
qed

lemma arrival_workers:
  assumes "cuda_step cu cs [Arrived r i payload v] xevs cs'"
  shows "ex_workers (cs_executor cs') = ex_workers (cs_executor cs)" "cs_threads cs' = cs_threads cs + threads_of r v"
  using assms by (auto elim!: cuda_step.cases simp: stage_arrival_def workers_operations(1)
      split: option.splits if_splits prod.splits)

lemma thread_workers:
  assumes "cuda_step cu cs [sev] xevs cs'" "thread_event sev"
  shows "wakes (ex_workers (cs_executor cs)) (ex_workers (cs_executor cs'))" "size (cs_threads cs') \<le> size (cs_threads cs)" "cs_threads cs \<noteq> {#}"
proof -
  have "Suc (size M - Suc 0) \<le> size M" if "x \<in># M" for x and M :: "ArrivalThread multiset"
    using that by (cases "size M") auto
  then show "wakes (ex_workers (cs_executor cs)) (ex_workers (cs_executor cs'))" "size (cs_threads cs') \<le> size (cs_threads cs)" "cs_threads cs \<noteq> {#}"
    using assms by (auto elim!: cuda_step.cases simp: workers_operations(2,3) size_Diff_singleton)
qed

lemma start_workers:
  assumes "cuda_step cu cs [Started r] xevs cs'"
  shows "cs_executor cs' = cs_executor cs" "cs_threads cs' = cs_threads cs"
  using assms by (auto elim!: cuda_step.cases)

lemma threads_of_size: "size (threads_of r v) \<le> 1"
  by (simp add: threads_of_def split: ArrivalOutcome.splits)

text \<open>A cancelled request stays cancelled until it retires.\<close>

lemma WorkerLoop_to_cancel:
  assumes "WorkerLoop cu failing measured i ex = Some (ex', v)" "to_cancel life ex"
  shows "to_cancel life ex'"
proof -
  have keep: "cancelled_at r ex'" if "cancelled_at r ex" for r
    using assms(1) that
    by (auto simp: WorkerLoop_def Let_def cancelled_at_def split: Worker.splits list.splits if_splits)
  show ?thesis
    using assms(2) keep requests_of_WorkerLoop [OF assms(1)] by (fastforce simp: to_cancel_def split: ImplLife.splits)
qed

lemma Cancel_to_cancel:
  assumes "executor_inv cu ex" "Cancel r ex = (ex', b)" "to_cancel (Destroying th (r # rs)) ex"
  shows "to_cancel (Destroying th rs) ex'"
  using assms(3) Cancel_cancels(1,2) [OF assms(1,2)] requests_of_Cancel [OF assms(2)]
  by (fastforce simp: to_cancel_def)

lemma WorkerLoop_other:
  assumes "WorkerLoop cu failing measured i ex = Some (ex', v)"
  shows "length (ex_workers ex') = length (ex_workers ex)"
    "j \<noteq> i \<Longrightarrow> j < length (ex_workers ex) \<Longrightarrow> ex_workers ex ! j \<noteq> Sleeping \<Longrightarrow> ex_workers ex' ! j = ex_workers ex ! j"
  using assms wakes_awake [OF wakes_notify_all, of j "(ex_workers ex)[i := Waiting]"] wakes_length [OF wakes_notify_all]
  by (auto simp: WorkerLoop_def Let_def split: Worker.splits list.splits if_splits)

lemma handlers_work:
  assumes "handlers_ok ow" "WorkerLoop cu failing measured i (ow_executor ow) = Some (ex, v)" "ow_executor ow' = ex"
    and "ow_locked ow' = ow_locked ow - {i}" "finite (ow_delivered ow')"
  shows "handlers_ok ow'"
  unfolding handlers_ok_def
proof (intro conjI ballI)
  fix j
  assume "j \<in> ow_locked ow'"
  then have j: "j \<noteq> i" "j \<in> ow_locked ow" using assms(4) by auto
  then obtain r result where w: "j < length (ex_workers (ow_executor ow))" "ex_workers (ow_executor ow) ! j = Completing r result"
    using assms(1) unfolding handlers_ok_def by blast
  then show "j < length (ex_workers (ow_executor ow'))" "\<exists>r result. ex_workers (ow_executor ow') ! j = Completing r result"
    using WorkerLoop_other [OF assms(2)] j(1) assms(3) by simp_all
qed (use assms(1,4,5) in \<open>simp_all add: handlers_ok_def\<close>)

lemma set_executor_simps [simp]:
  "ow_executor (set_executor ex ow) = ex" "ow_impl (set_executor ex ow) = ow_impl ow" "ow_life (set_executor ex ow) = ow_life ow"
  "ow_handle (set_executor ex ow) = ow_handle ow" "ow_locked (set_executor ex ow) = ow_locked ow"
  "ow_delivered (set_executor ex ow) = ow_delivered ow" "ow_entering (set_executor ex ow) = ow_entering ow"
  "ow_leaving (set_executor ex ow) = ow_leaving ow" "ow_object (set_executor ex ow) = ow_object ow"
  "cs_threads (ow_serving (set_executor ex ow)) = cs_threads (ow_serving ow)"
  "cs_coordinator (ow_serving (set_executor ex ow)) = cs_coordinator (ow_serving ow)"
  "use_count (set_executor ex ow) = use_count ow"
  by (simp_all add: set_executor_def use_count_def)

lemma all_cancelled:
  assumes "\<forall>r\<in>requests_of ex. cancelled_at r ex"
  shows "ex_queue ex = [] \<and> ex_staged ex = Map.empty \<and> ex_running ex \<subseteq> ex_cancelled ex"
proof (intro conjI)
  have "task_request (hd (ex_queue ex)) \<in> task_request ` set (ex_queue ex)" if "ex_queue ex \<noteq> []" using that by simp
  then show "ex_queue ex = []" using assms unfolding requests_of_def cancelled_at_def by blast
  show "ex_staged ex = Map.empty"
  proof
    fix r
    have "r \<in> dom (ex_staged ex) \<Longrightarrow> ex_staged ex r = None" using assms unfolding requests_of_def cancelled_at_def by blast
    then show "ex_staged ex r = None" by (cases "ex_staged ex r") auto
  qed
  show "ex_running ex \<subseteq> ex_cancelled ex" using assms unfolding requests_of_def cancelled_at_def by blast
qed

section \<open>Every step keeps it\<close>

lemma own_release:
  assumes "CudaRecoveryExecutor_new c d s = Inr ex0" "own_ok cu (CudaServing_new co ex0) ow" "ow_impl ow = Alive"
    and "set order = dom (co_requests (cs_coordinator (ow_serving ow)))"
  shows "own_inv cu (CudaServing_new co ex0) (release_impl order th ow)"
proof -
  obtain sevs xevs where "cuda_run cu (CudaServing_new co ex0) sevs xevs (ow_serving ow)"
    using assms(2,3) by (auto simp: own_ok_def origin_ok_def)
  then have "all_known (ow_serving ow)" by (rule cuda_run_known) (rule all_known_new [OF assms(1)])
  then have known: "requests_of (ow_executor ow) \<subseteq> set order" using assms(4) by (simp add: all_known_def)
  show ?thesis
  proof (cases "use_count ow = 0")
    case True
    then have "use_count (ow\<lparr>ow_impl := Destroying th order\<rparr>) = 0" by (simp add: use_count_def)
    then show ?thesis
      using True assms(2,3) known
      by (auto simp: release_impl_def own_inv_def own_ok_def handlers_ok_def origin_ok_def to_cancel_def lives_ok_def)
  next
    case False
    then show ?thesis using assms(2,3) by (simp add: release_impl_def own_inv_def)
  qed
qed

lemma own_serves:
  assumes "own_inv cu cs0 ow" "0 < use_count ow" "cuda_step cu (ow_serving ow) sevs xevs cs"
    and "wakes (ex_workers (ow_executor ow)) (ex_workers (cs_executor cs))"
    and "ow' = ow\<lparr>ow_serving := cs, ow_entering := entering, ow_leaving := leaving\<rparr>" "use_count ow' = use_count ow"
  shows "own_inv cu cs0 ow'"
proof -
  have "ow_impl ow = Alive" using assms(1,2) by (simp add: own_inv_def)
  moreover have "handlers_ok ow'" "lives_ok ow'"
    using handlers_wakes [of ow ow'] lives_wakes [of ow ow'] assms(1,4,5) by (simp_all add: own_inv_def own_ok_def handlers_ok_def)
  ultimately show ?thesis
    using assms origin_alive [OF _ _ assms(3), of cs0]
    by (auto simp: own_inv_def own_ok_def origin_ok_def to_cancel_def)
qed

lemma WorkerLoop_not_joined:
  assumes "lives_ok ow" "i < length (ex_workers (ow_executor ow))" "WorkerLoop cu failing measured i (ow_executor ow) = Some (ex, v)"
  shows "ow_life ow \<noteq> Joined"
proof
  assume "ow_life ow = Joined"
  then have "ex_workers (ow_executor ow) ! i = Exited" using assms(1) nth_mem [OF assms(2)] unfolding lives_ok_def by blast
  then show False using assms(3) by (simp add: WorkerLoop_def)
qed

lemma handlers_finite: "handlers_ok ow \<Longrightarrow> finite (ow_locked ow) \<and> finite (ow_delivered ow)"
  unfolding handlers_ok_def by blast

lemma own_invD:
  assumes "own_inv cu cs0 ow"
  shows "handlers_ok ow" "origin_ok cu cs0 ow" "to_cancel (ow_impl ow) (ow_executor ow)" "lives_ok ow"
    "ow_impl ow = Alive \<longleftrightarrow> 0 < use_count ow"
  using assms by (simp_all add: own_inv_def own_ok_def)

lemma own_invI:
  assumes "handlers_ok ow" "origin_ok cu cs0 ow" "to_cancel (ow_impl ow) (ow_executor ow)" "lives_ok ow"
    "ow_impl ow = Alive \<longleftrightarrow> 0 < use_count ow"
  shows "own_inv cu cs0 ow"
  using assms by (simp add: own_inv_def own_ok_def)

lemma origin_moves:
  assumes "origin_ok cu cs0 ow" "cuda_step cu (ow_serving ow) [] xev (ow_serving ow')"
    and "exec_step cu (ow_executor ow) ev (ow_executor ow')" "ow_impl ow' = ow_impl ow"
  shows "origin_ok cu cs0 ow'"
  unfolding origin_ok_def
proof (intro conjI impI)
  assume "ow_impl ow' = Alive"
  then obtain sevs xevs where "cuda_run cu cs0 sevs xevs (ow_serving ow)" using assms(1,4) unfolding origin_ok_def by metis
  from cuda_run.extend_run [OF this assms(2)] show "\<exists>sevs xevs. cuda_run cu cs0 sevs xevs (ow_serving ow')" by blast
next
  obtain xevs where "exec_trace cu (cs_executor cs0) xevs (ow_executor ow)" using assms(1) unfolding origin_ok_def by blast
  from exec_trace.next_event [OF this assms(3)] show "\<exists>xevs. exec_trace cu (cs_executor cs0) xevs (ow_executor ow')" by blast
qed

lemma own_works:
  assumes "own_inv cu cs0 ow" "i < length (ex_workers (ow_executor ow))" "\<not> busy i ow"
    and "WorkerLoop cu failing measured i (ow_executor ow) = Some (ex, v)" "v = None \<or> use_count ow = 0"
  shows "own_inv cu cs0 (set_executor ex ow)"
proof -
  note o = own_invD [OF assms(1)] and fin = handlers_finite [OF own_invD(1) [OF assms(1)]]
  have "i \<notin> ow_locked ow" using assms(3) by (simp add: busy_def)
  then have "handlers_ok (set_executor ex ow)"
    using fin by (intro handlers_work [OF o(1) assms(4)]) simp_all
  moreover have "origin_ok cu cs0 (set_executor ex ow)"
  proof (cases v)
    case None
    have "cuda_step cu (ow_serving ow) [] [Worked i] (ow_serving (set_executor ex ow))"
      using cuda_step.work [OF assms(2), of cu failing measured ex] assms(4) None by (simp add: set_executor_def)
    moreover have "exec_step cu (ow_executor ow) (Worked i) (ow_executor (set_executor ex ow))"
      using exec_step.work [OF assms(2)] assms(4) None by simp
    ultimately show ?thesis by (rule origin_moves [OF o(2)]) simp
  next
    case (Some result)
    then have step: "exec_step cu (ow_executor ow) (Completed (fst result) (snd result)) ex"
      using exec_step.complete [OF assms(2)] assms(4) by (metis prod.collapse)
    have gone: "ow_impl ow \<noteq> Alive" using Some assms(5) o(5) by auto
    obtain xevs where "exec_trace cu (cs_executor cs0) xevs (ow_executor ow)" using o(2) unfolding origin_ok_def by blast
    from exec_trace.next_event [OF this step] show ?thesis using gone unfolding origin_ok_def by auto
  qed
  moreover have "lives_ok (set_executor ex ow)"
    using o(4) WorkerLoop_not_joined [OF o(4) assms(2,4)] by (simp add: lives_ok_def)
  ultimately show ?thesis
    using o(3,5) WorkerLoop_to_cancel [OF assms(4)] by (intro own_invI) simp_all
qed

lemma own_delivers:
  assumes "own_inv cu cs0 ow" "i \<in> ow_locked ow" "WorkerLoop cu failing measured i (ow_executor ow) = Some (ex, Some (r, result))"
  shows "own_inv cu cs0 (ow\<lparr>ow_serving := (ow_serving ow)\<lparr>cs_executor := ex,
         cs_coordinator := OnRecoveryComplete r result (cs_coordinator (ow_serving ow))\<rparr>,
       ow_locked := ow_locked ow - {i}, ow_delivered := insert i (ow_delivered ow)\<rparr>)" (is "own_inv cu cs0 ?ow'")
proof -
  note o = own_invD [OF assms(1)] and fin = handlers_finite [OF own_invD(1) [OF assms(1)]]
  have i: "i < length (ex_workers (ow_executor ow))" using o(1) assms(2) unfolding handlers_ok_def by blast
  have "use_count ow \<noteq> 0" using use_count_0 [OF o(1)] assms(2) by auto
  then have alive: "ow_impl ow = Alive" using o(5) by simp
  have "cuda_step cu (ow_serving ow) [CompletionCalled r result] [Completed r result] (ow_serving ?ow')"
    using cuda_step.complete [OF i assms(3)] by simp
  from origin_alive [OF o(2) alive this] have "\<exists>sevs xevs. cuda_run cu cs0 sevs xevs (ow_serving ?ow')"
      "\<exists>xevs. exec_trace cu (cs_executor cs0) xevs (ow_executor ?ow')"
    by blast+
  then have "origin_ok cu cs0 ?ow'" unfolding origin_ok_def by blast
  moreover have "handlers_ok ?ow'" using fin by (intro handlers_work [OF o(1) assms(3)]) simp_all
  moreover have "lives_ok ?ow'" using o(4) WorkerLoop_not_joined [OF o(4) i assms(3)] by (simp add: lives_ok_def)
  moreover have "0 < use_count ?ow'" using use_count_0 [of ?ow'] \<open>handlers_ok ?ow'\<close> by simp
  ultimately show ?thesis using alive by (simp add: own_inv_def own_ok_def to_cancel_def)
qed

lemma to_cancel_workers [simp]: "to_cancel life (ex\<lparr>ex_workers := ws\<rparr>) = to_cancel life ex"
  by (cases life) (simp_all add: to_cancel_def requests_of_def cancelled_at_def)

lemma own_wakes_up:
  assumes "own_inv cu cs0 ow" "spurious_wakeup i (ow_executor ow) = Some ex"
  shows "own_inv cu cs0 (set_executor ex ow)"
proof -
  note o = own_invD [OF assms(1)] and fin = handlers_finite [OF own_invD(1) [OF assms(1)]]
    and s = spurious_wakeup_cases [OF assms(2)]
  show ?thesis
  proof (rule own_invI)
    show "handlers_ok (set_executor ex ow)" by (rule handlers_wakes [OF o(1)]) (use s(1) fin in simp_all)
    show "lives_ok (set_executor ex ow)" by (rule lives_wakes [OF o(4)]) (use s(1) in simp_all)
    show "origin_ok cu cs0 (set_executor ex ow)"
    proof (rule origin_moves [OF o(2)])
      show "cuda_step cu (ow_serving ow) [] [WokenUp i] (ow_serving (set_executor ex ow))"
        using cuda_step.spurious [of i "ow_serving ow" ex] assms(2) by (simp add: set_executor_def)
      show "exec_step cu (ow_executor ow) (WokenUp i) (ow_executor (set_executor ex ow))"
        using exec_step.spurious [OF assms(2)] by simp
    qed simp
    show "to_cancel (ow_impl (set_executor ex ow)) (ow_executor (set_executor ex ow))"
      using o(3) unfolding s(2) by simp
  qed (use o(5) in simp)
qed

lemma to_cancel_stop [simp]: "to_cancel life (Executor_stop ex) = to_cancel life ex"
  by (simp add: to_cancel_def requests_of_def cancelled_at_def Executor_stop_def split: ImplLife.splits)

lemma own_destroy_executor:
  assumes "own_ok cu cs0 (ow\<lparr>ow_life := Running, ow_handle := True\<rparr>)" "ow_impl ow = Destroyed" "\<not> ow_handle ow" "use_count ow = 0"
  shows "own_inv cu cs0 (destroy_executor th ow)"
proof -
  have "use_count (destroy_executor th ow) = 0" using assms(4) by (simp add: destroy_executor_def use_count_def)
  moreover obtain xevs where "exec_trace cu (cs_executor cs0) xevs (ow_executor ow)"
    using assms(1) by (auto simp: own_ok_def origin_ok_def)
  note exec_trace.next_event [OF this exec_step.stop]
  ultimately have "origin_ok cu cs0 (destroy_executor th ow)" "to_cancel Destroyed (ow_executor ow)" "use_count (destroy_executor th ow) = 0"
    using assms(1,2) by (auto simp: origin_ok_def destroy_executor_def own_ok_def)
  moreover have h: "handlers_ok ow" using assms(1) by (simp add: own_ok_def handlers_ok_def)
  have "handlers_ok (destroy_executor th ow)"
    by (rule handlers_wakes [OF h])
      (use handlers_finite [OF h] in \<open>simp_all add: destroy_executor_def Executor_stop_def wakes_notify_all\<close>)
  ultimately show ?thesis
    using assms by (simp add: own_inv_def own_ok_def lives_ok_def destroy_executor_def)
qed

lemma own_cancels:
  assumes "executor_inv cu (ow_executor ow)" "own_inv cu cs0 ow"
    and "ow_impl ow = Destroying th (r # rs)" "Cancel r (ow_executor ow) = (ex, b)"
  shows "own_inv cu cs0 ((set_executor ex ow)\<lparr>ow_impl := Destroying th rs\<rparr>)" (is "own_inv cu cs0 ?ow'")
proof -
  note o = assms(2) [unfolded own_inv_def own_ok_def]
  have "to_cancel (Destroying th rs) ex" using Cancel_to_cancel [OF assms(1,4)] o assms(3) by simp
  moreover have "ex_workers ex = ex_workers (ow_executor ow)" by (rule workers_operations(3) [OF assms(4)])
  moreover have "origin_ok cu cs0 ?ow'"
    using o exec_trace.next_event [OF _ exec_step.cancel [OF assms(4)]] by (auto simp: origin_ok_def)
  ultimately show ?thesis using o assms(3) by (simp add: own_inv_def own_ok_def handlers_ok_def lives_ok_def use_count_def)
qed

lemma own_finishes:
  assumes "own_inv cu cs0 ow" "ow_impl ow = Destroying th []"
  shows "own_inv cu cs0 (finish_impl th ow)"
proof -
  note o = assms(1) [unfolded own_inv_def own_ok_def]
  have idle: "to_cancel Destroyed (ow_executor ow)" using o assms(2) by (simp add: to_cancel_def)
  have none: "use_count (ow\<lparr>ow_impl := Destroyed\<rparr>) = 0" using o assms(2) by (simp add: use_count_def)
  show ?thesis
  proof (cases "ow_handle ow")
    case True
    then show ?thesis
      using o idle none assms(2) by (simp add: finish_impl_def own_inv_def own_ok_def handlers_ok_def origin_ok_def lives_ok_def)
  next
    case False
    have "own_inv cu cs0 (destroy_executor th (ow\<lparr>ow_impl := Destroyed\<rparr>))"
      by (rule own_destroy_executor)
        (use o idle none False assms(2) in \<open>simp_all add: own_ok_def handlers_ok_def origin_ok_def lives_ok_def\<close>)
    then show ?thesis using False by (simp add: finish_impl_def)
  qed
qed

lemma own_drops:
  assumes "own_inv cu cs0 ow" "ow_handle ow"
  shows "own_inv cu cs0 (drop_handle ow)"
proof -
  note o = assms(1) [unfolded own_inv_def own_ok_def]
  show ?thesis
  proof (cases "ow_impl ow = Destroyed")
    case True
    have "own_inv cu cs0 (destroy_executor Other_thread (ow\<lparr>ow_handle := False\<rparr>))"
      by (rule own_destroy_executor)
        (use o True in \<open>simp_all add: own_ok_def handlers_ok_def origin_ok_def lives_ok_def use_count_def\<close>)
    then show ?thesis using True by (simp add: drop_handle_def)
  next
    case False
    then show ?thesis
      using o assms(2) by (simp add: drop_handle_def own_inv_def own_ok_def handlers_ok_def origin_ok_def lives_ok_def use_count_def)
  qed
qed

text \<open>An owner lets go: \<open>ow'\<close> is \<open>ow\<close> with one owner less.\<close>

lemma own_lets_go:
  assumes "CudaRecoveryExecutor_new c d s = Inr ex0" "own_inv cu (CudaServing_new co ex0) ow" "use_count ow \<noteq> 0"
    and "set order = dom (co_requests (cs_coordinator (ow_serving ow)))"
    and same: "ow_serving ow' = ow_serving ow" "ow_impl ow' = ow_impl ow" "ow_life ow' = ow_life ow" "ow_handle ow' = ow_handle ow"
      "ow_locked ow' = ow_locked ow" "ow_delivered ow' \<subseteq> ow_delivered ow"
  shows "own_inv cu (CudaServing_new co ex0) (release_impl order th ow')"
proof (rule own_release [OF assms(1)])
  show "own_ok cu (CudaServing_new co ex0) ow'"
    using assms(2) same finite_subset [OF same(6)]
    by (simp add: own_inv_def own_ok_def handlers_ok_def origin_ok_def lives_ok_def)
qed (use assms in \<open>simp_all add: own_inv_def\<close>)

lemma own_step_inv:
  assumes "CudaRecoveryExecutor_new c d s = Inr ex0" "runtime_ok (cu_queries cu)"
    and "own_step cu ow ev ow'" "own_inv cu (CudaServing_new co ex0) ow"
  shows "own_inv cu (CudaServing_new co ex0) ow'"
  using assms(3)
proof cases
  case (start_request xevs cs r)
  have "0 < use_count ow" using start_request(3) by (simp add: use_count_def)
  then show ?thesis
    by (rule own_serves [OF assms(4) _ start_request(4) _ _, where entering = "ow_entering ow" and leaving = "ow_leaving ow"])
      (use start_workers [OF start_request(4)] start_request(2) in \<open>simp_all add: use_count_def\<close>)
next
  case enter
  then show ?thesis
    using assms(4) by (auto simp: own_inv_def own_ok_def handlers_ok_def origin_ok_def lives_ok_def use_count_def)
next
  case (arrive r i payload v xevs cs)
  have "0 < use_count ow" using arrive(3) by (simp add: use_count_def)
  then show ?thesis
    by (rule own_serves [OF assms(4) _ arrive(4) _ arrive(2)])
      (use arrival_workers [OF arrive(4)] arrive(2,3) threads_of_size [of r v] in \<open>simp_all add: use_count_def\<close>)
next
  case (proceed sev xevs cs)
  note th = thread_workers [OF proceed(4,3)]
  have "0 < use_count ow" using th(3) by (simp add: use_count_def nonempty_has_size)
  then show ?thesis
    by (rule own_serves [OF assms(4) _ proceed(4) th(1) _, where entering = "ow_entering ow"])
      (use proceed(2) th(2) in \<open>simp_all add: use_count_def\<close>)
next
  case (leave order)
  have "use_count ow \<noteq> 0" using leave(3) by (simp add: use_count_def)
  then show ?thesis unfolding leave(2) by (intro own_lets_go [OF assms(1,4) _ leave(4)]) simp_all
next
  case (work i failing measured ex)
  then show ?thesis using own_works [OF assms(4) work(3,4,5)] by simp
next
  case (spurious i ex)
  then show ?thesis using own_wakes_up [OF assms(4)] by simp
next
  case (lock i r result)
  then show ?thesis
    using assms(4) by (auto simp: own_inv_def own_ok_def handlers_ok_def origin_ok_def lives_ok_def use_count_def card_gt_0_iff)
next
  case (expired i failing measured ex r result)
  then show ?thesis using own_works [OF assms(4) expired(3,4,6)] by simp
next
  case (deliver i failing measured ex r result)
  then show ?thesis using own_delivers [OF assms(4) deliver(3,4)] by simp
next
  case (return i order)
  have "use_count ow \<noteq> 0" using use_count_0 [of ow] return(3) assms(4) by (auto simp: own_inv_def own_ok_def)
  then show ?thesis unfolding return(2) by (intro own_lets_go [OF assms(1,4) _ return(4)]) auto
next
  case (destroy_object order)
  have "use_count ow \<noteq> 0" using destroy_object(3) by (simp add: use_count_def)
  then show ?thesis unfolding destroy_object(2) by (intro own_lets_go [OF assms(1,4) _ destroy_object(4)]) simp_all
next
  case (cancel_next th r rs ex b)
  have "executor_inv cu (ow_executor ow)" using own_executor_inv [OF assms(1,2)] assms(4) unfolding own_inv_def own_ok_def by blast
  then show ?thesis unfolding cancel_next(2) by (rule own_cancels [OF _ assms(4) cancel_next(3,4)])
next
  case (finish th)
  then show ?thesis using own_finishes [OF assms(4)] by simp
next
  case drop
  then show ?thesis using own_drops [OF assms(4)] by simp
next
  case joined
  then show ?thesis
    using assms(4) by (auto simp: own_inv_def own_ok_def handlers_ok_def origin_ok_def lives_ok_def use_count_def)
next
  case (join_self i)
  then show ?thesis
    using assms(4) by (auto simp: own_inv_def own_ok_def handlers_ok_def origin_ok_def lives_ok_def use_count_def)
qed

lemma own_run_inv:
  assumes "own_run cu ow evs ow'" "CudaRecoveryExecutor_new c d s = Inr ex0" "runtime_ok (cu_queries cu)"
    and "own_inv cu (CudaServing_new co ex0) ow"
  shows "own_inv cu (CudaServing_new co ex0) ow'"
  using assms by induction (blast intro: own_step_inv)+

section \<open>A recovery whose coordinator is destroyed by a worker\<close>

text \<open>
  One worker recovers the request of \<open>CoordinatorRuns\<close>, and the client has handed its only reference to the executor to the
  coordinator.
\<close>

definition only_object :: "CudaServing \<Rightarrow> Owned" where
  "only_object cs = \<lparr>ow_serving = cs, ow_object = True, ow_handle = False, ow_entering = 0, ow_leaving = 0,
     ow_locked = {}, ow_delivered = {}, ow_impl = Alive, ow_life = Running, ow_terminated = False\<rparr>"

lemma only_object_drop: "own_run cu (Owned_new co ex) [Handle_dropped True] (only_object (CudaServing_new co ex))"
proof -
  have "own_step cu (Owned_new co ex) (Handle_dropped True) (only_object (CudaServing_new co ex))"
    using own_step.drop [of "Owned_new co ex" cu] by (simp add: Owned_new_def only_object_def drop_handle_def)
  from own_run.extend_own [OF own_run.begin_own _ this] show ?thesis by (simp add: Owned_new_def)
qed

text \<open>Runs that only their ends matter of.\<close>

definition leads_to :: "CudaRuntime \<Rightarrow> Owned \<Rightarrow> Owned \<Rightarrow> bool" where
  "leads_to cu ow ow' \<longleftrightarrow> (\<exists>evs. own_run cu ow evs ow')"

lemma leads_to_self: "leads_to cu ow ow"
  by (auto simp: leads_to_def intro: own_run.begin_own)

lemma leads_to_step: "leads_to cu ow ow' \<Longrightarrow> \<not> ow_terminated ow' \<Longrightarrow> own_step cu ow' ev ow'' \<Longrightarrow> leads_to cu ow ow''"
  by (auto simp: leads_to_def intro: own_run.extend_own)

lemma own_run_append: "own_run cu ow' evs' ow'' \<Longrightarrow> own_run cu ow evs ow' \<Longrightarrow> own_run cu ow (evs @ evs') ow''"
  by (induction rule: own_run.induct) (auto simp flip: append_assoc intro: own_run.extend_own)

lemma leads_to_trans: "leads_to cu ow ow' \<Longrightarrow> leads_to cu ow' ow'' \<Longrightarrow> leads_to cu ow ow''"
  by (auto simp: leads_to_def intro: own_run_append)

lemma object_keeps: "ow_object ow \<Longrightarrow> release_impl order th ow = ow"
  by (simp add: release_impl_def use_count_def)

lemma whole_start:
  assumes "leads_to cu ow (only_object cs)" "cuda_step cu cs [Started r] xevs cs'"
  shows "leads_to cu ow (only_object cs')"
  using leads_to_step [OF assms(1) _ own_step.start_request [of "only_object cs" cu r xevs cs']] assms(2)
  by (simp add: only_object_def)

text \<open>An arrival handler from the lock of its weak pointer to its return.\<close>

lemma whole_arrival:
  assumes "leads_to cu ow (only_object cs)" "cuda_step cu cs [Arrived r i payload Returned] xevs cs'"
    and "set order = dom (co_requests (cs_coordinator cs'))"
  shows "leads_to cu ow (only_object cs')"
proof -
  let ?entered = "(only_object cs)\<lparr>ow_entering := 1\<rparr>" and ?leaving = "(only_object cs')\<lparr>ow_leaving := 1\<rparr>"
  have "leads_to cu ow ?entered"
    using leads_to_step [OF assms(1) _ own_step.enter [of "only_object cs"]] by (simp add: only_object_def use_count_def)
  then have "leads_to cu ow ?leaving"
    using leads_to_step [OF _ _ own_step.arrive [of ?entered cu r i payload Returned xevs cs']] assms(2)
    by (simp add: only_object_def threads_of_def)
  then show ?thesis
    using leads_to_step [OF _ _ own_step.leave [of ?leaving order cu]] assms(3) by (simp add: only_object_def object_keeps)
qed

lemma whole_submission:
  assumes "leads_to cu ow (only_object cs)" "cuda_step cu cs [Arrived r i payload (SubmitNext plan shards)] xevs cs1"
    and "cuda_step cu cs1 [SubmitCalled r plan shards] xevs1 cs2" "cuda_step cu cs2 [Settled r] xevs2 cs3"
    and "size (cs_threads cs1) = 1" "size (cs_threads cs2) = 1" "cs_threads cs3 = {#}"
    and "set order = dom (co_requests (cs_coordinator cs3))"
  shows "leads_to cu ow (only_object cs3)"
proof -
  let ?entered = "(only_object cs)\<lparr>ow_entering := 1\<rparr>" and ?leaving = "(only_object cs3)\<lparr>ow_leaving := 1\<rparr>"
  have "leads_to cu ow ?entered"
    using leads_to_step [OF assms(1) _ own_step.enter [of "only_object cs"]] by (simp add: only_object_def use_count_def)
  then have "leads_to cu ow (only_object cs1)"
    using leads_to_step [OF _ _ own_step.arrive [of ?entered cu r i payload "SubmitNext plan shards" xevs cs1]] assms(2)
    by (simp add: only_object_def threads_of_def)
  then have "leads_to cu ow (only_object cs2)"
    using leads_to_step [OF _ _ own_step.proceed [of "SubmitCalled r plan shards" cu "only_object cs1" xevs1 cs2]] assms(3,5,6)
    by (simp add: only_object_def)
  then have "leads_to cu ow ?leaving"
    using leads_to_step [OF _ _ own_step.proceed [of "Settled r" cu "only_object cs2" xevs2 cs3]] assms(4,6,7)
    by (simp add: only_object_def)
  then show ?thesis
    using leads_to_step [OF _ _ own_step.leave [of ?leaving order cu]] assms(8) by (simp add: only_object_def object_keeps)
qed

definition recovery_task :: Task where
  "recovery_task = \<lparr>task_request = 7, task_plan = example_plan, task_shards = example_slots,
     task_context = example_context [2, 3, 4]\<rparr>"

lemma recovery_submit:
  "Submit example_cuda 0 False 7 example_plan example_slots (example_executor [2, 3, 4])
    = ((example_executor [])\<lparr>ex_queue := [recovery_task]\<rparr>, Inr True)"
  by (simp add: Submit_def example_executor_def outstanding_def HasQueuedRequest_def recovery_task_def example_slots_def Let_def
      notify_one_def sleepers_def)

lemma recovery_result:
  "\<exists>result cache. run_task example_cuda False zero_metrics recovery_task [] = Some (result, cache) \<and> rt_success result"
proof -
  have staged: "sg_staged_shards (example_context [2, 3, 4]) = example_slots" "sg_device_shards (example_context [2, 3, 4]) = example_slots"
    by (simp_all add: example_context_def example_slots_def upt_rec word_eval Let_def)
  then have "task_ok recovery_task"
    by (auto simp: task_ok_def context_ok_def recovery_task_def example_slots_def example_context_def upt_rec word_eval Let_def)
  from run_task_total [OF example_cuda_runtime cache_ok_Nil this, of False zero_metrics] obtain result cache where
    r: "run_task example_cuda False zero_metrics recovery_task [] = Some (result, cache)" "result_for False recovery_task result"
    using staged by (auto simp: trusted_def recovery_task_def)
  have "snd (execute_decode_plan_cpu example_plan example_slots) = None"
    using example_execution by (simp add: example_slots_def)
  then have "rt_success result" using r(2) staged(1) by (simp add: result_for_def recovery_task_def)
  then show ?thesis using r(1) by blast
qed

text \<open>The worker executes the task; \<open>cache\<close> is what the launch configurations are then.\<close>

definition recovery_executor_at :: "config_cache \<Rightarrow> Worker \<Rightarrow> Executor" where
  "recovery_executor_at cache w = (race_executor w)\<lparr>ex_cache := cache\<rparr>"

lemma recovery_work:
  assumes "run_task example_cuda False zero_metrics recovery_task [] = Some (result, cache)"
  shows "WorkerLoop example_cuda False zero_metrics 0 ((example_executor [])\<lparr>ex_queue := [recovery_task]\<rparr>)
      = Some (recovery_executor_at [] (Executing recovery_task), None)"
    "WorkerLoop example_cuda False zero_metrics 0 (recovery_executor_at [] (Executing recovery_task))
      = Some (recovery_executor_at cache (Executed 7 result), None)"
    "WorkerLoop example_cuda False zero_metrics 0 (recovery_executor_at cache (Executed 7 result))
      = Some (recovery_executor_at cache (Completing 7 result), None)"
    "WorkerLoop example_cuda False zero_metrics 0 (recovery_executor_at cache (Completing 7 result))
      = Some (recovery_executor_at cache (Retiring 7), Some (7, result))"
  using assms
  by (simp_all add: WorkerLoop_def recovery_executor_at_def race_executor_def example_executor_def) (simp_all add: recovery_task_def)

abbreviation "waiting_serving ex \<equiv>
  \<lparr>cs_coordinator = example_coordinator (Some (example_request [2, 3, 4] True)), cs_executor = ex, cs_threads = {#}\<rparr>"

lemma recovery_submitted:
  assumes "leads_to example_cuda ow (only_object
     \<lparr>cs_coordinator = example_coordinator None, cs_executor = example_executor [], cs_threads = {#}\<rparr>)"
  shows "leads_to example_cuda ow (only_object (waiting_serving ((example_executor [])\<lparr>ex_queue := [recovery_task]\<rparr>)))"
proof -
  note steps = race_arrives [OF race_stage_arrivals(1) example_arrivals(1)]
    race_arrives [OF race_stage_arrivals(2) example_arrivals(2)]
    race_arrives [OF race_stage_arrivals(3) example_arrivals(3)]
  have requests: "set [7] = dom (co_requests (example_coordinator (Some st)))" for st
    by (simp add: example_coordinator_def)
  let ?queued = "(example_executor [])\<lparr>ex_queue := [recovery_task]\<rparr>"
  let ?confirming = "(waiting_serving ?queued)\<lparr>cs_threads := {#Confirming 7#}\<rparr>"
  have arrival: "cuda_step example_cuda (race_state ids False ids {#}) [Arrived 7 i (example_val i) Returned] xevs (race_state ids' False ids' {#})"
    if "cuda_step example_cuda (race_state ids False ids {#}) [Arrived 7 i (example_val i) Returned] xevs
      (race_state ids' False ids' ({#} + threads_of 7 Returned))" for ids i xevs ids'
    using that by (simp add: threads_of_def)
  note arrived = whole_arrival [OF whole_arrival [OF whole_start [OF assms race_start]
      arrival [OF steps(1)], of "[7]"] arrival [OF steps(2)], of "[7]"]
  have last_arrival: "cuda_step example_cuda (race_state [2, 3] False [2, 3] {#}) [Arrived 7 4 (example_val 4) (SubmitNext example_plan example_slots)]
      [Staged 7 4 None] (race_state [2, 3, 4] True [2, 3, 4] {#Submitting 7 example_plan example_slots#})"
    using steps(3) [of "{#}"] by (simp add: threads_of_def)
  have submit: "cuda_step example_cuda (race_state [2, 3, 4] True [2, 3, 4] {#Submitting 7 example_plan example_slots#})
     [SubmitCalled 7 example_plan example_slots] [Accepted 7 example_plan example_slots] ?confirming"
    using cuda_step.accepted [of 7 example_plan example_slots
        "race_state [2, 3, 4] True [2, 3, 4] {#Submitting 7 example_plan example_slots#}" example_cuda 0 False] recovery_submit by simp
  have confirm: "cuda_step example_cuda ?confirming [Settled 7] [] (waiting_serving ?queued)"
    using cuda_step.confirm [of 7 ?confirming] by (simp add: CompletedNaturally_def example_coordinator_def example_request_def)
  from whole_submission [OF _ last_arrival submit confirm, of ow "[7]"] arrived requests show ?thesis by simp
qed

text \<open>What happens after the worker has locked its weak pointer and delivered.\<close>

definition delivered_by_worker :: "config_cache \<Rightarrow> RequestState \<Rightarrow> Owned" where
  "delivered_by_worker cache st = (only_object \<lparr>cs_coordinator = example_coordinator (Some st),
     cs_executor = recovery_executor_at cache (Retiring 7), cs_threads = {#}\<rparr>)\<lparr>ow_delivered := {0}\<rparr>"

lemma recovery_delivered:
  assumes "leads_to example_cuda ow (only_object (waiting_serving ((example_executor [])\<lparr>ex_queue := [recovery_task]\<rparr>)))"
    and "run_task example_cuda False zero_metrics recovery_task [] = Some (result, cache)"
    and "OnRecoveryComplete 7 result (example_coordinator (Some (example_request [2, 3, 4] True))) = example_coordinator (Some st)"
  shows "leads_to example_cuda ow (delivered_by_worker cache st)"
proof -
  let ?at = "\<lambda>ex. only_object (waiting_serving ex)"
  have work: "leads_to example_cuda ow (?at ex')"
    if "leads_to example_cuda ow (?at ex)" "WorkerLoop example_cuda False zero_metrics 0 ex = Some (ex', None)" "ex_workers ex \<noteq> []" for ex ex'
    using leads_to_step [OF that(1) _ own_step.work [of 0 "?at ex" example_cuda False zero_metrics ex']] that(2,3)
    by (simp add: only_object_def busy_def set_executor_def)
  have workers: "ex_workers ((example_executor [])\<lparr>ex_queue := [recovery_task]\<rparr>) \<noteq> []" "ex_workers (recovery_executor_at cache w) \<noteq> []" for w cache
    by (simp_all add: example_executor_def recovery_executor_at_def race_executor_def)
  note w = recovery_work [OF assms(2)]
  let ?completing = "?at (recovery_executor_at cache (Completing 7 result))"
  let ?locked = "?completing\<lparr>ow_locked := {0}\<rparr>"
  from work [OF work [OF work [OF assms(1) w(1) workers(1)] w(2) workers(2)] w(3) workers(2)]
  have "leads_to example_cuda ow ?locked"
    using leads_to_step [OF _ _ own_step.lock [of 0 ?completing 7 result example_cuda]]
    by (simp add: only_object_def busy_def use_count_def recovery_executor_at_def race_executor_def)
  then show ?thesis
    using leads_to_step [OF _ _ own_step.deliver [of 0 ?locked example_cuda False zero_metrics
        "recovery_executor_at cache (Retiring 7)" 7 result]] w(4) assms(3)
    by (simp add: only_object_def delivered_by_worker_def)
qed

lemma worker_destroys:
  "\<exists>rest ow'. own_run example_cuda (delivered_by_worker cache st) (Object_destroyed # rest) ow' \<and> ow_terminated ow'"
proof -
  let ?d = "delivered_by_worker cache st"
  let ?alone = "?d\<lparr>ow_object := False\<rparr>"
  let ?dying = "?alone\<lparr>ow_delivered := {}, ow_impl := Destroying (Worker_thread 0) [7]\<rparr>"
  obtain ex b where c: "Cancel 7 (ow_executor ?dying) = (ex, b)" by fastforce
  let ?cancelled = "(set_executor ex ?dying)\<lparr>ow_impl := Destroying (Worker_thread 0) []\<rparr>"
  let ?joining = "finish_impl (Worker_thread 0) ?cancelled"
  note u = delivered_by_worker_def only_object_def use_count_def release_impl_def
  have requests: "set [7] = dom (co_requests (cs_coordinator (ow_serving ?d)))"
    by (simp add: u example_coordinator_def)
  have s1: "own_step example_cuda ?d Object_destroyed ?alone"
    using own_step.destroy_object [of ?d "[7]"] requests by (simp add: u)
  have s2: "own_step example_cuda ?alone Other_event ?dying"
    using own_step.return [of 0 ?alone "[7]"] requests by (simp add: u)
  have s3: "own_step example_cuda ?dying Other_event ?cancelled"
    using own_step.cancel_next [OF _ c, of "Worker_thread 0" "[]"] by simp
  have s4: "own_step example_cuda ?cancelled Other_event ?joining"
    using own_step.finish [of ?cancelled "Worker_thread 0"] by simp
  have s5: "own_step example_cuda ?joining Other_event (?joining\<lparr>ow_terminated := True\<rparr>)"
    using own_step.join_self [of ?joining 0] by (simp add: u finish_impl_def destroy_executor_def set_executor_def)
  have "\<not> ow_terminated ?d" "\<not> ow_terminated ?alone" "\<not> ow_terminated ?dying" "\<not> ow_terminated ?cancelled" "\<not> ow_terminated ?joining"
    by (simp_all add: u finish_impl_def destroy_executor_def set_executor_def)
  note running = this
  note run = own_run.extend_own [OF own_run.extend_own [OF own_run.extend_own [OF own_run.extend_own [OF own_run.extend_own
      [OF own_run.begin_own running(1) s1] running(2) s2] running(3) s3] running(4) s4] running(5) s5]
  show ?thesis by (rule exI, rule exI, rule conjI, use run in simp) simp
qed

lemma recovery_owned:
  "\<exists>co before cache st. RecoveryCoordinator_new example_graph True = Inr co \<and>
     own_run example_cuda (Owned_new co (example_executor [])) before (delivered_by_worker cache st) \<and>
     WaitForCompletion 7 (cs_coordinator (ow_serving (delivered_by_worker cache st))) [] = Inr True \<and>
     GetSnapshot 7 (cs_coordinator (ow_serving (delivered_by_worker cache st))) = Inr (rq_snapshot st) \<and>
     sn_status (rq_snapshot st) = Recovered"
proof -
  obtain co where co: "RecoveryCoordinator_new example_graph True = Inr co" "Serving_new co = example_serving None {#} {}"
    using example_new by blast
  let ?cs = "\<lparr>cs_coordinator = example_coordinator None, cs_executor = example_executor [], cs_threads = {#}\<rparr>"
  have new: "CudaServing_new co (example_executor []) = ?cs"
    using co(2) by (simp add: CudaServing_new_def Serving_new_def)
  obtain result cache where r: "run_task example_cuda False zero_metrics recovery_task [] = Some (result, cache)" "rt_success result"
    using recovery_result by blast
  define st where "st = merge_result result (example_request [2, 3, 4] True)"
  have st: "OnRecoveryComplete 7 result (example_coordinator (Some (example_request [2, 3, 4] True))) = example_coordinator (Some st)"
      "sn_status (rq_snapshot st) = Recovered"
    using r(2) by (simp_all add: st_def OnRecoveryComplete_def example_coordinator_def IsTerminal_def merge_result_def Let_def example_request_def)
  have "leads_to example_cuda (Owned_new co (example_executor [])) (only_object ?cs)"
    using only_object_drop [of example_cuda co "example_executor []"] new by (auto simp: leads_to_def)
  from recovery_delivered [OF recovery_submitted [OF this] r(1) st(1)]
  obtain before where "own_run example_cuda (Owned_new co (example_executor [])) before (delivered_by_worker cache st)"
    by (auto simp: leads_to_def)
  moreover have "cs_coordinator (ow_serving (delivered_by_worker cache st)) = example_coordinator (Some st)"
    by (simp add: delivered_by_worker_def only_object_def)
  moreover have "WaitForCompletion 7 (example_coordinator (Some st)) [] = Inr True" "GetSnapshot 7 (example_coordinator (Some st)) = Inr (rq_snapshot st)"
    using st(2) by (simp_all add: WaitForCompletion_def GetSnapshot_def example_coordinator_def IsTerminal_def)
  ultimately show ?thesis using co(1) st(2) by metis
qed

section \<open>Properties\<close>

text \<open>
  C30. The coordinator outlives its handlers: while an arrival or a completion handler owns it, or the client's object exists,
  \<open>~Impl\<close> has not started, whoever drops its reference first. The executor outlives the coordinator, and when \<open>~Impl\<close> is over
  nothing is queued or staged at it and every task on a worker is cancelled. The executor is gone only when every worker
  has exited.
\<close>

theorem coordinator_outlives_handlers:
  assumes "CudaRecoveryExecutor_new c d s = Inr ex0" "runtime_ok (cu_queries cu)" "own_run cu (Owned_new co ex0) evs ow"
  shows "(ow_object ow \<or> 0 < ow_entering ow \<or> cs_threads (ow_serving ow) \<noteq> {#} \<or> 0 < ow_leaving ow \<or>
      ow_locked ow \<noteq> {} \<or> ow_delivered ow \<noteq> {} \<longleftrightarrow> ow_impl ow = Alive) \<and>
    (ow_impl ow \<noteq> Destroyed \<longrightarrow> ow_life ow = Running) \<and>
    (ow_impl ow = Destroyed \<longrightarrow> ex_queue (ow_executor ow) = [] \<and> ex_staged (ow_executor ow) = Map.empty \<and>
       ex_running (ow_executor ow) \<subseteq> ex_cancelled (ow_executor ow)) \<and>
    (ow_life ow = Joined \<longrightarrow> ow_impl ow = Destroyed \<and> set (ex_workers (ow_executor ow)) \<subseteq> {Exited})"
proof -
  note inv = own_run_inv [OF assms(3,1,2) own_new, unfolded own_inv_def own_ok_def]
  have "ex_queue (ow_executor ow) = [] \<and> ex_staged (ow_executor ow) = Map.empty \<and>
       ex_running (ow_executor ow) \<subseteq> ex_cancelled (ow_executor ow)" if "ow_impl ow = Destroyed"
    by (rule all_cancelled) (use inv that in \<open>simp add: to_cancel_def\<close>)
  then show ?thesis using inv use_count_0 [of ow] by (auto simp: lives_ok_def)
qed

theorem coordinator_outlives_handlers_witness:
  "\<exists>co before ow. RecoveryCoordinator_new example_graph True = Inr co \<and>
     own_run example_cuda (Owned_new co (example_executor [])) before ow \<and> ow_delivered ow = {0} \<and> ow_impl ow = Alive"
proof -
  obtain co before cache st where r: "RecoveryCoordinator_new example_graph True = Inr co"
      "own_run example_cuda (Owned_new co (example_executor [])) before (delivered_by_worker cache st)"
    using recovery_owned by metis
  have "ow_delivered (delivered_by_worker cache st) = {0}" by (simp add: delivered_by_worker_def)
  then show ?thesis
    using coordinator_outlives_handlers [OF example_executor_new example_cuda_runtime r(2)] r by blast
qed

text \<open>
  C31. A client that keeps its own reference to the executor until \<open>~Impl\<close> of the coordinator has finished is safe: no thread of
  the executor ever destroys it, and the process does not end, however the handlers, the workers and the end of the
  \<open>RecoveryCoordinator\<close> interleave. That is later than the destruction of the \<open>RecoveryCoordinator\<close> object while a handler still
  owns \<open>Impl\<close>; an event \<open>Handle_dropped True\<close> is a client that lets go before.
\<close>

theorem kept_executor_never_joins_itself:
  assumes "CudaRecoveryExecutor_new c d s = Inr ex0" "runtime_ok (cu_queries cu)" "own_run cu (Owned_new co ex0) evs ow"
    and "Handle_dropped True \<notin> set evs"
  shows "\<not> ow_terminated ow \<and> (\<forall>i. ow_life ow \<noteq> Joining (Worker_thread i))"
proof -
  have "(ow_impl ow \<noteq> Destroyed \<longrightarrow> ow_handle ow) \<and> \<not> ow_terminated ow \<and> (\<forall>i. ow_life ow \<noteq> Joining (Worker_thread i))"
    using assms(3,4)
  proof (induction "Owned_new co ex0" evs ow rule: own_run.induct)
    case begin_own
    then show ?case by (simp add: Owned_new_def)
  next
    case (extend_own evs ow ev ow')
    from extend_own(2,5) have kept: "(ow_impl ow \<noteq> Destroyed \<longrightarrow> ow_handle ow) \<and> (\<forall>i. ow_life ow \<noteq> Joining (Worker_thread i))" by simp
    have alive: "0 < ow_leaving ow \<Longrightarrow> ow_impl ow = Alive" "i \<in> ow_delivered ow \<Longrightarrow> ow_impl ow = Alive"
        "ow_object ow \<Longrightarrow> ow_impl ow = Alive" for i
      using own_run_inv [OF extend_own(1) assms(1,2) own_new] use_count_0 [of ow] by (auto simp: own_inv_def own_ok_def)
    from extend_own(4) show ?case
      by (cases rule: own_step.cases)
        (use kept alive extend_own(3,5) in \<open>auto simp: release_impl_def drop_handle_def finish_impl_def destroy_executor_def set_executor_def\<close>)
  qed
  then show ?thesis by blast
qed

theorem kept_executor_never_joins_itself_witness:
  "\<exists>co ow. RecoveryCoordinator_new example_graph True = Inr co \<and>
     own_run example_cuda (Owned_new co (example_executor [])) [Object_destroyed, Other_event, Handle_dropped False] ow \<and>
     ow_life ow = Joining Other_thread \<and> \<not> ow_terminated ow"
proof -
  obtain co where co: "RecoveryCoordinator_new example_graph True = Inr co" "Serving_new co = example_serving None {#} {}"
    using example_new by blast
  let ?new = "Owned_new co (example_executor [])"
  let ?dying = "?new\<lparr>ow_object := False, ow_impl := Destroying Other_thread []\<rparr>"
  note u = Owned_new_def use_count_def release_impl_def finish_impl_def drop_handle_def destroy_executor_def set_executor_def
  have new: "cs_coordinator (ow_serving ?new) = example_coordinator None" "cs_threads (ow_serving ?new) = {#}"
    using co(2) by (simp_all add: Owned_new_def CudaServing_new_def Serving_new_def)
  have s1: "own_step example_cuda ?new Object_destroyed ?dying"
    using own_step.destroy_object [of ?new "[]"] new by (simp add: u example_coordinator_def)
  have s2: "own_step example_cuda ?dying Other_event (finish_impl Other_thread ?dying)"
    using own_step.finish [of ?dying Other_thread] by simp
  have s3: "own_step example_cuda (finish_impl Other_thread ?dying) (Handle_dropped False) (drop_handle (finish_impl Other_thread ?dying))"
    using own_step.drop [of "finish_impl Other_thread ?dying"] by (simp add: u)
  have "\<not> ow_terminated ?new" "\<not> ow_terminated ?dying" "\<not> ow_terminated (finish_impl Other_thread ?dying)" by (simp_all add: u)
  note running = this
  have run: "own_run example_cuda ?new [Object_destroyed, Other_event, Handle_dropped False] (drop_handle (finish_impl Other_thread ?dying))"
    using own_run.extend_own [OF own_run.extend_own [OF own_run.extend_own [OF own_run.begin_own running(1) s1] running(2) s2] running(3) s3]
    by simp
  have "ow_life (drop_handle (finish_impl Other_thread ?dying)) = Joining Other_thread" by (simp add: u)
  then show ?thesis
    using co(1) run kept_executor_never_joins_itself [OF example_executor_new example_cuda_runtime run] by auto
qed

text \<open>
  C32. A client that does not keep it is not: the coordinator is given the only reference to the executor, a recovery is
  submitted, executed and delivered, \<open>WaitForCompletion\<close> returns true, and the client destroys the coordinator. The worker
  still owns \<open>Impl\<close>, so it runs \<open>~Impl\<close> and with it the destructor of its own executor, joins itself, and the process ends.
\<close>

theorem worker_joins_itself:
  "\<exists>co ex before ow sn rest ow'. RecoveryCoordinator_new example_graph True = Inr co \<and> CudaRecoveryExecutor_new 1 1 50 = Inr ex \<and>
     own_run example_cuda (Owned_new co ex) before ow \<and>
     WaitForCompletion 7 (cs_coordinator (ow_serving ow)) [] = Inr True \<and>
     GetSnapshot 7 (cs_coordinator (ow_serving ow)) = Inr sn \<and> sn_status sn = Recovered \<and>
     own_run example_cuda ow (Object_destroyed # rest) ow' \<and> ow_terminated ow'"
  using recovery_owned worker_destroys example_executor_new by metis

end
