(* ===== verification/Workload.thy ===== *)
theory Workload imports ClusterSimulator Rounding begin

text \<open>
  \<open>include/codedllm/simulation/workload_generator.hpp\<close> and \<open>src/simulation/workload_generator.cpp\<close>: the
  generator of arrival events with stragglers, and the two replication baselines that rewrite them.

  What the code takes from the standard library and leaves to the implementation is a parameter, the record
  \<open>RandomLibrary\<close>: the engine, the values the distributions draw from it, the permutation \<open>std::shuffle\<close> applies,
  the rounding of \<open>long double\<close> arithmetic, the value of \<open>std::llround\<close> where it is unspecified, and the
  \<open>max_size()\<close> of the two vectors that grow with the number of requests. What the standard promises of it is
  \<open>random_ok\<close>. A \<open>double\<close> that is configured is a real number or not finite; an infinite draw is one that is too
  large for \<open>std::llround\<close>. Running out of memory is not modelled.
\<close>

section \<open>The random-number library\<close>

record ('g, 'n) RandomLibrary =
  mt19937 :: "32 word \<Rightarrow> 'g"
  exponential_draw :: "real \<Rightarrow> 'g \<Rightarrow> real \<times> 'g"
  bernoulli_draw :: "real \<Rightarrow> 'g \<Rightarrow> bool \<times> 'g"
  normal_distribution :: "real \<Rightarrow> real \<Rightarrow> 'n"
  normal_draw :: "'n \<Rightarrow> 'g \<Rightarrow> real \<times> 'n \<times> 'g"
  std_shuffle :: "'g \<Rightarrow> ShardId list \<Rightarrow> ShardId list \<times> 'g"
  round_long_double :: "real \<Rightarrow> real"
  unspecified_llround :: "real \<Rightarrow> 64 word"
  max_arrivals :: nat
  max_events :: nat

definition random_ok :: "('g, 'n) RandomLibrary \<Rightarrow> bool" where
  "random_ok lib \<longleftrightarrow> (\<forall>rate g. 0 < rate \<longrightarrow> 0 \<le> fst (exponential_draw lib rate g)) \<and> permuting (std_shuffle lib) \<and>
     mono (round_long_double lib) \<and> (\<forall>x. round_long_double lib (round_long_double lib x) = round_long_double lib x) \<and>
     round_long_double lib 0 = 0"

text \<open>A vector that is to hold \<open>n\<close> elements throws \<open>std::length_error\<close> if they are more than its \<open>max_size()\<close>.\<close>

definition vec_reserve :: "nat \<Rightarrow> nat \<Rightarrow> unit result" where
  "vec_reserve max_size n = (if n > max_size then Inl LengthError else Inr ())"

datatype double = Finite real | NotFinite

fun value_of :: "double \<Rightarrow> real" where
  "value_of (Finite x) = x"
| "value_of NotFinite = 0"

section \<open>The configuration\<close>

record WorkloadConfig =
  wc_num_requests :: nat
  wc_arrival_rate :: double
  wc_straggler_probability :: double
  wc_normal_mean :: microseconds
  wc_normal_stddev :: microseconds
  wc_straggler_mean :: microseconds
  wc_straggler_stddev :: microseconds
  wc_seed :: "32 word"

definition ValidateConfig :: "WorkloadConfig \<Rightarrow> unit result" where
  "ValidateConfig c =
     (if wc_num_requests c = 0 then Inl (InvalidArgument ''Workload must contain at least one request'')
      else if wc_arrival_rate c = NotFinite \<or> value_of (wc_arrival_rate c) \<le> 0
      then Inl (InvalidArgument ''Request arrival rate must be positive'')
      else if wc_straggler_probability c = NotFinite \<or> value_of (wc_straggler_probability c) < 0 \<or>
        value_of (wc_straggler_probability c) > 1
      then Inl (InvalidArgument ''Straggler probability must be between zero and one'')
      else if wc_normal_mean c < 0 \<or> wc_normal_stddev c < 0 \<or> wc_straggler_mean c < 0 \<or> wc_straggler_stddev c < 0
      then Inl (InvalidArgument ''Workload delay parameters must not be negative'')
      else Inr ())"

definition ValidateSystematicShardCount :: "nat \<Rightarrow> unit result" where
  "ValidateSystematicShardCount k =
     (if k = 0 \<or> k > ShardId_max then Inl (InvalidArgument ''Systematic shard count is out of bounds'') else Inr ())"

definition kArrivalSeedSalt :: "32 word" where
  "kArrivalSeedSalt = 0x9E3779B9"

definition kDelaySeedSalt :: "32 word" where
  "kDelaySeedSalt = 0x85EBCA6B"

section \<open>Arrivals and delays\<close>

text \<open>\<open>request\<close> iterations of the loop, from the engine and the accumulated microseconds.\<close>

primrec arrival_loop :: "('g, 'n) RandomLibrary \<Rightarrow> real \<Rightarrow> nat \<Rightarrow> 'g \<Rightarrow> real \<Rightarrow> microseconds list" where
  "arrival_loop lib rate 0 g cumulative = []"
| "arrival_loop lib rate (Suc n) g cumulative =
     (case exponential_draw lib rate g of (interarrival, g') \<Rightarrow>
        let cumulative' = round_long_double lib (cumulative + round_long_double lib (interarrival * 1000000))
        in llround (unspecified_llround lib) cumulative' # arrival_loop lib rate n g' cumulative')"

definition request_arrival_times :: "('g, 'n) RandomLibrary \<Rightarrow> WorkloadConfig \<Rightarrow> microseconds list" where
  "request_arrival_times lib c =
     arrival_loop lib (value_of (wc_arrival_rate c)) (wc_num_requests c) (mt19937 lib (wc_seed c XOR kArrivalSeedSalt)) 0"

definition GenerateRequestArrivalTimes :: "('g, 'n) RandomLibrary \<Rightarrow> WorkloadConfig \<Rightarrow> microseconds list result" where
  "GenerateRequestArrivalTimes lib c =
     bindE (vec_reserve (max_arrivals lib) (wc_num_requests c)) (\<lambda>_. Inr (request_arrival_times lib c))"

record ('g, 'n) DelaySampler =
  ds_generator :: 'g
  ds_probability :: real
  ds_normal :: 'n
  ds_straggler :: 'n

definition DelaySampler_new :: "('g, 'n) RandomLibrary \<Rightarrow> WorkloadConfig \<Rightarrow> 32 word \<Rightarrow> ('g, 'n) DelaySampler" where
  "DelaySampler_new lib c seed =
     \<lparr>ds_generator = mt19937 lib seed, ds_probability = value_of (wc_straggler_probability c),
      ds_normal = normal_distribution lib (of_int (wc_normal_mean c)) (of_int (wc_normal_stddev c)),
      ds_straggler = normal_distribution lib (of_int (wc_straggler_mean c)) (of_int (wc_straggler_stddev c))\<rparr>"

text \<open>\<open>sampled\<close>, before it is clamped and rounded.\<close>

definition draw_delay :: "('g, 'n) RandomLibrary \<Rightarrow> ('g, 'n) DelaySampler \<Rightarrow> real \<times> ('g, 'n) DelaySampler" where
  "draw_delay lib s =
     (case bernoulli_draw lib (ds_probability s) (ds_generator s) of (straggles, g) \<Rightarrow>
        if straggles
        then (case normal_draw lib (ds_straggler s) g of (sampled, d, g') \<Rightarrow> (sampled, s\<lparr>ds_generator := g', ds_straggler := d\<rparr>))
        else (case normal_draw lib (ds_normal s) g of (sampled, d, g') \<Rightarrow> (sampled, s\<lparr>ds_generator := g', ds_normal := d\<rparr>)))"

definition Sample :: "('g, 'n) RandomLibrary \<Rightarrow> ('g, 'n) DelaySampler \<Rightarrow> microseconds \<times> ('g, 'n) DelaySampler" where
  "Sample lib s = (case draw_delay lib s of (sampled, s') \<Rightarrow> (llround (unspecified_llround lib) (max 0 sampled), s'))"

section \<open>The generator\<close>

record WorkloadGenerator =
  wg_config :: WorkloadConfig
  wg_systematic :: nat
  wg_parity :: nat

text \<open>The sum of the two counts is a \<open>uint64_t\<close> addition, which wraps around.\<close>

definition WorkloadGenerator_new :: "WorkloadConfig \<Rightarrow> nat \<Rightarrow> nat \<Rightarrow> WorkloadGenerator result" where
  "WorkloadGenerator_new c k m =
     bindE (ValidateConfig c) (\<lambda>_.
     bindE (ValidateSystematicShardCount k) (\<lambda>_.
       if (k + m) mod 2 ^ 64 > ShardId_max + 1
       then Inl (InvalidArgument ''Workload shard IDs overflow ShardId'')
       else Inr \<lparr>wg_config = c, wg_systematic = k, wg_parity = m\<rparr>))"

text \<open>The inner loop over the shards of one request, then the loop over the requests.\<close>

fun generate_shards ::
  "('g, 'n) RandomLibrary \<Rightarrow> RequestId \<Rightarrow> microseconds \<Rightarrow> nat list \<Rightarrow> ('g, 'n) DelaySampler \<Rightarrow>
   GlobalArrivalEvent list \<times> ('g, 'n) DelaySampler" where
  "generate_shards lib r start [] s = ([], s)"
| "generate_shards lib r start (shard # shards) s =
     (case Sample lib s of (delay, s') \<Rightarrow>
        (case generate_shards lib r start shards s' of (events, s'') \<Rightarrow>
          (\<lparr>ge_time = start + delay, ge_request = r, ge_shard = of_nat shard, ge_start = start\<rparr> # events, s'')))"

fun generate_requests ::
  "('g, 'n) RandomLibrary \<Rightarrow> microseconds list \<Rightarrow> nat \<Rightarrow> RequestId list \<Rightarrow> ('g, 'n) DelaySampler \<Rightarrow>
   GlobalArrivalEvent list result" where
  "generate_requests lib request_arrivals shard_count [] s = Inr []"
| "generate_requests lib request_arrivals shard_count (r # rs) s =
     bindE (if shard_count = 0 then Inr 0 else vec_at request_arrivals r) (\<lambda>start.
       case generate_shards lib r start [0..<shard_count] s of (events, s') \<Rightarrow>
         bindE (generate_requests lib request_arrivals shard_count rs s') (\<lambda>rest. Inr (events @ rest)))"

text \<open>
  The argument of \<open>events.reserve\<close> is a 64-bit product. When it wraps around, the vector grows with \<open>push_back\<close>, which throws the
  same exception once the events are too many.
\<close>

definition Generate :: "('g, 'n) RandomLibrary \<Rightarrow> WorkloadGenerator \<Rightarrow> GlobalArrivalEvent list result" where
  "Generate lib wg =
     (let shard_count = (wg_systematic wg + wg_parity wg) mod 2 ^ 64; num_requests = wc_num_requests (wg_config wg) in
      bindE (GenerateRequestArrivalTimes lib (wg_config wg)) (\<lambda>request_arrivals.
      bindE (vec_reserve (max_events lib) (num_requests * shard_count mod 2 ^ 64)) (\<lambda>_.
      bindE (generate_requests lib request_arrivals shard_count [0..<num_requests]
               (DelaySampler_new lib (wg_config wg) (wc_seed (wg_config wg) XOR kDelaySeedSalt))) (\<lambda>events.
      bindE (vec_reserve (max_events lib) (length events)) (\<lambda>_. Inr events)))))"

section \<open>Replication\<close>

text \<open>\<open>i\<close> runs over the positions of the permutation that the replicas of the request occupy.\<close>

definition SelectCapacityNormalizedReplicas ::
  "('g, 'n) RandomLibrary \<Rightarrow> RequestId \<Rightarrow> nat \<Rightarrow> nat \<Rightarrow> 32 word \<Rightarrow> ShardId list result" where
  "SelectCapacityNormalizedReplicas lib r k replica_count seed =
     bindE (ValidateSystematicShardCount k) (\<lambda>_.
       if replica_count > k then Inl (InvalidArgument ''Replica count exceeds systematic shard count'')
       else (let permutation = fst (std_shuffle lib (mt19937 lib seed) (map of_nat [0..<k]));
                 first = ((r mod k) * replica_count) mod 2 ^ 64 mod k
             in foldE (\<lambda>replica selected. bindE (vec_at permutation ((first + replica) mod k))
                  (\<lambda>shard. Inr (selected @ [shard]))) [0..<replica_count] []))"

definition ValidateReplicationEvents :: "GlobalArrivalEvent list \<Rightarrow> microseconds list \<Rightarrow> unit result" where
  "ValidateReplicationEvents events request_arrivals =
     foldE (\<lambda>e _.
       if ge_request e \<ge> length  request_arrivals
       then Inl (InvalidArgument ''Replication event request ID is out of bounds'')
       else if ge_start e \<noteq> request_arrivals ! ge_request e
       then Inl (InvalidArgument ''Replication events do not match the workload request schedule'')
       else Inr ()) events ()"

definition IsSelected :: "ShardId \<Rightarrow> ShardId list \<Rightarrow> bool" where
  "IsSelected shard selected = list_ex (\<lambda>s. s = shard) selected"

text \<open>
  The loop of both functions: an event whose shard is replicated keeps the earlier of its arrival and
  the replica's.
\<close>

fun replicate_events ::
  "('g, 'n) RandomLibrary \<Rightarrow> (GlobalArrivalEvent \<Rightarrow> bool result) \<Rightarrow> microseconds list \<Rightarrow> GlobalArrivalEvent list \<Rightarrow>
   ('g, 'n) DelaySampler \<Rightarrow> GlobalArrivalEvent list result" where
  "replicate_events lib replicated request_arrivals [] s = Inr []"
| "replicate_events lib replicated request_arrivals (e # es) s =
     bindE (replicated e) (\<lambda>b.
       if \<not> b then bindE (replicate_events lib replicated request_arrivals es s) (\<lambda>rest. Inr (e # rest))
       else bindE (vec_at request_arrivals (ge_request e)) (\<lambda>start.
         case Sample lib s of (delay, s') \<Rightarrow>
           bindE (replicate_events lib replicated request_arrivals es s')
             (\<lambda>rest. Inr (e\<lparr>ge_time := min (ge_time e) (start + delay)\<rparr> # rest))))"

definition ApplyReplication ::
  "('g, 'n) RandomLibrary \<Rightarrow> GlobalArrivalEvent list \<Rightarrow> WorkloadConfig \<Rightarrow> nat \<Rightarrow> 32 word \<Rightarrow>
   GlobalArrivalEvent list result" where
  "ApplyReplication lib events c k seed =
     bindE (ValidateConfig c) (\<lambda>_.
     bindE (ValidateSystematicShardCount k) (\<lambda>_.
     bindE (GenerateRequestArrivalTimes lib c) (\<lambda>request_arrivals.
     bindE (ValidateReplicationEvents events request_arrivals) (\<lambda>_.
       replicate_events lib (\<lambda>e. Inr (unat (ge_shard e) < k)) request_arrivals events (DelaySampler_new lib c seed)))))"

definition ApplyCapacityNormalizedReplication ::
  "('g, 'n) RandomLibrary \<Rightarrow> GlobalArrivalEvent list \<Rightarrow> WorkloadConfig \<Rightarrow> nat \<Rightarrow> nat \<Rightarrow> 32 word \<Rightarrow>
   GlobalArrivalEvent list result" where
  "ApplyCapacityNormalizedReplication lib events c k replica_count seed =
     bindE (ValidateConfig c) (\<lambda>_.
     bindE (ValidateSystematicShardCount k) (\<lambda>_.
       if replica_count > k then Inl (InvalidArgument ''Replica count exceeds systematic shard count'')
       else bindE (GenerateRequestArrivalTimes lib c) (\<lambda>request_arrivals.
         bindE (ValidateReplicationEvents events request_arrivals) (\<lambda>_.
           replicate_events lib
             (\<lambda>e. if unat (ge_shard e) \<ge> k then Inr False
                  else bindE (SelectCapacityNormalizedReplicas lib (ge_request e) k replica_count seed)
                         (\<lambda>selected. Inr (IsSelected (ge_shard e) selected)))
             request_arrivals events (DelaySampler_new lib c seed)))))"

section \<open>Times that are small enough\<close>

text \<open>
  \<open>std::llround\<close> is only specified for results that fit 64 bits, and a tiny accepted arrival rate or a huge accepted deviation
  gives larger ones. The predicates say that no arrival time reaches $2^{61}$ microseconds, some 73000 years, and none of the
  first \<open>n\<close> sampled delays does; then no sum of the two overflows either.
\<close>

primrec arrivals_fit :: "('g, 'n) RandomLibrary \<Rightarrow> real \<Rightarrow> nat \<Rightarrow> 'g \<Rightarrow> real \<Rightarrow> bool" where
  "arrivals_fit lib rate 0 g cumulative = True"
| "arrivals_fit lib rate (Suc n) g cumulative =
     (case exponential_draw lib rate g of (interarrival, g') \<Rightarrow>
        let cumulative' = round_long_double lib (cumulative + round_long_double lib (interarrival * 1000000))
        in cumulative' < 2 ^ 61 \<and> arrivals_fit lib rate n g' cumulative')"

primrec delays_fit :: "('g, 'n) RandomLibrary \<Rightarrow> nat \<Rightarrow> ('g, 'n) DelaySampler \<Rightarrow> bool" where
  "delays_fit lib 0 s = True"
| "delays_fit lib (Suc n) s = (case draw_delay lib s of (sampled, s') \<Rightarrow> sampled < 2 ^ 61 \<and> delays_fit lib n s')"

text \<open>The times of the workload \<open>c\<close> and \<open>n\<close> delays that are sampled for it from a seed.\<close>

definition times_fit :: "('g, 'n) RandomLibrary \<Rightarrow> WorkloadConfig \<Rightarrow> nat \<Rightarrow> 32 word \<Rightarrow> bool" where
  "times_fit lib c n seed \<longleftrightarrow>
     arrivals_fit lib (value_of (wc_arrival_rate c)) (wc_num_requests c) (mt19937 lib (wc_seed c XOR kArrivalSeedSalt)) 0 \<and>
     delays_fit lib n (DelaySampler_new lib c seed)"

lemma delays_fit_le: "delays_fit lib n s \<Longrightarrow> m \<le> n \<Longrightarrow> delays_fit lib m s"
proof (induction n arbitrary: m s)
  case (Suc n)
  then show ?case by (cases m) (auto split: prod.splits)
qed simp

lemma Sample_fits:
  assumes "Sample lib s = (delay, s')" "delays_fit lib (Suc n) s"
  shows "0 \<le> delay" "delay \<le> 2 ^ 61" "delays_fit lib n s'"
  using assms llround_small(2,3) [where x = "max 0 _"] by (auto simp: Sample_def split: prod.splits)

section \<open>Arrivals and delays\<close>

lemma length_arrival_loop [simp]: "length (arrival_loop lib rate n g c) = n"
  by (induction n arbitrary: g c) (auto simp: Let_def split: prod.splits)

lemma arrival_loop_sorted:
  assumes "random_ok lib" "0 < rate"
  shows "round_long_double lib c = c \<Longrightarrow> 0 \<le> c \<Longrightarrow> c < 2 ^ 61 \<Longrightarrow> arrivals_fit lib rate n g c \<Longrightarrow>
    sorted (arrival_loop lib rate n g c) \<and>
    (\<forall>t\<in>set (arrival_loop lib rate n g c). llround (unspecified_llround lib) c \<le> t \<and> t \<le> 2 ^ 61)"
proof (induction n arbitrary: g c)
  case (Suc n)
  obtain x g' where x: "exponential_draw lib rate g = (x, g')" by fastforce
  let ?c = "round_long_double lib (c + round_long_double lib (x * 1000000))"
  have x0: "0 \<le> x * 1000000" using assms x unfolding random_ok_def by (metis fst_conv mult_nonneg_nonneg zero_le_numeral)
  have mono: "a \<le> b \<Longrightarrow> round_long_double lib a \<le> round_long_double lib b" for a b
    using assms(1) by (auto simp: random_ok_def mono_def)
  have "round_long_double lib 0 = 0" using assms(1) by (simp add: random_ok_def)
  then have "0 \<le> round_long_double lib (x * 1000000)" using mono [OF x0] by simp
  then have c: "c \<le> ?c" using mono [of c "c + round_long_double lib (x * 1000000)"] Suc.prems by simp
  have r: "round_long_double lib ?c = ?c" using assms(1) by (simp add: random_ok_def)
  have fit: "?c < 2 ^ 61" "arrivals_fit lib rate n g' ?c" using Suc.prems(4) x by (simp_all add: Let_def)
  have c0: "0 \<le> ?c" using c Suc.prems(2) by simp
  from Suc.IH [OF r c0 fit] llround_mono [OF Suc.prems(2) c fit(1), of "unspecified_llround lib"] llround_small(3) [OF c0 fit(1)]
  show ?case using x by (auto simp: Let_def)
qed simp

lemma ValidateConfig_iff:
  "ValidateConfig c = Inr u \<longleftrightarrow> wc_num_requests c \<noteq> 0 \<and> (\<exists>rate>0. wc_arrival_rate c = Finite rate) \<and>
     (\<exists>p. 0 \<le> p \<and> p \<le> 1 \<and> wc_straggler_probability c = Finite p) \<and> 0 \<le> wc_normal_mean c \<and> 0 \<le> wc_normal_stddev c \<and>
     0 \<le> wc_straggler_mean c \<and> 0 \<le> wc_straggler_stddev c"
  by (cases "wc_arrival_rate c"; cases "wc_straggler_probability c") (auto simp: ValidateConfig_def)

lemma request_arrivals:
  assumes "random_ok lib" "ValidateConfig c = Inr ()" "times_fit lib c n seed"
  shows "sorted (request_arrival_times lib c)" "\<forall>t\<in>set (request_arrival_times lib c). 0 \<le> t \<and> t \<le> 2 ^ 61"
proof -
  have "0 < value_of (wc_arrival_rate c)" using assms(2) by (auto simp: ValidateConfig_iff)
  from arrival_loop_sorted [OF assms(1) this, of 0] assms(1,3)
  show "sorted (request_arrival_times lib c)" "\<forall>t\<in>set (request_arrival_times lib c). 0 \<le> t \<and> t \<le> 2 ^ 61"
    by (auto simp: request_arrival_times_def random_ok_def times_fit_def llround_small(1) nearest_def)
qed

lemma length_request_arrival_times [simp]: "length (request_arrival_times lib c) = wc_num_requests c"
  by (simp add: request_arrival_times_def)

lemma GenerateRequestArrivalTimes_iff:
  "GenerateRequestArrivalTimes lib c = Inr ts \<longleftrightarrow> wc_num_requests c \<le> max_arrivals lib \<and> ts = request_arrival_times lib c"
  by (auto simp: GenerateRequestArrivalTimes_def vec_reserve_def bindE_eq_Inr)

lemma WorkloadGenerator_new_iff:
  "WorkloadGenerator_new c k m = Inr wg \<longleftrightarrow> ValidateConfig c = Inr () \<and> 0 < k \<and> k < 2 ^ 32 \<and>
     (k + m) mod 2 ^ 64 \<le> 2 ^ 32 \<and> wg = \<lparr>wg_config = c, wg_systematic = k, wg_parity = m\<rparr>"
  by (auto simp: WorkloadGenerator_new_def bindE_eq_Inr ValidateSystematicShardCount_def ShardId_max_def)

section \<open>The generated events\<close>

definition event_of :: "GlobalArrivalEvent \<Rightarrow> RequestId \<times> ShardId" where
  "event_of e = (ge_request e, ge_shard e)"

lemma generate_shards_spec:
  "generate_shards lib r start shards s = (events, s') \<Longrightarrow> delays_fit lib (length shards + n) s \<Longrightarrow>
     map event_of events = map (\<lambda>i. (r, of_nat i)) shards \<and>
     (\<forall>e\<in>set events. ge_start e = start \<and> start \<le> ge_time e \<and> ge_time e \<le> start + 2 ^ 61) \<and> delays_fit lib n s'"
proof (induction lib r start shards s arbitrary: events s' rule: generate_shards.induct)
  case (2 lib r start shard shards s)
  obtain delay s1 where d: "Sample lib s = (delay, s1)" by fastforce
  obtain es s2 where es: "generate_shards lib r start shards s1 = (es, s2)" by fastforce
  have fit: "delays_fit lib (Suc (length shards + n)) s" using 2(3) by simp
  note delay = Sample_fits [OF d fit]
  from 2(1) [OF d [symmetric] es delay(3)] 2(2) d es delay(1,2) show ?case by (auto simp: event_of_def)
qed simp

text \<open>Whatever is drawn, the loops only fail when the requests are more than the arrival times.\<close>

lemma length_generate_shards: "generate_shards lib r start shards s = (events, s') \<Longrightarrow> length events = length shards"
  by (induction lib r start shards s arbitrary: events s' rule: generate_shards.induct) (auto split: prod.splits)

lemma generate_requests_total:
  assumes "set rs \<subseteq> {..<length request_arrivals}"
  shows "\<exists>events. generate_requests lib request_arrivals n rs s = Inr events \<and> length events = length rs * n"
  using assms
proof (induction rs arbitrary: s)
  case (Cons r rs)
  obtain start where start: "(if n = 0 then Inr 0 else vec_at request_arrivals r) = (Inr start :: microseconds result)"
    using Cons.prems by (cases "n = 0") auto
  obtain es s' where es: "generate_shards lib r start [0..<n] s = (es, s')" by fastforce
  obtain rest where "generate_requests lib request_arrivals n rs s' = Inr rest" "length rest = length rs * n"
    using Cons.IH [of s'] Cons.prems by auto
  then show ?case using start es length_generate_shards [OF es] by simp
qed simp

lemma generate_requests_spec:
  assumes "set rs \<subseteq> {..<length request_arrivals}" "delays_fit lib (length rs * n) s" "generate_requests lib request_arrivals n rs s = Inr events"
  shows "map event_of events = List.product rs (map of_nat [0..<n]) \<and>
    (\<forall>e\<in>set events. ge_start e = request_arrivals ! ge_request e \<and> ge_start e \<le> ge_time e \<and> ge_time e \<le> ge_start e + 2 ^ 61)"
  using assms
proof (induction rs arbitrary: s events)
  case (Cons r rs)
  obtain start where start: "(if n = 0 then Inr 0 else vec_at request_arrivals r) = (Inr start :: microseconds result)"
      "n \<noteq> 0 \<Longrightarrow> start = request_arrivals ! r"
    using Cons.prems(1) by (cases "n = 0") auto
  obtain es s' where es: "generate_shards lib r start [0..<n] s = (es, s')" by fastforce
  have "delays_fit lib (length [0..<n] + length rs * n) s" using Cons.prems(2) by simp
  note spec = generate_shards_spec [OF es this]
  have "ge_request e = r" if "e \<in> set es" for e
    using spec that by (force simp: event_of_def dest: arg_cong [where f = set])
  moreover have "n \<noteq> 0" if "e \<in> set es" for e using length_generate_shards [OF es] that by (cases n) auto
  moreover obtain rest where rest: "generate_requests lib request_arrivals n rs s' = Inr rest" "events = es @ rest"
    using Cons.prems(3) start(1) es by (auto simp: bindE_eq_Inr)
  moreover have "map event_of rest = List.product rs (map of_nat [0..<n])"
      "\<forall>e\<in>set rest. ge_start e = request_arrivals ! ge_request e \<and> ge_start e \<le> ge_time e \<and> ge_time e \<le> ge_start e + 2 ^ 61"
    using Cons.IH [OF _ _ rest(1)] Cons.prems(1) spec by auto
  ultimately show ?case using start es spec by (auto simp: o_def)
qed simp

text \<open>\<open>Generate\<close> throws exactly if a vector gets too long.\<close>

definition vectors_fit :: "('g, 'n) RandomLibrary \<Rightarrow> nat \<Rightarrow> nat \<Rightarrow> bool" where
  "vectors_fit lib num_requests shard_count \<longleftrightarrow> num_requests \<le> max_arrivals lib \<and> num_requests * shard_count \<le> max_events lib"

lemma Generate_total:
  assumes "WorkloadGenerator_new c k m = Inr wg" "k + m < 2 ^ 64"
  shows "if vectors_fit lib (wc_num_requests c) (k + m)
    then \<exists>events. Generate lib wg = Inr events \<and> generate_requests lib (request_arrival_times lib c) (k + m) [0..<wc_num_requests c]
      (DelaySampler_new lib c (wc_seed c XOR kDelaySeedSalt)) = Inr events
    else Generate lib wg = Inl LengthError"
proof -
  have wg: "wg = \<lparr>wg_config = c, wg_systematic = k, wg_parity = m\<rparr>" using assms(1) by (simp add: WorkloadGenerator_new_iff)
  have "set [0..<wc_num_requests c] \<subseteq> {..<length (request_arrival_times lib c)}" by auto
  from generate_requests_total [OF this, of lib "k + m"] obtain events where
    e: "generate_requests lib (request_arrival_times lib c) (k + m) [0..<wc_num_requests c]
      (DelaySampler_new lib c (wc_seed c XOR kDelaySeedSalt)) = Inr events" "length events = wc_num_requests c * (k + m)" by fastforce
  have "wc_num_requests c * (k + m) mod 2 ^ 64 \<le> wc_num_requests c * (k + m)" by simp
  then show ?thesis
    using e assms(2) by (auto simp: Generate_def wg Let_def GenerateRequestArrivalTimes_def vec_reserve_def vectors_fit_def)
qed

text \<open>What \<open>Generate\<close> produces: every shard of every request once, in order, never before its request.\<close>

lemma Generate_spec:
  assumes "random_ok lib" "WorkloadGenerator_new c k m = Inr wg" "k + m < 2 ^ 64" "vectors_fit lib (wc_num_requests c) (k + m)"
    and "times_fit lib c (wc_num_requests c * (k + m)) (wc_seed c XOR kDelaySeedSalt)"
  obtains events where "Generate lib wg = Inr events"
    "map event_of events = List.product [0..<wc_num_requests c] (map of_nat [0..<k + m])"
    "\<forall>e\<in>set events. ge_start e = request_arrival_times lib c ! ge_request e \<and> ge_start e \<le> ge_time e \<and> ge_time e \<le> ge_start e + 2 ^ 61"
proof -
  obtain events where e: "Generate lib wg = Inr events"
    "generate_requests lib (request_arrival_times lib c) (k + m) [0..<wc_num_requests c]
      (DelaySampler_new lib c (wc_seed c XOR kDelaySeedSalt)) = Inr events"
    using Generate_total [OF assms(2,3), of lib] assms(4) by auto
  have "set [0..<wc_num_requests c] \<subseteq> {..<length (request_arrival_times lib c)}" by auto
  have "delays_fit lib (length [0..<wc_num_requests c] * (k + m)) (DelaySampler_new lib c (wc_seed c XOR kDelaySeedSalt))"
    using assms(5) by (simp add: times_fit_def)
  from generate_requests_spec [OF \<open>set _ \<subseteq> _\<close> this e(2)] show ?thesis by (intro that [OF e(1)]) blast+
qed

lemma in_product_events:
  assumes "map event_of events = List.product rs ss" "e \<in> set events"
  shows "ge_request e \<in> set rs" "ge_shard e \<in> set ss"
  using arg_cong [OF assms(1), of set] assms(2) by (auto simp: event_of_def image_iff)

lemma Generate_schedule:
  assumes "random_ok lib" "WorkloadGenerator_new c (systematic_shard_count g) m = Inr wg" "m \<le> parity_shard_count g"
    and "systematic_shard_count g + parity_shard_count g \<le> 2 ^ 32"
    and "vectors_fit lib (wc_num_requests c) (systematic_shard_count g + m)"
    and "times_fit lib c (wc_num_requests c * (systematic_shard_count g + m)) (wc_seed c XOR kDelaySeedSalt)"
  obtains events where "Generate lib wg = Inr events" "schedule_valid g events"
    "map event_of events = List.product [0..<wc_num_requests c] (map of_nat [0..<systematic_shard_count g + m])"
    "\<forall>e\<in>set events. ge_start e = request_arrival_times lib c ! ge_request e \<and> ge_start e \<le> ge_time e \<and> ge_time e < 2 ^ 63"
proof -
  let ?k = "systematic_shard_count g"
  have "?k + m < 2 ^ 64" using assms(3,4) by simp
  from Generate_spec [OF assms(1,2) this assms(5,6)] obtain events where e: "Generate lib wg = Inr events"
    "map event_of events = List.product [0..<wc_num_requests c] (map of_nat [0..<?k + m])"
    "\<forall>e\<in>set events. ge_start e = request_arrival_times lib c ! ge_request e \<and> ge_start e \<le> ge_time e \<and> ge_time e \<le> ge_start e + 2 ^ 61" by blast
  have c: "ValidateConfig c = Inr ()" using assms(2) by (simp add: WorkloadGenerator_new_iff)
  note arr = request_arrivals [OF assms(1) c assms(6)]
  have starts: "0 \<le> ge_start x \<and> ge_start x \<le> 2 ^ 61" if "x \<in> set events" for x
  proof -
    have "ge_request x < wc_num_requests c" using in_product_events [OF e(2) that] by auto
    then have "request_arrival_times lib c ! ge_request x \<in> set (request_arrival_times lib c)" by simp
    then show ?thesis using arr(2) e(3) that by simp
  qed
  have "schedule_valid g events"
    unfolding schedule_valid_def
  proof
    fix x assume x: "x \<in> set events"
    have req: "ge_request x < wc_num_requests c" and sh: "\<exists>i<?k + m. ge_shard x = of_nat i"
      using in_product_events [OF e(2) x] by auto
    have t: "0 \<le> ge_time x" "ge_start x \<le> ge_time x" using e(3) x starts [OF x] by force+
    have bound: "unat (ge_shard x) < ?k + parity_shard_count g"
      using sh assms(3,4) by (auto simp: unat_of_nat_ShardId)
    have same: "\<forall>e'\<in>set events. ge_request e' = ge_request x \<longrightarrow> ge_start e' = ge_start x" using e(3) x by simp
    have "\<forall>i. unat i < ?k \<longrightarrow> (\<exists>e'\<in>set events. ge_request e' = ge_request x \<and> ge_shard e' = i)"
    proof (intro allI impI)
      fix i :: ShardId
      assume "unat i < ?k"
      then have "(ge_request x, i) \<in> set (map event_of events)"
        unfolding e(2) using req by (auto intro!: image_eqI [of _ _ "unat i"])
      then show "\<exists>e'\<in>set events. ge_request e' = ge_request x \<and> ge_shard e' = i" by (auto simp: event_of_def)
    qed
    with t bound same show "0 \<le> ge_time x \<and> ge_start x \<le> ge_time x \<and>
        unat (ge_shard x) < ?k + parity_shard_count g \<and>
        (\<forall>e'\<in>set events. ge_request e' = ge_request x \<longrightarrow> ge_start e' = ge_start x) \<and>
        (\<forall>i. unat i < ?k \<longrightarrow> (\<exists>e'\<in>set events. ge_request e' = ge_request x \<and> ge_shard e' = i))" by blast
  qed
  moreover have "\<forall>e\<in>set events. ge_time e < 2 ^ 63" using e(3) starts by force
  ultimately show thesis using that e by blast
qed

section \<open>The replicated shards\<close>

text \<open>The permutation that all requests share, and the position of a replica in it.\<close>

definition replica_order :: "('g, 'n) RandomLibrary \<Rightarrow> nat \<Rightarrow> 32 word \<Rightarrow> ShardId list" where
  "replica_order lib k seed = fst (std_shuffle lib (mt19937 lib seed) (map of_nat [0..<k]))"

definition replicas :: "ShardId list \<Rightarrow> nat \<Rightarrow> nat \<Rightarrow> RequestId \<Rightarrow> ShardId list" where
  "replicas order k n r = map (\<lambda>j. order ! (((r mod k) * n + j) mod k)) [0..<n]"

lemma replica_order_mset:
  assumes "random_ok lib" "k < 2 ^ 32"
  shows "set (replica_order lib k seed) = {i. unat i < k}" "distinct (replica_order lib k seed)"
    "length (replica_order lib k seed) = k"
proof -
  have m: "mset (replica_order lib k seed) = mset (map of_nat [0..<k])"
    using assms(1) by (simp add: random_ok_def permuting_def replica_order_def)
  show "length (replica_order lib k seed) = k" using mset_eq_length [OF m] by simp
  have "distinct (map (of_nat :: nat \<Rightarrow> ShardId) [0..<k])"
    using assms(2) by (auto simp: distinct_map inj_on_def of_nat_ShardId_inj)
  then show "distinct (replica_order lib k seed)" using m mset_eq_imp_distinct_iff by blast
  have "set (replica_order lib k seed) = of_nat ` {0..<k}" using mset_eq_setD [OF m] by simp
  also have "\<dots> = {i. unat i < k}"
    using assms(2) by (auto simp: unat_of_nat_ShardId intro!: image_eqI [of _ _ "unat _"])
  finally show "set (replica_order lib k seed) = {i. unat i < k}" .
qed

lemma append_loop:
  "\<forall>j\<in>set js. pos j < length xs \<Longrightarrow>
    foldE (\<lambda>j selected. bindE (vec_at xs (pos j)) (\<lambda>x. Inr (selected @ [x]))) js acc = Inr (acc @ map (\<lambda>j. xs ! pos j) js)"
  by (induction js arbitrary: acc) simp_all

lemma Select_replicas:
  assumes "random_ok lib" "0 < k" "k < 2 ^ 32" "n \<le> k"
  shows "SelectCapacityNormalizedReplicas lib r k n seed = Inr (replicas (replica_order lib k seed) k n r)"
proof -
  have "(r mod k) * n < 2 ^ 32 * 2 ^ 32"
    using assms(2-4) by (intro mult_strict_mono') (auto intro: less_trans [OF mod_less_divisor])
  then have "(r mod k) * n mod 2 ^ 64 = (r mod k) * n" by simp
  moreover have "length (replica_order lib k seed) = k" using replica_order_mset [OF assms(1,3)] by simp
  ultimately show ?thesis
    using assms(2-4) append_loop [of "[0..<n]" "\<lambda>j. ((r mod k) * n + j) mod k" "replica_order lib k seed" "[]"]
    by (simp add: SelectCapacityNormalizedReplicas_def ValidateSystematicShardCount_def ShardId_max_def
        replica_order_def replicas_def Let_def mod_add_left_eq)
qed

lemma mod_window_inj:
  assumes "(x + i) mod k = (x + j) mod k" "i < k" "j < (k :: nat)"
  shows "i = j"
proof -
  have "i = j" if "i \<le> j" "(x + j) mod k = (x + i) mod k" "j < k" for i j
  proof -
    have "k dvd (x + j) - (x + i)" using that mod_eq_dvd_iff_nat [of "x + i" "x + j" k] by simp
    then have "k dvd j - i" by simp
    then show ?thesis using that(1,3) by (metis diff_is_0_eq le_antisym less_imp_diff_less nat_dvd_not_less not_gr_zero)
  qed
  from this [of i j] this [of j i] assms show ?thesis by (cases "i \<le> j") simp_all
qed

lemma replicas_distinct:
  assumes "distinct order" "length order = k" "n \<le> k" "0 < k"
  shows "distinct (replicas order k n r)"
proof -
  have "inj_on (\<lambda>j. order ! (((r mod k) * n + j) mod k)) {0..<n}"
  proof (rule inj_onI)
    fix i j
    assume "i \<in> {0..<n}" "j \<in> {0..<n}" "order ! (((r mod k) * n + i) mod k) = order ! (((r mod k) * n + j) mod k)"
    then show "i = j"
      using assms mod_window_inj [of "(r mod k) * n" i k j] by (simp add: nth_eq_iff_index_eq)
  qed
  then show ?thesis by (simp add: replicas_def distinct_map)
qed

text \<open>Over a full cycle of requests the replicas walk \<open>n\<close> times around the permutation.\<close>

lemma residue_count: "0 < k \<Longrightarrow> p < k \<Longrightarrow> card {x. x < k * n \<and> x mod k = p} = (n :: nat)"
proof -
  assume k: "0 < k" "p < k"
  have "{x. x < k * n \<and> x mod k = p} = (\<lambda>i. p + k * i) ` {0..<n}"
  proof (intro equalityI subsetI)
    fix x assume "x \<in> {x. x < k * n \<and> x mod k = p}"
    then have "x = p + k * (x div k)" "x div k < n" using k by (auto simp: less_mult_imp_div_less mult.commute)
    then show "x \<in> (\<lambda>i. p + k * i) ` {0..<n}" by auto
  next
    fix x assume "x \<in> (\<lambda>i. p + k * i) ` {0..<n}"
    then obtain i where "x = p + k * i" "i \<in> {0..<n}" by (rule imageE)
    then have i: "x = p + k * i" "i < n" by simp_all
    have "p + k * i < k * Suc i" using k by simp
    also have "\<dots> \<le> k * n" using i(2) by (intro mult_le_mono2) simp
    finally show "x \<in> {x. x < k * n \<and> x mod k = p}" using i k by simp
  qed
  moreover have "inj_on (\<lambda>i. p + k * i) {0..<n}" using k by (auto simp: inj_on_def)
  ultimately show ?thesis by (simp add: card_image)
qed

lemma cycle_count:
  assumes "0 < k" "n \<le> k" "p < k"
  shows "card {q. q < k \<and> (\<exists>j<n. (q * n + j) mod k = p)} = n"
proof (cases "n = 0")
  case False
  have inj: "inj_on (\<lambda>x. x div n) {x. x < k * n \<and> x mod k = p}"
  proof (rule inj_onI)
    fix x y
    assume x: "x \<in> {x. x < k * n \<and> x mod k = p}" and y: "y \<in> {x. x < k * n \<and> x mod k = p}" and eq: "x div n = y div n"
    have "x mod n < k" "y mod n < k" using False assms(2) by (auto intro: less_le_trans [OF mod_less_divisor])
    moreover have "x div n * n + x mod n = x" "x div n * n + y mod n = y" by simp (unfold eq, simp)
    then have "(x div n * n + x mod n) mod k = (x div n * n + y mod n) mod k" using x y by simp
    ultimately have "x mod n = y mod n" using mod_window_inj by blast
    then show "x = y" using eq by (metis div_mult_mod_eq)
  qed
  have "(\<lambda>x. x div n) ` {x. x < k * n \<and> x mod k = p} = {q. q < k \<and> (\<exists>j<n. (q * n + j) mod k = p)}"
  proof (intro equalityI subsetI)
    fix q assume "q \<in> (\<lambda>x. x div n) ` {x. x < k * n \<and> x mod k = p}"
    then obtain x where x: "q = x div n" "x < k * n" "x mod k = p" by auto
    then have "q < k" "x mod n < n" "q * n + x mod n = x" using False by (auto simp: less_mult_imp_div_less)
    then show "q \<in> {q. q < k \<and> (\<exists>j<n. (q * n + j) mod k = p)}" using x(3) by auto
  next
    fix q assume "q \<in> {q. q < k \<and> (\<exists>j<n. (q * n + j) mod k = p)}"
    then obtain j where j: "q < k" "j < n" "(q * n + j) mod k = p" by auto
    have "q * n + j < Suc q * n" using j(2) by simp
    also have "\<dots> \<le> k * n" using j(1) by (intro mult_le_mono1) simp
    finally show "q \<in> (\<lambda>x. x div n) ` {x. x < k * n \<and> x mod k = p}"
      using j by (intro image_eqI [of _ _ "q * n + j"]) auto
  qed
  then show ?thesis using residue_count [OF assms(1,3), of n] card_image [OF inj] by simp
qed simp

lemma window_sum:
  assumes "0 < (k :: nat)"
  shows "(\<Sum>r\<in>{a..<a + k}. f (r mod k)) = (\<Sum>q\<in>{0..<k}. f q :: nat)"
proof (induction a)
  case (Suc a)
  have "(\<Sum>r\<in>{Suc a..<Suc a + k}. f (r mod k)) + f (a mod k) = (\<Sum>r\<in>{a..<Suc (a + k)}. f (r mod k))"
    by (subst (2) sum.atLeast_Suc_lessThan) simp_all
  also have "\<dots> = (\<Sum>r\<in>{a..<a + k}. f (r mod k)) + f ((a + k) mod k)" by simp
  finally show ?case using Suc by simp
qed simp

lemma window_card:
  assumes "0 < (k :: nat)"
  shows "card {r \<in> {a..<a + k}. P (r mod k)} = card {q. q < k \<and> P q}"
proof -
  have c: "card {r \<in> A. Q r} = (\<Sum>r\<in>A. of_bool (Q r))" if "finite A" for A and Q :: "nat \<Rightarrow> bool"
    using that by (simp add: sum_of_bool_eq Int_def)
  have "{q. q < k \<and> P q} = {q \<in> {0..<k}. P q}" by auto
  then show ?thesis using window_sum [OF assms, where a = a and f = "\<lambda>q. of_bool (P q)"] c [of "{a..<a + k}" "\<lambda>r. P (r mod k)"] c [of "{0..<k}" P]
    by simp
qed

lemma replicas_balanced:
  assumes "distinct order" "length order = k" "n \<le> k" "0 < k" "s \<in> set order"
  shows "card {r \<in> {a..<a + k}. s \<in> set (replicas order k n r)} = n"
proof -
  obtain p where p: "p < k" "order ! p = s" using assms(2,5) by (auto simp: in_set_conv_nth)
  have pos: "order ! (x mod k) = s \<longleftrightarrow> x mod k = p" for x
    using nth_eq_iff_index_eq [OF assms(1), of "x mod k" p] assms(2,4) p by simp
  have "s \<in> set (replicas order k n r) \<longleftrightarrow> (\<exists>j<n. ((r mod k) * n + j) mod k = p)" for r
    unfolding pos [symmetric] by (auto simp: replicas_def)
  then show ?thesis
    using window_card [OF assms(4), of a "\<lambda>q. \<exists>j<n. (q * n + j) mod k = p"] cycle_count [OF assms(4,3) p(1)] by simp
qed

section \<open>Rewriting the events\<close>

text \<open>\<open>e'\<close> is \<open>e\<close>, possibly earlier, and exactly \<open>e\<close> where \<open>R\<close> does not hold.\<close>

definition hastened :: "(GlobalArrivalEvent \<Rightarrow> bool) \<Rightarrow> GlobalArrivalEvent \<Rightarrow> GlobalArrivalEvent \<Rightarrow> bool" where
  "hastened R e e' \<longleftrightarrow> event_of e' = event_of e \<and> ge_start e' = ge_start e \<and> ge_time e' \<le> ge_time e \<and>
     ge_start e \<le> ge_time e' \<and> (\<not> R e \<longrightarrow> e' = e)"

definition matches_schedule :: "microseconds list \<Rightarrow> GlobalArrivalEvent list \<Rightarrow> bool" where
  "matches_schedule request_arrivals events \<longleftrightarrow> (\<forall>e\<in>set events. ge_request e < length request_arrivals \<and>
     ge_start e = request_arrivals ! ge_request e \<and> ge_start e \<le> ge_time e)"

lemma ValidateReplicationEvents_iff:
  "ValidateReplicationEvents events request_arrivals = Inr u \<longleftrightarrow>
     (\<forall>e\<in>set events. ge_request e < length request_arrivals \<and> ge_start e = request_arrivals ! ge_request e)"
  by (auto simp: ValidateReplicationEvents_def foldE_unit_Inr not_le split: if_splits)

lemma replicate_events_spec:
  assumes "matches_schedule request_arrivals events" "\<forall>e\<in>set events. replicated e = Inr (R e)" "delays_fit lib (length events) s"
  shows "\<exists>events'. replicate_events lib replicated request_arrivals events s = Inr events' \<and> list_all2 (hastened R) events events'"
  using assms
proof (induction events arbitrary: s)
  case (Cons e es)
  then have e: "ge_request e < length request_arrivals" "ge_start e = request_arrivals ! ge_request e" "ge_start e \<le> ge_time e"
      "replicated e = Inr (R e)" and es: "matches_schedule request_arrivals es" "\<forall>e\<in>set es. replicated e = Inr (R e)"
      and fit: "delays_fit lib (Suc (length es)) s"
    unfolding matches_schedule_def by auto
  show ?case
  proof (cases "R e")
    case False
    then show ?thesis using Cons.IH [OF es delays_fit_le [OF fit]] e by (auto simp: hastened_def)
  next
    case True
    obtain delay s' where d: "Sample lib s = (delay, s')" by fastforce
    note delay = Sample_fits [OF d fit]
    from Cons.IH [OF es delay(3)] obtain es' where "replicate_events lib replicated request_arrivals es s' = Inr es'"
      "list_all2 (hastened R) es es'" by blast
    moreover have "hastened R e (e\<lparr>ge_time := min (ge_time e) (request_arrivals ! ge_request e + delay)\<rparr>)"
      using True e delay(1) by (auto simp: hastened_def event_of_def)
    ultimately show ?thesis using True e d by simp
  qed
qed simp

lemma replicate_events_cong:
  "\<forall>e\<in>set events. R e = R' e \<Longrightarrow> list_all2 (hastened R) events events' = list_all2 (hastened R') events events'"
  by (auto simp: hastened_def list_all2_conv_all_nth)

definition replicated_shard :: "ShardId list \<Rightarrow> nat \<Rightarrow> nat \<Rightarrow> GlobalArrivalEvent \<Rightarrow> bool" where
  "replicated_shard order k n e \<longleftrightarrow> unat (ge_shard e) < k \<and> ge_shard e \<in> set (replicas order k n (ge_request e))"

lemma ApplyReplication_ok:
  assumes "ValidateConfig c = Inr ()" "0 < k" "k < 2 ^ 32" "wc_num_requests c \<le> max_arrivals lib"
    and "matches_schedule (request_arrival_times lib c) events" "times_fit lib c n seed" "length events \<le> n"
  obtains events' where "ApplyReplication lib events c k seed = Inr events'"
    "list_all2 (hastened (\<lambda>e. unat (ge_shard e) < k)) events events'"
proof -
  have valid: "ValidateReplicationEvents events (request_arrival_times lib c) = Inr ()"
    using assms(5) by (simp add: ValidateReplicationEvents_iff matches_schedule_def)
  have fit: "delays_fit lib (length events) (DelaySampler_new lib c seed)"
    using assms(6,7) delays_fit_le by (auto simp: times_fit_def)
  obtain events' where "replicate_events lib (\<lambda>e. Inr (unat (ge_shard e) < k)) (request_arrival_times lib c) events (DelaySampler_new lib c seed) = Inr events'"
      "list_all2 (hastened (\<lambda>e. unat (ge_shard e) < k)) events events'"
    using replicate_events_spec [OF assms(5) _ fit, of "\<lambda>e. Inr (unat (ge_shard e) < k)" "\<lambda>e. unat (ge_shard e) < k"] by auto
  moreover have "GenerateRequestArrivalTimes lib c = Inr (request_arrival_times lib c)" using assms(4) by (simp add: GenerateRequestArrivalTimes_iff)
  ultimately show thesis
    using that assms(1-3) valid by (simp add: ApplyReplication_def ValidateSystematicShardCount_def ShardId_max_def)
qed

lemma ApplyCapacity_ok:
  assumes "random_ok lib" "ValidateConfig c = Inr ()" "0 < k" "k < 2 ^ 32" "n \<le> k" "wc_num_requests c \<le> max_arrivals lib"
    and "matches_schedule (request_arrival_times lib c) events" "times_fit lib c q seed" "length events \<le> q"
  obtains events' where "ApplyCapacityNormalizedReplication lib events c k n seed = Inr events'"
    "list_all2 (hastened (replicated_shard (replica_order lib k seed) k n)) events events'"
proof -
  let ?f = "\<lambda>e. if unat (ge_shard e) \<ge> k then Inr False
     else bindE (SelectCapacityNormalizedReplicas lib (ge_request e) k n seed) (\<lambda>selected. Inr (IsSelected (ge_shard e) selected))"
  have "ValidateReplicationEvents events (request_arrival_times lib c) = Inr ()"
    using assms(7) by (simp add: ValidateReplicationEvents_iff matches_schedule_def)
  moreover have f: "\<forall>e\<in>set events. ?f e = Inr (replicated_shard (replica_order lib k seed) k n e)"
    using Select_replicas [OF assms(1,3-5)] by (auto simp: replicated_shard_def IsSelected_def list_ex_iff)
  have fit: "delays_fit lib (length events) (DelaySampler_new lib c seed)"
    using assms(8,9) delays_fit_le by (auto simp: times_fit_def)
  from replicate_events_spec [OF assms(7) f fit]
  obtain events' where "replicate_events lib ?f (request_arrival_times lib c) events (DelaySampler_new lib c seed) = Inr events'"
    "list_all2 (hastened (replicated_shard (replica_order lib k seed) k n)) events events'" by blast
  moreover have "GenerateRequestArrivalTimes lib c = Inr (request_arrival_times lib c)" using assms(6) by (simp add: GenerateRequestArrivalTimes_iff)
  ultimately show thesis using that assms(2-5)
    by (simp add: ApplyCapacityNormalizedReplication_def ValidateSystematicShardCount_def ShardId_max_def)
qed

lemma list_all2_mem:
  "list_all2 P xs ys \<Longrightarrow> y \<in> set ys \<Longrightarrow> \<exists>x\<in>set xs. P x y"
  "list_all2 P xs ys \<Longrightarrow> x \<in> set xs \<Longrightarrow> \<exists>y\<in>set ys. P x y"
  by (induction rule: list_all2_induct) auto

lemma hastened_schedule:
  assumes "schedule_valid g events" "list_all2 (hastened R) events events'" "\<forall>e\<in>set events. 0 \<le> ge_start e"
  shows "schedule_valid g events'"
proof -
  have left: "\<exists>e\<in>set events. hastened R e e'" if "e' \<in> set events'" for e'
    using list_all2_mem(1) [OF assms(2) that] .
  have right: "\<exists>e'\<in>set events'. hastened R e e'" if "e \<in> set events" for e
    using list_all2_mem(2) [OF assms(2) that] .
  show ?thesis
    unfolding schedule_valid_def
  proof
    fix e' assume "e' \<in> set events'"
    then obtain e where e: "e \<in> set events" "hastened R e e'" using left by blast
    have v: "unat (ge_shard e) < systematic_shard_count g + parity_shard_count g"
        "\<forall>x\<in>set events. ge_request x = ge_request e \<longrightarrow> ge_start x = ge_start e"
        "\<forall>i. unat i < systematic_shard_count g \<longrightarrow> (\<exists>x\<in>set events. ge_request x = ge_request e \<and> ge_shard x = i)"
      using assms(1) e(1) unfolding schedule_valid_def by blast+
    have h: "ge_request e' = ge_request e" "ge_shard e' = ge_shard e" "ge_start e' = ge_start e" "ge_start e' \<le> ge_time e'" "0 \<le> ge_start e'"
      using e assms(3) by (auto simp: hastened_def event_of_def)
    have "ge_start x' = ge_start e'" if x': "x' \<in> set events'" "ge_request x' = ge_request e'" for x'
    proof -
      obtain x where "x \<in> set events" "hastened R x x'" using left x'(1) by blast
      then show ?thesis using v(2) x'(2) h by (auto simp: hastened_def event_of_def)
    qed
    moreover have "\<exists>x'\<in>set events'. ge_request x' = ge_request e' \<and> ge_shard x' = i"
      if i: "unat i < systematic_shard_count g" for i
    proof -
      obtain x where "x \<in> set events" "ge_request x = ge_request e" "ge_shard x = i" using v(3) i by blast
      then show ?thesis using right [of x] h by (auto simp: hastened_def event_of_def)
    qed
    ultimately show "0 \<le> ge_time e' \<and> ge_start e' \<le> ge_time e' \<and>
        unat (ge_shard e') < systematic_shard_count g + parity_shard_count g \<and>
        (\<forall>x\<in>set events'. ge_request x = ge_request e' \<longrightarrow> ge_start x = ge_start e') \<and>
        (\<forall>i. unat i < systematic_shard_count g \<longrightarrow> (\<exists>x\<in>set events'. ge_request x = ge_request e' \<and> ge_shard x = i))"
      using v(1) h by auto
  qed
qed

section \<open>Properties\<close>

text \<open>A library for the witnesses: an engine that counts, constant draws, and no shuffling.\<close>

definition example_library :: "(nat, unit) RandomLibrary" where
  "example_library = \<lparr>mt19937 = (\<lambda>seed. 0), exponential_draw = (\<lambda>rate g. (1 / 1000, Suc g)),
     bernoulli_draw = (\<lambda>p g. (p > 1 / 2, Suc g)), normal_distribution = (\<lambda>m d. ()),
     normal_draw = (\<lambda>d g. (of_nat (g mod 100), d, Suc g)), std_shuffle = (\<lambda>g xs. (xs, g)), round_long_double = (\<lambda>x. x),
     unspecified_llround = (\<lambda>_. 0), max_arrivals = 2 ^ 60, max_events = 2 ^ 58\<rparr>"

lemma example_library_ok: "random_ok example_library"
  by (simp add: random_ok_def example_library_def permuting_def mono_def)

definition example_config :: WorkloadConfig where
  "example_config = \<lparr>wc_num_requests = 2, wc_arrival_rate = Finite 1000, wc_straggler_probability = Finite (1 / 20),
     wc_normal_mean = 5, wc_normal_stddev = 1, wc_straggler_mean = 50, wc_straggler_stddev = 10, wc_seed = 7\<rparr>"

lemma example_config_ok: "ValidateConfig example_config = Inr ()"
  by (simp add: ValidateConfig_def example_config_def)

text \<open>Its times stay small: a request starts every millisecond and no delay exceeds 100 microseconds.\<close>

lemma example_arrivals_fit:
  "0 \<le> c \<Longrightarrow> c + 1000 * real n < 2 ^ 61 \<Longrightarrow> arrivals_fit example_library rate n g c"
  by (induction n arbitrary: g c) (simp_all add: example_library_def Let_def algebra_simps)

lemma example_delays_fit: "delays_fit example_library n s"
proof (induction n arbitrary: s)
  case (Suc n)
  obtain x s' where draw: "draw_delay example_library s = (x, s')" by fastforce
  have normal: "normal_draw example_library d g = (real (g mod 100), d, Suc g)" for d g by (simp add: example_library_def)
  obtain m :: nat where "x = real (m mod 100)"
    using draw by (auto simp: draw_delay_def normal split: prod.splits if_splits)
  moreover have "real (m mod 100) < 100" by simp
  ultimately have "x < 2 ^ 61" by simp
  then show ?case using draw Suc by simp
qed simp

lemma example_times_fit: "1000 * real (wc_num_requests c) < 2 ^ 61 \<Longrightarrow> times_fit example_library c n seed"
  unfolding times_fit_def using example_arrivals_fit [of 0] example_delays_fit by simp

text \<open>
  C33. Generated workloads are well formed. A generator that the constructor accepts for the shard counts of a graph throws exactly
  if its requests or its events are more than a vector can hold. Otherwise, and if no arrival time and no sampled delay reaches
  $2^{61}$ microseconds (\<open>std::llround\<close> is unspecified beyond 64 bits), whatever else the random library draws, it
  yields every shard of every request exactly once, in order; the requests start in non-decreasing order, no shard arrives
  before its request starts, no time overflows, and the cluster simulator accepts the events.
\<close>

theorem Generate_wellformed:
  assumes "random_ok lib" "WorkloadGenerator_new c (systematic_shard_count g) m = Inr wg" "m \<le> parity_shard_count g"
    and "systematic_shard_count g + parity_shard_count g \<le> 2 ^ 32"
  shows "if \<not> vectors_fit lib (wc_num_requests c) (systematic_shard_count g + m) then Generate lib wg = Inl LengthError
    else (\<exists>events. Generate lib wg = Inr events) \<and>
      (times_fit lib c (wc_num_requests c * (systematic_shard_count g + m)) (wc_seed c XOR kDelaySeedSalt) \<longrightarrow>
        (\<exists>events arrivals. Generate lib wg = Inr events \<and> schedule_valid g events \<and>
          map (\<lambda>e. (ge_request e, ge_shard e)) events =
            List.product [0..<wc_num_requests c] (map of_nat [0..<systematic_shard_count g + m]) \<and>
          GenerateRequestArrivalTimes lib c = Inr arrivals \<and> sorted arrivals \<and>
          (\<forall>e\<in>set events. ge_start e = arrivals ! ge_request e \<and> ge_time e < 2 ^ 63)))"
proof (cases "vectors_fit lib (wc_num_requests c) (systematic_shard_count g + m)")
  case False
  then show ?thesis using Generate_total [OF assms(2), of lib] assms(3,4) by simp
next
  case True
  have arrivals: "GenerateRequestArrivalTimes lib c = Inr (request_arrival_times lib c)"
    using True by (simp add: GenerateRequestArrivalTimes_iff vectors_fit_def)
  have c: "ValidateConfig c = Inr ()" using assms(2) by (simp add: WorkloadGenerator_new_iff)
  have "\<exists>events. Generate lib wg = Inr events" using Generate_total [OF assms(2), of lib] assms(3,4) True by auto
  moreover have "\<exists>events arrivals. Generate lib wg = Inr events \<and> schedule_valid g events \<and>
      map (\<lambda>e. (ge_request e, ge_shard e)) events =
        List.product [0..<wc_num_requests c] (map of_nat [0..<systematic_shard_count g + m]) \<and>
      GenerateRequestArrivalTimes lib c = Inr arrivals \<and> sorted arrivals \<and>
      (\<forall>e\<in>set events. ge_start e = arrivals ! ge_request e \<and> ge_time e < 2 ^ 63)"
    if fit: "times_fit lib c (wc_num_requests c * (systematic_shard_count g + m)) (wc_seed c XOR kDelaySeedSalt)"
  proof -
    obtain events where "Generate lib wg = Inr events" "schedule_valid g events"
      "map event_of events = List.product [0..<wc_num_requests c] (map of_nat [0..<systematic_shard_count g + m])"
      "\<forall>e\<in>set events. ge_start e = request_arrival_times lib c ! ge_request e \<and> ge_start e \<le> ge_time e \<and> ge_time e < 2 ^ 63"
      by (rule Generate_schedule [OF assms True fit])
    then show ?thesis using arrivals request_arrivals(1) [OF assms(1) c fit] by (auto simp: event_of_def [abs_def])
  qed
  ultimately show ?thesis using True by simp
qed

theorem Generate_wellformed_witness:
  "\<exists>wg events. WorkloadGenerator_new example_config 3 2 = Inr wg \<and> Generate example_library wg = Inr events \<and>
     schedule_valid example_graph events \<and> length events = 10"
proof -
  obtain wg where wg: "WorkloadGenerator_new example_config (systematic_shard_count example_graph) 2 = Inr wg"
    using example_config_ok by (simp add: WorkloadGenerator_new_iff example_graph_def)
  have g: "2 \<le> parity_shard_count example_graph" "systematic_shard_count example_graph + parity_shard_count example_graph \<le> 2 ^ 32"
    by (simp_all add: example_graph_def)
  have "vectors_fit example_library (wc_num_requests example_config) (systematic_shard_count example_graph + 2)"
    by (simp add: vectors_fit_def example_library_def example_config_def example_graph_def)
  moreover have "times_fit example_library example_config n seed" for n seed
    by (rule example_times_fit) (simp add: example_config_def)
  ultimately obtain events where
    e: "Generate example_library wg = Inr events" "schedule_valid example_graph events"
    "map (\<lambda>e. (ge_request e, ge_shard e)) events = List.product [0..<2] (map of_nat [0..<5])"
    using Generate_wellformed [OF example_library_ok wg g] by (auto simp: example_config_def example_graph_def)
  from arg_cong [OF e(3), of length] have "length events = 10" by (simp add: length_product)
  then show ?thesis using wg e(1,2) by (auto simp: example_graph_def)
qed

text \<open>
  Replication only helps: on events of the workload's own schedule, and with delays that fit, both baselines succeed and return
  the same events in the same order, each with the same request, shard and start, never later and never
  before the request starts. Full replication touches systematic shards only, the capacity-normalized one
  only the shards selected for the request.
\<close>

theorem replication_sound:
  assumes "random_ok lib" "ValidateConfig c = Inr ()" "0 < k" "k < 2 ^ 32" "n \<le> k"
    and "GenerateRequestArrivalTimes lib c = Inr schedule" "times_fit lib c (length events) seed"
    and "\<forall>e\<in>set events. ge_request e < wc_num_requests c \<and> ge_start e = schedule ! ge_request e \<and> ge_start e \<le> ge_time e"
  shows "\<exists>full cap. ApplyReplication lib events c k seed = Inr full \<and>
    ApplyCapacityNormalizedReplication lib events c k n seed = Inr cap \<and>
    list_all2 (hastened (\<lambda>e. unat (ge_shard e) < k)) events full \<and>
    list_all2 (hastened (\<lambda>e. \<exists>selected. SelectCapacityNormalizedReplicas lib (ge_request e) k n seed = Inr selected \<and>
      ge_shard e \<in> set selected)) events cap"
proof -
  have arrivals: "wc_num_requests c \<le> max_arrivals lib" "schedule = request_arrival_times lib c"
    using assms(6) by (simp_all add: GenerateRequestArrivalTimes_iff)
  have m: "matches_schedule (request_arrival_times lib c) events"
    using assms(8) by (auto simp: matches_schedule_def arrivals(2))
  obtain full where "ApplyReplication lib events c k seed = Inr full"
    "list_all2 (hastened (\<lambda>e. unat (ge_shard e) < k)) events full"
    by (rule ApplyReplication_ok [OF assms(2-4) arrivals(1) m assms(7) order_refl])
  moreover obtain cap where cap: "ApplyCapacityNormalizedReplication lib events c k n seed = Inr cap"
    "list_all2 (hastened (replicated_shard (replica_order lib k seed) k n)) events cap"
    by (rule ApplyCapacity_ok [OF assms(1-5) arrivals(1) m assms(7) order_refl])
  have "set (replicas (replica_order lib k seed) k n r) \<subseteq> {i. unat i < k}" for r
  proof -
    have "set (replicas (replica_order lib k seed) k n r) \<subseteq> set (replica_order lib k seed)"
      using assms(3) replica_order_mset(3) [OF assms(1,4)] by (auto simp: replicas_def)
    then show ?thesis using replica_order_mset(1) [OF assms(1,4)] by simp
  qed
  then have "\<forall>e\<in>set events. replicated_shard (replica_order lib k seed) k n e =
      (\<exists>selected. SelectCapacityNormalizedReplicas lib (ge_request e) k n seed = Inr selected \<and> ge_shard e \<in> set selected)"
    using Select_replicas [OF assms(1,3-5)] by (auto simp: replicated_shard_def)
  from replicate_events_cong [OF this] cap have "list_all2 (hastened (\<lambda>e. \<exists>selected.
      SelectCapacityNormalizedReplicas lib (ge_request e) k n seed = Inr selected \<and> ge_shard e \<in> set selected)) events cap" by simp
  ultimately show ?thesis using cap(1) by blast
qed

text \<open>
  The capacity-normalized baseline spends its replicas evenly: every request gets \<open>replica_count\<close>
  distinct systematic shards, and over any \<open>k\<close> consecutive requests every systematic shard is replicated
  exactly \<open>replica_count\<close> times.
\<close>

theorem replicas_capacity_normalized:
  assumes "random_ok lib" "0 < k" "k < 2 ^ 32" "n \<le> k"
  shows "(\<forall>r. \<exists>selected. SelectCapacityNormalizedReplicas lib r k n seed = Inr selected \<and> length selected = n \<and>
      distinct selected \<and> set selected \<subseteq> {s. unat s < k}) \<and>
    (\<forall>a s. s \<in> {s. unat s < k} \<longrightarrow>
      card {r \<in> {a..<a + k}. \<exists>selected. SelectCapacityNormalizedReplicas lib r k n seed = Inr selected \<and> s \<in> set selected} = n)"
proof -
  note order = replica_order_mset [OF assms(1,3), of seed]
  have "set (replicas (replica_order lib k seed) k n r) \<subseteq> {s. unat s < k}" for r
    unfolding order(1) [symmetric] using assms(2) order(3) by (auto simp: replicas_def)
  then show ?thesis
    using Select_replicas [OF assms] replicas_distinct [OF order(2,3) assms(4,2)]
      replicas_balanced [OF order(2,3) assms(4,2)] order(1) by (simp add: replicas_def)
qed

text \<open>
  What the constructor accepts, with its 64-bit sum: shard counts whose sum fits a \<open>ShardId\<close>, and also
  parity counts so large that the sum wraps around; with \<open>m = 2^64 - k\<close> the accepted generator generates
  no event at all.
\<close>

theorem WorkloadGenerator_accepts:
  assumes "m < 2 ^ 64"
  shows "((\<exists>wg. WorkloadGenerator_new c k m = Inr wg) \<longleftrightarrow> ValidateConfig c = Inr () \<and> 0 < k \<and> k < 2 ^ 32 \<and>
      (k + m \<le> 2 ^ 32 \<or> 2 ^ 64 \<le> k + m)) \<and>
    (\<forall>wg. WorkloadGenerator_new c k (2 ^ 64 - k) = Inr wg \<and> wc_num_requests c \<le> max_arrivals lib \<longrightarrow> Generate lib wg = Inr [])"
proof
  have wrap: "(k + m) mod 2 ^ 64 = (if k + m < 2 ^ 64 then k + m else k + m - 2 ^ 64)" if "k < 2 ^ 32"
    using assms that mod_if [of "k + m - 2 ^ 64" "2 ^ 64"] by (simp add: le_mod_geq)
  show "(\<exists>wg. WorkloadGenerator_new c k m = Inr wg) \<longleftrightarrow> ValidateConfig c = Inr () \<and> 0 < k \<and> k < 2 ^ 32 \<and>
      (k + m \<le> 2 ^ 32 \<or> 2 ^ 64 \<le> k + m)"
    using assms wrap by (auto simp: WorkloadGenerator_new_iff)
  have "generate_requests lib request_arrivals 0 rs s = Inr []" for rs s request_arrivals by (induction rs arbitrary: s) simp_all
  then show "\<forall>wg. WorkloadGenerator_new c k (2 ^ 64 - k) = Inr wg \<and> wc_num_requests c \<le> max_arrivals lib \<longrightarrow> Generate lib wg = Inr []"
    by (auto simp: WorkloadGenerator_new_iff Generate_def Let_def GenerateRequestArrivalTimes_def vec_reserve_def)
qed

theorem WorkloadGenerator_accepts_witness:
  "\<exists>wg. WorkloadGenerator_new example_config 16 18446744073709551600 = Inr wg \<and> Generate example_library wg = Inr []"
proof -
  have m: "(18446744073709551600 :: nat) < 2 ^ 64" "(18446744073709551600 :: nat) = 2 ^ 64 - 16" by simp_all
  from WorkloadGenerator_accepts [OF m(1), of example_config 16 example_library] example_config_ok
  obtain wg where "WorkloadGenerator_new example_config 16 18446744073709551600 = Inr wg" by auto
  moreover have "wc_num_requests example_config \<le> max_arrivals example_library" by (simp add: example_config_def example_library_def)
  ultimately show ?thesis using WorkloadGenerator_accepts [OF m(1), of example_config 16 example_library] m(2) by metis
qed

theorem replicas_capacity_normalized_witness:
  "card {r \<in> {100..<104}. \<exists>selected. SelectCapacityNormalizedReplicas example_library r 4 3 9 = Inr selected \<and> 2 \<in> set selected} = 3"
proof -
  have "(0 :: nat) < 4" "(4 :: nat) < 2 ^ 32" "(3 :: nat) \<le> 4" by simp_all
  from replicas_capacity_normalized [OF example_library_ok this, THEN conjunct2, rule_format, of 2 100]
  show ?thesis by simp
qed

theorem replication_sound_witness:
  "\<exists>events full. Generate example_library \<lparr>wg_config = example_config, wg_systematic = 3, wg_parity = 2\<rparr> = Inr events \<and>
     ApplyReplication example_library events example_config 3 5 = Inr full \<and>
     list_all2 (hastened (\<lambda>e. unat (ge_shard e) < 3)) events full"
proof -
  let ?wg = "\<lparr>wg_config = example_config, wg_systematic = 3, wg_parity = 2\<rparr>"
  have new: "WorkloadGenerator_new example_config 3 2 = Inr ?wg" using example_config_ok by (simp add: WorkloadGenerator_new_iff)
  have fits: "vectors_fit example_library (wc_num_requests example_config) (3 + 2)"
    by (simp add: vectors_fit_def example_library_def example_config_def)
  have times: "times_fit example_library example_config n seed" for n seed
    by (rule example_times_fit) (simp add: example_config_def)
  obtain events where e: "Generate example_library ?wg = Inr events"
    "map event_of events = List.product [0..<wc_num_requests example_config] (map of_nat [0..<3 + 2])"
    "\<forall>e\<in>set events. ge_start e = request_arrival_times example_library example_config ! ge_request e \<and> ge_start e \<le> ge_time e \<and>
      ge_time e \<le> ge_start e + 2 ^ 61"
    by (rule Generate_spec [OF example_library_ok new _ fits times]) simp
  then have sound: "\<forall>e\<in>set events. ge_request e < wc_num_requests example_config \<and>
      ge_start e = request_arrival_times example_library example_config ! ge_request e \<and> ge_start e \<le> ge_time e"
    using in_product_events(1) [OF e(2)] by auto
  have arrivals: "GenerateRequestArrivalTimes example_library example_config = Inr (request_arrival_times example_library example_config)"
    by (simp add: GenerateRequestArrivalTimes_iff example_library_def example_config_def)
  have "(0 :: nat) < 3" "(3 :: nat) < 2 ^ 32" "(2 :: nat) \<le> 3" by simp_all
  from replication_sound [OF example_library_ok example_config_ok this arrivals times sound] e(1) show ?thesis by blast
qed

end
