(* ===== verification/SweepOptions.thy ===== *)
theory SweepOptions imports Workload begin

text \<open>
  \<open>experiments/phase7_parameter_sweep.cpp\<close>, first part: the command line of the parameter sweep and the
  table of measured decode costs.

  \<open>std::stoull\<close> and \<open>std::getline\<close> are modelled as documented. \<open>std::stod\<close> is a parameter: it returns the
  value and the number of characters it parsed, or throws. The contents of the calibration file are a
  parameter, \<open>None\<close> if it cannot be opened.
\<close>

section \<open>Characters and numbers\<close>

definition is_digit :: "char \<Rightarrow> bool" where
  "is_digit c \<longleftrightarrow> of_char c \<in> {48 :: nat..57}"

definition is_space :: "char \<Rightarrow> bool" where
  "is_space c \<longleftrightarrow> of_char c \<in> {9 :: nat..13} \<or> of_char c = (32 :: nat)"

definition number_of :: "string \<Rightarrow> nat" where
  "number_of digits = foldl (\<lambda>n c. 10 * n + (of_char c - 48)) 0 digits"

text \<open>Leading space, an optional sign, digits; a minus sign negates the value in 64 bits.\<close>

definition std_stoull :: "string \<Rightarrow> (nat \<times> nat) result" where
  "std_stoull text =
     (let rest = dropWhile is_space text;
          negative = (rest \<noteq> [] \<and> hd rest = CHR ''-'');
          body = (if rest \<noteq> [] \<and> (hd rest = CHR ''-'' \<or> hd rest = CHR ''+'') then tl rest else rest);
          n = number_of (takeWhile is_digit body)
      in if takeWhile is_digit body = [] then Inl (InvalidArgument ''stoull'')
         else if n \<ge> 2 ^ 64 then Inl OutOfRange
         else Inr (if negative then (2 ^ 64 - n) mod 2 ^ 64 else n, length text - length (dropWhile is_digit body)))"

type_synonym stod = "string \<Rightarrow> (double \<times> nat) result"

text \<open>\<open>std::to_string\<close> of a natural number.\<close>

fun to_string :: "nat \<Rightarrow> string" where
  "to_string n = (if n < 10 then [char_of (48 + n)] else to_string (n div 10) @ [char_of (48 + n mod 10)])"

declare to_string.simps [simp del]

text \<open>\<open>std::getline\<close> from what is left of a stream: nothing at the end, else the text up to the delimiter.\<close>

definition std_getline :: "char \<Rightarrow> string \<Rightarrow> (string \<times> string) option" where
  "std_getline delimiter rest =
     (if rest = [] then None
      else Some (takeWhile (\<lambda>c. c \<noteq> delimiter) rest, tl (dropWhile (\<lambda>c. c \<noteq> delimiter) rest)))"

lemma dropWhile_shorter: "dropWhile P xs = y # ys \<Longrightarrow> length ys < length xs"
  using length_dropWhile_le [of P xs] by simp

lemma getline_shorter: "std_getline d rest = Some (line, rest') \<Longrightarrow> length rest' < length rest"
  using length_dropWhile_le [of "\<lambda>c. c \<noteq> d" rest]
  by (cases rest) (auto simp: std_getline_def simp del: dropWhile.simps takeWhile.simps intro: le_less_trans [OF diff_le_mono])

section \<open>Values of options\<close>

definition ParseUnsigned :: "string \<Rightarrow> string \<Rightarrow> nat result" where
  "ParseUnsigned text option_name =
     bindE (std_stoull text) (\<lambda>(parsed, parsed_characters).
       if parsed_characters \<noteq> length text then Inl (InvalidArgument (''Invalid value for '' @ option_name)) else Inr parsed)"

function SplitCsv :: "string \<Rightarrow> string \<Rightarrow> string list result" where
  "SplitCsv text option_name =
     (let item = takeWhile (\<lambda>c. c \<noteq> CHR '','') text in
      if item = [] then Inl (InvalidArgument (''Invalid value for '' @ option_name))
      else (case dropWhile (\<lambda>c. c \<noteq> CHR '','') text of
          [] \<Rightarrow> Inr [item]
        | delimiter # rest \<Rightarrow> bindE (SplitCsv rest option_name) (\<lambda>items. Inr (item # items))))"
  by pat_completeness auto

termination
  by (relation "measure (\<lambda>(text, option_name). length text)")
    (auto intro: dropWhile_shorter)

declare SplitCsv.simps [simp del]

definition parse_double_item :: "stod \<Rightarrow> string \<Rightarrow> bool \<Rightarrow> string \<Rightarrow> double list \<Rightarrow> double list result" where
  "parse_double_item stod option_name allow_zero item vals =
     bindE (stod item) (\<lambda>(parsed, parsed_characters).
       if parsed_characters \<noteq> length item \<or> parsed = NotFinite \<or>
          (if allow_zero then value_of parsed < 0 else value_of parsed \<le> 0)
       then Inl (InvalidArgument (''Invalid value for '' @ option_name))
       else Inr (vals @ [parsed]))"

definition ParseDoubleList :: "stod \<Rightarrow> string \<Rightarrow> string \<Rightarrow> bool \<Rightarrow> double list result" where
  "ParseDoubleList stod text option_name allow_zero =
     bindE (SplitCsv text option_name) (\<lambda>items. foldE (parse_double_item stod option_name allow_zero) items [])"

definition parse_size_item :: "string \<Rightarrow> bool \<Rightarrow> string \<Rightarrow> nat list \<Rightarrow> nat list result" where
  "parse_size_item option_name allow_zero item vals =
     bindE (ParseUnsigned item option_name) (\<lambda>parsed.
       if (\<not> allow_zero \<and> parsed = 0) \<or> parsed > 2 ^ 64 - 1
       then Inl (InvalidArgument (''Invalid value for '' @ option_name))
       else Inr (vals @ [parsed]))"

definition ParseSizeList :: "string \<Rightarrow> string \<Rightarrow> bool \<Rightarrow> nat list result" where
  "ParseSizeList text option_name allow_zero =
     bindE (SplitCsv text option_name) (\<lambda>items. foldE (parse_size_item option_name allow_zero) items [])"

definition RequireNoDuplicates :: "'a list \<Rightarrow> string \<Rightarrow> unit result" where
  "RequireNoDuplicates vals option_name =
     (if card (set vals) \<noteq> length vals then Inl (InvalidArgument (''Duplicate value for '' @ option_name)) else Inr ())"

section \<open>The options\<close>

record SweepOptions =
  base_seed :: "32 word"
  seed_count :: nat
  num_requests :: nat
  scenario :: string
  arrival_rates_hz :: "double list"
  straggler_probabilities :: "double list"
  parity_counts :: "nat list"
  degrees :: "nat list"
  shard_sizes_mib :: "nat list"
  queue_depths :: "nat list"
  concurrency_limits :: "nat list"
  calibration_csv :: string

definition default_options :: SweepOptions where
  "default_options = \<lparr>base_seed = 20260901, seed_count = 20, num_requests = 1000, scenario = ''custom'',
     arrival_rates_hz = [Finite 2000], straggler_probabilities = [Finite (1 / 20)], parity_counts = [8], degrees = [3],
     shard_sizes_mib = [16], queue_depths = [4], concurrency_limits = [2], calibration_csv = []\<rparr>"

definition kSystematicShards :: nat where
  "kSystematicShards = 16"

text \<open>One option and its value.\<close>

definition parse_option :: "stod \<Rightarrow> string \<Rightarrow> string \<Rightarrow> SweepOptions \<Rightarrow> SweepOptions result" where
  "parse_option stod opt text o0 =
     (if opt = ''--scenario'' then
        (if text = [] then Inl (InvalidArgument ''--scenario must not be empty'') else Inr (o0\<lparr>scenario := text\<rparr>))
      else if opt = ''--calibration-csv'' then Inr (o0\<lparr>calibration_csv := text\<rparr>)
      else if opt = ''--arrival-rates-hz'' then
        bindE (ParseDoubleList stod text opt False) (\<lambda>vals. Inr (o0\<lparr>arrival_rates_hz := vals\<rparr>))
      else if opt = ''--straggler-probabilities'' then
        bindE (ParseDoubleList stod text opt True) (\<lambda>vals.
          bindE (reject_any (\<lambda>p. value_of p > 1) (InvalidArgument ''Straggler probability must not exceed one'') vals)
            (\<lambda>_. Inr (o0\<lparr>straggler_probabilities := vals\<rparr>)))
      else if opt = ''--parity-counts'' then
        bindE (ParseSizeList text opt False) (\<lambda>vals. Inr (o0\<lparr>parity_counts := vals\<rparr>))
      else if opt = ''--degrees'' then
        bindE (ParseSizeList text opt False) (\<lambda>vals. Inr (o0\<lparr>degrees := vals\<rparr>))
      else if opt = ''--shard-sizes-mib'' then
        bindE (ParseSizeList text opt False) (\<lambda>vals. Inr (o0\<lparr>shard_sizes_mib := vals\<rparr>))
      else if opt = ''--queue-depths'' then
        bindE (ParseSizeList text opt True) (\<lambda>vals. Inr (o0\<lparr>queue_depths := vals\<rparr>))
      else if opt = ''--gpu-concurrencies'' then
        bindE (ParseSizeList text opt False) (\<lambda>vals. Inr (o0\<lparr>concurrency_limits := vals\<rparr>))
      else bindE (ParseUnsigned text opt) (\<lambda>parsed.
        if opt = ''--base-seed'' then
          (if parsed > 2 ^ 32 - 1 then Inl (InvalidArgument ''--base-seed exceeds uint32_t'')
           else Inr (o0\<lparr>base_seed := of_nat parsed\<rparr>))
        else if opt = ''--seed-count'' then Inr (o0\<lparr>seed_count := parsed\<rparr>)
        else if opt = ''--num-requests'' then Inr (o0\<lparr>num_requests := parsed\<rparr>)
        else Inl (InvalidArgument (''Unknown sweep option: '' @ opt))))"

text \<open>The loop over the arguments, two at a time.\<close>

fun parse_arguments :: "stod \<Rightarrow> string list \<Rightarrow> SweepOptions \<Rightarrow> SweepOptions result" where
  "parse_arguments stod [] o0 = Inr o0"
| "parse_arguments stod [opt] o0 = Inl (InvalidArgument ''Every sweep option requires a value'')"
| "parse_arguments stod (opt # text # args) o0 =
     bindE (parse_option stod opt text o0) (parse_arguments stod args)"

definition check_options :: "SweepOptions \<Rightarrow> unit result" where
  "check_options opts =
     (if seed_count opts = 0 \<or> num_requests opts = 0
      then Inl (InvalidArgument ''Seed and request counts must be positive'')
      else if seed_count opts - 1 > 2 ^ 32 - 1 - unat (base_seed opts)
      then Inl (InvalidArgument ''Requested seed range exceeds uint32_t'')
      else if calibration_csv opts = [] then Inl (InvalidArgument ''--calibration-csv is required'')
      else bindE (RequireNoDuplicates (arrival_rates_hz opts) ''--arrival-rates-hz'') (\<lambda>_.
        bindE (RequireNoDuplicates (straggler_probabilities opts) ''--straggler-probabilities'') (\<lambda>_.
        bindE (RequireNoDuplicates (parity_counts opts) ''--parity-counts'') (\<lambda>_.
        bindE (RequireNoDuplicates (degrees opts) ''--degrees'') (\<lambda>_.
        bindE (RequireNoDuplicates (shard_sizes_mib opts) ''--shard-sizes-mib'') (\<lambda>_.
        bindE (RequireNoDuplicates (queue_depths opts) ''--queue-depths'') (\<lambda>_.
        bindE (RequireNoDuplicates (concurrency_limits opts) ''--gpu-concurrencies'') (\<lambda>_.
        bindE (reject_any (\<lambda>m. m > kSystematicShards) (InvalidArgument ''Parity count exceeds systematic shard count'')
                 (parity_counts opts)) (\<lambda>_.
          reject_any (\<lambda>d. d > kSystematicShards) (InvalidArgument ''Degree exceeds systematic shard count'')
            (degrees opts))))))))))"

definition ParseOptions :: "stod \<Rightarrow> string list \<Rightarrow> SweepOptions result" where
  "ParseOptions stod args =
     bindE (parse_arguments stod args default_options) (\<lambda>opts. bindE (check_options opts) (\<lambda>_. Inr opts))"

section \<open>The decode cost table\<close>

type_synonym DecodeCostTable = "(nat \<times> nat, microseconds) omap"

definition ParseSize :: "string \<Rightarrow> string \<Rightarrow> nat result" where
  "ParseSize text field =
     bindE (std_stoull text) (\<lambda>(parsed, parsed_characters).
       if parsed_characters \<noteq> length text \<or> parsed > 2 ^ 64 - 1 then Inl (InvalidArgument (''Invalid '' @ field))
       else Inr parsed)"

text \<open>
  The limit is \<open>INT64_MAX\<close> converted to \<open>double\<close>, which is \<open>2^63\<close>; the result is the \<open>ceil\<close>, before the
  conversion to \<open>int64_t\<close>.
\<close>

definition ParseCost :: "stod \<Rightarrow> string \<Rightarrow> nat \<Rightarrow> int result" where
  "ParseCost stod text line_number =
     bindE (stod text) (\<lambda>(parsed, parsed_characters).
       if parsed_characters \<noteq> length text \<or> parsed = NotFinite \<or> value_of parsed \<le> 0 \<or> value_of parsed > 2 ^ 63
       then Inl (InvalidArgument (''Invalid decode calibration cost on row '' @ to_string line_number))
       else Inr \<lceil>value_of parsed\<rceil>)"

text \<open>The three fields of a row, and no fourth.\<close>

definition split_row :: "string \<Rightarrow> (string \<times> string \<times> string) option" where
  "split_row line =
     (case std_getline CHR '','' line of None \<Rightarrow> None | Some (degree_text, rest1) \<Rightarrow>
      (case std_getline CHR '','' rest1 of None \<Rightarrow> None | Some (size_text, rest2) \<Rightarrow>
      (case std_getline CHR '','' rest2 of None \<Rightarrow> None | Some (cost_text, rest3) \<Rightarrow>
      (case std_getline CHR '','' rest3 of Some _ \<Rightarrow> None | None \<Rightarrow> Some (degree_text, size_text, cost_text)))))"

definition read_row :: "stod \<Rightarrow> nat \<Rightarrow> string \<Rightarrow> DecodeCostTable \<Rightarrow> DecodeCostTable result" where
  "read_row stod line_number line costs =
     (case split_row line of
        None \<Rightarrow> Inl (InvalidArgument (''Malformed decode calibration row '' @ to_string line_number))
      | Some (degree_text, size_text, cost_text) \<Rightarrow>
          bindE (ParseSize degree_text ''decode calibration degree'') (\<lambda>degree.
          bindE (ParseSize size_text ''decode calibration shard size'') (\<lambda>shard_size.
          bindE (ParseCost stod cost_text line_number) (\<lambda>cost.
            if degree = 0 \<or> shard_size = 0 \<or> cost \<le> 0
            then Inl (InvalidArgument ''Decode calibration values must be positive'')
            else if omap_find costs (degree, shard_size) \<noteq> None
            then Inl (InvalidArgument ''Duplicate decode calibration row'')
            else Inr (omap_emplace (degree, shard_size) cost costs)))))"

function read_rows :: "stod \<Rightarrow> nat \<Rightarrow> string \<Rightarrow> DecodeCostTable \<Rightarrow> DecodeCostTable result" where
  "read_rows stod line_number rest costs =
     (case std_getline (CHR 0x0A) rest of
        None \<Rightarrow> Inr costs
      | Some (line, rest') \<Rightarrow>
          if line = [] then read_rows stod (line_number + 1) rest' costs
          else bindE (read_row stod (line_number + 1) line costs) (read_rows stod (line_number + 1) rest'))"
  by pat_completeness auto

termination
  by (relation "measure (\<lambda>(stod, line_number, rest, costs). length rest)") (auto dest: getline_shorter)

declare read_rows.simps [simp del]

definition DecodeCostTable_new :: "stod \<Rightarrow> string \<Rightarrow> string option \<Rightarrow> DecodeCostTable result" where
  "DecodeCostTable_new stod path file =
     (case file of
        None \<Rightarrow> Inl (InvalidArgument (''Cannot open decode calibration CSV: '' @ path))
      | Some contents \<Rightarrow>
          (case std_getline (CHR 0x0A) contents of
             Some (header, rest) \<Rightarrow>
               if header \<noteq> ''degree,shard_size_mib,end_to_end_us''
               then Inl (InvalidArgument ''Decode calibration CSV must use degree,shard_size_mib,end_to_end_us'')
               else bindE (read_rows stod 1 rest []) (\<lambda>costs.
                 if costs = [] then Inl (InvalidArgument ''Decode calibration CSV contains no measurements'')
                 else Inr costs)
           | None \<Rightarrow> Inl (InvalidArgument ''Decode calibration CSV must use degree,shard_size_mib,end_to_end_us'')))"

definition Get_cost :: "DecodeCostTable \<Rightarrow> nat \<Rightarrow> nat \<Rightarrow> microseconds result" where
  "Get_cost costs degree shard_size =
     (case omap_find costs (degree, shard_size) of
        None \<Rightarrow> Inl (InvalidArgument (''No measured decode cost for degree '' @ to_string degree @ '' at '' @
                    to_string shard_size @ '' MiB''))
      | Some cost \<Rightarrow> Inr cost)"

section \<open>Printing and parsing\<close>

fun join_csv :: "string list \<Rightarrow> string" where
  "join_csv [] = []"
| "join_csv [item] = item"
| "join_csv (item # items) = item @ CHR '','' # join_csv items"

lemma takeWhile_item:
  "CHR '','' \<notin> set item \<Longrightarrow> takeWhile (\<lambda>c. c \<noteq> CHR '','') item = item \<and> dropWhile (\<lambda>c. c \<noteq> CHR '','') item = []"
  "CHR '','' \<notin> set item \<Longrightarrow> takeWhile (\<lambda>c. c \<noteq> CHR '','') (item @ CHR '','' # rest) = item \<and>
     dropWhile (\<lambda>c. c \<noteq> CHR '','') (item @ CHR '','' # rest) = CHR '','' # rest"
  by (induction item) auto

lemma SplitCsv_step:
  assumes "takeWhile (\<lambda>c. c \<noteq> CHR '','') str = item" "dropWhile (\<lambda>c. c \<noteq> CHR '','') str = rest"
  shows "SplitCsv str name =
    (if item = [] then Inl (InvalidArgument (''Invalid value for '' @ name))
     else (case rest of [] \<Rightarrow> Inr [item] | d # rest' \<Rightarrow> bindE (SplitCsv rest' name) (\<lambda>items. Inr (item # items))))"
  by (subst SplitCsv.simps) (simp only: assms Let_def)

lemma SplitCsv_join:
  "items \<noteq> [] \<Longrightarrow> \<forall>item\<in>set items. item \<noteq> [] \<and> CHR '','' \<notin> set item \<Longrightarrow> SplitCsv (join_csv items) name = Inr items"
proof (induction items rule: join_csv.induct)
  case (2 item)
  then have "item \<noteq> []" "CHR '','' \<notin> set item" by simp_all
  then show ?case using SplitCsv_step [of item item "[]"] takeWhile_item(1) [of item] by simp
next
  case (3 item x xs)
  then have i: "item \<noteq> []" "CHR '','' \<notin> set item" by simp_all
  have "SplitCsv (join_csv (x # xs)) name = Inr (x # xs)" using 3 by simp
  then show ?case
    using SplitCsv_step [OF takeWhile_item(2) [OF i(2), THEN conjunct1] takeWhile_item(2) [OF i(2), THEN conjunct2]] i(1) by simp
qed simp

lemma SplitCsv_Inr:
  "SplitCsv str name = Inr items \<Longrightarrow> items \<noteq> [] \<and> str = join_csv items \<and>
     (\<forall>item\<in>set items. item \<noteq> [] \<and> CHR '','' \<notin> set item)"
proof (induction str name arbitrary: items rule: SplitCsv.induct)
  case (1 str name)
  let ?item = "takeWhile (\<lambda>c. c \<noteq> CHR '','') str"
  have eq: "(if ?item = [] then Inl (InvalidArgument (''Invalid value for '' @ name))
     else (case dropWhile (\<lambda>c. c \<noteq> CHR '','') str of [] \<Rightarrow> Inr [?item]
       | d # rest' \<Rightarrow> bindE (SplitCsv rest' name) (\<lambda>items. Inr (?item # items)))) = Inr items"
    using 1(2) SplitCsv_step [OF refl refl, of str name] by simp
  have item: "?item \<noteq> []" using eq by (cases "?item = []") simp_all
  have free: "CHR '','' \<notin> set ?item" using set_takeWhileD by fastforce
  have whole: "?item @ dropWhile (\<lambda>c. c \<noteq> CHR '','') str = str" by (rule takeWhile_dropWhile_id)
  show ?case
  proof (cases "dropWhile (\<lambda>c. c \<noteq> CHR '','') str")
    case Nil
    have "items = [?item]" using eq item unfolding Nil by simp
    moreover have "str = ?item" using whole unfolding Nil append_Nil2 by (rule sym)
    ultimately show ?thesis using item free by auto
  next
    case (Cons d rest)
    obtain items' where items': "SplitCsv rest name = Inr items'" "items = ?item # items'"
      using eq item unfolding Cons by (auto simp: bindE_eq_Inr)
    have "d = CHR '',''" using Cons hd_dropWhile [of "\<lambda>c. c \<noteq> CHR '',''" str] by force
    then have "str = ?item @ CHR '','' # rest" using whole unfolding Cons by simp
    moreover have "items' \<noteq> [] \<and> rest = join_csv items' \<and> (\<forall>item\<in>set items'. item \<noteq> [] \<and> CHR '','' \<notin> set item)"
      using 1(1) [OF refl item Cons items'(1)] .
    ultimately show ?thesis using items'(2) item free by (cases items') auto
  qed
qed

lemma of_char_digit: "n < 10 \<Longrightarrow> of_char (char_of (48 + n) :: char) = (48 + n :: nat)"
  by (simp add: of_char_of)

lemma to_string_digits: "to_string n \<noteq> [] \<and> (\<forall>c\<in>set (to_string n). is_digit c)"
proof (induction n rule: to_string.induct)
  case (1 n)
  then show ?case
    by (subst (1 2) to_string.simps) (auto simp: is_digit_def of_char_digit)
qed

lemma number_of_snoc: "number_of (ds @ [c]) = 10 * number_of ds + (of_char c - 48)"
  by (simp add: number_of_def)

lemma number_of_to_string: "number_of (to_string n) = n"
proof (induction n rule: to_string.induct)
  case (1 n)
  show ?case
  proof (cases "n < 10")
    case True
    then show ?thesis by (subst to_string.simps) (simp add: number_of_def of_char_digit)
  next
    case False
    then show ?thesis using 1 by (subst to_string.simps) (simp add: number_of_snoc of_char_digit)
  qed
qed

lemma digit_not_special: "is_digit c \<Longrightarrow> \<not> is_space c \<and> c \<noteq> CHR ''-'' \<and> c \<noteq> CHR ''+'' \<and> c \<noteq> CHR '',''"
  by (auto simp: is_digit_def is_space_def)

lemma std_stoull_digits:
  assumes "str \<noteq> []" "\<forall>c\<in>set str. is_digit c" "number_of str < 2 ^ 64"
  shows "std_stoull str = Inr (number_of str, length str)"
proof -
  obtain c cs where str: "str = c # cs" using assms(1) by (cases str) auto
  have "dropWhile is_space str = str" "hd str \<noteq> CHR ''-''" "hd str \<noteq> CHR ''+''"
    using str assms(2) digit_not_special by auto
  moreover have tw: "takeWhile is_digit str = str" using assms(2) by (simp only: takeWhile_eq_all_conv)
  moreover have dw: "dropWhile is_digit str = []" using assms(2) by simp
  ultimately show ?thesis using assms(1,3) by (simp add: std_stoull_def Let_def tw dw)
qed

lemma ParseUnsigned_to_string: "n < 2 ^ 64 \<Longrightarrow> ParseUnsigned (to_string n) name = Inr n"
  using std_stoull_digits [of "to_string n"] to_string_digits [of n] number_of_to_string [of n]
  by (simp add: ParseUnsigned_def)

lemma std_stoull_bound: "std_stoull text = Inr (n, p) \<Longrightarrow> n < 2 ^ 64"
  by (auto simp: std_stoull_def Let_def split: if_splits)

lemma ParseUnsigned_bound: "ParseUnsigned text name = Inr n \<Longrightarrow> n < 2 ^ 64"
  using std_stoull_bound by (auto simp: ParseUnsigned_def bindE_eq_Inr split: if_splits)

section \<open>What the options satisfy\<close>

lemma parse_size_item_Inr:
  "parse_size_item name allow_zero item acc = Inr vals \<Longrightarrow> \<exists>n. vals = acc @ [n] \<and> n < 2 ^ 64 \<and> (allow_zero \<or> 0 < n)"
  using ParseUnsigned_bound by (fastforce simp: parse_size_item_def bindE_eq_Inr split: if_splits)

lemma parse_double_item_Inr:
  assumes "parse_double_item stod name allow_zero item acc = Inr vals"
  shows "\<exists>x. vals = acc @ [Finite x] \<and> (if allow_zero then 0 \<le> x else 0 < x)"
proof -
  obtain d where "vals = acc @ [d]" "d \<noteq> NotFinite" "\<not> (if allow_zero then value_of d < 0 else value_of d \<le> 0)"
    using assms by (auto simp: parse_double_item_def bindE_eq_Inr split: if_splits)
  then show ?thesis by (cases d) (auto split: if_splits)
qed

lemma parse_size_items:
  "foldE (parse_size_item name allow_zero) items acc = Inr vals \<Longrightarrow>
    \<exists>new. vals = acc @ new \<and> length new = length items \<and> (\<forall>n\<in>set new. n < 2 ^ 64 \<and> (allow_zero \<or> 0 < n))"
proof (induction items arbitrary: acc)
  case (Cons item items)
  then obtain acc' where a: "parse_size_item name allow_zero item acc = Inr acc'"
      "foldE (parse_size_item name allow_zero) items acc' = Inr vals" by (auto simp: bindE_eq_Inr)
  obtain n where n: "acc' = acc @ [n]" "n < 2 ^ 64" "allow_zero \<or> 0 < n" using parse_size_item_Inr [OF a(1)] by blast
  obtain new where "vals = acc' @ new" "length new = length items" "\<forall>n\<in>set new. n < 2 ^ 64 \<and> (allow_zero \<or> 0 < n)"
    using Cons.IH [OF a(2)] by blast
  then show ?case using n by (intro exI [of _ "n # new"]) auto
qed simp

lemma ParseSizeList_Inr:
  assumes "ParseSizeList text name allow_zero = Inr vals"
  shows "vals \<noteq> []" "\<forall>n\<in>set vals. n < 2 ^ 64 \<and> (allow_zero \<or> 0 < n)"
proof -
  obtain items where i: "SplitCsv text name = Inr items" "foldE (parse_size_item name allow_zero) items [] = Inr vals"
    using assms by (auto simp: ParseSizeList_def bindE_eq_Inr)
  from parse_size_items [OF i(2)] SplitCsv_Inr [OF i(1)]
  show "vals \<noteq> []" "\<forall>n\<in>set vals. n < 2 ^ 64 \<and> (allow_zero \<or> 0 < n)" by auto
qed

lemma parse_double_items:
  "foldE (parse_double_item stod name allow_zero) items acc = Inr vals \<Longrightarrow>
    \<exists>new. vals = acc @ new \<and> length new = length items \<and>
      (\<forall>d\<in>set new. \<exists>x. d = Finite x \<and> (if allow_zero then 0 \<le> x else 0 < x))"
proof (induction items arbitrary: acc)
  case (Cons item items)
  then obtain acc' where a: "parse_double_item stod name allow_zero item acc = Inr acc'"
      "foldE (parse_double_item stod name allow_zero) items acc' = Inr vals" by (auto simp: bindE_eq_Inr)
  obtain x where x: "acc' = acc @ [Finite x]" "if allow_zero then 0 \<le> x else 0 < x"
    using parse_double_item_Inr [OF a(1)] by blast
  obtain new where "vals = acc' @ new" "length new = length items"
    "\<forall>d\<in>set new. \<exists>x. d = Finite x \<and> (if allow_zero then 0 \<le> x else 0 < x)"
    using Cons.IH [OF a(2)] by blast
  then show ?case using x by (intro exI [of _ "Finite x # new"]) auto
qed simp

lemma ParseDoubleList_Inr:
  assumes "ParseDoubleList stod text name allow_zero = Inr vals"
  shows "vals \<noteq> []" "\<forall>d\<in>set vals. \<exists>x. d = Finite x \<and> (if allow_zero then 0 \<le> x else 0 < x)"
proof -
  obtain items where i: "SplitCsv text name = Inr items" "foldE (parse_double_item stod name allow_zero) items [] = Inr vals"
    using assms by (auto simp: ParseDoubleList_def bindE_eq_Inr)
  from parse_double_items [OF i(2)] SplitCsv_Inr [OF i(1)]
  show "vals \<noteq> []" "\<forall>d\<in>set vals. \<exists>x. d = Finite x \<and> (if allow_zero then 0 \<le> x else 0 < x)" by auto
qed

text \<open>What every option list satisfies while the arguments are read, and what the checks add.\<close>

definition options_shape :: "SweepOptions \<Rightarrow> bool" where
  "options_shape opts \<longleftrightarrow> num_requests opts < 2 ^ 64 \<and> seed_count opts < 2 ^ 64 \<and>
     arrival_rates_hz opts \<noteq> [] \<and> (\<forall>d\<in>set (arrival_rates_hz opts). \<exists>x. d = Finite x \<and> 0 < x) \<and>
     straggler_probabilities opts \<noteq> [] \<and> (\<forall>d\<in>set (straggler_probabilities opts). \<exists>x. d = Finite x \<and> 0 \<le> x \<and> x \<le> 1) \<and>
     parity_counts opts \<noteq> [] \<and> (\<forall>n\<in>set (parity_counts opts). 0 < n) \<and>
     degrees opts \<noteq> [] \<and> (\<forall>n\<in>set (degrees opts). 0 < n) \<and>
     shard_sizes_mib opts \<noteq> [] \<and> (\<forall>n\<in>set (shard_sizes_mib opts). 0 < n \<and> n < 2 ^ 64) \<and>
     queue_depths opts \<noteq> [] \<and> (\<forall>n\<in>set (queue_depths opts). n < 2 ^ 64) \<and>
     concurrency_limits opts \<noteq> [] \<and> (\<forall>n\<in>set (concurrency_limits opts). 0 < n \<and> n < 2 ^ 64)"

definition options_valid :: "SweepOptions \<Rightarrow> bool" where
  "options_valid opts \<longleftrightarrow> options_shape opts \<and> 0 < seed_count opts \<and> 0 < num_requests opts \<and>
     unat (base_seed opts) + seed_count opts \<le> 2 ^ 32 \<and> calibration_csv opts \<noteq> [] \<and>
     distinct (arrival_rates_hz opts) \<and> distinct (straggler_probabilities opts) \<and> distinct (parity_counts opts) \<and>
     distinct (degrees opts) \<and> distinct (shard_sizes_mib opts) \<and> distinct (queue_depths opts) \<and>
     distinct (concurrency_limits opts) \<and>
     (\<forall>m\<in>set (parity_counts opts). m \<le> kSystematicShards) \<and> (\<forall>d\<in>set (degrees opts). d \<le> kSystematicShards)"

lemma options_shape_default: "options_shape default_options"
  by (simp add: options_shape_def default_options_def) (rule exI [of _ "1 / 20"], simp)

lemma options_shape_updates:
  assumes "options_shape o0"
  shows "options_shape (o0\<lparr>scenario := str\<rparr>)" "options_shape (o0\<lparr>calibration_csv := str\<rparr>)" "options_shape (o0\<lparr>base_seed := b\<rparr>)"
    "n < 2 ^ 64 \<Longrightarrow> options_shape (o0\<lparr>seed_count := n\<rparr>)" "n < 2 ^ 64 \<Longrightarrow> options_shape (o0\<lparr>num_requests := n\<rparr>)"
  using assms by (simp_all add: options_shape_def)

lemma parse_option_shape:
  assumes "options_shape o0" "parse_option stod opt str o0 = Inr o1"
  shows "options_shape o1"
proof -
  note s = assms(1) [unfolded options_shape_def]
  consider "opt = ''--scenario''" | "opt = ''--calibration-csv''" | "opt = ''--arrival-rates-hz''"
    | "opt = ''--straggler-probabilities''" | "opt = ''--parity-counts''" | "opt = ''--degrees''"
    | "opt = ''--shard-sizes-mib''" | "opt = ''--queue-depths''" | "opt = ''--gpu-concurrencies''"
    | (number) "opt \<noteq> ''--scenario''" "opt \<noteq> ''--calibration-csv''" "opt \<noteq> ''--arrival-rates-hz''"
       "opt \<noteq> ''--straggler-probabilities''" "opt \<noteq> ''--parity-counts''" "opt \<noteq> ''--degrees''"
       "opt \<noteq> ''--shard-sizes-mib''" "opt \<noteq> ''--queue-depths''" "opt \<noteq> ''--gpu-concurrencies''"
    by argo
  then show ?thesis
  proof cases
    case 1
    then show ?thesis using assms options_shape_updates by (auto simp: parse_option_def split: if_splits)
  next
    case 2
    then show ?thesis using assms options_shape_updates by (auto simp: parse_option_def split: if_splits)
  next
    case 3
    then obtain vals where "ParseDoubleList stod str opt False = Inr vals" "o1 = o0\<lparr>arrival_rates_hz := vals\<rparr>"
      using assms(2) by (auto simp: parse_option_def bindE_eq_Inr)
    then show ?thesis using ParseDoubleList_Inr [of stod str opt False vals] s by (simp add: options_shape_def)
  next
    case 4
    then obtain vals where "ParseDoubleList stod str opt True = Inr vals" "\<forall>p\<in>set vals. \<not> value_of p > 1"
        "o1 = o0\<lparr>straggler_probabilities := vals\<rparr>"
      using assms(2) by (auto simp: parse_option_def bindE_eq_Inr reject_any_eq_Inr)
    then show ?thesis using ParseDoubleList_Inr [of stod str opt True vals] s by (fastforce simp: options_shape_def)
  next
    case 5
    then obtain vals where "ParseSizeList str opt False = Inr vals" "o1 = o0\<lparr>parity_counts := vals\<rparr>"
      using assms(2) by (auto simp: parse_option_def bindE_eq_Inr)
    then show ?thesis using ParseSizeList_Inr [of str opt False vals] s by (simp add: options_shape_def)
  next
    case 6
    then obtain vals where "ParseSizeList str opt False = Inr vals" "o1 = o0\<lparr>degrees := vals\<rparr>"
      using assms(2) by (auto simp: parse_option_def bindE_eq_Inr)
    then show ?thesis using ParseSizeList_Inr [of str opt False vals] s by (simp add: options_shape_def)
  next
    case 7
    then obtain vals where "ParseSizeList str opt False = Inr vals" "o1 = o0\<lparr>shard_sizes_mib := vals\<rparr>"
      using assms(2) by (auto simp: parse_option_def bindE_eq_Inr)
    then show ?thesis using ParseSizeList_Inr [of str opt False vals] s by (simp add: options_shape_def)
  next
    case 8
    then obtain vals where "ParseSizeList str opt True = Inr vals" "o1 = o0\<lparr>queue_depths := vals\<rparr>"
      using assms(2) by (auto simp: parse_option_def bindE_eq_Inr)
    then show ?thesis using ParseSizeList_Inr [of str opt True vals] s by (simp add: options_shape_def)
  next
    case 9
    then obtain vals where "ParseSizeList str opt False = Inr vals" "o1 = o0\<lparr>concurrency_limits := vals\<rparr>"
      using assms(2) by (auto simp: parse_option_def bindE_eq_Inr)
    then show ?thesis using ParseSizeList_Inr [of str opt False vals] s by (simp add: options_shape_def)
  next
    case number
    then obtain n where n: "ParseUnsigned str opt = Inr n"
      "(if opt = ''--base-seed'' then
          (if n > 2 ^ 32 - 1 then Inl (InvalidArgument ''--base-seed exceeds uint32_t'') else Inr (o0\<lparr>base_seed := of_nat n\<rparr>))
        else if opt = ''--seed-count'' then Inr (o0\<lparr>seed_count := n\<rparr>)
        else if opt = ''--num-requests'' then Inr (o0\<lparr>num_requests := n\<rparr>)
        else Inl (InvalidArgument (''Unknown sweep option: '' @ opt))) = Inr o1"
      using assms(2) by (auto simp: parse_option_def bindE_eq_Inr)
    then show ?thesis
      using ParseUnsigned_bound [OF n(1)] options_shape_updates [OF assms(1)] by (auto split: if_splits)
  qed
qed

lemma parse_arguments_shape:
  "options_shape o0 \<Longrightarrow> parse_arguments stod args o0 = Inr o1 \<Longrightarrow> options_shape o1"
proof (induction stod args o0 arbitrary: o1 rule: parse_arguments.induct)
  case (3 stod opt str args o0)
  then obtain o' where o': "parse_option stod opt str o0 = Inr o'" "parse_arguments stod args o' = Inr o1"
    by (auto simp: bindE_eq_Inr)
  then show ?case using 3(1) [OF o'(1) parse_option_shape [OF 3(2) o'(1)] o'(2)] by simp
qed simp_all

lemma RequireNoDuplicates_iff: "RequireNoDuplicates vals name = Inr u \<longleftrightarrow> distinct vals"
  by (auto simp: RequireNoDuplicates_def distinct_card card_distinct)

lemma check_options_iff:
  assumes "options_shape opts"
  shows "check_options opts = Inr u \<longleftrightarrow> options_valid opts"
proof -
  have "seed_count opts - 1 > 2 ^ 32 - 1 - unat (base_seed opts) \<longleftrightarrow> \<not> unat (base_seed opts) + seed_count opts \<le> 2 ^ 32"
    if "seed_count opts \<noteq> 0"
    using that unat_ShardId_less [of "base_seed opts"] by linarith
  then show ?thesis
    using assms
    by (cases "seed_count opts = 0")
      (auto simp: check_options_def options_valid_def bindE_eq_Inr RequireNoDuplicates_iff reject_any_eq_Inr not_less split: if_splits)
qed

section \<open>The cost table\<close>

definition costs_ok :: "DecodeCostTable \<Rightarrow> bool" where
  "costs_ok costs \<longleftrightarrow> omap_ok costs \<and> (\<forall>((d, n), cost)\<in>set costs. 0 < d \<and> 0 < n \<and> 0 < cost \<and> cost \<le> 2 ^ 63)"

lemma ParseCost_Inr:
  assumes "ParseCost stod str line = Inr cost"
  shows "0 < cost" "cost \<le> 2 ^ 63"
proof -
  obtain d where d: "d \<noteq> NotFinite" "0 < value_of d" "value_of d \<le> 2 ^ 63" "cost = \<lceil>value_of d\<rceil>"
    using assms by (auto simp: ParseCost_def bindE_eq_Inr split: if_splits)
  then show "0 < cost" "cost \<le> 2 ^ 63" by (simp_all add: ceiling_le_iff)
qed

lemma read_row_ok:
  assumes "costs_ok costs" "read_row stod line_number line costs = Inr costs'"
  shows "costs_ok costs'"
proof -
  obtain degree_text size_text cost_text where row: "split_row line = Some (degree_text, size_text, cost_text)"
    using assms(2) by (auto simp: read_row_def split: option.splits)
  obtain d n cost where "ParseCost stod cost_text line_number = Inr cost" "0 < d" "0 < n" "omap_find costs (d, n) = None"
      "costs' = omap_emplace (d, n) cost costs"
    using assms(2) row by (auto simp: read_row_def bindE_eq_Inr split: if_splits)
  moreover have "set (omap_emplace key cost costs) \<subseteq> insert (key, cost) (set costs)" for key
    by (induction key cost costs rule: omap_emplace.induct) auto
  ultimately show ?thesis
    using assms(1) ParseCost_Inr omap_ok_emplace by (fastforce simp: costs_ok_def)
qed

lemma read_rows_ok: "costs_ok costs \<Longrightarrow> read_rows stod line_number rest costs = Inr costs' \<Longrightarrow> costs_ok costs'"
proof (induction stod line_number rest costs arbitrary: costs' rule: read_rows.induct)
  case (1 stod line_number rest costs)
  show ?case
  proof (cases "std_getline (CHR 0x0A) rest")
    case None
    then show ?thesis using 1(3,4) by (subst (asm) read_rows.simps) auto
  next
    case (Some line_rest)
    obtain line rest' where lr: "std_getline (CHR 0x0A) rest = Some (line, rest')" using Some by (cases line_rest) auto
    show ?thesis
    proof (cases "line = []")
      case True
      then have "read_rows stod (line_number + 1) rest' costs = Inr costs'" using 1(4) lr by (subst (asm) read_rows.simps) simp
      then show ?thesis using 1(1) [OF lr refl True 1(3)] by simp
    next
      case False
      then obtain c where c: "read_row stod (line_number + 1) line costs = Inr c" "read_rows stod (line_number + 1) rest' c = Inr costs'"
        using 1(4) lr by (subst (asm) read_rows.simps) (auto simp: bindE_eq_Inr)
      then show ?thesis using 1(2) [OF lr refl False c(1) read_row_ok [OF 1(3) c(1)] c(2)] by simp
    qed
  qed
qed

lemma DecodeCostTable_ok:
  assumes "DecodeCostTable_new stod path file = Inr costs"
  shows "costs_ok costs" "costs \<noteq> []"
proof -
  obtain contents rest where "read_rows stod 1 rest [] = Inr costs" "costs \<noteq> []"
    using assms by (auto simp: DecodeCostTable_new_def bindE_eq_Inr split: option.splits prod.splits if_splits)
  moreover have "costs_ok []" by (simp add: costs_ok_def)
  ultimately show "costs_ok costs" "costs \<noteq> []" using read_rows_ok by blast+
qed

section \<open>Properties\<close>

text \<open>
  Printing and parsing are inverse: a non-empty list of 64-bit numbers, written in decimal and joined by
  commas, is read back by \<open>ParseSizeList\<close> as the same list.
\<close>

theorem ParseSizeList_roundtrip:
  assumes "ns \<noteq> []" "\<forall>n\<in>set ns. n < 2 ^ 64 \<and> (allow_zero \<or> 0 < n)"
  shows "ParseSizeList (join_csv (map to_string ns)) name allow_zero = Inr ns"
proof -
  have "to_string n \<noteq> [] \<and> CHR '','' \<notin> set (to_string n)" for n
    using to_string_digits [of n] digit_not_special by blast
  then have "\<forall>item\<in>set (map to_string ns). item \<noteq> [] \<and> CHR '','' \<notin> set item" by simp
  moreover have "foldE (parse_size_item name allow_zero) (map to_string ns) acc = Inr (acc @ ns)" for acc
    using assms(2)
  proof (induction ns arbitrary: acc)
    case (Cons n ns)
    then have "parse_size_item name allow_zero (to_string n) acc = Inr (acc @ [n])"
      using ParseUnsigned_to_string [of n name] by (auto simp: parse_size_item_def)
    then show ?case using Cons by simp
  qed simp
  ultimately show ?thesis using assms(1) SplitCsv_join by (simp add: ParseSizeList_def)
qed

theorem ParseSizeList_roundtrip_witness:
  "ParseSizeList (join_csv (map to_string [0, 16, 4294967296])) ''--queue-depths'' True = Inr [0, 16, 4294967296]"
  by (rule ParseSizeList_roundtrip) simp_all

text \<open>
  C34. Whatever the command line says, options that \<open>ParseOptions\<close> accepts are valid: the seeds do not
  overflow, every list is non-empty and without duplicates, every rate is finite and positive, every
  probability lies between zero and one, parity counts and degrees between one and the systematic shard
  count, and sizes and concurrencies are positive.
\<close>

theorem ParseOptions_valid:
  assumes "ParseOptions stod args = Inr opts"
  shows "options_valid opts"
proof -
  obtain u where p: "parse_arguments stod args default_options = Inr opts" "check_options opts = Inr u"
    using assms by (auto simp: ParseOptions_def bindE_eq_Inr)
  show ?thesis using check_options_iff [OF parse_arguments_shape [OF options_shape_default p(1)]] p(2) by blast
qed

text \<open>
  A minus sign passes: \<open>std::stoull\<close> negates the digits in 64 bits and reports that it parsed every
  character, so a negative count is taken as a huge one.
\<close>

lemma stoull_negative: "std_stoull ''-1'' = Inr (2 ^ 64 - 1, 2)"
  by (simp add: std_stoull_def is_space_def is_digit_def number_of_def Let_def)

theorem ParseOptions_negative_count:
  "\<exists>opts. ParseOptions stod [''--num-requests'', ''-1'', ''--calibration-csv'', ''costs.csv''] = Inr opts \<and>
     num_requests opts = 2 ^ 64 - 1 \<and> options_valid opts"
proof -
  let ?opts = "default_options\<lparr>num_requests := 2 ^ 64 - 1, calibration_csv := ''costs.csv''\<rparr>"
  have "parse_option stod ''--num-requests'' ''-1'' default_options = Inr (default_options\<lparr>num_requests := 2 ^ 64 - 1\<rparr>)"
    using stoull_negative by (simp add: parse_option_def ParseUnsigned_def)
  moreover have "parse_option stod ''--calibration-csv'' ''costs.csv'' o0 = Inr (o0\<lparr>calibration_csv := ''costs.csv''\<rparr>)" for o0
    by (simp add: parse_option_def)
  ultimately have "parse_arguments stod [''--num-requests'', ''-1'', ''--calibration-csv'', ''costs.csv''] default_options
      = Inr ?opts" by simp
  moreover have "check_options ?opts = Inr ()"
    by (simp add: check_options_def default_options_def RequireNoDuplicates_def reject_any_def kSystematicShards_def)
  ultimately have "ParseOptions stod [''--num-requests'', ''-1'', ''--calibration-csv'', ''costs.csv''] = Inr ?opts"
    by (simp add: ParseOptions_def)
  moreover have "options_valid ?opts"
    using check_options_iff [of ?opts "()"] options_shape_updates options_shape_default \<open>check_options ?opts = Inr ()\<close> by simp
  ultimately show ?thesis by auto
qed

text \<open>The limit on a cost admits \<open>2^63\<close>, which no \<open>int64_t\<close> holds.\<close>

theorem ParseCost_overflow:
  assumes "stod str = Inr (Finite (2 ^ 63), length str)"
  shows "ParseCost stod str line_number = Inr (2 ^ 63)"
  using assms by (simp add: ParseCost_def)

lemma example_options:
  "\<exists>opts. ParseOptions stod [''--calibration-csv'', ''costs.csv''] = Inr opts"
  by (simp add: ParseOptions_def parse_option_def check_options_def default_options_def RequireNoDuplicates_def
      reject_any_def kSystematicShards_def)

theorem ParseOptions_valid_witness:
  "\<exists>opts. ParseOptions (\<lambda>str. Inl OutOfRange) [''--calibration-csv'', ''costs.csv''] = Inr opts \<and> options_valid opts"
  using example_options ParseOptions_valid by blast

end
