(* ===== verification/CudaTools.thy ===== *)
theory CudaTools imports CudaDirect SweepOptions begin

text \<open>
  The CUDA code beside the decode plans, call by call on the runtime of \<open>CudaFaults\<close>: the launch configuration of
  \<open>include/codedllm/kernels/tuning.cuh\<close> with the current device that it switches, \<open>run_sparse_decode_cuda\<close> of
  \<open>kernels/sparse_decoder.cu\<close>, and the report of \<open>tools/device_info.cu\<close>. A query of a property, an attribute or an
  occupancy is a call of the kind \<open>LaunchConfig\<close>.
\<close>

section \<open>The host\<close>

text \<open>\<open>th_device\<close> is the current device of the calling thread, \<open>th_words\<close> the output buffer of a decode, \<open>th_text\<close> what was printed.\<close>

record ToolHost =
  th_device :: int
  th_cache :: config_cache
  th_words :: WordShard
  th_text :: string

definition cudaSetDevice :: "int \<Rightarrow> (ToolHost, unit) action" where
  "cudaSetDevice device_id = bindA (callA SetDevice) (\<lambda>_. modifyA (\<lambda>h. h\<lparr>th_device := device_id\<rparr>))"

section \<open>The launch configuration\<close>

definition optimal_launch_config :: "DeviceQueries \<Rightarrow> int \<Rightarrow> (ToolHost, DeviceTuningConfig) action" where
  "optimal_launch_config dq device_id =
     bindA (callA GetDevice) (\<lambda>_.
     bindA (hostA th_device) (\<lambda>previous_device.
     bindA (if previous_device \<noteq> device_id then cudaSetDevice device_id else retA ()) (\<lambda>_.
     bindA (callA LaunchConfig) (\<lambda>_.
     bindA (if multiProcessorCount dq \<le> 0 then liftA (Inl (RuntimeError ''CUDA device reports no streaming multiprocessors''))
            else retA ()) (\<lambda>_.
     bindA (callA LaunchConfig) (\<lambda>_.
     bindA (callA LaunchConfig) (\<lambda>_.
     bindA (if previous_device \<noteq> device_id then cudaSetDevice previous_device else retA ()) (\<lambda>_.
     liftA (GetOptimalLaunchConfig dq)))))))))"

definition cached_launch_config ::
  "(int \<Rightarrow> KernelId \<Rightarrow> DeviceQueries) \<Rightarrow> KernelId \<Rightarrow> int \<Rightarrow> (ToolHost, DeviceTuningConfig) action" where
  "cached_launch_config queries kern device_id =
     bindA (hostA (\<lambda>h. map_of (th_cache h) (device_id, kern))) (\<lambda>existing.
     case existing of
       Some config \<Rightarrow> retA config
     | None \<Rightarrow>
         bindA (optimal_launch_config (queries device_id kern) device_id) (\<lambda>config.
         bindA (modifyA (\<lambda>h. h\<lparr>th_cache := th_cache h @ [((device_id, kern), config)]\<rparr>)) (\<lambda>_.
         retA config)))"

section \<open>The XOR of two shards\<close>

definition sparse_decode ::
  "(int \<Rightarrow> KernelId \<Rightarrow> DeviceQueries) \<Rightarrow> (nat \<Rightarrow> ShardWord) \<Rightarrow> WordShard \<Rightarrow> WordShard \<Rightarrow> nat \<Rightarrow> (ToolHost, unit) action" where
  "sparse_decode queries fresh shard_a shard_b word_count =
     (if word_count = 0 then retA ()
      else scope (
        bindA AllocateDeviceBuffer (\<lambda>_.
        bindA AllocateDeviceBuffer (\<lambda>_.
        bindA AllocateDeviceBuffer (\<lambda>_.
        bindA (callA Memcpy) (\<lambda>_.
        bindA (callA Memcpy) (\<lambda>_.
        bindA (callA GetDevice) (\<lambda>_.
        bindA (hostA th_device) (\<lambda>device_id.
        bindA (cached_launch_config queries Dummy_kernel device_id) (\<lambda>config.
        let grid_blocks = CalculateGridBlocks word_count 1 config;
            threads = size_of_int (threads_per_block config)
        in bindA (liftR (checked_launch grid_blocks threads
                  (dummy_reconstruct_kernel (take word_count shard_a) (take word_count shard_b) word_count grid_blocks threads)
                  (map fresh [0..<word_count]))) (\<lambda>device_c.
        bindA (callA LastError) (\<lambda>_.
        bindA (callA Synchronize) (\<lambda>_.
        bindA (callA Memcpy) (\<lambda>_.
        modifyA (\<lambda>h. h\<lparr>th_words := device_c @ drop word_count (th_words h)\<rparr>)))))))))))))))"

section \<open>The device report\<close>

record DeviceProperties =
  dp_name :: string
  dp_major :: int
  dp_minor :: int
  dp_multiProcessorCount :: int
  dp_maxThreadsPerBlock :: int
  dp_warpSize :: int
  dp_l2CacheSize :: int

text \<open>\<open>operator<<\<close> of an integer.\<close>

definition show_int :: "int \<Rightarrow> string" where
  "show_int i = (if i < 0 then ''-'' @ to_string (nat (- i)) else to_string (nat i))"

text \<open>Every operation on \<open>double\<close>s rounds.\<close>

definition l2_cache_mib :: "(real \<Rightarrow> real) \<Rightarrow> DeviceProperties \<Rightarrow> real" where
  "l2_cache_mib rnd properties = rnd (of_int (dp_l2CacheSize properties) / (1024 * 1024))"

definition theoretical_bandwidth_gbps :: "(real \<Rightarrow> real) \<Rightarrow> int \<Rightarrow> int \<Rightarrow> real" where
  "theoretical_bandwidth_gbps rnd memory_clock_rate_khz memory_bus_width_bits =
     rnd (rnd (rnd (rnd (of_int memory_clock_rate_khz * 1000) * rnd (of_int memory_bus_width_bits / 8)) * 2) / 10 ^ 9)"

definition report_lines ::
  "(real \<Rightarrow> real) \<Rightarrow> (real \<Rightarrow> string) \<Rightarrow> DeviceProperties \<Rightarrow> int \<Rightarrow> int \<Rightarrow> DeviceTuningConfig \<Rightarrow> string list" where
  "report_lines rnd fixed2 properties memory_clock_rate_khz memory_bus_width_bits config =
     [''CodedLLM CUDA Device Report'',
      ''----------------------------'',
      ''Device: '' @ dp_name properties,
      ''Compute capability: '' @ show_int (dp_major properties) @ ''.'' @ show_int (dp_minor properties),
      ''Streaming multiprocessors: '' @ show_int (dp_multiProcessorCount properties),
      ''Maximum threads per block: '' @ show_int (dp_maxThreadsPerBlock properties),
      ''Warp size: '' @ show_int (dp_warpSize properties),
      ''L2 cache: '' @ fixed2 (l2_cache_mib rnd properties) @ '' MiB'',
      ''Theoretical memory bandwidth: '' @
        fixed2 (theoretical_bandwidth_gbps rnd memory_clock_rate_khz memory_bus_width_bits) @ '' GB/s'',
      '''',
      ''Occupancy recommendation for empty_kernel'',
      ''Threads per block: '' @ show_int (threads_per_block config),
      ''Resident blocks per SM: '' @ show_int (blocks_per_sm config),
      ''Grid block cap: '' @ show_int (max_grid_blocks config),
      ''Vectorization threshold: '' @ to_string (vectorization_threshold_words config) @ '' uint32 words'']"

definition newline :: string where
  "newline = [char_of (10 :: nat)]"

text \<open>\<open>main\<close>: three queries, the launch configuration of a kernel that does nothing, and the text.\<close>

definition device_report ::
  "(real \<Rightarrow> real) \<Rightarrow> (real \<Rightarrow> string) \<Rightarrow> DeviceProperties \<Rightarrow> int \<Rightarrow> int \<Rightarrow> DeviceQueries \<Rightarrow> (ToolHost, unit) action" where
  "device_report rnd fixed2 properties memory_clock_rate_khz memory_bus_width_bits dq =
     bindA (cudaSetDevice 0) (\<lambda>_.
     bindA (callA LaunchConfig) (\<lambda>_.
     bindA (callA LaunchConfig) (\<lambda>_.
     bindA (callA LaunchConfig) (\<lambda>_.
     bindA (optimal_launch_config dq 0) (\<lambda>config.
     modifyA (\<lambda>h. h\<lparr>th_text := th_text h @ concat (map (\<lambda>line. line @ newline)
       (report_lines rnd fixed2 properties memory_clock_rate_khz memory_bus_width_bits config))\<rparr>))))))"

section \<open>What the calls do\<close>

lemma bindA_retA: "bindA (retA x) f = f x"
  by (simp add: bindA_def retA_def fun_eq_iff)

lemma bindA_launched: "bindA (liftR (Some (Inr x))) f = f x"
  by (simp add: bindA_def liftR_def liftA_def fun_eq_iff)

lemma hoare_call_at:
  "api \<noteq> Free \<Longrightarrow> (some_fault F \<Longrightarrow> E cuda_error h1) \<Longrightarrow> hoare F (\<lambda>h. h = h1) (callA api) (\<lambda>_ h. h = h1) E"
  by (rule hoare_pre [OF hoare_runtime]) auto

lemma hoare_set_device:
  assumes "some_fault F \<Longrightarrow> E cuda_error h1"
  shows "hoare F (\<lambda>h. h = h1) (cudaSetDevice d) (\<lambda>_ h. h = h1\<lparr>th_device := d\<rparr>) E"
  unfolding cudaSetDevice_def by (rule hoare_bindA [OF hoare_call_at [where E = E]], simp, rule assms, assumption, rule hoare_pre [OF hoare_modifyA], simp)

text \<open>
  A launch configuration is computed as \<open>Kernel\<close> has it, and the current device is what it was. When a call fails after the
  device was switched it stays switched.
\<close>

definition not_configured :: "(cuda_api \<Rightarrow> nat \<Rightarrow> bool) \<Rightarrow> DeviceQueries \<Rightarrow> int \<Rightarrow> ToolHost \<Rightarrow> exn \<Rightarrow> ToolHost \<Rightarrow> bool" where
  "not_configured F dq device_id h0 e h \<longleftrightarrow> (e = cuda_error \<and> some_fault F \<or> GetOptimalLaunchConfig dq = Inl e) \<and>
     (h = h0 \<or> h = h0\<lparr>th_device := device_id\<rparr>)"

lemma hoare_optimal_launch_config:
  "hoare F (\<lambda>h. h = h0) (optimal_launch_config dq device_id)
     (\<lambda>config h. h = h0 \<and> GetOptimalLaunchConfig dq = Inr config) (not_configured F dq device_id h0)"
proof -
  define h1 where "h1 = (if th_device h0 \<noteq> device_id then h0\<lparr>th_device := device_id\<rparr> else h0)"
  let ?E = "not_configured F dq device_id h0"
  have e: "some_fault F \<Longrightarrow> ?E cuda_error h0" "some_fault F \<Longrightarrow> ?E cuda_error h1"
    by (simp_all add: not_configured_def h1_def)
  have switch: "hoare F (\<lambda>h. h = h0) (if th_device h0 \<noteq> device_id then cudaSetDevice device_id else retA ()) (\<lambda>_ h. h = h1) ?E"
    using hoare_set_device [of F ?E h0 device_id] e(1) hoare_retA [of F "\<lambda>_ h. h = h0" "()" ?E] by (simp add: h1_def)
  have restore: "hoare F (\<lambda>h. h = h1) (if th_device h0 \<noteq> device_id then cudaSetDevice (th_device h0) else retA ()) (\<lambda>_ h. h = h0) ?E"
  proof (cases "th_device h0 = device_id")
    case True
    then show ?thesis using hoare_retA [of F "\<lambda>_ h. h = h0" "()" ?E] by (simp add: h1_def)
  next
    case False
    have "h1\<lparr>th_device := th_device h0\<rparr> = h0" by (cases h0) (simp add: h1_def)
    then show ?thesis using hoare_set_device [of F ?E h1 "th_device h0"] e(2) False by simp
  qed
  note query = hoare_bindA [OF hoare_call_at [where api = LaunchConfig and F = F and E = ?E and ?h1.0 = h1]]
  show ?thesis
  proof (cases "multiProcessorCount dq \<le> 0")
    case True
    then have none: "GetOptimalLaunchConfig dq = Inl (RuntimeError ''CUDA device reports no streaming multiprocessors'')"
      by (simp add: GetOptimalLaunchConfig_def)
    have "hoare F (\<lambda>h. h = h1) (bindA (liftA (Inl (RuntimeError ''CUDA device reports no streaming multiprocessors''))) k) Q ?E"
      for Q and k :: "unit \<Rightarrow> (ToolHost, DeviceTuningConfig) action"
      by (rule hoare_bindA [where R = "\<lambda>_ _. False"], rule hoare_pre [OF hoare_liftA])
        (simp_all add: none not_configured_def h1_def hoare_def)
    then show ?thesis
      unfolding optimal_launch_config_def using True
      by (intro hoare_bindA [OF hoare_call_at] hoare_read [where x = "th_device h0"] hoare_bindA [OF switch] query)
        (simp_all add: e)
  next
    case False
    then obtain config where config: "GetOptimalLaunchConfig dq = Inr config" by (auto simp: GetOptimalLaunchConfig_def Let_def)
    have last: "hoare F (\<lambda>h. h = h0) (liftA (GetOptimalLaunchConfig dq)) (\<lambda>config h. h = h0 \<and> GetOptimalLaunchConfig dq = Inr config) ?E"
      by (rule hoare_pre [OF hoare_liftA]) (simp add: config)
    have rest: "hoare F (\<lambda>h. h = h1) (bindA (callA LaunchConfig) (\<lambda>_. bindA (callA LaunchConfig) (\<lambda>_.
        bindA (if th_device h0 \<noteq> device_id then cudaSetDevice (th_device h0) else retA ()) (\<lambda>_. liftA (GetOptimalLaunchConfig dq)))))
        (\<lambda>config h. h = h0 \<and> GetOptimalLaunchConfig dq = Inr config) ?E"
      by (intro query hoare_bindA [OF restore last]) (simp_all add: e)
    show ?thesis
      unfolding optimal_launch_config_def
      by (intro hoare_bindA [OF hoare_call_at] hoare_read [where x = "th_device h0"] hoare_bindA [OF switch] query)
        (use False rest in \<open>simp_all add: e bindA_retA\<close>)
  qed
qed

text \<open>The cache only ever holds answers: a query that fails adds nothing, and the next call asks again.\<close>

lemma hoare_cached_launch_config:
  "hoare F (\<lambda>h. h = h0) (cached_launch_config queries kern device_id)
     (\<lambda>config h. \<exists>cache. GetCachedOptimalLaunchConfig queries kern device_id (th_cache h0) = Inr (config, cache) \<and> h = h0\<lparr>th_cache := cache\<rparr>)
     (not_configured F (queries device_id kern) device_id h0)"
proof (cases "map_of (th_cache h0) (device_id, kern)")
  case None
  have "hoare F (\<lambda>h. h = h0 \<and> GetOptimalLaunchConfig (queries device_id kern) = Inr config)
     (bindA (modifyA (\<lambda>h. h\<lparr>th_cache := th_cache h @ [((device_id, kern), config)]\<rparr>)) (\<lambda>_. retA config))
     (\<lambda>config h. \<exists>cache. GetCachedOptimalLaunchConfig queries kern device_id (th_cache h0) = Inr (config, cache) \<and> h = h0\<lparr>th_cache := cache\<rparr>)
     (not_configured F (queries device_id kern) device_id h0)" for config
    using None by (auto simp: hoare_def modifyA_def retA_def bindA_def GetCachedOptimalLaunchConfig_def)
  then show ?thesis
    unfolding cached_launch_config_def using None
    by (intro hoare_read [where x = None] hoare_bindA [OF hoare_optimal_launch_config, THEN hoare_pre]) (auto intro!: hoare_bindA [OF hoare_optimal_launch_config])
next
  case (Some config)
  then show ?thesis
    unfolding cached_launch_config_def
    by (intro hoare_read [where x = "Some config"]) (auto simp: hoare_def retA_def GetCachedOptimalLaunchConfig_def)
qed

text \<open>The report is printed as a whole or not at all.\<close>

lemma hoare_device_report:
  "hoare F (\<lambda>h. h = h0) (device_report rnd fixed2 properties clock width dq)
     (\<lambda>_ h. \<exists>config. GetOptimalLaunchConfig dq = Inr config \<and> h = h0\<lparr>th_device := 0, th_text := th_text h0 @
        concat (map (\<lambda>line. line @ newline) (report_lines rnd fixed2 properties clock width config))\<rparr>)
     (\<lambda>e h. (e = cuda_error \<and> some_fault F \<or> GetOptimalLaunchConfig dq = Inl e) \<and> h \<in> {h0, h0\<lparr>th_device := 0\<rparr>})" (is "hoare F _ _ ?Q ?E")
proof -
  have config: "hoare F (\<lambda>h. h = h0\<lparr>th_device := 0\<rparr>) (optimal_launch_config dq 0)
      (\<lambda>config h. h = h0\<lparr>th_device := 0\<rparr> \<and> GetOptimalLaunchConfig dq = Inr config) ?E"
    by (rule hoare_weaken [OF hoare_optimal_launch_config [of F "h0\<lparr>th_device := 0\<rparr>"]]) (auto simp: not_configured_def)
  have print: "hoare F (\<lambda>h. h = h0\<lparr>th_device := 0\<rparr> \<and> GetOptimalLaunchConfig dq = Inr config)
      (modifyA (\<lambda>h. h\<lparr>th_text := th_text h @ concat (map (\<lambda>line. line @ newline) (report_lines rnd fixed2 properties clock width config))\<rparr>)) ?Q ?E"
    for config
    by (rule hoare_pre [OF hoare_modifyA]) auto
  show ?thesis
    unfolding device_report_def
    by (intro hoare_bindA [OF hoare_set_device] hoare_bindA [OF hoare_call_at] hoare_bindA [OF config print]) simp_all
qed

text \<open>The decode of two shards.\<close>

lemma hoare_sparse_decode:
  assumes "runtime_ok queries" "cache_ok queries (th_cache h0)"
    and "n \<le> length a" "n \<le> length b" "n \<le> length (th_words h0)"
  shows "hoare F (\<lambda>h. h = h0) (sparse_decode queries fresh a b n)
     (\<lambda>_ h. th_words h = run_sparse_decode_cpu a b (th_words h0) n \<and> cache_ok queries (th_cache h) \<and> th_device h = th_device h0)
     (\<lambda>e h. e = cuda_error \<and> some_fault F \<and> th_words h = th_words h0 \<and> cache_ok queries (th_cache h) \<and> th_device h = th_device h0)"
    (is "hoare F _ _ ?Q ?E")
proof (cases "n = 0")
  case True
  then show ?thesis using assms(2) by (simp add: sparse_decode_def run_sparse_decode_cpu_def hoare_def retA_def)
next
  case False
  let ?dev = "th_device h0"
  obtain config cache where c: "GetCachedOptimalLaunchConfig queries Dummy_kernel ?dev (th_cache h0) = Inr (config, cache)"
      "cache_ok queries cache"
    using GetCached_ok [OF assms(1,2)] by blast
  let ?launch = "checked_launch (CalculateGridBlocks n 1 config) (size_of_int (threads_per_block config))
      (dummy_reconstruct_kernel (take n a) (take n b) n (CalculateGridBlocks n 1 config) (size_of_int (threads_per_block config)))
      (map fresh [0..<n])"
  obtain cache' where "run_sparse_decode_cuda queries ?dev fresh a b (th_words h0) n (th_cache h0)
      = Some (Inr (run_sparse_decode_cpu a b (th_words h0) n, cache'))"
    using sparse_decode_cuda_matches_cpu [OF assms] by blast
  then obtain out where out: "?launch = Some (Inr out)" "out @ drop n (th_words h0) = run_sparse_decode_cpu a b (th_words h0) n"
    using False c(1) by (auto simp: run_sparse_decode_cuda_def Let_def bindR_def split: option.splits sum.splits)
  have e: "some_fault F \<Longrightarrow> ?E cuda_error h0" "some_fault F \<Longrightarrow> ?E cuda_error (h0\<lparr>th_cache := cache\<rparr>)"
    using assms(2) c(2) by simp_all
  have config: "hoare F (\<lambda>h. h = h0) (cached_launch_config queries Dummy_kernel ?dev)
      (\<lambda>config' h. config' = config \<and> h = h0\<lparr>th_cache := cache\<rparr>) ?E"
  proof (rule hoare_weaken [OF hoare_cached_launch_config])
    fix e h
    assume "not_configured F (queries ?dev Dummy_kernel) ?dev h0 e h"
    moreover have "\<exists>config. GetOptimalLaunchConfig (queries ?dev Dummy_kernel) = Inr config"
      using assms(1) by (auto simp: runtime_ok_def GetOptimalLaunchConfig_def Let_def not_le)
    moreover have "h0\<lparr>th_device := ?dev\<rparr> = h0" by (cases h0) simp
    ultimately show "?E e h" using assms(2) by (auto simp: not_configured_def)
  qed (use c(1) in auto)
  let ?copy_back = "\<lambda>out :: WordShard. bindA (callA LastError) (\<lambda>_. bindA (callA Synchronize) (\<lambda>_. bindA (callA Memcpy) (\<lambda>_.
        modifyA (\<lambda>h. h\<lparr>th_words := out @ drop n (th_words h)\<rparr>))))"
  have copy: "hoare F (\<lambda>h. h = h0\<lparr>th_cache := cache\<rparr>) (?copy_back out) ?Q ?E"
    by (intro hoare_bindA [OF hoare_call_at] hoare_pre [OF hoare_modifyA]) (use e(2) c(2) out(2) in auto)
  have launch: "hoare F (\<lambda>h. config' = config \<and> h = h0\<lparr>th_cache := cache\<rparr>)
      (let grid_blocks = CalculateGridBlocks n 1 config'; threads = size_of_int (threads_per_block config')
       in bindA (liftR (checked_launch grid_blocks threads
            (dummy_reconstruct_kernel (take n a) (take n b) n grid_blocks threads) (map fresh [0..<n]))) ?copy_back) ?Q ?E" for config'
  proof (cases "config' = config")
    case True
    then show ?thesis using copy out(1) by (simp only: Let_def bindA_launched simp_thms)
  qed (simp add: hoare_def)
  have alloc: "hoare F (\<lambda>h. h = h0) AllocateDeviceBuffer (\<lambda>_ h. h = h0) ?E"
    by (rule hoare_pre [OF hoare_runtime]) (use e(1) in auto)
  show ?thesis
    unfolding sparse_decode_def using False
    by (simp only: if_False, intro hoare_scope hoare_bindA [OF alloc] hoare_bindA [OF hoare_call_at]
        hoare_read [where x = ?dev] hoare_bindA [OF config launch]) (use e in simp_all)
qed

lemma keeps_launch_config:
  "keeps (tidy F K B M S) (cudaSetDevice d)" "keeps (tidy F K B M S) (optimal_launch_config dq d)"
  "keeps (tidy F K B M S) (cached_launch_config queries kern d)"
proof -
  show set: "keeps (tidy F K B M S) (cudaSetDevice d)" for d
    unfolding cudaSetDevice_def by (intro account_rules)
  show optimal: "keeps (tidy F K B M S) (optimal_launch_config dq d)" for dq
    unfolding optimal_launch_config_def by (intro account_rules set)
  show "keeps (tidy F K B M S) (cached_launch_config queries kern d)"
    unfolding cached_launch_config_def
    by (rule keeps_bindA [OF keeps_host(1)], case_tac x) (auto intro!: account_rules optimal)
qed

lemma account_sparse_decode:
  "account (\<lambda>w. tidy F K B M S w \<and> wd_locals w = L) (sparse_decode queries fresh a b n)
     (\<lambda>_ w. tidy F K B M S w \<and> wd_locals w = L) (\<lambda>w. tidy F K B M S w \<and> wd_locals w = L)"
proof (cases "n = 0")
  case True
  then show ?thesis by (simp add: sparse_decode_def keeps_retA)
next
  case False
  show ?thesis
    unfolding sparse_decode_def using False
    by (simp only: if_False) (intro account_scope account_rules keeps_launch_config keeps_buffer; simp add: Let_def; intro account_rules)
qed

section \<open>Properties\<close>

text \<open>
  The decode of two shards under failures: whatever CUDA calls fail, it ends; it returns the words of the CPU reference, or
  throws because a call failed and leaves the output as it was, or the process ends because a \<open>cudaFree\<close> failed. Unless the
  process ends, exactly the resources are live that were live before, and the current device is the one it was.
\<close>

theorem sparse_decode_under_faults:
  assumes "runtime_ok queries" "cache_ok queries (th_cache (wd_host w))"
    and "n \<le> length a" "n \<le> length b" "n \<le> length (th_words (wd_host w))"
    and "\<forall>r\<in>wd_live w. handle r < wd_next w" "wd_locals w = []" "wd_members w = []" "wd_raw w = []" "\<not> wd_misused w"
    and "sparse_decode queries fresh a b n w = (v, w')"
  shows "(case v of
      Done _ \<Rightarrow> th_words (wd_host w') = run_sparse_decode_cpu a b (th_words (wd_host w)) n
    | Raised e \<Rightarrow> e = cuda_error \<and> (\<exists>api k. api \<noteq> Free \<and> wd_faults w api k) \<and> th_words (wd_host w') = th_words (wd_host w)
    | Terminated \<Rightarrow> \<exists>k. wd_faults w Free k
    | Hangs \<Rightarrow> False) \<and>
    (v \<noteq> Terminated \<longrightarrow> wd_live w' = wd_live w \<and> \<not> wd_misused w' \<and> th_device (wd_host w') = th_device (wd_host w))"
proof -
  note h = hoareD [OF hoare_sparse_decode [OF assms(1-5), of "wd_faults w" fresh], of w, simplified, unfolded assms(11)]
  have "tidy (wd_faults w) {} (wd_live w) {[]} {[]} w \<and> wd_locals w = []"
    using tidy_new [OF assms(6-10)] assms(7) by simp
  from accountD [OF account_sparse_decode [of _ _ _ _ _ _ queries fresh a b n] this]
  have "settles (\<lambda>_ w'. wd_live w' = wd_live w \<and> \<not> wd_misused w') (\<lambda>w'. wd_live w' = wd_live w \<and> \<not> wd_misused w') (v, w')"
    unfolding assms(11) by (rule settles_mono) (auto dest: tidy_exact simp: owned_def tidy_def)
  then show ?thesis using h by (cases v) (auto simp: some_fault_def)
qed

definition example_tools :: ToolHost where
  "example_tools = \<lparr>th_device = 0, th_cache = [], th_words = [9, 9, 8], th_text = []\<rparr>"

theorem sparse_decode_under_faults_witness:
  "\<exists>v w'. sparse_decode example_queries (\<lambda>_. 77) [5, 1] [3, 1] 2 (example_world (\<lambda>api k. api = Memcpy \<and> k = 9) example_tools) = (v, w') \<and>
     v \<noteq> Hangs \<and> v \<noteq> Terminated \<and> wd_live w' = {}"
proof -
  let ?w = "example_world (\<lambda>api k. api = Memcpy \<and> k = 9) example_tools"
  obtain v w' where run: "sparse_decode example_queries (\<lambda>_. 77) [5, 1] [3, 1] 2 ?w = (v, w')" by fastforce
  have "v \<noteq> Hangs \<and> v \<noteq> Terminated \<and> wd_live w' = {}"
    using sparse_decode_under_faults [OF example_runtime _ _ _ _ _ _ _ _ _ run]
    by (cases v) (simp_all add: example_world_def example_tools_def cache_ok_Nil)
  then show ?thesis using run by blast
qed

text \<open>
  The device report is printed as a whole or not at all: whatever CUDA calls fail, \<open>main\<close> ends without a line when one
  of them throws, and otherwise prints every line once, with the launch configuration that the decoder computes for the same
  answers of the runtime; it throws only if a call failed or the device has no multiprocessor.
\<close>

theorem device_report_whole_or_nothing:
  assumes "device_report rnd fixed2 properties clock width dq w = (v, w')"
  shows "case v of
      Done _ \<Rightarrow> \<exists>config. GetOptimalLaunchConfig dq = Inr config \<and> th_text (wd_host w') = th_text (wd_host w) @
        concat (map (\<lambda>line. line @ newline) (report_lines rnd fixed2 properties clock width config))
    | Raised e \<Rightarrow> ((\<exists>api k. wd_faults w api k) \<or> multiProcessorCount dq \<le> 0) \<and> th_text (wd_host w') = th_text (wd_host w)
    | Terminated \<Rightarrow> \<exists>k. wd_faults w Free k
    | Hangs \<Rightarrow> False"
proof -
  have none: "GetOptimalLaunchConfig dq = Inl e \<Longrightarrow> multiProcessorCount dq \<le> 0" for e
    by (simp add: GetOptimalLaunchConfig_def Let_def split: if_splits)
  from hoareD [OF hoare_device_report [of "wd_faults w" "wd_host w" rnd fixed2 properties clock width dq], of w, simplified, unfolded assms]
  show ?thesis by (cases v) (auto simp: some_fault_def dest: none)
qed

definition example_properties :: DeviceProperties where
  "example_properties = \<lparr>dp_name = ''GPU'', dp_major = 8, dp_minor = 0, dp_multiProcessorCount = 4, dp_maxThreadsPerBlock = 1024,
     dp_warpSize = 32, dp_l2CacheSize = 1048576\<rparr>"

lemma example_report:
  "fst (device_report id (\<lambda>_. ''1.00'') example_properties 1000 64 (example_queries 0 Dummy_kernel)
     (example_world (\<lambda>_ _. False) example_tools)) = Done ()"
  by (simp add: device_report_def optimal_launch_config_def cudaSetDevice_def bindA_def callA_def modifyA_def hostA_def retA_def liftA_def
      example_world_def example_tools_def example_queries_def GetOptimalLaunchConfig_def Let_def)

theorem device_report_whole_or_nothing_witness:
  "\<exists>w' config. device_report id (\<lambda>_. ''1.00'') example_properties 1000 64 (example_queries 0 Dummy_kernel)
      (example_world (\<lambda>_ _. False) example_tools) = (Done (), w') \<and>
    th_text (wd_host w') = concat (map (\<lambda>line. line @ newline) (report_lines id (\<lambda>_. ''1.00'') example_properties 1000 64 config))"
proof -
  obtain w' where run: "device_report id (\<lambda>_. ''1.00'') example_properties 1000 64 (example_queries 0 Dummy_kernel)
      (example_world (\<lambda>_ _. False) example_tools) = (Done (), w')"
    using example_report by (metis prod.collapse)
  show ?thesis using device_report_whole_or_nothing [OF run] run by (auto simp: example_world_def example_tools_def)
qed

text \<open>
  The current device is not restored when a query fails in between: a thread that works on device 1 and asks for the
  configuration on device 0 gets the exception of the third query and goes on with device 0.
\<close>

theorem failed_query_switches_device:
  "case optimal_launch_config (example_queries 0 Dummy_kernel) 0
       (example_world (\<lambda>api k. api = LaunchConfig \<and> k = 4) (example_tools\<lparr>th_device := 1\<rparr>)) of
     (v, w') \<Rightarrow> v = Raised cuda_error \<and> th_device (wd_host w') = 0"
  by (simp add: optimal_launch_config_def cudaSetDevice_def bindA_def callA_def modifyA_def hostA_def retA_def liftA_def
      example_world_def example_tools_def example_queries_def)

end
