(* ===== verification/Sweep.thy ===== *)
theory Sweep imports SweepOptions begin

text \<open>
  \<open>experiments/phase7_parameter_sweep.cpp\<close>, second part: the baselines, the coded strategy, the summaries
  and the loops of \<open>main\<close> that compare the strategies for every combination of the options.

  The rounding of \<open>double\<close> arithmetic is a parameter, of which \<open>double_ok\<close> states what IEEE 754 promises.
  Formatting is not modelled: the sweep returns the rows whose fields \<open>PrintRow\<close> prints, and an exception
  discards the rows already printed.
\<close>

section \<open>The strategies\<close>

definition natural_step :: "nat \<Rightarrow> GlobalArrivalEvent \<Rightarrow> (RequestId, microseconds) omap \<Rightarrow> (RequestId, microseconds) omap" where
  "natural_step k e completion =
     (if unat (ge_shard e) < k
      then (case omap_find completion (ge_request e) of
              None \<Rightarrow> omap_emplace (ge_request e) (ge_time e) completion
            | Some t \<Rightarrow> omap_assign (ge_request e) (max t (ge_time e)) completion)
      else completion)"

definition GetNaturalCompletionTimes :: "GlobalArrivalEvent list \<Rightarrow> nat \<Rightarrow> (RequestId, microseconds) omap" where
  "GetNaturalCompletionTimes events k = fold (natural_step k) events []"

definition start_step :: "GlobalArrivalEvent \<Rightarrow> (RequestId, microseconds) omap \<Rightarrow> (RequestId, microseconds) omap result" where
  "start_step e starts =
     (case omap_find starts (ge_request e) of
        None \<Rightarrow> Inr (omap_emplace (ge_request e) (ge_start e) starts)
      | Some start \<Rightarrow>
          if start \<noteq> ge_start e
          then Inl (InvalidArgument ''Events for one request must share a request start time'') else Inr starts)"

definition baseline_metric ::
  "(RequestId, microseconds) omap \<Rightarrow> RequestId \<times> microseconds \<Rightarrow> (RequestId, RequestMetrics) omap \<Rightarrow>
   (RequestId, RequestMetrics) omap result" where
  "baseline_metric completion request metrics =
     (case request of (r, start) \<Rightarrow>
       (case omap_find completion r of
          None \<Rightarrow> Inl (RuntimeError ''Baseline requires a natural arrival for every systematic shard'')
        | Some t \<Rightarrow>
            Inr (omap_emplace r \<lparr>latency = t - start, rm_won = False, rm_admitted = False, rm_rejected = False,
                   rm_waited = False, rm_unrecoverable = False\<rparr> metrics)))"

definition RunBaseline :: "GlobalArrivalEvent list \<Rightarrow> nat \<Rightarrow> (RequestId, RequestMetrics) omap result" where
  "RunBaseline events k =
     bindE (foldE start_step events []) (\<lambda>starts.
       foldE (baseline_metric (GetNaturalCompletionTimes events k)) starts [])"

definition estimate_service_time :: "DecodeCostTable \<Rightarrow> nat \<Rightarrow> DecodePlan \<Rightarrow> microseconds result" where
  "estimate_service_time costs shard_size plan =
     bindE (foldE (\<lambda>op sum. bindE (Get_cost costs (length (xo_sources op)) shard_size) (\<lambda>cost. Inr (sum + cost)))
              (operations plan) 0)
       (\<lambda>sum. if sum \<le> 0 then Inl (InvalidArgument ''Recoverable decode plan must contain operations'') else Inr sum)"

definition remaining_wait :: "(RequestId, microseconds) omap \<Rightarrow> wait_oracle" where
  "remaining_wait completion r now = bindE (omap_at completion r) (\<lambda>t. Inr (if t > now then t - now else 0))"

definition RunCodedStrategy ::
  "BipartiteGraph \<Rightarrow> GlobalArrivalEvent list \<Rightarrow> nat \<Rightarrow> nat \<Rightarrow> nat \<Rightarrow> DecodeCostTable \<Rightarrow>
   (RequestId, RequestMetrics) omap result" where
  "RunCodedStrategy g events concurrency queue_depth shard_size costs =
     bindE (RecoveryQueue_new concurrency queue_depth) (\<lambda>q.
     bindE (ClusterSimulator_new g q (Some (estimate_service_time costs shard_size))) (\<lambda>sim.
     bindE (ClusterSimulator_Run sim events
              (Some (remaining_wait (GetNaturalCompletionTimes events (systematic_shard_count g)))))
       (\<lambda>(metrics, sim'). Inr metrics)))"

section \<open>Summaries\<close>

definition double_ok :: "(real \<Rightarrow> real) \<Rightarrow> bool" where
  "double_ok rd \<longleftrightarrow> mono rd \<and> (\<forall>n\<le>2 ^ 53. rd (of_nat n) = of_nat n)"

definition Percentile :: "(real \<Rightarrow> real) \<Rightarrow> int list \<Rightarrow> real \<Rightarrow> int result" where
  "Percentile rd vals percentile =
     (if vals = [] then Inl (InvalidArgument ''Cannot calculate an empty percentile'')
      else (let sorted_vals = sort vals; rank = nat \<lceil>rd (percentile * rd (of_nat (length vals)))\<rceil>
            in vec_at sorted_vals (max 1 rank - 1)))"

record ExperimentSummary =
  p50_us :: int
  p95_us :: int
  p99_us :: int
  admission_rate_percent :: real
  rejection_rate_percent :: real
  wait_rate_percent :: real
  unrecoverable_rate_percent :: real
  win_rate_percent :: real

definition rate_percent :: "(real \<Rightarrow> real) \<Rightarrow> nat \<Rightarrow> nat \<Rightarrow> real" where
  "rate_percent rd hits n = rd (rd (100 * rd (of_nat hits)) / rd (of_nat n))"

definition count_flag :: "(RequestMetrics \<Rightarrow> bool) \<Rightarrow> (RequestId, RequestMetrics) omap \<Rightarrow> nat" where
  "count_flag flag metrics = foldl (\<lambda>n (r, m). n + (if flag m then 1 else 0)) 0 metrics"

definition Summarize :: "(real \<Rightarrow> real) \<Rightarrow> (RequestId, RequestMetrics) omap \<Rightarrow> ExperimentSummary result" where
  "Summarize rd metrics =
     (let latencies = map (\<lambda>(r, m). latency m) metrics; n = length metrics in
      bindE (Percentile rd latencies (rd (50 / 100))) (\<lambda>p50.
      bindE (Percentile rd latencies (rd (95 / 100))) (\<lambda>p95.
      bindE (Percentile rd latencies (rd (99 / 100))) (\<lambda>p99.
        Inr \<lparr>p50_us = p50, p95_us = p95, p99_us = p99,
             admission_rate_percent = rate_percent rd (count_flag rm_admitted metrics) n,
             rejection_rate_percent = rate_percent rd (count_flag rm_rejected metrics) n,
             wait_rate_percent = rate_percent rd (count_flag rm_waited metrics) n,
             unrecoverable_rate_percent = rate_percent rd (count_flag rm_unrecoverable metrics) n,
             win_rate_percent = rate_percent rd (count_flag rm_won metrics) n\<rparr>))))"

section \<open>The sweep\<close>

definition kFullReplicationSeedSalt :: "32 word" where
  "kFullReplicationSeedSalt = 0xC2B2AE35"

definition kCapacityReplicationSeedSalt :: "32 word" where
  "kCapacityReplicationSeedSalt = 0xA24BAED4"

definition kGraphSeedSalt :: "32 word" where
  "kGraphSeedSalt = 0x9E3779B9"

text \<open>What one call of \<open>PrintRow\<close> prints.\<close>

record SweepRow =
  row_scenario :: string
  row_seed :: "32 word"
  row_workload :: WorkloadConfig
  row_systematic :: nat
  row_parity :: nat
  row_degree :: nat
  row_shard_size :: nat
  row_queue_depth :: nat
  row_concurrency :: nat
  row_strategy :: string
  row_added :: nat
  row_overhead_percent :: real
  row_summary :: ExperimentSummary

text \<open>The variables of the outer loops that the inner loops read.\<close>

record SweepPoint =
  pt_scenario :: string
  pt_seed :: "32 word"
  pt_workload :: WorkloadConfig
  pt_parity :: nat
  pt_events :: "GlobalArrivalEvent list"
  pt_wait :: "(RequestId, RequestMetrics) omap"
  pt_capacity :: "(RequestId, RequestMetrics) omap"
  pt_full :: "(RequestId, RequestMetrics) omap"

text \<open>\<open>for (x : xs) { ... }\<close> where the body prints rows.\<close>

definition for_rows :: "('a \<Rightarrow> SweepRow list result) \<Rightarrow> 'a list \<Rightarrow> SweepRow list result" where
  "for_rows body xs = foldE (\<lambda>x rows. bindE (body x) (\<lambda>new. Inr (rows @ new))) xs []"

definition PrintRow ::
  "(real \<Rightarrow> real) \<Rightarrow> SweepPoint \<Rightarrow> nat \<Rightarrow> nat \<Rightarrow> nat \<Rightarrow> nat \<Rightarrow> string \<Rightarrow> nat \<Rightarrow> (RequestId, RequestMetrics) omap \<Rightarrow>
   SweepRow list result" where
  "PrintRow rd point degree shard_size queue_depth concurrency strategy added metrics =
     bindE (Summarize rd metrics) (\<lambda>summary.
       Inr [\<lparr>row_scenario = pt_scenario point, row_seed = pt_seed point, row_workload = pt_workload point,
             row_systematic = kSystematicShards, row_parity = pt_parity point, row_degree = degree, row_shard_size = shard_size,
             row_queue_depth = queue_depth, row_concurrency = concurrency, row_strategy = strategy, row_added = added,
             row_overhead_percent = rate_percent rd added kSystematicShards, row_summary = summary\<rparr>])"

definition sweep_strategies ::
  "(real \<Rightarrow> real) \<Rightarrow> DecodeCostTable \<Rightarrow> SweepPoint \<Rightarrow> BipartiteGraph \<Rightarrow> nat \<Rightarrow> nat \<Rightarrow> nat \<Rightarrow> nat \<Rightarrow> SweepRow list result" where
  "sweep_strategies rd costs point g degree shard_size queue_depth concurrency =
     bindE (RunCodedStrategy g (pt_events point) concurrency queue_depth shard_size costs) (\<lambda>coded.
     for_rows (\<lambda>(strategy, added, metrics). PrintRow rd point degree shard_size queue_depth concurrency strategy added metrics)
       [(''wait'', 0, pt_wait point), (''replication_capacity_normalized'', pt_parity point, pt_capacity point),
        (''replication_full'', kSystematicShards, pt_full point), (''codedllm'', pt_parity point, coded)])"

definition sweep_code ::
  "('g, 'n) RandomLibrary \<Rightarrow> (real \<Rightarrow> real) \<Rightarrow> SweepOptions \<Rightarrow> DecodeCostTable \<Rightarrow> SweepPoint \<Rightarrow> nat \<Rightarrow> nat \<Rightarrow> SweepRow list result" where
  "sweep_code lib rd opts costs point degree shard_size =
     bindE (Get_cost costs degree shard_size) (\<lambda>_.
     bindE (GenerateRegularGraph (mt19937 lib) (std_shuffle lib) kSystematicShards (pt_parity point) degree
              (pt_seed point XOR kGraphSeedSalt XOR of_nat (pt_parity point) XOR of_nat degree)) (\<lambda>g.
       for_rows (\<lambda>queue_depth. for_rows (\<lambda>concurrency.
           sweep_strategies rd costs point g degree shard_size queue_depth concurrency) (concurrency_limits opts))
         (queue_depths opts)))"

definition sweep_workload :: "SweepOptions \<Rightarrow> 32 word \<Rightarrow> double \<Rightarrow> double \<Rightarrow> WorkloadConfig" where
  "sweep_workload opts seed rate probability =
     \<lparr>wc_num_requests = num_requests opts, wc_arrival_rate = rate, wc_straggler_probability = probability,
      wc_normal_mean = 2000, wc_normal_stddev = 400, wc_straggler_mean = 20000, wc_straggler_stddev = 4000, wc_seed = seed\<rparr>"

definition make_point ::
  "('g, 'n) RandomLibrary \<Rightarrow> SweepOptions \<Rightarrow> 32 word \<Rightarrow> double \<Rightarrow> double \<Rightarrow> nat \<Rightarrow> SweepPoint result" where
  "make_point lib opts seed rate probability parity_count =
     (let workload = sweep_workload opts seed rate probability in
      bindE (WorkloadGenerator_new workload kSystematicShards parity_count) (\<lambda>generator.
      bindE (Generate lib generator) (\<lambda>base_events.
      bindE (ApplyCapacityNormalizedReplication lib base_events workload kSystematicShards parity_count
               (seed XOR kCapacityReplicationSeedSalt)) (\<lambda>capacity_replicated.
      bindE (ApplyReplication lib base_events workload kSystematicShards (seed XOR kFullReplicationSeedSalt)) (\<lambda>fully_replicated.
      bindE (RunBaseline base_events kSystematicShards) (\<lambda>wait_metrics.
      bindE (RunBaseline capacity_replicated kSystematicShards) (\<lambda>capacity_metrics.
      bindE (RunBaseline fully_replicated kSystematicShards) (\<lambda>full_metrics.
        Inr \<lparr>pt_scenario = scenario opts, pt_seed = seed, pt_workload = workload, pt_parity = parity_count, pt_events = base_events,
             pt_wait = wait_metrics, pt_capacity = capacity_metrics, pt_full = full_metrics\<rparr>))))))))"

definition RunSweep ::
  "('g, 'n) RandomLibrary \<Rightarrow> (real \<Rightarrow> real) \<Rightarrow> SweepOptions \<Rightarrow> DecodeCostTable \<Rightarrow> SweepRow list result" where
  "RunSweep lib rd opts costs =
     for_rows (\<lambda>seed_offset. for_rows (\<lambda>rate. for_rows (\<lambda>probability. for_rows (\<lambda>parity_count.
         bindE (make_point lib opts (base_seed opts + of_nat seed_offset) rate probability parity_count) (\<lambda>point.
           for_rows (\<lambda>degree. for_rows (\<lambda>shard_size. sweep_code lib rd opts costs point degree shard_size)
             (shard_sizes_mib opts)) (degrees opts)))
         (parity_counts opts)) (straggler_probabilities opts)) (arrival_rates_hz opts)) [0..<seed_count opts]"

text \<open>\<open>main\<close>: the options, the cost table, the sweep; an exception anywhere ends the program with 1.\<close>

definition sweep_main ::
  "('g, 'n) RandomLibrary \<Rightarrow> (real \<Rightarrow> real) \<Rightarrow> stod \<Rightarrow> (string \<Rightarrow> string option) \<Rightarrow> string list \<Rightarrow> SweepRow list result" where
  "sweep_main lib rd stod files args =
     bindE (ParseOptions stod args) (\<lambda>opts.
     bindE (DecodeCostTable_new stod (calibration_csv opts) (files (calibration_csv opts))) (\<lambda>costs.
       RunSweep lib rd opts costs))"

section \<open>Waiting\<close>

definition systematic_times :: "GlobalArrivalEvent list \<Rightarrow> nat \<Rightarrow> RequestId \<Rightarrow> microseconds set" where
  "systematic_times events k r = ge_time ` {e \<in> set events. ge_request e = r \<and> unat (ge_shard e) < k}"

lemma systematic_times_snoc:
  "systematic_times (events @ [e]) k r =
    (if ge_request e = r \<and> unat (ge_shard e) < k then insert (ge_time e) (systematic_times events k r) else systematic_times events k r)"
  by (auto simp: systematic_times_def)

lemma GetNaturalCompletionTimes_spec:
  "omap_ok (GetNaturalCompletionTimes events k) \<and>
    (\<forall>r. omap_find (GetNaturalCompletionTimes events k) r =
      (if systematic_times events k r = {} then None else Some (Max (systematic_times events k r))))"
proof (induction events rule: rev_induct)
  case Nil
  then show ?case by (simp add: GetNaturalCompletionTimes_def systematic_times_def)
next
  case (snoc e events)
  let ?m = "GetNaturalCompletionTimes events k"
  have step: "GetNaturalCompletionTimes (events @ [e]) k = natural_step k e ?m" by (simp add: GetNaturalCompletionTimes_def)
  have ok: "omap_ok ?m" and find: "omap_find ?m r = (if systematic_times events k r = {} then None else Some (Max (systematic_times events k r)))" for r
    using snoc by blast+
  have fin: "finite (systematic_times events k r)" for r by (simp add: systematic_times_def)
  show ?case
  proof (cases "unat (ge_shard e) < k")
    case False
    then show ?thesis using snoc by (simp add: step natural_step_def systematic_times_snoc)
  next
    case True
    show ?thesis
    proof (cases "systematic_times events k (ge_request e) = {}")
      case empty: True
      then have "natural_step k e ?m = omap_emplace (ge_request e) (ge_time e) ?m"
        using True find by (simp add: natural_step_def)
      then show ?thesis
        using ok find empty True omap_ok_emplace [OF ok] find_omap_emplace [OF ok] by (simp add: step systematic_times_snoc)
    next
      case False
      then have "natural_step k e ?m = omap_assign (ge_request e) (max (Max (systematic_times events k (ge_request e))) (ge_time e)) ?m"
        using True find by (simp add: natural_step_def)
      moreover have "max (Max (systematic_times events k (ge_request e))) (ge_time e)
          = Max (insert (ge_time e) (systematic_times events k (ge_request e)))"
        using False fin by (simp add: max.commute)
      ultimately show ?thesis
        using ok find True omap_ok_assign [OF ok] find_omap_assign [OF ok] by (auto simp: step systematic_times_snoc)
    qed
  qed
qed

lemma start_loop:
  assumes "\<forall>e\<in>set events. \<forall>e'\<in>set events. ge_request e' = ge_request e \<longrightarrow> ge_start e' = ge_start e"
  shows "\<exists>starts. foldE start_step events [] = Inr starts \<and> omap_ok starts \<and> fst ` set starts = ge_request ` set events \<and>
    (\<forall>e\<in>set events. omap_find starts (ge_request e) = Some (ge_start e))"
proof -
  define I where "I done starts \<longleftrightarrow> omap_ok starts \<and> fst ` set starts = ge_request ` set done \<and>
    (\<forall>e\<in>set done. omap_find starts (ge_request e) = Some (ge_start e))" for "done" :: "GlobalArrivalEvent list" and starts :: "(RequestId, microseconds) omap"
  have "\<exists>starts. foldE start_step events [] = Inr starts \<and> I events starts"
  proof (rule foldE_total)
    show "I [] []" by (simp add: I_def)
    fix pre x rest starts
    assume e: "events = pre @ x # rest" and inv: "I pre starts"
    show "\<exists>v. start_step x starts = Inr v \<and> I (pre @ [x]) v"
    proof (cases "omap_find starts (ge_request x)")
      case None
      have ok: "omap_ok starts" using inv by (simp add: I_def)
      have "ge_request x \<notin> ge_request ` set pre"
        using None inv by (auto simp: I_def)
      then have "I (pre @ [x]) (omap_emplace (ge_request x) (ge_start x) starts)"
        using inv None omap_ok_emplace [OF ok] find_omap_emplace [OF ok] set_keys_emplace [of "ge_request x" "ge_start x" starts]
        by (auto simp: I_def)
      then show ?thesis using None by (simp add: start_step_def)
    next
      case (Some start)
      then have "ge_request x \<in> fst ` set starts" by (force dest: map_of_SomeD)
      then obtain y where y: "y \<in> set pre" "ge_request x = ge_request y" using inv by (auto simp: I_def)
      then have "start = ge_start y" using inv Some by (auto simp: I_def)
      moreover have "ge_start y = ge_start x" using assms y e by auto
      ultimately show ?thesis using inv Some y by (auto simp: start_step_def I_def)
    qed
  qed
  then show ?thesis by (auto simp: I_def)
qed

lemma baseline_loop:
  assumes "omap_ok starts" "\<forall>r\<in>fst ` set starts. omap_find completion r = Some (due r)"
  shows "\<exists>metrics. foldE (baseline_metric completion) starts [] = Inr metrics \<and> omap_ok metrics \<and>
    fst ` set metrics = fst ` set starts \<and>
    (\<forall>(r, m)\<in>set metrics. \<exists>start. omap_find starts r = Some start \<and> latency m = due r - start)"
proof -
  define I where "I done metrics \<longleftrightarrow> omap_ok metrics \<and> fst ` set metrics = fst ` set done \<and>
    (\<forall>(r, m)\<in>set metrics. \<exists>start. (r, start) \<in> set done \<and> latency m = due r - start)"
    for "done" :: "(RequestId \<times> microseconds) list" and metrics :: "(RequestId, RequestMetrics) omap"
  have emplaced: "set (omap_emplace key v m) \<subseteq> insert (key, v) (set m)" for key :: RequestId and v :: RequestMetrics and m
    by (induction key v m rule: omap_emplace.induct) auto
  have "\<exists>metrics. foldE (baseline_metric completion) starts [] = Inr metrics \<and> I starts metrics"
  proof (rule foldE_total)
    show "I [] []" by (simp add: I_def)
    fix pre x rest metrics
    assume e: "starts = pre @ x # rest" and inv: "I pre metrics"
    obtain r start where x: "x = (r, start)" by (cases x)
    then have "omap_find completion r = Some (due r)" using assms(2) e by auto
    then obtain m where step: "baseline_metric completion x metrics = Inr (omap_emplace r m metrics)" "latency m = due r - start"
      using x by (simp add: baseline_metric_def)
    have "omap_ok (omap_emplace r m metrics)" using inv omap_ok_emplace [of metrics] by (simp add: I_def)
    moreover have "fst ` set (omap_emplace r m metrics) = fst ` set (pre @ [x])"
      using inv x set_keys_emplace [of r m metrics] by (simp add: I_def)
    moreover have "\<exists>start. (r', start) \<in> set (pre @ [x]) \<and> latency m' = due r' - start"
      if "(r', m') \<in> set (omap_emplace r m metrics)" for r' m'
    proof (cases "(r', m') = (r, m)")
      case True
      then show ?thesis using x step(2) by auto
    next
      case False
      then have "(r', m') \<in> set metrics" using that emplaced [of r m metrics] by blast
      then show ?thesis using inv by (fastforce simp: I_def)
    qed
    ultimately show "\<exists>v. baseline_metric completion x metrics = Inr v \<and> I (pre @ [x]) v"
      using step(1) unfolding I_def by blast
  qed
  then show ?thesis using om.entry_iff_find [OF assms(1)] by (fastforce simp: I_def)
qed

definition completion_time :: "GlobalArrivalEvent list \<Rightarrow> nat \<Rightarrow> RequestId \<Rightarrow> microseconds" where
  "completion_time events k r = Max (systematic_times events k r)"

lemma schedule_valid_times:
  assumes "schedule_valid g events" "e \<in> set events" "0 < systematic_shard_count g" "systematic_shard_count g = k"
  shows "systematic_times events k (ge_request e) \<noteq> {}"
proof -
  have "unat (0 :: ShardId) < systematic_shard_count g" using assms(3) by simp
  then obtain e' where "e' \<in> set events" "ge_request e' = ge_request e" "ge_shard e' = 0"
    using assms(1,2) unfolding schedule_valid_def by blast
  then show ?thesis using assms(3,4) by (auto simp: systematic_times_def intro!: exI [of _ e'])
qed

text \<open>Waiting succeeds on every valid schedule; its latency is the time of the last systematic arrival.\<close>

lemma RunBaseline_spec:
  assumes "schedule_valid g events" "0 < systematic_shard_count g" "systematic_shard_count g = k"
  obtains metrics where "RunBaseline events k = Inr metrics" "omap_ok metrics" "fst ` set metrics = ge_request ` set events"
    "\<And>r m e. (r, m) \<in> set metrics \<Longrightarrow> e \<in> set events \<Longrightarrow> ge_request e = r \<Longrightarrow>
       latency m = completion_time events k r - ge_start e"
proof -
  have "\<forall>e\<in>set events. \<forall>e'\<in>set events. ge_request e' = ge_request e \<longrightarrow> ge_start e' = ge_start e"
    using assms(1) unfolding schedule_valid_def by blast
  from start_loop [OF this] obtain starts where starts: "foldE start_step events [] = Inr starts" "omap_ok starts"
    "fst ` set starts = ge_request ` set events" "\<forall>e\<in>set events. omap_find starts (ge_request e) = Some (ge_start e)" by blast
  have "\<forall>r\<in>fst ` set starts. omap_find (GetNaturalCompletionTimes events k) r = Some (completion_time events k r)"
    using schedule_valid_times [OF assms(1) _ assms(2,3)] GetNaturalCompletionTimes_spec [of events k] starts(3)
    by (auto simp: completion_time_def)
  from baseline_loop [OF starts(2) this] obtain metrics where m: "foldE (baseline_metric (GetNaturalCompletionTimes events k)) starts [] = Inr metrics"
    "omap_ok metrics" "fst ` set metrics = fst ` set starts"
    "\<forall>(r, m)\<in>set metrics. \<exists>start. omap_find starts r = Some start \<and> latency m = completion_time events k r - start" by blast
  show thesis
  proof (rule that)
    show "RunBaseline events k = Inr metrics" using starts(1) m(1) by (simp add: RunBaseline_def)
    show "fst ` set metrics = ge_request ` set events" using m(3) starts(3) by simp
    show "omap_ok metrics" by (rule m(2))
    show "latency x = completion_time events k r - ge_start e" if "(r, x) \<in> set metrics" "e \<in> set events" "ge_request e = r" for r x e
      using m(4) starts(4) that by fastforce
  qed
qed

section \<open>The coded strategy\<close>

lemma Run_metrics_ok:
  "ClusterSimulator_Run sim E (Some wait) = Inr (metrics, sim') \<Longrightarrow> omap_ok metrics"
  using collect_metrics by (fastforce simp: ClusterSimulator_Run_def Let_def bindE_eq_Inr)

definition regular_graph :: "nat \<Rightarrow> nat \<Rightarrow> nat \<Rightarrow> BipartiteGraph \<Rightarrow> bool" where
  "regular_graph k m degree g \<longleftrightarrow> graph_ok g \<and> systematic_shard_count g = k \<and> parity_shard_count g = m \<and>
     (\<forall>(p, ns)\<in>set (parity_to_systematic g). length ns = degree)"

text \<open>Every operation of a plan for a regular graph reads \<open>degree\<close> shards.\<close>

lemma plan_degree:
  assumes "regular_graph k m degree g" "CreatePlan g missing available = Inr plan" "is_recoverable plan"
    and "op \<in> set (operations plan)"
  shows "length (xo_sources op) = degree"
proof -
  have g: "graph_ok g" using assms(1) by (simp add: regular_graph_def)
  obtain i where i: "i < length (operations plan)" "op = operations plan ! i" using assms(4) by (auto simp: in_set_conv_nth)
  from peel_run_sources [OF planner.create_runs [OF g assms(2,3)] i(1)] obtain p ns where ns:
    "(p, ns) \<in> set (parity_to_systematic g)" "xo_output op \<in> set ns"
    "xo_sources op = p # filter (\<lambda>s. s \<noteq> xo_output op) ns" using i(2) by blast
  have "distinct ns" "length ns = degree" using ns(1) g assms(1) by (auto simp: graph_ok_def regular_graph_def)
  then have "length (filter (\<lambda>s. s \<noteq> xo_output op) ns) = degree - 1"
    using ns(2) sum_length_filter_compl [of "\<lambda>s. s = xo_output op" ns] distinct_length_filter [of ns "\<lambda>s. s = xo_output op"]
    by (auto simp: Int_def conj_commute cong: conj_cong)
  moreover have "0 < degree" using ns(2) \<open>length ns = degree\<close> by auto
  ultimately show ?thesis using ns(3) by simp
qed

lemma estimate_loop:
  "\<forall>op\<in>set ops. length (xo_sources op) = degree \<Longrightarrow> omap_find costs (degree, shard_size) = Some cost \<Longrightarrow>
    foldE (\<lambda>op sum. bindE (Get_cost costs (length (xo_sources op)) shard_size) (\<lambda>cost. Inr (sum + cost))) ops acc
      = Inr (acc + int (length ops) * cost)"
  by (induction ops arbitrary: acc) (simp_all add: Get_cost_def algebra_simps)

lemma estimate_ok:
  assumes "regular_graph k m degree g" "CreatePlan g missing available = Inr plan" "is_recoverable plan" "operations plan \<noteq> []"
    and "omap_find costs (degree, shard_size) = Some cost" "0 < cost"
  shows "\<exists>s>0. estimate_service_time costs shard_size plan = Inr s"
proof -
  have "\<forall>op\<in>set (operations plan). length (xo_sources op) = degree" using plan_degree [OF assms(1-3)] by blast
  from estimate_loop [OF this assms(5), of 0] assms(4,6) show ?thesis
    by (simp add: estimate_service_time_def mult_le_0_iff not_le)
qed

lemma natural_le_completion:
  assumes "schedule_valid g events" "e \<in> set events" "0 < systematic_shard_count g" "systematic_shard_count g = k"
    and "k < 2 ^ 32"
  shows "natural_time g events (ge_request e) \<le> completion_time events k (ge_request e)"
  unfolding natural_time_def
proof (subst Max_le_iff)
  show "\<forall>t\<in>earliest_arrival (events_of events (ge_request e)) ` {0..<systematic_shard_count g}. t \<le> completion_time events k (ge_request e)"
  proof (intro ballI)
    fix t assume "t \<in> earliest_arrival (events_of events (ge_request e)) ` {0..<systematic_shard_count g}"
    then obtain i where i: "i < k" "t = earliest_arrival (events_of events (ge_request e)) i" using assms(4) by auto
    have u: "unat (of_nat i :: ShardId) = i" using i(1) assms(5) by (simp add: unat_of_nat_ShardId)
    then have "unat (of_nat i :: ShardId) < systematic_shard_count g" using i(1) assms(4) by simp
    then obtain e' where e': "e' \<in> set events" "ge_request e' = ge_request e" "ge_shard e' = of_nat i"
      using assms(1,2) unfolding schedule_valid_def by blast
    let ?x = "\<lparr>ev_shard = ge_shard e', ev_time = ge_time e'\<rparr>"
    have "?x \<in> set (events_of events (ge_request e))" using e'(1,2) by (auto simp: set_events_of)
    then have "t \<le> ge_time e'" using e'(3) unfolding i(2) earliest_arrival_def by (intro Min_le) (auto intro!: image_eqI [of _ _ ?x])
    also have "ge_time e' \<le> completion_time events k (ge_request e)"
      unfolding completion_time_def using e' u i(1) by (intro Max_ge) (auto simp: systematic_times_def)
    finally show "t \<le> completion_time events k (ge_request e)" .
  qed
qed (use assms(3) in auto)

lemma remaining_wait_ok:
  assumes "schedule_valid g events" "0 < systematic_shard_count g" "systematic_shard_count g = k" "r \<in> ge_request ` set events"
  shows "\<exists>w\<ge>0. remaining_wait (GetNaturalCompletionTimes events k) r now = Inr w"
proof -
  obtain e where e: "e \<in> set events" "ge_request e = r" using assms(4) by auto
  then have "omap_find (GetNaturalCompletionTimes events k) r = Some (Max (systematic_times events k r))"
    using schedule_valid_times [OF assms(1) e(1) assms(2,3)] GetNaturalCompletionTimes_spec [of events k] by auto
  then show ?thesis by (simp add: remaining_wait_def omap_at_def)
qed

lemma RunCodedStrategy_spec:
  assumes g: "regular_graph k m degree g" "k < 2 ^ 32" and E: "schedule_valid g events"
    and c: "costs_ok costs" "omap_find costs (degree, shard_size) = Some cost"
    and q: "0 < concurrency" "queue_depth < 2 ^ 64"
  obtains metrics where "RunCodedStrategy g events concurrency queue_depth shard_size costs = Inr metrics"
    "omap_ok metrics" "fst ` set metrics = ge_request ` set events"
    "\<And>r m e. (r, m) \<in> set metrics \<Longrightarrow> e \<in> set events \<Longrightarrow> ge_request e = r \<Longrightarrow>
       latency m \<le> completion_time events k r - ge_start e"
proof -
  let ?est = "estimate_service_time costs shard_size" and ?wait = "remaining_wait (GetNaturalCompletionTimes events k)"
  have gr: "graph_ok g" "systematic_shard_count g = k" "0 < systematic_shard_count g" "omap_ok (parity_to_systematic g)"
    using g(1) by (auto simp: regular_graph_def graph_ok_def)
  obtain queue where queue: "RecoveryQueue_new concurrency queue_depth = Inr queue"
    using q(1) by (simp add: RecoveryQueue_new_def)
  define sim where "sim = \<lparr>cs_graph = g, cs_queue = queue, cs_estimate = ?est\<rparr>"
  have sim: "ClusterSimulator_new g queue (Some ?est) = Inr sim"
    using ClusterSimulator_new_Inr [OF gr(4)] gr(1) by (simp add: sim_def)
  have cost: "0 < cost" using c by (force simp: costs_ok_def dest: map_of_SomeD)
  have "oracles_ok g ?est ?wait (ge_request ` set events)"
    unfolding oracles_ok_def
    using estimate_ok [OF g(1) _ _ _ c(2) cost] remaining_wait_ok [OF E gr(3,2)] by blast
  moreover have fresh: "current_time queue = 0" using queue by (auto simp: RecoveryQueue_new_def split: if_splits)
  then have "\<forall>e\<in>set events. current_time queue \<le> ge_time e" using E unfolding schedule_valid_def by simp
  moreover have ok: "queue_ok queue" using queue_ok_new [OF queue q(2)] .
  ultimately obtain metrics sim' where run: "ClusterSimulator_Run sim events (Some ?wait) = Inr (metrics, sim')"
    using Run_cluster_total [of sim events ?wait] gr(1) E by (auto simp: sim_def)
  have s: "graph_ok (cs_graph sim)" "queue_ok (cs_queue sim)" "cs_graph sim = g" using gr(1) ok by (simp_all add: sim_def)
  note all = Run_cluster [OF s(1,2) run]
  show thesis
  proof (rule that)
    show "RunCodedStrategy g events concurrency queue_depth shard_size costs = Inr metrics"
      using queue sim run gr(2) by (simp add: RunCodedStrategy_def)
    show "omap_ok metrics" by (rule Run_metrics_ok [OF run])
    show "fst ` set metrics = ge_request ` set events" using all by blast
    fix r x e
    assume x: "(r, x) \<in> set metrics" and e: "e \<in> set events" "ge_request e = r"
    then obtain recovery where "metrics_for (natural_time g events r) (ge_start e) recovery x" using all s(3) by blast
    then have "latency x \<le> natural_time g events r - ge_start e" by (auto simp: metrics_for_def split: option.splits)
    then show "latency x \<le> completion_time events k r - ge_start e"
      using natural_le_completion [OF E e(1) gr(3,2) g(2)] e(2) by simp
  qed
qed

section \<open>Percentiles\<close>

lemma sorted_nth_le_iff:
  "sorted xs \<Longrightarrow> i < length xs \<Longrightarrow> xs ! i \<le> x \<longleftrightarrow> i < length (filter (\<lambda>y. y \<le> x) xs)" for x :: "'a :: linorder"
proof (induction xs arbitrary: i)
  case (Cons y ys)
  show ?case
  proof (cases "y \<le> x")
    case True
    then show ?thesis using Cons by (cases i) auto
  next
    case False
    then have "filter (\<lambda>y. y \<le> x) (y # ys) = []" using Cons.prems(1) by (auto simp: filter_empty_conv)
    moreover have "\<not> (y # ys) ! i \<le> x" using False Cons.prems by (cases i) (auto dest!: nth_mem)
    ultimately show ?thesis by simp
  qed
qed simp

text \<open>Sorting preserves a pointwise order.\<close>

lemma filter_pointwise:
  "list_all2 (\<le>) xs ys \<Longrightarrow> length (filter (\<lambda>y. y \<le> x) ys) \<le> length (filter (\<lambda>y. y \<le> x) xs)" for x :: "'a :: linorder"
  by (induction rule: list_all2_induct) auto

lemma sort_pointwise:
  fixes xs :: "'a :: linorder list"
  assumes "list_all2 (\<le>) xs ys" "i < length xs"
  shows "sort xs ! i \<le> sort ys ! i"
proof -
  let ?x = "sort ys ! i"
  have len: "length ys = length xs" using assms(1) by (simp add: list_all2_lengthD)
  have "i < length (filter (\<lambda>y. y \<le> ?x) (sort ys))"
    using sorted_nth_le_iff [of "sort ys" i ?x] assms(2) len by simp
  also have "\<dots> = length (filter (\<lambda>y. y \<le> ?x) ys)" by (simp add: filter_sort)
  also have "\<dots> \<le> length (filter (\<lambda>y. y \<le> ?x) xs)"
    by (rule filter_pointwise [OF assms(1)])
  also have "\<dots> = length (filter (\<lambda>y. y \<le> ?x) (sort xs))" by (simp add: filter_sort)
  finally show ?thesis using sorted_nth_le_iff [of "sort xs" i ?x] assms(2) by simp
qed

definition percentile_rank :: "(real \<Rightarrow> real) \<Rightarrow> nat \<Rightarrow> real \<Rightarrow> nat" where
  "percentile_rank rd n p = max 1 (nat \<lceil>rd (p * rd (of_nat n))\<rceil>) - 1"

lemma percentile_rank_less:
  assumes "double_ok rd" "0 < n" "n \<le> 2 ^ 53" "p \<le> 1"
  shows "percentile_rank rd n p < n"
proof -
  have n: "rd (of_nat n) = of_nat n" using assms(1,3) by (simp add: double_ok_def)
  have "p * of_nat n \<le> of_nat n" using assms(2,4) by (simp add: mult_left_le_one_le mult_le_cancel_right1)
  then have "rd (p * of_nat n) \<le> rd (of_nat n)" using assms(1) by (auto simp: double_ok_def mono_def)
  then have "rd (p * rd (of_nat n)) \<le> of_nat n" using n by simp
  then have "\<lceil>rd (p * rd (of_nat n))\<rceil> \<le> int n" by (simp add: ceiling_le_iff)
  then have "nat \<lceil>rd (p * rd (of_nat n))\<rceil> \<le> n" by linarith
  then have "max 1 (nat \<lceil>rd (p * rd (of_nat n))\<rceil>) \<le> n" using assms(2) by (intro max.boundedI) linarith
  then show ?thesis using assms(2) unfolding percentile_rank_def by linarith
qed

lemma percentile_rank_mono:
  assumes "double_ok rd" "n \<le> 2 ^ 53" "p \<le> q"
  shows "percentile_rank rd n p \<le> percentile_rank rd n q"
proof -
  have "rd (of_nat n) = of_nat n" using assms(1,2) by (simp add: double_ok_def)
  then have "p * rd (of_nat n) \<le> q * rd (of_nat n)" using assms(3) by (simp add: mult_right_mono)
  then have "rd (p * rd (of_nat n)) \<le> rd (q * rd (of_nat n))" using assms(1) by (auto simp: double_ok_def mono_def)
  then have "nat \<lceil>rd (p * rd (of_nat n))\<rceil> \<le> nat \<lceil>rd (q * rd (of_nat n))\<rceil>" by (intro nat_mono ceiling_mono)
  then show ?thesis unfolding percentile_rank_def by linarith
qed

lemma Percentile_Inr:
  assumes "double_ok rd" "vals \<noteq> []" "length vals \<le> 2 ^ 53" "p \<le> 1"
  shows "Percentile rd vals p = Inr (sort vals ! percentile_rank rd (length vals) p)"
  using percentile_rank_less [OF assms(1) _ assms(3,4)] assms(2) by (simp add: Percentile_def percentile_rank_def Let_def)

lemma double_le_1: "double_ok rd \<Longrightarrow> x \<le> 1 \<Longrightarrow> rd x \<le> 1"
proof -
  assume a: "double_ok rd" "x \<le> 1"
  then have "rd (of_nat 1) = of_nat 1" unfolding double_ok_def by (metis one_le_numeral one_le_power)
  moreover have "rd x \<le> rd 1" using a by (auto simp: double_ok_def mono_def)
  ultimately show ?thesis by simp
qed

definition latencies :: "(RequestId, RequestMetrics) omap \<Rightarrow> int list" where
  "latencies metrics = map (\<lambda>(r, m). latency m) metrics"

lemma Summarize_Inr:
  assumes "double_ok rd" "metrics \<noteq> []" "length metrics \<le> 2 ^ 53"
  obtains summary where "Summarize rd metrics = Inr summary"
    "p50_us summary = sort (latencies metrics) ! percentile_rank rd (length metrics) (rd (50 / 100))"
    "p95_us summary = sort (latencies metrics) ! percentile_rank rd (length metrics) (rd (95 / 100))"
    "p99_us summary = sort (latencies metrics) ! percentile_rank rd (length metrics) (rd (99 / 100))"
proof -
  have p: "rd (50 / 100) \<le> 1" "rd (95 / 100) \<le> 1" "rd (99 / 100) \<le> 1" using double_le_1 [OF assms(1)] by simp_all
  have "Percentile rd (latencies metrics) (rd (q / 100)) = Inr (sort (latencies metrics) ! percentile_rank rd (length metrics) (rd (q / 100)))"
    if "rd (q / 100) \<le> 1" for q
    using Percentile_Inr [OF assms(1) _ _ that, of "latencies metrics"] assms(2,3) by (simp add: latencies_def)
  from this [OF p(1)] this [OF p(2)] this [OF p(3)] that show thesis
    by (simp add: Summarize_def Let_def latencies_def)
qed

text \<open>What a printed summary satisfies, and when one strategy beats another at every percentile.\<close>

definition ordered_summary :: "ExperimentSummary \<Rightarrow> bool" where
  "ordered_summary s \<longleftrightarrow> p50_us s \<le> p95_us s \<and> p95_us s \<le> p99_us s"

definition at_most :: "ExperimentSummary \<Rightarrow> ExperimentSummary \<Rightarrow> bool" where
  "at_most s s' \<longleftrightarrow> p50_us s \<le> p50_us s' \<and> p95_us s \<le> p95_us s' \<and> p99_us s \<le> p99_us s'"

text \<open>The requests of two strategies are the same, and no request is slower in the first.\<close>

definition no_slower :: "(RequestId, RequestMetrics) omap \<Rightarrow> (RequestId, RequestMetrics) omap \<Rightarrow> bool" where
  "no_slower ms ms' \<longleftrightarrow> omap_ok ms \<and> omap_ok ms' \<and> fst ` set ms = fst ` set ms' \<and>
     (\<forall>r m m'. (r, m) \<in> set ms \<longrightarrow> (r, m') \<in> set ms' \<longrightarrow> latency m \<le> latency m')"

lemma omap_same_keys:
  assumes "omap_ok m" "omap_ok m'" "fst ` set m = fst ` set m'"
  shows "map fst m = map fst m'"
  using assms by (intro strict_sorted_equal) (auto simp: omap_ok_def)

lemma no_slower_latencies:
  assumes "no_slower ms ms'"
  shows "length ms = length ms'" "list_all2 (\<le>) (latencies ms) (latencies ms')"
proof -
  have keys: "map fst ms = map fst ms'" using assms omap_same_keys by (auto simp: no_slower_def)
  then show len: "length ms = length ms'" by (metis length_map)
  show "list_all2 (\<le>) (latencies ms) (latencies ms')"
    unfolding list_all2_conv_all_nth
  proof (intro conjI allI impI)
    show "length (latencies ms) = length (latencies ms')" using len by (simp add: latencies_def)
    fix i assume "i < length (latencies ms)"
    then have i: "i < length ms" "i < length ms'" using len by (simp_all add: latencies_def)
    then have "fst (ms ! i) = fst (ms' ! i)" using keys by (metis nth_map)
    moreover have "ms ! i \<in> set ms" "ms' ! i \<in> set ms'" using i by simp_all
    ultimately have "latency (snd (ms ! i)) \<le> latency (snd (ms' ! i))"
      using assms unfolding no_slower_def by (metis prod.collapse)
    then show "latencies ms ! i \<le> latencies ms' ! i" using i by (simp add: latencies_def case_prod_beta)
  qed
qed

lemma Summarize_no_slower:
  assumes rd: "double_ok rd" and ms: "no_slower ms ms'" "ms' \<noteq> []" "length ms' \<le> 2 ^ 53"
  obtains s s' where "Summarize rd ms = Inr s" "Summarize rd ms' = Inr s'" "ordered_summary s" "ordered_summary s'" "at_most s s'"
proof -
  note l = no_slower_latencies [OF ms(1)]
  have ne: "ms \<noteq> []" "length ms \<le> 2 ^ 53" using ms(2,3) l(1) by auto
  obtain s where s: "Summarize rd ms = Inr s"
    "p50_us s = sort (latencies ms) ! percentile_rank rd (length ms) (rd (50 / 100))"
    "p95_us s = sort (latencies ms) ! percentile_rank rd (length ms) (rd (95 / 100))"
    "p99_us s = sort (latencies ms) ! percentile_rank rd (length ms) (rd (99 / 100))" by (rule Summarize_Inr [OF rd ne])
  obtain s' where s': "Summarize rd ms' = Inr s'"
    "p50_us s' = sort (latencies ms') ! percentile_rank rd (length ms') (rd (50 / 100))"
    "p95_us s' = sort (latencies ms') ! percentile_rank rd (length ms') (rd (95 / 100))"
    "p99_us s' = sort (latencies ms') ! percentile_rank rd (length ms') (rd (99 / 100))" by (rule Summarize_Inr [OF rd ms(2,3)])
  have le: "rd (50 / 100) \<le> rd (95 / 100)" "rd (95 / 100) \<le> rd (99 / 100)"
    using rd by (auto simp: double_ok_def mono_def)
  have rank: "percentile_rank rd (length ms) (rd (q / 100)) < length ms" if "q \<le> 100" for q
    using percentile_rank_less [OF rd _ ne(2) double_le_1 [OF rd]] ne(1) that by simp
  have mono: "sort (latencies xs) ! percentile_rank rd (length ms) a \<le> sort (latencies xs) ! percentile_rank rd (length ms) b"
    if "a \<le> b" "percentile_rank rd (length ms) b < length ms" "length xs = length ms" for a b xs
    using percentile_rank_mono [OF rd ne(2) that(1)] that(2,3) by (intro sorted_nth_mono) (simp_all add: latencies_def)
  have "ordered_summary s" "ordered_summary s'"
    using mono [OF le(1) rank] mono [OF le(2) rank] s s' l(1) by (simp_all add: ordered_summary_def)
  moreover have below: "sort (latencies ms) ! percentile_rank rd (length ms) (rd (q / 100))
      \<le> sort (latencies ms') ! percentile_rank rd (length ms) (rd (q / 100))" if "q \<le> 100" for q
    using sort_pointwise [OF l(2)] rank [OF that] by (simp add: latencies_def)
  have "at_most s s'"
    using below [of 50] below [of 95] below [of 99] s s' l(1) by (simp add: at_most_def)
  ultimately show thesis using that s(1) s'(1) by blast
qed

section \<open>The rows of a sweep\<close>

text \<open>
  What identifies a row, and the rows that a sweep has to print: for every seed, arrival rate, straggler probability, parity
  count, degree, shard size, queue depth and concurrency limit of the options, in the order of the options, one row for each
  strategy with the shards that it adds.
\<close>

type_synonym RowKey = "string \<times> 32 word \<times> WorkloadConfig \<times> nat \<times> nat \<times> nat \<times> nat \<times> nat \<times> nat \<times> string \<times> nat"

definition row_key :: "SweepRow \<Rightarrow> RowKey" where
  "row_key row = (row_scenario row, row_seed row, row_workload row, row_systematic row, row_parity row, row_degree row,
     row_shard_size row, row_queue_depth row, row_concurrency row, row_strategy row, row_added row)"

definition strategies :: "nat \<Rightarrow> (string \<times> nat) list" where
  "strategies parity = [(''wait'', 0), (''replication_capacity_normalized'', parity), (''replication_full'', 16), (''codedllm'', parity)]"

definition combinations :: "SweepOptions \<Rightarrow> RowKey list" where
  "combinations opts =
     [(scenario opts, base_seed opts + of_nat i, sweep_workload opts (base_seed opts + of_nat i) rate probability, 16, parity,
       degree, shard_size, queue_depth, concurrency, strategy, added).
      i \<leftarrow> [0..<seed_count opts], rate \<leftarrow> arrival_rates_hz opts, probability \<leftarrow> straggler_probabilities opts,
      parity \<leftarrow> parity_counts opts, degree \<leftarrow> degrees opts, shard_size \<leftarrow> shard_sizes_mib opts,
      queue_depth \<leftarrow> queue_depths opts, concurrency \<leftarrow> concurrency_limits opts, (strategy, added) \<leftarrow> strategies parity]"

text \<open>
  Rows come in groups of four, waiting first, with ordered percentiles, and no strategy of a group is slower than waiting at
  any printed percentile.
\<close>

fun groups_ok :: "SweepRow list \<Rightarrow> bool" where
  "groups_ok [] = True"
| "groups_ok (w # c # f # d # rest) =
     ((\<forall>row\<in>set [w, c, f, d]. ordered_summary (row_summary row) \<and> at_most (row_summary row) (row_summary w)) \<and> groups_ok rest)"
| "groups_ok _ = False"

lemma groups_ok_append: "groups_ok xs \<Longrightarrow> groups_ok ys \<Longrightarrow> groups_ok (xs @ ys)"
  by (induction xs rule: groups_ok.induct) simp_all

lemma for_rows_ok:
  assumes "\<And>x. x \<in> set xs \<Longrightarrow> \<exists>new. body x = Inr new \<and> groups_ok new \<and> map row_key new = keys x"
  shows "\<exists>rows. for_rows body xs = Inr rows \<and> groups_ok rows \<and> map row_key rows = concat (map keys xs)"
proof -
  define I where "I done rows \<longleftrightarrow> groups_ok rows \<and> map row_key rows = concat (map keys done)" for "done" :: "'a list" and rows
  have "\<exists>rows. foldE (\<lambda>x rows. bindE (body x) (\<lambda>new. Inr (rows @ new))) xs [] = Inr rows \<and> I xs rows"
  proof (rule foldE_total)
    show "I [] []" by (simp add: I_def)
    fix pre x rest rows
    assume e: "xs = pre @ x # rest" and inv: "I pre rows"
    have "x \<in> set xs" by (simp add: e)
    from assms [OF this] inv
    show "\<exists>v. bindE (body x) (\<lambda>new. Inr (rows @ new)) = Inr v \<and> I (pre @ [x]) v"
      by (auto simp: I_def groups_ok_append)
  qed
  then show ?thesis by (auto simp: for_rows_def I_def)
qed

text \<open>The rows of one group.\<close>

definition group_keys :: "SweepPoint \<Rightarrow> nat \<Rightarrow> nat \<Rightarrow> nat \<Rightarrow> nat \<Rightarrow> RowKey list" where
  "group_keys point degree shard_size queue_depth concurrency =
     map (\<lambda>(strategy, added). (pt_scenario point, pt_seed point, pt_workload point, 16, pt_parity point, degree, shard_size,
       queue_depth, concurrency, strategy, added)) (strategies (pt_parity point))"

lemma hastened_completion:
  assumes "list_all2 (hastened R) events events'" "systematic_times events' k r \<noteq> {}"
  shows "completion_time events' k r \<le> completion_time events k r"
  unfolding completion_time_def
proof (subst Max_le_iff)
  show "\<forall>t\<in>systematic_times events' k r. t \<le> Max (systematic_times events k r)"
  proof
    fix t assume "t \<in> systematic_times events' k r"
    then obtain e' where e': "e' \<in> set events'" "t = ge_time e'" "ge_request e' = r" "unat (ge_shard e') < k"
      by (auto simp: systematic_times_def)
    obtain e where e: "e \<in> set events" "hastened R e e'" using list_all2_mem(1) [OF assms(1) e'(1)] by blast
    then have "ge_time e \<in> systematic_times events k r" "t \<le> ge_time e"
      using e' by (auto simp: systematic_times_def hastened_def event_of_def)
    moreover have "finite (systematic_times events k r)" by (simp add: systematic_times_def)
    ultimately show "t \<le> Max (systematic_times events k r)" by (meson Max_ge order_trans)
  qed
qed (use assms(2) in \<open>auto simp: systematic_times_def\<close>)

lemma hastened_requests:
  assumes "list_all2 (hastened R) events events'"
  shows "ge_request ` set events' = ge_request ` set events"
proof -
  have "map ge_request events' = map ge_request events"
    using assms by (induction rule: list_all2_induct) (auto simp: hastened_def event_of_def)
  then show ?thesis by (metis list.set_map)
qed

text \<open>A graph with the given counts; validity of a schedule depends on nothing else.\<close>

definition counts :: "nat \<Rightarrow> nat \<Rightarrow> BipartiteGraph" where
  "counts k m = \<lparr>systematic_shard_count = k, parity_shard_count = m, parity_to_systematic = []\<rparr>"

lemma schedule_valid_counts:
  "schedule_valid g events \<longleftrightarrow> schedule_valid (counts (systematic_shard_count g) (parity_shard_count g)) events"
  by (simp add: schedule_valid_def counts_def)

definition wait_metrics :: "GlobalArrivalEvent list \<Rightarrow> nat \<Rightarrow> (RequestId, RequestMetrics) omap \<Rightarrow> bool" where
  "wait_metrics events k metrics \<longleftrightarrow> omap_ok metrics \<and> fst ` set metrics = ge_request ` set events \<and>
     (\<forall>(r, m)\<in>set metrics. \<forall>e\<in>set events. ge_request e = r \<longrightarrow> latency m = completion_time events k r - ge_start e)"

lemma wait_metrics_exists:
  assumes "schedule_valid (counts k m) events" "0 < k"
  shows "\<exists>metrics. RunBaseline events k = Inr metrics \<and> wait_metrics events k metrics"
proof -
  obtain metrics where "RunBaseline events k = Inr metrics" "omap_ok metrics" "fst ` set metrics = ge_request ` set events"
    "\<And>r m e. (r, m) \<in> set metrics \<Longrightarrow> e \<in> set events \<Longrightarrow> ge_request e = r \<Longrightarrow>
       latency m = completion_time events k r - ge_start e"
    using RunBaseline_spec [OF assms(1), of k] assms(2) by (auto simp: counts_def)
  then show ?thesis by (auto simp: wait_metrics_def)
qed

lemma hastened_no_slower:
  assumes h: "list_all2 (hastened R) events events'"
    and v: "schedule_valid (counts k m) events'" "0 < k"
    and w: "wait_metrics events k ms" "wait_metrics events' k ms'"
  shows "no_slower ms' ms"
  unfolding no_slower_def
proof (intro conjI allI impI)
  show "omap_ok ms'" "omap_ok ms" using w by (simp_all add: wait_metrics_def)
  show "fst ` set ms' = fst ` set ms" using w hastened_requests [OF h] by (simp add: wait_metrics_def)
  fix r x' x
  assume x: "(r, x') \<in> set ms'" "(r, x) \<in> set ms"
  then have "r \<in> ge_request ` set events'" using w(2) unfolding wait_metrics_def by force
  then obtain e' where e': "e' \<in> set events'" "ge_request e' = r" by blast
  then obtain e where e: "e \<in> set events" "hastened R e e'" using list_all2_mem(1) [OF h] by blast
  then have same: "ge_request e = r" "ge_start e = ge_start e'" using e'(2) by (simp_all add: hastened_def event_of_def)
  have "systematic_times events' k r \<noteq> {}"
    using schedule_valid_times [OF v(1) e'(1), of k] v(2) e'(2) by (simp add: counts_def)
  from hastened_completion [OF h this] show "latency x' \<le> latency x"
    using w x e e' same unfolding wait_metrics_def by fastforce
qed

definition point_ok :: "nat \<Rightarrow> nat \<Rightarrow> SweepPoint \<Rightarrow> bool" where
  "point_ok k n point \<longleftrightarrow> schedule_valid (counts k (pt_parity point)) (pt_events point) \<and>
     wait_metrics (pt_events point) k (pt_wait point) \<and> no_slower (pt_capacity point) (pt_wait point) \<and>
     no_slower (pt_full point) (pt_wait point) \<and> length (pt_wait point) = n"

lemma no_slower_refl: "omap_ok ms \<Longrightarrow> no_slower ms ms"
  using om.entry_iff_find [of ms] by (auto simp: no_slower_def)

lemma Generate_requests:
  assumes "map event_of events = List.product [0..<n] (map of_nat [0..<k])" "0 < k"
  shows "ge_request ` set events = {0..<n}"
proof -
  have "ge_request ` set events = fst ` set (map event_of events)" by (auto simp: event_of_def image_iff)
  also have "\<dots> = {0..<n}" using assms(2) by (auto simp: assms(1) image_iff)
  finally show ?thesis .
qed

text \<open>What a sweep takes from its options and draws: the vectors hold the events, and no time gets too large.\<close>

definition point_fits :: "('g, 'n) RandomLibrary \<Rightarrow> WorkloadConfig \<Rightarrow> nat \<Rightarrow> bool" where
  "point_fits lib workload parity \<longleftrightarrow> vectors_fit lib (wc_num_requests workload) (kSystematicShards + parity) \<and>
     (\<forall>salt\<in>{kDelaySeedSalt, kCapacityReplicationSeedSalt, kFullReplicationSeedSalt}.
       times_fit lib workload (wc_num_requests workload * (kSystematicShards + parity)) (wc_seed workload XOR salt))"

lemma make_point_ok:
  assumes lib: "random_ok lib" and opts: "options_valid opts" and rate: "rate \<in> set (arrival_rates_hz opts)"
    and probability: "probability \<in> set (straggler_probabilities opts)" and m: "m \<in> set (parity_counts opts)"
    and fits: "point_fits lib (sweep_workload opts seed rate probability) m"
  shows "\<exists>point. make_point lib opts seed rate probability m = Inr point \<and>
    point_ok kSystematicShards (num_requests opts) point \<and> pt_parity point = m \<and> pt_scenario point = scenario opts \<and>
    pt_seed point = seed \<and> pt_workload point = sweep_workload opts seed rate probability"
proof -
  let ?k = kSystematicShards and ?w = "sweep_workload opts seed rate probability" and ?g = "counts kSystematicShards m"
  have k: "0 < ?k" "?k < 2 ^ 32" and m16: "m \<le> ?k" using opts m by (auto simp: kSystematicShards_def options_valid_def)
  have w: "ValidateConfig ?w = Inr ()" "wc_num_requests ?w = num_requests opts"
    using opts rate probability by (auto simp: ValidateConfig_iff sweep_workload_def options_valid_def options_shape_def)
  obtain wg where wg: "WorkloadGenerator_new ?w (systematic_shard_count ?g) m = Inr wg"
    using w(1) k m16 by (auto simp: WorkloadGenerator_new_iff counts_def kSystematicShards_def)
  have small: "systematic_shard_count ?g + m < 2 ^ 64" "systematic_shard_count ?g + parity_shard_count ?g \<le> 2 ^ 32"
    using m16 by (simp_all add: counts_def kSystematicShards_def)
  let ?n = "num_requests opts * (?k + m)"
  have vectors: "vectors_fit lib (wc_num_requests ?w) (systematic_shard_count ?g + m)" and held: "wc_num_requests ?w \<le> max_arrivals lib"
    using fits by (simp_all add: point_fits_def counts_def vectors_fit_def)
  have times: "times_fit lib ?w ?n (seed XOR kDelaySeedSalt)" "times_fit lib ?w ?n (seed XOR kCapacityReplicationSeedSalt)"
      "times_fit lib ?w ?n (seed XOR kFullReplicationSeedSalt)"
    using fits w(2) by (simp_all add: point_fits_def sweep_workload_def)
  have drawn: "times_fit lib ?w (wc_num_requests ?w * (systematic_shard_count ?g + m)) (wc_seed ?w XOR kDelaySeedSalt)"
    using times(1) w(2) by (simp add: counts_def sweep_workload_def)
  have parity: "m \<le> parity_shard_count ?g" by (simp add: counts_def)
  obtain events where ev: "Generate lib wg = Inr events" "schedule_valid ?g events"
      "map event_of events = List.product [0..<num_requests opts] (map of_nat [0..<systematic_shard_count ?g + m])"
      and starts: "\<forall>e\<in>set events. ge_start e = request_arrival_times lib ?w ! ge_request e \<and> ge_start e \<le> ge_time e \<and> ge_time e < 2 ^ 63"
    by (rule Generate_schedule [OF lib wg parity small(2) vectors drawn, unfolded w(2)])
  have n: "length events \<le> ?n"
    using arg_cong [OF ev(3), of length] by (simp add: length_product counts_def)
  have reqs: "ge_request ` set events = {0..<num_requests opts}"
    using Generate_requests [OF ev(3)] k by (simp add: counts_def)
  have match: "matches_schedule (request_arrival_times lib ?w) events"
    unfolding matches_schedule_def using starts reqs w(2) by auto
  have pos: "\<forall>e\<in>set events. 0 \<le> ge_start e"
    using match request_arrivals(2) [OF lib w(1) times(1)] unfolding matches_schedule_def by (metis nth_mem)
  obtain cap where cap: "ApplyCapacityNormalizedReplication lib events ?w ?k m (seed XOR kCapacityReplicationSeedSalt) = Inr cap"
      "list_all2 (hastened (replicated_shard (replica_order lib ?k (seed XOR kCapacityReplicationSeedSalt)) ?k m)) events cap"
    by (rule ApplyCapacity_ok [OF lib w(1) k m16 held match times(2) n])
  obtain full where full: "ApplyReplication lib events ?w ?k (seed XOR kFullReplicationSeedSalt) = Inr full"
      "list_all2 (hastened (\<lambda>e. unat (ge_shard e) < ?k)) events full"
    by (rule ApplyReplication_ok [OF w(1) k held match times(3) n])
  note vcap = hastened_schedule [OF ev(2) cap(2) pos] and vfull = hastened_schedule [OF ev(2) full(2) pos]
  obtain mw mc mf where base: "RunBaseline events ?k = Inr mw" "wait_metrics events ?k mw"
      "RunBaseline cap ?k = Inr mc" "wait_metrics cap ?k mc" "RunBaseline full ?k = Inr mf" "wait_metrics full ?k mf"
    using wait_metrics_exists [OF ev(2) k(1)] wait_metrics_exists [OF vcap k(1)] wait_metrics_exists [OF vfull k(1)] by blast
  define point where "point = \<lparr>pt_scenario = scenario opts, pt_seed = seed, pt_workload = ?w, pt_parity = m, pt_events = events, pt_wait = mw,
     pt_capacity = mc, pt_full = mf\<rparr>"
  have "make_point lib opts seed rate probability m = Inr point"
    using wg ev(1) cap(1) full(1) base(1,3,5) by (simp add: make_point_def Let_def point_def counts_def)
  moreover have "length mw = num_requests opts"
  proof -
    have "distinct (map fst mw)" using base(2) om.distinct_keys [of mw] by (simp add: wait_metrics_def)
    then have "length mw = card (fst ` set mw)" using distinct_card [of "map fst mw"] by simp
    then show ?thesis using base(2) reqs by (simp add: wait_metrics_def)
  qed
  then have "point_ok ?k (num_requests opts) point"
    using ev(2) base hastened_no_slower [OF cap(2) vcap k(1) base(2,4)] hastened_no_slower [OF full(2) vfull k(1) base(2,6)]
    by (simp add: point_ok_def point_def)
  ultimately show ?thesis by (intro exI [of _ point]) (simp add: point_def)
qed

text \<open>The coded strategy is never slower than waiting: it falls back on the systematic arrivals.\<close>

lemma coded_no_slower:
  assumes g: "regular_graph k m degree g" "k < 2 ^ 32" and E: "schedule_valid (counts k m) events"
    and c: "costs_ok costs" "omap_find costs (degree, shard_size) = Some cost"
    and q: "0 < concurrency" "queue_depth < 2 ^ 64" and w: "wait_metrics events k waited"
  shows "\<exists>coded. RunCodedStrategy g events concurrency queue_depth shard_size costs = Inr coded \<and> no_slower coded waited"
proof -
  have "schedule_valid g events" using E g(1) schedule_valid_counts [of g events] by (simp add: regular_graph_def)
  from RunCodedStrategy_spec [OF g this c q] obtain coded where
    coded: "RunCodedStrategy g events concurrency queue_depth shard_size costs = Inr coded"
    "omap_ok coded" "fst ` set coded = ge_request ` set events"
    "\<And>r m e. (r, m) \<in> set coded \<Longrightarrow> e \<in> set events \<Longrightarrow> ge_request e = r \<Longrightarrow>
       latency m \<le> completion_time events k r - ge_start e" by blast
  have "latency x \<le> latency x'" if x: "(r, x) \<in> set coded" "(r, x') \<in> set waited" for r x x'
  proof -
    have "r \<in> ge_request ` set events" using x(1) coded(3) by force
    then obtain e where "e \<in> set events" "ge_request e = r" by blast
    then show ?thesis using coded(4) [OF x(1)] w x(2) unfolding wait_metrics_def by fastforce
  qed
  then show ?thesis using coded(1-3) w by (auto simp: no_slower_def wait_metrics_def)
qed

lemma for_rows_strategies:
  assumes "\<And>strategy added metrics. metrics \<in> {mw, mc, mf, md} \<Longrightarrow>
    \<exists>s. Summarize rd metrics = Inr s \<and> ordered_summary s \<and> (\<forall>s'. Summarize rd mw = Inr s' \<longrightarrow> at_most s s')"
  shows "\<exists>rows. for_rows (\<lambda>(strategy, added, metrics). PrintRow rd point degree shard_size queue_depth concurrency strategy added metrics)
       [(''wait'', 0, mw), (''replication_capacity_normalized'', pt_parity point, mc), (''replication_full'', kSystematicShards, mf),
        (''codedllm'', pt_parity point, md)]
      = Inr rows \<and> groups_ok rows \<and> map row_key rows = group_keys point degree shard_size queue_depth concurrency"
proof -
  obtain sw where w: "Summarize rd mw = Inr sw" "ordered_summary sw" "at_most sw sw" using assms [of mw] by auto
  obtain sc where c: "Summarize rd mc = Inr sc" "ordered_summary sc" "at_most sc sw" using assms [of mc] w(1) by auto
  obtain sf where f: "Summarize rd mf = Inr sf" "ordered_summary sf" "at_most sf sw" using assms [of mf] w(1) by auto
  obtain sd where d: "Summarize rd md = Inr sd" "ordered_summary sd" "at_most sd sw" using assms [of md] w(1) by auto
  show ?thesis using w c f d
    by (simp add: for_rows_def PrintRow_def row_key_def group_keys_def strategies_def kSystematicShards_def)
qed

lemma sweep_strategies_ok:
  assumes rd: "double_ok rd" and p: "point_ok k n point" "0 < n" "n \<le> 2 ^ 53"
    and g: "regular_graph k (pt_parity point) degree g" "k < 2 ^ 32"
    and c: "costs_ok costs" "omap_find costs (degree, shard_size) = Some cost"
    and q: "0 < concurrency" "queue_depth < 2 ^ 64"
  shows "\<exists>rows. sweep_strategies rd costs point g degree shard_size queue_depth concurrency = Inr rows \<and>
    groups_ok rows \<and> map row_key rows = group_keys point degree shard_size queue_depth concurrency"
proof -
  let ?w = "pt_wait point"
  from coded_no_slower [OF g _ c q, of "pt_events point" ?w] p(1) obtain coded where
    coded: "RunCodedStrategy g (pt_events point) concurrency queue_depth shard_size costs = Inr coded" "no_slower coded ?w"
    by (auto simp: point_ok_def)
  have w: "?w \<noteq> []" "length ?w \<le> 2 ^ 53" using p by (auto simp: point_ok_def)
  have all: "no_slower metrics ?w" if "metrics \<in> {?w, pt_capacity point, pt_full point, coded}" for metrics
    using that p(1) coded(2) no_slower_refl [of ?w] by (auto simp: point_ok_def wait_metrics_def)
  have "\<exists>s. Summarize rd metrics = Inr s \<and> ordered_summary s \<and> (\<forall>s'. Summarize rd ?w = Inr s' \<longrightarrow> at_most s s')"
    if "metrics \<in> {?w, pt_capacity point, pt_full point, coded}" for metrics
    using Summarize_no_slower [OF rd all [OF that] w] by (metis sum.inject(2))
  from for_rows_strategies [OF this] show ?thesis by (simp add: sweep_strategies_def coded(1))
qed

lemma sweep_code_ok:
  assumes lib: "permuting (std_shuffle lib)" and rd: "double_ok rd" and opts: "options_valid opts"
    and p: "point_ok kSystematicShards (num_requests opts) point" "num_requests opts \<le> 2 ^ 53"
    and m: "pt_parity point \<in> set (parity_counts opts)" and d: "degree \<in> set (degrees opts)"
    and c: "costs_ok costs" "omap_find costs (degree, shard_size) = Some cost"
  shows "\<exists>rows. sweep_code lib rd opts costs point degree shard_size = Inr rows \<and> groups_ok rows \<and>
    map row_key rows = concat (map (\<lambda>queue_depth. concat (map (\<lambda>concurrency.
      group_keys point degree shard_size queue_depth concurrency) (concurrency_limits opts))) (queue_depths opts))"
proof -
  let ?seed = "pt_seed point XOR kGraphSeedSalt XOR of_nat (pt_parity point) XOR of_nat degree"
  let ?generate = "GenerateRegularGraph (mt19937 lib) (std_shuffle lib) kSystematicShards (pt_parity point) degree ?seed"
  have dims: "0 < pt_parity point" "pt_parity point \<le> 16" "0 < degree" "degree \<le> 16"
    using opts m d by (auto simp: options_valid_def options_shape_def kSystematicShards_def)
  then obtain g where gen: "?generate = Inr g"
    using GenerateRegularGraph_iff [of "mt19937 lib" "std_shuffle lib" kSystematicShards "pt_parity point" degree ?seed]
    by (auto simp: kSystematicShards_def)
  have g: "regular_graph kSystematicShards (pt_parity point) degree g" "kSystematicShards < 2 ^ 32"
    using GenerateRegularGraph_ok [OF lib gen] by (simp_all add: regular_graph_def kSystematicShards_def)
  have n: "0 < num_requests opts" using opts by (simp add: options_valid_def)
  have limits: "0 < concurrency" "queue_depth < 2 ^ 64"
    if "concurrency \<in> set (concurrency_limits opts)" "queue_depth \<in> set (queue_depths opts)" for concurrency queue_depth
    using that opts by (auto simp: options_valid_def options_shape_def)
  have "\<exists>rows. for_rows (\<lambda>queue_depth. for_rows (\<lambda>concurrency.
           sweep_strategies rd costs point g degree shard_size queue_depth concurrency) (concurrency_limits opts))
         (queue_depths opts) = Inr rows \<and> groups_ok rows \<and>
    map row_key rows = concat (map (\<lambda>queue_depth. concat (map (\<lambda>concurrency.
      group_keys point degree shard_size queue_depth concurrency) (concurrency_limits opts))) (queue_depths opts))"
    by (intro for_rows_ok sweep_strategies_ok [OF rd p(1) n p(2) g c] limits)
  then show ?thesis using c(2) gen by (simp add: sweep_code_def Get_cost_def)
qed

text \<open>The loops of \<open>combinations\<close> below one workload.\<close>

lemma combinations_groups:
  "combinations opts = concat (map (\<lambda>i. concat (map (\<lambda>rate. concat (map (\<lambda>probability. concat (map (\<lambda>parity.
     concat (map (\<lambda>degree. concat (map (\<lambda>shard_size. concat (map (\<lambda>queue_depth. concat (map (\<lambda>concurrency.
       map (\<lambda>(strategy, added). (scenario opts, base_seed opts + of_nat i, sweep_workload opts (base_seed opts + of_nat i) rate probability,
         16, parity, degree, shard_size, queue_depth, concurrency, strategy, added)) (strategies parity))
       (concurrency_limits opts))) (queue_depths opts))) (shard_sizes_mib opts))) (degrees opts)))
     (parity_counts opts))) (straggler_probabilities opts))) (arrival_rates_hz opts))) [0..<seed_count opts])"
  by (simp add: combinations_def strategies_def)

definition sweep_fits :: "('g, 'n) RandomLibrary \<Rightarrow> SweepOptions \<Rightarrow> bool" where
  "sweep_fits lib opts \<longleftrightarrow> (\<forall>i\<in>set [0..<seed_count opts]. \<forall>rate\<in>set (arrival_rates_hz opts).
     \<forall>probability\<in>set (straggler_probabilities opts). \<forall>parity\<in>set (parity_counts opts).
       point_fits lib (sweep_workload opts (base_seed opts + of_nat i) rate probability) parity)"

text \<open>
  C35. The sweep is complete. For options \<open>ParseOptions\<close> accepts with at most $2^{53}$ requests (a request count that \<open>double\<close>
  represents), a cost table with an entry for each degree and shard size of the options, vectors that can hold the events and
  draws that keep every generated time below $2^{61}$ microseconds, every run of every strategy returns, under any random
  library and any rounding of \<open>double\<close>. The rows that it prints are, in order, one for every combination of seed, arrival
  rate, straggler probability, parity count, degree, shard size, queue depth and concurrency limit of the options and every
  strategy; each row's percentiles are ordered, and at none of them is a strategy slower than waiting.
\<close>

theorem RunSweep_complete:
  assumes "random_ok lib" "double_ok rd" "options_valid opts" "num_requests opts \<le> 2 ^ 53" "costs_ok costs"
    and "\<forall>degree\<in>set (degrees opts). \<forall>shard_size\<in>set (shard_sizes_mib opts). omap_find costs (degree, shard_size) \<noteq> None"
    and "sweep_fits lib opts"
  shows "\<exists>rows. RunSweep lib rd opts costs = Inr rows \<and> map row_key rows = combinations opts \<and> groups_ok rows"
proof -
  have perm: "permuting (std_shuffle lib)" using assms(1) by (simp add: random_ok_def)
  have point: "\<exists>new. bindE (make_point lib opts (base_seed opts + of_nat i) rate probability m) (\<lambda>point.
           for_rows (\<lambda>degree. for_rows (\<lambda>shard_size. sweep_code lib rd opts costs point degree shard_size)
             (shard_sizes_mib opts)) (degrees opts)) = Inr new \<and> groups_ok new \<and>
      map row_key new = concat (map (\<lambda>degree. concat (map (\<lambda>shard_size. concat (map (\<lambda>queue_depth. concat (map (\<lambda>concurrency.
        map (\<lambda>(strategy, added). (scenario opts, base_seed opts + of_nat i, sweep_workload opts (base_seed opts + of_nat i) rate probability,
          16, m, degree, shard_size, queue_depth, concurrency, strategy, added)) (strategies m))
        (concurrency_limits opts))) (queue_depths opts))) (shard_sizes_mib opts))) (degrees opts))"
    if sets: "i \<in> set [0..<seed_count opts]" "rate \<in> set (arrival_rates_hz opts)" "probability \<in> set (straggler_probabilities opts)"
      "m \<in> set (parity_counts opts)"
    for i rate probability m
  proof -
    have "point_fits lib (sweep_workload opts (base_seed opts + of_nat i) rate probability) m"
      using assms(7) sets unfolding sweep_fits_def by blast
    from make_point_ok [OF assms(1,3) sets(2-4) this] obtain point where
      p: "make_point lib opts (base_seed opts + of_nat i) rate probability m = Inr point"
        "point_ok kSystematicShards (num_requests opts) point" "pt_parity point = m" "pt_scenario point = scenario opts"
        "pt_seed point = base_seed opts + of_nat i" "pt_workload point = sweep_workload opts (base_seed opts + of_nat i) rate probability"
      by blast
    have m: "pt_parity point \<in> set (parity_counts opts)" using p(3) sets(4) by simp
    have "\<exists>rows. for_rows (\<lambda>degree. for_rows (\<lambda>shard_size. sweep_code lib rd opts costs point degree shard_size)
             (shard_sizes_mib opts)) (degrees opts) = Inr rows \<and> groups_ok rows \<and>
      map row_key rows = concat (map (\<lambda>degree. concat (map (\<lambda>shard_size. concat (map (\<lambda>queue_depth. concat (map (\<lambda>concurrency.
        group_keys point degree shard_size queue_depth concurrency)
        (concurrency_limits opts))) (queue_depths opts))) (shard_sizes_mib opts))) (degrees opts))"
    proof (intro for_rows_ok)
      fix degree shard_size
      assume d: "degree \<in> set (degrees opts)" "shard_size \<in> set (shard_sizes_mib opts)"
      then obtain cost where "omap_find costs (degree, shard_size) = Some cost" using assms(6) by blast
      from sweep_code_ok [OF perm assms(2,3) p(2) assms(4) m d(1) assms(5) this]
      show "\<exists>new. sweep_code lib rd opts costs point degree shard_size = Inr new \<and> groups_ok new \<and>
          map row_key new = concat (map (\<lambda>queue_depth. concat (map (\<lambda>concurrency.
            group_keys point degree shard_size queue_depth concurrency) (concurrency_limits opts))) (queue_depths opts))" .
    qed
    then show ?thesis by (simp add: p(1,3-6) group_keys_def)
  qed
  have "\<exists>rows. RunSweep lib rd opts costs = Inr rows \<and> groups_ok rows \<and> map row_key rows = combinations opts"
    unfolding RunSweep_def combinations_groups by (intro for_rows_ok point)
  then show ?thesis by blast
qed

theorem RunSweep_complete_witness:
  "\<exists>rows. RunSweep example_library (\<lambda>x. x) (default_options\<lparr>calibration_csv := ''costs.csv'', degrees := [3, 5]\<rparr>)
       [((3, 16), 250), ((5, 16), 400)] = Inr rows \<and> groups_ok rows \<and> length rows = 160 \<and>
     map row_degree (take 8 rows) = [3, 3, 3, 3, 5, 5, 5, 5]"
proof -
  let ?opts = "default_options\<lparr>calibration_csv := ''costs.csv'', degrees := [3, 5]\<rparr>"
  have "options_valid ?opts"
    by (simp add: options_valid_def options_shape_def default_options_def kSystematicShards_def) (rule exI [of _ "1 / 20"], simp)
  moreover have "double_ok (\<lambda>x. x)" by (simp add: double_ok_def mono_def)
  moreover have "costs_ok [((3, 16), 250), ((5, 16), 400)]" by (simp add: costs_ok_def omap_ok_def)
  moreover have "sweep_fits example_library ?opts"
    unfolding sweep_fits_def point_fits_def
    by (intro ballI conjI example_times_fit)
      (auto simp: vectors_fit_def default_options_def sweep_workload_def kSystematicShards_def example_library_def)
  ultimately obtain rows where rows: "RunSweep example_library (\<lambda>x. x) ?opts [((3, 16), 250), ((5, 16), 400)] = Inr rows"
      "map row_key rows = combinations ?opts" "groups_ok rows"
    using RunSweep_complete [of example_library "\<lambda>x. x" ?opts "[((3, 16), 250), ((5, 16), 400)]", OF example_library_ok]
    by (auto simp: default_options_def)
  have d: "map row_degree rows = map (\<lambda>(_, _, _, _, _, degree, _). degree) (combinations ?opts)"
    unfolding rows(2) [symmetric] by (simp add: row_key_def)
  let ?group = "[3, 3, 3, 3, 5, 5, 5, 5] :: nat list"
  have rd: "map row_degree rows = concat (replicate (Suc 19) ?group)"
    using d by (simp add: combinations_def strategies_def default_options_def map_concat o_def map_replicate_const)
  have "length (map row_degree rows) = 160" unfolding rd by (simp add: length_concat sum_list_replicate del: replicate_Suc)
  moreover have "take 8 (map row_degree rows) = ?group" unfolding rd replicate_Suc by simp
  ultimately have "length rows = 160" "take 8 (map row_degree rows) = ?group" by simp_all
  then show ?thesis using rows(1,3) by (simp add: take_map)
qed

end
