(* ===== verification/Spec2Isabelle.thy ===== *)
theory Spec2Isabelle imports CoreTypes OrderedMap Recovery Policy RecoveryQueue Simulator ClusterSimulator Kernel CudaDecode CudaFaults CudaDirect CudaStaging CudaPrepared Executor ExecutorRuns CudaWorker Coordinator CoordinatorRuns LockOrder CudaServing CoordinatorLifetime CoordinatorOwnership Workload SweepOptions CudaTools Sweep begin

text \<open>
  CodedLLM is a C++/CUDA library for erasure-coded serving: the shards of a tensor are encoded with a sparse XOR
  code, shards that are late or lost are reconstructed from parity shards, and a runtime decides when reconstructing
  is cheaper than waiting. This development models the library, its runtime, its simulators and the parameter sweep
  that evaluates it, and proves what makes each part correct. File and function names are those under \<open>src/\<close>.

  \<^bold>\<open>The program.\<close> A \<^emph>\<open>code graph\<close> gives every parity shard the systematic shards it is the exclusive-or of. A
  \<^emph>\<open>planner\<close> peels: an available parity with one missing neighbour recovers it, until nothing is missing or nothing
  moves; its \<^emph>\<open>decode plan\<close> is a list of XOR operations with their dependencies. A \<^emph>\<open>backend\<close> executes a plan on the
  shard slots, on the CPU or as a sequence of CUDA kernel launches, directly, prepared once and launched many times,
  or on shards staged on the device as they arrive. An \<^emph>\<open>executor\<close> runs staged plans on worker threads behind a bounded
  queue and quotes a price; a \<^emph>\<open>coordinator\<close> receives the arrivals of a transport, asks the \<^emph>\<open>policy\<close> whether
  recovery beats waiting, submits, and merges the outcome. The \<^emph>\<open>simulators\<close> replay the same decisions in virtual
  time, on generated \<^emph>\<open>workloads\<close>, and the \<^emph>\<open>sweep\<close> compares the coded strategy with waiting and replication.

  \<^bold>\<open>The theories\<close>, each imported by the ones that call it:

  \<^item> \<open>Prelude\<close>: exceptions as values (\<open>exn + 'a\<close>, \<open>bindE\<close>, \<open>foldE\<close>, \<open>vec_at\<close>), XOR of shards, the collection
    \<open>exn_simps\<close>. \<open>OrderedMap\<close>: \<open>std::map\<close> as a sorted association list, behind the locale \<open>ordered_map\<close>.
  \<^item> \<open>CoreTypes\<close> (\<open>core/types.hpp\<close>): the shard layout, its multiplication at 64 bits.
  \<^item> \<open>Graph\<close> (\<open>coding/graph\<close>, \<open>plan.hpp\<close>), \<open>Codec\<close> (\<open>coding/codec.cpp\<close>), \<open>Bipartite\<close> (\<open>graph_generator.cpp\<close> and
    \<open>ValidateGraph\<close>): a constructed graph has one equation per parity, encoding computes each equation, a generated
    graph is right-regular and valid, the CPU executor overwrites nothing even when it throws.
  \<^item> \<open>Peeling\<close>: the abstract specifications. \<open>peelable\<close> is the least fixed point of peeling, \<open>xor_run\<close> what XOR
    operations do to slots; the locales \<open>decode_planner\<close> and \<open>decode_backend\<close> are the contracts of a planner and a
    backend, \<open>coded_recovery\<close> their composition. \<open>Planner\<close> (\<open>coding/planner.cpp\<close>) interprets the first on \<open>CreatePlan\<close>:
    it terminates, is complete for \<open>peelable\<close> whatever the traversal order, and its dependencies are exact.
    \<open>Recovery\<close> proves in \<open>coded_recovery\<close>, once for every backend, that encoding, losing, planning and executing
    restores every shard bit for bit.
  \<^item> \<open>Kernel\<close> and \<open>CudaDecode\<close> (\<open>kernels/sparse_decoder.cu\<close>, \<open>kernels/tuning.cuh\<close>, \<open>cpu_reference.cpp\<close>): threads as lists of
    word writes, a launch as any interleaving of them, the launch configuration and its cache, then whole plans. The
    lemmas show that every launch returns, that an interleaving cannot matter and that every path computes what the CPU
    executor computes.
  \<^item> \<open>CudaFaults\<close> (\<open>kernels/cuda_memory.cuh\<close>, \<open>cuda_utils.cuh\<close>, the RAII helpers of \<open>sparse_decoder.cu\<close>): the CUDA runtime
    with calls that fail at arbitrary points, the owners of its resources, and two program logics, \<open>hoare\<close> for what an
    action does to the memory of the host and \<open>account\<close> for what it owns. \<open>CudaDirect\<close>, \<open>CudaStaging\<close> and \<open>CudaPrepared\<close>
    (\<open>kernels/sparse_decoder.cu\<close>) are the three decode paths call by call on top of it, with their timings: which
    results a failure can leave, that a staged decode is all or nothing and a prepared context survives, that nothing
    leaks but the timing events of a profiled run and the events and streams whose destruction fails (\<open>left_behind\<close>), that
    an upload that failed after its first call is never undone, and that a failing
    \<open>cudaFree\<close> ends the process. \<open>CudaTools\<close> (\<open>kernels/tuning.cuh\<close>, \<open>run_sparse_decode_cuda\<close>, \<open>tools/device_info.cu\<close>): the
    queries of a launch configuration with the current device they switch, the decode of two shards and the device report
    on the same runtime.
  \<^item> \<open>Policy\<close> (\<open>runtime/policy.cpp\<close>): the arrival tracker, and the decision of \<open>Evaluate\<close> on every branch.
  \<^item> \<open>Executor\<close>, \<open>ExecutorRuns\<close> (\<open>runtime/cuda_recovery_executor.cpp\<close>): critical sections as atomic operations, each
    worker a program counter, the condition variable as the set of the workers that sleep, with its notifications and
    spurious wakeups, \<open>exec_step\<close> their interleaving, and any CUDA call of an operation may fail. Bounded
    outstanding work, at most one completion per accepted task, which is truthful unless a client submits a shard whose
    upload failed, draining under every schedule, admission; the locale \<open>recovery_executor\<close> is the admission contract. \<open>CudaWorker\<close> has the
    executor's staging, submission and worker call by call: a task has a truthful result and leaves nothing
    behind but what cannot be destroyed, and
    \<open>StageShard\<close> and \<open>run_task\<close> of the interleavings, with the failures that they name, are what the calls do, whichever
    fail. It also holds a decode that a failed copy corrupts.
  \<^item> \<open>Coordinator\<close>, \<open>CoordinatorRuns\<close> (\<open>runtime/coordinator.cpp\<close>, \<open>serving.hpp\<close>): the state of each request, the
    critical section of an arrival, the threads it leaves behind, and \<open>serve_step\<close>, in which an executor may accept,
    refuse or throw and deliver truthful completions at any time. Delivered and recovered shards are exact, a terminal
    request is final, a request is submitted at most once and leaves \<open>Pending\<close> once its shards are there.
  \<^item> \<open>CudaServing\<close>: the coordinator with the CUDA executor; every run of the composition is a run of each part, so the
    properties of both hold of it, failing CUDA calls included; the coordinator submits no shard whose upload failed.
    It also holds two runs in which a request fails that could be recovered: an arrival comes between the decision and
    the submission, and the copy of a shard fails once. \<open>CoordinatorLifetime\<close>: \<open>WaitForCompletion\<close>, a timed wait whose
    wakeups are the states that it sees, and the destructor, which leaves the executor idle. \<open>CoordinatorOwnership\<close>: who owns the coordinator's \<open>Impl\<close> and the executor, and the destructors
    interleaved with handlers and workers; no handler outlives \<open>Impl\<close>, and a worker never destroys its own executor if the
    client keeps it, whereas one that was given away can end the process.
  \<^item> \<open>LockOrder\<close>: the mutexes that each path of an operation takes, and that threads running them never deadlock; the locale
    \<open>lock_hierarchy\<close> holds the argument.
  \<^item> \<open>RecoveryQueue\<close>, \<open>Simulator\<close>, \<open>ClusterSimulator\<close> (\<open>simulation/\<close>): the bounded queue behind the locale
    \<open>recovery_queue\<close>, one request in virtual time, and many requests competing for the queue; what their metrics mean,
    their bounds, and that they return.
  \<^item> \<open>Workload\<close> (\<open>simulation/workload_generator.cpp\<close>), \<open>SweepOptions\<close> and \<open>Sweep\<close>
    (\<open>experiments/phase7_parameter_sweep.cpp\<close>): generated schedules are valid for the simulators, replication only
    hastens arrivals and spreads evenly; parsed options satisfy the bounds that the parser enforces; on them, with at most
    $2^{53}$ requests and times that stay below $2^{61}$ microseconds, the sweep returns, its rows are exactly the combinations
    of the options, and no strategy is slower than waiting at any percentile it prints. \<open>Rounding\<close>: \<open>std::llround\<close> at 64 bits,
    shared by \<open>Workload\<close> and \<open>CudaWorker\<close>.

  \<^bold>\<open>Interfaces.\<close> \<open>ordered_map\<close> (as \<open>om\<close>), \<open>decode_planner\<close> (\<open>planner\<close>), \<open>decode_backend\<close> (\<open>cpu\<close>), \<open>coded_recovery\<close>
  (\<open>cpu_recovery\<close>), \<open>lock_hierarchy\<close> (\<open>mutexes\<close>), \<open>recovery_executor\<close> (\<open>cuda\<close>) and \<open>recovery_queue\<close> (\<open>lq\<close>) are interpreted on the definitions of the
  code, and the clients use the facts of the interpretations.

  \<^bold>\<open>Integers, loops and bounds.\<close> Shard identifiers and words are 32-bit words, the layout's sizes 64-bit words. Where
  another \<open>size_t\<close> computation can wrap (the queue depth, the shard count of a workload, the offset of the replicas,
  \<open>std::stoull\<close>), \<open>mod 2 ^ 64\<close> is written out; the remaining sizes are element counts of existing containers and are
  \<open>nat\<close>. Durations are \<open>int\<close>: their overflow is undefined in C++. \<open>std::llround\<close>
  gives an unspecified 64-bit value when the time does not fit, and a vector that gets too long throws \<open>LengthError\<close>. There is no fuel: the planner's, simulator's and
  parsers' loops are total functions with a measure, the grid-stride loops of the kernels are partial functions
  proved to return, and what runs for ever by design (workers) is a step relation in which, between two calls of clients and apart from spurious
  wakeups, only finitely many steps are possible.

  \<^bold>\<open>Parameters.\<close> \<open>std::mt19937\<close>, the distributions and \<open>std::shuffle\<close> (assumed to permute), the rounding of \<open>double\<close> and
  \<open>long double\<close> (assumed monotone, exact on small integers, respectively idempotent), \<open>std::llround\<close> where it is
  unspecified, the \<open>max_size()\<close> of two vectors, \<open>std::stod\<close>, the contents of the
  calibration file, the answers of the CUDA runtime (\<open>runtime_ok\<close>: the device has a
  multiprocessor, and the occupancy query recommends a block of at least three threads whose size fits an \<open>int\<close>) and
  the contents of fresh device memory, measured times, the transport, the wait and cost oracles.

  \<^bold>\<open>CUDA calls.\<close> A call that fails has no effect, and an asynchronous copy or launch takes effect when it is enqueued:
  every path works on one stream and waits for it before the results are used. Which calls fail, and what the runtime
  measures between two events, are arbitrary functions of the kind of call and the number of calls made so far; no property assumes that the calls that
  destroy a resource succeed.

  \<^bold>\<open>Not modelled.\<close> The public members that only forward to their \<open>Impl\<close>; move constructors and the \<open>CudaEvent\<close> wrapper beyond
  what it owns; the benchmarks, which measure times; the formatting of the sweep's rows; allocation failure on the
  host; errors of the device that stick, beyond calls that keep failing; the tests, shell and Python
  scripts.
\<close>

end
